(* ===== verification/Prelude.thy ===== *)
theory Prelude
  imports Main "HOL-Library.Word"
begin

text \<open>
  The base of the development: the exceptions of the source as values, the two
  combinators every operation is written with (\<open>ebind\<close> runs a step and hands its
  value to the rest, \<open>FC_ASSERT\<close> is the source's assertion), loops over a container
  that may throw (\<open>efold\<close>), and the tables that stand for the indices of the object
  database together with the lemmas on sums over them that the money proofs use.
\<close>

section \<open>Errors as values\<close>

text \<open>
  One constructor per kind of exception that the modelled code throws.
  \<open>Assert_exception\<close> carries the message of the \<open>FC_ASSERT\<close> (empty where the source
  gives none); \<open>Out_of_range\<close> is \<open>std::out_of_range\<close> of a failed \<open>get\<close>, and
  \<open>Logic_error\<close> the \<open>std::logic_error\<close> of a violated uniqueness constraint. \<open>Fc_exception\<close>
  is an exception copied as its base class \<^verbatim>\<open>fc::exception\<close>: it keeps the code but not the type. \<open>Null_dereference\<close> and
  \<open>Undefined_behaviour\<close> mark undefined behaviour of the source, \<open>Runtime_error\<close> is \<^verbatim>\<open>std::runtime_error\<close>, and \<open>Out_of_fuel\<close> a loop of the model that ran longer than
  its bound; where a loop has one, a theorem shows that it does not run out.
\<close>

datatype error =
    Assert_exception string
  | Overflow_exception
  | Underflow_exception
  | Divide_by_zero_exception
  | Out_of_range string
  | Logic_error string
  | Unlinkable_block_exception
  | Pop_empty_chain
  | Undo_database_exception
  | Block_log_exception
  | Unknown_hardfork_exception
  | Transaction_tapos_exception
  | Transaction_expiration_exception
  | Tx_missing_active_auth
  | Tx_missing_owner_auth
  | Tx_missing_other_auth
  | Tx_irrelevant_sig
  | Tx_duplicate_sig
  | Tx_exceeded_bandwidth
  | Plugin_exception string
  | Parse_error_exception
  | Net_unlinkable_block_exception
  | Peer_is_on_an_unreachable_fork
  | Block_older_than_undo_history
  | Fc_exception error
  | Null_dereference
  | Undefined_behaviour string
  | Runtime_error string
  | Out_of_fuel

type_synonym 'a result = "error + 'a"

named_theorems result_simps \<open>inversion of successful computations\<close>

definition ebind :: "'a result \<Rightarrow> ('a \<Rightarrow> 'b result) \<Rightarrow> 'b result" where
  "ebind m f = (case m of Inl e \<Rightarrow> Inl e | Inr x \<Rightarrow> f x)"

definition FC_ASSERT :: "bool \<Rightarrow> string \<Rightarrow> 'a result \<Rightarrow> 'a result" where
  "FC_ASSERT c msg k = (if c then k else Inl (Assert_exception msg))"

definition ethrow_unless :: "bool \<Rightarrow> error \<Rightarrow> 'a result \<Rightarrow> 'a result" where
  "ethrow_unless c e k = (if c then k else Inl e)"

text \<open>A run that returns a value with a property.\<close>

definition succeeds :: "'a result \<Rightarrow> ('a \<Rightarrow> bool) \<Rightarrow> bool" where
  "succeeds m P = (case m of Inl _ \<Rightarrow> False | Inr x \<Rightarrow> P x)"

text \<open>A run that ends in a given exception.\<close>

definition throws :: "'a result \<Rightarrow> error \<Rightarrow> bool" where
  "throws m e = (case m of Inl e' \<Rightarrow> e' = e | Inr _ \<Rightarrow> False)"

lemma throws_iff: "throws m e \<longleftrightarrow> m = Inl e"
  by (cases m) (simp_all add: throws_def)

lemma succeeds_iff: "succeeds m P \<longleftrightarrow> (\<exists>x. m = Inr x \<and> P x)"
  by (cases m) (simp_all add: succeeds_def)

lemma ebind_Inr [simp]: "ebind (Inr x) f = f x"
  by (simp add: ebind_def)

lemma ebind_Inl [simp]: "ebind (Inl e) f = Inl e"
  by (simp add: ebind_def)

lemma ebind_eq_Inr [result_simps]: "ebind m f = Inr y \<longleftrightarrow> (\<exists>x. m = Inr x \<and> f x = Inr y)"
  by (cases m) simp_all

lemma ebind_eq_Inl: "ebind m f = Inl e \<longleftrightarrow> m = Inl e \<or> (\<exists>x. m = Inr x \<and> f x = Inl e)"
  by (cases m) simp_all

lemma FC_ASSERT_eq_Inr [result_simps]: "FC_ASSERT c msg k = Inr y \<longleftrightarrow> c \<and> k = Inr y"
  by (simp add: FC_ASSERT_def)

lemma FC_ASSERT_True [simp]: "c \<Longrightarrow> FC_ASSERT c msg k = k"
  by (simp add: FC_ASSERT_def)

lemma FC_ASSERT_False [simp]: "\<not> c \<Longrightarrow> FC_ASSERT c msg k = Inl (Assert_exception msg)"
  by (simp add: FC_ASSERT_def)

lemma ethrow_unless_eq_Inr [result_simps]: "ethrow_unless c e k = Inr y \<longleftrightarrow> c \<and> k = Inr y"
  by (simp add: ethrow_unless_def)

lemma ethrow_unless_True [simp]: "c \<Longrightarrow> ethrow_unless c e k = k"
  by (simp add: ethrow_unless_def)

lemma ethrow_unless_False [simp]: "\<not> c \<Longrightarrow> ethrow_unless c e k = Inl e"
  by (simp add: ethrow_unless_def)

lemma ebind_cong [fundef_cong]:
  "m = m' \<Longrightarrow> (\<And>x. m' = Inr x \<Longrightarrow> f x = f' x) \<Longrightarrow> ebind m f = ebind m' f'"
  by (cases m') simp_all

lemma FC_ASSERT_cong [fundef_cong]:
  "c = c' \<Longrightarrow> msg = msg' \<Longrightarrow> (c' \<Longrightarrow> k = k') \<Longrightarrow> FC_ASSERT c msg k = FC_ASSERT c' msg' k'"
  by (simp add: FC_ASSERT_def)

section \<open>Loops that may throw\<close>

fun efold :: "('a \<Rightarrow> 's \<Rightarrow> 's result) \<Rightarrow> 'a list \<Rightarrow> 's \<Rightarrow> 's result" where
  "efold f [] s = Inr s"
| "efold f (x # xs) s = ebind (f x s) (efold f xs)"

text \<open>An invariant of the body is an invariant of the loop.\<close>

lemma efold_invariant:
  assumes "efold f xs s = Inr s'"
    and "P s"
    and "\<And>x t t'. x \<in> set xs \<Longrightarrow> P t \<Longrightarrow> f x t = Inr t' \<Longrightarrow> P t'"
  shows "P s'"
  using assms
proof (induction xs arbitrary: s)
  case Nil
  then show ?case by simp
next
  case (Cons x xs)
  from Cons.prems(1) obtain t where t: "f x s = Inr t" and rest: "efold f xs t = Inr s'"
    by (auto simp: result_simps)
  have "P t" using Cons.prems(2,3) t by auto
  with Cons.IH [OF rest] Cons.prems(3) show ?case by auto
qed

lemma efold_append:
  "efold f (xs @ ys) s = ebind (efold f xs s) (efold f ys)"
proof (induction xs arbitrary: s)
  case (Cons x xs)
  then show ?case by (cases "f x s") simp_all
qed simp

section \<open>Tables\<close>

text \<open>
  An index of the object database is the list of its objects in the order of their
  ids (the order in which they were created), together with the next id. A unique
  key of the index is a function of the object.
\<close>

record 'v table =
  rows :: "'v list"
  next_id :: nat

definition empty_table :: "'v table" where
  "empty_table = \<lparr>rows = [], next_id = 0\<rparr>"

definition find_by :: "('v \<Rightarrow> 'k) \<Rightarrow> 'k \<Rightarrow> 'v list \<Rightarrow> 'v option" where
  "find_by key k vs = List.find (\<lambda>v. key v = k) vs"

definition get_by :: "('v \<Rightarrow> 'k) \<Rightarrow> 'k \<Rightarrow> 'v list \<Rightarrow> 'v result" where
  "get_by key k vs =
     (case find_by key k vs of None \<Rightarrow> Inl (Out_of_range ''unknown key'') | Some v \<Rightarrow> Inr v)"

definition modify_by :: "('v \<Rightarrow> 'k) \<Rightarrow> 'k \<Rightarrow> ('v \<Rightarrow> 'v) \<Rightarrow> 'v list \<Rightarrow> 'v list" where
  "modify_by key k f vs = map (\<lambda>v. if key v = k then f v else v) vs"

definition remove_by :: "('v \<Rightarrow> 'k) \<Rightarrow> 'k \<Rightarrow> 'v list \<Rightarrow> 'v list" where
  "remove_by key k vs = filter (\<lambda>v. key v \<noteq> k) vs"

text \<open>\<open>create\<close>: the constructor gets the next id; a second object with the same unique
  key makes the insertion throw.\<close>

definition create_in :: "('v \<Rightarrow> 'k) \<Rightarrow> (nat \<Rightarrow> 'v) \<Rightarrow> 'v table \<Rightarrow> 'v table result" where
  "create_in key mk t =
     (let v = mk (next_id t) in
      if key v \<in> key ` set (rows t)
      then Inl (Logic_error ''could not insert object, most likely a uniqueness constraint was violated'')
      else Inr \<lparr>rows = rows t @ [v], next_id = Suc (next_id t)\<rparr>)"

lemma find_by_Some: "find_by key k vs = Some v \<Longrightarrow> v \<in> set vs \<and> key v = k"
  by (auto simp: find_by_def find_Some_iff)

lemma find_by_None: "find_by key k vs = None \<longleftrightarrow> k \<notin> key ` set vs"
  by (auto simp: find_by_def find_None_iff)

lemma find_by_unique:
  assumes "distinct (map key vs)" "v \<in> set vs"
  shows "find_by key (key v) vs = Some v"
proof -
  have "find_by key (key v) vs \<noteq> None"
    using assms(2) by (auto simp: find_by_None)
  then obtain w where w: "find_by key (key v) vs = Some w" by blast
  from find_by_Some [OF w] assms have "w = v" by (auto simp: distinct_map inj_on_def)
  with w show ?thesis by simp
qed

lemma get_by_Inr [result_simps]: "get_by key k vs = Inr v \<longleftrightarrow> find_by key k vs = Some v"
  by (simp add: get_by_def split: option.splits)

lemma map_modify_by:
  assumes "\<And>v. key v = k \<Longrightarrow> g (f v) = g v"
  shows "map g (modify_by key k f vs) = map g vs"
  using assms by (simp add: modify_by_def)

lemma set_modify_by: "w \<in> set (modify_by key k f vs) \<Longrightarrow>
  w \<in> set vs \<or> (\<exists>v \<in> set vs. key v = k \<and> w = f v)"
  by (auto simp: modify_by_def)

lemma find_by_modify_same:
  assumes "find_by key k vs = Some v" "\<And>v. key (f v) = key v"
  shows "find_by key k (modify_by key k f vs) = Some (f v)"
  using assms by (induction vs) (auto simp: find_by_def modify_by_def)

lemma find_by_modify_other:
  assumes "k' \<noteq> k" "\<And>v. key (f v) = key v"
  shows "find_by key k' (modify_by key k f vs) = find_by key k' vs"
  using assms by (induction vs) (auto simp: find_by_def modify_by_def)

lemma find_by_modify_const:
  assumes "key v = k"
  shows "find_by key n (modify_by key k (\<lambda>_. v) vs) = (if n = k then map_option (\<lambda>_. v) (find_by key n vs) else find_by key n vs)"
  using assms by (induction vs) (auto simp: find_by_def modify_by_def)

lemma find_by_append_new:
  "find_by key k vs = None \<Longrightarrow> key v = k \<Longrightarrow> find_by key n (vs @ [v]) = (if n = k then Some v else find_by key n vs)"
  by (induction vs) (auto simp: find_by_def split: if_splits)

lemma modify_by_absent: "k \<notin> key ` set vs \<Longrightarrow> modify_by key k f vs = vs"
  by (induction vs) (auto simp: modify_by_def)

lemma remove_by_absent: "k \<notin> key ` set vs \<Longrightarrow> remove_by key k vs = vs"
  by (induction vs) (auto simp: remove_by_def)

text \<open>Sums over a table: changing the one object with a key changes the sum by the
  change of that object, removing it subtracts its share.\<close>

lemma sum_modify_by:
  fixes g :: "'v \<Rightarrow> int"
  assumes "distinct (map key vs)" "find_by key k vs = Some v"
  shows "sum_list (map g (modify_by key k f vs)) = sum_list (map g vs) - g v + g (f v)"
  using assms
proof (induction vs)
  case Nil
  then show ?case by (simp add: find_by_def)
next
  case (Cons x xs)
  show ?case
  proof (cases "key x = k")
    case True
    with Cons.prems have "x = v" by (simp add: find_by_def)
    moreover have "modify_by key k f xs = xs"
      using Cons.prems(1) True by (intro modify_by_absent) auto
    ultimately show ?thesis using True by (simp add: modify_by_def)
  next
    case False
    with Cons show ?thesis by (simp add: find_by_def modify_by_def)
  qed
qed

lemma sum_remove_by:
  fixes g :: "'v \<Rightarrow> int"
  assumes "distinct (map key vs)" "find_by key k vs = Some v"
  shows "sum_list (map g (remove_by key k vs)) = sum_list (map g vs) - g v"
  using assms
proof (induction vs)
  case Nil
  then show ?case by (simp add: find_by_def)
next
  case (Cons x xs)
  show ?case
  proof (cases "key x = k")
    case True
    with Cons.prems have "x = v" by (simp add: find_by_def)
    moreover have "remove_by key k xs = xs"
      using Cons.prems(1) True by (intro remove_by_absent) auto
    ultimately show ?thesis using True by (simp add: remove_by_def)
  next
    case False
    with Cons show ?thesis by (simp add: find_by_def remove_by_def)
  qed
qed

lemma map_key_modify_by [simp]:
  "(\<And>v. key (f v) = key v) \<Longrightarrow> map key (modify_by key k f vs) = map key vs"
  by (simp add: modify_by_def)

lemma distinct_remove_by [simp]:
  "distinct (map key vs) \<Longrightarrow> distinct (map key (remove_by key k vs))"
  by (simp add: remove_by_def distinct_map_filter)

lemma create_in_Inr [result_simps]:
  "create_in key mk t = Inr t' \<longleftrightarrow>
     key (mk (next_id t)) \<notin> key ` set (rows t) \<and>
     t' = \<lparr>rows = rows t @ [mk (next_id t)], next_id = Suc (next_id t)\<rparr>"
  by (auto simp: create_in_def Let_def)

section \<open>Sorted association lists\<close>

text \<open>A \<^verbatim>\<open>flat_map\<close> is a list sorted by key; \<open>m[k] = w\<close> inserts or overwrites.\<close>

fun flat_insert :: "'k::linorder \<Rightarrow> 'v \<Rightarrow> ('k \<times> 'v) list \<Rightarrow> ('k \<times> 'v) list" where
  "flat_insert k v [] = [(k, v)]"
| "flat_insert k v ((k', v') # rest) =
     (if k < k' then (k, v) # (k', v') # rest
      else if k = k' then (k, v) # rest else (k', v') # flat_insert k v rest)"

lemma all_flat_insert [simp]:
  "(\<forall>x \<in> set (flat_insert k v xs). P (fst x)) \<longleftrightarrow> P k \<and> (\<forall>x \<in> set xs. P (fst x))"
  by (induction k v xs rule: flat_insert.induct) auto

lemma all_in_flat_insert [simp]:
  "(\<forall>x \<in> set (flat_insert k v xs). fst x \<in> S) \<longleftrightarrow> k \<in> S \<and> (\<forall>x \<in> set xs. fst x \<in> S)"
  by (rule all_flat_insert)

lemma map_of_flat_insert [simp]: "map_of (flat_insert k v xs) = (map_of xs)(k \<mapsto> v)"
  by (induction k v xs rule: flat_insert.induct) (auto simp: fun_eq_iff)

lemma set_flat_insert: "fst ` set (flat_insert k v xs) = insert k (fst ` set xs)"
  by (induction k v xs rule: flat_insert.induct) auto

lemma flat_insert_sorted:
  "sorted_wrt (<) (map fst xs) \<Longrightarrow> sorted_wrt (<) (map fst (flat_insert k v xs))"
proof (induction k v xs rule: flat_insert.induct)
  case (2 k v k' v' rest)
  have keys: "fst ` set (flat_insert k v rest) = insert k (fst ` set rest)" by (rule set_flat_insert)
  from 2 show ?case by (auto simp: keys)
qed simp

definition erase :: "'k \<Rightarrow> ('k \<times> 'v) list \<Rightarrow> ('k \<times> 'v) list" where
  "erase k xs = filter (\<lambda>p. fst p \<noteq> k) xs"

lemma map_of_erase [simp]: "map_of (erase k xs) = (map_of xs)(k := None)"
  by (induction xs) (auto simp: erase_def)

lemma sorted_erase: "sorted_wrt (<) (map fst xs) \<Longrightarrow> sorted_wrt (<) (map fst (erase k xs))"
  unfolding erase_def by (induction xs) auto

text \<open>A concrete run carries over to what follows from it.\<close>

lemma succeeds_mono: "succeeds m P \<Longrightarrow> (\<And>x. m = Inr x \<Longrightarrow> P x \<Longrightarrow> Q x) \<Longrightarrow> succeeds m Q"
  by (auto simp: succeeds_iff)

end
