(* ===== verification/Safe_Int.thy ===== *)
theory Safe_Int
  imports Prelude "HOL-Library.Signed_Division"
begin

text \<open>
  \<^verbatim>\<open>fc::safe<int64_t>\<close> (\<^verbatim>\<open>libraries/fc/include/fc/safe.hpp\<close>), the type \<^verbatim>\<open>share_type\<close> of every
  amount on the chain: the value is an \<open>int\<close>, each operator is the source's range test
  followed by the operation, and an overflow is an exception, never a wrapped value.
  C++ division truncates towards zero, which is \<open>sdiv\<close> and \<open>smod\<close> of the library.
  The lemmas show that on 64-bit operands each operator returns the exact result when
  it fits and throws otherwise.
\<close>

type_synonym share_type = int

definition int64_min :: int where "int64_min = -9223372036854775808"
definition int64_max :: int where "int64_max = 9223372036854775807"

definition is_int64 :: "int \<Rightarrow> bool" where
  "is_int64 x \<longleftrightarrow> int64_min \<le> x \<and> x \<le> int64_max"

definition safe_add :: "share_type \<Rightarrow> share_type \<Rightarrow> share_type result" where
  "safe_add a b =
     (if b > 0 \<and> a > int64_max - b then Inl Overflow_exception
      else if b < 0 \<and> a < int64_min - b then Inl Underflow_exception
      else Inr (a + b))"

definition safe_sub :: "share_type \<Rightarrow> share_type \<Rightarrow> share_type result" where
  "safe_sub a b =
     (if b > 0 \<and> a < int64_min + b then Inl Underflow_exception
      else if b < 0 \<and> a > int64_max + b then Inl Overflow_exception
      else Inr (a - b))"

definition safe_mul :: "share_type \<Rightarrow> share_type \<Rightarrow> share_type result" where
  "safe_mul a b =
     (if a > 0 then
        if b > 0 then
          if a > int64_max sdiv b then Inl Overflow_exception else Inr (a * b)
        else
          if b < int64_min sdiv a then Inl Underflow_exception else Inr (a * b)
      else
        if b > 0 then
          if a < int64_min sdiv b then Inl Underflow_exception else Inr (a * b)
        else
          if a \<noteq> 0 \<and> b < int64_max sdiv a then Inl Overflow_exception else Inr (a * b))"

definition safe_div :: "share_type \<Rightarrow> share_type \<Rightarrow> share_type result" where
  "safe_div a b =
     (if b = 0 then Inl Divide_by_zero_exception
      else if a = int64_min \<and> b = -1 then Inl Overflow_exception
      else Inr (a sdiv b))"

definition safe_mod :: "share_type \<Rightarrow> share_type \<Rightarrow> share_type result" where
  "safe_mod a b =
     (if b = 0 then Inl Divide_by_zero_exception
      else if a = int64_min \<and> b = -1 then Inl Overflow_exception
      else Inr (a smod b))"

definition safe_neg :: "share_type \<Rightarrow> share_type result" where
  "safe_neg a = (if a = int64_min then Inl Overflow_exception else Inr (- a))"

lemmas int64_defs = int64_min_def int64_max_def is_int64_def

text \<open>
  The unsigned types of the source wrap; the signed type of an amount that is handled
  outside \<^verbatim>\<open>safe\<close> (\<^verbatim>\<open>amount.value\<close>) is two's complement. \<open>u32\<close>, \<open>u64\<close>, \<open>u128\<close> and \<open>i64\<close> are the
  conversions to these types.
\<close>

definition u8 :: "int \<Rightarrow> int" where "u8 x = x mod 256"
definition u32 :: "int \<Rightarrow> int" where "u32 x = x mod 4294967296"
definition u64 :: "int \<Rightarrow> int" where "u64 x = x mod 18446744073709551616"
definition u128 :: "int \<Rightarrow> int" where "u128 x = x mod 340282366920938463463374607431768211456"
definition i64 :: "int \<Rightarrow> int" where
  "i64 x = (x + 9223372036854775808) mod 18446744073709551616 - 9223372036854775808"

lemma u32_id: "0 \<le> x \<Longrightarrow> x < 4294967296 \<Longrightarrow> u32 x = x"
  by (simp add: u32_def)

lemma u64_id: "0 \<le> x \<Longrightarrow> x < 18446744073709551616 \<Longrightarrow> u64 x = x"
  by (simp add: u64_def)

lemma u128_id: "0 \<le> x \<Longrightarrow> x < 340282366920938463463374607431768211456 \<Longrightarrow> u128 x = x"
  by (simp add: u128_def)

lemma i64_id: "is_int64 x \<Longrightarrow> i64 x = x"
  by (simp add: i64_def int64_defs)

lemma is_int64_i64 [simp]: "is_int64 (i64 x)"
proof -
  have "0 \<le> (x + 9223372036854775808) mod 18446744073709551616"
    "(x + 9223372036854775808) mod 18446744073709551616 < 18446744073709551616"
    by simp_all
  then show ?thesis unfolding i64_def is_int64_def int64_min_def int64_max_def by linarith
qed

lemma u32_range [simp]: "0 \<le> u32 x" "u32 x < 4294967296"
  by (simp_all add: u32_def)

lemma u64_range [simp]: "0 \<le> u64 x" "u64 x < 18446744073709551616"
  by (simp_all add: u64_def)

section \<open>A successful operation is exact\<close>

lemma safe_add_Inr [result_simps]: "safe_add a b = Inr c \<longleftrightarrow>
    c = a + b \<and> \<not> (b > 0 \<and> a > int64_max - b) \<and> \<not> (b < 0 \<and> a < int64_min - b)"
  by (auto simp: safe_add_def)

lemma safe_sub_Inr [result_simps]: "safe_sub a b = Inr c \<longleftrightarrow>
    c = a - b \<and> \<not> (b > 0 \<and> a < int64_min + b) \<and> \<not> (b < 0 \<and> a > int64_max + b)"
  by (auto simp: safe_sub_def)

lemma safe_mul_InrD: "safe_mul a b = Inr c \<Longrightarrow> c = a * b"
  by (auto simp: safe_mul_def split: if_splits)

lemma safe_div_Inr [result_simps]: "safe_div a b = Inr c \<longleftrightarrow>
    b \<noteq> 0 \<and> \<not> (a = int64_min \<and> b = -1) \<and> c = a sdiv b"
  by (auto simp: safe_div_def)

lemma safe_mod_Inr [result_simps]: "safe_mod a b = Inr c \<longleftrightarrow>
    b \<noteq> 0 \<and> \<not> (a = int64_min \<and> b = -1) \<and> c = a smod b"
  by (auto simp: safe_mod_def)

lemma safe_neg_Inr [result_simps]: "safe_neg a = Inr c \<longleftrightarrow> a \<noteq> int64_min \<and> c = - a"
  by (auto simp: safe_neg_def)

text \<open>On 64-bit operands addition and subtraction succeed exactly when the result fits.\<close>

lemma safe_add_spec:
  assumes "is_int64 a" "is_int64 b"
  shows "safe_add a b =
    (if a + b > int64_max then Inl Overflow_exception
     else if a + b < int64_min then Inl Underflow_exception else Inr (a + b))"
  using assms by (auto simp: safe_add_def is_int64_def)

lemma safe_sub_spec:
  assumes "is_int64 a" "is_int64 b"
  shows "safe_sub a b =
    (if a - b > int64_max then Inl Overflow_exception
     else if a - b < int64_min then Inl Underflow_exception else Inr (a - b))"
  using assms by (auto simp: safe_sub_def is_int64_def)

lemma safe_add_ok: "is_int64 a \<Longrightarrow> is_int64 b \<Longrightarrow> is_int64 (a + b) \<Longrightarrow> safe_add a b = Inr (a + b)"
  by (simp add: safe_add_spec) (simp add: is_int64_def)

lemma safe_sub_ok: "is_int64 a \<Longrightarrow> is_int64 b \<Longrightarrow> is_int64 (a - b) \<Longrightarrow> safe_sub a b = Inr (a - b)"
  by (simp add: safe_sub_spec) (simp add: is_int64_def)

section \<open>The test before a multiplication\<close>

text \<open>A quotient test on magnitudes is the comparison with the product.\<close>

lemma div_less_iff_mult_greater:
  fixes a b m :: int
  assumes "0 < b"
  shows "m div b < a \<longleftrightarrow> m < a * b"
proof
  assume "m div b < a"
  then have "(m div b + 1) * b \<le> a * b" using assms by (intro mult_right_mono) simp_all
  moreover have "m < (m div b + 1) * b"
    unfolding distrib_right using assms pos_mod_bound [of b m] div_mult_mod_eq [of m b] by linarith
  ultimately show "m < a * b" by simp
next
  assume "m < a * b"
  show "m div b < a"
  proof (rule ccontr)
    assume "\<not> m div b < a"
    then have "a * b \<le> m div b * b" using assms by (intro mult_right_mono) simp_all
    also have "\<dots> \<le> m" using assms pos_mod_sign [of b m] div_mult_mod_eq [of m b] by linarith
    finally show False using \<open>m < a * b\<close> by simp
  qed
qed

lemma sdiv_pos: "0 \<le> (m::int) \<Longrightarrow> 0 < b \<Longrightarrow> m sdiv b = m div b"
  by (cases "m = 0") (simp_all add: signed_divide_int_def)

lemma sdiv_neg_dividend: "(m::int) < 0 \<Longrightarrow> 0 < b \<Longrightarrow> m sdiv b = - ((- m) div b)"
  by (simp add: signed_divide_int_def)

lemma sdiv_neg_divisor: "0 < (m::int) \<Longrightarrow> b < 0 \<Longrightarrow> m sdiv b = - (m div (- b))"
  by (simp add: signed_divide_int_def)

lemma safe_mul_pos_pos:
  assumes "0 < a" "0 < b"
  shows "safe_mul a b = (if int64_max < a * b then Inl Overflow_exception else Inr (a * b))"
  using assms div_less_iff_mult_greater [of b int64_max a]
  by (simp add: safe_mul_def sdiv_pos int64_max_def)

lemma safe_mul_pos_neg:
  assumes "0 < a" "b \<le> 0"
  shows "safe_mul a b = (if a * b < int64_min then Inl Underflow_exception else Inr (a * b))"
proof -
  have "b < int64_min sdiv a \<longleftrightarrow> (- int64_min) div a < - b"
    using assms sdiv_neg_dividend [of int64_min] by (auto simp: int64_min_def)
  also have "\<dots> \<longleftrightarrow> a * b < int64_min"
    using div_less_iff_mult_greater [OF assms(1), of "- int64_min" "- b"]
    by (simp add: mult.commute)
  finally show ?thesis using assms by (simp add: safe_mul_def)
qed

lemma safe_mul_neg_pos:
  assumes "a \<le> 0" "0 < b"
  shows "safe_mul a b = (if a * b < int64_min then Inl Underflow_exception else Inr (a * b))"
proof -
  have "a < int64_min sdiv b \<longleftrightarrow> (- int64_min) div b < - a"
    using assms sdiv_neg_dividend [of int64_min] by (auto simp: int64_min_def)
  also have "\<dots> \<longleftrightarrow> a * b < int64_min"
    using div_less_iff_mult_greater [OF assms(2), of "- int64_min" "- a"] by simp
  finally show ?thesis using assms by (simp add: safe_mul_def)
qed

lemma safe_mul_neg_neg:
  assumes "a \<le> 0" "b \<le> 0"
  shows "safe_mul a b = (if int64_max < a * b then Inl Overflow_exception else Inr (a * b))"
proof (cases "a = 0")
  case True
  with assms show ?thesis by (simp add: safe_mul_def int64_max_def)
next
  case False
  with assms have a: "a < 0" by simp
  have "b < int64_max sdiv a \<longleftrightarrow> int64_max div (- a) < - b"
    using a by (simp add: sdiv_neg_divisor int64_max_def) linarith
  also have "\<dots> \<longleftrightarrow> int64_max < a * b"
    using div_less_iff_mult_greater [of "- a" int64_max "- b"] a by (simp add: mult.commute)
  finally show ?thesis using assms a by (simp add: safe_mul_def)
qed

text \<open>Multiplication of two amounts returns the exact product whenever the product is
  a 64-bit value and throws otherwise: an overflow exception when the product is too
  large, an underflow exception when it is too small. No operand makes it wrap.\<close>

theorem safe_mul_exact_or_throws:
  "safe_mul a b =
     (if a * b > int64_max then Inl Overflow_exception
      else if a * b < int64_min then Inl Underflow_exception
      else Inr (a * b))"
proof (cases "0 < a"; cases "0 < b")
  assume ab: "0 < a" "0 < b"
  then have "0 < a * b" by simp
  moreover from this have "\<not> a * b < int64_min" by (simp add: int64_min_def)
  ultimately show ?thesis using ab by (simp add: safe_mul_pos_pos)
next
  assume ab: "0 < a" "\<not> 0 < b"
  then have "a * b \<le> 0" by (simp add: mult_le_0_iff)
  with ab show ?thesis by (simp add: safe_mul_pos_neg int64_max_def)
next
  assume ab: "\<not> 0 < a" "0 < b"
  then have "a * b \<le> 0" by (simp add: mult_le_0_iff)
  with ab show ?thesis by (simp add: safe_mul_neg_pos int64_max_def)
next
  assume ab: "\<not> 0 < a" "\<not> 0 < b"
  then have "0 \<le> a * b" by (simp add: zero_le_mult_iff)
  with ab show ?thesis by (simp add: safe_mul_neg_neg int64_min_def)
qed

end
