(* ===== verification/UInt128.thy ===== *)
theory UInt128
  imports Prelude
begin

unbundle bit_operations_syntax

text \<open>
  \<^verbatim>\<open>fc::uint128\<close> (\<^verbatim>\<open>libraries/fc/include/fc/uint128.hpp\<close>, \<^verbatim>\<open>libraries/fc/src/uint128.cpp\<close>):
  a 128-bit unsigned integer as two 64-bit words, with the source's carry, two's
  complement, split shift and schoolbook multiplication. The value of such a pair is
  \<open>u128_val\<close>; each routine is shown to compute the arithmetic of naturals modulo
  \<open>2 ^ 128\<close>. Virtual time and the price comparison of the chain rest on these facts:
  the other theories use \<open>nat\<close> modulo \<open>2 ^ 128\<close> for this type.
\<close>

section \<open>The routines\<close>

record uint128 =
  u_hi :: "64 word"
  u_lo :: "64 word"

abbreviation U128 :: "64 word \<Rightarrow> 64 word \<Rightarrow> uint128" where
  "U128 h l \<equiv> \<lparr>u_hi = h, u_lo = l\<rparr>"

definition u128_of_u64 :: "64 word \<Rightarrow> uint128" where
  "u128_of_u64 l = U128 0 l"

text \<open>\<^verbatim>\<open>uint128( int64_t l ) : hi( -(l<0) ), lo(l)\<close>\<close>

definition u128_of_i64 :: "int \<Rightarrow> uint128" where
  "u128_of_i64 l = U128 (if l < 0 then -1 else 0) (word_of_int l)"

definition u128_less :: "uint128 \<Rightarrow> uint128 \<Rightarrow> bool" where
  "u128_less a b = (if u_hi a = u_hi b then u_lo a < u_lo b else u_hi a < u_hi b)"

definition u128_not :: "uint128 \<Rightarrow> uint128" where
  "u128_not a = U128 (NOT (u_hi a)) (NOT (u_lo a))"

definition u128_inc :: "uint128 \<Rightarrow> uint128" where
  "u128_inc a = (let l = u_lo a + 1 in U128 (u_hi a + (if l = 0 then 1 else 0)) l)"

definition u128_neg :: "uint128 \<Rightarrow> uint128" where
  "u128_neg a = u128_inc (U128 (NOT (u_hi a)) (NOT (u_lo a)))"

definition u128_add :: "uint128 \<Rightarrow> uint128 \<Rightarrow> uint128" where
  "u128_add a u = (let old = u_lo a; l = old + u_lo u
                   in U128 (u_hi a + (u_hi u + (if l < old then 1 else 0))) l)"

definition u128_sub :: "uint128 \<Rightarrow> uint128 \<Rightarrow> uint128" where
  "u128_sub a u = u128_add a (u128_neg u)"

definition u128_shl :: "uint128 \<Rightarrow> nat \<Rightarrow> uint128" where
  "u128_shl a n0 =
     (if n0 \<ge> 128 then U128 0 0
      else let (n, h, l) = (if n0 \<ge> 64 then (n0 - 64, u_lo a, 0) else (n0, u_hi a, u_lo a))
           in if n \<noteq> 0 then
                let mask = NOT (drop_bit n (-1))
                in U128 (push_bit n h OR drop_bit (64 - n) (l AND mask)) (push_bit n l)
              else U128 h l)"

definition u128_shr :: "uint128 \<Rightarrow> nat \<Rightarrow> uint128" where
  "u128_shr a n0 =
     (if n0 \<ge> 128 then U128 0 0
      else let (n, h, l) = (if n0 \<ge> 64 then (n0 - 64, 0, u_hi a) else (n0, u_hi a, u_lo a))
           in if n \<noteq> 0 then
                let mask = NOT (push_bit n (-1))
                in U128 (drop_bit n h) (drop_bit n l OR push_bit (64 - n) (h AND mask))
              else U128 h l)"

text \<open>The limbs \<^verbatim>\<open>(uint32_t) lo\<close> and \<^verbatim>\<open>(uint32_t) (lo >> 0x20)\<close>.\<close>

definition limb0 :: "64 word \<Rightarrow> 64 word" where
  "limb0 w = take_bit 32 w"

definition limb1 :: "64 word \<Rightarrow> 64 word" where
  "limb1 w = take_bit 32 (drop_bit 32 w)"

definition u128_mul :: "uint128 \<Rightarrow> uint128 \<Rightarrow> uint128" where
  "u128_mul a b =
     (let a0 = limb0 (u_lo a); a1 = limb1 (u_lo a); a2 = limb0 (u_hi a); a3 = limb1 (u_hi a);
          b0 = limb0 (u_lo b); b1 = limb1 (u_lo b); b2 = limb0 (u_hi b); b3 = limb1 (u_hi b);
          t = u128_of_u64 (a3 * b0);
          t = u128_add t (u128_of_u64 (a2 * b1));
          t = u128_add t (u128_of_u64 (a1 * b2));
          t = u128_add t (u128_of_u64 (a0 * b3));
          t = u128_shl t 32;
          t = u128_add t (u128_of_u64 (a2 * b0));
          t = u128_add t (u128_of_u64 (a1 * b1));
          t = u128_add t (u128_of_u64 (a0 * b2));
          t = u128_shl t 32;
          t = u128_add t (u128_of_u64 (a1 * b0));
          t = u128_add t (u128_of_u64 (a0 * b1));
          t = u128_shl t 32
      in u128_add t (u128_of_u64 (a0 * b0)))"

definition full_product :: "uint128 \<Rightarrow> uint128 \<Rightarrow> uint128 \<times> uint128" where
  "full_product a b =
     (let s = u128_mul (u128_of_u64 (u_lo a)) (u128_of_u64 (u_lo b));
          r = u128_mul (u128_of_u64 (u_hi a)) (u128_of_u64 (u_lo b));
          q = u128_mul (u128_of_u64 (u_lo a)) (u128_of_u64 (u_hi b));
          p = u128_mul (u128_of_u64 (u_hi a)) (u128_of_u64 (u_hi b));
          y0 = u_lo s;
          acc = u128_of_u64 (u_hi s);
          acc = u128_add acc (u128_of_u64 (u_lo q));
          acc = u128_add acc (u128_of_u64 (u_lo r));
          y1 = u_lo acc;
          acc = u128_of_u64 (u_hi acc);
          acc = u128_add acc (u128_of_u64 (u_hi q));
          acc = u128_add acc (u128_of_u64 (u_hi r));
          acc = u128_add acc (u128_of_u64 (u_lo p));
          y2 = u_lo acc;
          y3 = u_hi acc + u_hi p
      in (U128 y3 y2, U128 y1 y0))"

definition to_uint64 :: "uint128 \<Rightarrow> (64 word) result" where
  "to_uint64 a = FC_ASSERT (u_hi a = 0) '''' (Inr (u_lo a))"

section \<open>Values\<close>

definition u128_val :: "uint128 \<Rightarrow> nat" where
  "u128_val a = unat (u_hi a) * 2 ^ 64 + unat (u_lo a)"

lemma unat64_less: "unat (w :: 64 word) < 18446744073709551616"
  using unsigned_less [of w, where ?'a = nat] by simp

lemma unat64_add: "unat ((x :: 64 word) + y) = (unat x + unat y) mod 18446744073709551616"
  by (simp add: unat_word_ariths)

lemma u128_val_less: "u128_val a < 2 ^ 128"
  using unat64_less [of "u_hi a"] unat64_less [of "u_lo a"] by (simp add: u128_val_def)

lemma u128_val_inject: "u128_val a = u128_val b \<longleftrightarrow> a = b"
proof
  assume eq: "u128_val a = u128_val b"
  have "unat (u_lo a) = u128_val a mod 2 ^ 64" for a
    using unat64_less [of "u_lo a"] by (simp add: u128_val_def)
  moreover have "unat (u_hi a) = u128_val a div 2 ^ 64" for a
    using unat64_less [of "u_lo a"] by (simp add: u128_val_def)
  ultimately have "unat (u_lo a) = unat (u_lo b)" "unat (u_hi a) = unat (u_hi b)"
    using eq by metis+
  then show "a = b" by (cases a; cases b) (simp add: word_unat_eq_iff)
qed simp

lemma U128_collapse [simp]: "U128 (u_hi a) (u_lo a) = a"
  by simp

lemma u128_val_of_u64 [simp]: "u128_val (u128_of_u64 w) = unat w"
  by (simp add: u128_val_def u128_of_u64_def)

lemma u128_less_val: "u128_less a b \<longleftrightarrow> u128_val a < u128_val b"
  using unat64_less [of "u_lo a"] unat64_less [of "u_lo b"]
  by (auto simp: u128_less_def u128_val_def word_less_nat_alt word_unat_eq_iff)

lemma carry_iff: "(x :: 64 word) + y < x \<longleftrightarrow> 18446744073709551616 \<le> unat x + unat y"
  using unat64_less [of x] unat64_less [of y]
  by (auto simp: word_less_nat_alt unat64_add mod_if)

lemma u128_val_mod_split:
  "(h mod 18446744073709551616 * 2 ^ 64 + l) mod 2 ^ 128 = (h * 2 ^ 64 + l) mod (2 ^ 128 :: nat)"
proof -
  have "h mod 18446744073709551616 * 2 ^ 64 = (h * 2 ^ 64) mod (2 ^ 128 :: nat)"
    using mod_mult_mult2 [of h "2 ^ 64" "2 ^ 64"] by simp
  then show ?thesis by (simp add: mod_add_left_eq)
qed

lemma u128_val_add: "u128_val (u128_add a b) = (u128_val a + u128_val b) mod 2 ^ 128"
proof -
  let ?B = "18446744073709551616 :: nat"
  define c where "c = (if ?B \<le> unat (u_lo a) + unat (u_lo b) then 1 else 0 :: nat)"
  have lo: "unat (u_lo a + u_lo b) + c * ?B = unat (u_lo a) + unat (u_lo b)"
    using unat64_less [of "u_lo a"] unat64_less [of "u_lo b"]
    by (auto simp: c_def unat64_add mod_if)
  have hi: "unat (u_hi a + (u_hi b + (if u_lo a + u_lo b < u_lo a then 1 else 0))) =
      (unat (u_hi a) + unat (u_hi b) + c) mod ?B"
    by (auto simp: carry_iff c_def unat64_add mod_simps ac_simps)
  have "u128_val (u128_add a b) = (unat (u_hi a) + unat (u_hi b) + c) mod ?B * 2 ^ 64
      + unat (u_lo a + u_lo b)"
    unfolding u128_add_def Let_def u128_val_def by (simp only: uint128.simps hi)
  also have "\<dots> = \<dots> mod 2 ^ 128"
    using u128_val_less [of "u128_add a b"] calculation by simp
  also have "\<dots> = ((unat (u_hi a) + unat (u_hi b) + c) * 2 ^ 64 + unat (u_lo a + u_lo b)) mod 2 ^ 128"
    by (rule u128_val_mod_split)
  also have "(unat (u_hi a) + unat (u_hi b) + c) * 2 ^ 64 + unat (u_lo a + u_lo b)
      = u128_val a + u128_val b"
    using lo by (simp add: u128_val_def algebra_simps)
  finally show ?thesis .
qed

lemma u128_inc_add: "u128_inc a = u128_add a (U128 0 1)"
proof -
  have "u_lo a + 1 = 0 \<longleftrightarrow> u_lo a + 1 < u_lo a"
    using unat64_less [of "u_lo a"]
    by (auto simp: carry_iff word_unat_eq_iff unat64_add mod_if)
  then show ?thesis by (simp add: u128_inc_def u128_add_def Let_def)
qed

lemma unat_not64: "unat (NOT (w :: 64 word)) = 18446744073709551615 - unat w"
proof -
  have m1: "unat (- 1 :: 64 word) = 18446744073709551615"
    by (simp add: unsigned_minus_1_eq_mask mask_eq_exp_minus_1)
  have "unat (NOT w) = unat (- 1 - w)" by (simp add: not_eq_complement minus_diff_commute)
  also have "\<dots> = unat (- 1 :: 64 word) - unat w"
    using unat64_less [of w] by (intro unat_sub) (simp only: word_le_nat_alt m1)
  finally show ?thesis by (simp only: m1)
qed

lemma u128_val_neg: "u128_val (u128_neg a) = (2 ^ 128 - u128_val a) mod 2 ^ 128"
proof -
  have "u128_val (U128 (NOT (u_hi a)) (NOT (u_lo a))) = 2 ^ 128 - 1 - u128_val a"
    using unat64_less [of "u_hi a"] unat64_less [of "u_lo a"]
    by (simp add: u128_val_def unat_not64)
  moreover have "u128_val (U128 0 1) = 1" by (simp add: u128_val_def)
  moreover have "2 ^ 128 - 1 - u128_val a + 1 = 2 ^ 128 - u128_val a"
    using u128_val_less [of a] by simp
  ultimately show ?thesis by (simp only: u128_neg_def u128_inc_add u128_val_add)
qed

lemma u128_val_sub:
  "u128_val (u128_sub a b) = (2 ^ 128 + u128_val a - u128_val b) mod 2 ^ 128"
proof -
  have "u128_val (u128_sub a b) = (u128_val a + (2 ^ 128 - u128_val b)) mod 2 ^ 128"
    by (simp only: u128_sub_def u128_val_add u128_val_neg mod_simps)
  also have "u128_val a + (2 ^ 128 - u128_val b) = 2 ^ 128 + u128_val a - u128_val b"
    using u128_val_less [of b] by simp
  finally show ?thesis .
qed

section \<open>Shifts\<close>

lemma mask_high_bits: "n < 64 \<Longrightarrow> drop_bit (64 - n) (l AND NOT (drop_bit n (- 1))) = drop_bit (64 - n) (l :: 64 word)"
  by (rule bit_word_eqI) (auto simp: bit_simps dest: bit_imp_le_length)

lemma or_disjoint_shift:
  "n < 64 \<Longrightarrow> push_bit n h OR drop_bit (64 - n) l = push_bit n h + drop_bit (64 - n) (l :: 64 word)"
  by (rule disjunctive_add [symmetric]) (auto simp: bit_push_bit_iff bit_drop_bit_eq dest: bit_imp_le_length)

lemma unat_push_bit64: "unat (push_bit n (w :: 64 word)) = (unat w * 2 ^ n) mod 18446744073709551616"
  by (simp only: unsigned_push_bit_eq) (simp add: push_bit_eq_mult take_bit_eq_mod)

lemma unat_drop_bit64: "unat (drop_bit n (w :: 64 word)) = unat w div 2 ^ n"
proof -
  have "take_bit 64 (unat w) = unat w" using unat64_less [of w] by (simp add: take_bit_eq_mod)
  then show ?thesis by (simp only: unsigned_drop_bit_eq) (simp add: drop_bit_eq_div)
qed

lemma u128_shl_small:
  assumes n: "0 < n" "n < 64"
  shows "u128_val (U128 (push_bit n h OR drop_bit (64 - n) (l AND NOT (drop_bit n (- 1)))) (push_bit n l))
     = (u128_val (U128 h l) * 2 ^ n) mod 2 ^ 128"
proof -
  let ?B = "18446744073709551616 :: nat"
  let ?l = "unat l * 2 ^ n"
  have B: "?B = 2 ^ (64 - n) * 2 ^ n" using n by (simp flip: power_add)
  have q: "unat l div 2 ^ (64 - n) = ?l div ?B" unfolding B by simp
  have le: "unat l div 2 ^ (64 - n) < ?B"
    using unat64_less [of l] div_le_dividend [of "unat l" "2 ^ (64 - n)"] by linarith
  have hi: "unat (push_bit n h + drop_bit (64 - n) l) = (unat h * 2 ^ n + ?l div ?B) mod ?B"
    by (simp only: unat64_add unat_push_bit64 unat_drop_bit64 mod_simps q)
  have "u128_val (U128 (push_bit n h + drop_bit (64 - n) l) (push_bit n l))
      = (unat h * 2 ^ n + ?l div ?B) mod ?B * 2 ^ 64 + ?l mod ?B"
    by (simp only: u128_val_def uint128.simps hi unat_push_bit64)
  also have "\<dots> = \<dots> mod 2 ^ 128"
    using u128_val_less [of "U128 (push_bit n h + drop_bit (64 - n) l) (push_bit n l)"] calculation
    by simp
  also have "\<dots> = ((unat h * 2 ^ n + ?l div ?B) * 2 ^ 64 + ?l mod ?B) mod 2 ^ 128"
    by (rule u128_val_mod_split)
  also have "(unat h * 2 ^ n + ?l div ?B) * 2 ^ 64 + ?l mod ?B = u128_val (U128 h l) * 2 ^ n"
    using div_mult_mod_eq [of ?l ?B] by (simp add: u128_val_def algebra_simps)
  finally show ?thesis unfolding mask_high_bits [OF n(2)] or_disjoint_shift [OF n(2)] .
qed

lemma u128_val_shl:
  assumes "n < 128"
  shows "u128_val (u128_shl a n) = (u128_val a * 2 ^ n) mod 2 ^ 128"
proof -
  have big: "u128_val (U128 (u_lo a) 0) = (u128_val a * 2 ^ 64) mod 2 ^ 128"
  proof -
    have "u128_val a * 2 ^ 64 = unat (u_hi a) * 2 ^ 128 + unat (u_lo a) * 2 ^ 64"
      by (simp add: u128_val_def algebra_simps)
    moreover have "unat (u_lo a) * 2 ^ 64 < 2 ^ 128" using unat64_less [of "u_lo a"] by simp
    ultimately show ?thesis by (simp add: u128_val_def)
  qed
  consider "n = 0" | "0 < n" "n < 64" | "n = 64" | "64 < n" by linarith
  then show ?thesis
  proof cases
    case 1
    then show ?thesis using u128_val_less [of a] by (simp add: u128_shl_def)
  next
    case 2
    then show ?thesis
      using u128_shl_small [of n "u_hi a" "u_lo a"] by (simp add: u128_shl_def Let_def)
  next
    case 3
    then show ?thesis using big by (simp add: u128_shl_def)
  next
    case 4
    with assms have "0 < n - 64" "n - 64 < 64" by simp_all
    note small = u128_shl_small [OF this, of "u_lo a" 0]
    have p: "(2 :: nat) ^ 64 * 2 ^ (n - 64) = 2 ^ n" using 4 by (simp only: flip: power_add) simp
    have "u128_val (u128_shl a n) = ((u128_val a * 2 ^ 64) mod 2 ^ 128 * 2 ^ (n - 64)) mod 2 ^ 128"
      using 4 assms small unfolding big by (simp add: u128_shl_def Let_def)
    also have "\<dots> = (u128_val a * (2 ^ 64 * 2 ^ (n - 64))) mod 2 ^ 128"
      by (simp only: mod_mult_left_eq mult.assoc)
    finally show ?thesis by (simp only: p)
  qed
qed

section \<open>Multiplication\<close>

lemma limb0_val: "unat (limb0 w) = unat w mod 4294967296"
  by (simp only: limb0_def unsigned_take_bit_eq) (simp add: take_bit_eq_mod)

lemma limb1_val: "unat (limb1 w) = unat w div 4294967296"
proof -
  have "unat (limb1 w) = take_bit 32 (unat w div 2 ^ 32)"
    by (simp only: limb1_def unsigned_take_bit_eq unat_drop_bit64)
  moreover have "unat w div 4294967296 < 4294967296" using unat64_less [of w] by simp
  ultimately show ?thesis by (simp add: take_bit_eq_mod)
qed

lemma limbs_val: "unat w = unat (limb1 w) * 4294967296 + unat (limb0 w)"
  by (simp only: limb0_val limb1_val div_mult_mod_eq)

lemma limb0_less: "unat (limb0 w) < 4294967296"
  by (simp add: limb0_val)

lemma limb1_less: "unat (limb1 w) < 4294967296"
  using unat64_less [of w] by (simp add: limb1_val)

lemmas limb_less = limb0_less limb1_less

lemma unat_limb_mult:
  assumes "unat (x :: 64 word) < 4294967296" "unat y < 4294967296"
  shows "unat (x * y) = unat x * unat y"
proof -
  have "unat x * unat y \<le> 4294967295 * 4294967295"
    using assms by (intro mult_le_mono) simp_all
  then show ?thesis by (simp add: unat_word_ariths)
qed

lemma u128_val_mul: "u128_val (u128_mul a b) = (u128_val a * u128_val b) mod 2 ^ 128"
proof -
  define a0 a1 a2 a3 where "a0 = unat (limb0 (u_lo a))" and "a1 = unat (limb1 (u_lo a))"
    and "a2 = unat (limb0 (u_hi a))" and "a3 = unat (limb1 (u_hi a))"
  define b0 b1 b2 b3 where "b0 = unat (limb0 (u_lo b))" and "b1 = unat (limb1 (u_lo b))"
    and "b2 = unat (limb0 (u_hi b))" and "b3 = unat (limb1 (u_hi b))"
  note ab = a0_def a1_def a2_def a3_def b0_def b1_def b2_def b3_def
  let ?S = "4294967296 :: nat"
  have va: "u128_val a = ((a3 * ?S + a2) * ?S + a1) * ?S + a0"
    unfolding u128_val_def limbs_val [of "u_hi a"] limbs_val [of "u_lo a"] ab by simp
  have vb: "u128_val b = ((b3 * ?S + b2) * ?S + b1) * ?S + b0"
    unfolding u128_val_def limbs_val [of "u_hi b"] limbs_val [of "u_lo b"] ab by simp
  have small: "32 < (128 :: nat)" by simp
  have "u128_val (u128_mul a b) = ((((a3 * b0 + a2 * b1 + a1 * b2 + a0 * b3) * 2 ^ 32
      + a2 * b0 + a1 * b1 + a0 * b2) * 2 ^ 32 + a1 * b0 + a0 * b1) * 2 ^ 32 + a0 * b0) mod 2 ^ 128"
    unfolding u128_mul_def Let_def ab
    by (simp only: u128_val_add u128_val_shl small u128_val_of_u64
        unat_limb_mult [OF limb0_less limb0_less] unat_limb_mult [OF limb0_less limb1_less]
        unat_limb_mult [OF limb1_less limb0_less] unat_limb_mult [OF limb1_less limb1_less]
        mod_simps add.assoc)
  also have "\<dots> = (u128_val a * u128_val b) mod 2 ^ 128"
  proof -
    let ?r = "a3 * b3 * ?S ^ 2 + (a3 * b2 + a2 * b3) * ?S + (a3 * b1 + a2 * b2 + a1 * b3)"
    have "u128_val a * u128_val b = ((((a3 * b0 + a2 * b1 + a1 * b2 + a0 * b3) * 2 ^ 32
      + a2 * b0 + a1 * b1 + a0 * b2) * 2 ^ 32 + a1 * b0 + a0 * b1) * 2 ^ 32 + a0 * b0) + ?r * 2 ^ 128"
      unfolding va vb by (simp add: algebra_simps power2_eq_square)
    then show ?thesis by (simp only: mod_mult_self1)
  qed
  finally show ?thesis .
qed

text \<open>The schoolbook multiplication of \<^verbatim>\<open>fc::uint128\<close> (ten 32-bit partial products, three
  shifts) computes the product of the two values modulo \<open>2 ^ 128\<close> for all operands.\<close>

theorem u128_mul_correct: "u128_val (u128_mul a b) = (u128_val a * u128_val b) mod 2 ^ 128"
  by (rule u128_val_mul)

end
