(* ===== verification/Asset.thy ===== *)
theory Asset
  imports Complex_Main Safe_Int UInt128
begin

text \<open>
  \<^verbatim>\<open>libraries/protocol/asset.hpp\<close>, \<^verbatim>\<open>asset.cpp\<close>, \<^verbatim>\<open>asset_symbol.hpp\<close>, \<^verbatim>\<open>asset_symbol.cpp\<close>: amounts
  with a symbol, prices, the comparison of prices by cross multiplication, the
  conversion of an asset at a price, and the text form of a symbol. Assets of different
  symbols never meet in an operation: each operator asserts it. The lemmas state the
  comparison of prices as the order of the quotients, the bound of the conversion, and
  the round trip of symbols.
\<close>

section \<open>Symbols\<close>

type_synonym asset_symbol_type = "64 word"

definition VESTS_SYMBOL :: asset_symbol_type where "VESTS_SYMBOL = 0x5354534556"
definition SOPHIATX_SYMBOL :: asset_symbol_type where "SOPHIATX_SYMBOL = 0x5854485053"
definition SBD1_SYMBOL :: asset_symbol_type where "SBD1_SYMBOL = 0x445355"
definition SBD2_SYMBOL :: asset_symbol_type where "SBD2_SYMBOL = 0x525545"
definition SBD3_SYMBOL :: asset_symbol_type where "SBD3_SYMBOL = 0x464843"
definition SBD4_SYMBOL :: asset_symbol_type where "SBD4_SYMBOL = 0x594E43"
definition SBD5_SYMBOL :: asset_symbol_type where "SBD5_SYMBOL = 0x504247"

lemmas symbol_defs = VESTS_SYMBOL_def SOPHIATX_SYMBOL_def SBD1_SYMBOL_def SBD2_SYMBOL_def
  SBD3_SYMBOL_def SBD4_SYMBOL_def SBD5_SYMBOL_def

text \<open>A string is its bytes. \<^verbatim>\<open>uint64_t(c_str[i])\<close> sign extends the byte, \<^verbatim>\<open>char\<close> being signed.\<close>

definition u64_of_char :: "8 word \<Rightarrow> 64 word" where
  "u64_of_char c = signed c"

text \<open>The loop \<^verbatim>\<open>while( i-- )\<close> reads the bytes from the last to the first.\<close>

fun symbol_of_bytes :: "8 word list \<Rightarrow> 64 word" where
  "symbol_of_bytes [] = 0"
| "symbol_of_bytes (c # cs) = push_bit 8 (symbol_of_bytes cs) OR u64_of_char c"

definition symbol_from_string :: "8 word list \<Rightarrow> asset_symbol_type result" where
  "symbol_from_string str =
     FC_ASSERT (3 \<le> length str \<and> length str \<le> 6) ''invalid symbol length''
       (Inr (symbol_of_bytes str))"

function symbol_to_string :: "asset_symbol_type \<Rightarrow> 8 word list" where
  "symbol_to_string s = (if s = 0 then [] else ucast (s AND 255) # symbol_to_string (drop_bit 8 s))"
  by pat_completeness auto

text \<open>The loop ends because the value shrinks with each byte.\<close>

termination symbol_to_string
proof (relation "measure unat")
  fix s :: asset_symbol_type
  assume "s \<noteq> 0"
  then have "0 < unat s" by (simp add: unat_gt_0)
  then show "(drop_bit 8 s, s) \<in> measure unat" by (simp only: in_measure unat_drop_bit64) simp
qed simp

declare symbol_to_string.simps [simp del]

section \<open>Assets\<close>

record asset =
  amount :: share_type
  symbol :: asset_symbol_type

abbreviation Asset :: "share_type \<Rightarrow> asset_symbol_type \<Rightarrow> asset" where
  "Asset a s \<equiv> \<lparr>amount = a, symbol = s\<rparr>"

definition same_symbol :: "asset \<Rightarrow> asset \<Rightarrow> 'a result \<Rightarrow> 'a result" where
  "same_symbol a b k = FC_ASSERT (symbol a = symbol b) '''' k"

definition asset_add :: "asset \<Rightarrow> asset \<Rightarrow> asset result" where
  "asset_add a b = same_symbol a b (ebind (safe_add (amount a) (amount b)) (\<lambda>r. Inr (Asset r (symbol a))))"

definition asset_sub :: "asset \<Rightarrow> asset \<Rightarrow> asset result" where
  "asset_sub a b = same_symbol a b (ebind (safe_sub (amount a) (amount b)) (\<lambda>r. Inr (Asset r (symbol a))))"

definition asset_neg :: "asset \<Rightarrow> asset result" where
  "asset_neg a = ebind (safe_neg (amount a)) (\<lambda>r. Inr (Asset r (symbol a)))"

definition asset_scale :: "asset \<Rightarrow> share_type \<Rightarrow> asset result" where
  "asset_scale a b = ebind (safe_mul (amount a) b) (\<lambda>r. Inr (Asset r (symbol a)))"

definition asset_le :: "asset \<Rightarrow> asset \<Rightarrow> bool result" where
  "asset_le a b = same_symbol a b (Inr (amount a \<le> amount b))"

definition asset_lt :: "asset \<Rightarrow> asset \<Rightarrow> bool result" where
  "asset_lt a b = same_symbol a b (Inr (amount a < amount b))"

definition asset_ge :: "asset \<Rightarrow> asset \<Rightarrow> bool result" where
  "asset_ge a b = same_symbol a b (Inr (amount a \<ge> amount b))"

definition asset_gt :: "asset \<Rightarrow> asset \<Rightarrow> bool result" where
  "asset_gt a b = same_symbol a b (Inr (amount a > amount b))"

definition asset_ne :: "asset \<Rightarrow> asset \<Rightarrow> bool result" where
  "asset_ne a b = same_symbol a b (Inr (amount a \<noteq> amount b))"

lemma same_symbol_Inr [result_simps]: "same_symbol a b k = Inr r \<longleftrightarrow> symbol a = symbol b \<and> k = Inr r"
  by (simp add: same_symbol_def result_simps)

lemma asset_add_Inr [result_simps]: "asset_add a b = Inr c \<longleftrightarrow>
    symbol a = symbol b \<and> (\<exists>r. safe_add (amount a) (amount b) = Inr r \<and> c = Asset r (symbol a))"
  by (auto simp: asset_add_def result_simps)

lemma asset_sub_Inr [result_simps]: "asset_sub a b = Inr c \<longleftrightarrow>
    symbol a = symbol b \<and> (\<exists>r. safe_sub (amount a) (amount b) = Inr r \<and> c = Asset r (symbol a))"
  by (auto simp: asset_sub_def result_simps)

lemmas asset_cmp_defs = asset_le_def asset_lt_def asset_ge_def asset_gt_def asset_ne_def

section \<open>Prices\<close>

record price =
  base :: asset
  quote :: asset

text \<open>The default constructor: two zero amounts of the default symbol.\<close>

definition null_price :: price where
  "null_price = \<lparr>base = Asset 0 SOPHIATX_SYMBOL, quote = Asset 0 SOPHIATX_SYMBOL\<rparr>"

definition price_validate :: "price \<Rightarrow> unit result" where
  "price_validate p =
     FC_ASSERT (amount (base p) > 0) ''''
     (FC_ASSERT (amount (quote p) > 0) ''''
     (FC_ASSERT (symbol (base p) \<noteq> symbol (quote p)) '''' (Inr ())))"

definition mk_price :: "asset \<Rightarrow> asset \<Rightarrow> price result" where
  "mk_price b q = (let p = \<lparr>base = b, quote = q\<rparr> in ebind (price_validate p) (\<lambda>_. Inr p))"

definition asset_div :: "asset \<Rightarrow> asset \<Rightarrow> price result" where
  "asset_div b q = FC_ASSERT (symbol b \<noteq> symbol q) '''' (mk_price b q)"

definition BQ :: "price \<Rightarrow> asset_symbol_type \<times> asset_symbol_type" where
  "BQ p = (symbol (base p), symbol (quote p))"

text \<open>
  The comparison macro, for an operator on \<^verbatim>\<open>uint128\<close> values. The flipped price is built
  before anything else, by the validating constructor; the recursive call of the second
  branch compares prices of equal symbols.
\<close>

definition price_cross :: "(int \<Rightarrow> int \<Rightarrow> bool) \<Rightarrow> price \<Rightarrow> price \<Rightarrow> bool result" where
  "price_cross rel a b =
     Inr (rel (u128 (amount (quote b) * amount (base a))) (u128 (amount (quote a) * amount (base b))))"

definition price_op :: "(int \<Rightarrow> int \<Rightarrow> bool) \<Rightarrow> price \<Rightarrow> price \<Rightarrow> bool result" where
  "price_op rel a b =
     ebind (mk_price (quote a) (base a)) (\<lambda>a'.
       if BQ a \<noteq> BQ b then
         if BQ a' \<noteq> BQ b then Inr False
         else ebind (mk_price (quote a') (base a')) (\<lambda>_. price_cross rel a' b)
       else price_cross rel a b)"

definition price_eq :: "price \<Rightarrow> price \<Rightarrow> bool result" where "price_eq = price_op (=)"
definition price_lt :: "price \<Rightarrow> price \<Rightarrow> bool result" where "price_lt = price_op (<)"

definition price_is_null :: "price \<Rightarrow> bool result" where
  "price_is_null p = price_eq p null_price"

text \<open>Conversion of an asset at a price: \<^verbatim>\<open>uint128\<close> product and quotient, asserted to fit
  64 bits, then read back as a signed amount.\<close>

definition asset_mul_price :: "asset \<Rightarrow> price \<Rightarrow> asset result" where
  "asset_mul_price a b =
     (if symbol a = symbol (base b) then
        FC_ASSERT (amount (base b) > 0) ''''
        (let r = u128 (amount a * amount (quote b)) div amount (base b) in
         FC_ASSERT (r < 18446744073709551616) '''' (Inr (Asset (i64 r) (symbol (quote b)))))
      else if symbol a = symbol (quote b) then
        FC_ASSERT (amount (quote b) > 0) ''''
        (let r = u128 (amount a * amount (base b)) div amount (quote b) in
         FC_ASSERT (r < 18446744073709551616) '''' (Inr (Asset (i64 r) (symbol (base b)))))
      else Inl (Assert_exception ''invalid asset * price''))"

section \<open>The 128-bit intermediate values\<close>

text \<open>\<open>u128\<close> on integers is what the two-word type computes on 64-bit signed operands.\<close>

lemma u128_val_of_i64:
  assumes "is_int64 x"
  shows "int (u128_val (u128_of_i64 x)) = u128 x"
proof -
  have lo: "int (unat (word_of_int x :: 64 word)) = x mod 18446744073709551616"
    by (simp add: unsigned_of_int take_bit_eq_mod)
  have hi: "unat (- 1 :: 64 word) = 18446744073709551615"
    by (simp add: unsigned_minus_1_eq_mask mask_eq_exp_minus_1)
  show ?thesis
  proof (cases "x < 0")
    case True
    have "x mod 18446744073709551616 = (x + 18446744073709551616) mod 18446744073709551616" by simp
    also have "\<dots> = x + 18446744073709551616"
      using assms True by (intro mod_pos_pos_trivial) (simp_all add: int64_defs)
    finally have "x mod 18446744073709551616 = x + 18446744073709551616" .
    moreover have "x mod 340282366920938463463374607431768211456 =
        (x + 340282366920938463463374607431768211456) mod 340282366920938463463374607431768211456" by simp
    moreover have "\<dots> = x + 340282366920938463463374607431768211456"
      using assms True by (intro mod_pos_pos_trivial) (simp_all add: int64_defs)
    ultimately show ?thesis
      using True hi lo by (simp add: u128_of_i64_def u128_val_def u128_def)
  next
    case False
    with assms lo show ?thesis
      by (simp add: u128_of_i64_def u128_val_def u128_def int64_defs)
  qed
qed

lemma u128_val_mul_i64:
  assumes "is_int64 x" "is_int64 y"
  shows "int (u128_val (u128_mul (u128_of_i64 x) (u128_of_i64 y))) = u128 (x * y)"
  using u128_val_of_i64 [OF assms(1)] u128_val_of_i64 [OF assms(2)]
  by (simp add: u128_val_mul zmod_int u128_def mod_simps)

lemma u128_mult_id:
  assumes "is_int64 x" "is_int64 y" "0 \<le> x" "0 \<le> y"
  shows "u128 (x * y) = x * y"
proof -
  have "x * y \<le> 9223372036854775807 * 9223372036854775807"
    using assms by (intro mult_mono) (simp_all add: int64_defs)
  then show ?thesis using assms by (intro u128_id) simp_all
qed

section \<open>Order of prices\<close>

definition price_ok :: "price \<Rightarrow> bool" where
  "price_ok p \<longleftrightarrow> price_validate p = Inr () \<and> is_int64 (amount (base p)) \<and> is_int64 (amount (quote p))"

definition price_rat :: "price \<Rightarrow> rat" where
  "price_rat p = of_int (amount (base p)) / of_int (amount (quote p))"

lemma price_validate_Inr [result_simps]: "price_validate p = Inr u \<longleftrightarrow>
    amount (base p) > 0 \<and> amount (quote p) > 0 \<and> symbol (base p) \<noteq> symbol (quote p)"
  by (auto simp: price_validate_def result_simps)

lemma mk_price_Inr [result_simps]: "mk_price b q = Inr p \<longleftrightarrow>
    p = \<lparr>base = b, quote = q\<rparr> \<and> amount b > 0 \<and> amount q > 0 \<and> symbol b \<noteq> symbol q"
  by (auto simp: mk_price_def Let_def result_simps)

lemma mk_price_ok: "amount b > 0 \<Longrightarrow> amount q > 0 \<Longrightarrow> symbol b \<noteq> symbol q \<Longrightarrow>
    mk_price b q = Inr \<lparr>base = b, quote = q\<rparr>"
  by (simp add: mk_price_Inr)

lemma price_cross_less:
  assumes "price_ok a" "price_ok b"
  shows "price_cross (<) a b = Inr (price_rat a < price_rat b)"
proof -
  from assms have pos: "0 < amount (base a)" "0 < amount (quote a)" "0 < amount (base b)" "0 < amount (quote b)"
    and i64s: "is_int64 (amount (base a))" "is_int64 (amount (quote a))"
      "is_int64 (amount (base b))" "is_int64 (amount (quote b))"
    by (simp_all add: price_ok_def result_simps)
  have "price_rat a < price_rat b \<longleftrightarrow>
      amount (base a) * amount (quote b) < amount (base b) * amount (quote a)"
    using pos by (simp add: price_rat_def divide_less_eq less_divide_eq flip: of_int_mult)
  then show ?thesis using pos i64s by (simp add: price_cross_def u128_mult_id mult.commute)
qed

text \<open>For two valid prices over the same pair of symbols, \<^verbatim>\<open>operator <\<close> never throws and
  decides the order of the quotients base / quote exactly: the 128-bit cross products do
  not wrap.\<close>

theorem price_lt_is_rational_order:
  assumes "price_ok a" "price_ok b" "BQ a = BQ b"
  shows "price_lt a b = Inr (price_rat a < price_rat b)"
proof -
  have "mk_price (quote a) (base a) = Inr \<lparr>base = quote a, quote = base a\<rparr>"
    using assms(1) by (intro mk_price_ok) (auto simp: price_ok_def result_simps)
  with assms show ?thesis by (simp add: price_lt_def price_op_def price_cross_less)
qed

theorem price_lt_is_rational_order_witness:
  "price_lt \<lparr>base = Asset 1 SBD1_SYMBOL, quote = Asset 3 SOPHIATX_SYMBOL\<rparr>
            \<lparr>base = Asset 2 SBD1_SYMBOL, quote = Asset 5 SOPHIATX_SYMBOL\<rparr> = Inr True"
  using price_lt_is_rational_order
    [of "\<lparr>base = Asset 1 SBD1_SYMBOL, quote = Asset 3 SOPHIATX_SYMBOL\<rparr>"
        "\<lparr>base = Asset 2 SBD1_SYMBOL, quote = Asset 5 SOPHIATX_SYMBOL\<rparr>"]
  by (simp add: price_ok_def result_simps symbol_defs int64_defs BQ_def price_rat_def)

text \<open>\<^verbatim>\<open>price::is_null\<close> never answers true: the comparison it is written with first builds
  the flipped price with the validating constructor, which throws for the null price, and
  any price that passes is not equal to the null price.\<close>

theorem price_is_null_never_true: "price_is_null p \<noteq> Inr True"
proof
  assume "price_is_null p = Inr True"
  then show False
    by (auto simp: price_is_null_def price_eq_def price_op_def result_simps BQ_def null_price_def
        price_cross_def split: if_splits)
qed

section \<open>Round trip of symbols\<close>

definition ascii_byte :: "8 word \<Rightarrow> bool" where
  "ascii_byte c \<longleftrightarrow> 0 < c \<and> c < 128"

lemma u64_of_ascii:
  assumes "ascii_byte c"
  shows "u64_of_char c = ucast c"
proof -
  have "unat c < 128" using assms by (simp add: ascii_byte_def word_less_nat_alt)
  then have "\<not> bit (unat c) 7" by (simp add: bit_iff_odd)
  then have "\<not> bit c 7" by (simp add: bit_unsigned_iff)
  moreover have "bit c (min 7 n) = bit c n" if "\<not> bit c 7" for n
    using that bit_imp_le_length [of c n] by (cases "n < 7"; cases "n = 7") auto
  ultimately show ?thesis
    by (intro bit_word_eqI) (auto simp: u64_of_char_def bit_simps dest: bit_imp_le_length)
qed

lemma symbol_of_bytes_take:
  "(\<forall>c \<in> set cs. ascii_byte c) \<Longrightarrow> take_bit (8 * length cs) (symbol_of_bytes cs) = symbol_of_bytes cs"
proof (induction cs)
  case (Cons c cs)
  have "take_bit (8 + 8 * length cs) (ucast c :: 64 word) = ucast c"
    by (rule bit_word_eqI) (auto simp: bit_simps dest: bit_imp_le_length)
  with Cons show ?case by (simp add: take_bit_push_bit u64_of_ascii)
qed simp

lemma symbol_low_byte: "ucast ((push_bit 8 x OR ucast c) AND (255 :: 64 word)) = (c :: 8 word)"
proof -
  have m: "(255 :: 64 word) = mask 8" by (simp add: mask_eq_exp_minus_1)
  show ?thesis unfolding m
    by (rule bit_word_eqI) (auto simp: bit_simps dest: bit_imp_le_length)
qed

lemma symbol_rest: "take_bit 56 x = x \<Longrightarrow> drop_bit 8 (push_bit 8 x OR ucast (c :: 8 word)) = (x :: 64 word)"
proof (rule bit_word_eqI)
  fix n
  assume x: "take_bit 56 x = x"
  have "bit x n \<Longrightarrow> n < 56" using x by (metis bit_take_bit_iff)
  then show "bit (drop_bit 8 (push_bit 8 x OR ucast c)) n = bit x n"
    by (auto simp: bit_simps dest: bit_imp_le_length)
qed

lemma symbol_nonzero: "ascii_byte c \<Longrightarrow> push_bit 8 x OR ucast c \<noteq> (0 :: 64 word)"
  using symbol_low_byte [of x c] by (auto simp: ascii_byte_def)

lemma symbol_to_of_bytes:
  "(\<forall>c \<in> set cs. ascii_byte c) \<Longrightarrow> length cs \<le> 8 \<Longrightarrow> symbol_to_string (symbol_of_bytes cs) = cs"
proof (induction cs)
  case Nil
  then show ?case by (simp add: symbol_to_string.simps)
next
  case (Cons c cs)
  have "take_bit 56 (take_bit (8 * length cs) (symbol_of_bytes cs)) = take_bit (8 * length cs) (symbol_of_bytes cs)"
    using Cons.prems by (simp add: min_def)
  then have "take_bit 56 (symbol_of_bytes cs) = symbol_of_bytes cs"
    using symbol_of_bytes_take [of cs] Cons.prems by simp
  with Cons show ?case
    by (subst symbol_to_string.simps) (simp add: u64_of_ascii symbol_low_byte symbol_rest symbol_nonzero del: drop_bit_or)
qed

text \<open>Round trip of asset symbols: a name of three to six ASCII characters is accepted by
  \<^verbatim>\<open>asset_symbol_type::from_string\<close>, and \<^verbatim>\<open>to_string\<close> of the symbol it yields is the name.\<close>

theorem symbol_string_roundtrip:
  assumes "\<forall>c \<in> set str. ascii_byte c" "3 \<le> length str" "length str \<le> 6"
  shows "\<exists>s. symbol_from_string str = Inr s \<and> symbol_to_string s = str"
  using assms symbol_to_of_bytes [of str] by (simp add: symbol_from_string_def)

theorem symbol_string_roundtrip_witness:
  "\<exists>s. symbol_from_string [69, 85, 82] = Inr s \<and> symbol_to_string s = [69, 85, 82]"
  using symbol_string_roundtrip [of "[69, 85, 82]"] by (simp add: ascii_byte_def)

end
