(* ===== verification/Fixed_String.thy ===== *)
theory Fixed_String
  imports Prelude
begin

unbundle bit_operations_syntax

text \<open>
  Account names: \<^verbatim>\<open>libraries/fc/src/crypto/base64m.cpp\<close> and
  \<^verbatim>\<open>libraries/protocol/fixed_string.hpp\<close>. A name is decoded from a 64-character alphabet into
  at most 24 bytes, kept as one big-endian number (\<open>fs_data\<close>, which alone decides equality
  and order) and a byte count (\<open>fs_size\<close>). The lemmas show that encoding and decoding are
  inverse to each other and that a canonical name survives the round trip.
\<close>

section \<open>The base64m coding\<close>

definition base64m_chars :: string where
  "base64m_chars = ''ABCDEFGHIJKLMNOPQRSTUVWXYZabcdefghijklmnopqrstuvwxyz0123456789-_''"

definition is_base64m :: "char \<Rightarrow> bool" where
  "is_base64m c \<longleftrightarrow> c \<in> set base64m_chars"

definition b64_char :: "nat \<Rightarrow> char" where
  "b64_char n = base64m_chars ! n"

fun position :: "'a \<Rightarrow> 'a list \<Rightarrow> nat" where
  "position c [] = 0"
| "position c (x # xs) = (if x = c then 0 else Suc (position c xs))"

definition b64_find :: "char \<Rightarrow> nat" where
  "b64_find c = position c base64m_chars"

text \<open>The four sextets of three bytes, and the three bytes of four sextets, with the masks and
  shifts of the source. A byte store truncates to eight bits.\<close>

definition sextets :: "nat \<Rightarrow> nat \<Rightarrow> nat \<Rightarrow> nat list" where
  "sextets a b c =
     [drop_bit 2 (a AND 0xfc),
      push_bit 4 (a AND 0x03) + drop_bit 4 (b AND 0xf0),
      push_bit 2 (b AND 0x0f) + drop_bit 6 (c AND 0xc0),
      c AND 0x3f]"

definition octets :: "nat \<Rightarrow> nat \<Rightarrow> nat \<Rightarrow> nat \<Rightarrow> nat list" where
  "octets p q r s =
     [(push_bit 2 p + drop_bit 4 (q AND 0x30)) mod 256,
      (push_bit 4 (q AND 0xf) + drop_bit 2 (r AND 0x3c)) mod 256,
      (push_bit 6 (r AND 0x3) + s) mod 256]"

fun base64m_encode :: "nat list \<Rightarrow> string" where
  "base64m_encode (a # b # c # rest) = map b64_char (sextets a b c) @ base64m_encode rest"
| "base64m_encode [a, b] = take 3 (map b64_char (sextets a b 0)) @ ''=''"
| "base64m_encode [a] = take 2 (map b64_char (sextets a 0 0)) @ ''==''"
| "base64m_encode [] = []"

text \<open>The sextets after the end of the input are positions past the alphabet, 255 as a byte; they
  reach only bytes that are not appended.\<close>

fun b64_decode_chunks :: "string \<Rightarrow> nat list" where
  "b64_decode_chunks (p # q # r # s # rest) =
     octets (b64_find p) (b64_find q) (b64_find r) (b64_find s) @ b64_decode_chunks rest"
| "b64_decode_chunks [p, q, r] = take 2 (octets (b64_find p) (b64_find q) (b64_find r) 255)"
| "b64_decode_chunks [p, q] = take 1 (octets (b64_find p) (b64_find q) 255 255)"
| "b64_decode_chunks [p] = []"
| "b64_decode_chunks [] = []"

definition base64m_decode :: "string \<Rightarrow> nat list" where
  "base64m_decode s = b64_decode_chunks (takeWhile (\<lambda>c. c \<noteq> CHR ''='' \<and> is_base64m c) s)"

definition normalize_to_base64m :: "string \<Rightarrow> string" where
  "normalize_to_base64m s =
     map (\<lambda>c. if c = CHR ''/'' then CHR ''_'' else c)
       (map (\<lambda>c. if c = CHR ''+'' then CHR ''-'' else c) s)"

definition normalize_to_base64 :: "string \<Rightarrow> string" where
  "normalize_to_base64 s =
     map (\<lambda>c. if c = CHR ''_'' then CHR ''/'' else c)
       (map (\<lambda>c. if c = CHR ''-'' then CHR ''+'' else c) s)"

section \<open>Fixed strings\<close>

record fixed_string =
  fs_data :: int
  fs_size :: nat

definition name_bytes :: nat where "name_bytes = 24"

definition pad4 :: "string \<Rightarrow> string" where
  "pad4 s = s @ replicate ((4 - length s mod 4) mod 4) (CHR ''A'')"

definition from_be :: "nat list \<Rightarrow> int" where
  "from_be bs = foldl (\<lambda>acc b. acc * 256 + int b) 0 bs"

fun to_be :: "nat \<Rightarrow> int \<Rightarrow> nat list" where
  "to_be 0 v = []"
| "to_be (Suc n) v = to_be n (v div 256) @ [nat (v mod 256)]"

definition fixed_string_of :: "string \<Rightarrow> fixed_string" where
  "fixed_string_of str =
     (let s = base64m_decode (normalize_to_base64m (pad4 str));
          sz = (if length s \<le> name_bytes then length s else name_bytes)
      in \<lparr>fs_data = from_be (take sz s @ replicate (name_bytes - sz) 0), fs_size = sz\<rparr>)"

text \<open>The trailing filler is erased while \<^verbatim>\<open>s.at(s.size()-1) == 'A'\<close>, which throws
  \<^verbatim>\<open>std::out_of_range\<close> once nothing is left.\<close>

fun strip_filler :: "string \<Rightarrow> string result" where
  "strip_filler s =
     (if s = [] then Inl (Out_of_range ''basic_string::at'')
      else if last s = CHR ''A'' then strip_filler (butlast s) else Inr s)"

declare strip_filler.simps [simp del]

definition fixed_string_to_string :: "fixed_string \<Rightarrow> string result" where
  "fixed_string_to_string f =
     (let d = to_be name_bytes (fs_data f);
          n = fs_size f + (if fs_size f mod 3 = 1 then 2 else if fs_size f mod 3 = 2 then 1 else 0);
          s = base64m_encode (take n d)
      in if s = [] then Inr s else strip_filler s)"

text \<open>\<open>account_name\<close> is what the rest of the chain compares: the number, without the size.\<close>

type_synonym account_name_type = int

definition account_name :: "string \<Rightarrow> account_name_type" where
  "account_name s = fs_data (fixed_string_of s)"

definition SOPHIATX_NULL_ACCOUNT :: account_name_type where
  "SOPHIATX_NULL_ACCOUNT = account_name ''none''"

definition SOPHIATX_TEMP_ACCOUNT :: account_name_type where
  "SOPHIATX_TEMP_ACCOUNT = account_name ''temp''"

definition SOPHIATX_MINER_ACCOUNT :: account_name_type where
  "SOPHIATX_MINER_ACCOUNT = account_name ''miners''"

definition SOPHIATX_PROXY_TO_SELF_ACCOUNT :: account_name_type where
  "SOPHIATX_PROXY_TO_SELF_ACCOUNT = account_name []"

definition SOPHIATX_INIT_MINER_NAME :: account_name_type where
  "SOPHIATX_INIT_MINER_NAME = account_name ''initminer''"

text \<open>The numbers of the reserved names.\<close>

lemma SOPHIATX_NULL_ACCOUNT_value [code]:
  "SOPHIATX_NULL_ACCOUNT = 3887353780438683997154241982872369070369481040572125806592"
  by code_simp

lemma SOPHIATX_TEMP_ACCOUNT_value [code]:
  "SOPHIATX_TEMP_ACCOUNT = 4460487283068311124489469583430774410514878780576049922048"
  by code_simp

lemma SOPHIATX_MINER_ACCOUNT_value [code]:
  "SOPHIATX_MINER_ACCOUNT = 3780079347975482900644442647065771944686626986893485539328"
  by code_simp

lemma SOPHIATX_PROXY_TO_SELF_ACCOUNT_value [code]: "SOPHIATX_PROXY_TO_SELF_ACCOUNT = 0"
  by code_simp

lemma SOPHIATX_INIT_MINER_NAME_value [code]:
  "SOPHIATX_INIT_MINER_NAME = 3395308823083177396031440128406248621114235648390830489600"
  by code_simp

lemmas special_names = SOPHIATX_NULL_ACCOUNT_value SOPHIATX_TEMP_ACCOUNT_value
  SOPHIATX_MINER_ACCOUNT_value SOPHIATX_PROXY_TO_SELF_ACCOUNT_value SOPHIATX_INIT_MINER_NAME_value

section \<open>Encoding and decoding are inverse\<close>

lemma and_mask_mod: "(n :: nat) AND (2 ^ k - 1) = n mod 2 ^ k"
  by (simp only: take_bit_eq_mod flip: mask_eq_exp_minus_1 take_bit_eq_mask)

lemmas and_masks = and_mask_mod [of _ 2, simplified] and_mask_mod [of _ 4, simplified]
  and_mask_mod [of _ 6, simplified]

lemma drop_and_masks:
  "drop_bit 2 ((n :: nat) AND 0xfc) = n div 4 mod 64"
  "drop_bit 4 (n AND 0xf0) = n div 16 mod 16"
  "drop_bit 6 (n AND 0xc0) = n div 64 mod 4"
  "drop_bit 4 (n AND 0x30) = n div 16 mod 4"
  "drop_bit 2 (n AND 0x3c) = n div 4 mod 16"
  by (simp_all only: drop_bit_and) (simp_all add: and_masks drop_bit_eq_div)

lemma sextets_arith:
  assumes "a < 256" "b < 256" "c < 256"
  shows "sextets a b c = [a div 4, a mod 4 * 16 + b div 16, b mod 16 * 4 + c div 64, c mod 64]"
  using assms by (simp del: drop_bit_and add: sextets_def drop_and_masks and_masks push_bit_eq_mult)

lemma octets_arith:
  assumes "p < 64" "q < 64" "r < 64" "s < 64"
  shows "octets p q r s = [p * 4 + q div 16, q mod 16 * 16 + r div 4, r mod 4 * 64 + s]"
proof -
  have "p * 4 + q div 16 < 256" "q mod 16 * 16 + r div 4 < 256" "r mod 4 * 64 + s < 256"
    using assms mod_less_divisor [of 16 q] mod_less_divisor [of 4 r] by linarith+
  then show ?thesis
    using assms by (simp del: drop_bit_and add: octets_def drop_and_masks and_masks push_bit_eq_mult)
qed

lemma find_char_table: "\<forall>n \<in> set [0..<64]. b64_find (b64_char n) = n \<and> is_base64m (b64_char n) \<and> b64_char n \<noteq> CHR ''=''"
  by code_simp

lemma char_find_table: "\<forall>c \<in> set base64m_chars. b64_find c < 64 \<and> b64_char (b64_find c) = c \<and> c \<noteq> CHR ''=''"
  by code_simp

lemma find_char: "n < 64 \<Longrightarrow> b64_find (b64_char n) = n"
  using find_char_table by simp

lemma char_base64m: "n < 64 \<Longrightarrow> is_base64m (b64_char n) \<and> b64_char n \<noteq> CHR ''=''"
  using find_char_table by simp

lemma char_find:
  assumes "is_base64m c"
  shows "b64_find c < 64" "b64_char (b64_find c) = c" "c \<noteq> CHR ''=''"
  using char_find_table assms by (auto simp: is_base64m_def)

lemma sextet_bounds:
  assumes "a < 256" "b < 256" "c < (256 :: nat)"
  shows "a div 4 < 64" "a mod 4 * 16 + b div 16 < 64" "b mod 16 * 4 + c div 64 < 64" "c mod 64 < 64"
  using assms mod_less_divisor [of 4 a] mod_less_divisor [of 16 b] by (auto intro: less_mult_imp_div_less)

lemma octets_of_sextets:
  assumes "a < 256" "b < 256" "c < 256"
  shows "octets (a div 4) (a mod 4 * 16 + b div 16) (b mod 16 * 4 + c div 64) (c mod 64) = [a, b, c]"
proof -
  have "b div 16 < 16" "c div 64 < 4" using assms by (auto intro: less_mult_imp_div_less)
  then show ?thesis
    unfolding octets_arith [OF sextet_bounds [OF assms]] by simp
qed

lemma octets_prefix2: "take 2 (octets p q r 255) = take 2 (octets p q r 0)"
  by (simp add: octets_def)

lemma octets_prefix1: "take (Suc 0) (octets p q 255 255) = take (Suc 0) (octets p q 0 0)"
  by (simp add: octets_def)

lemma decode_of_encode:
  "\<forall>b \<in> set bs. b < 256 \<Longrightarrow> base64m_decode (base64m_encode bs) = bs"
proof (induction bs rule: base64m_encode.induct)
  case (1 a b c rest)
  then have abc: "a < 256" "b < 256" "c < 256" by simp_all
  with 1 show ?case
    using sextet_bounds [OF abc]
    by (simp add: base64m_decode_def sextets_arith find_char char_base64m octets_of_sextets)
next
  case (2 a b)
  then have abc: "a < 256" "b < 256" "0 < (256 :: nat)" by simp_all
  with octets_of_sextets [OF abc] show ?case
    using sextet_bounds [OF abc]
    by (simp add: base64m_decode_def sextets_arith find_char char_base64m octets_prefix2)
next
  case (3 a)
  then have abc: "a < 256" "0 < (256 :: nat)" "0 < (256 :: nat)" by simp_all
  with octets_of_sextets [OF abc] show ?case
    using sextet_bounds [OF abc]
    by (simp add: base64m_decode_def sextets_arith find_char char_base64m octets_prefix1)
next
  case 4
  then show ?case by (simp add: base64m_decode_def)
qed

text \<open>Decoding inverts encoding on every byte sequence, whatever its length modulo three.\<close>

theorem base64m_decode_encode:
  "\<forall>b \<in> set bs. b < 256 \<Longrightarrow> base64m_decode (base64m_encode bs) = bs"
  by (rule decode_of_encode)

theorem base64m_decode_encode_witness:
  "base64m_decode (base64m_encode [1, 200, 3, 255]) = [1, 200, 3, 255]"
  using base64m_decode_encode [of "[1, 200, 3, 255]"] by simp

section \<open>Canonical names survive the round trip\<close>

lemma sextets_of_octets:
  assumes "p < 64" "q < 64" "r < 64" "s < 64"
  shows "sextets (p * 4 + q div 16) (q mod 16 * 16 + r div 4) (r mod 4 * 64 + s) = [p, q, r, s]"
proof -
  have "q div 16 < 4" "r div 4 < 16" using assms by (auto intro: less_mult_imp_div_less)
  moreover have "q mod 16 < 16" "r mod 4 < 4" by simp_all
  ultimately have "p * 4 + q div 16 < 256" "q mod 16 * 16 + r div 4 < 256" "r mod 4 * 64 + s < 256"
    using assms by linarith+
  from sextets_arith [OF this] show ?thesis
    using assms \<open>q div 16 < 4\<close> \<open>r div 4 < 16\<close> by simp
qed

lemma octets_bytes: "b \<in> set (octets p q r s) \<Longrightarrow> b < 256"
  by (auto simp: octets_def)

lemma encode_decode_chunks:
  "\<forall>c \<in> set s. is_base64m c \<Longrightarrow> length s mod 4 = 0 \<Longrightarrow> base64m_encode (b64_decode_chunks s) = s"
proof (induction s rule: b64_decode_chunks.induct)
  case (1 p q r s rest)
  then have "length rest mod 4 = 0" by simp
  with 1 show ?case by (simp add: octets_arith sextets_of_octets char_find)
qed simp_all

lemma length_decode_chunks:
  "length s mod 4 = 0 \<Longrightarrow> length (b64_decode_chunks s) = 3 * (length s div 4)"
proof (induction s rule: b64_decode_chunks.induct)
  case (1 p q r s rest)
  then have "length rest mod 4 = 0" by simp
  moreover have "(4 + length rest) div 4 = Suc (length rest div 4)" by simp
  ultimately show ?case using 1 by (simp add: octets_def)
qed simp_all

lemma decode_chunks_bytes: "b \<in> set (b64_decode_chunks s) \<Longrightarrow> b < 256"
  by (induction s rule: b64_decode_chunks.induct) (auto dest: octets_bytes in_set_takeD)

lemma from_be_append: "from_be (bs @ [b]) = from_be bs * 256 + int b"
  by (simp add: from_be_def)

lemma to_be_from_be: "\<forall>b \<in> set bs. b < 256 \<Longrightarrow> to_be (length bs) (from_be bs) = bs"
  by (induction bs rule: rev_induct) (simp_all add: from_be_append)

lemma strip_filler_pad: "s \<noteq> [] \<Longrightarrow> last s \<noteq> CHR ''A'' \<Longrightarrow> strip_filler (s @ replicate n (CHR ''A'')) = Inr s"
  by (induction n) (subst strip_filler.simps; simp add: replicate_append_same [symmetric] butlast_append)+

lemma pad_count:
  fixes n :: nat
  shows "(n + (4 - n mod 4) mod 4) mod 4 = 0" "n \<le> 32 \<Longrightarrow> n + (4 - n mod 4) mod 4 \<le> 32"
proof -
  have eq: "n + (4 - n mod 4) mod 4 = 4 * ((n + 3) div 4)"
  proof -
    have "n + 3 = (n mod 4 + 3) + 4 * (n div 4)" by simp
    then have "(n + 3) div 4 = ((n mod 4 + 3) + 4 * (n div 4)) div 4" by (rule arg_cong)
    also have "\<dots> = n div 4 + (n mod 4 + 3) div 4" by (rule div_mult_self2) simp
    finally have quot: "(n + 3) div 4 = n div 4 + (n mod 4 + 3) div 4" .
    have "n = 4 * (n div 4) + n mod 4" by simp
    moreover consider "n mod 4 = 0" | "n mod 4 = 1" | "n mod 4 = 2" | "n mod 4 = 3" by linarith
    then have "4 * ((n + 3) div 4) = 4 * (n div 4) + (if n mod 4 = 0 then 0 else 4)" by cases (simp_all add: quot)
    moreover consider "n mod 4 = 0" | "n mod 4 = 1" | "n mod 4 = 2" | "n mod 4 = 3" by linarith
    then have "n mod 4 + (4 - n mod 4) mod 4 = (if n mod 4 = 0 then 0 else 4)" by cases simp_all
    ultimately show ?thesis by linarith
  qed
  show "(n + (4 - n mod 4) mod 4) mod 4 = 0" unfolding eq by simp
  show "n \<le> 32 \<Longrightarrow> n + (4 - n mod 4) mod 4 \<le> 32" unfolding eq using div_le_mono [of "n + 3" 35 4] by simp
qed

lemma pad4_length: "length (pad4 s) mod 4 = 0"
  using pad_count(1) [of "length s"] by (simp add: pad4_def)

lemma pad4_le: "length s \<le> 32 \<Longrightarrow> length (pad4 s) \<le> 32"
  using pad_count(2) [of "length s"] by (simp add: pad4_def)

lemma base64m_special: "is_base64m (CHR ''A'')" "\<not> is_base64m (CHR ''/'')" "\<not> is_base64m (CHR ''+'')"
  by code_simp+

lemma pad4_chars: "\<forall>c \<in> set s. is_base64m c \<Longrightarrow> \<forall>c \<in> set (pad4 s). is_base64m c"
  using base64m_special(1) by (auto simp: pad4_def)

lemma normalize_id: "\<forall>c \<in> set s. is_base64m c \<Longrightarrow> normalize_to_base64m s = s"
  using base64m_special by (auto simp: normalize_to_base64m_def intro!: map_idI)

lemma decode_base64m_chars:
  assumes "\<forall>c \<in> set s. is_base64m c"
  shows "base64m_decode s = b64_decode_chunks s"
proof -
  have "takeWhile (\<lambda>c. c \<noteq> CHR ''='' \<and> is_base64m c) s = s"
    using assms by (intro takeWhile_eq_all_conv [THEN iffD2]) (auto dest: char_find(3))
  then show ?thesis by (simp only: base64m_decode_def)
qed

text \<open>Round trip of account names: a non-empty name of at most 32 characters of the alphabet
  that does not end in the filler character is recovered from its 24-byte form, so distinct
  canonical names never collide.\<close>

theorem fixed_string_roundtrip:
  assumes "\<forall>c \<in> set s. is_base64m c" "s \<noteq> []" "last s \<noteq> CHR ''A''" "length s \<le> 32"
  shows "fixed_string_to_string (fixed_string_of s) = Inr s"
proof -
  define bs where "bs = b64_decode_chunks (pad4 s)"
  have chars: "\<forall>c \<in> set (pad4 s). is_base64m c" using assms(1) by (rule pad4_chars)
  have len: "length bs = 3 * (length (pad4 s) div 4)"
    unfolding bs_def by (rule length_decode_chunks [OF pad4_length])
  then have sz: "length bs \<le> 24" using pad4_le [OF assms(4)] by linarith
  have bytes: "\<forall>b \<in> set (bs @ replicate (24 - length bs) 0). b < 256"
    by (auto simp: bs_def dest: decode_chunks_bytes)
  have fs: "fixed_string_of s = \<lparr>fs_data = from_be (bs @ replicate (24 - length bs) 0), fs_size = length bs\<rparr>"
    using sz by (simp add: fixed_string_of_def normalize_id [OF chars] decode_base64m_chars [OF chars]
        name_bytes_def Let_def flip: bs_def)
  have "to_be 24 (from_be (bs @ replicate (24 - length bs) 0)) = bs @ replicate (24 - length bs) 0"
    using to_be_from_be [OF bytes] sz by simp
  moreover have "base64m_encode bs = pad4 s"
    unfolding bs_def using chars pad4_length by (rule encode_decode_chunks)
  moreover have "length bs mod 3 = 0" by (simp add: len)
  ultimately have "fixed_string_to_string (fixed_string_of s) = strip_filler (pad4 s)"
    using assms(2) by (simp add: fs fixed_string_to_string_def name_bytes_def Let_def pad4_def)
  with strip_filler_pad [OF assms(2,3)] show ?thesis by (simp add: pad4_def)
qed

theorem fixed_string_roundtrip_witness:
  "fixed_string_to_string (fixed_string_of ''initminer'') = Inr ''initminer''"
  using fixed_string_roundtrip [of "''initminer''"] by (simp add: is_base64m_def base64m_chars_def)

text \<open>A name made of filler characters only is accepted, but converting it back to a string
  throws: the trimming loop reads before the start of the string.\<close>

theorem fixed_string_all_filler_throws:
  "fixed_string_to_string (fixed_string_of ''AAAA'') = Inl (Out_of_range ''basic_string::at'')"
  by code_simp

end
