(* ===== verification/Config.thy ===== *)
theory Config
  imports Asset Fixed_String
begin

text \<open>
  \<^verbatim>\<open>libraries/chain/genesis_state.hpp\<close>, \<^verbatim>\<open>libraries/chain/get_config.hpp\<close> and the constants of
  \<^verbatim>\<open>libraries/protocol/config.hpp\<close>: the genesis record with its defaults (live network) and the
  configuration computed from it. Integer division in these formulas is the unsigned 32-bit
  division of the source.
\<close>

type_synonym public_key_type = int

section \<open>Compile-time constants\<close>

definition SOPHIATX_100_PERCENT :: int where "SOPHIATX_100_PERCENT = 10000"
definition SOPHIATX_1_PERCENT :: int where "SOPHIATX_1_PERCENT = 100"
definition SOPHIATX_INTEREST_BLOCKS :: int where "SOPHIATX_INTEREST_BLOCKS = 2400"
definition SOPHIATX_MAX_PROXY_RECURSION_DEPTH :: nat where "SOPHIATX_MAX_PROXY_RECURSION_DEPTH = 4"
definition SOPHIATX_VESTING_WITHDRAW_INTERVALS :: int where "SOPHIATX_VESTING_WITHDRAW_INTERVALS = 27"
definition SOPHIATX_VESTING_WITHDRAW_INTERVAL_SECONDS :: int where
  "SOPHIATX_VESTING_WITHDRAW_INTERVAL_SECONDS = 86400"
definition SOPHIATX_MAX_TIME_UNTIL_EXPIRATION :: int where "SOPHIATX_MAX_TIME_UNTIL_EXPIRATION = 3600"
definition SOPHIATX_MAX_UNDO_HISTORY :: int where "SOPHIATX_MAX_UNDO_HISTORY = 10000"
definition SOPHIATX_IRREVERSIBLE_THRESHOLD :: int where
  "SOPHIATX_IRREVERSIBLE_THRESHOLD = 75 * SOPHIATX_1_PERCENT"
definition SOPHIATX_MAX_SIG_CHECK_DEPTH :: nat where "SOPHIATX_MAX_SIG_CHECK_DEPTH = 2"
definition SOPHIATX_FEED_HISTORY_WINDOW :: nat where "SOPHIATX_FEED_HISTORY_WINDOW = 84"
definition SOPHIATX_MAX_FEED_AGE_SECONDS :: int where "SOPHIATX_MAX_FEED_AGE_SECONDS = 604800"
definition SOPHIATX_MAX_MEMO_SIZE :: nat where "SOPHIATX_MAX_MEMO_SIZE = 2048"
definition SOPHIATX_MAX_WITNESS_URL_LENGTH :: nat where "SOPHIATX_MAX_WITNESS_URL_LENGTH = 2048"
definition SOPHIATX_MAX_NAME_SEED_SIZE :: nat where "SOPHIATX_MAX_NAME_SEED_SIZE = 32"
definition SOPHIATX_OWNER_AUTH_RECOVERY_PERIOD :: int where "SOPHIATX_OWNER_AUTH_RECOVERY_PERIOD = 2592000"
definition SOPHIATX_ACCOUNT_RECOVERY_REQUEST_EXPIRATION_PERIOD :: int where
  "SOPHIATX_ACCOUNT_RECOVERY_REQUEST_EXPIRATION_PERIOD = 86400"
definition SOPHIATX_OWNER_UPDATE_LIMIT :: int where "SOPHIATX_OWNER_UPDATE_LIMIT = 3600"
definition SIZE_COVERED_IN_BASE_FEE :: int where "SIZE_COVERED_IN_BASE_FEE = 4096"
definition SIZE_INCREASE_PER_FEE :: int where "SIZE_INCREASE_PER_FEE = 4096"
definition SOPHIATX_MAX_SHARE_SUPPLY :: int where "SOPHIATX_MAX_SHARE_SUPPLY = 1000000000000000"
definition SOPHIATX_SATOSHIS :: int where "SOPHIATX_SATOSHIS = 1000000"
definition SOPHIATX_VIRTUAL_SCHEDULE_LAP_LENGTH2 :: int where
  "SOPHIATX_VIRTUAL_SCHEDULE_LAP_LENGTH2 = 340282366920938463463374607431768211455"

section \<open>Genesis\<close>

record initial_account_type =
  ia_name :: account_name_type
  ia_key :: public_key_type
  ia_balance :: share_type

record genesis_state_type =
  g_initial_public_key :: public_key_type
  g_initial_public_mining_key :: public_key_type
  g_initial_balace :: int
  g_initial_supply :: int
  g_total_supply :: int
  g_max_witnesses :: int
  g_hardfork_req_witnesses :: int
  g_max_voted_witnesses :: int
  g_max_runner_witnesses :: int
  g_max_account_witness_votes :: int
  g_initial_witness_req_vesting_balance :: int
  g_final_witness_req_vesting_balance :: int
  g_witness_vesting_increase_days :: int
  g_block_interval :: int
  g_max_transaction_size :: int
  g_max_block_size :: int
  g_promotion_pool_percentage :: int
  g_mining_pool_percentage :: int
  g_interest_pool_percentage :: int
  g_burn_fee_percentage :: int
  g_coinbase_years :: int
  g_min_acc_creation_fee :: int
  g_base_fee :: int
  g_base_fee_usd :: int
  g_base_fee_eur :: int
  g_base_fee_chf :: int
  g_base_fee_cny :: int
  g_base_fee_gbp :: int
  g_symbol :: asset_symbol_type
  g_limit_bandwidth_blocks :: int
  g_max_allowed_bandwidth :: int
  g_max_allowed_ops :: int
  g_genesis_time :: int
  g_is_private_net :: bool
  g_initial_accounts :: "initial_account_type list"

text \<open>The default member initialisers; the keys are the decoded \<^verbatim>\<open>SOPHIATX_INIT_PUBLIC_KEY_STR\<close>.\<close>

definition default_genesis :: "public_key_type \<Rightarrow> genesis_state_type" where
  "default_genesis init_key =
    \<lparr>g_initial_public_key = init_key,
     g_initial_public_mining_key = init_key,
     g_initial_balace = 350000000000000,
     g_initial_supply = 350000000000000,
     g_total_supply = 500000000000000,
     g_max_witnesses = 51,
     g_hardfork_req_witnesses = 31,
     g_max_voted_witnesses = 47,
     g_max_runner_witnesses = 4,
     g_max_account_witness_votes = 60,
     g_initial_witness_req_vesting_balance = SOPHIATX_SATOSHIS * 250000,
     g_final_witness_req_vesting_balance = SOPHIATX_SATOSHIS * 300000,
     g_witness_vesting_increase_days = 159,
     g_block_interval = 3,
     g_max_transaction_size = 1024 * 8,
     g_max_block_size = 2048,
     g_promotion_pool_percentage = 1000,
     g_mining_pool_percentage = 2500,
     g_interest_pool_percentage = 6500,
     g_burn_fee_percentage = 1000,
     g_coinbase_years = 25,
     g_min_acc_creation_fee = 50000,
     g_base_fee = 10000,
     g_base_fee_usd = 10000,
     g_base_fee_eur = 8000,
     g_base_fee_chf = 10000,
     g_base_fee_cny = 64000,
     g_base_fee_gbp = 7500,
     g_symbol = SOPHIATX_SYMBOL,
     g_limit_bandwidth_blocks = 51,
     g_max_allowed_bandwidth = 51000,
     g_max_allowed_ops = 102,
     g_genesis_time = 1531512800,
     g_is_private_net = False,
     g_initial_accounts = []\<rparr>"

section \<open>The configuration\<close>

record sophiatx_config =
  cfg_min_feeds :: int
  cfg_is_private_net :: bool
  cfg_init_public_key :: public_key_type
  cfg_init_public_mining_key :: public_key_type
  cfg_min_account_creation_fee :: int
  cfg_init_supply :: int
  cfg_total_supply :: int
  cfg_genesis_time :: int
  cfg_block_interval :: int
  cfg_blocks_per_year :: int
  cfg_blocks_per_day :: int
  cfg_start_miner_voting_block :: int
  cfg_promotion_pool_percentage :: int
  cfg_mining_pool_percentage :: int
  cfg_interest_pool_percentage :: int
  cfg_burn_fee_percentage :: int
  cfg_interest_fees_time :: int
  cfg_interest_delay :: int
  cfg_coinbase_blocks :: int
  cfg_final_witness_required_vesting_balance :: int
  cfg_witness_vesting_increase_days_hf :: int
  cfg_initial_witness_required_vesting_balance :: int
  cfg_symbol :: asset_symbol_type
  cfg_base_fee :: asset
  cfg_base_fee_sbd1 :: asset
  cfg_base_fee_sbd2 :: asset
  cfg_base_fee_sbd3 :: asset
  cfg_base_fee_sbd4 :: asset
  cfg_base_fee_sbd5 :: asset
  cfg_max_witnesses :: int
  cfg_max_voted_witnesses_hf0 :: int
  cfg_max_runner_witnesses_hf0 :: int
  cfg_hardfork_required_witnesses :: int
  cfg_max_account_witness_votes :: int
  cfg_limit_bandwidth_blocks :: int
  cfg_max_allowed_bandwidth :: int
  cfg_max_allowed_ops_count :: int
  cfg_max_transaction_size :: int
  cfg_min_block_size_limit :: int
  cfg_max_block_size :: int
  cfg_blocks_per_hour :: int

definition init_config :: "genesis_state_type \<Rightarrow> sophiatx_config" where
  "init_config genesis =
    \<lparr>cfg_min_feeds = g_max_witnesses genesis div 10,
     cfg_is_private_net = g_is_private_net genesis,
     cfg_init_public_key = g_initial_public_key genesis,
     cfg_init_public_mining_key = g_initial_public_mining_key genesis,
     cfg_min_account_creation_fee = g_min_acc_creation_fee genesis,
     cfg_init_supply = g_initial_supply genesis,
     cfg_total_supply = g_total_supply genesis,
     cfg_genesis_time = g_genesis_time genesis,
     cfg_block_interval = g_block_interval genesis,
     cfg_blocks_per_year = 365 * 24 * 60 * 60 div g_block_interval genesis,
     cfg_blocks_per_day = 24 * 60 * 60 div g_block_interval genesis,
     cfg_start_miner_voting_block = u32 (24 * 60 * 60 div g_block_interval genesis * 7),
     cfg_promotion_pool_percentage = g_promotion_pool_percentage genesis,
     cfg_mining_pool_percentage = g_mining_pool_percentage genesis,
     cfg_interest_pool_percentage = g_interest_pool_percentage genesis,
     cfg_burn_fee_percentage = g_burn_fee_percentage genesis,
     cfg_interest_fees_time = 24 * 60 * 60 div g_block_interval genesis,
     cfg_interest_delay = 24 * 60 * 60 div g_block_interval genesis,
     cfg_coinbase_blocks = u32 (365 * 24 * 60 * 60 div g_block_interval genesis * g_coinbase_years genesis),
     cfg_final_witness_required_vesting_balance = g_final_witness_req_vesting_balance genesis,
     cfg_witness_vesting_increase_days_hf = g_witness_vesting_increase_days genesis,
     cfg_initial_witness_required_vesting_balance = g_initial_witness_req_vesting_balance genesis,
     cfg_symbol = g_symbol genesis,
     cfg_base_fee = Asset (g_base_fee genesis) (g_symbol genesis),
     cfg_base_fee_sbd1 = Asset (g_base_fee_usd genesis) SBD1_SYMBOL,
     cfg_base_fee_sbd2 = Asset (g_base_fee_eur genesis) SBD2_SYMBOL,
     cfg_base_fee_sbd3 = Asset (g_base_fee_chf genesis) SBD3_SYMBOL,
     cfg_base_fee_sbd4 = Asset (g_base_fee_cny genesis) SBD4_SYMBOL,
     cfg_base_fee_sbd5 = Asset (g_base_fee_gbp genesis) SBD5_SYMBOL,
     cfg_max_witnesses = g_max_witnesses genesis,
     cfg_max_voted_witnesses_hf0 = g_max_voted_witnesses genesis,
     cfg_max_runner_witnesses_hf0 = g_max_runner_witnesses genesis,
     cfg_hardfork_required_witnesses = g_hardfork_req_witnesses genesis,
     cfg_max_account_witness_votes = g_max_account_witness_votes genesis,
     cfg_limit_bandwidth_blocks = g_limit_bandwidth_blocks genesis,
     cfg_max_allowed_bandwidth = g_max_allowed_bandwidth genesis,
     cfg_max_allowed_ops_count = g_max_allowed_ops genesis,
     cfg_max_transaction_size = g_max_transaction_size genesis,
     cfg_min_block_size_limit = u32 (g_max_transaction_size genesis * 16),
     cfg_max_block_size = u32 (g_max_transaction_size genesis * g_block_interval genesis * g_max_block_size genesis),
     cfg_blocks_per_hour = 60 * 60 div g_block_interval genesis\<rparr>"

text \<open>The shares of the coinbase pools and of the fees add up to the whole.\<close>

definition config_ok :: "sophiatx_config \<Rightarrow> bool" where
  "config_ok c \<longleftrightarrow>
     0 \<le> cfg_mining_pool_percentage c \<and> 0 \<le> cfg_promotion_pool_percentage c \<and>
     0 \<le> cfg_interest_pool_percentage c \<and>
     cfg_mining_pool_percentage c + cfg_promotion_pool_percentage c + cfg_interest_pool_percentage c
       = SOPHIATX_100_PERCENT \<and>
     0 \<le> cfg_burn_fee_percentage c \<and> cfg_burn_fee_percentage c \<le> SOPHIATX_100_PERCENT \<and>
     0 < cfg_coinbase_blocks c \<and> 0 < cfg_block_interval c \<and>
     0 < cfg_blocks_per_day c \<and> 0 < cfg_interest_fees_time c"

lemma default_config_ok: "config_ok (init_config (default_genesis k))"
  by (simp add: config_ok_def init_config_def default_genesis_def SOPHIATX_100_PERCENT_def u32_def)

end
