(* ===== verification/Economics.thy ===== *)
theory Economics
  imports Config
begin

text \<open>
  \<^verbatim>\<open>libraries/chain/economics.hpp\<close> and \<^verbatim>\<open>economics.cpp\<close>: the pools of coins that do not exist yet
  (mining, interest, promotion, burned) and the window of past supplies that interest is
  paid from. Every withdrawal returns what it takes out of the pools; the interface
  \<open>coin_pool\<close> states this once for the three withdrawals and the database rests on it.
  A division of plain integers by zero, undefined in the source, is an error here.
\<close>

record economic_model =
  mining_pool_from_coinbase :: share_type
  mining_pool_from_fees :: share_type
  interest_pool_from_coinbase :: share_type
  interest_pool_from_fees :: share_type
  promotion_pool :: share_type
  burn_pool :: share_type
  initial_promotion_pool :: share_type
  em_init_supply :: share_type
  em_total_supply :: share_type
  coinbase_block_reward :: share_type
  historic_supply :: "int \<Rightarrow> share_type option"
  accumulated_supply :: share_type

definition new_economic_model :: economic_model where
  "new_economic_model =
     \<lparr>mining_pool_from_coinbase = 0, mining_pool_from_fees = 0, interest_pool_from_coinbase = 0,
      interest_pool_from_fees = 0, promotion_pool = 0, burn_pool = 0, initial_promotion_pool = 0,
      em_init_supply = 0, em_total_supply = 0, coinbase_block_reward = 0,
      historic_supply = (\<lambda>_. None), accumulated_supply = 0\<rparr>"

definition percent_of :: "share_type \<Rightarrow> int \<Rightarrow> share_type result" where
  "percent_of x pct = ebind (safe_mul x pct) (\<lambda>y. safe_div y SOPHIATX_100_PERCENT)"

definition init_economics :: "sophiatx_config \<Rightarrow> share_type \<Rightarrow> share_type \<Rightarrow> economic_model \<Rightarrow> economic_model result" where
  "init_economics c isup tsup em =
     ebind (safe_sub tsup isup) (\<lambda>coinbase.
     ebind (percent_of coinbase (cfg_mining_pool_percentage c)) (\<lambda>mining.
     ebind (percent_of coinbase (cfg_interest_pool_percentage c)) (\<lambda>interest.
     ebind (percent_of coinbase (cfg_promotion_pool_percentage c)) (\<lambda>promotion.
     ebind (safe_div mining (cfg_coinbase_blocks c)) (\<lambda>reward.
       Inr (em\<lparr>mining_pool_from_coinbase := mining,
               interest_pool_from_coinbase := interest,
               promotion_pool := promotion,
               initial_promotion_pool := promotion,
               em_init_supply := isup,
               em_total_supply := tsup,
               coinbase_block_reward := reward\<rparr>))))))"

definition get_mining_reward :: "sophiatx_config \<Rightarrow> int \<Rightarrow> economic_model \<Rightarrow> share_type result" where
  "get_mining_reward c block_number em =
     (let blocks_to_coinbase_end = u32 (cfg_coinbase_blocks c - block_number) in
      ebind (safe_div (mining_pool_from_coinbase em) blocks_to_coinbase_end) (\<lambda>reward.
      ebind (safe_div (mining_pool_from_fees em) (u32 (cfg_blocks_per_day c * 7))) (\<lambda>fees.
        safe_add reward fees)))"

text \<open>The argument of a withdrawal is a tuple, so that the three have the same shape.\<close>

definition withdraw_mining_reward ::
  "sophiatx_config \<Rightarrow> int \<times> int \<times> int \<Rightarrow> economic_model \<Rightarrow> (share_type \<times> economic_model) result" where
  "withdraw_mining_reward c = (\<lambda>(block_number, nominator, denominator) em.
     if block_number \<le> cfg_interest_delay c then Inr (0, em)
     else
       ebind (safe_mul (coinbase_block_reward em) nominator) (\<lambda>x.
       ebind (safe_div x denominator) (\<lambda>y.
       let reward_from_coinbase = min y (mining_pool_from_coinbase em) in
       ebind (safe_div (mining_pool_from_fees em) (u32 (cfg_blocks_per_day c * 7))) (\<lambda>f.
       ebind (safe_mul f nominator) (\<lambda>g.
       ebind (safe_div g denominator) (\<lambda>h.
       let reward_from_fees = min h (mining_pool_from_fees em) in
       ebind (safe_sub (mining_pool_from_coinbase em) reward_from_coinbase) (\<lambda>mc.
       ebind (safe_sub (mining_pool_from_fees em) reward_from_fees) (\<lambda>mf.
       ebind (safe_add reward_from_coinbase reward_from_fees) (\<lambda>reward.
         Inr (reward, em\<lparr>mining_pool_from_coinbase := mc, mining_pool_from_fees := mf\<rparr>))))))))))"

definition historic_at :: "economic_model \<Rightarrow> int \<Rightarrow> share_type" where
  "historic_at em i = (case historic_supply em i of None \<Rightarrow> 0 | Some s \<Rightarrow> s)"

definition record_block :: "int \<Rightarrow> share_type \<Rightarrow> economic_model \<Rightarrow> economic_model result" where
  "record_block generated_block current_supply em =
     (let slot = generated_block mod SOPHIATX_INTEREST_BLOCKS in
      ebind (if generated_block \<ge> SOPHIATX_INTEREST_BLOCKS
             then safe_sub (accumulated_supply em) (historic_at em slot)
             else Inr (accumulated_supply em)) (\<lambda>acc.
      ebind (safe_add acc current_supply) (\<lambda>acc'.
        Inr (em\<lparr>historic_supply := (historic_supply em)(slot := Some current_supply),
                accumulated_supply := acc'\<rparr>))))"

text \<open>\<^verbatim>\<open>SOPHIATX_TOTAL_INTERESTS\<close>, in 64-bit unsigned arithmetic.\<close>

definition total_interests :: "sophiatx_config \<Rightarrow> int" where
  "total_interests c =
     u64 (u64 (cfg_total_supply c - cfg_init_supply c) * cfg_interest_pool_percentage c)
       div SOPHIATX_100_PERCENT"

definition raw_div :: "int \<Rightarrow> int \<Rightarrow> int result" where
  "raw_div a b = (if b = 0 then Inl Divide_by_zero_exception else Inr (a div b))"

definition u128_to_share :: "int \<Rightarrow> share_type result" where
  "u128_to_share x = FC_ASSERT (x < 18446744073709551616) '''' (Inr (i64 x))"

definition withdraw_interests ::
  "sophiatx_config \<Rightarrow> share_type \<times> int \<Rightarrow> economic_model \<Rightarrow> (share_type \<times> economic_model) result" where
  "withdraw_interests c = (\<lambda>(holding, period) em.
     FC_ASSERT (holding \<ge> 0 \<and> interest_pool_from_coinbase em \<ge> 0 \<and> interest_pool_from_fees em \<ge> 0
                \<and> accumulated_supply em \<ge> holding) ''''
     (if holding = 0 then Inr (0, em)
      else
        ebind (raw_div (u64 (total_interests c * period)) (cfg_coinbase_blocks c)) (\<lambda>q.
        let total_coinbase_for_period = i64 (min (u64 (interest_pool_from_coinbase em)) q) in
        ebind (u128_to_share (u128 (u128 holding * u128 total_coinbase_for_period)
                 div u128 (accumulated_supply em))) (\<lambda>coinbase_reward.
        ebind (raw_div (u64 (i64 (interest_pool_from_fees em * SOPHIATX_INTEREST_BLOCKS)))
                 (cfg_interest_fees_time c)) (\<lambda>fees.
        ebind (u128_to_share (u128 (fees * u128 holding) div u128 (accumulated_supply em))) (\<lambda>fees_reward.
        ebind (safe_sub (interest_pool_from_fees em) fees_reward) (\<lambda>pf.
        ebind (safe_sub (interest_pool_from_coinbase em) coinbase_reward) (\<lambda>pc.
        ebind (safe_add fees_reward coinbase_reward) (\<lambda>r.
          Inr (r, em\<lparr>interest_pool_from_fees := pf, interest_pool_from_coinbase := pc\<rparr>))))))))))"

definition add_fee :: "sophiatx_config \<Rightarrow> share_type \<Rightarrow> economic_model \<Rightarrow> economic_model result" where
  "add_fee c fee0 em =
     ebind (percent_of fee0 (cfg_burn_fee_percentage c)) (\<lambda>to_burn.
     ebind (safe_sub fee0 to_burn) (\<lambda>fee.
     ebind (percent_of fee (cfg_mining_pool_percentage c)) (\<lambda>to_mining_pool.
     ebind (percent_of fee (cfg_promotion_pool_percentage c)) (\<lambda>to_promotion_pool.
     ebind (safe_add (mining_pool_from_fees em) to_mining_pool) (\<lambda>m.
     ebind (safe_add (promotion_pool em) to_promotion_pool) (\<lambda>p.
     ebind (safe_add (burn_pool em) to_burn) (\<lambda>b.
     ebind (safe_sub fee to_mining_pool) (\<lambda>t.
     ebind (safe_sub t to_promotion_pool) (\<lambda>to_interests.
     ebind (safe_add (interest_pool_from_fees em) to_interests) (\<lambda>i.
       Inr (em\<lparr>mining_pool_from_fees := m, promotion_pool := p, burn_pool := b,
               interest_pool_from_fees := i\<rparr>)))))))))))"

definition get_available_promotion_pool :: "sophiatx_config \<Rightarrow> int \<Rightarrow> economic_model \<Rightarrow> share_type result" where
  "get_available_promotion_pool c block_number em =
     (let blocks_to_coinbase_end = u128 (cfg_coinbase_blocks c - block_number) in
      ebind (raw_div (u128 (u128 (initial_promotion_pool em) * 262144)) (cfg_coinbase_blocks c)) (\<lambda>per_block.
      ebind (u128_to_share (u128 (per_block * blocks_to_coinbase_end) div 262144)) (\<lambda>locked_pool.
      FC_ASSERT (promotion_pool em \<ge> locked_pool) ''''
        (safe_sub (promotion_pool em) locked_pool))))"

definition withdraw_from_promotion_pool ::
  "sophiatx_config \<Rightarrow> share_type \<times> int \<Rightarrow> economic_model \<Rightarrow> (share_type \<times> economic_model) result" where
  "withdraw_from_promotion_pool c = (\<lambda>(amt, block_number) em.
     ebind (get_available_promotion_pool c block_number em) (\<lambda>free_pool.
     let to_withdraw = min free_pool amt in
     ebind (safe_sub (promotion_pool em) to_withdraw) (\<lambda>p.
     FC_ASSERT (to_withdraw > 0) '''' (Inr (to_withdraw, em\<lparr>promotion_pool := p\<rparr>)))))"

section \<open>Conservation\<close>

definition pool_total :: "economic_model \<Rightarrow> int" where
  "pool_total em = mining_pool_from_coinbase em + mining_pool_from_fees em
     + interest_pool_from_coinbase em + interest_pool_from_fees em + promotion_pool em + burn_pool em"

text \<open>What a client may rely on when it draws coins from the pools.\<close>

locale coin_pool =
  fixes draw :: "'a \<Rightarrow> economic_model \<Rightarrow> (share_type \<times> economic_model) result"
  assumes draw_conserves: "draw a em = Inr (r, em') \<Longrightarrow> pool_total em' + r = pool_total em"
    and draw_keeps_supply_window: "draw a em = Inr (r, em') \<Longrightarrow>
      historic_supply em' = historic_supply em \<and> accumulated_supply em' = accumulated_supply em"
begin

text \<open>A client that issues what it draws keeps the sum of the issued coins and the pools.\<close>

lemma draw_issue:
  assumes "draw a em = Inr (r, em')" "issued' = issued + r"
  shows "issued' + pool_total em' = issued + pool_total em"
  using draw_conserves [OF assms(1)] assms(2) by simp

end

text \<open>The only case distinctions a successful run leaves are the range tests, which the
  conservation argument does not need.\<close>

lemma safe_add_InrD: "safe_add a b = Inr c \<Longrightarrow> c = a + b"
  by (simp add: safe_add_Inr)

lemma safe_sub_InrD: "safe_sub a b = Inr c \<Longrightarrow> c = a - b"
  by (simp add: safe_sub_Inr)

lemmas safe_InrD = safe_add_InrD safe_sub_InrD

interpretation mining: coin_pool "withdraw_mining_reward c" for c
proof unfold_locales
  fix a em r em'
  assume "withdraw_mining_reward c a em = Inr (r, em')"
  then show "pool_total em' + r = pool_total em"
    by (cases a) (auto simp: withdraw_mining_reward_def ebind_eq_Inr Let_def pool_total_def
        dest!: safe_InrD split: if_splits)
next
  fix a em r em'
  assume "withdraw_mining_reward c a em = Inr (r, em')"
  then show "historic_supply em' = historic_supply em \<and> accumulated_supply em' = accumulated_supply em"
    by (cases a) (auto simp: withdraw_mining_reward_def ebind_eq_Inr Let_def split: if_splits)
qed

interpretation interest: coin_pool "withdraw_interests c" for c
proof unfold_locales
  fix a em r em'
  assume "withdraw_interests c a em = Inr (r, em')"
  then show "pool_total em' + r = pool_total em"
    by (cases a) (auto simp: withdraw_interests_def ebind_eq_Inr FC_ASSERT_eq_Inr Let_def pool_total_def
        dest!: safe_InrD split: if_splits)
next
  fix a em r em'
  assume "withdraw_interests c a em = Inr (r, em')"
  then show "historic_supply em' = historic_supply em \<and> accumulated_supply em' = accumulated_supply em"
    by (cases a) (auto simp: withdraw_interests_def ebind_eq_Inr FC_ASSERT_eq_Inr Let_def split: if_splits)
qed

interpretation promotion: coin_pool "withdraw_from_promotion_pool c" for c
proof unfold_locales
  fix a em r em'
  assume "withdraw_from_promotion_pool c a em = Inr (r, em')"
  then show "pool_total em' + r = pool_total em"
    by (cases a) (auto simp: withdraw_from_promotion_pool_def ebind_eq_Inr FC_ASSERT_eq_Inr Let_def
        pool_total_def dest!: safe_InrD)
next
  fix a em r em'
  assume "withdraw_from_promotion_pool c a em = Inr (r, em')"
  then show "historic_supply em' = historic_supply em \<and> accumulated_supply em' = accumulated_supply em"
    by (cases a) (auto simp: withdraw_from_promotion_pool_def ebind_eq_Inr FC_ASSERT_eq_Inr Let_def)
qed

lemma add_fee_total: "add_fee c fee em = Inr em' \<Longrightarrow> pool_total em' = pool_total em + fee"
  by (auto simp: add_fee_def ebind_eq_Inr pool_total_def dest!: safe_InrD)

lemma record_block_total: "record_block n s em = Inr em' \<Longrightarrow> pool_total em' = pool_total em"
  by (auto simp: record_block_def ebind_eq_Inr Let_def pool_total_def)

section \<open>Bounds of the shares\<close>

lemma percent_of_bounds:
  assumes "percent_of x pct = Inr y" "0 \<le> x" "0 \<le> pct" "pct \<le> SOPHIATX_100_PERCENT"
  shows "0 \<le> y" "y \<le> x"
proof -
  from assms obtain m where m: "m = x * pct" "y = m sdiv SOPHIATX_100_PERCENT"
    by (auto simp: percent_of_def ebind_eq_Inr safe_div_Inr dest: safe_mul_InrD)
  then have y: "y = x * pct div 10000"
    using assms by (simp add: SOPHIATX_100_PERCENT_def sdiv_pos)
  then show "0 \<le> y" using assms by (simp add: pos_imp_zdiv_nonneg_iff)
  have "x * pct \<le> x * 10000" using assms by (intro mult_left_mono) (simp_all add: SOPHIATX_100_PERCENT_def)
  then show "y \<le> x" unfolding y using zdiv_mono1 [of "x * pct" "x * 10000" 10000] by simp
qed

lemma percent_of_sum_bounds:
  assumes "percent_of x p = Inr a" "percent_of x q = Inr b" "0 \<le> x" "0 \<le> p" "0 \<le> q"
    "p + q \<le> SOPHIATX_100_PERCENT"
  shows "a + b \<le> x"
proof -
  have "a = x * p div 10000" "b = x * q div 10000"
    using assms by (auto simp: percent_of_def ebind_eq_Inr safe_div_Inr SOPHIATX_100_PERCENT_def sdiv_pos
        dest!: safe_mul_InrD)
  moreover have "x * p + x * q \<le> x * 10000"
    using mult_left_mono [OF assms(6,3)] by (simp add: SOPHIATX_100_PERCENT_def distrib_left)
  ultimately show ?thesis by linarith
qed

text \<open>A fee is split without loss: the pools together grow by exactly the fee, and no single
  pool shrinks (burned coins, mining, promotion and interest shares are all non-negative).\<close>

theorem add_fee_splits_exactly:
  assumes "add_fee c fee em = Inr em'" "0 \<le> fee" "config_ok c"
  shows "pool_total em' = pool_total em + fee \<and> burn_pool em \<le> burn_pool em'
    \<and> mining_pool_from_fees em \<le> mining_pool_from_fees em'
    \<and> promotion_pool em \<le> promotion_pool em'
    \<and> interest_pool_from_fees em \<le> interest_pool_from_fees em'"
proof -
  from assms(1) obtain tb f tm tp where
    tb: "percent_of fee (cfg_burn_fee_percentage c) = Inr tb" and f: "f = fee - tb"
    and tm: "percent_of f (cfg_mining_pool_percentage c) = Inr tm"
    and tp: "percent_of f (cfg_promotion_pool_percentage c) = Inr tp"
    and em': "em' = em\<lparr>mining_pool_from_fees := mining_pool_from_fees em + tm,
      promotion_pool := promotion_pool em + tp, burn_pool := burn_pool em + tb,
      interest_pool_from_fees := interest_pool_from_fees em + (f - tm - tp)\<rparr>"
    by (auto simp: add_fee_def ebind_eq_Inr dest!: safe_InrD)
  note c = assms(3) [unfolded config_ok_def]
  have b: "0 \<le> tb" "tb \<le> fee" using percent_of_bounds [OF tb assms(2)] c by simp_all
  with f have f0: "0 \<le> f" by simp
  have m: "0 \<le> tm" and p: "0 \<le> tp"
    using percent_of_bounds(1) [OF tm f0] percent_of_bounds(1) [OF tp f0] c by simp_all
  have s: "tm + tp \<le> f" using percent_of_sum_bounds [OF tm tp f0] c by simp
  show ?thesis using add_fee_total [OF assms(1)] b m p s by (simp add: em')
qed

theorem add_fee_splits_exactly_witness:
  "succeeds (add_fee (init_config (default_genesis 0)) 10000 new_economic_model)
     (\<lambda>em'. pool_total em' = 10000)"
proof -
  let ?c = "init_config (default_genesis 0)"
  have "succeeds (add_fee ?c 10000 new_economic_model) (\<lambda>em'. True)" by code_simp
  then obtain em' where em': "add_fee ?c 10000 new_economic_model = Inr em'"
    by (auto simp: succeeds_iff)
  have "pool_total em' = pool_total new_economic_model + 10000"
    using add_fee_splits_exactly [OF em' _ default_config_ok] by simp
  with em' show ?thesis by (simp add: succeeds_def pool_total_def new_economic_model_def)
qed

section \<open>The window of past supplies\<close>

text \<open>Blocks \<open>1, 2, \<dots>\<close> recorded one after the other.\<close>

definition record_all :: "share_type list \<Rightarrow> economic_model \<Rightarrow> economic_model result" where
  "record_all ss = efold (\<lambda>(n, s). record_block (int n) s) (zip [1..<Suc (length ss)] ss)"

definition window_inv :: "share_type list \<Rightarrow> economic_model \<Rightarrow> bool" where
  "window_inv ss em \<longleftrightarrow>
     accumulated_supply em = sum_list (drop (length ss - 2400) ss) \<and>
     (\<forall>k. 1 \<le> k \<longrightarrow> k \<le> length ss \<longrightarrow> length ss < k + 2400 \<longrightarrow>
        historic_at em (int (k mod 2400)) = ss ! (k - 1)) \<and>
     (length ss < 2400 \<longrightarrow> historic_at em 0 = 0)"

lemma record_all_snoc:
  "record_all (ss @ [s]) em = ebind (record_all ss em) (record_block (int (Suc (length ss))) s)"
proof -
  have "zip [1..<Suc (length (ss @ [s]))] (ss @ [s]) =
      zip [1..<Suc (length ss)] ss @ [(Suc (length ss), s)]"
  proof -
    have "[1..<Suc (length (ss @ [s]))] = [1..<Suc (length ss)] @ [Suc (length ss)]"
      using upt_Suc_append [of 1 "Suc (length ss)"] by (simp del: upt_Suc)
    moreover have "length [1..<Suc (length ss)] = length ss" by (simp del: upt_Suc)
    ultimately show ?thesis by (simp only: zip_append) (simp del: upt_Suc)
  qed
  then show ?thesis
    unfolding record_all_def by (simp only: efold_append) (simp add: ebind_def cong: sum.case_cong split: sum.splits)
qed

lemma record_block_effect:
  assumes "record_block n s em = Inr em'"
  shows "accumulated_supply em' = accumulated_supply em + s
      - (if n \<ge> 2400 then historic_at em (n mod 2400) else 0)"
    and "historic_at em' i = (if i = n mod 2400 then s else historic_at em i)"
  using assms
  by (auto simp: record_block_def ebind_eq_Inr Let_def historic_at_def SOPHIATX_INTEREST_BLOCKS_def
      split: if_splits option.splits dest!: safe_InrD)

lemma drop_window:
  fixes ss :: "int list"
  assumes "2400 \<le> length ss"
  shows "sum_list (drop (length ss - 2400) ss) = ss ! (length ss - 2400) + sum_list (drop (length ss - 2399) ss)"
proof -
  have "Suc (length ss - 2400) = length ss - 2399" using assms by simp
  then have "drop (length ss - 2400) ss = ss ! (length ss - 2400) # drop (length ss - 2399) ss"
    using assms Cons_nth_drop_Suc [of "length ss - 2400" ss] by simp
  then show ?thesis by simp
qed

lemma slot_neq: "k < n \<Longrightarrow> n < k + 2400 \<Longrightarrow> k mod 2400 \<noteq> n mod (2400 :: nat)"
  by (metis add_diff_inverse_nat less_diff_conv2 less_imp_le_nat mod_eq_dvd_iff_nat nat_dvd_not_less
      not_less_iff_gr_or_eq zero_less_diff diff_add_inverse add.commute)

lemma window_step:
  assumes inv: "window_inv ss em" and step: "record_block (int (Suc (length ss))) s em = Inr em'"
  shows "window_inv (ss @ [s]) em'"
proof -
  let ?n = "Suc (length ss)"
  note eff = record_block_effect [OF step]
  have mod_n: "int ?n mod 2400 = int (?n mod 2400)" by (simp only: zmod_int of_nat_numeral)
  have acc: "accumulated_supply em' = sum_list (drop (length (ss @ [s]) - 2400) (ss @ [s]))"
  proof (cases "?n \<le> 2400")
    case small: True
    have "historic_at em (int ?n mod 2400) = 0" if "int ?n \<ge> 2400"
    proof -
      have "?n = 2400" using that small by linarith
      then show ?thesis using inv by (simp add: window_inv_def)
    qed
    with inv small show ?thesis unfolding eff(1) by (auto simp: window_inv_def)
  next
    case big: False
    then have "historic_at em (int ((?n - 2400) mod 2400)) = ss ! (?n - 2400 - 1)"
      using inv by (simp add: window_inv_def)
    moreover have "(?n - 2400) mod 2400 = ?n mod 2400" using big by (simp add: mod_if)
    ultimately have "historic_at em (int ?n mod 2400) = ss ! (length ss - 2400)"
      unfolding mod_n by simp
    then have "accumulated_supply em' = sum_list (drop (length ss - 2399) ss) + s"
      using inv big drop_window [of ss] unfolding eff(1) by (simp add: window_inv_def)
    then show ?thesis using big by simp
  qed
  have "historic_at em' (int (k mod 2400)) = (ss @ [s]) ! (k - 1)"
    if k: "1 \<le> k" "k \<le> ?n" "?n < k + 2400" for k
  proof (cases "k = ?n")
    case True
    then show ?thesis unfolding eff(2) mod_n by (simp add: nth_append)
  next
    case False
    with k have "k mod 2400 \<noteq> ?n mod 2400" by (intro slot_neq) simp_all
    then have "historic_at em' (int (k mod 2400)) = historic_at em (int (k mod 2400))"
      unfolding eff(2) mod_n by simp
    moreover have "k - 1 < length ss" using k False by simp
    ultimately show ?thesis using k False inv by (simp add: window_inv_def nth_append)
  qed
  moreover have "historic_at em' 0 = 0" if "?n < 2400"
    using inv that unfolding eff(2) mod_n by (simp add: window_inv_def)
  ultimately show ?thesis using acc by (simp add: window_inv_def)
qed

text \<open>After any number of recorded blocks, \<^verbatim>\<open>accumulated_supply\<close> is the sum of the supplies of
  the last 2400 blocks (of all blocks while there are fewer): the ring buffer drops exactly
  the supply that leaves the window.\<close>

theorem record_block_window:
  assumes "record_all ss em = Inr em'" "historic_supply em = (\<lambda>_. None)" "accumulated_supply em = 0"
  shows "accumulated_supply em' = sum_list (drop (length ss - 2400) ss)"
proof -
  have "record_all ss em = Inr em' \<Longrightarrow> window_inv ss em'" for em'
  proof (induction ss arbitrary: em' rule: rev_induct)
    case Nil
    then show ?case using assms(2,3) by (simp add: record_all_def window_inv_def historic_at_def)
  next
    case (snoc s ss)
    then show ?case by (auto simp: record_all_snoc ebind_eq_Inr intro: window_step)
  qed
  from this [OF assms(1)] show ?thesis by (simp add: window_inv_def)
qed

theorem record_block_window_witness:
  "succeeds (record_all [10, 20, 30] new_economic_model) (\<lambda>em'. accumulated_supply em' = 60)"
proof -
  have "succeeds (record_all [10, 20, 30] new_economic_model) (\<lambda>em'. True)" by code_simp
  then obtain em' where em': "record_all [10, 20, 30] new_economic_model = Inr em'"
    by (auto simp: succeeds_iff)
  show ?thesis using record_block_window [OF em'] em' by (simp add: succeeds_def new_economic_model_def)
qed

section \<open>Interest\<close>

lemma u128_to_share_Inr: "u128_to_share x = Inr y \<longleftrightarrow> x < 18446744073709551616 \<and> y = i64 x"
  by (auto simp: u128_to_share_def FC_ASSERT_eq_Inr)

lemma raw_div_Inr: "raw_div a b = Inr y \<longleftrightarrow> b \<noteq> 0 \<and> y = a div b"
  by (auto simp: raw_div_def)

text \<open>A holder's share of an amount is at most the amount.\<close>

lemma holder_share:
  assumes "0 \<le> t" "is_int64 t" "0 < h" "h \<le> a" "is_int64 a"
  shows "i64 (u128 (t * u128 h) div u128 a) = t * h div a" "0 \<le> t * h div a" "t * h div a \<le> t"
proof -
  have ih: "is_int64 h" using assms by (simp add: int64_defs)
  have uh: "u128 h = h" and ua: "u128 a = a"
    using assms by (simp_all add: u128_id int64_defs)
  show nn: "0 \<le> t * h div a" using assms by (simp add: pos_imp_zdiv_nonneg_iff)
  have "t * h \<le> t * a" using assms by (intro mult_left_mono) simp_all
  then show le: "t * h div a \<le> t" using zdiv_mono1 [of "t * h" "t * a" a] assms by simp
  have "is_int64 (t * h div a)" using nn le assms(2) by (simp add: int64_defs)
  then show "i64 (u128 (t * u128 h) div u128 a) = t * h div a"
    using u128_mult_id [OF assms(2) ih] assms uh ua by (simp add: i64_id)
qed

lemma scaled_fees:
  assumes "0 \<le> f" "is_int64 (f * SOPHIATX_INTEREST_BLOCKS)" "SOPHIATX_INTEREST_BLOCKS \<le> ft"
  shows "u64 (i64 (f * SOPHIATX_INTEREST_BLOCKS)) div ft \<le> f"
    and "0 \<le> u64 (i64 (f * SOPHIATX_INTEREST_BLOCKS)) div ft"
proof -
  have e: "u64 (i64 (f * SOPHIATX_INTEREST_BLOCKS)) = f * SOPHIATX_INTEREST_BLOCKS"
    using assms by (simp add: i64_id u64_id int64_defs SOPHIATX_INTEREST_BLOCKS_def)
  have "0 < ft" using assms by (simp add: SOPHIATX_INTEREST_BLOCKS_def)
  moreover have "f * SOPHIATX_INTEREST_BLOCKS \<le> f * ft" using assms by (intro mult_left_mono) simp_all
  ultimately show "u64 (i64 (f * SOPHIATX_INTEREST_BLOCKS)) div ft \<le> f"
    unfolding e using zdiv_mono1 [of "f * SOPHIATX_INTEREST_BLOCKS" "f * ft" ft] by simp
  show "0 \<le> u64 (i64 (f * SOPHIATX_INTEREST_BLOCKS)) div ft"
    unfolding e using assms \<open>0 < ft\<close> by (simp add: pos_imp_zdiv_nonneg_iff SOPHIATX_INTEREST_BLOCKS_def)
qed

definition interest_amounts_ok :: "sophiatx_config \<Rightarrow> economic_model \<Rightarrow> bool" where
  "interest_amounts_ok c em \<longleftrightarrow> config_ok c \<and> SOPHIATX_INTEREST_BLOCKS \<le> cfg_interest_fees_time c
     \<and> is_int64 (interest_pool_from_coinbase em) \<and> is_int64 (accumulated_supply em)
     \<and> is_int64 (interest_pool_from_fees em * SOPHIATX_INTEREST_BLOCKS)"

text \<open>Interest never overdraws: whatever a holder withdraws is non-negative, is taken from the
  two interest pools coin by coin, and leaves both pools non-negative and no larger.\<close>

lemma withdraw_interests_never_overdraws:
  assumes run: "withdraw_interests c (holding, period) em = Inr (r, em')"
    and ok: "interest_amounts_ok c em"
  shows "0 \<le> r \<and> 0 \<le> interest_pool_from_coinbase em' \<and> 0 \<le> interest_pool_from_fees em'
     \<and> interest_pool_from_coinbase em' \<le> interest_pool_from_coinbase em
     \<and> interest_pool_from_fees em' \<le> interest_pool_from_fees em
     \<and> pool_total em' + r = pool_total em"
proof (cases "holding = 0")
  case True
  with run show ?thesis by (auto simp: withdraw_interests_def FC_ASSERT_eq_Inr)
next
  case False
  let ?q = "u64 (total_interests c * period) div cfg_coinbase_blocks c"
  let ?t = "min (u64 (interest_pool_from_coinbase em)) ?q"
  let ?fee = "u64 (i64 (interest_pool_from_fees em * SOPHIATX_INTEREST_BLOCKS)) div cfg_interest_fees_time c"
  from run False obtain cr fr where
    pre: "holding \<ge> 0" "interest_pool_from_coinbase em \<ge> 0" "interest_pool_from_fees em \<ge> 0"
      "accumulated_supply em \<ge> holding"
    and cr: "cr = i64 (u128 (u128 holding * u128 (i64 ?t)) div u128 (accumulated_supply em))"
    and fr: "fr = i64 (u128 (?fee * u128 holding) div u128 (accumulated_supply em))"
    and em': "em' = em\<lparr>interest_pool_from_fees := interest_pool_from_fees em - fr,
      interest_pool_from_coinbase := interest_pool_from_coinbase em - cr\<rparr>" and r: "r = fr + cr"
    by (auto simp: withdraw_interests_def FC_ASSERT_eq_Inr ebind_eq_Inr Let_def raw_div_Inr
        u128_to_share_Inr dest!: safe_InrD)
  note ok' = ok [unfolded interest_amounts_ok_def config_ok_def]
  have q0: "0 \<le> ?q" using ok' by (simp add: pos_imp_zdiv_nonneg_iff)
  have u: "u64 (interest_pool_from_coinbase em) = interest_pool_from_coinbase em"
    using ok' pre by (simp add: u64_id int64_defs)
  have t: "0 \<le> ?t" "is_int64 ?t" "?t \<le> interest_pool_from_coinbase em"
    using q0 u ok' pre by (auto simp: int64_defs)
  then have t': "i64 ?t = ?t" "u128 ?t = ?t" by (simp_all only: i64_id) (simp add: u128_id int64_defs)
  have h: "0 < holding" using pre False by simp
  have a: "is_int64 (accumulated_supply em)" using ok' by simp
  have c: "0 \<le> cr" "cr \<le> interest_pool_from_coinbase em"
    using holder_share [OF t(1,2) h pre(4) a] t(3)
    unfolding cr t' mult.commute [of "u128 holding"] by linarith+
  have f: "0 \<le> ?fee" "?fee \<le> interest_pool_from_fees em"
    using scaled_fees [OF pre(3)] ok' by simp_all
  have "is_int64 ?fee" using f ok' by (simp add: int64_defs SOPHIATX_INTEREST_BLOCKS_def)
  from holder_share [OF f(1) this h pre(4) a] f fr have "0 \<le> fr" "fr \<le> interest_pool_from_fees em"
    by simp_all
  with c show ?thesis by (simp add: em' r pool_total_def)
qed

text \<open>A model in the middle of the coinbase period, for examples.\<close>

definition sample_model :: economic_model where
  "sample_model = new_economic_model\<lparr>interest_pool_from_coinbase := 97500000000000,
     interest_pool_from_fees := 5000000, accumulated_supply := 840000000000000000,
     promotion_pool := 15000000000000, initial_promotion_pool := 15000000000000\<rparr>"

text \<open>Past the end of the coinbase period the promotion pool cannot be used any more: the
  number of remaining blocks is computed in unsigned arithmetic and wraps, so the locked part
  does not fit 64 bits and the withdrawal throws although nothing should be locked.\<close>

theorem promotion_pool_locked_after_coinbase:
  "throws (withdraw_from_promotion_pool (init_config (default_genesis 0)) (1, 262800001) sample_model)
     (Assert_exception [])"
  by code_simp

end
