(* ===== verification/Authority.thy ===== *)
theory Authority
  imports Config
begin

text \<open>
  \<^verbatim>\<open>libraries/protocol/authority.hpp\<close>, \<^verbatim>\<open>authority.cpp\<close>, \<^verbatim>\<open>sign_state.hpp\<close>, \<^verbatim>\<open>sign_state.cpp\<close>,
  \<^verbatim>\<open>transaction_util.hpp\<close>: authorities (weighted keys and accounts with a threshold), the walk
  that decides whether a set of signatures satisfies an authority, and the check of a
  transaction. The declarative meaning of an authority is \<open>authorised\<close>; the walk is shown to
  be sound for it, with the recursion bound and the cache of approved accounts included.
\<close>

section \<open>Authorities\<close>

type_synonym weight_type = int

record authority =
  weight_threshold :: int
  account_auths :: "(account_name_type \<times> weight_type) list"
  key_auths :: "(public_key_type \<times> weight_type) list"

definition empty_authority :: authority where
  "empty_authority = \<lparr>weight_threshold = 0, account_auths = [], key_auths = []\<rparr>"

definition add_key_authority :: "public_key_type \<Rightarrow> weight_type \<Rightarrow> authority \<Rightarrow> authority" where
  "add_key_authority k w a = a\<lparr>key_auths := flat_insert k w (key_auths a)\<rparr>"

definition add_account_authority :: "account_name_type \<Rightarrow> weight_type \<Rightarrow> authority \<Rightarrow> authority" where
  "add_account_authority k w a = a\<lparr>account_auths := flat_insert k w (account_auths a)\<rparr>"

definition get_keys :: "authority \<Rightarrow> public_key_type list" where
  "get_keys a = map fst (key_auths a)"

definition is_impossible :: "authority \<Rightarrow> bool" where
  "is_impossible a \<longleftrightarrow>
     u64 (foldl (\<lambda>s i. u64 (s + snd i)) (foldl (\<lambda>s i. u64 (s + snd i)) 0 (account_auths a)) (key_auths a))
       < weight_threshold a"

definition num_auths :: "authority \<Rightarrow> int" where
  "num_auths a = u32 (int (length (account_auths a)) + int (length (key_auths a)))"

definition clear_auths :: "authority \<Rightarrow> authority" where
  "clear_auths a = a\<lparr>account_auths := [], key_auths := []\<rparr>"

section \<open>Names\<close>

definition lower :: string where "lower = ''abcdefghijklmnopqrstuvwxyz''"
definition digits :: string where "digits = ''0123456789''"

definition label_start :: "char \<Rightarrow> bool" where "label_start c \<longleftrightarrow> c \<in> set lower"
definition label_end :: "char \<Rightarrow> bool" where "label_end c \<longleftrightarrow> c \<in> set lower \<or> c \<in> set digits"
definition label_char :: "char \<Rightarrow> bool" where
  "label_char c \<longleftrightarrow> c \<in> set lower \<or> c \<in> set digits \<or> c = CHR ''-''"

text \<open>One turn of the loop per label: the argument is the name from \<^verbatim>\<open>begin\<close> on, the label reaches
  to the next dot or to the end.\<close>

function valid_labels :: "string \<Rightarrow> bool" where
  "valid_labels s =
     (let label = takeWhile (\<lambda>c. c \<noteq> CHR ''.'') s in
      if length label < 3 then False
      else if \<not> label_start (hd label) then False
      else if \<not> label_end (last label) then False
      else if \<not> list_all label_char (butlast (tl label)) then False
      else if length label = length s then True
      else valid_labels (drop (Suc (length label)) s))"
  by pat_completeness auto

text \<open>Each turn consumes a label of at least three characters.\<close>

termination valid_labels
proof (relation "measure length")
  fix s label
  assume "label = takeWhile (\<lambda>c. c \<noteq> CHR ''.'') s" "\<not> length label < 3"
  then have "s \<noteq> []" by auto
  then show "(drop (Suc (length label)) s, s) \<in> measure length" by simp
qed simp

declare valid_labels.simps [simp del]

definition is_valid_account_name :: "string \<Rightarrow> bool" where
  "is_valid_account_name name =
     (if length name < 3 then False
      else if length name > 16 then False
      else valid_labels name)"

text \<open>The grammar of the header: labels separated by dots.\<close>

definition is_label :: "string \<Rightarrow> bool" where
  "is_label l \<longleftrightarrow> 3 \<le> length l \<and> label_start (hd l) \<and> label_end (last l) \<and> (\<forall>c \<in> set l. label_char c)"

inductive subdomain :: "string \<Rightarrow> bool" where
  one: "is_label l \<Longrightarrow> subdomain l"
| more: "is_label l \<Longrightarrow> subdomain s \<Longrightarrow> subdomain (l @ CHR ''.'' # s)"

lemma label_char_no_dot: "label_char c \<Longrightarrow> c \<noteq> CHR ''.''"
  by (auto simp: label_char_def lower_def digits_def)

lemma start_end_char: "label_start c \<Longrightarrow> label_char c" "label_end c \<Longrightarrow> label_char c"
  by (auto simp: label_start_def label_end_def label_char_def)

lemma is_label_iff:
  assumes "3 \<le> length l"
  shows "is_label l \<longleftrightarrow> label_start (hd l) \<and> label_end (last l) \<and> list_all label_char (butlast (tl l))"
proof -
  from assms obtain a t where "l = a # t" "t \<noteq> []" by (cases l; cases "tl l") auto
  then have "l = a # butlast t @ [last t]" by simp
  then obtain a m b where l: "l = a # m @ [b]" by blast
  then show ?thesis using assms start_end_char by (auto simp: is_label_def list_all_iff)
qed

lemma dot_split:
  "length (takeWhile (\<lambda>c. c \<noteq> d) s) \<noteq> length s \<Longrightarrow>
     s = takeWhile (\<lambda>c. c \<noteq> d) s @ d # drop (Suc (length (takeWhile (\<lambda>c. c \<noteq> d) s))) s"
  by (induction s) auto

lemma no_dot: "length (takeWhile P s) = length s \<Longrightarrow> takeWhile P s = s"
  using takeWhile_eq_take [of P s] by simp

text \<open>The body of the loop, with the tests on the characters read as the label rule.\<close>

lemma valid_labels_label:
  "valid_labels s \<longleftrightarrow>
     (let label = takeWhile (\<lambda>c. c \<noteq> CHR ''.'') s in
      is_label label \<and> (length label = length s \<or> valid_labels (drop (Suc (length label)) s)))"
proof -
  let ?l = "takeWhile (\<lambda>c. c \<noteq> CHR ''.'') s"
  show ?thesis
  proof (cases "length ?l < 3")
    case True
    then show ?thesis by (subst valid_labels.simps) (simp add: Let_def is_label_def)
  next
    case False
    then show ?thesis by (subst valid_labels.simps) (simp add: Let_def is_label_iff)
  qed
qed

lemma valid_labels_sound: "valid_labels s \<Longrightarrow> subdomain s"
proof (induction "length s" arbitrary: s rule: less_induct)
  case less
  let ?l = "takeWhile (\<lambda>c. c \<noteq> CHR ''.'') s"
  from less.prems have l: "is_label ?l"
    and rest: "length ?l = length s \<or> valid_labels (drop (Suc (length ?l)) s)"
    unfolding valid_labels_label [of s] Let_def by simp_all
  show ?case
  proof (cases "length ?l = length s")
    case True
    from subdomain.one [OF l] show ?thesis by (simp only: no_dot [OF True])
  next
    case False
    have "s \<noteq> []" using l by (auto simp: is_label_def)
    then have "length (drop (Suc (length ?l)) s) < length s" by simp
    then have "subdomain (drop (Suc (length ?l)) s)" using rest False less.hyps by blast
    from subdomain.more [OF l this] show ?thesis unfolding dot_split [OF False, symmetric] .
  qed
qed

lemma takeWhile_label:
  assumes "is_label l"
  shows "takeWhile (\<lambda>c. c \<noteq> CHR ''.'') (l @ CHR ''.'' # s) = l"
    "takeWhile (\<lambda>c. c \<noteq> CHR ''.'') l = l"
proof -
  have nd: "c \<noteq> CHR ''.''" if "c \<in> set l" for c
    using assms that label_char_no_dot by (simp add: is_label_def)
  show "takeWhile (\<lambda>c. c \<noteq> CHR ''.'') (l @ CHR ''.'' # s) = l"
    using takeWhile_append2 [of l "\<lambda>c. c \<noteq> CHR ''.''"] nd by simp
  show "takeWhile (\<lambda>c. c \<noteq> CHR ''.'') l = l"
    using nd by (intro takeWhile_eq_all_conv [THEN iffD2]) simp
qed

lemma valid_labels_complete: "subdomain s \<Longrightarrow> valid_labels s"
proof (induction rule: subdomain.induct)
  case (one l)
  then show ?case unfolding valid_labels_label [of l] by (simp add: Let_def takeWhile_label)
next
  case (more l s)
  then show ?case
    unfolding valid_labels_label [of "l @ CHR ''.'' # s"] by (simp add: Let_def takeWhile_label)
qed

text \<open>\<^verbatim>\<open>is_valid_account_name\<close> accepts exactly the names of the grammar documented beside it: between
  3 and 16 characters, a sequence of labels separated by dots, each label at least three
  characters long, starting with a lower-case letter, ending with a letter or digit and
  containing only letters, digits and hyphens.\<close>

theorem valid_account_name_iff_grammar:
  "is_valid_account_name name \<longleftrightarrow> 3 \<le> length name \<and> length name \<le> 16 \<and> subdomain name"
  using valid_labels_sound valid_labels_complete by (auto simp: is_valid_account_name_def)

section \<open>The walk over authorities\<close>

type_synonym authority_getter = "account_name_type \<Rightarrow> authority result"

record sign_state =
  available_keys :: "public_key_type list"
  provided_signatures :: "(public_key_type \<times> bool) list"
  approved_by :: "account_name_type list"

definition mk_sign_state :: "public_key_type list \<Rightarrow> public_key_type list \<Rightarrow> sign_state" where
  "mk_sign_state sigs keys =
     \<lparr>available_keys = keys,
      provided_signatures = foldl (\<lambda>m k. flat_insert k False m) [] sigs,
      approved_by = [SOPHIATX_TEMP_ACCOUNT]\<rparr>"

definition signed_by :: "public_key_type \<Rightarrow> sign_state \<Rightarrow> bool \<times> sign_state" where
  "signed_by k st =
     (if k \<notin> fst ` set (provided_signatures st) then
        if k \<in> set (available_keys st)
        then (True, st\<lparr>provided_signatures := flat_insert k True (provided_signatures st)\<rparr>)
        else (False, st)
      else (True, st\<lparr>provided_signatures := flat_insert k True (provided_signatures st)\<rparr>))"

text \<open>The loop over the keys: \<open>(True, \<dots>)\<close> is the early return, otherwise the weight so far.\<close>

fun check_keys :: "int \<Rightarrow> (public_key_type \<times> weight_type) list \<Rightarrow> int \<Rightarrow> sign_state \<Rightarrow> bool \<times> int \<times> sign_state" where
  "check_keys thr [] tw st = (False, tw, st)"
| "check_keys thr ((k, w) # ks) tw st =
     (let (ok, st1) = signed_by k st in
      if ok then
        let t = u32 (tw + w) in
        if t \<ge> thr then (True, t, st1) else check_keys thr ks t st1
      else check_keys thr ks tw st1)"

text \<open>The loop over the accounts; \<open>d\<close> is \<^verbatim>\<open>max_recursion - depth\<close>.\<close>

function check_accounts ::
  "authority_getter \<Rightarrow> nat \<Rightarrow> int \<Rightarrow> (account_name_type \<times> weight_type) list \<Rightarrow> int \<Rightarrow> sign_state
    \<Rightarrow> (bool \<times> sign_state) result" where
  "check_accounts ga d thr [] tw st = Inr (tw \<ge> thr, st)"
| "check_accounts ga d thr ((a, w) # as) tw st =
     (if a \<in> set (approved_by st) then
        let t = u32 (tw + w) in
        if t \<ge> thr then Inr (True, st) else check_accounts ga d thr as t st
      else if d = 0 then check_accounts ga d thr as tw st
      else ebind (ga a) (\<lambda>au.
        ebind (case check_keys (weight_threshold au) (key_auths au) 0 st of (found, t0, st0) \<Rightarrow>
                 if found then Inr (True, st0)
                 else check_accounts ga (d - 1) (weight_threshold au) (account_auths au) t0 st0)
          (\<lambda>r. if fst r then
                 let st2 = (snd r)\<lparr>approved_by := a # approved_by (snd r)\<rparr>; t = u32 (tw + w) in
                 if t \<ge> thr then Inr (True, st2) else check_accounts ga d thr as t st2
               else check_accounts ga d thr as tw (snd r))))"
  by pat_completeness auto
termination by (relation "measures [\<lambda>(ga, d, thr, as, tw, st). d, \<lambda>(ga, d, thr, as, tw, st). length as]") auto

definition check_authority ::
  "authority_getter \<Rightarrow> nat \<Rightarrow> authority \<Rightarrow> sign_state \<Rightarrow> (bool \<times> sign_state) result" where
  "check_authority ga d au st =
     (case check_keys (weight_threshold au) (key_auths au) 0 st of (found, t0, st0) \<Rightarrow>
        if found then Inr (True, st0)
        else check_accounts ga d (weight_threshold au) (account_auths au) t0 st0)"

definition check_authority_id ::
  "authority_getter \<Rightarrow> nat \<Rightarrow> account_name_type \<Rightarrow> sign_state \<Rightarrow> (bool \<times> sign_state) result" where
  "check_authority_id ga d name st =
     (if name \<in> set (approved_by st) then Inr (True, st)
      else ebind (ga name) (\<lambda>au. check_authority ga d au st))"

definition remove_unused_signatures :: "sign_state \<Rightarrow> bool \<times> sign_state" where
  "remove_unused_signatures st =
     (let unused = filter (\<lambda>s. \<not> snd s) (provided_signatures st)
      in (unused \<noteq> [], st\<lparr>provided_signatures := filter snd (provided_signatures st)\<rparr>))"

text \<open>\<^verbatim>\<open>verify_authority\<close> on the authorities its visitor has collected from the operations.\<close>

definition verify_other :: "authority_getter \<Rightarrow> nat \<Rightarrow> authority \<Rightarrow> sign_state \<Rightarrow> sign_state result" where
  "verify_other ga d au st =
     ebind (check_authority ga d au st) (\<lambda>r. ethrow_unless (fst r) Tx_missing_other_auth (Inr (snd r)))"

definition verify_active ::
  "authority_getter \<Rightarrow> authority_getter \<Rightarrow> nat \<Rightarrow> account_name_type \<Rightarrow> sign_state \<Rightarrow> sign_state result" where
  "verify_active ga go d name st =
     ebind (check_authority_id ga d name st) (\<lambda>r.
       if fst r then Inr (snd r)
       else ebind (go name) (\<lambda>ow. ebind (check_authority ga d ow (snd r)) (\<lambda>r2.
         ethrow_unless (fst r2) Tx_missing_active_auth (Inr (snd r2)))))"

definition verify_owner ::
  "authority_getter \<Rightarrow> authority_getter \<Rightarrow> nat \<Rightarrow> account_name_type list \<Rightarrow> account_name_type \<Rightarrow> sign_state
    \<Rightarrow> sign_state result" where
  "verify_owner ga go d owner_approvals name st =
     (if name \<in> set owner_approvals then Inr st
      else ebind (go name) (\<lambda>ow. ebind (check_authority ga d ow st) (\<lambda>r.
        ethrow_unless (fst r) Tx_missing_owner_auth (Inr (snd r)))))"

definition verify_authority ::
  "account_name_type list \<Rightarrow> account_name_type list \<Rightarrow> authority list \<Rightarrow> public_key_type list
    \<Rightarrow> authority_getter \<Rightarrow> authority_getter \<Rightarrow> nat \<Rightarrow> account_name_type list \<Rightarrow> account_name_type list
    \<Rightarrow> unit result" where
  "verify_authority required_active required_owner other sigs ga go d active_approvals owner_approvals =
     (let s0 = mk_sign_state sigs [];
          s1 = s0\<lparr>approved_by := rev owner_approvals @ rev active_approvals @ approved_by s0\<rparr> in
      ebind (efold (verify_other ga d) other s1) (\<lambda>s2.
      ebind (efold (verify_active ga go d) required_active s2) (\<lambda>s3.
      ebind (efold (verify_owner ga go d owner_approvals) required_owner s3) (\<lambda>s4.
        ethrow_unless (\<not> fst (remove_unused_signatures s4)) Tx_irrelevant_sig (Inr ())))))"

section \<open>Soundness of the walk\<close>

text \<open>The meaning of an authority: the keys that signed and the accounts that agree carry enough
  weight, where an account agrees when it was approved beforehand or its active authority is
  itself authorised.\<close>

definition auth_weight :: "('k \<Rightarrow> bool) \<Rightarrow> ('k \<times> weight_type) list \<Rightarrow> int" where
  "auth_weight P xs = sum_list (map snd (filter (\<lambda>x. P (fst x)) xs))"

inductive authorised ::
  "(public_key_type \<Rightarrow> bool) \<Rightarrow> (account_name_type \<Rightarrow> bool) \<Rightarrow> authority_getter \<Rightarrow> authority \<Rightarrow> bool"
  for K A ga where
  "weight_threshold au \<le> auth_weight K (key_auths au) + auth_weight P (account_auths au) \<Longrightarrow>
   (\<And>a. P a \<Longrightarrow> A a \<or> (\<exists>au'. ga a = Inr au' \<and> authorised K A ga au')) \<Longrightarrow>
   authorised K A ga au"

definition agrees :: "(public_key_type \<Rightarrow> bool) \<Rightarrow> (account_name_type \<Rightarrow> bool) \<Rightarrow> authority_getter \<Rightarrow> account_name_type \<Rightarrow> bool" where
  "agrees K A ga a \<longleftrightarrow> A a \<or> (\<exists>au. ga a = Inr au \<and> authorised K A ga au)"

lemma authorisedI:
  "weight_threshold au \<le> auth_weight K (key_auths au) + auth_weight (agrees K A ga) (account_auths au) \<Longrightarrow>
   authorised K A ga au"
  by (rule authorised.intros, assumption) (simp add: agrees_def)

text \<open>Weights are unsigned 16-bit numbers.\<close>

definition weights_ok :: "authority \<Rightarrow> bool" where
  "weights_ok au \<longleftrightarrow> (\<forall>x \<in> set (key_auths au). 0 \<le> snd x) \<and> (\<forall>x \<in> set (account_auths au). 0 \<le> snd x)"

definition walk_ok :: "(public_key_type \<Rightarrow> bool) \<Rightarrow> (account_name_type \<Rightarrow> bool) \<Rightarrow> authority_getter \<Rightarrow> sign_state \<Rightarrow> bool" where
  "walk_ok K A ga st \<longleftrightarrow>
     (\<forall>k \<in> set (available_keys st). K k) \<and> (\<forall>x \<in> set (provided_signatures st). K (fst x)) \<and>
     (\<forall>a \<in> set (approved_by st). agrees K A ga a)"

lemma u32_le: "0 \<le> x \<Longrightarrow> u32 x \<le> x"
  by (simp add: u32_def zmod_le_nonneg_dividend)

lemma auth_weight_Cons:
  "auth_weight P ((k, w) # xs) = (if P k then w else 0) + auth_weight P xs"
  by (simp add: auth_weight_def)

lemma auth_weight_nonneg: "\<forall>x \<in> set xs. 0 \<le> snd x \<Longrightarrow> 0 \<le> auth_weight P xs"
  by (auto simp: auth_weight_def intro!: sum_list_nonneg)

lemma signed_by_sound:
  assumes "signed_by k st = (ok, st')" "walk_ok K A ga st"
  shows "walk_ok K A ga st'" "ok \<Longrightarrow> K k"
proof -
  show K: "ok \<Longrightarrow> K k"
    using assms by (auto simp: signed_by_def walk_ok_def split: if_splits)
  have "st' = st \<or> ok \<and> st' = st\<lparr>provided_signatures := flat_insert k True (provided_signatures st)\<rparr>"
    using assms(1) by (auto simp: signed_by_def split: if_splits)
  then show "walk_ok K A ga st'"
    using assms(2) K by (elim disjE conjE) (simp_all add: walk_ok_def)
qed

lemma check_keys_sound:
  assumes "check_keys thr ks tw st = (found, t', st')" "walk_ok K A ga st"
    "\<forall>x \<in> set ks. 0 \<le> snd x" "0 \<le> tw"
  shows "walk_ok K A ga st' \<and> 0 \<le> t' \<and> t' \<le> tw + auth_weight K ks \<and> (found \<longrightarrow> thr \<le> tw + auth_weight K ks)"
  using assms
proof (induction thr ks tw st rule: check_keys.induct)
  case (1 thr tw st)
  then show ?case by (simp add: auth_weight_def)
next
  case (2 thr k w ks tw st)
  obtain ok st1 where s: "signed_by k st = (ok, st1)" by fastforce
  note sb = signed_by_sound [OF s "2.prems"(2)]
  have le: "u32 (tw + w) \<le> tw + w" using "2.prems" by (intro u32_le) simp
  have nn: "0 \<le> auth_weight K ks" using "2.prems" by (intro auth_weight_nonneg) simp
  show ?case
  proof (cases ok)
    case True
    show ?thesis
    proof (cases "thr \<le> u32 (tw + w)")
      case True
      with "2.prems" \<open>ok\<close> s sb le nn show ?thesis by (auto simp: auth_weight_Cons)
    next
      case False
      with "2.prems" \<open>ok\<close> s have "check_keys thr ks (u32 (tw + w)) st1 = (found, t', st')" by simp
      with "2.IH"(1) [OF s [symmetric] refl \<open>ok\<close> refl] False sb le "2.prems" \<open>ok\<close>
      show ?thesis by (auto simp: auth_weight_Cons)
    qed
  next
    case False
    with "2.prems" s have "check_keys thr ks tw st1 = (found, t', st')" by simp
    with "2.IH"(2) [OF s [symmetric] refl False] sb "2.prems" show ?thesis
      by (auto simp: auth_weight_Cons)
  qed
qed

definition getter_ok :: "authority_getter \<Rightarrow> bool" where
  "getter_ok ga \<longleftrightarrow> (\<forall>a au. ga a = Inr au \<longrightarrow> weights_ok au)"

lemma check_accounts_sound:
  assumes "check_accounts ga d thr as tw st = Inr (b, st')" "walk_ok K A ga st" "getter_ok ga"
    "\<forall>x \<in> set as. 0 \<le> snd x" "0 \<le> tw"
  shows "walk_ok K A ga st' \<and> (b \<longrightarrow> thr \<le> tw + auth_weight (agrees K A ga) as)"
  using assms
proof (induction ga d thr as tw st arbitrary: b st' rule: check_accounts.induct)
  case (1 ga d thr tw st)
  then show ?case by (simp add: auth_weight_def)
next
  case (2 ga d thr a w as tw st)
  have le: "u32 (tw + w) \<le> tw + w" using "2.prems" by (intro u32_le) simp
  have nn: "0 \<le> auth_weight (agrees K A ga) as" using "2.prems" by (intro auth_weight_nonneg) simp
  have w: "0 \<le> w" using "2.prems" by simp
  consider (approved) "a \<in> set (approved_by st)" | (deep) "a \<notin> set (approved_by st)" "d = 0"
    | (visit) "a \<notin> set (approved_by st)" "d \<noteq> 0" by blast
  then show ?case
  proof cases
    case approved
    then have ag: "agrees K A ga a" using "2.prems"(2) by (simp add: walk_ok_def)
    show ?thesis
    proof (cases "thr \<le> u32 (tw + w)")
      case True
      with "2.prems" approved ag le nn show ?thesis by (auto simp: auth_weight_Cons)
    next
      case False
      with "2.prems" approved have "check_accounts ga d thr as (u32 (tw + w)) st = Inr (b, st')" by simp
      from "2.IH"(1) [OF approved refl False this] "2.prems" ag le show ?thesis
        by (auto simp: auth_weight_Cons)
    qed
  next
    case deep
    with "2.prems" have "check_accounts ga d thr as tw st = Inr (b, st')" by simp
    from "2.IH"(2) [OF deep this] "2.prems" w show ?thesis by (auto simp: auth_weight_Cons)
  next
    case visit
    from "2.prems"(1) visit obtain au r where au: "ga a = Inr au"
      and r: "(case check_keys (weight_threshold au) (key_auths au) 0 st of (found, t0, st0) \<Rightarrow>
          if found then Inr (True, st0)
          else check_accounts ga (d - 1) (weight_threshold au) (account_auths au) t0 st0) = Inr r"
      and cont: "(if fst r then
          let st2 = (snd r)\<lparr>approved_by := a # approved_by (snd r)\<rparr>; t = u32 (tw + w) in
          if t \<ge> thr then Inr (True, st2) else check_accounts ga d thr as t st2
        else check_accounts ga d thr as tw (snd r)) = Inr (b, st')"
      by (auto simp: ebind_eq_Inr simp del: split_paired_Ex)
    have aw: "weights_ok au" using "2.prems"(3) au by (simp add: getter_ok_def)
    obtain found t0 st0 where ck: "check_keys (weight_threshold au) (key_auths au) 0 st = (found, t0, st0)"
      by (metis prod_cases3)
    note cs = check_keys_sound [OF ck "2.prems"(2)]
    have sub: "walk_ok K A ga (snd r) \<and> (fst r \<longrightarrow> agrees K A ga a)"
    proof (cases found)
      case True
      then have "r = (True, st0)" using r ck by simp
      moreover have "authorised K A ga au"
        using cs True aw auth_weight_nonneg [of "account_auths au" "agrees K A ga"]
        by (intro authorisedI) (simp add: weights_ok_def)
      ultimately show ?thesis using cs aw au by (simp add: agrees_def weights_ok_def)
    next
      case False
      then have run: "check_accounts ga (d - 1) (weight_threshold au) (account_auths au) t0 st0 = Inr (fst r, snd r)"
        using r ck by simp
      have "walk_ok K A ga (snd r) \<and> (fst r \<longrightarrow>
          weight_threshold au \<le> t0 + auth_weight (agrees K A ga) (account_auths au))"
        using "2.IH"(3) [OF visit au ck [symmetric] refl False run] cs aw "2.prems"(3)
        by (simp add: weights_ok_def)
      moreover have "t0 \<le> auth_weight K (key_auths au)" using cs aw by (simp add: weights_ok_def)
      ultimately show ?thesis using au authorisedI [of au K A ga] by (fastforce simp: agrees_def)
    qed
    show ?thesis
    proof (cases "fst r")
      case True
      let ?st2 = "(snd r)\<lparr>approved_by := a # approved_by (snd r)\<rparr>"
      have ok2: "walk_ok K A ga ?st2" and ag: "agrees K A ga a"
        using sub True by (simp_all add: walk_ok_def)
      show ?thesis
      proof (cases "thr \<le> u32 (tw + w)")
        case True
        with cont \<open>fst r\<close> ok2 ag le nn show ?thesis by (auto simp: auth_weight_Cons Let_def)
      next
        case False
        with cont \<open>fst r\<close> have "check_accounts ga d thr as (u32 (tw + w)) ?st2 = Inr (b, st')"
          by (simp add: Let_def)
        from "2.IH"(4) [OF visit au r \<open>fst r\<close> refl refl False this ok2] "2.prems" ag le show ?thesis
          by (auto simp: auth_weight_Cons)
      qed
    next
      case False
      with cont have "check_accounts ga d thr as tw (snd r) = Inr (b, st')" by simp
      from "2.IH"(5) [OF visit au r False this] sub "2.prems" w show ?thesis
        by (auto simp: auth_weight_Cons)
    qed
  qed
qed

lemma check_authority_sound:
  assumes "check_authority ga d au st = Inr (True, st')" "walk_ok K A ga st" "getter_ok ga" "weights_ok au"
  shows "authorised K A ga au"
proof -
  obtain found t0 st0 where ck: "check_keys (weight_threshold au) (key_auths au) 0 st = (found, t0, st0)"
    by (metis prod_cases3)
  note cs = check_keys_sound [OF ck assms(2)]
  show ?thesis
  proof (cases found)
    case True
    then show ?thesis
      using cs assms(4) auth_weight_nonneg [of "account_auths au" "agrees K A ga"]
      by (intro authorisedI) (simp add: weights_ok_def)
  next
    case False
    then have "check_accounts ga d (weight_threshold au) (account_auths au) t0 st0 = Inr (True, st')"
      using assms(1) ck by (simp add: check_authority_def)
    from check_accounts_sound [OF this, of K A] cs assms(3,4) show ?thesis
      by (intro authorisedI) (simp add: weights_ok_def)
  qed
qed

text \<open>Soundness of the signature check: when \<^verbatim>\<open>sign_state::check_authority\<close> accepts an authority, the
  keys that signed (and the accounts approved beforehand, with \<open>temp\<close>) really carry its
  threshold, through accounts whose active authorities are met in turn. Neither the cache of
  approved accounts nor the wrap of the 32-bit weight sum lets an unauthorised request pass.\<close>

theorem accepted_authority_is_authorised:
  assumes "check_authority ga d au (mk_sign_state sigs []) = Inr (True, st')" "getter_ok ga" "weights_ok au"
  shows "authorised (\<lambda>k. k \<in> set sigs) (\<lambda>a. a = SOPHIATX_TEMP_ACCOUNT) ga au"
proof -
  have "(\<forall>x \<in> set (foldl (\<lambda>m k. flat_insert k False m) m ks). fst x \<in> S) \<longleftrightarrow>
      (\<forall>x \<in> set m. fst x \<in> S) \<and> set ks \<subseteq> S" for m ks and S :: "int set"
    by (induction ks arbitrary: m) (simp_all add: conj_ac)
  then have "walk_ok (\<lambda>k. k \<in> set sigs) (\<lambda>a. a = SOPHIATX_TEMP_ACCOUNT) ga (mk_sign_state sigs [])"
    by (simp add: walk_ok_def mk_sign_state_def agrees_def)
  from check_authority_sound [OF assms(1) this assms(2,3)] show ?thesis .
qed

theorem accepted_authority_is_authorised_witness:
  "authorised (\<lambda>k. k \<in> set [7]) (\<lambda>a. a = SOPHIATX_TEMP_ACCOUNT)
     (\<lambda>_. Inr \<lparr>weight_threshold = 1, account_auths = [], key_auths = [(7, 1)]\<rparr>)
     \<lparr>weight_threshold = 2, account_auths = [(5, 2)], key_auths = [(9, 1)]\<rparr>"
proof -
  let ?ga = "\<lambda>_. Inr \<lparr>weight_threshold = 1, account_auths = [], key_auths = [(7, 1)]\<rparr>"
  let ?au = "\<lparr>weight_threshold = 2, account_auths = [(5, 2)], key_auths = [(9, 1)]\<rparr>"
  have "\<exists>st'. check_authority ?ga 2 ?au (mk_sign_state [7] []) = Inr (True, st')"
    by (auto simp: check_authority_def mk_sign_state_def signed_by_def u32_def)
  then show ?thesis
    using accepted_authority_is_authorised [of ?ga 2 ?au "[7]"]
    by (auto simp: getter_ok_def weights_ok_def)
qed

end
