(* ===== verification/Version.thy ===== *)
theory Version
  imports Prelude
begin

unbundle bit_operations_syntax

text \<open>
  \<^verbatim>\<open>libraries/protocol/version.hpp\<close>, \<^verbatim>\<open>version.cpp\<close>: a version is one 32-bit number packed from
  major, hardfork and revision; hardfork versions have the revision masked out. The lemmas
  show that packing loses nothing and that comparing the numbers compares the triples.
\<close>

type_synonym version = int
type_synonym hardfork_version = int

definition mk_version :: "int \<Rightarrow> int \<Rightarrow> int \<Rightarrow> version" where
  "mk_version m h r =
     (let v = push_bit 8 (0 OR m); v = push_bit 16 (v OR h) in v OR r)"

definition get_major :: "version \<Rightarrow> int" where
  "get_major v = drop_bit 24 (v AND 0xFF000000)"

definition get_minor :: "version \<Rightarrow> int" where
  "get_minor v = drop_bit 16 (v AND 0x00FF0000)"

definition rev_of :: "version \<Rightarrow> int" where
  "rev_of v = v AND 0x0000FFFF"

definition hardfork_version_of :: "version \<Rightarrow> hardfork_version" where
  "hardfork_version_of v = v AND 0xFFFF0000"

definition hardfork_version :: "int \<Rightarrow> int \<Rightarrow> hardfork_version" where
  "hardfork_version m h = mk_version m h 0"

text \<open>The comparison of a hardfork version with a version masks the revision of the latter.\<close>

definition hf_less_version :: "hardfork_version \<Rightarrow> version \<Rightarrow> bool" where
  "hf_less_version a b \<longleftrightarrow> a < (b AND 0xFFFF0000)"

definition hf_eq_version :: "hardfork_version \<Rightarrow> version \<Rightarrow> bool" where
  "hf_eq_version a b \<longleftrightarrow> a = (b AND 0xFFFF0000)"

section \<open>Packing\<close>

lemma or_low_add:
  assumes "0 \<le> l" "l < 2 ^ n"
  shows "push_bit n h OR l = h * 2 ^ n + (l :: int)"
proof -
  have "take_bit n l = l" using assms by (simp add: take_bit_int_eq_self_iff)
  then have "\<not> bit l k" if "k \<ge> n" for k using that by (metis bit_take_bit_iff not_le)
  then have "push_bit n h OR l = push_bit n h + l"
    by (intro disjunctive_add [symmetric]) (auto simp: bit_push_bit_iff)
  then show ?thesis by (simp add: push_bit_eq_mult)
qed

lemma mk_version_value:
  assumes "0 \<le> m" "m < 256" "0 \<le> h" "h < 256" "0 \<le> r" "r < 65536"
  shows "mk_version m h r = m * 16777216 + h * 65536 + r"
proof -
  have "push_bit 8 m OR h = m * 256 + h" using assms or_low_add [of h 8 m] by simp
  moreover have "push_bit 16 (m * 256 + h) OR r = (m * 256 + h) * 65536 + r"
    using assms or_low_add [of r 16] by simp
  ultimately have "mk_version m h r = (m * 256 + h) * 65536 + r"
    by (simp only: mk_version_def Let_def or.left_neutral)
  then show ?thesis by simp
qed

lemma mask_div: "drop_bit n (v AND (2 ^ n * (2 ^ k - 1))) = (v div 2 ^ n) mod 2 ^ k" for v :: int
proof -
  have "drop_bit n (v AND (2 ^ n * (2 ^ k - 1))) = drop_bit n v AND (2 ^ k - 1)"
    by (simp only: drop_bit_and) (simp add: drop_bit_eq_div)
  also have "\<dots> = take_bit k (drop_bit n v)"
    by (simp only: take_bit_eq_mask mask_eq_exp_minus_1)
  finally show ?thesis by (simp add: take_bit_eq_mod drop_bit_eq_div)
qed

lemma get_major_value: "get_major v = v div 16777216 mod 256"
  using mask_div [of 24 v 8] by (simp add: get_major_def del: drop_bit_and)

lemma get_minor_value: "get_minor v = v div 65536 mod 256"
  using mask_div [of 16 v 8] by (simp add: get_minor_def del: drop_bit_and)

lemma rev_of_value: "rev_of v = v mod 65536"
  using mask_div [of 0 v 16] by (simp add: rev_of_def)

text \<open>Packing a version is lossless and order preserving: the three components are recovered
  from the number, and the numbers of two versions compare as the triples (major, hardfork,
  revision) do lexicographically.\<close>

theorem version_packing:
  assumes "0 \<le> m" "m < 256" "0 \<le> h" "h < 256" "0 \<le> r" "r < 65536"
    and "0 \<le> m'" "m' < 256" "0 \<le> h'" "h' < 256" "0 \<le> r'" "r' < 65536"
  shows "(get_major (mk_version m h r), get_minor (mk_version m h r), rev_of (mk_version m h r)) = (m, h, r)
    \<and> (mk_version m h r < mk_version m' h' r' \<longleftrightarrow>
         m < m' \<or> m = m' \<and> (h < h' \<or> h = h' \<and> r < r'))"
proof -
  have split: "m * 16777216 + h * 65536 + r = (m * 256 + h) * 65536 + r" by simp
  have low: "(q * 65536 + r) div 65536 = q" "(q * 65536 + r) mod 65536 = r" for q
    using assms(5,6) by simp_all
  have "get_minor (mk_version m h r) = h" "rev_of (mk_version m h r) = r"
    unfolding mk_version_value [OF assms(1-6)] get_minor_value rev_of_value split low
    using assms by simp_all
  then show ?thesis using assms by (auto simp: mk_version_value get_major_value)
qed

theorem version_packing_witness:
  "(get_major (mk_version 1 2 0), get_minor (mk_version 1 2 0), rev_of (mk_version 1 2 0)) = (1, 2, 0)
    \<and> mk_version 1 1 9 < mk_version 1 2 0"
  using version_packing [of 1 2 0 1 2 0] version_packing [of 1 1 9 1 2 0] by simp

end
