(* ===== verification/Chain_Objects.thy ===== *)
theory Chain_Objects
  imports Economics Authority Version
begin

text \<open>
  The objects of the chain state (\<^verbatim>\<open>libraries/chain/include/sophiatx/chain/*_object*.hpp\<close>) as
  records, their default member initialisers as constructors that take the id, and the whole
  state as the record \<open>database\<close>: one table per index of the source and one field per
  singleton object. Times are seconds (\<^verbatim>\<open>time_point_sec\<close>), hashes are numbers, text is a
  \<open>string\<close>. An object is referred to by its unique key.
\<close>

type_synonym time_point_sec = int
type_synonym block_id_type = int
type_synonym transaction_id_type = int

definition time_point_max :: time_point_sec where "time_point_max = 4294967295"

section \<open>Accounts\<close>

record account_object =
  acc_id :: nat
  acc_name :: account_name_type
  memo_key :: public_key_type
  json_metadata :: string
  proxy :: account_name_type
  last_account_update :: time_point_sec
  holdings_considered_for_interests :: share_type
  acc_created :: time_point_sec
  mined :: bool
  recovery_account :: account_name_type
  reset_account :: account_name_type
  last_account_recovery :: time_point_sec
  balance :: asset
  vesting_shares :: asset
  vesting_withdraw_rate :: asset
  next_vesting_withdrawal :: time_point_sec
  withdrawn :: share_type
  to_withdraw :: share_type
  proxied_vsf_votes :: "share_type list"
  witnesses_voted_for :: int

definition new_account :: "sophiatx_config \<Rightarrow> nat \<Rightarrow> account_object" where
  "new_account c i =
     \<lparr>acc_id = i, acc_name = 0, memo_key = 0, json_metadata = [], proxy = 0, last_account_update = 0,
      holdings_considered_for_interests = 0, acc_created = 0, mined = True, recovery_account = 0,
      reset_account = SOPHIATX_NULL_ACCOUNT, last_account_recovery = 0,
      balance = Asset 0 (cfg_symbol c), vesting_shares = Asset 0 VESTS_SYMBOL,
      vesting_withdraw_rate = Asset 0 VESTS_SYMBOL, next_vesting_withdrawal = time_point_max,
      withdrawn = 0, to_withdraw = 0,
      proxied_vsf_votes = replicate SOPHIATX_MAX_PROXY_RECURSION_DEPTH 0, witnesses_voted_for = 0\<rparr>"

text \<open>\<^verbatim>\<open>update_considered_holding\<close>: the change of the balance counts for the blocks that remain until
  the account's turn. The differences of block numbers are unsigned 32-bit.\<close>

definition to_my_turn :: "nat \<Rightarrow> int \<Rightarrow> int" where
  "to_my_turn i block_no =
     (let my_turn = int i mod SOPHIATX_INTEREST_BLOCKS; block = block_no mod SOPHIATX_INTEREST_BLOCKS in
      if my_turn \<ge> block then u32 (my_turn - block)
      else u32 (my_turn + SOPHIATX_INTEREST_BLOCKS - block))"

definition update_considered_holding :: "share_type \<Rightarrow> int \<Rightarrow> account_object \<Rightarrow> account_object result" where
  "update_considered_holding inserted block_no a =
     ebind (safe_mul inserted (to_my_turn (acc_id a) block_no)) (\<lambda>to_add.
     ebind (safe_add (holdings_considered_for_interests a) to_add) (\<lambda>h.
       Inr (a\<lparr>holdings_considered_for_interests := h\<rparr>)))"

definition total_balance :: "account_object \<Rightarrow> share_type result" where
  "total_balance a = safe_add (amount (balance a)) (amount (vesting_shares a))"

definition proxied_vsf_votes_total :: "account_object \<Rightarrow> share_type result" where
  "proxied_vsf_votes_total a = efold (\<lambda>v acc. safe_add acc v) (proxied_vsf_votes a) 0"

definition witness_vote_weight :: "account_object \<Rightarrow> share_type result" where
  "witness_vote_weight a =
     ebind (proxied_vsf_votes_total a) (\<lambda>p.
     ebind (safe_add p (amount (balance a))) (\<lambda>q. safe_add q (amount (vesting_shares a))))"

record account_authority_object =
  au_account :: account_name_type
  au_owner :: authority
  au_active :: authority
  last_owner_update :: time_point_sec

record owner_authority_history_object =
  oh_id :: nat
  oh_account :: account_name_type
  previous_owner_authority :: authority
  last_valid_time :: time_point_sec

record account_recovery_request_object =
  rr_account_to_recover :: account_name_type
  rr_new_owner_authority :: authority
  rr_expires :: time_point_sec

record change_recovery_account_request_object =
  cr_account_to_recover :: account_name_type
  cr_recovery_account :: account_name_type
  cr_effective_on :: time_point_sec

record account_fee_sponsor_object =
  sp_sponsor :: account_name_type
  sp_sponsored :: account_name_type

section \<open>Witnesses\<close>

record submitted_exchange_rate =
  rate :: price
  last_change :: time_point_sec

record chain_properties =
  account_creation_fee :: asset
  maximum_block_size :: int
  price_feeds :: "(asset_symbol_type \<times> price) list"

datatype witness_schedule_type = Top19 | Timeshare | Schedule_none

record witness_object =
  wit_id :: nat
  wit_owner :: account_name_type
  wit_created :: time_point_sec
  wit_url :: string
  total_missed :: int
  last_aslot :: int
  last_confirmed_block_num :: int
  signing_key :: public_key_type
  wit_props :: chain_properties
  submitted_exchange_rates :: "(asset_symbol_type \<times> submitted_exchange_rate) list"
  votes :: share_type
  schedule :: witness_schedule_type
  virtual_last_update :: int
  virtual_position :: int
  virtual_scheduled_time :: int
  stopped :: bool
  running_version :: version
  hardfork_version_vote :: hardfork_version
  hardfork_time_vote :: time_point_sec

definition shared_chain_properties :: "sophiatx_config \<Rightarrow> chain_properties" where
  "shared_chain_properties c =
     \<lparr>account_creation_fee = Asset (cfg_min_account_creation_fee c) (cfg_symbol c),
      maximum_block_size = u32 (cfg_min_block_size_limit c * 2), price_feeds = []\<rparr>"

definition default_chain_properties :: "sophiatx_config \<Rightarrow> chain_properties" where
  "default_chain_properties c =
     \<lparr>account_creation_fee = Asset (cfg_min_account_creation_fee c) (cfg_symbol c),
      maximum_block_size = cfg_max_block_size c, price_feeds = []\<rparr>"

definition new_witness :: "sophiatx_config \<Rightarrow> nat \<Rightarrow> witness_object" where
  "new_witness c i =
     \<lparr>wit_id = i, wit_owner = 0, wit_created = 0, wit_url = [], total_missed = 0, last_aslot = 0,
      last_confirmed_block_num = 0, signing_key = 0, wit_props = shared_chain_properties c,
      submitted_exchange_rates = [], votes = 0, schedule = Schedule_none, virtual_last_update = 0,
      virtual_position = 0, virtual_scheduled_time = SOPHIATX_VIRTUAL_SCHEDULE_LAP_LENGTH2,
      stopped = False, running_version = 0, hardfork_version_vote = 0,
      hardfork_time_vote = 1531512800\<rparr>"

record witness_vote_object =
  wv_witness :: account_name_type
  wv_account :: account_name_type

record witness_schedule_object =
  current_virtual_time :: int
  next_shuffle_block_num :: int
  current_shuffled_witnesses :: "account_name_type list"
  num_scheduled_witnesses :: int
  top19_weight :: int
  timeshare_weight :: int
  witness_pay_normalization_factor :: int
  median_props :: chain_properties
  majority_version :: version
  max_voted_witnesses :: int
  max_runner_witnesses :: int
  hardfork_required_witnesses :: int

section \<open>Global properties, hardforks\<close>

record dynamic_global_property_object =
  head_block_number :: int
  head_block_id :: block_id_type
  dgp_time :: time_point_sec
  current_witness :: account_name_type
  current_supply :: asset
  total_vesting_shares :: asset
  total_reward_fund :: asset
  witness_required_vesting :: asset
  dgp_maximum_block_size :: int
  current_aslot :: int
  recent_slots_filled :: int
  participation_count :: int
  last_irreversible_block_num :: int
  dgp_genesis_time :: time_point_sec
  private_net :: bool

definition new_dgp :: "sophiatx_config \<Rightarrow> dynamic_global_property_object" where
  "new_dgp c =
     \<lparr>head_block_number = 0, head_block_id = 0, dgp_time = 0, current_witness = 0,
      current_supply = Asset 0 (cfg_symbol c), total_vesting_shares = Asset 0 VESTS_SYMBOL,
      total_reward_fund = Asset 0 (cfg_symbol c),
      witness_required_vesting = Asset (cfg_initial_witness_required_vesting_balance c) (cfg_symbol c),
      dgp_maximum_block_size = 0, current_aslot = 0, recent_slots_filled = 0, participation_count = 0,
      last_irreversible_block_num = 0, dgp_genesis_time = 0, private_net = False\<rparr>"

record hardfork_property_object =
  processed_hardforks :: "time_point_sec list"
  last_hardfork :: nat
  current_hardfork_version :: hardfork_version
  next_hardfork :: hardfork_version
  next_hardfork_time :: time_point_sec

section \<open>Escrows, feeds, applications, custom content, bandwidth, blocks\<close>

record escrow_object =
  esc_id :: nat
  escrow_id :: int
  esc_from :: account_name_type
  esc_to :: account_name_type
  esc_agent :: account_name_type
  ratification_deadline :: time_point_sec
  escrow_expiration :: time_point_sec
  sophiatx_balance :: asset
  pending_fee :: asset
  to_approved :: bool
  agent_approved :: bool
  disputed :: bool

definition is_approved :: "escrow_object \<Rightarrow> bool" where
  "is_approved e \<longleftrightarrow> to_approved e \<and> agent_approved e"

definition esc_key :: "escrow_object \<Rightarrow> account_name_type \<times> int" where
  "esc_key e = (esc_from e, escrow_id e)"

record feed_history_object =
  fh_symbol :: asset_symbol_type
  current_median_history :: price
  price_history :: "price list"

datatype application_price_param = Permanent | Time_based | Price_none

record application_object =
  app_id :: nat
  app_name :: account_name_type
  app_author :: account_name_type
  app_url :: string
  app_metadata :: string
  app_price_param :: int

record application_buying_object =
  ab_buyer :: account_name_type
  ab_app_id :: int
  ab_created :: time_point_sec

record custom_content_object =
  cc_id :: nat
  cc_app_id :: int
  cc_sender :: account_name_type
  cc_recipient :: account_name_type
  cc_all_recipients :: "account_name_type list"
  sender_sequence :: int
  recipient_sequence :: int
  app_message_sequence :: int
  received :: time_point_sec
  binary :: bool
  cc_data :: "nat list"
  cc_json :: string

record account_bandwidth_object =
  bw_account :: account_name_type
  act_fee_free_bandwidth :: int
  act_fee_free_ops_count :: int
  last_block_num_reset :: int

record transaction_object =
  tx_trx_id :: transaction_id_type
  tx_expiration :: time_point_sec

section \<open>The state\<close>

record database =
  db_cfg :: sophiatx_config
  db_dgp :: dynamic_global_property_object
  db_econ :: economic_model
  db_accounts :: "account_object table"
  db_authorities :: "account_authority_object table"
  db_owner_history :: "owner_authority_history_object table"
  db_recovery_requests :: "account_recovery_request_object table"
  db_change_recovery :: "change_recovery_account_request_object table"
  db_sponsors :: "account_fee_sponsor_object table"
  db_witnesses :: "witness_object table"
  db_witness_votes :: "witness_vote_object table"
  db_schedule :: witness_schedule_object
  db_escrows :: "escrow_object table"
  db_feeds :: "feed_history_object table"
  db_hardfork :: hardfork_property_object
  db_applications :: "application_object table"
  db_buyings :: "application_buying_object table"
  db_custom :: "custom_content_object table"
  db_bandwidth :: "account_bandwidth_object table"
  db_block_summary :: "int \<Rightarrow> block_id_type"
  db_transactions :: "transaction_object table"

text \<open>Lookups: \<^verbatim>\<open>find_*\<close> and \<^verbatim>\<open>get_*\<close> of \<^verbatim>\<open>database.cpp\<close>; a failed \<^verbatim>\<open>get\<close> throws.\<close>

definition find_account :: "account_name_type \<Rightarrow> database \<Rightarrow> account_object option" where
  "find_account n db = find_by acc_name n (rows (db_accounts db))"

definition get_account :: "account_name_type \<Rightarrow> database \<Rightarrow> account_object result" where
  "get_account n db = get_by acc_name n (rows (db_accounts db))"

definition find_witness :: "account_name_type \<Rightarrow> database \<Rightarrow> witness_object option" where
  "find_witness n db = find_by wit_owner n (rows (db_witnesses db))"

definition get_witness :: "account_name_type \<Rightarrow> database \<Rightarrow> witness_object result" where
  "get_witness n db = get_by wit_owner n (rows (db_witnesses db))"

definition find_escrow :: "account_name_type \<Rightarrow> int \<Rightarrow> database \<Rightarrow> escrow_object option" where
  "find_escrow n i db = find_by esc_key (n, i) (rows (db_escrows db))"

definition get_escrow :: "account_name_type \<Rightarrow> int \<Rightarrow> database \<Rightarrow> escrow_object result" where
  "get_escrow n i db = get_by esc_key (n, i) (rows (db_escrows db))"

definition get_feed_history :: "asset_symbol_type \<Rightarrow> database \<Rightarrow> feed_history_object result" where
  "get_feed_history s db =
     (case find_by fh_symbol s (rows (db_feeds db)) of
        None \<Rightarrow> Inl (Assert_exception ''Symbol history not found'') | Some f \<Rightarrow> Inr f)"

definition get_application :: "account_name_type \<Rightarrow> database \<Rightarrow> application_object result" where
  "get_application n db = get_by app_name n (rows (db_applications db))"

definition get_application_by_id :: "int \<Rightarrow> database \<Rightarrow> application_object result" where
  "get_application_by_id i db = get_by (\<lambda>a. int (app_id a)) i (rows (db_applications db))"

definition buying_key :: "application_buying_object \<Rightarrow> account_name_type \<times> int" where
  "buying_key b = (ab_buyer b, ab_app_id b)"

definition get_application_buying :: "account_name_type \<Rightarrow> int \<Rightarrow> database \<Rightarrow> application_buying_object result" where
  "get_application_buying n i db = get_by buying_key (n, i) (rows (db_buyings db))"

definition get_sponsor :: "account_name_type \<Rightarrow> database \<Rightarrow> account_name_type option" where
  "get_sponsor who db = map_option sp_sponsor (find_by sp_sponsored who (rows (db_sponsors db)))"

definition head_block_num :: "database \<Rightarrow> int" where
  "head_block_num db = head_block_number (db_dgp db)"

definition head_block_time :: "database \<Rightarrow> time_point_sec" where
  "head_block_time db = dgp_time (db_dgp db)"

definition is_private_net :: "database \<Rightarrow> bool" where
  "is_private_net db = private_net (db_dgp db)"

definition has_hardfork :: "nat \<Rightarrow> database \<Rightarrow> bool" where
  "has_hardfork hf db \<longleftrightarrow> length (processed_hardforks (db_hardfork db)) > hf"

text \<open>\<^verbatim>\<open>modify\<close> on one object of a table.\<close>

definition modify_account :: "account_name_type \<Rightarrow> (account_object \<Rightarrow> account_object) \<Rightarrow> database \<Rightarrow> database" where
  "modify_account n f db =
     db\<lparr>db_accounts := (db_accounts db)\<lparr>rows := modify_by acc_name n f (rows (db_accounts db))\<rparr>\<rparr>"

definition modify_witness :: "account_name_type \<Rightarrow> (witness_object \<Rightarrow> witness_object) \<Rightarrow> database \<Rightarrow> database" where
  "modify_witness n f db =
     db\<lparr>db_witnesses := (db_witnesses db)\<lparr>rows := modify_by wit_owner n f (rows (db_witnesses db))\<rparr>\<rparr>"

definition modify_escrow :: "account_name_type \<times> int \<Rightarrow> (escrow_object \<Rightarrow> escrow_object) \<Rightarrow> database \<Rightarrow> database" where
  "modify_escrow k f db =
     db\<lparr>db_escrows := (db_escrows db)\<lparr>rows := modify_by esc_key k f (rows (db_escrows db))\<rparr>\<rparr>"

definition remove_escrow :: "account_name_type \<times> int \<Rightarrow> database \<Rightarrow> database" where
  "remove_escrow k db =
     db\<lparr>db_escrows := (db_escrows db)\<lparr>rows := remove_by esc_key k (rows (db_escrows db))\<rparr>\<rparr>"

definition modify_dgp ::
  "(dynamic_global_property_object \<Rightarrow> dynamic_global_property_object) \<Rightarrow> database \<Rightarrow> database" where
  "modify_dgp f db = db\<lparr>db_dgp := f (db_dgp db)\<rparr>"

text \<open>\<^verbatim>\<open>create\<close> for the indices with a unique key besides the id, and for those without.\<close>

definition create_account :: "(nat \<Rightarrow> account_object) \<Rightarrow> database \<Rightarrow> database result" where
  "create_account mk db =
     ebind (create_in acc_name mk (db_accounts db)) (\<lambda>t. Inr (db\<lparr>db_accounts := t\<rparr>))"

definition create_witness :: "(nat \<Rightarrow> witness_object) \<Rightarrow> database \<Rightarrow> database result" where
  "create_witness mk db =
     ebind (create_in wit_owner mk (db_witnesses db)) (\<lambda>t. Inr (db\<lparr>db_witnesses := t\<rparr>))"

definition create_escrow :: "(nat \<Rightarrow> escrow_object) \<Rightarrow> database \<Rightarrow> database result" where
  "create_escrow mk db =
     ebind (create_in esc_key mk (db_escrows db)) (\<lambda>t. Inr (db\<lparr>db_escrows := t\<rparr>))"

definition append_row :: "'v \<Rightarrow> 'v table \<Rightarrow> 'v table" where
  "append_row v t = \<lparr>rows = rows t @ [v], next_id = Suc (next_id t)\<rparr>"

definition create_account_authority :: "account_authority_object \<Rightarrow> database \<Rightarrow> database result" where
  "create_account_authority a db =
     ebind (create_in au_account (\<lambda>_. a) (db_authorities db)) (\<lambda>t. Inr (db\<lparr>db_authorities := t\<rparr>))"

definition get_account_authority :: "account_name_type \<Rightarrow> database \<Rightarrow> account_authority_object result" where
  "get_account_authority n db = get_by au_account n (rows (db_authorities db))"

definition modify_account_authority ::
  "account_name_type \<Rightarrow> (account_authority_object \<Rightarrow> account_authority_object) \<Rightarrow> database \<Rightarrow> database" where
  "modify_account_authority n f db =
     db\<lparr>db_authorities := (db_authorities db)\<lparr>rows := modify_by au_account n f (rows (db_authorities db))\<rparr>\<rparr>"

end
