(* ===== verification/Ledger.thy ===== *)
theory Ledger
  imports Chain_Objects
begin

text \<open>
  The money routines of \<^verbatim>\<open>libraries/chain/database.cpp\<close>: balances, vesting, supply, fees, the
  propagation of voting weight along proxies, the burning of the null account's coins, and
  the check \<^verbatim>\<open>validate_invariants\<close>. The state is abstracted to a balance sheet (sums of liquid,
  vesting and escrowed coins, the recorded supplies and the pools); each routine is shown to
  act on the sheet by a simple equation, and voting never touches it.
\<close>

section \<open>Votes\<close>

text \<open>\<^verbatim>\<open>adjust_witness_vote\<close>: virtual time is 128-bit unsigned, the number of votes enters it through
  the conversion from a signed 64-bit value.\<close>

definition adjust_witness_vote :: "account_name_type \<Rightarrow> share_type \<Rightarrow> database \<Rightarrow> database result" where
  "adjust_witness_vote wname delta db =
     ebind (get_witness wname db) (\<lambda>w.
     let now = current_virtual_time (db_schedule db);
         delta_pos = u128 (u128 (votes w) * u128 (now - virtual_last_update w));
         pos = u128 (virtual_position w + delta_pos) in
     ebind (safe_add (votes w) delta) (\<lambda>v.
     ethrow_unless (u128 (i64 (v + 1)) \<noteq> 0) Divide_by_zero_exception
     (let t = u128 (now + u128 (SOPHIATX_VIRTUAL_SCHEDULE_LAP_LENGTH2 - pos) div u128 (i64 (v + 1)));
          t' = (if t < now then SOPHIATX_VIRTUAL_SCHEDULE_LAP_LENGTH2 else t) in
      Inr (modify_witness wname (\<lambda>x. x\<lparr>virtual_position := pos, virtual_last_update := now,
             votes := v, virtual_scheduled_time := t'\<rparr>) db))))"

definition votes_of :: "account_name_type \<Rightarrow> database \<Rightarrow> witness_vote_object list" where
  "votes_of n db =
     sort_key wv_witness (filter (\<lambda>v. wv_account v = n) (rows (db_witness_votes db)))"

definition adjust_witness_votes :: "account_name_type \<Rightarrow> share_type \<Rightarrow> database \<Rightarrow> database result" where
  "adjust_witness_votes n delta db =
     efold (\<lambda>v. adjust_witness_vote (wv_witness v) delta) (votes_of n db) db"

text \<open>The walk along the proxies; \<open>r\<close> is \<^verbatim>\<open>SOPHIATX_MAX_PROXY_RECURSION_DEPTH - depth\<close>.\<close>

fun adjust_proxied_votes :: "nat \<Rightarrow> account_name_type \<Rightarrow> share_type \<Rightarrow> database \<Rightarrow> database result" where
  "adjust_proxied_votes r n delta db =
     ebind (get_account n db) (\<lambda>a.
     if proxy a \<noteq> SOPHIATX_PROXY_TO_SELF_ACCOUNT then
       (case r of 0 \<Rightarrow> Inr db
        | Suc r' \<Rightarrow>
            let depth = SOPHIATX_MAX_PROXY_RECURSION_DEPTH - r in
            ebind (get_account (proxy a) db) (\<lambda>p.
            ebind (safe_add (proxied_vsf_votes p ! depth) delta) (\<lambda>v.
              adjust_proxied_votes r' (proxy a) delta
                (modify_account (proxy a) (\<lambda>x. x\<lparr>proxied_vsf_votes := (proxied_vsf_votes x)[depth := v]\<rparr>) db))))
     else adjust_witness_votes n delta db)"

declare adjust_proxied_votes.simps [simp del]

definition adjust_proxied_witness_votes :: "account_name_type \<Rightarrow> share_type \<Rightarrow> database \<Rightarrow> database result" where
  "adjust_proxied_witness_votes n delta db =
     adjust_proxied_votes SOPHIATX_MAX_PROXY_RECURSION_DEPTH n delta db"

text \<open>The variant with one delta per level, the levels of the array added from the last to the
  first.\<close>

definition add_level :: "nat \<Rightarrow> share_type list \<Rightarrow> nat \<Rightarrow> share_type list \<Rightarrow> share_type list result" where
  "add_level depth delta i vs =
     ebind (safe_add (vs ! (i + depth)) (delta ! i)) (\<lambda>v. Inr (vs[i + depth := v]))"

fun adjust_proxied_votes_arr :: "nat \<Rightarrow> account_name_type \<Rightarrow> share_type list \<Rightarrow> database \<Rightarrow> database result" where
  "adjust_proxied_votes_arr r n delta db =
     ebind (get_account n db) (\<lambda>a.
     if proxy a \<noteq> SOPHIATX_PROXY_TO_SELF_ACCOUNT then
       (case r of 0 \<Rightarrow> Inr db
        | Suc r' \<Rightarrow>
            let depth = SOPHIATX_MAX_PROXY_RECURSION_DEPTH - r in
            ebind (get_account (proxy a) db) (\<lambda>p.
            ebind (efold (add_level depth delta) (rev [0..<r]) (proxied_vsf_votes p)) (\<lambda>vs.
              adjust_proxied_votes_arr r' (proxy a) delta
                (modify_account (proxy a) (\<lambda>x. x\<lparr>proxied_vsf_votes := vs\<rparr>) db))))
     else
       ebind (efold (\<lambda>i acc. safe_add acc (delta ! i)) (rev [0..<Suc r]) 0) (\<lambda>total_delta.
         adjust_witness_votes n total_delta db))"

declare adjust_proxied_votes_arr.simps [simp del]

definition adjust_proxied_witness_votes_arr ::
  "account_name_type \<Rightarrow> share_type list \<Rightarrow> database \<Rightarrow> database result" where
  "adjust_proxied_witness_votes_arr n delta db =
     adjust_proxied_votes_arr SOPHIATX_MAX_PROXY_RECURSION_DEPTH n delta db"

definition clear_witness_votes :: "account_name_type \<Rightarrow> database \<Rightarrow> database" where
  "clear_witness_votes n db =
     modify_account n (\<lambda>a. a\<lparr>witnesses_voted_for := 0\<rparr>)
       (db\<lparr>db_witness_votes := (db_witness_votes db)\<lparr>rows :=
          filter (\<lambda>v. wv_account v \<noteq> n) (rows (db_witness_votes db))\<rparr>\<rparr>)"

section \<open>Balances, supply and vesting\<close>

definition modify_balance :: "account_name_type \<Rightarrow> asset \<Rightarrow> bool \<Rightarrow> database \<Rightarrow> database result" where
  "modify_balance n delta check_balance db =
     FC_ASSERT (symbol delta = cfg_symbol (db_cfg db)) ''invalid symbol''
     (ebind (get_account n db) (\<lambda>a.
      ebind (safe_add (amount (balance a)) (amount delta)) (\<lambda>b.
      ebind (update_considered_holding (amount delta) (head_block_num db) a) (\<lambda>a1.
      FC_ASSERT (check_balance \<longrightarrow> b \<ge> 0) ''Insufficient SOPHIATX funds''
      (adjust_proxied_witness_votes n (amount delta)
        (modify_account n (\<lambda>x. x\<lparr>balance := (balance x)\<lparr>amount := b\<rparr>,
            holdings_considered_for_interests := holdings_considered_for_interests a1\<rparr>) db))))))"

definition adjust_balance :: "account_name_type \<Rightarrow> asset \<Rightarrow> database \<Rightarrow> database result" where
  "adjust_balance n delta db = ebind (get_account n db) (\<lambda>_. modify_balance n delta True db)"

definition create_vesting :: "account_name_type \<Rightarrow> asset \<Rightarrow> database \<Rightarrow> database result" where
  "create_vesting n delta db =
     ebind (get_account n db) (\<lambda>a.
     FC_ASSERT (symbol delta = VESTS_SYMBOL) ''invalid symbol''
     (FC_ASSERT (amount delta \<ge> 0) ''cannot remove vests''
     (ebind (safe_add (amount (vesting_shares a)) (amount delta)) (\<lambda>v.
      ebind (update_considered_holding (amount delta) (head_block_num db) a) (\<lambda>a1.
        adjust_proxied_witness_votes n (amount delta)
          (modify_account n (\<lambda>x. x\<lparr>vesting_shares := (vesting_shares x)\<lparr>amount := v\<rparr>,
              holdings_considered_for_interests := holdings_considered_for_interests a1\<rparr>) db))))))"

definition adjust_supply :: "asset \<Rightarrow> database \<Rightarrow> database result" where
  "adjust_supply delta db =
     (if symbol delta = cfg_symbol (db_cfg db) then
        ebind (safe_add (amount (current_supply (db_dgp db))) (amount delta)) (\<lambda>s.
        FC_ASSERT (s \<ge> 0) ''''
        (ebind (asset_add (current_supply (db_dgp db)) delta) (\<lambda>cs.
          Inr (modify_dgp (\<lambda>p. p\<lparr>current_supply := cs\<rparr>) db))))
      else Inl (Assert_exception ''invalid symbol''))"

definition get_balance :: "account_object \<Rightarrow> asset_symbol_type \<Rightarrow> database \<Rightarrow> asset result" where
  "get_balance a s db =
     (if s = cfg_symbol (db_cfg db) then Inr (balance a) else Inl (Assert_exception ''invalid symbol''))"

definition vest :: "account_name_type \<Rightarrow> share_type \<Rightarrow> database \<Rightarrow> database result" where
  "vest n delta db =
     ebind (get_account n db) (\<lambda>a.
     FC_ASSERT (amount (balance a) \<ge> delta) ''''
     (ebind (safe_sub (amount (balance a)) delta) (\<lambda>b.
      ebind (safe_add (amount (vesting_shares a)) delta) (\<lambda>v.
      let db1 = modify_account n (\<lambda>x. x\<lparr>balance := (balance x)\<lparr>amount := b\<rparr>,
                  vesting_shares := (vesting_shares x)\<lparr>amount := v\<rparr>\<rparr>) db in
      ebind (safe_add (amount (total_vesting_shares (db_dgp db1))) delta) (\<lambda>t.
        Inr (modify_dgp (\<lambda>p. p\<lparr>total_vesting_shares := (total_vesting_shares p)\<lparr>amount := t\<rparr>\<rparr>) db1))))))"

text \<open>\<^verbatim>\<open>clear_null_account_balance\<close>: the liquid coins, the vesting shares, then the supply; both first
  stages add what they take to \<open>total\<close>.\<close>

definition clear_null_liquid :: "asset \<Rightarrow> database \<Rightarrow> (asset \<times> database) result" where
  "clear_null_liquid total_sophiatx db =
     ebind (get_account SOPHIATX_NULL_ACCOUNT db) (\<lambda>a.
     if amount (balance a) > 0 then
       ebind (asset_add total_sophiatx (balance a)) (\<lambda>t.
       ebind (asset_neg (balance a)) (\<lambda>d.
       ebind (adjust_balance SOPHIATX_NULL_ACCOUNT d db) (\<lambda>db1. Inr (t, db1))))
     else Inr (total_sophiatx, db))"

definition clear_null_vests :: "asset \<Rightarrow> database \<Rightarrow> (asset \<times> database) result" where
  "clear_null_vests total_sophiatx db =
     ebind (get_account SOPHIATX_NULL_ACCOUNT db) (\<lambda>a.
     if amount (vesting_shares a) > 0 then
       ebind (asset_sub (total_vesting_shares (db_dgp db)) (vesting_shares a)) (\<lambda>tv.
       ebind (safe_add (amount total_sophiatx) (amount (vesting_shares a))) (\<lambda>t.
         Inr (total_sophiatx\<lparr>amount := t\<rparr>,
              modify_account SOPHIATX_NULL_ACCOUNT (\<lambda>x. x\<lparr>vesting_shares := (vesting_shares x)\<lparr>amount := 0\<rparr>\<rparr>)
                (modify_dgp (\<lambda>p. p\<lparr>total_vesting_shares := tv\<rparr>) db))))
     else Inr (total_sophiatx, db))"

definition clear_null_account_balance :: "database \<Rightarrow> database result" where
  "clear_null_account_balance db =
     ebind (clear_null_liquid (Asset 0 (cfg_symbol (db_cfg db))) db) (\<lambda>(t1, db1).
     ebind (clear_null_vests t1 db1) (\<lambda>(t2, db2).
     if amount t2 > 0 then ebind (asset_neg t2) (\<lambda>d. adjust_supply d db2) else Inr db2))"

section \<open>Fees\<close>

definition to_sbd :: "asset_symbol_type \<Rightarrow> price \<Rightarrow> asset \<Rightarrow> asset result" where
  "to_sbd sphtx p a =
     FC_ASSERT (symbol a = sphtx) ''''
     (FC_ASSERT (symbol (quote p) = sphtx \<or> symbol (base p) = sphtx) '''' (asset_mul_price a p))"

definition is_sbd_symbol :: "asset_symbol_type \<Rightarrow> bool" where
  "is_sbd_symbol s \<longleftrightarrow> s = SBD1_SYMBOL \<or> s = SBD2_SYMBOL \<or> s = SBD3_SYMBOL \<or> s = SBD4_SYMBOL \<or> s = SBD5_SYMBOL"

definition util_to_sophiatx :: "asset_symbol_type \<Rightarrow> price \<Rightarrow> asset \<Rightarrow> asset result" where
  "util_to_sophiatx sphtx p sbd =
     FC_ASSERT (is_sbd_symbol (symbol sbd)) ''''
     (FC_ASSERT (symbol (quote p) = sphtx \<or> symbol (base p) = sphtx) ''''
     (FC_ASSERT (symbol (quote p) = symbol sbd \<or> symbol (base p) = symbol sbd) '''' (asset_mul_price sbd p)))"

definition to_sophiatx :: "asset \<Rightarrow> database \<Rightarrow> asset result" where
  "to_sophiatx sbd db =
     ebind (get_feed_history (symbol sbd) db) (\<lambda>fh.
       util_to_sophiatx (cfg_symbol (db_cfg db)) (current_median_history fh) sbd)"

definition pay_fee :: "account_name_type \<Rightarrow> asset \<Rightarrow> database \<Rightarrow> database result" where
  "pay_fee n fee db =
     FC_ASSERT (amount fee \<ge> 0) ''''
     (if amount fee = 0 then Inr db
      else
        FC_ASSERT (symbol fee = cfg_symbol (db_cfg db)) ''''
        (ebind (get_account n db) (\<lambda>a.
         ebind (asset_ge (balance a) fee) (\<lambda>ok.
         FC_ASSERT ok ''''
         (ebind (asset_neg fee) (\<lambda>d.
          ebind (adjust_balance n d db) (\<lambda>db1.
          ebind (adjust_supply d db1) (\<lambda>db2.
          ebind (add_fee (db_cfg db) (amount fee) (db_econ db2)) (\<lambda>e.
            Inr (db2\<lparr>db_econ := e\<rparr>))))))))))"

section \<open>The check of the supply\<close>

definition validate_invariants :: "database \<Rightarrow> unit result" where
  "validate_invariants db =
     (if is_private_net db then Inr ()
      else
        let sphtx = cfg_symbol (db_cfg db); gpo = db_dgp db; econ = db_econ db in
        ebind (efold (\<lambda>w _. FC_ASSERT (votes w \<le> amount (current_supply gpo)) '''' (Inr ()))
                 (rows (db_witnesses db)) ()) (\<lambda>_.
        ebind (efold (\<lambda>a (s, v). ebind (asset_add s (balance a)) (\<lambda>s'.
                 ebind (asset_add v (vesting_shares a)) (\<lambda>v'. Inr (s', v'))))
                 (rows (db_accounts db)) (Asset 0 sphtx, Asset 0 VESTS_SYMBOL)) (\<lambda>(s1, v1).
        ebind (efold (\<lambda>e s. ebind (asset_add s (sophiatx_balance e)) (\<lambda>s'.
                 if symbol (pending_fee e) = sphtx then asset_add s' (pending_fee e)
                 else Inl (Assert_exception ''found escrow pending fee that is not SPHTX'')))
                 (rows (db_escrows db)) s1) (\<lambda>s2.
        ebind (asset_add s2 (Asset (amount v1) sphtx)) (\<lambda>all_coins.
        FC_ASSERT (current_supply gpo = all_coins) ''''
        (FC_ASSERT (total_vesting_shares gpo = v1) ''''
        (ebind (safe_add (amount (current_supply gpo)) (interest_pool_from_fees econ)) (\<lambda>t1.
         ebind (safe_add t1 (interest_pool_from_coinbase econ)) (\<lambda>t2.
         ebind (safe_add t2 (mining_pool_from_fees econ)) (\<lambda>t3.
         ebind (safe_add t3 (mining_pool_from_coinbase econ)) (\<lambda>t4.
         ebind (safe_add t4 (promotion_pool econ)) (\<lambda>t5.
         ebind (safe_add t5 (burn_pool econ)) (\<lambda>t6.
         FC_ASSERT (t6 = cfg_total_supply (db_cfg db)) ''difference is $diff'' (Inr ()))))))))))))))"

end
