(* ===== verification/Balance_Sheet.thy ===== *)
theory Balance_Sheet
  imports Ledger
begin

text \<open>
  The abstraction of the chain state to a balance sheet and the effect of the money routines
  on it. \<open>ledger\<close> is the part of the state that holds coins; two states with the same ledger
  have the same sheet. \<open>money_ok\<close> is what \<^verbatim>\<open>database::validate_invariants\<close> checks of the supply.
\<close>

section \<open>Ledger and sheet\<close>

definition acct_money :: "account_object \<Rightarrow> account_name_type \<times> asset \<times> asset" where
  "acct_money a = (acc_name a, balance a, vesting_shares a)"

record sheet =
  sh_liquid :: int
  sh_vested :: int
  sh_escrowed :: int
  sh_supply :: int
  sh_vesting_total :: int
  sh_pools :: int

definition esc_money :: "escrow_object \<Rightarrow> int" where
  "esc_money e = amount (sophiatx_balance e) + amount (pending_fee e)"

definition liquid_of :: "database \<Rightarrow> int" where
  "liquid_of db = sum_list (map (\<lambda>a. amount (balance a)) (rows (db_accounts db)))"

definition vested_of :: "database \<Rightarrow> int" where
  "vested_of db = sum_list (map (\<lambda>a. amount (vesting_shares a)) (rows (db_accounts db)))"

definition escrowed_of :: "database \<Rightarrow> int" where
  "escrowed_of db = sum_list (map esc_money (rows (db_escrows db)))"

definition sheet_of :: "database \<Rightarrow> sheet" where
  "sheet_of db =
     \<lparr>sh_liquid = liquid_of db, sh_vested = vested_of db, sh_escrowed = escrowed_of db,
      sh_supply = amount (current_supply (db_dgp db)),
      sh_vesting_total = amount (total_vesting_shares (db_dgp db)),
      sh_pools = pool_total (db_econ db)\<rparr>"

text \<open>The symbols and keys of the stored objects.\<close>

definition account_symbols_ok :: "asset_symbol_type \<Rightarrow> account_object \<Rightarrow> bool" where
  "account_symbols_ok s a \<longleftrightarrow> symbol (balance a) = s \<and> symbol (vesting_shares a) = VESTS_SYMBOL"

definition escrow_symbols_ok :: "asset_symbol_type \<Rightarrow> escrow_object \<Rightarrow> bool" where
  "escrow_symbols_ok s e \<longleftrightarrow> symbol (sophiatx_balance e) = s \<and> symbol (pending_fee e) = s"

definition ledger_wf :: "database \<Rightarrow> bool" where
  "ledger_wf db \<longleftrightarrow>
     distinct (map acc_name (rows (db_accounts db))) \<and>
     distinct (map esc_key (rows (db_escrows db))) \<and>
     list_all (account_symbols_ok (cfg_symbol (db_cfg db))) (rows (db_accounts db)) \<and>
     list_all (escrow_symbols_ok (cfg_symbol (db_cfg db))) (rows (db_escrows db)) \<and>
     symbol (current_supply (db_dgp db)) = cfg_symbol (db_cfg db) \<and>
     symbol (total_vesting_shares (db_dgp db)) = VESTS_SYMBOL"

definition balanced :: "int \<Rightarrow> sheet \<Rightarrow> bool" where
  "balanced total_supply s \<longleftrightarrow>
     sh_supply s = sh_liquid s + sh_vested s + sh_escrowed s \<and>
     sh_vesting_total s = sh_vested s \<and>
     sh_supply s + sh_pools s = total_supply"

definition money_ok :: "database \<Rightarrow> bool" where
  "money_ok db \<longleftrightarrow> ledger_wf db \<and> balanced (cfg_total_supply (db_cfg db)) (sheet_of db)"

section \<open>Routines that leave the ledger alone\<close>

definition ledger :: "database \<Rightarrow> (account_name_type \<times> asset \<times> asset) list \<times> escrow_object list
    \<times> asset \<times> asset \<times> int \<times> sophiatx_config" where
  "ledger db = (map acct_money (rows (db_accounts db)), rows (db_escrows db), current_supply (db_dgp db),
     total_vesting_shares (db_dgp db), pool_total (db_econ db), db_cfg db)"

lemma ledger_parts:
  "liquid_of db = sum_list (map (\<lambda>(n, b, v). amount b) (fst (ledger db)))"
  "vested_of db = sum_list (map (\<lambda>(n, b, v). amount v) (fst (ledger db)))"
  "map acc_name (rows (db_accounts db)) = map fst (fst (ledger db))"
  "list_all (account_symbols_ok s) (rows (db_accounts db)) =
     list_all (\<lambda>(n, b, v). symbol b = s \<and> symbol v = VESTS_SYMBOL) (fst (ledger db))"
  by (simp_all add: ledger_def liquid_of_def vested_of_def acct_money_def comp_def list_all_iff
      account_symbols_ok_def)

lemma ledger_eq_money_ok:
  assumes "ledger db' = ledger db"
  shows "sheet_of db' = sheet_of db" "ledger_wf db' = ledger_wf db" "money_ok db' = money_ok db"
proof -
  have rest: "rows (db_escrows db') = rows (db_escrows db)" "db_cfg db' = db_cfg db"
    "current_supply (db_dgp db') = current_supply (db_dgp db)"
    "total_vesting_shares (db_dgp db') = total_vesting_shares (db_dgp db)"
    "pool_total (db_econ db') = pool_total (db_econ db)"
    using assms by (simp_all add: ledger_def)
  show s: "sheet_of db' = sheet_of db"
    by (simp add: sheet_of_def ledger_parts escrowed_of_def assms rest)
  show w: "ledger_wf db' = ledger_wf db"
    by (simp add: ledger_wf_def ledger_parts assms rest)
  show "money_ok db' = money_ok db" by (simp add: money_ok_def s w rest)
qed

named_theorems frame \<open>operations that keep the ledger\<close>

lemma ledger_modify_account [frame]:
  "(\<And>a. acct_money (f a) = acct_money a) \<Longrightarrow> ledger (modify_account n f db) = ledger db"
  by (simp add: ledger_def modify_account_def modify_by_def)

lemma ledger_modify_witness [frame, simp]: "ledger (modify_witness n f db) = ledger db"
  by (simp add: ledger_def modify_witness_def)

lemma ledger_clear_witness_votes [frame, simp]: "ledger (clear_witness_votes n db) = ledger db"
  by (simp add: ledger_def clear_witness_votes_def modify_account_def modify_by_def acct_money_def)

lemma ledger_adjust_witness_vote [frame]:
  "adjust_witness_vote n d db = Inr db' \<Longrightarrow> ledger db' = ledger db"
  by (auto simp: adjust_witness_vote_def result_simps Let_def)

lemma ledger_adjust_witness_votes [frame]:
  assumes "adjust_witness_votes n d db = Inr db'"
  shows "ledger db' = ledger db"
  using assms unfolding adjust_witness_votes_def
  by (rule efold_invariant) (auto dest: ledger_adjust_witness_vote)

lemma ledger_adjust_proxied_votes:
  "adjust_proxied_votes r n d db = Inr db' \<Longrightarrow> ledger db' = ledger db"
proof (induction r arbitrary: n db)
  case 0
  then show ?case
    by (subst (asm) adjust_proxied_votes.simps)
      (auto simp: result_simps split: if_splits dest: ledger_adjust_witness_votes)
next
  case (Suc r)
  show ?case
    using Suc.prems
    by (subst (asm) adjust_proxied_votes.simps)
      (auto simp: result_simps Let_def ledger_modify_account acct_money_def
        split: if_splits dest: ledger_adjust_witness_votes dest!: Suc.IH)
qed

lemma ledger_adjust_proxied_votes_arr:
  "adjust_proxied_votes_arr r n d db = Inr db' \<Longrightarrow> ledger db' = ledger db"
proof (induction r arbitrary: n db)
  case 0
  then show ?case
    by (subst (asm) adjust_proxied_votes_arr.simps)
      (auto simp: result_simps split: if_splits dest: ledger_adjust_witness_votes)
next
  case (Suc r)
  show ?case
    using Suc.prems
    by (subst (asm) adjust_proxied_votes_arr.simps)
      (auto simp: result_simps Let_def ledger_modify_account acct_money_def simp del: upt_Suc
        split: if_splits dest: ledger_adjust_witness_votes dest!: Suc.IH)
qed

lemma ledger_adjust_proxied_witness_votes [frame]:
  "adjust_proxied_witness_votes n d db = Inr db' \<Longrightarrow> ledger db' = ledger db"
  by (simp add: adjust_proxied_witness_votes_def ledger_adjust_proxied_votes)

lemma ledger_adjust_proxied_witness_votes_arr [frame]:
  "adjust_proxied_witness_votes_arr n d db = Inr db' \<Longrightarrow> ledger db' = ledger db"
  by (simp add: adjust_proxied_witness_votes_arr_def ledger_adjust_proxied_votes_arr)

section \<open>The interfaces of the money routines\<close>

text \<open>A routine whose effect on the balance sheet is a function of the sheet.\<close>

locale sheet_routine =
  fixes run :: "'a \<Rightarrow> database \<Rightarrow> database result"
    and effect :: "'a \<Rightarrow> sheet \<Rightarrow> sheet"
  assumes refines: "run x db = Inr db' \<Longrightarrow> ledger_wf db \<Longrightarrow>
    ledger_wf db' \<and> sheet_of db' = effect x (sheet_of db) \<and> db_cfg db' = db_cfg db"
begin

lemma balanced_after:
  assumes "run x db = Inr db'" "money_ok db"
    and "\<And>t s. balanced t s \<Longrightarrow> balanced t (effect x s)"
  shows "money_ok db'"
  using refines [OF assms(1)] assms(2,3) by (auto simp: money_ok_def)

end

text \<open>A routine after which the supply still adds up.\<close>

locale money_keeper =
  fixes run :: "'a \<Rightarrow> database \<Rightarrow> database result"
  assumes keeps: "run x db = Inr db' \<Longrightarrow> money_ok db \<Longrightarrow> money_ok db'"
begin

lemma keeps_all: "efold run xs db = Inr db' \<Longrightarrow> money_ok db \<Longrightarrow> money_ok db'"
  by (erule efold_invariant) (auto intro: keeps)

end

locale neutral_routine = sheet_routine +
  assumes neutral: "balanced t s \<Longrightarrow> balanced t (effect x s)"

sublocale neutral_routine \<subseteq> money_keeper run
  by unfold_locales (rule balanced_after, assumption+, rule neutral)

section \<open>Effects on the sheet\<close>

definition credit :: "int \<Rightarrow> sheet \<Rightarrow> sheet" where
  "credit d s = s\<lparr>sh_liquid := sh_liquid s + d\<rparr>"

definition grant :: "int \<Rightarrow> sheet \<Rightarrow> sheet" where
  "grant d s = s\<lparr>sh_vested := sh_vested s + d\<rparr>"

definition issue :: "int \<Rightarrow> sheet \<Rightarrow> sheet" where
  "issue d s = s\<lparr>sh_supply := sh_supply s + d\<rparr>"

definition power_up :: "int \<Rightarrow> sheet \<Rightarrow> sheet" where
  "power_up d s = s\<lparr>sh_liquid := sh_liquid s - d, sh_vested := sh_vested s + d,
     sh_vesting_total := sh_vesting_total s + d\<rparr>"

definition fee_to_pools :: "int \<Rightarrow> sheet \<Rightarrow> sheet" where
  "fee_to_pools f s = s\<lparr>sh_liquid := sh_liquid s - f, sh_supply := sh_supply s - f,
     sh_pools := sh_pools s + f\<rparr>"

definition in_escrow :: "int \<Rightarrow> sheet \<Rightarrow> sheet" where
  "in_escrow d s = s\<lparr>sh_escrowed := sh_escrowed s + d\<rparr>"

lemmas effect_defs = credit_def grant_def issue_def power_up_def fee_to_pools_def in_escrow_def

lemma find_account_Some:
  "find_account n db = Some a \<Longrightarrow> a \<in> set (rows (db_accounts db)) \<and> acc_name a = n"
  unfolding find_account_def by (rule find_by_Some)

lemma get_account_Inr [result_simps]: "get_account n db = Inr a \<longleftrightarrow> find_account n db = Some a"
  by (simp add: get_account_def find_account_def get_by_Inr)

lemma get_witness_Inr [result_simps]: "get_witness n db = Inr w \<longleftrightarrow> find_witness n db = Some w"
  by (simp add: get_witness_def find_witness_def get_by_Inr)

lemma get_escrow_Inr [result_simps]: "get_escrow n i db = Inr e \<longleftrightarrow> find_escrow n i db = Some e"
  by (simp add: get_escrow_def find_escrow_def get_by_Inr)

lemma account_symbols:
  "ledger_wf db \<Longrightarrow> find_account n db = Some a \<Longrightarrow> account_symbols_ok (cfg_symbol (db_cfg db)) a"
  using find_account_Some [of n db a] by (auto simp: ledger_wf_def list_all_iff)

lemma list_all_modify_by:
  "list_all P xs \<Longrightarrow> (\<And>x. P x \<Longrightarrow> P (f x)) \<Longrightarrow> list_all P (modify_by key k f xs)"
  by (auto simp: modify_by_def list_all_iff)

lemma modify_account_fields [simp]:
  "db_dgp (modify_account n f db) = db_dgp db" "db_econ (modify_account n f db) = db_econ db"
  "db_cfg (modify_account n f db) = db_cfg db" "db_escrows (modify_account n f db) = db_escrows db"
  "db_schedule (modify_account n f db) = db_schedule db" "db_hardfork (modify_account n f db) = db_hardfork db"
  by (simp_all add: modify_account_def)

lemma modify_dgp_fields [simp]:
  "db_accounts (modify_dgp g db) = db_accounts db" "db_econ (modify_dgp g db) = db_econ db"
  "db_cfg (modify_dgp g db) = db_cfg db" "db_escrows (modify_dgp g db) = db_escrows db"
  "db_dgp (modify_dgp g db) = g (db_dgp db)"
  by (simp_all add: modify_dgp_def)

lemma sheet_of_fields [simp]:
  "sh_supply (sheet_of db) = amount (current_supply (db_dgp db))"
  "sh_vesting_total (sheet_of db) = amount (total_vesting_shares (db_dgp db))"
  "sh_pools (sheet_of db) = pool_total (db_econ db)"
  by (simp_all add: sheet_of_def)

text \<open>Changing one account changes the sums by the change of that account.\<close>

lemma modify_account_refines:
  assumes wf: "ledger_wf db" and a: "find_account n db = Some a"
    and name: "\<And>x. acc_name (f x) = acc_name x"
    and syms: "\<And>s x. account_symbols_ok s x \<Longrightarrow> account_symbols_ok s (f x)"
  shows "ledger_wf (modify_account n f db)"
    and "sheet_of (modify_account n f db) =
      grant (amount (vesting_shares (f a)) - amount (vesting_shares a))
        (credit (amount (balance (f a)) - amount (balance a)) (sheet_of db))"
    and "db_cfg (modify_account n f db) = db_cfg db"
proof -
  have d: "distinct (map acc_name (rows (db_accounts db)))" using wf by (simp add: ledger_wf_def)
  note s = sum_modify_by [OF d a [unfolded find_account_def]]
  show "ledger_wf (modify_account n f db)"
    using wf name syms by (simp add: ledger_wf_def modify_account_def list_all_modify_by)
  show "sheet_of (modify_account n f db) =
      grant (amount (vesting_shares (f a)) - amount (vesting_shares a))
        (credit (amount (balance (f a)) - amount (balance a)) (sheet_of db))"
    by (simp add: sheet_of_def modify_account_def liquid_of_def vested_of_def escrowed_of_def s
        grant_def credit_def)
  show "db_cfg (modify_account n f db) = db_cfg db" by (simp add: modify_account_def)
qed

lemma ledger_eqD:
  assumes "ledger db' = ledger db"
  shows "ledger_wf db' = ledger_wf db \<and> sheet_of db' = sheet_of db \<and> db_cfg db' = db_cfg db"
  using ledger_eq_money_ok [OF assms] assms by (simp add: ledger_def)

interpretation bal: sheet_routine "\<lambda>(n, d). adjust_balance n d" "\<lambda>(n, d). credit (amount d)"
proof unfold_locales
  fix x db db'
  assume run: "(case x of (n, d) \<Rightarrow> adjust_balance n d) db = Inr db'" and wf: "ledger_wf db"
  obtain n d where x: "x = (n, d)" by fastforce
  from run x obtain a h where a: "find_account n db = Some a"
    and v: "adjust_proxied_witness_votes n (amount d) (modify_account n (\<lambda>x. x\<lparr>balance := (balance x)\<lparr>amount := amount (balance a) + amount d\<rparr>,
            holdings_considered_for_interests := h\<rparr>) db) = Inr db'"
    by (auto simp: adjust_balance_def modify_balance_def result_simps)
  let ?f = "\<lambda>x. x\<lparr>balance := (balance x)\<lparr>amount := amount (balance a) + amount d\<rparr>,
            holdings_considered_for_interests := h\<rparr>"
  have "ledger_wf (modify_account n ?f db)" "db_cfg (modify_account n ?f db) = db_cfg db"
    "sheet_of (modify_account n ?f db) = credit (amount d) (sheet_of db)"
    using modify_account_refines [OF wf a, of ?f]
    by (simp_all add: account_symbols_ok_def grant_def)
  with ledger_eqD [OF ledger_adjust_proxied_witness_votes [OF v]] x
  show "ledger_wf db' \<and> sheet_of db' = (case x of (n, d) \<Rightarrow> credit (amount d)) (sheet_of db) \<and> db_cfg db' = db_cfg db"
    by simp
qed

interpretation vests: sheet_routine "\<lambda>(n, d). create_vesting n d" "\<lambda>(n, d). grant (amount d)"
proof unfold_locales
  fix x db db'
  assume run: "(case x of (n, d) \<Rightarrow> create_vesting n d) db = Inr db'" and wf: "ledger_wf db"
  obtain n d where x: "x = (n, d)" by fastforce
  from run x obtain a h where a: "find_account n db = Some a"
    and v: "adjust_proxied_witness_votes n (amount d) (modify_account n (\<lambda>x. x\<lparr>vesting_shares := (vesting_shares x)\<lparr>amount := amount (vesting_shares a) + amount d\<rparr>,
            holdings_considered_for_interests := h\<rparr>) db) = Inr db'"
    by (auto simp: create_vesting_def result_simps)
  let ?f = "\<lambda>x. x\<lparr>vesting_shares := (vesting_shares x)\<lparr>amount := amount (vesting_shares a) + amount d\<rparr>,
            holdings_considered_for_interests := h\<rparr>"
  have "ledger_wf (modify_account n ?f db)" "db_cfg (modify_account n ?f db) = db_cfg db"
    "sheet_of (modify_account n ?f db) = grant (amount d) (sheet_of db)"
    using modify_account_refines [OF wf a, of ?f]
    by (simp_all add: account_symbols_ok_def credit_def)
  with ledger_eqD [OF ledger_adjust_proxied_witness_votes [OF v]] x
  show "ledger_wf db' \<and> sheet_of db' = (case x of (n, d) \<Rightarrow> grant (amount d)) (sheet_of db) \<and> db_cfg db' = db_cfg db"
    by simp
qed

lemma modify_dgp_supply_refines:
  assumes "ledger_wf db" "symbol cs = cfg_symbol (db_cfg db)"
  shows "ledger_wf (modify_dgp (\<lambda>p. p\<lparr>current_supply := cs\<rparr>) db)"
    "sheet_of (modify_dgp (\<lambda>p. p\<lparr>current_supply := cs\<rparr>) db) =
      issue (amount cs - amount (current_supply (db_dgp db))) (sheet_of db)"
    "db_cfg (modify_dgp f db) = db_cfg db"
  using assms
  by (simp_all add: ledger_wf_def modify_dgp_def sheet_of_def issue_def liquid_of_def vested_of_def escrowed_of_def)

interpretation coins: sheet_routine adjust_supply "\<lambda>d. issue (amount d)"
proof unfold_locales
  fix d db db'
  assume run: "adjust_supply d db = Inr db'" and wf: "ledger_wf db"
  from run have "db' = modify_dgp (\<lambda>p. p\<lparr>current_supply :=
      Asset (amount (current_supply (db_dgp db)) + amount d) (symbol (current_supply (db_dgp db)))\<rparr>) db"
    by (auto simp: adjust_supply_def result_simps split: if_splits)
  moreover have "symbol (current_supply (db_dgp db)) = cfg_symbol (db_cfg db)"
    using wf by (simp add: ledger_wf_def)
  ultimately show "ledger_wf db' \<and> sheet_of db' = issue (amount d) (sheet_of db) \<and> db_cfg db' = db_cfg db"
    using modify_dgp_supply_refines [OF wf] by simp
qed

lemma with_econ_refines:
  assumes "ledger_wf db"
  shows "ledger_wf (db\<lparr>db_econ := e\<rparr>)"
    "sheet_of (db\<lparr>db_econ := e\<rparr>) = (sheet_of db)\<lparr>sh_pools := pool_total e\<rparr>"
  using assms by (simp_all add: ledger_wf_def sheet_of_def liquid_of_def vested_of_def escrowed_of_def)

interpretation fee: neutral_routine "\<lambda>(n, f). pay_fee n f" "\<lambda>(n, f). fee_to_pools (amount f)"
proof unfold_locales
  fix x db db'
  assume run: "(case x of (n, f) \<Rightarrow> pay_fee n f) db = Inr db'" and wf: "ledger_wf db"
  obtain n f where x: "x = (n, f)" by fastforce
  show "ledger_wf db' \<and> sheet_of db' = (case x of (n, f) \<Rightarrow> fee_to_pools (amount f)) (sheet_of db) \<and> db_cfg db' = db_cfg db"
  proof (cases "amount f = 0")
    case True
    with run x wf show ?thesis by (auto simp: pay_fee_def result_simps fee_to_pools_def)
  next
    case False
    let ?d = "Asset (- amount f) (symbol f)"
    from False run x obtain db1 db2 e where
      db1: "adjust_balance n ?d db = Inr db1" and db2: "adjust_supply ?d db1 = Inr db2"
      and e: "add_fee (db_cfg db) (amount f) (db_econ db2) = Inr e" and db': "db' = db2\<lparr>db_econ := e\<rparr>"
      by (auto simp: pay_fee_def result_simps asset_neg_def)
    have 1: "ledger_wf db1" "sheet_of db1 = credit (- amount f) (sheet_of db)" "db_cfg db1 = db_cfg db"
      using bal.refines [of "(n, ?d)" db db1] db1 wf by simp_all
    have 2: "ledger_wf db2" "sheet_of db2 = issue (- amount f) (sheet_of db1)" "db_cfg db2 = db_cfg db1"
      using coins.refines [OF db2] 1 by simp_all
    have "sh_pools (sheet_of db2) = sh_pools (sheet_of db)" using 1 2 by (simp add: effect_defs)
    then have "pool_total e = sh_pools (sheet_of db) + amount f"
      using add_fee_total [OF e] by (simp add: sheet_of_def)
    with 1 2 x db' with_econ_refines [OF 2(1), of e] show ?thesis by (simp add: effect_defs)
  qed
next
  fix t s x
  assume "balanced t s"
  then show "balanced t ((case x of (n, f) \<Rightarrow> fee_to_pools (amount f)) s)"
    by (cases x) (simp add: balanced_def effect_defs)
qed

lemma modify_dgp_vesting_refines:
  assumes "ledger_wf db"
  shows "ledger_wf (modify_dgp (\<lambda>p. p\<lparr>total_vesting_shares := (total_vesting_shares p)\<lparr>amount := t\<rparr>\<rparr>) db)"
    "sheet_of (modify_dgp (\<lambda>p. p\<lparr>total_vesting_shares := (total_vesting_shares p)\<lparr>amount := t\<rparr>\<rparr>) db) =
      (sheet_of db)\<lparr>sh_vesting_total := t\<rparr>"
  using assms
  by (simp_all add: ledger_wf_def modify_dgp_def sheet_of_def liquid_of_def vested_of_def escrowed_of_def)

interpretation vesting: neutral_routine "\<lambda>(n, d). vest n d" "\<lambda>(n, d). power_up d"
proof unfold_locales
  fix x db db'
  assume run: "(case x of (n, d) \<Rightarrow> vest n d) db = Inr db'" and wf: "ledger_wf db"
  obtain n d where x: "x = (n, d)" by fastforce
  let ?f = "\<lambda>a x. x\<lparr>balance := (balance x)\<lparr>amount := amount (balance a) - d\<rparr>,
      vesting_shares := (vesting_shares x)\<lparr>amount := amount (vesting_shares a) + d\<rparr>\<rparr>"
  from run x obtain a where a: "find_account n db = Some a"
    and db': "db' = modify_dgp (\<lambda>p. p\<lparr>total_vesting_shares := (total_vesting_shares p)\<lparr>amount :=
      amount (total_vesting_shares (db_dgp (modify_account n (?f a) db))) + d\<rparr>\<rparr>) (modify_account n (?f a) db)"
    by (auto simp: vest_def result_simps Let_def)
  note m = modify_account_refines [OF wf a, of "?f a"]
  have "ledger_wf (modify_account n (?f a) db)" using m by (simp add: account_symbols_ok_def)
  from modify_dgp_vesting_refines [OF this] m x
  show "ledger_wf db' \<and> sheet_of db' = (case x of (n, d) \<Rightarrow> power_up d) (sheet_of db) \<and> db_cfg db' = db_cfg db"
    by (simp add: db' account_symbols_ok_def effect_defs)
next
  fix t s x
  assume "balanced t s"
  then show "balanced t ((case x of (n, d) \<Rightarrow> power_up d) s)"
    by (cases x) (simp add: balanced_def effect_defs)
qed

section \<open>What the check of the supply decides\<close>

lemma asset_add_InrD: "asset_add a b = Inr c \<Longrightarrow> symbol a = symbol b \<and> c = a\<lparr>amount := amount a + amount b\<rparr>"
  by (cases a) (auto simp: asset_add_Inr dest: safe_add_InrD)

lemma asset_add_ok:
  "symbol a = symbol b \<Longrightarrow> 0 \<le> amount a \<Longrightarrow> 0 \<le> amount b \<Longrightarrow> amount a + amount b \<le> int64_max \<Longrightarrow>
    asset_add a b = Inr (a\<lparr>amount := amount a + amount b\<rparr>)"
  by (cases a) (auto simp: asset_add_Inr safe_add_Inr)

lemma efold_votes: "efold (\<lambda>w _. FC_ASSERT (P w) m (Inr ())) ws u = Inr u' \<longleftrightarrow> list_all P ws"
  by (induction ws) (auto simp: result_simps)

lemma efold_accounts_exact:
  assumes "efold (\<lambda>a (s, v). ebind (asset_add s (balance a)) (\<lambda>s'.
      ebind (asset_add v (vesting_shares a)) (\<lambda>v'. Inr (s', v')))) xs (s, v) = Inr (s', v')"
  shows "s' = s\<lparr>amount := amount s + sum_list (map (\<lambda>a. amount (balance a)) xs)\<rparr> \<and>
    v' = v\<lparr>amount := amount v + sum_list (map (\<lambda>a. amount (vesting_shares a)) xs)\<rparr>"
  using assms
proof (induction xs arbitrary: s v)
  case (Cons a xs)
  then have "efold (\<lambda>a (s, v). ebind (asset_add s (balance a)) (\<lambda>s'.
      ebind (asset_add v (vesting_shares a)) (\<lambda>v'. Inr (s', v')))) xs
      (s\<lparr>amount := amount s + amount (balance a)\<rparr>, v\<lparr>amount := amount v + amount (vesting_shares a)\<rparr>) = Inr (s', v')"
    by (auto simp: ebind_eq_Inr dest!: asset_add_InrD)
  from Cons.IH [OF this] show ?case by (simp add: add.assoc)
qed simp

lemma efold_accounts_ok:
  assumes "list_all (\<lambda>a. account_symbols_ok (symbol s) a \<and> 0 \<le> amount (balance a) \<and> 0 \<le> amount (vesting_shares a)) xs"
    "0 \<le> amount s" "0 \<le> amount v" "symbol v = VESTS_SYMBOL"
    "amount s + sum_list (map (\<lambda>a. amount (balance a)) xs) \<le> int64_max"
    "amount v + sum_list (map (\<lambda>a. amount (vesting_shares a)) xs) \<le> int64_max"
  shows "\<exists>s' v'. efold (\<lambda>a (s, v). ebind (asset_add s (balance a)) (\<lambda>s'.
      ebind (asset_add v (vesting_shares a)) (\<lambda>v'. Inr (s', v')))) xs (s, v) = Inr (s', v')"
  using assms
proof (induction xs arbitrary: s v)
  case (Cons a xs)
  have "0 \<le> sum_list (map (\<lambda>a. amount (balance a)) xs)" "0 \<le> sum_list (map (\<lambda>a. amount (vesting_shares a)) xs)"
    using Cons.prems(1) by (auto intro!: sum_list_nonneg simp: list_all_iff)
  then have "asset_add s (balance a) = Inr (s\<lparr>amount := amount s + amount (balance a)\<rparr>)"
    "asset_add v (vesting_shares a) = Inr (v\<lparr>amount := amount v + amount (vesting_shares a)\<rparr>)"
    using Cons.prems by (auto simp: account_symbols_ok_def intro!: asset_add_ok)
  moreover have "\<exists>s' v'. efold (\<lambda>a (s, v). ebind (asset_add s (balance a)) (\<lambda>s'.
      ebind (asset_add v (vesting_shares a)) (\<lambda>v'. Inr (s', v')))) xs
      (s\<lparr>amount := amount s + amount (balance a)\<rparr>, v\<lparr>amount := amount v + amount (vesting_shares a)\<rparr>) = Inr (s', v')"
    using Cons.prems by (intro Cons.IH) simp_all
  ultimately show ?case by simp
qed simp

lemma efold_escrows_exact:
  assumes "efold (\<lambda>e s. ebind (asset_add s (sophiatx_balance e)) (\<lambda>s'.
      if symbol (pending_fee e) = sph then asset_add s' (pending_fee e) else Inl err)) xs s = Inr s'"
  shows "s' = s\<lparr>amount := amount s + sum_list (map esc_money xs)\<rparr>"
  using assms
proof (induction xs arbitrary: s)
  case (Cons e xs)
  then have "efold (\<lambda>e s. ebind (asset_add s (sophiatx_balance e)) (\<lambda>s'.
      if symbol (pending_fee e) = sph then asset_add s' (pending_fee e) else Inl err)) xs
      (s\<lparr>amount := amount s + esc_money e\<rparr>) = Inr s'"
    by (auto simp: ebind_eq_Inr esc_money_def add.assoc dest!: asset_add_InrD split: if_splits)
  from Cons.IH [OF this] show ?case by (simp add: add.assoc)
qed simp

lemma efold_escrows_ok:
  assumes "list_all (\<lambda>e. escrow_symbols_ok (symbol s) e \<and> 0 \<le> amount (sophiatx_balance e) \<and> 0 \<le> amount (pending_fee e)) xs"
    "0 \<le> amount s" "symbol s = sph" "amount s + sum_list (map esc_money xs) \<le> int64_max"
  shows "\<exists>s'. efold (\<lambda>e s. ebind (asset_add s (sophiatx_balance e)) (\<lambda>s'.
      if symbol (pending_fee e) = sph then asset_add s' (pending_fee e) else Inl err)) xs s = Inr s'"
  using assms
proof (induction xs arbitrary: s)
  case (Cons e xs)
  let ?s1 = "s\<lparr>amount := amount s + amount (sophiatx_balance e)\<rparr>"
  have "0 \<le> sum_list (map esc_money xs)"
    using Cons.prems(1) by (auto intro!: sum_list_nonneg simp: list_all_iff esc_money_def)
  moreover have e: "esc_money e = amount (sophiatx_balance e) + amount (pending_fee e)"
    by (simp add: esc_money_def)
  moreover have "amount s + esc_money e + sum_list (map esc_money xs) \<le> int64_max"
    using Cons.prems(4) by simp
  ultimately have "amount s + amount (sophiatx_balance e) \<le> int64_max"
    "amount s + amount (sophiatx_balance e) + amount (pending_fee e) \<le> int64_max"
    using Cons.prems(1) by simp_all
  then have "asset_add s (sophiatx_balance e) = Inr ?s1"
    "asset_add ?s1 (pending_fee e) = Inr (s\<lparr>amount := amount s + esc_money e\<rparr>)"
    using Cons.prems(1-3) asset_add_ok [of s "sophiatx_balance e"] asset_add_ok [of ?s1 "pending_fee e"]
    by (simp_all add: escrow_symbols_ok_def e add.assoc)
  moreover have "\<exists>s'. efold (\<lambda>e s. ebind (asset_add s (sophiatx_balance e)) (\<lambda>s'.
      if symbol (pending_fee e) = sph then asset_add s' (pending_fee e) else Inl err)) xs
      (s\<lparr>amount := amount s + esc_money e\<rparr>) = Inr s'"
    using Cons.prems by (intro Cons.IH) (simp_all add: esc_money_def)
  ultimately show ?case using Cons.prems by (simp add: escrow_symbols_ok_def)
qed simp

text \<open>Every stored amount is non-negative.\<close>

definition amounts_nonneg :: "database \<Rightarrow> bool" where
  "amounts_nonneg db \<longleftrightarrow>
     list_all (\<lambda>a. 0 \<le> amount (balance a) \<and> 0 \<le> amount (vesting_shares a)) (rows (db_accounts db)) \<and>
     list_all (\<lambda>e. 0 \<le> amount (sophiatx_balance e) \<and> 0 \<le> amount (pending_fee e)) (rows (db_escrows db)) \<and>
     0 \<le> mining_pool_from_coinbase (db_econ db) \<and> 0 \<le> mining_pool_from_fees (db_econ db) \<and>
     0 \<le> interest_pool_from_coinbase (db_econ db) \<and> 0 \<le> interest_pool_from_fees (db_econ db) \<and>
     0 \<le> promotion_pool (db_econ db) \<and> 0 \<le> burn_pool (db_econ db)"

lemma sums_nonneg:
  assumes "amounts_nonneg db"
  shows "0 \<le> liquid_of db" "0 \<le> vested_of db" "0 \<le> escrowed_of db" "0 \<le> pool_total (db_econ db)"
  using assms
  by (auto simp: amounts_nonneg_def liquid_of_def vested_of_def escrowed_of_def list_all_iff esc_money_def
      pool_total_def intro!: sum_list_nonneg)

definition votes_bounded :: "database \<Rightarrow> bool" where
  "votes_bounded db \<longleftrightarrow> list_all (\<lambda>w. votes w \<le> amount (current_supply (db_dgp db))) (rows (db_witnesses db))"

lemma validate_invariants_sound:
  assumes "validate_invariants db = Inr ()" "\<not> is_private_net db"
  shows "balanced (cfg_total_supply (db_cfg db)) (sheet_of db) \<and> votes_bounded db"
proof -
  from assms obtain s1 v1 s2 where
    w: "votes_bounded db"
    and a: "efold (\<lambda>a (s, v). ebind (asset_add s (balance a)) (\<lambda>s'.
        ebind (asset_add v (vesting_shares a)) (\<lambda>v'. Inr (s', v')))) (rows (db_accounts db))
        (Asset 0 (cfg_symbol (db_cfg db)), Asset 0 VESTS_SYMBOL) = Inr (s1, v1)"
    and e: "efold (\<lambda>e s. ebind (asset_add s (sophiatx_balance e)) (\<lambda>s'.
        if symbol (pending_fee e) = cfg_symbol (db_cfg db) then asset_add s' (pending_fee e)
        else Inl (Assert_exception ''found escrow pending fee that is not SPHTX'')))
        (rows (db_escrows db)) s1 = Inr s2"
    and sup: "asset_add s2 (Asset (amount v1) (cfg_symbol (db_cfg db))) = Inr (current_supply (db_dgp db))"
    and tv: "total_vesting_shares (db_dgp db) = v1"
    and tot: "amount (current_supply (db_dgp db)) + interest_pool_from_fees (db_econ db)
        + interest_pool_from_coinbase (db_econ db) + mining_pool_from_fees (db_econ db)
        + mining_pool_from_coinbase (db_econ db) + promotion_pool (db_econ db) + burn_pool (db_econ db)
        = cfg_total_supply (db_cfg db)"
    by (auto simp: validate_invariants_def Let_def ebind_eq_Inr FC_ASSERT_eq_Inr efold_votes votes_bounded_def
        dest!: safe_add_InrD)
  from efold_accounts_exact [OF a] efold_escrows_exact [OF e] asset_add_InrD [OF sup] tv tot w
  show ?thesis
    by (simp add: balanced_def sheet_of_def liquid_of_def vested_of_def escrowed_of_def pool_total_def)
qed

lemma validate_invariants_complete:
  assumes ok: "money_ok db" and nn: "amounts_nonneg db" and vb: "votes_bounded db"
    and max: "cfg_total_supply (db_cfg db) \<le> int64_max"
  shows "validate_invariants db = Inr ()"
proof (cases "is_private_net db")
  case True
  then show ?thesis by (simp add: validate_invariants_def)
next
  case False
  let ?S = "cfg_symbol (db_cfg db)"
  note nn' = nn [unfolded amounts_nonneg_def]
  note sums = sums_nonneg [OF nn]
  have wf: "ledger_wf db" and bal: "amount (current_supply (db_dgp db)) = liquid_of db + vested_of db + escrowed_of db"
      "amount (total_vesting_shares (db_dgp db)) = vested_of db"
      "amount (current_supply (db_dgp db)) + pool_total (db_econ db) = cfg_total_supply (db_cfg db)"
    using ok by (simp_all add: money_ok_def balanced_def sheet_of_def)
  have le: "liquid_of db + vested_of db + escrowed_of db \<le> int64_max" using bal sums max by linarith
  have "list_all (\<lambda>a. account_symbols_ok ?S a \<and> 0 \<le> amount (balance a) \<and> 0 \<le> amount (vesting_shares a)) (rows (db_accounts db))"
    using wf nn' by (auto simp: ledger_wf_def list_all_iff)
  from efold_accounts_ok [of "Asset 0 ?S" "rows (db_accounts db)" "Asset 0 VESTS_SYMBOL"] this
  obtain s1 v1 where a: "efold (\<lambda>a (s, v). ebind (asset_add s (balance a)) (\<lambda>s'.
        ebind (asset_add v (vesting_shares a)) (\<lambda>v'. Inr (s', v')))) (rows (db_accounts db))
        (Asset 0 ?S, Asset 0 VESTS_SYMBOL) = Inr (s1, v1)"
    using le sums by (auto simp: liquid_of_def vested_of_def)
  note av = efold_accounts_exact [OF a, folded liquid_of_def vested_of_def, simplified]
  have "list_all (\<lambda>e. escrow_symbols_ok (symbol s1) e \<and> 0 \<le> amount (sophiatx_balance e) \<and> 0 \<le> amount (pending_fee e)) (rows (db_escrows db))"
    using wf nn' av by (auto simp: ledger_wf_def list_all_iff)
  from efold_escrows_ok [OF this, of ?S "Assert_exception ''found escrow pending fee that is not SPHTX''"]
  obtain s2 where e: "efold (\<lambda>e s. ebind (asset_add s (sophiatx_balance e)) (\<lambda>s'.
        if symbol (pending_fee e) = ?S then asset_add s' (pending_fee e)
        else Inl (Assert_exception ''found escrow pending fee that is not SPHTX'')))
        (rows (db_escrows db)) s1 = Inr s2"
    using le sums av by (auto simp: escrowed_of_def)
  have s2: "s2 = Asset (liquid_of db + escrowed_of db) ?S"
    using efold_escrows_exact [OF e] av by (simp add: escrowed_of_def)
  have sup: "asset_add s2 (Asset (amount v1) ?S) = Inr (current_supply (db_dgp db))"
    using asset_add_ok [of s2 "Asset (amount v1) ?S"] s2 av le sums bal wf
    by (simp add: ledger_wf_def algebra_simps)
  have tv: "total_vesting_shares (db_dgp db) = v1"
    using av bal wf by (cases "total_vesting_shares (db_dgp db)") (simp add: ledger_wf_def)
  have pools: "0 \<le> amount (current_supply (db_dgp db))"
    "amount (current_supply (db_dgp db)) + interest_pool_from_fees (db_econ db)
        + interest_pool_from_coinbase (db_econ db) + mining_pool_from_fees (db_econ db)
        + mining_pool_from_coinbase (db_econ db) + promotion_pool (db_econ db) + burn_pool (db_econ db)
        = cfg_total_supply (db_cfg db)"
    using bal sums by (simp_all add: pool_total_def)
  have safe: "safe_add x y = Inr (x + y)" if "0 \<le> x" "0 \<le> y" "x + y \<le> int64_max" for x y
    using that by (auto simp: safe_add_Inr)
  have vw: "efold (\<lambda>w _. FC_ASSERT (votes w \<le> amount (current_supply (db_dgp db))) [] (Inr ()))
      (rows (db_witnesses db)) () = Inr ()"
    using vb by (simp add: efold_votes votes_bounded_def)
  show ?thesis
    using False vw a e sup tv pools max nn'
    by (simp add: validate_invariants_def Let_def safe)
qed

text \<open>C36. What \<^verbatim>\<open>database::validate_invariants\<close> decides: on a state whose stored amounts are non-negative and in the right coins and
  whose total supply fits 64 bits, the check passes exactly when the network is private or when the recorded supply is the sum of
  all balances, vesting shares and escrows, the recorded vesting total is the sum of the vesting shares, supply and pools together make
  up the total supply, and no witness has more votes than the supply.\<close>

theorem validate_invariants_decides_supply:
  assumes "ledger_wf db" "amounts_nonneg db" "cfg_total_supply (db_cfg db) \<le> int64_max"
  shows "validate_invariants db = Inr () \<longleftrightarrow>
    is_private_net db \<or> balanced (cfg_total_supply (db_cfg db)) (sheet_of db) \<and> votes_bounded db"
  using validate_invariants_sound [of db] validate_invariants_complete [of db] assms
  by (cases "is_private_net db") (auto simp: money_ok_def validate_invariants_def)

end
