(* ===== verification/Sheet_Steps.thy ===== *)
theory Sheet_Steps
  imports Balance_Sheet
begin

text \<open>
  The interpretations of \<open>sheet_routine\<close> as plain rules, and the corresponding rules for the
  creation, change and removal of accounts and escrows. \<open>moves f db db'\<close> says that a run from
  \<open>db\<close> to \<open>db'\<close> acts on the balance sheet as \<open>f\<close>; the rules compose by \<open>moves_trans\<close>.
\<close>

definition moves :: "(sheet \<Rightarrow> sheet) \<Rightarrow> database \<Rightarrow> database \<Rightarrow> bool" where
  "moves f db db' \<longleftrightarrow>
     (ledger_wf db \<longrightarrow> ledger_wf db' \<and> sheet_of db' = f (sheet_of db) \<and> db_cfg db' = db_cfg db)"

lemma moves_refl: "moves id db db"
  by (simp add: moves_def)

lemma moves_trans: "moves f a b \<Longrightarrow> moves g b c \<Longrightarrow> moves (g \<circ> f) a c"
  by (simp add: moves_def)

lemma moves_wf: "moves f db db' \<Longrightarrow> ledger_wf db \<Longrightarrow> ledger_wf db' \<and> db_cfg db' = db_cfg db"
  by (simp add: moves_def)

lemma moves_money_ok:
  assumes "moves f db db'" "money_ok db" "\<And>t s. balanced t s \<Longrightarrow> balanced t (f s)"
  shows "money_ok db'"
  using assms by (auto simp: moves_def money_ok_def)

lemma moves_ledger: "ledger db' = ledger db \<Longrightarrow> moves id db db'"
  using ledger_eqD [of db' db] by (simp add: moves_def)

lemma adjust_balance_moves: "adjust_balance n d db = Inr db' \<Longrightarrow> moves (credit (amount d)) db db'"
  using bal.refines [of "(n, d)" db db'] by (simp add: moves_def)

lemma create_vesting_moves: "create_vesting n d db = Inr db' \<Longrightarrow> moves (grant (amount d)) db db'"
  using vests.refines [of "(n, d)" db db'] by (simp add: moves_def)

lemma adjust_supply_moves: "adjust_supply d db = Inr db' \<Longrightarrow> moves (issue (amount d)) db db'"
  using coins.refines [of d db db'] by (simp add: moves_def)

lemma pay_fee_moves: "pay_fee n f db = Inr db' \<Longrightarrow> moves (fee_to_pools (amount f)) db db'"
  using fee.refines [of "(n, f)" db db'] by (simp add: moves_def)

lemma vest_moves: "vest n d db = Inr db' \<Longrightarrow> moves (power_up d) db db'"
  using vesting.refines [of "(n, d)" db db'] by (simp add: moves_def)

lemma with_econ_moves: "moves (\<lambda>s. s\<lparr>sh_pools := pool_total e\<rparr>) db (db\<lparr>db_econ := e\<rparr>)"
  using with_econ_refines [of db e] by (simp add: moves_def)

lemmas routine_moves = adjust_balance_moves create_vesting_moves adjust_supply_moves pay_fee_moves vest_moves

section \<open>Accounts\<close>

lemma create_account_moves:
  assumes "create_account mk db = Inr db'" and "\<And>i. account_symbols_ok (cfg_symbol (db_cfg db)) (mk i)"
    and "\<And>i. amount (balance (mk i)) = 0 \<and> amount (vesting_shares (mk i)) = 0"
  shows "moves id db db'"
proof -
  from assms(1) have new: "acc_name (mk (next_id (db_accounts db))) \<notin> acc_name ` set (rows (db_accounts db))"
    and db': "db' = db\<lparr>db_accounts := \<lparr>rows = rows (db_accounts db) @ [mk (next_id (db_accounts db))],
      next_id = Suc (next_id (db_accounts db))\<rparr>\<rparr>"
    by (auto simp: create_account_def result_simps)
  then show ?thesis
    using assms(2,3) by (simp add: moves_def ledger_wf_def sheet_of_def liquid_of_def vested_of_def escrowed_of_def)
qed

section \<open>Escrows\<close>

lemma find_escrow_Some:
  "find_escrow n i db = Some e \<Longrightarrow> e \<in> set (rows (db_escrows db)) \<and> esc_key e = (n, i)"
  unfolding find_escrow_def by (rule find_by_Some)

lemma adjust_balance_escrows:
  assumes "adjust_balance n d db = Inr db'"
  shows "rows (db_escrows db') = rows (db_escrows db)"
proof -
  from assms obtain f where "adjust_proxied_witness_votes n (amount d) (modify_account n f db) = Inr db'"
    by (auto simp: adjust_balance_def modify_balance_def result_simps)
  from ledger_adjust_proxied_witness_votes [OF this] show ?thesis by (simp add: ledger_def)
qed

lemma adjust_balance_find_escrow:
  "adjust_balance n d db = Inr db' \<Longrightarrow> find_escrow m i db' = find_escrow m i db"
  by (simp add: find_escrow_def adjust_balance_escrows)

lemma create_escrow_moves:
  assumes "create_escrow mk db = Inr db'"
    and "escrow_symbols_ok (cfg_symbol (db_cfg db)) (mk (next_id (db_escrows db)))"
  shows "moves (in_escrow (esc_money (mk (next_id (db_escrows db))))) db db'"
proof -
  from assms(1) have "esc_key (mk (next_id (db_escrows db))) \<notin> esc_key ` set (rows (db_escrows db))"
    and "db' = db\<lparr>db_escrows := \<lparr>rows = rows (db_escrows db) @ [mk (next_id (db_escrows db))],
      next_id = Suc (next_id (db_escrows db))\<rparr>\<rparr>"
    by (auto simp: create_escrow_def result_simps)
  then show ?thesis
    using assms(2) by (simp add: moves_def ledger_wf_def sheet_of_def liquid_of_def vested_of_def escrowed_of_def in_escrow_def)
qed

lemma modify_escrow_moves:
  assumes e: "find_escrow n i db = Some e"
    and key: "\<And>x. esc_key x = (n, i) \<Longrightarrow> esc_key (f x) = (n, i)"
    and syms: "\<And>x. escrow_symbols_ok (cfg_symbol (db_cfg db)) e \<Longrightarrow> escrow_symbols_ok (cfg_symbol (db_cfg db)) x \<Longrightarrow>
      escrow_symbols_ok (cfg_symbol (db_cfg db)) (f x)"
  shows "moves (in_escrow (esc_money (f e) - esc_money e)) db (modify_escrow (n, i) f db)"
  unfolding moves_def
proof (intro impI conjI)
  assume wf: "ledger_wf db"
  then have d: "distinct (map esc_key (rows (db_escrows db)))"
    and s: "list_all (escrow_symbols_ok (cfg_symbol (db_cfg db))) (rows (db_escrows db))"
    by (simp_all add: ledger_wf_def)
  have es: "escrow_symbols_ok (cfg_symbol (db_cfg db)) e"
    using find_escrow_Some [OF e] s by (auto simp: list_all_iff)
  have "map esc_key (modify_by esc_key (n, i) f (rows (db_escrows db))) = map esc_key (rows (db_escrows db))"
    using key by (auto simp: modify_by_def)
  moreover have "list_all (escrow_symbols_ok (cfg_symbol (db_cfg db))) (modify_by esc_key (n, i) f (rows (db_escrows db)))"
    using s syms [OF es] by (auto intro: list_all_modify_by)
  ultimately show "ledger_wf (modify_escrow (n, i) f db)"
    using wf by (simp add: ledger_wf_def modify_escrow_def)
  show "sheet_of (modify_escrow (n, i) f db) = in_escrow (esc_money (f e) - esc_money e) (sheet_of db)"
    using sum_modify_by [OF d e [unfolded find_escrow_def], of esc_money f]
    by (simp add: sheet_of_def modify_escrow_def liquid_of_def vested_of_def escrowed_of_def in_escrow_def)
  show "db_cfg (modify_escrow (n, i) f db) = db_cfg db" by (simp add: modify_escrow_def)
qed

lemma remove_escrow_moves:
  assumes e: "find_escrow n i db = Some e"
  shows "moves (in_escrow (- esc_money e)) db (remove_escrow (n, i) db)"
proof -
  have "list_all P (remove_by esc_key k xs)" if "list_all P xs" for P k xs
    using that by (auto simp: remove_by_def list_all_iff)
  moreover have "distinct (map esc_key (rows (db_escrows db))) \<Longrightarrow>
      sum_list (map esc_money (remove_by esc_key (n, i) (rows (db_escrows db)))) =
      sum_list (map esc_money (rows (db_escrows db))) - esc_money e"
    using sum_remove_by e by (simp add: find_escrow_def)
  ultimately show ?thesis
    by (simp add: moves_def remove_escrow_def ledger_wf_def sheet_of_def liquid_of_def vested_of_def escrowed_of_def in_escrow_def)
qed

lemma find_escrow_modify:
  assumes "find_escrow n i db = Some e" "\<And>x. esc_key x = (n, i) \<Longrightarrow> esc_key (f x) = (n, i)"
  shows "find_escrow n i (modify_escrow (n, i) f db) = Some (f e)"
  using assms unfolding find_escrow_def modify_escrow_def
  by (induction "rows (db_escrows db)") (auto simp: find_by_def modify_by_def find_Some_iff)

section \<open>The invariant of the ledger\<close>

text \<open>The fee of an escrow is paid out when both parties have approved it.\<close>

definition escrow_settled :: "escrow_object \<Rightarrow> bool" where
  "escrow_settled e \<longleftrightarrow> (is_approved e \<longrightarrow> amount (pending_fee e) = 0)"

definition escrows_settled :: "database \<Rightarrow> bool" where
  "escrows_settled db \<longleftrightarrow> list_all escrow_settled (rows (db_escrows db))"

definition ledger_inv :: "database \<Rightarrow> bool" where
  "ledger_inv db \<longleftrightarrow> money_ok db \<and> escrows_settled db"

text \<open>An operation of the chain that keeps it.\<close>

locale ledger_keeper =
  fixes run :: "'a \<Rightarrow> database \<Rightarrow> database result"
  assumes keeps_inv: "run x db = Inr db' \<Longrightarrow> ledger_inv db \<Longrightarrow> ledger_inv db'"
begin

lemma keeps_inv_all: "efold run xs db = Inr db' \<Longrightarrow> ledger_inv db \<Longrightarrow> ledger_inv db'"
  by (erule efold_invariant) (auto intro: keeps_inv)

end

text \<open>A routine that moves coins without a look at the escrows.\<close>

locale plain_keeper = money_keeper +
  assumes escrows_same: "run x db = Inr db' \<Longrightarrow> rows (db_escrows db') = rows (db_escrows db)"

sublocale plain_keeper \<subseteq> ledger_keeper run
  by unfold_locales (use keeps escrows_same in \<open>simp add: ledger_inv_def escrows_settled_def\<close>)

text \<open>A routine that leaves the whole ledger alone.\<close>

locale ledger_frame =
  fixes run :: "'a \<Rightarrow> database \<Rightarrow> database result"
  assumes frames: "run x db = Inr db' \<Longrightarrow> ledger db' = ledger db"

sublocale ledger_frame \<subseteq> plain_keeper run
proof unfold_locales
  fix x db db'
  assume run: "run x db = Inr db'"
  show "money_ok db \<Longrightarrow> money_ok db'" using ledger_eq_money_ok(3) [OF frames [OF run]] by simp
  show "rows (db_escrows db') = rows (db_escrows db)" using frames [OF run] by (simp add: ledger_def)
qed

lemma adjust_supply_escrows: "adjust_supply d db = Inr db' \<Longrightarrow> rows (db_escrows db') = rows (db_escrows db)"
  by (auto simp: adjust_supply_def result_simps split: if_splits)

lemma pay_fee_escrows: "pay_fee n f db = Inr db' \<Longrightarrow> rows (db_escrows db') = rows (db_escrows db)"
  by (auto simp: pay_fee_def result_simps dest!: adjust_balance_escrows adjust_supply_escrows split: if_splits)

lemma vest_escrows: "vest n d db = Inr db' \<Longrightarrow> rows (db_escrows db') = rows (db_escrows db)"
  by (auto simp: vest_def result_simps Let_def)

lemma create_vesting_escrows:
  assumes "create_vesting n d db = Inr db'"
  shows "rows (db_escrows db') = rows (db_escrows db)"
proof -
  from assms obtain f where "adjust_proxied_witness_votes n (amount d) (modify_account n f db) = Inr db'"
    by (auto simp: create_vesting_def result_simps)
  from ledger_adjust_proxied_witness_votes [OF this] show ?thesis by (simp add: ledger_def)
qed

lemma create_account_escrows: "create_account mk db = Inr db' \<Longrightarrow> rows (db_escrows db') = rows (db_escrows db)"
  by (auto simp: create_account_def result_simps)

lemmas escrows_same_rules = adjust_balance_escrows adjust_supply_escrows pay_fee_escrows vest_escrows
  create_vesting_escrows create_account_escrows

lemma settled_lookup: "escrows_settled db \<Longrightarrow> find_escrow n i db = Some e \<Longrightarrow> escrow_settled e"
  using find_escrow_Some [of n i db e] by (auto simp: escrows_settled_def list_all_iff)

lemma settled_same: "rows (db_escrows db') = rows (db_escrows db) \<Longrightarrow> escrows_settled db' = escrows_settled db"
  by (simp add: escrows_settled_def)

lemma settled_modify:
  "escrows_settled db \<Longrightarrow> (\<And>x. esc_key x = k \<Longrightarrow> escrow_settled x \<Longrightarrow> escrow_settled (f x)) \<Longrightarrow>
     escrows_settled (modify_escrow k f db)"
  by (auto simp: escrows_settled_def modify_escrow_def modify_by_def list_all_iff)

lemma settled_remove: "escrows_settled db \<Longrightarrow> escrows_settled (remove_escrow k db)"
  by (auto simp: escrows_settled_def remove_escrow_def remove_by_def list_all_iff)

lemma settled_create:
  "create_escrow mk db = Inr db' \<Longrightarrow> escrows_settled db \<Longrightarrow> (\<And>i. escrow_settled (mk i)) \<Longrightarrow> escrows_settled db'"
  by (auto simp: escrows_settled_def create_escrow_def result_simps)

end
