(* ===== verification/Account_Name.thy ===== *)
theory Account_Name
  imports Fixed_String
begin

text \<open>
  The text of an account name. Everywhere but on the wire a name is kept as its number alone; this theory reads
  the text back (\<^verbatim>\<open>fixed_string.hpp\<close>) and shows that number and text determine each other.
\<close>

section \<open>Text of a name\<close>

text \<open>The text of a name. A name is kept as its number alone; the empty name is the number 0 and any
  other number is read back at its full width, which differs from its own width by filler only.\<close>

definition name_to_string :: "account_name_type \<Rightarrow> string result" where
  "name_to_string n = (if n = 0 then Inr [] else fixed_string_to_string \<lparr>fs_data = n, fs_size = name_bytes\<rparr>)"

section \<open>Encodings of a fixed width\<close>

lemma to_be_length: "length (to_be k v) = k"
  by (induction k arbitrary: v) simp_all

lemma to_be_bytes: "b \<in> set (to_be k v) \<Longrightarrow> b < 256"
  by (induction k arbitrary: v) auto

lemma to_be_zeros: "to_be k v = replicate k 0 \<Longrightarrow> 0 \<le> v \<Longrightarrow> v < 256 ^ k \<Longrightarrow> v = 0"
proof (induction k arbitrary: v)
  case (Suc k)
  from Suc.prems(1) have eq: "to_be k (v div 256) @ [nat (v mod 256)] = replicate k 0 @ [0]"
    by (simp add: replicate_append_same)
  then have "to_be k (v div 256) = replicate k 0" "v mod 256 \<le> 0" by simp_all
  moreover have "v div 256 < 256 ^ k" using Suc.prems(3) by simp
  ultimately have "v div 256 = 0" "v mod 256 = 0" using Suc.IH [of "v div 256"] Suc.prems(2) by simp_all
  then show ?case using div_mult_mod_eq [of v 256] by simp
qed simp

lemma strip_filler_prefix:
  "\<exists>c \<in> set s. c \<noteq> CHR ''A'' \<Longrightarrow> \<exists>t. strip_filler s = Inr t \<and> (\<exists>u. s = t @ u)"
proof (induction s rule: rev_induct)
  case (snoc c s)
  show ?case
  proof (cases "c = CHR ''A''")
    case True
    with snoc obtain t u where "strip_filler s = Inr t" "s = t @ u" by auto
    moreover have "strip_filler (s @ [c]) = strip_filler s" using True by (subst strip_filler.simps) simp
    ultimately show ?thesis by auto
  next
    case False
    then show ?thesis by (subst strip_filler.simps) auto
  qed
qed simp

lemma encode_length: "length (base64m_encode bs) = 4 * ((length bs + 2) div 3)"
proof (induction bs rule: base64m_encode.induct)
  case (1 a b c rest)
  have "(5 + length rest) div 3 = Suc (Suc (Suc (length rest)) div 3)" by simp
  with 1 show ?case by (simp add: sextets_def)
qed (simp_all add: sextets_def)

lemma encode_chars:
  "\<forall>b \<in> set bs. b < 256 \<Longrightarrow> length bs mod 3 = 0 \<Longrightarrow> \<forall>c \<in> set (base64m_encode bs). is_base64m c"
proof (induction bs rule: base64m_encode.induct)
  case (1 a b c rest)
  then have abc: "a < 256" "b < 256" "c < 256" and r: "length rest mod 3 = 0" by simp_all
  with 1 sextet_bounds [OF abc] show ?case by (simp add: sextets_arith char_base64m)
qed simp_all

lemma decode_chunks_length: "length (b64_decode_chunks s) \<le> 3 * length s div 4"
  by (induction s rule: b64_decode_chunks.induct) (auto simp: octets_def)

lemma decode_fillers: "\<forall>c \<in> set s. c = CHR ''A'' \<Longrightarrow> b64_decode_chunks s = replicate (length (b64_decode_chunks s)) 0"
proof (induction s rule: b64_decode_chunks.induct)
  case (1 p q r s rest)
  then have "b64_decode_chunks rest = replicate (length (b64_decode_chunks rest)) 0" by simp
  moreover have "octets (b64_find (CHR ''A'')) (b64_find (CHR ''A'')) (b64_find (CHR ''A'')) (b64_find (CHR ''A'')) = [0, 0, 0]"
    by code_simp
  ultimately show ?case using 1 by simp
next
  case (2 p q r)
  moreover have "take 2 (octets (b64_find (CHR ''A'')) (b64_find (CHR ''A'')) (b64_find (CHR ''A'')) 255) = [0, 0]"
    by code_simp
  ultimately show ?case by simp
next
  case (3 p q)
  moreover have "take 1 (octets (b64_find (CHR ''A'')) (b64_find (CHR ''A'')) 255 255) = [0]"
    by code_simp
  ultimately show ?case by simp
qed simp_all

lemma encode_zeros: "base64m_encode bs = replicate k (CHR ''A'') \<Longrightarrow> \<forall>b \<in> set bs. b < 256 \<Longrightarrow>
    bs = replicate (length bs) 0"
proof -
  assume eq: "base64m_encode bs = replicate k (CHR ''A'')" and "\<forall>b \<in> set bs. b < 256"
  then have "bs = b64_decode_chunks (takeWhile (\<lambda>c. c \<noteq> CHR ''='' \<and> is_base64m c) (replicate k (CHR ''A'')))"
    using decode_of_encode [of bs] by (simp add: base64m_decode_def)
  moreover have "takeWhile (\<lambda>c. c \<noteq> CHR ''='' \<and> is_base64m c) (replicate k (CHR ''A'')) = replicate k (CHR ''A'')"
    using base64m_special(1) by (intro takeWhile_eq_all_conv [THEN iffD2]) auto
  moreover have "b64_decode_chunks (replicate k (CHR ''A'')) = replicate (length (b64_decode_chunks (replicate k (CHR ''A'')))) 0"
    by (rule decode_fillers) simp
  ultimately show ?thesis by metis
qed

section \<open>A number and its text\<close>

text \<open>The text without the exception: what is left of the encoding when the filler at its end is erased.\<close>

definition name_text :: "account_name_type \<Rightarrow> string" where
  "name_text n = rev (dropWhile (\<lambda>c. c = CHR ''A'') (rev (base64m_encode (to_be name_bytes n))))"

definition valid_name :: "account_name_type \<Rightarrow> bool" where
  "valid_name n \<longleftrightarrow> 0 \<le> n \<and> n < 256 ^ 24"

lemma strip_filler_dropWhile:
  "\<exists>c \<in> set s. c \<noteq> CHR ''A'' \<Longrightarrow> strip_filler s = Inr (rev (dropWhile (\<lambda>c. c = CHR ''A'') (rev s)))"
proof (induction s rule: rev_induct)
  case (snoc c s)
  then show ?case by (subst strip_filler.simps) auto
qed simp

lemma dropWhile_eq_replicate:
  "\<exists>k. s = rev (dropWhile (\<lambda>c. c = x) (rev s)) @ replicate k x"
proof (induction s rule: rev_induct)
  case (snoc c s)
  then obtain k where "s = rev (dropWhile (\<lambda>c. c = x) (rev s)) @ replicate k x" by blast
  then have "c = x \<Longrightarrow> s @ [c] = rev (dropWhile (\<lambda>c. c = x) (rev (s @ [c]))) @ replicate (Suc k) x"
    by (simp add: replicate_append_same [symmetric])
  moreover have "c \<noteq> x \<Longrightarrow> s @ [c] = rev (dropWhile (\<lambda>c. c = x) (rev (s @ [c]))) @ replicate 0 x" by simp
  ultimately show ?case by blast
qed simp

lemma encode_not_filler:
  assumes "valid_name n" "n \<noteq> 0"
  shows "\<exists>c \<in> set (base64m_encode (to_be name_bytes n)). c \<noteq> CHR ''A''"
proof (rule ccontr)
  assume "\<not> ?thesis"
  then have "base64m_encode (to_be 24 n) = replicate 32 (CHR ''A'')"
    using encode_length [of "to_be 24 n"] replicate_length_same [of "base64m_encode (to_be 24 n)" "CHR ''A''"]
    by (auto simp: to_be_length name_bytes_def)
  then have "to_be 24 n = replicate 24 0" using encode_zeros to_be_bytes to_be_length by metis
  with to_be_zeros assms show False by (auto simp: valid_name_def)
qed

lemma name_to_string_text:
  assumes "valid_name n"
  shows "name_to_string n = Inr (name_text n)"
proof (cases "n = 0")
  case True
  have "name_text 0 = []" by code_simp
  with True show ?thesis by (simp add: name_to_string_def)
next
  case False
  from encode_not_filler [OF assms False] have "base64m_encode (to_be name_bytes n) \<noteq> []" by auto
  with False strip_filler_dropWhile [OF encode_not_filler [OF assms False]] show ?thesis
    by (simp add: name_to_string_def fixed_string_to_string_def name_bytes_def Let_def to_be_length name_text_def)
qed

lemma name_text_chars: "\<forall>c \<in> set (name_text n). is_base64m c"
proof -
  have "\<forall>c \<in> set (base64m_encode (to_be name_bytes n)). is_base64m c"
    by (rule encode_chars) (auto simp: to_be_bytes to_be_length name_bytes_def)
  then show ?thesis by (auto simp: name_text_def dest: set_dropWhileD)
qed

lemma decode_chunks_append:
  "length s mod 4 = 0 \<Longrightarrow> b64_decode_chunks (s @ t) = b64_decode_chunks s @ b64_decode_chunks t"
  by (induction s rule: b64_decode_chunks.induct) simp_all

lemma from_be_to_be: "0 \<le> v \<Longrightarrow> v < 256 ^ k \<Longrightarrow> from_be (to_be k v) = v"
proof (induction k arbitrary: v)
  case (Suc k)
  then have "from_be (to_be k (v div 256)) = v div 256" by simp
  then show ?case by (simp add: from_be_append)
qed (simp add: from_be_def)

lemma from_be_bounds: "\<forall>b \<in> set bs. b < 256 \<Longrightarrow> 0 \<le> from_be bs \<and> from_be bs < 256 ^ length bs"
proof (induction bs rule: rev_induct)
  case (snoc b bs)
  then have "from_be bs + 1 \<le> 256 ^ length bs" "int b < 256" "0 \<le> from_be bs" by simp_all
  then have "(from_be bs + 1) * 256 \<le> 256 ^ length bs * 256" by (intro mult_right_mono) simp_all
  with \<open>int b < 256\<close> \<open>0 \<le> from_be bs\<close> show ?case by (simp add: from_be_append)
qed (simp add: from_be_def)

lemma account_name_valid: "valid_name (account_name s)"
proof -
  let ?s = "base64m_decode (normalize_to_base64m (pad4 s))"
  let ?bs = "take name_bytes ?s @ replicate (name_bytes - length (take name_bytes ?s)) 0"
  have "account_name s = from_be ?bs"
    by (auto simp: account_name_def fixed_string_of_def Let_def min_def)
  moreover have "\<forall>b \<in> set ?bs. b < 256"
    by (auto simp: base64m_decode_def dest!: in_set_takeD decode_chunks_bytes)
  moreover have "length ?bs = 24" by (simp add: name_bytes_def)
  ultimately show ?thesis using from_be_bounds [of ?bs] unfolding valid_name_def by metis
qed

lemma fixed_string_of_filled:
  assumes "\<forall>c \<in> set t. is_base64m c" "t @ replicate k (CHR ''A'') = base64m_encode bs" "length bs = 24" "\<forall>b \<in> set bs. b < 256"
  shows "account_name t = from_be bs"
proof -
  define p where "p = pad4 t"
  have len: "length t + k = 32" using arg_cong [OF assms(2), of length] by (simp add: encode_length assms(3))
  then have p4: "length p mod 4 = 0" "length p \<le> 32" using pad4_length pad4_le by (simp_all add: p_def)
  have pc: "\<forall>c \<in> set p. is_base64m c" unfolding p_def using assms(1) by (rule pad4_chars)
  have e: "base64m_encode bs = p @ replicate (32 - length p) (CHR ''A'')"
    using len p4(2) by (simp add: assms(2) [symmetric] p_def pad4_def replicate_add [symmetric])
  have "bs = b64_decode_chunks (base64m_encode bs)"
    using decode_of_encode [OF assms(4)] decode_base64m_chars [of "base64m_encode bs"] encode_chars [OF assms(4)] assms(3)
    by simp
  also have "\<dots> = b64_decode_chunks p @ b64_decode_chunks (replicate (32 - length p) (CHR ''A''))"
    unfolding e by (rule decode_chunks_append [OF p4(1)])
  also have "b64_decode_chunks (replicate (32 - length p) (CHR ''A'')) = replicate (length (b64_decode_chunks (replicate (32 - length p) (CHR ''A'')))) 0"
    by (rule decode_fillers) simp
  finally have bs: "bs = b64_decode_chunks p @ replicate (24 - length (b64_decode_chunks p)) 0"
    using assms(3) by (metis length_append length_replicate add_diff_cancel_left')
  have "length (b64_decode_chunks p) \<le> 24" using p4 by (simp add: length_decode_chunks)
  then show ?thesis
    using bs by (simp add: account_name_def fixed_string_of_def Let_def normalize_id [OF pc] decode_base64m_chars [OF pc]
        name_bytes_def flip: p_def)
qed

text \<open>The text of a name gives the name back.\<close>

lemma account_name_text:
  assumes "valid_name n"
  shows "account_name (name_text n) = n"
proof -
  obtain k where k: "base64m_encode (to_be name_bytes n) = name_text n @ replicate k (CHR ''A'')"
    using dropWhile_eq_replicate [of "base64m_encode (to_be name_bytes n)" "CHR ''A''"] unfolding name_text_def by blast
  have "account_name (name_text n) = from_be (to_be name_bytes n)"
    using name_text_chars k by (intro fixed_string_of_filled) (auto simp: to_be_length to_be_bytes name_bytes_def)
  with assms show ?thesis by (simp add: from_be_to_be name_bytes_def valid_name_def)
qed

text \<open>On the wire the two last characters of the alphabet are those of plain base64.\<close>

lemma normalize_base64_inverse:
  assumes "\<forall>c \<in> set s. is_base64m c"
  shows "normalize_to_base64m (normalize_to_base64 s) = s"
  using assms base64m_special by (auto simp: normalize_to_base64m_def normalize_to_base64_def intro!: map_idI)

lemma account_name_normalized:
  assumes "\<forall>c \<in> set s. is_base64m c"
  shows "account_name (normalize_to_base64 s) = account_name s"
proof -
  have pad: "pad4 (normalize_to_base64 s) = normalize_to_base64 (pad4 s)" for s
    by (simp add: pad4_def normalize_to_base64_def)
  have "normalize_to_base64m (pad4 (normalize_to_base64 s)) = normalize_to_base64m (pad4 s)"
    using pad4_chars [OF assms] by (simp add: pad normalize_base64_inverse normalize_id)
  then show ?thesis by (simp add: account_name_def fixed_string_of_def)
qed

end
