(* ===== verification/Raw_Codec.thy ===== *)
theory Raw_Codec
  imports Safe_Int
begin

unbundle bit_operations_syntax

text \<open>
  The binary format of \<^verbatim>\<open>fc\<close> (\<^verbatim>\<open>libraries/fc/include/fc/io/raw.hpp\<close>, \<^verbatim>\<open>datastream.hpp\<close>, \<^verbatim>\<open>container/flat.hpp\<close>,
  \<^verbatim>\<open>static_variant.hpp\<close>): one pair \<^verbatim>\<open>pack\<close>/\<^verbatim>\<open>unpack\<close> per kind of type. A stream is the list of the bytes not read yet;
  \<^verbatim>\<open>unpack\<close> returns the value and the rest. Its argument \<open>d\<close> is the depth of nesting, which every overload compares with
  \<^verbatim>\<open>MAX_RECURSION_DEPTH\<close> and most increase. Containers are refused when their size in memory reaches
  \<^verbatim>\<open>MAX_ARRAY_ALLOC_SIZE\<close>; the size of an element is an argument, since it is the compiler's. The machine is little-endian.

  The locale \<open>codec\<close> is the contract of such a pair: what was packed is unpacked again, at any depth that leaves room for the
  nesting of the type, and whatever unpacking accepts is a well-formed value. It is proved here for the kinds of types, as
  rules from the contracts of the parts, and interpreted on the types of the protocol in \<open>Wire_Operations\<close> and \<open>Wire_Blocks\<close>.
\<close>

type_synonym bytes = "int list"

type_synonym 'a unpacker = "nat \<Rightarrow> bytes \<Rightarrow> ('a \<times> bytes) result"

section \<open>Streams\<close>

definition MAX_RECURSION_DEPTH :: nat where "MAX_RECURSION_DEPTH = 25"
definition MAX_ARRAY_ALLOC_SIZE :: int where "MAX_ARRAY_ALLOC_SIZE = 10485760"

definition check_depth :: "nat \<Rightarrow> 'a result \<Rightarrow> 'a result" where
  "check_depth d k = FC_ASSERT (d \<le> MAX_RECURSION_DEPTH) ''depth <= MAX_RECURSION_DEPTH'' k"

definition datastream_range_error :: error where "datastream_range_error = Out_of_range ''datastream''"

definition ds_read :: "nat \<Rightarrow> bytes \<Rightarrow> (bytes \<times> bytes) result" where
  "ds_read n s = (if n \<le> length s then Inr (take n s, drop n s) else Inl datastream_range_error)"

definition ds_get :: "bytes \<Rightarrow> (int \<times> bytes) result" where
  "ds_get s = (case s of [] \<Rightarrow> Inl datastream_range_error | b # rest \<Rightarrow> Inr (b, rest))"

text \<open>Reading one part and going on with the rest of the stream.\<close>

definition field :: "'a unpacker \<Rightarrow> nat \<Rightarrow> bytes \<Rightarrow> ('a \<Rightarrow> bytes \<Rightarrow> 'b result) \<Rightarrow> 'b result" where
  "field u d s k = ebind (u d s) (\<lambda>(x, rest). k x rest)"

section \<open>Numbers\<close>

fun le_bytes :: "nat \<Rightarrow> int \<Rightarrow> bytes" where
  "le_bytes 0 x = []"
| "le_bytes (Suc n) x = x mod 256 # le_bytes n (x div 256)"

fun from_le :: "bytes \<Rightarrow> int" where
  "from_le [] = 0"
| "from_le (b # bs) = b + 256 * from_le bs"

text \<open>A type that is no class: its bytes in memory. The generic \<^verbatim>\<open>unpack\<close> increases the depth before it dispatches. \<open>n\<close> is the
  width in bytes. Hashes, which have stream operators, take the same way.\<close>

definition pack_uint :: "nat \<Rightarrow> int \<Rightarrow> bytes" where
  "pack_uint n x = le_bytes n x"

definition unpack_uint :: "nat \<Rightarrow> int unpacker" where
  "unpack_uint n d s =
     check_depth d (check_depth (d + 1) (ebind (ds_read n s) (\<lambda>(b, rest). Inr (from_le b, rest))))"

definition pack_int64 :: "int \<Rightarrow> bytes" where
  "pack_int64 x = pack_uint 8 (x mod 2 ^ 64)"

definition unpack_int64 :: "int unpacker" where
  "unpack_int64 d s = field (unpack_uint 8) d s (\<lambda>v rest. Inr (if v < 2 ^ 63 then v else v - 2 ^ 64, rest))"

definition pack_safe :: "int \<Rightarrow> bytes" where
  "pack_safe x = pack_int64 x"

definition unpack_safe :: "int unpacker" where
  "unpack_safe d s = check_depth d (unpack_int64 (d + 1) s)"

definition pack_time_point_sec :: "int \<Rightarrow> bytes" where
  "pack_time_point_sec t = le_bytes 4 t"

definition unpack_time_point_sec :: "int unpacker" where
  "unpack_time_point_sec d s = check_depth d (ebind (ds_read 4 s) (\<lambda>(b, rest). Inr (from_le b, rest)))"

text \<open>\<^verbatim>\<open>fc::array\<close> of bytes. Arrays compare by \<^verbatim>\<open>memcmp\<close>, so the first byte is the highest digit of the number that stands for one.\<close>

definition pack_array :: "nat \<Rightarrow> int \<Rightarrow> bytes" where
  "pack_array n x = rev (le_bytes n x)"

definition unpack_array :: "nat \<Rightarrow> int unpacker" where
  "unpack_array n d s = check_depth d (ebind (ds_read n s) (\<lambda>(b, rest). Inr (from_le (rev b), rest)))"

text \<open>Seven bits in a byte, the lowest first, the highest bit set on all bytes but the last.\<close>

function pack_varint :: "int \<Rightarrow> bytes" where
  "pack_varint val =
     (let b = val AND 0x7f; val' = drop_bit 7 val in
      if val' > 0 then (b OR 0x80) # pack_varint val' else [b])"
  by pat_completeness auto
termination
  by (relation "measure nat") (auto simp: drop_bit_eq_div)

declare pack_varint.simps [simp del]

definition pack_unsigned_int :: "int \<Rightarrow> bytes" where
  "pack_unsigned_int v = pack_varint v"

text \<open>The loop of \<^verbatim>\<open>unpack\<close>: \<open>bits\<close> is \<^verbatim>\<open>by\<close>. From the sixth byte on the shift exceeds the width of the operand, which is undefined
  behaviour of the source.\<close>

fun unpack_varint :: "bytes \<Rightarrow> int \<Rightarrow> nat \<Rightarrow> (int \<times> bytes) result" where
  "unpack_varint [] v bits = Inl datastream_range_error"
| "unpack_varint (b # s) v bits =
     (if bits \<ge> 32 then Inl (Undefined_behaviour ''shift'')
      else let v' = v OR (push_bit bits (b AND 0x7f) mod 2 ^ 32) in
        if b AND 0x80 \<noteq> 0 then unpack_varint s v' (bits + 7) else Inr (v' mod 2 ^ 32, s))"

definition unpack_unsigned_int :: "int unpacker" where
  "unpack_unsigned_int d s = check_depth d (unpack_varint s 0 0)"

text \<open>Signed numbers in the same form after the zigzag transformation: the sign is the lowest bit.\<close>

definition pack_signed_int :: "int \<Rightarrow> bytes" where
  "pack_signed_int v = pack_varint (u32 (push_bit 1 v XOR drop_bit 31 v))"

definition int32_of :: "int \<Rightarrow> int" where
  "int32_of v = (if v mod 2 ^ 32 < 2 ^ 31 then v mod 2 ^ 32 else v mod 2 ^ 32 - 2 ^ 32)"

definition unpack_signed_int :: "int unpacker" where
  "unpack_signed_int d s =
     check_depth d (ebind (unpack_varint s 0 0) (\<lambda>(v, rest).
       Inr (int32_of (drop_bit 1 v XOR (u32 (NOT (v AND 1)) + 1)), rest)))"

section \<open>Booleans, text, optional values\<close>

definition pack_bool :: "bool \<Rightarrow> bytes" where
  "pack_bool b = pack_uint 1 (if b then 1 else 0)"

definition unpack_bool :: "bool unpacker" where
  "unpack_bool d s =
     check_depth d (field (unpack_uint 1) (d + 1) s (\<lambda>b rest. FC_ASSERT (b AND NOT 1 = 0) ''(b & ~1) == 0'' (Inr (b \<noteq> 0, rest))))"

definition pack_chars :: "nat list \<Rightarrow> bytes" where
  "pack_chars v = pack_unsigned_int (u32 (int (length v))) @ map int v"

definition unpack_chars :: "nat list unpacker" where
  "unpack_chars d s =
     check_depth d (field unpack_unsigned_int (d + 1) s (\<lambda>size rest.
       FC_ASSERT (size < MAX_ARRAY_ALLOC_SIZE) ''size.value < MAX_ARRAY_ALLOC_SIZE''
         (ebind (ds_read (nat size) rest) (\<lambda>(b, rest'). Inr (map nat b, rest')))))"

definition pack_string :: "string \<Rightarrow> bytes" where
  "pack_string v = pack_unsigned_int (u32 (int (length v))) @ map of_char v"

definition unpack_string :: "string unpacker" where
  "unpack_string d s = check_depth d (field unpack_chars (d + 1) s (\<lambda>tmp rest. Inr (map char_of tmp, rest)))"

definition pack_optional :: "('a \<Rightarrow> bytes) \<Rightarrow> 'a option \<Rightarrow> bytes" where
  "pack_optional p v = (case v of None \<Rightarrow> pack_bool False | Some x \<Rightarrow> pack_bool True @ p x)"

definition unpack_optional :: "'a unpacker \<Rightarrow> 'a option unpacker" where
  "unpack_optional u d s =
     check_depth d (field unpack_bool (d + 1) s (\<lambda>b rest.
       if b then field u (d + 1) rest (\<lambda>x rest'. Inr (Some x, rest')) else Inr (None, rest)))"

section \<open>Containers\<close>

definition pack_pair :: "('a \<Rightarrow> bytes) \<Rightarrow> ('b \<Rightarrow> bytes) \<Rightarrow> 'a \<times> 'b \<Rightarrow> bytes" where
  "pack_pair p q v = p (fst v) @ q (snd v)"

definition unpack_pair :: "'a unpacker \<Rightarrow> 'b unpacker \<Rightarrow> ('a \<times> 'b) unpacker" where
  "unpack_pair u w d s = check_depth d (field u (d + 1) s (\<lambda>x rest. field w (d + 1) rest (\<lambda>y rest'. Inr ((x, y), rest'))))"

definition pack_container :: "('a \<Rightarrow> bytes) \<Rightarrow> 'a list \<Rightarrow> bytes" where
  "pack_container p xs = pack_unsigned_int (u32 (int (length xs))) @ concat (map p xs)"

text \<open>The loop over the elements; \<open>ins\<close> puts one into the container.\<close>

fun unpack_into :: "('c \<Rightarrow> 'a \<Rightarrow> 'c) \<Rightarrow> 'a unpacker \<Rightarrow> nat \<Rightarrow> 'c \<Rightarrow> 'c unpacker" where
  "unpack_into ins u 0 value d s = Inr (value, s)"
| "unpack_into ins u (Suc n) value d s = field u d s (\<lambda>x rest. unpack_into ins u n (ins value x) d rest)"

definition unpack_container :: "('a list \<Rightarrow> 'a \<Rightarrow> 'a list) \<Rightarrow> nat \<Rightarrow> 'a unpacker \<Rightarrow> 'a list unpacker" where
  "unpack_container ins elem_size u d s =
     check_depth d (field unpack_unsigned_int (d + 1) s (\<lambda>size rest.
       FC_ASSERT (size * int elem_size < MAX_ARRAY_ALLOC_SIZE) ''size.value*sizeof(T) < MAX_ARRAY_ALLOC_SIZE''
         (unpack_into ins u (nat size) [] (d + 1) rest)))"

definition push_back :: "'a list \<Rightarrow> 'a \<Rightarrow> 'a list" where "push_back xs x = xs @ [x]"

text \<open>\<^verbatim>\<open>insert\<close> of a \<^verbatim>\<open>flat_set\<close>, where elements compare by \<open>k\<close>, or of a \<^verbatim>\<open>flat_map\<close> with \<open>k = fst\<close>: an element that is there
  is kept.\<close>

fun flat_add :: "('a \<Rightarrow> 'k::linorder) \<Rightarrow> 'a list \<Rightarrow> 'a \<Rightarrow> 'a list" where
  "flat_add k [] x = [x]"
| "flat_add k (y # ys) x = (if k x < k y then x # y # ys else if k x = k y then y # ys else y # flat_add k ys x)"

abbreviation unpack_vector :: "nat \<Rightarrow> 'a unpacker \<Rightarrow> 'a list unpacker" where
  "unpack_vector \<equiv> unpack_container push_back"

abbreviation unpack_flat :: "('a \<Rightarrow> 'k::linorder) \<Rightarrow> nat \<Rightarrow> 'a unpacker \<Rightarrow> 'a list unpacker" where
  "unpack_flat k \<equiv> unpack_container (flat_add k)"

text \<open>A reflected structure: the visitor reads the members two levels deeper.\<close>

definition unpack_reflected :: "'a unpacker \<Rightarrow> 'a unpacker" where
  "unpack_reflected members d s = check_depth d (check_depth (d + 1) (members (d + 2) s))"

text \<open>A variant: the tag, then the alternative it names; \<open>alts\<close> lists the alternatives in order.\<close>

definition pack_variant :: "int \<Rightarrow> bytes \<Rightarrow> bytes" where
  "pack_variant which body = pack_unsigned_int which @ body"

definition unpack_variant :: "'a unpacker list \<Rightarrow> 'a unpacker" where
  "unpack_variant alts d s =
     check_depth d (field unpack_unsigned_int (d + 1) s (\<lambda>w rest.
       FC_ASSERT (w < int (length alts) \<and> w \<ge> 0) ''w < count() && w >= 0''
         (check_depth (d + 1) ((alts ! nat w) (d + 2) rest))))"

section \<open>Whole buffers\<close>

definition raw_pack_size :: "('a \<Rightarrow> bytes) \<Rightarrow> 'a \<Rightarrow> int" where
  "raw_pack_size p v = int (length (p v))"

text \<open>\<^verbatim>\<open>unpack_from_vector\<close> leaves the value as it was when the buffer is empty, and does not ask whether all of it was read.\<close>

definition unpack_from_vector :: "'a unpacker \<Rightarrow> bytes \<Rightarrow> 'a \<Rightarrow> nat \<Rightarrow> 'a result" where
  "unpack_from_vector u s tmp d =
     check_depth d (if s \<noteq> [] then ebind (u (d + 1) s) (\<lambda>(x, _). Inr x) else Inr tmp)"

section \<open>The contract\<close>

definition is_bytes :: "bytes \<Rightarrow> bool" where
  "is_bytes s \<longleftrightarrow> list_all (\<lambda>b. 0 \<le> b \<and> b < 256) s"

lemma is_bytes_simps [simp]:
  "is_bytes []" "is_bytes (b # s) \<longleftrightarrow> 0 \<le> b \<and> b < 256 \<and> is_bytes s" "is_bytes (s @ t) \<longleftrightarrow> is_bytes s \<and> is_bytes t"
  "is_bytes (rev s) \<longleftrightarrow> is_bytes s"
  by (auto simp: is_bytes_def list_all_iff)

lemma is_bytes_take_drop: "is_bytes s \<Longrightarrow> is_bytes (take n s)" "is_bytes s \<Longrightarrow> is_bytes (drop n s)"
  by (auto simp: is_bytes_def list_all_iff dest: in_set_takeD in_set_dropD)

locale codec =
  fixes pack :: "'a \<Rightarrow> bytes" and unpack :: "'a unpacker" and valid :: "'a \<Rightarrow> bool" and height :: nat
  assumes unpack_pack: "\<lbrakk>valid x; d + height \<le> MAX_RECURSION_DEPTH\<rbrakk> \<Longrightarrow> unpack d (pack x @ rest) = Inr (x, rest)"
    and unpack_valid: "\<lbrakk>is_bytes s; unpack d s = Inr (x, rest)\<rbrakk> \<Longrightarrow> valid x \<and> is_bytes rest"
begin

lemma field_pack:
  "\<lbrakk>valid x; d + height \<le> MAX_RECURSION_DEPTH\<rbrakk> \<Longrightarrow> field unpack d (pack x @ rest) k = k x rest"
  by (simp add: field_def unpack_pack)

lemma field_valid:
  assumes "field unpack d s k = Inr r" "is_bytes s"
  obtains x rest where "unpack d s = Inr (x, rest)" "valid x" "is_bytes rest" "k x rest = Inr r"
proof -
  from assms(1) obtain x rest where "unpack d s = Inr (x, rest)" "k x rest = Inr r" by (auto simp: field_def ebind_eq_Inr)
  with unpack_valid [OF assms(2)] that show thesis by blast
qed

text \<open>No encoding is a prefix of another one.\<close>

lemma prefix_free:
  assumes "valid x" "valid y" "height \<le> MAX_RECURSION_DEPTH" "pack x @ s = pack y @ t"
  shows "x = y \<and> s = t"
proof -
  have "unpack 0 (pack x @ s) = Inr (x, s)" "unpack 0 (pack y @ t) = Inr (y, t)"
    using assms(1-3) by (simp_all add: unpack_pack)
  then show ?thesis unfolding assms(4) by simp
qed

end

lemma codec_height: "codec p u v h \<Longrightarrow> h = k \<Longrightarrow> codec p u v k"
  by simp

lemma check_depth_ok [simp]: "d \<le> MAX_RECURSION_DEPTH \<Longrightarrow> check_depth d k = k"
  by (simp add: check_depth_def)

lemma check_depth_Inr [result_simps]: "check_depth d k = Inr r \<longleftrightarrow> d \<le> MAX_RECURSION_DEPTH \<and> k = Inr r"
  by (simp add: check_depth_def FC_ASSERT_eq_Inr)

lemma ds_read_Inr [result_simps]: "ds_read n s = Inr r \<longleftrightarrow> n \<le> length s \<and> r = (take n s, drop n s)"
  by (auto simp: ds_read_def)

lemma ds_read_append: "n = length b \<Longrightarrow> ds_read n (b @ rest) = Inr (b, rest)"
  by (simp add: ds_read_def)

section \<open>Numbers are read back\<close>

lemma length_le_bytes [simp]: "length (le_bytes n x) = n"
  by (induction n arbitrary: x) simp_all

lemma from_le_bytes: "from_le (le_bytes n x) = x mod 256 ^ n"
proof (induction n arbitrary: x)
  case (Suc n)
  have "x mod (256 * 256 ^ n) = 256 * (x div 256 mod 256 ^ n) + x mod 256" by (rule zmod_zmult2_eq) simp
  then show ?case using Suc.IH [of "x div 256"] by simp
qed simp

lemma from_le_bounds: "is_bytes s \<Longrightarrow> 0 \<le> from_le s \<and> from_le s < 256 ^ length s"
proof (induction s)
  case (Cons b s)
  then have "from_le s + 1 \<le> 256 ^ length s" "0 \<le> from_le s" "0 \<le> b" "b < 256" by simp_all
  then have "256 * (from_le s + 1) \<le> 256 * 256 ^ length s" "0 \<le> b" "b < 256" "0 \<le> from_le s" by simp_all
  then show ?case by simp
qed simp

definition valid_uint :: "nat \<Rightarrow> int \<Rightarrow> bool" where
  "valid_uint n x \<longleftrightarrow> 0 \<le> x \<and> x < 256 ^ n"

lemma valid_uint_read: "is_bytes s \<Longrightarrow> n \<le> length s \<Longrightarrow> valid_uint n (from_le (take n s))"
  using from_le_bounds [of "take n s"] is_bytes_take_drop(1) [of s n] by (simp add: valid_uint_def min_absorb2)

lemma uint_codec: "codec (pack_uint n) (unpack_uint n) (valid_uint n) 1"
proof
  show "unpack_uint n d (pack_uint n x @ rest) = Inr (x, rest)" if "valid_uint n x" "d + 1 \<le> MAX_RECURSION_DEPTH" for x d rest
    using that by (simp add: pack_uint_def unpack_uint_def ds_read_append from_le_bytes valid_uint_def)
  show "valid_uint n x \<and> is_bytes rest" if "is_bytes s" "unpack_uint n d s = Inr (x, rest)" for s d x rest
    using that by (auto simp: unpack_uint_def result_simps is_bytes_take_drop valid_uint_read)
qed

lemma time_point_sec_codec: "codec pack_time_point_sec unpack_time_point_sec (valid_uint 4) 0"
proof
  show "unpack_time_point_sec d (pack_time_point_sec x @ rest) = Inr (x, rest)"
    if "valid_uint 4 x" "d + 0 \<le> MAX_RECURSION_DEPTH" for x d rest
    using that by (simp add: pack_time_point_sec_def unpack_time_point_sec_def ds_read_append from_le_bytes valid_uint_def)
  show "valid_uint 4 x \<and> is_bytes rest" if "is_bytes s" "unpack_time_point_sec d s = Inr (x, rest)" for s d x rest
    using that by (auto simp: unpack_time_point_sec_def result_simps is_bytes_take_drop valid_uint_read)
qed

lemma array_codec: "codec (pack_array n) (unpack_array n) (valid_uint n) 0"
proof
  fix x d rest
  assume "valid_uint n x" "d + 0 \<le> MAX_RECURSION_DEPTH"
  then show "unpack_array n d (pack_array n x @ rest) = Inr (x, rest)"
    by (simp add: pack_array_def unpack_array_def ds_read_append from_le_bytes valid_uint_def)
next
  fix s d x rest
  assume "is_bytes s" "unpack_array n d s = Inr (x, rest)"
  then have "n \<le> length s" "x = from_le (rev (take n s))" "rest = drop n s" "is_bytes (rev (take n s))"
    by (auto simp: unpack_array_def result_simps is_bytes_take_drop)
  then show "valid_uint n x \<and> is_bytes rest"
    using from_le_bounds [of "rev (take n s)"] is_bytes_take_drop(2) [OF \<open>is_bytes s\<close>, of n]
    by (simp add: valid_uint_def min_absorb2)
qed

definition valid_int64 :: "int \<Rightarrow> bool" where
  "valid_int64 x \<longleftrightarrow> - (2 ^ 63) \<le> x \<and> x < 2 ^ 63"

lemma int64_codec: "codec pack_int64 unpack_int64 valid_int64 1"
proof
  fix x d rest
  assume "valid_int64 x" "d + 1 \<le> MAX_RECURSION_DEPTH"
  moreover have "valid_uint 8 (x mod 2 ^ 64)" by (simp add: valid_uint_def)
  moreover have "x mod 18446744073709551616 = (if x < 0 then x + 18446744073709551616 else x)" if "valid_int64 x"
    using that mod_pos_pos_trivial [of x 18446744073709551616] mod_pos_pos_trivial [of "x + 18446744073709551616" 18446744073709551616]
    by (auto simp: valid_int64_def)
  ultimately show "unpack_int64 d (pack_int64 x @ rest) = Inr (x, rest)"
    unfolding unpack_int64_def pack_int64_def
    by (subst codec.field_pack [OF uint_codec]) (simp_all add: valid_int64_def)
next
  fix s d x rest
  assume "is_bytes s" "unpack_int64 d s = Inr (x, rest)"
  then show "valid_int64 x \<and> is_bytes rest"
    unfolding unpack_int64_def
    by (elim codec.field_valid [OF uint_codec]) (auto simp: valid_uint_def valid_int64_def split: if_splits)
qed

lemma safe_codec: "codec pack_safe unpack_safe valid_int64 2"
  using codec.unpack_pack [OF int64_codec] codec.unpack_valid [OF int64_codec]
  by unfold_locales (auto simp: pack_safe_def unpack_safe_def result_simps)

section \<open>Variable length numbers are read back\<close>

lemma and_7f: "v AND 0x7f = v mod (128 :: int)"
  using take_bit_eq_mask [of 7 v] by (simp add: take_bit_eq_mod mask_eq_exp_minus_1)

lemma or_80: "0 \<le> b \<Longrightarrow> b < 128 \<Longrightarrow> b OR 0x80 = b + (128 :: int)"
proof -
  assume "0 \<le> b" "b < 128"
  then have "take_bit 7 b = b" by (simp add: take_bit_int_eq_self_iff)
  then have "\<not> (bit b k \<and> bit 128 k)" for k
    using bit_take_bit_iff [of 7 b k] bit_exp_iff [of 7 k] by (auto simp: bit_simps)
  then show ?thesis by (metis disjunctive_add)
qed

lemma pack_varint_arith:
  "0 \<le> v \<Longrightarrow> pack_varint v = (if v div 128 > 0 then (v mod 128 + 128) # pack_varint (v div 128) else [v])"
  by (subst pack_varint.simps) (auto simp: and_7f or_80 drop_bit_eq_div Let_def)

text \<open>The high bit and the low bits of a byte.\<close>

lemma byte_and_80: "0 \<le> b \<Longrightarrow> b < 256 \<Longrightarrow> b AND 0x80 \<noteq> 0 \<longleftrightarrow> 128 \<le> (b :: int)"
proof -
  assume b: "0 \<le> b" "b < 256"
  have "b AND 128 \<noteq> 0 \<longleftrightarrow> bit b 7" using and_exp_eq_0_iff_not_bit [of b 7] by simp
  also have "\<dots> \<longleftrightarrow> odd (b div 128)" by (simp add: bit_iff_odd)
  also have "b div 128 = (if b < 128 then 0 else 1)" using b div_pos_geq [of 128 b] by simp
  finally show ?thesis by simp
qed

lemma or_shifted: "0 \<le> v \<Longrightarrow> v < 2 ^ k \<Longrightarrow> v OR push_bit k w = v + w * (2 ^ k :: int)"
proof -
  assume "0 \<le> v" "v < 2 ^ k"
  then have "take_bit k v = v" by (simp add: take_bit_int_eq_self_iff)
  then have "v OR push_bit k w = v + push_bit k w"
    by (intro disjunctive_add [symmetric]) (metis bit_push_bit_iff bit_take_bit_iff not_le)
  then show ?thesis by (simp add: push_bit_eq_mult)
qed

lemma unpack_varint_pack:
  assumes "0 \<le> w" "w * 2 ^ k < 2 ^ 32" "0 \<le> v" "v < 2 ^ k" "k < 32"
  shows "unpack_varint (pack_varint w @ s) v k = Inr (v + w * 2 ^ k, s)"
  using assms
proof (induction "nat w" arbitrary: w v k rule: less_induct)
  case less
  let ?lo = "w mod 128"
  have lo: "?lo * 2 ^ k \<le> w * 2 ^ k" using less.prems(1) by (intro mult_right_mono) (auto simp: zmod_le_nonneg_dividend)
  have "push_bit k ?lo mod 2 ^ 32 = push_bit k ?lo"
    using le_less_trans [OF lo less.prems(2)] by (intro mod_pos_pos_trivial) (simp_all add: push_bit_eq_mult)
  then have sh: "v OR (push_bit k ?lo mod 2 ^ 32) = v + ?lo * 2 ^ k"
    using or_shifted [OF less.prems(3,4)] by (simp only:)
  show ?case
  proof (cases "w div 128 > 0")
    case False
    then have small: "w < 128" using less.prems(1) by presburger
    have "v + w * 2 ^ k < 2 ^ 32"
    proof (cases "w = 0")
      case True
      with less.prems(4,5) power_strict_increasing [of k 32 "2 :: int"] show ?thesis by simp
    next
      case False
      have "v + w * 2 ^ k < 2 ^ k * (w + 1)" using less.prems(4) by (simp add: algebra_simps)
      moreover have "2 ^ k * (w + 1) \<le> 2 ^ 32"
      proof -
        have "2 ^ k * w < 2 ^ k * 2 ^ (32 - k)" using less.prems(2,5) by (simp add: power_add [symmetric] mult.commute)
        then have "w < 2 ^ (32 - k)" by simp
        then have "2 ^ k * (w + 1) \<le> 2 ^ k * 2 ^ (32 - k)" by (intro mult_left_mono) simp_all
        then show ?thesis using less.prems(5) by (simp add: power_add [symmetric])
      qed
      ultimately show ?thesis by simp
    qed
    then show ?thesis
      using False less.prems sh small by (simp add: pack_varint_arith and_7f byte_and_80 Let_def)
  next
    case True
    let ?hi = "w div 128"
    have "w * 2 ^ k = (?hi * 128 + ?lo) * 2 ^ k" by simp
    then have split: "w * 2 ^ k = ?hi * 2 ^ (k + 7) + ?lo * 2 ^ k" by (simp only: power_add distrib_right) simp
    have "0 \<le> ?lo * 2 ^ k" by simp
    then have "?hi * 2 ^ (k + 7) < 2 ^ 32" using split less.prems(2) by linarith
    moreover have "(2 :: int) ^ (k + 7) \<le> ?hi * 2 ^ (k + 7)" using True by simp
    ultimately have k7: "(2 :: int) ^ (k + 7) < 2 ^ 32" by linarith
    then have "k + 7 < 32" using power_less_imp_less_exp [of "2 :: int" "k + 7" 32] by simp
    moreover have "v + ?lo * 2 ^ k < 2 ^ (k + 7)"
    proof -
      have "v + ?lo * 2 ^ k < 2 ^ k * (?lo + 1)" using less.prems(4) by (simp add: algebra_simps)
      also have "\<dots> \<le> 2 ^ k * 128" by (intro mult_left_mono) simp_all
      finally show ?thesis by (simp add: power_add)
    qed
    moreover have "nat ?hi < nat w" using True by (simp add: int_div_less_self)
    ultimately have "unpack_varint (pack_varint ?hi @ s) (v + ?lo * 2 ^ k) (k + 7) = Inr (v + ?lo * 2 ^ k + ?hi * 2 ^ (k + 7), s)"
      using less.hyps [of ?hi "k + 7" "v + ?lo * 2 ^ k"] \<open>?hi * 2 ^ (k + 7) < 2 ^ 32\<close> True less.prems by simp
    moreover have "(?lo + 128) AND 0x7f = ?lo" "(?lo + 128) AND 0x80 \<noteq> 0" using byte_and_80 [of "?lo + 128"] by (simp_all add: and_7f)
    then have "unpack_varint (pack_varint w @ s) v k = unpack_varint (pack_varint ?hi @ s) (v + ?lo * 2 ^ k) (k + 7)"
      using True less.prems(1,5) sh by (simp add: pack_varint_arith Let_def)
    ultimately show ?thesis unfolding split by (simp only: ac_simps)
  qed
qed

lemma unpack_varint_valid:
  "is_bytes s \<Longrightarrow> unpack_varint s v k = Inr (x, rest) \<Longrightarrow> valid_uint 4 x \<and> is_bytes rest"
  by (induction s v k rule: unpack_varint.induct) (auto simp: Let_def valid_uint_def split: if_splits)

lemma unsigned_int_codec: "codec pack_unsigned_int unpack_unsigned_int (valid_uint 4) 0"
proof
  fix x d rest
  assume "valid_uint 4 x" "d + 0 \<le> MAX_RECURSION_DEPTH"
  then show "unpack_unsigned_int d (pack_unsigned_int x @ rest) = Inr (x, rest)"
    using unpack_varint_pack [of x 0 0 rest] by (simp add: unpack_unsigned_int_def pack_unsigned_int_def valid_uint_def)
next
  fix s d x rest
  assume "is_bytes s" "unpack_unsigned_int d s = Inr (x, rest)"
  then show "valid_uint 4 x \<and> is_bytes rest" by (auto simp: unpack_unsigned_int_def result_simps dest: unpack_varint_valid)
qed

definition valid_int32 :: "int \<Rightarrow> bool" where
  "valid_int32 x \<longleftrightarrow> - (2 ^ 31) \<le> x \<and> x < 2 ^ 31"

lemma zigzag: "valid_int32 x \<Longrightarrow> u32 (push_bit 1 x XOR drop_bit 31 x) = (if x < 0 then - (2 * x) - 1 else 2 * x)"
proof -
  assume x: "valid_int32 x"
  have "drop_bit 31 x = (if x < 0 then - 1 else 0)"
  proof (cases "x < 0")
    case True
    then have "(x + 2147483648) div 2147483648 = 0" using x by (intro div_pos_pos_trivial) (simp_all add: valid_int32_def)
    then have "x div 2147483648 = - 1" by simp
    with True show ?thesis by (simp add: drop_bit_eq_div)
  qed (use x in \<open>simp add: drop_bit_eq_div valid_int32_def\<close>)
  then show ?thesis using x by (auto simp: push_bit_eq_mult u32_def valid_int32_def not_int_def mult.commute)
qed

lemma unzigzag:
  "0 \<le> k \<Longrightarrow> k < 2 ^ 31 \<Longrightarrow> int32_of (drop_bit 1 (2 * k) XOR (u32 (NOT ((2 * k) AND 1)) + 1)) = k"
  "0 \<le> k \<Longrightarrow> k < 2 ^ 31 \<Longrightarrow> int32_of (drop_bit 1 (2 * k + 1) XOR (u32 (NOT ((2 * k + 1) AND 1)) + 1)) = - k - 1"
proof -
  assume k: "0 \<le> k" "k < 2 ^ 31"
  have "int32_of (k XOR 2 ^ 32) = k"
    using k by (simp add: int32_of_def take_bit_xor take_bit_int_eq_self flip: take_bit_eq_mod [of 32, simplified])
  then show "int32_of (drop_bit 1 (2 * k) XOR (u32 (NOT ((2 * k) AND 1)) + 1)) = k"
    by (simp add: and_one_eq u32_def drop_bit_eq_div)
  have "take_bit 32 (k XOR mask 32) = take_bit 32 (NOT k)" by (rule bit_eqI) (auto simp: bit_simps)
  also have "\<dots> = 4294967295 - k"
    using k by (simp add: take_bit_eq_mod not_int_def mod_pos_pos_trivial [of "4294967295 - k"] flip: mod_add_self2 [of "- k - 1"])
  finally have "int32_of (k XOR mask 32) = - k - 1" using k by (simp add: int32_of_def take_bit_eq_mod)
  then show "int32_of (drop_bit 1 (2 * k + 1) XOR (u32 (NOT ((2 * k + 1) AND 1)) + 1)) = - k - 1"
    by (simp add: and_one_eq u32_def drop_bit_eq_div mask_eq_exp_minus_1 not_int_def)
qed

lemma signed_int_codec: "codec pack_signed_int unpack_signed_int valid_int32 0"
proof
  fix x d rest
  assume x: "valid_int32 x" and "d + 0 \<le> MAX_RECURSION_DEPTH"
  moreover define w where "w = u32 (push_bit 1 x XOR drop_bit 31 x)"
  moreover have "0 \<le> w" "w < 2 ^ 32" by (simp_all add: w_def u32_def)
  ultimately have "unpack_signed_int d (pack_signed_int x @ rest) = Inr (int32_of (drop_bit 1 w XOR (u32 (NOT (w AND 1)) + 1)), rest)"
    using unpack_varint_pack [of w 0 0 rest] by (simp add: unpack_signed_int_def pack_signed_int_def)
  also have "int32_of (drop_bit 1 w XOR (u32 (NOT (w AND 1)) + 1)) = x"
  proof (cases "x < 0")
    case True
    then have "w = 2 * (- x - 1) + 1" using zigzag [OF x] by (simp add: w_def)
    with unzigzag(2) [of "- x - 1"] True x show ?thesis by (simp only:) (simp add: valid_int32_def)
  next
    case False
    then have "w = 2 * x" using zigzag [OF x] by (simp add: w_def)
    with unzigzag(1) [of x] False x show ?thesis by (simp add: valid_int32_def)
  qed
  finally show "unpack_signed_int d (pack_signed_int x @ rest) = Inr (x, rest)" .
next
  fix s d x rest
  assume "is_bytes s" "unpack_signed_int d s = Inr (x, rest)"
  then obtain v w where "unpack_varint s 0 0 = Inr (v, rest)" "x = int32_of w" "is_bytes s"
    by (auto simp: unpack_signed_int_def result_simps)
  moreover have "0 \<le> w mod 4294967296" "w mod 4294967296 < 4294967296" by simp_all
  then have "valid_int32 (int32_of w)" unfolding valid_int32_def int32_of_def by (simp split: if_split) linarith
  ultimately show "valid_int32 x \<and> is_bytes rest" using unpack_varint_valid by blast
qed

section \<open>Booleans, text and optional values are read back\<close>

lemma bool_codec: "codec pack_bool unpack_bool (\<lambda>_. True) 2"
proof
  show "unpack_bool d (pack_bool x @ rest) = Inr (x, rest)" if "d + 2 \<le> MAX_RECURSION_DEPTH" for x d rest
    unfolding unpack_bool_def pack_bool_def using that
    by (subst codec.field_pack [OF uint_codec]) (auto simp: valid_uint_def)
  show "True \<and> is_bytes rest" if "is_bytes s" "unpack_bool d s = Inr (x, rest)" for s d x rest
    using that unfolding unpack_bool_def check_depth_Inr
    by (elim conjE codec.field_valid [OF uint_codec]) (auto simp: result_simps)
qed

definition valid_chars :: "nat list \<Rightarrow> bool" where
  "valid_chars v \<longleftrightarrow> int (length v) < MAX_ARRAY_ALLOC_SIZE \<and> list_all (\<lambda>b. b < 256) v"

lemma valid_size: "int n < MAX_ARRAY_ALLOC_SIZE \<Longrightarrow> valid_uint 4 (int n) \<and> u32 (int n) = int n"
  by (simp add: valid_uint_def u32_def MAX_ARRAY_ALLOC_SIZE_def)

lemma chars_codec: "codec pack_chars unpack_chars valid_chars 1"
proof
  show "unpack_chars d (pack_chars x @ rest) = Inr (x, rest)" if "valid_chars x" "d + 1 \<le> MAX_RECURSION_DEPTH" for x d rest
    using that valid_size [of "length x"] unfolding unpack_chars_def pack_chars_def valid_chars_def append_assoc
    by (subst codec.field_pack [OF unsigned_int_codec]) (simp_all add: ds_read_append comp_def)
  show "valid_chars x \<and> is_bytes rest" if "is_bytes s" "unpack_chars d s = Inr (x, rest)" for s d x rest
    using that unfolding unpack_chars_def check_depth_Inr
    by (elim conjE codec.field_valid [OF unsigned_int_codec])
      (auto simp: result_simps valid_chars_def valid_uint_def is_bytes_def list_all_iff nat_less_iff dest!: in_set_takeD in_set_dropD)
qed

definition valid_string :: "string \<Rightarrow> bool" where
  "valid_string v \<longleftrightarrow> int (length v) < MAX_ARRAY_ALLOC_SIZE"

lemma pack_string_chars: "pack_string v = pack_chars (map of_char v)"
  by (simp add: pack_string_def pack_chars_def of_nat_of_char)

lemma string_codec: "codec pack_string unpack_string valid_string 2"
proof
  show "unpack_string d (pack_string x @ rest) = Inr (x, rest)" if "valid_string x" "d + 2 \<le> MAX_RECURSION_DEPTH" for x d rest
    using that unfolding unpack_string_def pack_string_chars
    by (subst codec.field_pack [OF chars_codec]) (simp_all add: valid_string_def valid_chars_def list_all_iff comp_def)
  show "valid_string x \<and> is_bytes rest" if "is_bytes s" "unpack_string d s = Inr (x, rest)" for s d x rest
    using that unfolding unpack_string_def check_depth_Inr
    by (elim conjE codec.field_valid [OF chars_codec]) (auto simp: valid_string_def valid_chars_def)
qed

lemma optional_codec:
  assumes "codec p u v h"
  shows "codec (pack_optional p) (unpack_optional u) (\<lambda>x. case x of None \<Rightarrow> True | Some y \<Rightarrow> v y) (max 3 (h + 1))"
proof
  fix x d rest
  assume "case x of None \<Rightarrow> True | Some y \<Rightarrow> v y" "d + max 3 (h + 1) \<le> MAX_RECURSION_DEPTH"
  then show "unpack_optional u d (pack_optional p x @ rest) = Inr (x, rest)"
    by (cases x) (simp_all add: unpack_optional_def pack_optional_def codec.field_pack [OF bool_codec] codec.field_pack [OF assms])
next
  fix s d x rest
  assume "is_bytes s" "unpack_optional u d s = Inr (x, rest)"
  then show "(case x of None \<Rightarrow> True | Some y \<Rightarrow> v y) \<and> is_bytes rest"
    unfolding unpack_optional_def check_depth_Inr
    by (elim conjE codec.field_valid [OF bool_codec]) (auto split: if_splits elim!: codec.field_valid [OF assms])
qed

section \<open>Containers are read back\<close>

lemma pair_codec:
  assumes "codec p u v h" "codec q w z k"
  shows "codec (pack_pair p q) (unpack_pair u w) (\<lambda>x. v (fst x) \<and> z (snd x)) (max h k + 1)"
proof
  fix x d rest
  assume "v (fst x) \<and> z (snd x)" "d + (max h k + 1) \<le> MAX_RECURSION_DEPTH"
  then show "unpack_pair u w d (pack_pair p q x @ rest) = Inr (x, rest)"
    by (cases x) (simp add: unpack_pair_def pack_pair_def codec.field_pack [OF assms(1)] codec.field_pack [OF assms(2)])
next
  fix s d x rest
  assume "is_bytes s" "unpack_pair u w d s = Inr (x, rest)"
  then show "(v (fst x) \<and> z (snd x)) \<and> is_bytes rest"
    unfolding unpack_pair_def check_depth_Inr
    by (elim conjE codec.field_valid [OF assms(1)] codec.field_valid [OF assms(2)]) auto
qed

lemma unpack_into_pack:
  assumes "codec p u v h" "list_all v xs" "d + h \<le> MAX_RECURSION_DEPTH"
  shows "unpack_into ins u (length xs) c d (concat (map p xs) @ rest) = Inr (foldl ins c xs, rest)"
  using assms(2) by (induction xs arbitrary: c) (simp_all add: codec.field_pack [OF assms(1)] assms(3))

lemma unpack_into_valid:
  assumes "codec p u v h" "is_bytes s" "unpack_into ins u n c d s = Inr (x, rest)"
  shows "is_bytes rest \<and> (\<exists>xs. length xs = n \<and> list_all v xs \<and> x = foldl ins c xs)"
  using assms(2,3)
proof (induction n arbitrary: c s)
  case 0
  then show ?case by simp
next
  case (Suc n)
  from Suc.prems(2) have "field u d s (\<lambda>y t. unpack_into ins u n (ins c y) d t) = Inr (x, rest)" by simp
  then obtain y t where y: "v y" "is_bytes t" "unpack_into ins u n (ins c y) d t = Inr (x, rest)"
    using Suc.prems(1) by (elim codec.field_valid [OF assms(1)]) auto
  from Suc.IH [OF y(2,3)] obtain xs where "is_bytes rest" "length xs = n" "list_all v xs" "x = foldl ins (ins c y) xs" by blast
  with y(1) show ?case by (intro conjI exI [of _ "y # xs"]) simp_all
qed

text \<open>What a kind of container needs: inserting the elements of a well-formed one in order rebuilds it, and any insertions
  give a well-formed one that is not longer.\<close>

locale container =
  fixes ins :: "'a list \<Rightarrow> 'a \<Rightarrow> 'a list" and shape :: "'a list \<Rightarrow> bool"
  assumes rebuild: "shape xs \<Longrightarrow> foldl ins [] xs = xs"
    and shape_ins: "shape xs \<Longrightarrow> shape (ins xs x)"
    and shape_Nil: "shape []"
    and length_ins: "length (ins xs x) \<le> Suc (length xs)"
    and set_ins: "set (ins xs x) \<subseteq> insert x (set xs)"
begin

lemma inserted:
  "shape c \<Longrightarrow> shape (foldl ins c xs) \<and> length (foldl ins c xs) \<le> length c + length xs \<and> set (foldl ins c xs) \<subseteq> set c \<union> set xs"
proof (induction xs arbitrary: c)
  case (Cons x xs)
  from Cons.IH [OF shape_ins [OF Cons.prems], of x] length_ins [of c x] set_ins [of c x] show ?case
    by (simp add: subset_iff) (meson insertE le_trans add_le_mono1)
qed simp

end

interpretation vec: container push_back "\<lambda>_. True"
proof -
  have "foldl push_back c xs = c @ xs" for c xs :: "'a list" by (induction xs arbitrary: c) (simp_all add: push_back_def)
  then show "container (push_back :: 'a list \<Rightarrow> 'a \<Rightarrow> 'a list) (\<lambda>_. True)" by unfold_locales (auto simp: push_back_def)
qed

definition flat_sorted :: "('a \<Rightarrow> 'k::linorder) \<Rightarrow> 'a list \<Rightarrow> bool" where
  "flat_sorted k xs \<longleftrightarrow> sorted_wrt (\<lambda>x y. k x < k y) xs"

lemma set_flat_add: "set (flat_add k xs x) \<subseteq> insert x (set xs)"
  by (induction k xs x rule: flat_add.induct) auto

lemma flat_sorted_add: "flat_sorted k xs \<Longrightarrow> flat_sorted k (flat_add k xs x)"
proof (induction k xs x rule: flat_add.induct)
  case (2 k y ys x)
  with set_flat_add [of k ys x] show ?case by (fastforce simp: flat_sorted_def)
qed (simp add: flat_sorted_def)

lemma flat_add_last: "flat_sorted k (xs @ [x]) \<Longrightarrow> flat_add k xs x = xs @ [x]"
  by (induction k xs x rule: flat_add.induct) (auto simp: flat_sorted_def sorted_wrt_append)

interpretation flat: container "flat_add k" "flat_sorted k" for k
proof
  show "foldl (flat_add k) [] xs = xs" if "flat_sorted k xs" for xs
    using that
  proof (induction xs rule: rev_induct)
    case (snoc x xs)
    then have "flat_sorted k xs" by (simp add: flat_sorted_def sorted_wrt_append)
    with snoc flat_add_last show ?case by simp
  qed simp
  show "length (flat_add k xs x) \<le> Suc (length xs)" for xs x by (induction k xs x rule: flat_add.induct) auto
  show "set (flat_add k xs x) \<subseteq> insert x (set xs)" for xs x by (rule set_flat_add)
  show "flat_sorted k (flat_add k xs x)" if "flat_sorted k xs" for xs x using that by (rule flat_sorted_add)
qed (simp add: flat_sorted_def)

definition valid_container :: "('a list \<Rightarrow> bool) \<Rightarrow> nat \<Rightarrow> ('a \<Rightarrow> bool) \<Rightarrow> 'a list \<Rightarrow> bool" where
  "valid_container shape elem_size v xs \<longleftrightarrow>
     shape xs \<and> list_all v xs \<and> int (length xs) < 2 ^ 32 \<and> int (length xs) * int elem_size < MAX_ARRAY_ALLOC_SIZE"

lemma container_codec:
  assumes "codec p u v h" "container ins shape"
  shows "codec (pack_container p) (unpack_container ins n u) (valid_container shape n v) (h + 1)"
proof
  fix xs d rest
  assume "valid_container shape n v xs" and d: "d + (h + 1) \<le> MAX_RECURSION_DEPTH"
  then have xs: "shape xs" "list_all v xs" "int (length xs) < 2 ^ 32" "int (length xs) * int n < MAX_ARRAY_ALLOC_SIZE"
    by (simp_all add: valid_container_def)
  have "u32 (int (length xs)) = int (length xs)" "valid_uint 4 (int (length xs))"
    using xs(3) by (simp_all add: u32_def valid_uint_def)
  moreover have "unpack_into ins u (length xs) [] (d + 1) (concat (map p xs) @ rest) = Inr (xs, rest)"
    using unpack_into_pack [OF assms(1) xs(2), where ins = ins and c = "[]" and d = "d + 1"] d container.rebuild [OF assms(2) xs(1)] by simp
  ultimately show "unpack_container ins n u d (pack_container p xs @ rest) = Inr (xs, rest)"
    using d xs(4) by (simp add: unpack_container_def pack_container_def codec.field_pack [OF unsigned_int_codec])
next
  fix s d x rest
  assume "is_bytes s" "unpack_container ins n u d s = Inr (x, rest)"
  then obtain m t where m: "valid_uint 4 m" "m * int n < MAX_ARRAY_ALLOC_SIZE" "is_bytes t"
    and x: "unpack_into ins u (nat m) [] (d + 1) t = Inr (x, rest)"
    unfolding unpack_container_def check_depth_Inr
    by (elim conjE codec.field_valid [OF unsigned_int_codec]) (auto simp: result_simps)
  from unpack_into_valid [OF assms(1) m(3) x] obtain xs where
    xs: "is_bytes rest" "length xs = nat m" "list_all v xs" "x = foldl ins [] xs" by blast
  from container.inserted [OF assms(2) container.shape_Nil [OF assms(2)], of xs] xs(4)
  have ins: "shape x" "length x \<le> length xs" "set x \<subseteq> set xs" by simp_all
  have "int (length x) \<le> m" using ins(2) xs(2) m(1) by (simp add: valid_uint_def nat_le_iff le_nat_iff)
  then have "int (length x) * int n \<le> m * int n" "int (length x) < 2 ^ 32"
    using m(1) by (simp_all add: valid_uint_def mult_right_mono)
  with m(2) show "valid_container shape n v x \<and> is_bytes rest"
    using ins xs by (auto simp: valid_container_def list_all_iff)
qed

lemmas vector_codec = container_codec [OF _ vec.container_axioms]
lemmas flat_codec = container_codec [OF _ flat.container_axioms]

section \<open>Structures and variants\<close>

text \<open>A structure obeys the contract when the reading of its members does, two levels up.\<close>

lemma reflected_codec:
  assumes "codec p members v h"
  shows "codec p (unpack_reflected members) v (h + 2)"
  using codec.unpack_pack [OF assms] codec.unpack_valid [OF assms]
  by unfold_locales (auto simp: unpack_reflected_def result_simps)

lemma unpack_variant_pack:
  assumes "0 \<le> w" "nat w < length alts" "length alts < 2 ^ 32" "d + 1 \<le> MAX_RECURSION_DEPTH"
  shows "unpack_variant alts d (pack_variant w body @ rest) = (alts ! nat w) (d + 2) (body @ rest)"
  using assms by (simp add: unpack_variant_def pack_variant_def codec.field_pack [OF unsigned_int_codec] valid_uint_def nat_less_iff)

lemma unpack_variant_valid:
  assumes "unpack_variant alts d s = Inr (x, rest)" "is_bytes s"
  obtains i t where "i < length alts" "is_bytes t" "(alts ! i) (d + 2) t = Inr (x, rest)"
proof -
  from assms obtain w t where "valid_uint 4 w" "is_bytes t" "w < int (length alts)" "(alts ! nat w) (d + 2) t = Inr (x, rest)"
    unfolding unpack_variant_def check_depth_Inr
    by (elim conjE codec.field_valid [OF unsigned_int_codec]) (auto simp: result_simps)
  with that [of "nat w" t] show thesis by (simp add: valid_uint_def nat_less_iff)
qed

text \<open>The two laws for the members of a structure, for use in the proofs of a codec.\<close>

lemmas field_rules = codec.field_pack codec.field_valid

text \<open>An encoding is not the only one of its value: padding a number with zero bits is accepted as well, so the same transaction
  can arrive in different bytes.\<close>

lemma varint_not_canonical: "unpack_unsigned_int 0 [0x80, 0x00] = unpack_unsigned_int 0 (pack_unsigned_int 0)"
  by code_simp

end
