(* ===== verification/Wire_Types.thy ===== *)
theory Wire_Types
  imports Chain_Objects Account_Name Raw_Codec "HOL-Library.Char_ord" "HOL-Library.List_Lexorder"
begin

text \<open>
  The binary form of the basic types of the protocol: names (\<^verbatim>\<open>fixed_string.hpp\<close>), keys (\<^verbatim>\<open>types.hpp\<close>), assets, prices,
  authorities, chain properties and versions, in the order of their \<^verbatim>\<open>FC_REFLECT\<close> lines, each with the interpretation of
  the contract \<open>codec\<close> that shows that it is read back and that only well-formed values are read. The last section is what a node
  reads from the properties of a \<^verbatim>\<open>witness_set_properties_operation\<close>.
\<close>

named_theorems wire_pack \<open>reading a member of a structure from its encoding\<close>
named_theorems wire_elim \<open>what reading a member of a structure yields\<close>

lemmas [wire_pack] = codec.field_pack [OF uint_codec] codec.field_pack [OF int64_codec] codec.field_pack [OF safe_codec]
  codec.field_pack [OF time_point_sec_codec] codec.field_pack [OF array_codec] codec.field_pack [OF bool_codec]
  codec.field_pack [OF chars_codec] codec.field_pack [OF string_codec]

lemmas [wire_elim] = codec.field_valid [OF uint_codec] codec.field_valid [OF int64_codec] codec.field_valid [OF safe_codec]
  codec.field_valid [OF time_point_sec_codec] codec.field_valid [OF array_codec] codec.field_valid [OF bool_codec]
  codec.field_valid [OF chars_codec] codec.field_valid [OF string_codec]

section \<open>Sizes in memory\<close>

text \<open>The compiler decides how large an element of a container is; the format depends on it through the limit on allocations.\<close>

record abi =
  sizeof_account_name_type :: nat
  sizeof_public_key_type :: nat
  sizeof_asset_symbol_type :: nat
  sizeof_price :: nat
  sizeof_string :: nat
  sizeof_vector :: nat
  sizeof_static_variant :: nat
  sizeof_signature_type :: nat
  sizeof_signed_transaction :: nat

text \<open>The sizes on a 64-bit Linux machine.\<close>

definition x86_64 :: abi where
  "x86_64 = \<lparr>sizeof_account_name_type = 32, sizeof_public_key_type = 33, sizeof_asset_symbol_type = 8, sizeof_price = 32,
     sizeof_string = 32, sizeof_vector = 24, sizeof_static_variant = 16, sizeof_signature_type = 65,
     sizeof_signed_transaction = 88\<rparr>"

section \<open>Names and keys\<close>

definition pack_name :: "account_name_type \<Rightarrow> bytes" where
  "pack_name n = pack_string (normalize_to_base64 (name_text n))"

definition unpack_name :: "account_name_type unpacker" where
  "unpack_name d s = check_depth d (field unpack_string (d + 1) s (\<lambda>str rest. Inr (account_name str, rest)))"

lemma length_name_text: "length (name_text n) \<le> 32"
proof -
  obtain k where "base64m_encode (to_be name_bytes n) = name_text n @ replicate k (CHR ''A'')"
    using dropWhile_eq_replicate [of "base64m_encode (to_be name_bytes n)" "CHR ''A''"] unfolding name_text_def by blast
  then have "length (name_text n) \<le> length (base64m_encode (to_be name_bytes n))" by simp
  then show ?thesis by (simp add: encode_length to_be_length name_bytes_def)
qed

interpretation name: codec pack_name unpack_name valid_name 3
proof
  show "unpack_name d (pack_name x @ rest) = Inr (x, rest)" if "valid_name x" "d + 3 \<le> MAX_RECURSION_DEPTH" for x d rest
  proof -
    have "valid_string (normalize_to_base64 (name_text x))"
      using length_name_text [of x] by (simp add: valid_string_def normalize_to_base64_def MAX_ARRAY_ALLOC_SIZE_def)
    with that show ?thesis
      by (simp add: unpack_name_def pack_name_def wire_pack account_name_normalized name_text_chars account_name_text)
  qed
  show "valid_name x \<and> is_bytes rest" if "is_bytes s" "unpack_name d s = Inr (x, rest)" for s d x rest
    using that unfolding unpack_name_def check_depth_Inr by (elim conjE wire_elim) (auto simp: account_name_valid)
qed

declare name.field_pack [wire_pack] name.field_valid [wire_elim]

text \<open>A key is a structure with one member, the array of its 33 bytes.\<close>

definition pack_public_key :: "public_key_type \<Rightarrow> bytes" where "pack_public_key k = pack_array 33 k"

definition unpack_public_key :: "public_key_type unpacker" where
  "unpack_public_key = unpack_reflected (unpack_array 33)"

interpretation key: codec pack_public_key unpack_public_key "valid_uint 33" 2
  unfolding pack_public_key_def [abs_def] unpack_public_key_def
  by (rule codec_height [OF reflected_codec [OF array_codec [of 33]]]) simp

declare key.field_pack [wire_pack] key.field_valid [wire_elim]

section \<open>Assets and prices\<close>

text \<open>A symbol is a structure with one member.\<close>

definition pack_symbol :: "asset_symbol_type \<Rightarrow> bytes" where "pack_symbol v = pack_uint 8 (uint v)"

definition unpack_symbol :: "asset_symbol_type unpacker" where
  "unpack_symbol = unpack_reflected (\<lambda>d s. field (unpack_uint 8) d s (\<lambda>v s. Inr (word_of_int v, s)))"

interpretation symbol: codec pack_symbol unpack_symbol "\<lambda>_. True" 3
proof
  show "unpack_symbol d (pack_symbol x @ rest) = Inr (x, rest)" if "d + 3 \<le> MAX_RECURSION_DEPTH" for x d rest
    using that uint_lt2p [of x] by (simp add: unpack_symbol_def pack_symbol_def unpack_reflected_def wire_pack valid_uint_def)
  show "True \<and> is_bytes rest" if "is_bytes s" "unpack_symbol d s = Inr (x, rest)" for s d x rest
    using that unfolding unpack_symbol_def unpack_reflected_def check_depth_Inr by (elim conjE wire_elim) auto
qed

declare symbol.field_pack [wire_pack] symbol.field_valid [wire_elim]

definition pack_asset :: "asset \<Rightarrow> bytes" where
  "pack_asset x = pack_safe (amount x) @ pack_symbol (symbol x)"

definition unpack_asset :: "asset unpacker" where
  "unpack_asset = unpack_reflected (\<lambda>d s.
     field unpack_safe d s (\<lambda>v_amount s.
     field unpack_symbol d s (\<lambda>v_symbol s.
       Inr (\<lparr>amount = v_amount, symbol = v_symbol\<rparr>, s))))"

definition valid_asset :: "asset \<Rightarrow> bool" where
  "valid_asset x \<longleftrightarrow> valid_int64 (amount x)"

interpretation asset: codec pack_asset unpack_asset valid_asset 5
proof
  show "unpack_asset d (pack_asset x @ rest) = Inr (x, rest)" if "valid_asset x" "d + 5 \<le> MAX_RECURSION_DEPTH" for x d rest
    using that by (cases x) (simp add: pack_asset_def unpack_asset_def valid_asset_def unpack_reflected_def wire_pack)
  show "valid_asset x \<and> is_bytes rest" if "is_bytes s" "unpack_asset d s = Inr (x, rest)" for s d x rest
    using that unfolding unpack_asset_def unpack_reflected_def check_depth_Inr
    by (elim conjE wire_elim) (auto simp: valid_asset_def)
qed

declare asset.field_pack [wire_pack] asset.field_valid [wire_elim]

definition pack_price :: "price \<Rightarrow> bytes" where
  "pack_price x = pack_asset (base x) @ pack_asset (quote x)"

definition unpack_price :: "price unpacker" where
  "unpack_price = unpack_reflected (\<lambda>d s.
     field unpack_asset d s (\<lambda>v_base s.
     field unpack_asset d s (\<lambda>v_quote s.
       Inr (\<lparr>base = v_base, quote = v_quote\<rparr>, s))))"

definition valid_price :: "price \<Rightarrow> bool" where
  "valid_price x \<longleftrightarrow> valid_asset (base x) \<and> valid_asset (quote x)"

interpretation price: codec pack_price unpack_price valid_price 7
proof
  show "unpack_price d (pack_price x @ rest) = Inr (x, rest)" if "valid_price x" "d + 7 \<le> MAX_RECURSION_DEPTH" for x d rest
    using that by (cases x) (simp add: pack_price_def unpack_price_def valid_price_def unpack_reflected_def wire_pack)
  show "valid_price x \<and> is_bytes rest" if "is_bytes s" "unpack_price d s = Inr (x, rest)" for s d x rest
    using that unfolding unpack_price_def unpack_reflected_def check_depth_Inr
    by (elim conjE wire_elim) (auto simp: valid_price_def)
qed

declare price.field_pack [wire_pack] price.field_valid [wire_elim]

section \<open>Authorities\<close>

definition pack_account_auths :: "(account_name_type \<times> weight_type) list \<Rightarrow> bytes" where "pack_account_auths = pack_container (pack_pair pack_name (pack_uint 2))"

definition unpack_account_auths :: "abi \<Rightarrow> (account_name_type \<times> weight_type) list unpacker" where
  "unpack_account_auths a = unpack_flat fst (sizeof_account_name_type a + 2) (unpack_pair unpack_name (unpack_uint 2))"

definition valid_account_auths :: "abi \<Rightarrow> (account_name_type \<times> weight_type) list \<Rightarrow> bool" where
  "valid_account_auths a = valid_container (flat_sorted fst) (sizeof_account_name_type a + 2) (\<lambda>x. valid_name (fst x) \<and> valid_uint 2 (snd x))"

interpretation account_auths: codec pack_account_auths "unpack_account_auths a" "valid_account_auths a" 5 for a
  unfolding pack_account_auths_def unpack_account_auths_def valid_account_auths_def
  by (rule codec_height [OF flat_codec [OF pair_codec [OF name.codec_axioms uint_codec [of 2]]]]) simp

declare account_auths.field_pack [wire_pack] account_auths.field_valid [wire_elim]

definition pack_key_auths :: "(public_key_type \<times> weight_type) list \<Rightarrow> bytes" where "pack_key_auths = pack_container (pack_pair pack_public_key (pack_uint 2))"

definition unpack_key_auths :: "abi \<Rightarrow> (public_key_type \<times> weight_type) list unpacker" where
  "unpack_key_auths a = unpack_flat fst (sizeof_public_key_type a + 2) (unpack_pair unpack_public_key (unpack_uint 2))"

definition valid_key_auths :: "abi \<Rightarrow> (public_key_type \<times> weight_type) list \<Rightarrow> bool" where
  "valid_key_auths a = valid_container (flat_sorted fst) (sizeof_public_key_type a + 2) (\<lambda>x. valid_uint 33 (fst x) \<and> valid_uint 2 (snd x))"

interpretation key_auths: codec pack_key_auths "unpack_key_auths a" "valid_key_auths a" 4 for a
  unfolding pack_key_auths_def unpack_key_auths_def valid_key_auths_def
  by (rule codec_height [OF flat_codec [OF pair_codec [OF key.codec_axioms uint_codec [of 2]]]]) simp

declare key_auths.field_pack [wire_pack] key_auths.field_valid [wire_elim]

definition pack_authority :: "authority \<Rightarrow> bytes" where
  "pack_authority x = pack_uint 4 (weight_threshold x) @ pack_account_auths (account_auths x) @ pack_key_auths (key_auths x)"

definition unpack_authority :: "abi \<Rightarrow> authority unpacker" where
  "unpack_authority a = unpack_reflected (\<lambda>d s.
     field (unpack_uint 4) d s (\<lambda>v_weight_threshold s.
     field (unpack_account_auths a) d s (\<lambda>v_account_auths s.
     field (unpack_key_auths a) d s (\<lambda>v_key_auths s.
       Inr (\<lparr>weight_threshold = v_weight_threshold, account_auths = v_account_auths, key_auths = v_key_auths\<rparr>, s)))))"

definition valid_authority :: "abi \<Rightarrow> authority \<Rightarrow> bool" where
  "valid_authority a x \<longleftrightarrow> valid_uint 4 (weight_threshold x) \<and> valid_account_auths a (account_auths x) \<and> valid_key_auths a (key_auths x)"

interpretation authority: codec pack_authority "unpack_authority a" "valid_authority a" 7 for a
proof
  show "unpack_authority a d (pack_authority x @ rest) = Inr (x, rest)" if "valid_authority a x" "d + 7 \<le> MAX_RECURSION_DEPTH" for x d rest
    using that by (cases x) (simp add: pack_authority_def unpack_authority_def valid_authority_def unpack_reflected_def wire_pack)
  show "valid_authority a x \<and> is_bytes rest" if "is_bytes s" "unpack_authority a d s = Inr (x, rest)" for s d x rest
    using that unfolding unpack_authority_def unpack_reflected_def check_depth_Inr
    by (elim conjE wire_elim) (auto simp: valid_authority_def)
qed

declare authority.field_pack [wire_pack] authority.field_valid [wire_elim]

section \<open>Chain properties\<close>

definition pack_price_feeds :: "(asset_symbol_type \<times> price) list \<Rightarrow> bytes" where "pack_price_feeds = pack_container (pack_pair pack_symbol pack_price)"

definition unpack_price_feeds :: "abi \<Rightarrow> (asset_symbol_type \<times> price) list unpacker" where
  "unpack_price_feeds a = unpack_flat fst (sizeof_asset_symbol_type a + sizeof_price a) (unpack_pair unpack_symbol unpack_price)"

definition valid_price_feeds :: "abi \<Rightarrow> (asset_symbol_type \<times> price) list \<Rightarrow> bool" where
  "valid_price_feeds a = valid_container (flat_sorted fst) (sizeof_asset_symbol_type a + sizeof_price a) (\<lambda>x. valid_price (snd x))"

interpretation price_feeds: codec pack_price_feeds "unpack_price_feeds a" "valid_price_feeds a" 9 for a
  unfolding pack_price_feeds_def unpack_price_feeds_def valid_price_feeds_def
  by (rule codec_height [OF flat_codec [OF pair_codec [OF symbol.codec_axioms price.codec_axioms, simplified]]]) simp

declare price_feeds.field_pack [wire_pack] price_feeds.field_valid [wire_elim]

definition pack_chain_properties :: "chain_properties \<Rightarrow> bytes" where
  "pack_chain_properties x = pack_asset (account_creation_fee x) @ pack_uint 4 (maximum_block_size x) @ pack_price_feeds (price_feeds x)"

definition unpack_chain_properties :: "abi \<Rightarrow> chain_properties unpacker" where
  "unpack_chain_properties a = unpack_reflected (\<lambda>d s.
     field unpack_asset d s (\<lambda>v_account_creation_fee s.
     field (unpack_uint 4) d s (\<lambda>v_maximum_block_size s.
     field (unpack_price_feeds a) d s (\<lambda>v_price_feeds s.
       Inr (\<lparr>account_creation_fee = v_account_creation_fee, maximum_block_size = v_maximum_block_size, price_feeds = v_price_feeds\<rparr>, s)))))"

definition valid_chain_properties :: "abi \<Rightarrow> chain_properties \<Rightarrow> bool" where
  "valid_chain_properties a x \<longleftrightarrow> valid_asset (account_creation_fee x) \<and> valid_uint 4 (maximum_block_size x) \<and> valid_price_feeds a (price_feeds x)"

interpretation chain_properties: codec pack_chain_properties "unpack_chain_properties a" "valid_chain_properties a" 11 for a
proof
  show "unpack_chain_properties a d (pack_chain_properties x @ rest) = Inr (x, rest)" if "valid_chain_properties a x" "d + 11 \<le> MAX_RECURSION_DEPTH" for x d rest
    using that by (cases x) (simp add: pack_chain_properties_def unpack_chain_properties_def valid_chain_properties_def unpack_reflected_def wire_pack)
  show "valid_chain_properties a x \<and> is_bytes rest" if "is_bytes s" "unpack_chain_properties a d s = Inr (x, rest)" for s d x rest
    using that unfolding unpack_chain_properties_def unpack_reflected_def check_depth_Inr
    by (elim conjE wire_elim) (auto simp: valid_chain_properties_def)
qed

declare chain_properties.field_pack [wire_pack] chain_properties.field_valid [wire_elim]

section \<open>Values of witness properties\<close>

text \<open>The properties a witness sets are given as packed values. An empty value leaves the variable as it was: \<open>old\<close>. The
  variable for the block size in \<^verbatim>\<open>validate\<close> has no initial value; reading it is undefined behaviour.\<close>

definition prop_public_key :: "public_key_type \<Rightarrow> nat list \<Rightarrow> public_key_type result" where
  "prop_public_key old v = unpack_from_vector unpack_public_key (map int v) old 0"

definition prop_asset :: "asset \<Rightarrow> nat list \<Rightarrow> asset result" where
  "prop_asset old v = unpack_from_vector unpack_asset (map int v) old 0"

definition prop_uint32 :: "int \<Rightarrow> nat list \<Rightarrow> int result" where
  "prop_uint32 old v = unpack_from_vector (unpack_uint 4) (map int v) old 0"

definition prop_new_uint32 :: "nat list \<Rightarrow> int result" where
  "prop_new_uint32 v = (if v = [] then Inl (Undefined_behaviour ''uninitialised'') else prop_uint32 0 v)"

definition prop_prices :: "abi \<Rightarrow> nat list \<Rightarrow> price list result" where
  "prop_prices a v = unpack_from_vector (unpack_vector (sizeof_price a) unpack_price) (map int v) [] 0"

definition prop_string :: "nat list \<Rightarrow> string result" where
  "prop_string v = unpack_from_vector unpack_string (map int v) [] 0"

end
