(* ===== verification/Utf8.thy ===== *)
theory Utf8
  imports Version
begin

unbundle bit_operations_syntax

text \<open>
  The check of UTF-8 (\<^verbatim>\<open>fc/src/utf8.cpp\<close> on the library in \<^verbatim>\<open>fc/src/utf8\<close>), which validation of operations applies to memos, names
  and addresses. An iterator is the rest of the text it points at. The encoder of the same library is the reference: what the check
  accepts is exactly what the encoder writes, and pruning always ends in an acceptable text.
\<close>

section \<open>One sequence\<close>

type_synonym octet_list = "int list"

definition LEAD_SURROGATE_MIN :: int where "LEAD_SURROGATE_MIN = 0xd800"
definition TRAIL_SURROGATE_MAX :: int where "TRAIL_SURROGATE_MAX = 0xdfff"
definition CODE_POINT_MAX :: int where "CODE_POINT_MAX = 0x10ffff"

definition mask8 :: "int \<Rightarrow> int" where "mask8 oc = 0xff AND oc"

definition is_trail :: "int \<Rightarrow> bool" where "is_trail oc \<longleftrightarrow> drop_bit 6 (mask8 oc) = 0x2"

definition is_surrogate :: "int \<Rightarrow> bool" where
  "is_surrogate cp \<longleftrightarrow> cp \<ge> LEAD_SURROGATE_MIN \<and> cp \<le> TRAIL_SURROGATE_MAX"

definition is_code_point_valid :: "int \<Rightarrow> bool" where
  "is_code_point_valid cp \<longleftrightarrow> cp \<le> CODE_POINT_MAX \<and> \<not> is_surrogate cp"

definition sequence_length :: "int \<Rightarrow> nat" where
  "sequence_length oc =
     (let lead = mask8 oc in
      if lead < 0x80 then 1 else if drop_bit 5 lead = 0x6 then 2 else if drop_bit 4 lead = 0xe then 3
      else if drop_bit 3 lead = 0x1e then 4 else 0)"

definition is_overlong_sequence :: "int \<Rightarrow> nat \<Rightarrow> bool" where
  "is_overlong_sequence cp len =
     (if cp < 0x80 then len \<noteq> 1 else if cp < 0x800 then len \<noteq> 2 else if cp < 0x10000 then len \<noteq> 3 else False)"

datatype utf_error = NOT_ENOUGH_ROOM | INVALID_LEAD | INCOMPLETE_SEQUENCE | OVERLONG_SEQUENCE | INVALID_CODE_POINT

definition increase_safely :: "octet_list \<Rightarrow> (octet_list \<Rightarrow> utf_error + 'a) \<Rightarrow> utf_error + 'a" where
  "increase_safely it k =
     (case tl it of [] \<Rightarrow> Inl NOT_ENOUGH_ROOM | oc # _ \<Rightarrow> if is_trail oc then k (tl it) else Inl INCOMPLETE_SEQUENCE)"

definition get_sequence_1 :: "octet_list \<Rightarrow> utf_error + int \<times> octet_list" where
  "get_sequence_1 it = (if it = [] then Inl NOT_ENOUGH_ROOM else Inr (mask8 (hd it), it))"

definition get_sequence_2 :: "octet_list \<Rightarrow> utf_error + int \<times> octet_list" where
  "get_sequence_2 it =
     (if it = [] then Inl NOT_ENOUGH_ROOM
      else let cp = mask8 (hd it) in increase_safely it (\<lambda>it.
        Inr ((push_bit 6 cp AND 0x7ff) + (hd it AND 0x3f), it)))"

definition get_sequence_3 :: "octet_list \<Rightarrow> utf_error + int \<times> octet_list" where
  "get_sequence_3 it =
     (if it = [] then Inl NOT_ENOUGH_ROOM
      else let cp = mask8 (hd it) in increase_safely it (\<lambda>it.
        let cp = (push_bit 12 cp AND 0xffff) + (push_bit 6 (mask8 (hd it)) AND 0xfff) in increase_safely it (\<lambda>it.
        Inr (cp + (hd it AND 0x3f), it))))"

definition get_sequence_4 :: "octet_list \<Rightarrow> utf_error + int \<times> octet_list" where
  "get_sequence_4 it =
     (if it = [] then Inl NOT_ENOUGH_ROOM
      else let cp = mask8 (hd it) in increase_safely it (\<lambda>it.
        let cp = (push_bit 18 cp AND 0x1fffff) + (push_bit 12 (mask8 (hd it)) AND 0x3ffff) in increase_safely it (\<lambda>it.
        let cp = cp + (push_bit 6 (mask8 (hd it)) AND 0xfff) in increase_safely it (\<lambda>it.
        Inr (cp + (hd it AND 0x3f), it)))))"

definition get_sequence :: "nat \<Rightarrow> octet_list \<Rightarrow> utf_error + int \<times> octet_list" where
  "get_sequence len = (if len = 0 then (\<lambda>_. Inl INVALID_LEAD) else if len = 1 then get_sequence_1 else if len = 2 then get_sequence_2
     else if len = 3 then get_sequence_3 else get_sequence_4)"

text \<open>The code point and the iterator behind it; a failure leaves the iterator where it was.\<close>

definition validate_next :: "octet_list \<Rightarrow> utf_error + int \<times> octet_list" where
  "validate_next it =
     (let len = sequence_length (hd it)
      in case get_sequence len it of
           Inl e \<Rightarrow> Inl e
         | Inr (cp, it') \<Rightarrow>
             if is_code_point_valid cp then
               if \<not> is_overlong_sequence cp len then Inr (cp, tl it') else Inl OVERLONG_SEQUENCE
             else Inl INVALID_CODE_POINT)"

lemma increase_safely_Inr:
  "increase_safely it k = Inr r \<longleftrightarrow> (\<exists>oc rest. tl it = oc # rest \<and> is_trail oc \<and> k (oc # rest) = Inr r)"
  by (auto simp: increase_safely_def split: list.splits if_splits)

lemmas get_sequence_defs = get_sequence_1_def get_sequence_2_def get_sequence_3_def get_sequence_4_def

text \<open>Only the sequence itself is looked at.\<close>

definition reads :: "(octet_list \<Rightarrow> utf_error + int \<times> octet_list) \<Rightarrow> octet_list \<Rightarrow> int \<Rightarrow> bool" where
  "reads g w cp \<longleftrightarrow> (\<forall>x. g (w @ x) = Inr (cp, last w # x))"

lemma get_sequence_reads:
  "get_sequence_1 (c # it) = Inr (cp, it') \<Longrightarrow> \<exists>w. c # it = (c # w) @ tl it' \<and> reads get_sequence_1 (c # w) cp"
  "get_sequence_2 (c # it) = Inr (cp, it') \<Longrightarrow> \<exists>w. c # it = (c # w) @ tl it' \<and> reads get_sequence_2 (c # w) cp"
  "get_sequence_3 (c # it) = Inr (cp, it') \<Longrightarrow> \<exists>w. c # it = (c # w) @ tl it' \<and> reads get_sequence_3 (c # w) cp"
  "get_sequence_4 (c # it) = Inr (cp, it') \<Longrightarrow> \<exists>w. c # it = (c # w) @ tl it' \<and> reads get_sequence_4 (c # w) cp"
proof -
  show "\<exists>w. c # it = (c # w) @ tl it' \<and> reads get_sequence_1 (c # w) cp" if "get_sequence_1 (c # it) = Inr (cp, it')"
    using that by (auto simp: get_sequence_1_def reads_def intro!: exI [of _ "[]"])
  show "\<exists>w. c # it = (c # w) @ tl it' \<and> reads get_sequence_2 (c # w) cp" if g: "get_sequence_2 (c # it) = Inr (cp, it')"
  proof -
    from g obtain t r where "it = t # r" "is_trail t" by (auto simp: get_sequence_2_def increase_safely_Inr Let_def)
    then show ?thesis using g by (auto simp: get_sequence_2_def increase_safely_def reads_def Let_def intro!: exI [of _ "[t]"])
  qed
  show "\<exists>w. c # it = (c # w) @ tl it' \<and> reads get_sequence_3 (c # w) cp" if g: "get_sequence_3 (c # it) = Inr (cp, it')"
  proof -
    from g obtain t u r where "it = t # u # r" "is_trail t" "is_trail u" by (auto simp: get_sequence_3_def increase_safely_Inr Let_def)
    then show ?thesis using g by (auto simp: get_sequence_3_def increase_safely_def reads_def Let_def intro!: exI [of _ "[t, u]"])
  qed
  show "\<exists>w. c # it = (c # w) @ tl it' \<and> reads get_sequence_4 (c # w) cp" if g: "get_sequence_4 (c # it) = Inr (cp, it')"
  proof -
    from g obtain t u v r where "it = t # u # v # r" "is_trail t" "is_trail u" "is_trail v"
      by (auto simp: get_sequence_4_def increase_safely_Inr Let_def)
    then show ?thesis using g by (auto simp: get_sequence_4_def increase_safely_def reads_def Let_def intro!: exI [of _ "[t, u, v]"])
  qed
qed

lemma get_sequence_local:
  assumes "get_sequence n (c # it) = Inr (cp, it')"
  shows "\<exists>w. c # it = (c # w) @ tl it' \<and> reads (get_sequence n) (c # w) cp"
  using assms get_sequence_reads [of c it cp it'] unfolding get_sequence_def by (simp split: if_splits)

lemma validate_next_Inr:
  "validate_next it = Inr (cp, rest) \<longleftrightarrow> (\<exists>it'. get_sequence (sequence_length (hd it)) it = Inr (cp, it') \<and> is_code_point_valid cp \<and>
     \<not> is_overlong_sequence cp (sequence_length (hd it)) \<and> rest = tl it')"
  by (auto simp: validate_next_def Let_def split: sum.splits prod.splits if_splits)

lemma validate_next_local:
  assumes "validate_next it = Inr (cp, rest)" "it \<noteq> []"
  shows "\<exists>w. w \<noteq> [] \<and> it = w @ rest \<and> (\<forall>x. validate_next (w @ x) = Inr (cp, x))"
proof -
  obtain c r where it: "it = c # r" using assms(2) by (cases it) auto
  from assms(1) obtain it' where v: "get_sequence (sequence_length c) it = Inr (cp, it')" "is_code_point_valid cp"
      "\<not> is_overlong_sequence cp (sequence_length c)" "rest = tl it'"
    unfolding validate_next_Inr it by auto
  then obtain w where w: "c # r = (c # w) @ tl it'" "reads (get_sequence (sequence_length c)) (c # w) cp"
    using get_sequence_local unfolding it by blast
  have "validate_next ((c # w) @ x) = Inr (cp, x)" for x
    using w(2) v(2,3) unfolding validate_next_Inr reads_def by auto
  then show ?thesis using w(1) v(4) it by (metis list.distinct(1))
qed

lemma validate_next_shorter: "validate_next it = Inr (cp, rest) \<Longrightarrow> it \<noteq> [] \<Longrightarrow> length rest < length it"
  by (drule (1) validate_next_local) auto

section \<open>Texts\<close>

function find_invalid :: "octet_list \<Rightarrow> octet_list" where
  "find_invalid it =
     (if it = [] then [] else case validate_next it of Inl _ \<Rightarrow> it | Inr (_, rest) \<Rightarrow> find_invalid rest)"
  by pat_completeness auto
termination
  by (relation "measure length") (use validate_next_shorter in auto)

declare find_invalid.simps [simp del]

definition octets_of :: "string \<Rightarrow> octet_list" where "octets_of s = map of_char s"

definition is_utf8 :: "string \<Rightarrow> bool" where "is_utf8 s \<longleftrightarrow> find_invalid (octets_of s) = []"

text \<open>What the iterators enclose.\<close>

definition span :: "octet_list \<Rightarrow> octet_list \<Rightarrow> octet_list" where "span start finish = take (length start - length finish) start"

lemma find_invalid_split: "\<exists>u. s = u @ find_invalid s \<and> (\<forall>x. find_invalid (u @ x) = find_invalid x)"
proof (induction s rule: find_invalid.induct)
  case (1 it)
  show ?case
  proof (cases "it = [] \<or> (\<exists>e. validate_next it = Inl e)")
    case True
    then have "it = [] @ find_invalid it" by (subst find_invalid.simps) auto
    then show ?thesis by (metis append_Nil)
  next
    case False
    then obtain cp rest where v: "it \<noteq> []" "validate_next it = Inr (cp, rest)" by (cases "validate_next it") auto
    obtain u where u: "rest = u @ find_invalid rest" "\<And>x. find_invalid (u @ x) = find_invalid x"
      using "1.IH" [of "(cp, rest)" cp rest] v by auto
    from validate_next_local [OF v(2,1)] obtain w
      where w: "w \<noteq> []" "it = w @ rest" "\<And>x. validate_next (w @ x) = Inr (cp, x)" by auto
    have "find_invalid it = find_invalid rest" using v by (subst find_invalid.simps) simp
    moreover have "find_invalid ((w @ u) @ x) = find_invalid x" for x
      using w(1) w(3) [of "u @ x"] u(2) [of x] by (subst find_invalid.simps) simp
    moreover have "it = (w @ u) @ find_invalid rest" using u(1) w(2) by simp
    ultimately show ?thesis by metis
  qed
qed

lemma find_invalid_length: "length (find_invalid s) \<le> length s"
  using find_invalid_split [of s] by (metis add_leE le_refl length_append)

lemma find_invalid_tl: "it \<noteq> [] \<Longrightarrow> length (find_invalid (tl it)) < length it"
  using find_invalid_length [of "tl it"] by (cases it) auto

function prune_loop :: "octet_list \<Rightarrow> octet_list" where
  "prune_loop itr =
     (if itr = [] then [] else let start = tl itr; next = find_invalid start in span start next @ prune_loop next)"
  by pat_completeness auto
termination
  by (relation "measure length") (use find_invalid_tl in auto)

declare prune_loop.simps [simp del]

definition prune_invalid_utf8 :: "octet_list \<Rightarrow> octet_list" where
  "prune_invalid_utf8 str =
     (let itr = find_invalid str in if itr = [] then str else span str itr @ prune_loop itr)"

section \<open>Encoding and decoding\<close>

definition utf8_append :: "int \<Rightarrow> octet_list result" where
  "utf8_append cp =
     (if \<not> is_code_point_valid cp then Inl (Runtime_error ''Invalid code point'')
      else if cp < 0x80 then Inr [cp]
      else if cp < 0x800 then Inr [drop_bit 6 cp OR 0xc0, (cp AND 0x3f) OR 0x80]
      else if cp < 0x10000 then Inr [drop_bit 12 cp OR 0xe0, (drop_bit 6 cp AND 0x3f) OR 0x80, (cp AND 0x3f) OR 0x80]
      else Inr [drop_bit 18 cp OR 0xf0, (drop_bit 12 cp AND 0x3f) OR 0x80, (drop_bit 6 cp AND 0x3f) OR 0x80, (cp AND 0x3f) OR 0x80])"

fun encodeUtf8 :: "int list \<Rightarrow> octet_list result" where
  "encodeUtf8 [] = Inr []"
| "encodeUtf8 (cp # cps) = ebind (utf8_append cp) (\<lambda>bs. ebind (encodeUtf8 cps) (\<lambda>rest. Inr (bs @ rest)))"

definition utf8_exception :: "utf_error \<Rightarrow> error" where
  "utf8_exception e = (case e of NOT_ENOUGH_ROOM \<Rightarrow> Runtime_error ''Not enough space''
     | INVALID_CODE_POINT \<Rightarrow> Runtime_error ''Invalid code point'' | _ \<Rightarrow> Runtime_error ''Invalid UTF-8'')"

function decodeUtf8 :: "octet_list \<Rightarrow> int list result" where
  "decodeUtf8 it =
     (if it = [] then Inr []
      else case validate_next it of
             Inl e \<Rightarrow> Inl (utf8_exception e)
           | Inr (cp, rest) \<Rightarrow> ebind (decodeUtf8 rest) (\<lambda>cps. Inr (cp # cps)))"
  by pat_completeness auto
termination
  by (relation "measure length") (use validate_next_shorter in auto)

declare decodeUtf8.simps [simp del]

section \<open>Arithmetic of the sequences\<close>

definition is_octet :: "int \<Rightarrow> bool" where "is_octet b \<longleftrightarrow> 0 \<le> b \<and> b < 256"

lemma and_low: "x AND (2 ^ n - 1) = x mod 2 ^ n" for x :: int
  using take_bit_eq_mask [of n x] by (simp add: take_bit_eq_mod mask_eq_exp_minus_1)

lemma low_bits:
  fixes x :: int
  shows "0xff AND x = x mod 256" "x AND 0x3f = x mod 64" "x AND 0x7ff = x mod 2048" "x AND 0xfff = x mod 4096"
    "x AND 0xffff = x mod 65536" "x AND 0x3ffff = x mod 262144" "x AND 0x1fffff = x mod 2097152"
proof -
  show "0xff AND x = x mod 256" using and_low [of x 8] by (simp add: and.commute)
  show "x AND 0x3f = x mod 64" using and_low [of x 6] by simp
  show "x AND 0x7ff = x mod 2048" using and_low [of x 11] by simp
  show "x AND 0xfff = x mod 4096" using and_low [of x 12] by simp
  show "x AND 0xffff = x mod 65536" using and_low [of x 16] by simp
  show "x AND 0x3ffff = x mod 262144" using and_low [of x 18] by simp
  show "x AND 0x1fffff = x mod 2097152" using and_low [of x 21] by simp
qed

lemma div_64:
  fixes x :: int
  shows "x div 4096 = x div 64 div 64" "x div 262144 = x div 64 div 64 div 64"
proof -
  have "(4096 :: int) = 64 * 64" "(262144 :: int) = 64 * 64 * 64" by simp_all
  moreover have "0 \<le> (64 :: int)" by simp
  ultimately show "x div 4096 = x div 64 div 64" "x div 262144 = x div 64 div 64 div 64" by (simp_all only: zdiv_zmult2_eq)
qed

lemma drop_bits: "drop_bit 6 x = x div 64" "drop_bit 12 x = x div 4096" "drop_bit 18 x = x div 262144" for x :: int
  by (simp_all add: drop_bit_eq_div)

lemma high_bits:
  "0 \<le> a \<Longrightarrow> a < 64 \<Longrightarrow> a OR 0x80 = a + 128" "0 \<le> a \<Longrightarrow> a < 64 \<Longrightarrow> a OR 0xc0 = a + 192"
  "0 \<le> a \<Longrightarrow> a < 32 \<Longrightarrow> a OR 0xe0 = a + 224" "0 \<le> a \<Longrightarrow> a < 16 \<Longrightarrow> a OR 0xf0 = a + 240" for a :: int
  using or_low_add [of a 6 2] or_low_add [of a 6 3] or_low_add [of a 5 7] or_low_add [of a 4 15]
  by (simp_all add: or.commute)

lemma mod_shift: "0 \<le> x - k * m \<Longrightarrow> x - k * m < m \<Longrightarrow> x mod m = x - k * m" for x m k :: int
  using mod_mult_self1 [of "x - k * m" k m] by simp

lemma is_trail_iff: "is_octet b \<Longrightarrow> is_trail b \<longleftrightarrow> 128 \<le> b \<and> b < 192"
  by (auto simp: is_trail_def is_octet_def mask8_def low_bits drop_bit_eq_div)

lemma sequence_length_iff:
  assumes "is_octet b"
  shows "sequence_length b = 1 \<longleftrightarrow> b < 128" "sequence_length b = 2 \<longleftrightarrow> 192 \<le> b \<and> b < 224"
    "sequence_length b = 3 \<longleftrightarrow> 224 \<le> b \<and> b < 240" "sequence_length b = 4 \<longleftrightarrow> 240 \<le> b \<and> b < 248"
    "sequence_length b \<in> {0, 1, 2, 3, 4}"
  using assms by (auto simp: sequence_length_def is_octet_def mask8_def low_bits drop_bit_eq_div Let_def)

lemma trail_bits:
  assumes "128 \<le> t" "t < 192"
  shows "increase_safely (x # t # rest) k = k (t # rest)" "t AND 0x3f = t - 128"
    "push_bit 6 (mask8 t) AND 0xfff = (t - 128) * 64" "push_bit 12 (mask8 t) AND 0x3ffff = (t - 128) * 4096"
proof -
  have mask: "mask8 t = t" using assms by (simp add: mask8_def low_bits)
  show "increase_safely (x # t # rest) k = k (t # rest)" using assms is_trail_iff [of t] by (simp add: increase_safely_def is_octet_def)
  show "t AND 0x3f = t - 128" using assms mod_shift [of t 2 64] by (simp add: low_bits)
  show "push_bit 6 (mask8 t) AND 0xfff = (t - 128) * 64" using assms mod_shift [of "t * 64" 2 4096] by (simp add: mask low_bits push_bit_eq_mult)
  show "push_bit 12 (mask8 t) AND 0x3ffff = (t - 128) * 4096"
    using assms mod_shift [of "t * 4096" 2 262144] by (simp add: mask low_bits push_bit_eq_mult)
qed

lemma lead_bits:
  shows "192 \<le> l \<Longrightarrow> l < 224 \<Longrightarrow> push_bit 6 (mask8 l) AND 0x7ff = (l - 192) * 64"
    "224 \<le> l \<Longrightarrow> l < 240 \<Longrightarrow> push_bit 12 (mask8 l) AND 0xffff = (l - 224) * 4096"
    "240 \<le> l \<Longrightarrow> l < 248 \<Longrightarrow> push_bit 18 (mask8 l) AND 0x1fffff = (l - 240) * 262144"
proof -
  have mask: "mask8 l = l" if "192 \<le> l" "l < 248" using that by (simp add: mask8_def low_bits)
  show "push_bit 6 (mask8 l) AND 0x7ff = (l - 192) * 64" if "192 \<le> l" "l < 224"
    using that mask mod_shift [of "l * 64" 6 2048] by (simp add: low_bits push_bit_eq_mult)
  show "push_bit 12 (mask8 l) AND 0xffff = (l - 224) * 4096" if "224 \<le> l" "l < 240"
    using that mask mod_shift [of "l * 4096" 14 65536] by (simp add: low_bits push_bit_eq_mult)
  show "push_bit 18 (mask8 l) AND 0x1fffff = (l - 240) * 262144" if "240 \<le> l" "l < 248"
    using that mask mod_shift [of "l * 262144" 30 2097152] by (simp add: low_bits push_bit_eq_mult)
qed

lemmas sequence_simps = Let_def list.sel list.distinct if_False trail_bits

lemma sequence_2:
  assumes "192 \<le> l" "l < 224" "128 \<le> t" "t < 192"
  shows "get_sequence_2 (l # t # rest) = Inr ((l - 192) * 64 + (t - 128), t # rest)"
  by (simp only: get_sequence_2_def sequence_simps lead_bits(1) assms)

lemma sequence_3:
  assumes "224 \<le> l" "l < 240" "128 \<le> t" "t < 192" "128 \<le> u" "u < 192"
  shows "get_sequence_3 (l # t # u # rest) = Inr ((l - 224) * 4096 + (t - 128) * 64 + (u - 128), u # rest)"
  by (simp only: get_sequence_3_def sequence_simps lead_bits(2) assms)

lemma sequence_4:
  assumes "240 \<le> l" "l < 248" "128 \<le> t" "t < 192" "128 \<le> u" "u < 192" "128 \<le> v" "v < 192"
  shows "get_sequence_4 (l # t # u # v # rest) =
    Inr ((l - 240) * 262144 + (t - 128) * 4096 + (u - 128) * 64 + (v - 128), v # rest)"
  by (simp only: get_sequence_4_def sequence_simps lead_bits(3) assms)

section \<open>The check accepts what the encoder writes\<close>

lemma utf8_append_cases:
  assumes "0 \<le> cp" "is_code_point_valid cp"
  obtains
    (one) "cp < 128" "utf8_append cp = Inr [cp]"
  | (two) a b where "2 \<le> a" "a < 32" "0 \<le> b" "b < 64" "cp = a * 64 + b" "utf8_append cp = Inr [a + 192, b + 128]"
  | (three) a b c where "0 \<le> a" "a < 16" "0 \<le> b" "b < 64" "0 \<le> c" "c < 64" "2048 \<le> cp" "cp = a * 4096 + b * 64 + c"
      "utf8_append cp = Inr [a + 224, b + 128, c + 128]"
  | (four) a b c d where "0 \<le> a" "a < 8" "0 \<le> b" "b < 64" "0 \<le> c" "c < 64" "0 \<le> d" "d < 64" "65536 \<le> cp"
      "cp = a * 262144 + b * 4096 + c * 64 + d" "utf8_append cp = Inr [a + 240, b + 128, c + 128, d + 128]"
proof -
  have split: "cp = cp div 64 * 64 + cp mod 64" "cp div 64 = cp div 4096 * 64 + cp div 64 mod 64"
      "cp div 4096 = cp div 262144 * 64 + cp div 4096 mod 64"
    unfolding div_64 by (simp_all only: div_mult_mod_eq)
  have le: "cp \<le> 1114111" using assms(2) by (simp add: is_code_point_valid_def CODE_POINT_MAX_def)
  have m: "0 \<le> x mod 64" "x mod 64 < 64" for x :: int by simp_all
  consider "cp < 128" | "128 \<le> cp" "cp < 2048" | "2048 \<le> cp" "cp < 65536" | "65536 \<le> cp" by linarith
  then show thesis
  proof cases
    case 1
    then show ?thesis using one assms(2) by (simp add: utf8_append_def)
  next
    case 2
    have a: "2 \<le> cp div 64" "cp div 64 < 32" using 2 by linarith+
    have "utf8_append cp = Inr [cp div 64 + 192, cp mod 64 + 128]"
      using 2 a assms(2) by (simp add: utf8_append_def low_bits high_bits drop_bit_eq_div)
    then show ?thesis by (rule two [OF a m split(1)])
  next
    case 3
    have a: "0 \<le> cp div 4096" "cp div 4096 < 16" using 3 by linarith+
    have "utf8_append cp = Inr [cp div 4096 + 224, cp div 64 mod 64 + 128, cp mod 64 + 128]"
      using 3 a assms(2) by (simp add: utf8_append_def low_bits high_bits drop_bit_eq_div)
    moreover have "cp = cp div 4096 * 4096 + cp div 64 mod 64 * 64 + cp mod 64" using split(1,2) by linarith
    ultimately show ?thesis using three [OF a m m 3(1)] by metis
  next
    case 4
    have a: "0 \<le> cp div 262144" "cp div 262144 < 8" using 4 le by linarith+
    have "utf8_append cp = Inr [cp div 262144 + 240, cp div 4096 mod 64 + 128, cp div 64 mod 64 + 128, cp mod 64 + 128]"
      using 4 a assms(2) by (simp add: utf8_append_def low_bits high_bits drop_bit_eq_div)
    moreover have "cp = cp div 262144 * 262144 + cp div 4096 mod 64 * 4096 + cp div 64 mod 64 * 64 + cp mod 64" using split by linarith
    ultimately show ?thesis using four [OF a m m m 4] by metis
  qed
qed

lemma validate_encoded:
  assumes "0 \<le> cp" "utf8_append cp = Inr bs"
  shows "validate_next (bs @ rest) = Inr (cp, rest) \<and> bs \<noteq> []"
proof -
  have valid: "is_code_point_valid cp" using assms(2) by (auto simp: utf8_append_def split: if_splits)
  from assms(1) valid show ?thesis
  proof (cases rule: utf8_append_cases)
    case one
    have "sequence_length cp = 1" using one(1) assms(1) sequence_length_iff(1) [of cp] by (simp add: is_octet_def)
    then show ?thesis using one valid assms
      by (simp add: validate_next_Inr get_sequence_def get_sequence_1_def mask8_def low_bits is_overlong_sequence_def)
  next
    case (two a b)
    have "sequence_length (a + 192) = 2" using two sequence_length_iff(2) [of "a + 192"] by (simp add: is_octet_def)
    moreover have "bs = [a + 192, b + 128]" using two(6) assms(2) by simp
    ultimately show ?thesis using two(1-5) valid sequence_2 [of "a + 192" "b + 128" rest]
      by (simp add: validate_next_Inr get_sequence_def is_overlong_sequence_def)
  next
    case (three a b c)
    have "sequence_length (a + 224) = 3" using three sequence_length_iff(3) [of "a + 224"] by (simp add: is_octet_def)
    moreover have "bs = [a + 224, b + 128, c + 128]" using three(9) assms(2) by simp
    ultimately show ?thesis using three(1-8) valid sequence_3 [of "a + 224" "b + 128" "c + 128" rest]
      by (simp add: validate_next_Inr get_sequence_def is_overlong_sequence_def)
  next
    case (four a b c d)
    have "sequence_length (a + 240) = 4" using four sequence_length_iff(4) [of "a + 240"] by (simp add: is_octet_def)
    moreover have "bs = [a + 240, b + 128, c + 128, d + 128]" using four(11) assms(2) by simp
    ultimately show ?thesis using four(1-10) valid sequence_4 [of "a + 240" "b + 128" "c + 128" "d + 128" rest]
      by (simp add: validate_next_Inr get_sequence_def is_overlong_sequence_def)
  qed
qed

lemma base_64_digits:
  fixes a b c :: int
  assumes "0 \<le> b" "b < 64"
  shows "(a * 64 + b) div 64 = a" "(a * 64 + b) mod 64 = b"
  using assms by simp_all

lemma append_parts:
  assumes "is_code_point_valid cp"
  shows "cp = a * 64 + b \<Longrightarrow> 0 \<le> a \<Longrightarrow> a < 32 \<Longrightarrow> 0 \<le> b \<Longrightarrow> b < 64 \<Longrightarrow> 128 \<le> cp \<Longrightarrow> utf8_append cp = Inr [a + 192, b + 128]"
    "cp = (a * 64 + b) * 64 + c \<Longrightarrow> 0 \<le> a \<Longrightarrow> a < 16 \<Longrightarrow> 0 \<le> b \<Longrightarrow> b < 64 \<Longrightarrow> 0 \<le> c \<Longrightarrow> c < 64 \<Longrightarrow> 2048 \<le> cp \<Longrightarrow>
      utf8_append cp = Inr [a + 224, b + 128, c + 128]"
    "cp = ((a * 64 + b) * 64 + c) * 64 + d \<Longrightarrow> 0 \<le> a \<Longrightarrow> a < 8 \<Longrightarrow> 0 \<le> b \<Longrightarrow> b < 64 \<Longrightarrow> 0 \<le> c \<Longrightarrow> c < 64 \<Longrightarrow> 0 \<le> d \<Longrightarrow> d < 64 \<Longrightarrow> 65536 \<le> cp \<Longrightarrow>
      utf8_append cp = Inr [a + 240, b + 128, c + 128, d + 128]"
proof -
  show "utf8_append cp = Inr [a + 192, b + 128]" if "cp = a * 64 + b" "0 \<le> a" "a < 32" "0 \<le> b" "b < 64" "128 \<le> cp"
  proof -
    have "cp < 2048" using that by linarith
    then show ?thesis using that assms base_64_digits [of b a]
      by (simp add: utf8_append_def low_bits high_bits drop_bit_eq_div)
  qed
  show "utf8_append cp = Inr [a + 224, b + 128, c + 128]"
    if "cp = (a * 64 + b) * 64 + c" "0 \<le> a" "a < 16" "0 \<le> b" "b < 64" "0 \<le> c" "c < 64" "2048 \<le> cp"
  proof -
    have "cp = a * 4096 + b * 64 + c" using that(1) by simp
    then have small: "cp < 65536" using that(2-7) by linarith
    have 1: "cp div 64 = a * 64 + b" "cp mod 64 = c" unfolding that(1) by (rule base_64_digits [OF that(6,7)])+
    have 2: "cp div 64 div 64 = a" "cp div 64 mod 64 = b" unfolding 1(1) by (rule base_64_digits [OF that(4,5)])+
    have "drop_bit 12 cp = a" "drop_bit 6 cp AND 0x3f = b" "cp AND 0x3f = c" unfolding low_bits drop_bits div_64 by (fact 1(2) 2)+
    moreover have "\<not> cp < 128" "\<not> cp < 2048" "cp < 65536" using that(8) small by linarith+
    moreover have "a OR 224 = a + 224" "b OR 128 = b + 128" "c OR 128 = c + 128"
      using high_bits(3) [of a] high_bits(1) [of b] high_bits(1) [of c] that(2-7) by linarith+
    ultimately show ?thesis using assms by (simp only: utf8_append_def simp_thms if_False if_True)
  qed
  show "utf8_append cp = Inr [a + 240, b + 128, c + 128, d + 128]"
    if "cp = ((a * 64 + b) * 64 + c) * 64 + d" "0 \<le> a" "a < 8" "0 \<le> b" "b < 64" "0 \<le> c" "c < 64" "0 \<le> d" "d < 64" "65536 \<le> cp"
  proof -
    have 1: "cp div 64 = (a * 64 + b) * 64 + c" "cp mod 64 = d" unfolding that(1) by (rule base_64_digits [OF that(8,9)])+
    have 2: "cp div 64 div 64 = a * 64 + b" "cp div 64 mod 64 = c" unfolding 1(1) by (rule base_64_digits [OF that(6,7)])+
    have 3: "cp div 64 div 64 div 64 = a" "cp div 64 div 64 mod 64 = b" unfolding 2(1) by (rule base_64_digits [OF that(4,5)])+
    have "drop_bit 18 cp = a" "drop_bit 12 cp AND 0x3f = b" "drop_bit 6 cp AND 0x3f = c" "cp AND 0x3f = d"
      unfolding low_bits drop_bits div_64 by (fact 3 1(2) 2(2))+
    moreover have "\<not> cp < 128" "\<not> cp < 2048" "\<not> cp < 65536" using that(10) by linarith+
    moreover have "a OR 240 = a + 240" "b OR 128 = b + 128" "c OR 128 = c + 128" "d OR 128 = d + 128"
      using high_bits(4) [of a] high_bits(1) [of b] high_bits(1) [of c] high_bits(1) [of d] that(2-9) by linarith+
    ultimately show ?thesis using assms by (simp only: utf8_append_def simp_thms if_False if_True)
  qed
qed

lemma validated_is_encoded:
  assumes "list_all is_octet it" "it \<noteq> []" "validate_next it = Inr (cp, rest)"
  obtains bs where "0 \<le> cp" "utf8_append cp = Inr bs" "it = bs @ rest" "list_all is_octet rest"
proof -
  obtain l r where it: "it = l # r" "is_octet l" using assms(1,2) by (cases it) auto
  let ?n = "sequence_length l"
  from assms(3) obtain it' where v: "get_sequence ?n it = Inr (cp, it')" "is_code_point_valid cp"
      "\<not> is_overlong_sequence cp ?n" "rest = tl it'"
    unfolding validate_next_Inr it by auto
  consider "?n = 1" | "?n = 2" | "?n = 3" | "?n = 4" using v(1) sequence_length_iff(5) [OF it(2)] by (auto simp: get_sequence_def)
  then have "0 \<le> cp \<and> (\<exists>bs. utf8_append cp = Inr bs \<and> it = bs @ rest)"
  proof cases
    case 1
    then show ?thesis using v it sequence_length_iff(1) [OF it(2)]
      by (auto simp: get_sequence_def get_sequence_1_def mask8_def low_bits is_octet_def utf8_append_def)
  next
    case 2
    from v(1) 2 obtain t q where q: "r = t # q" "is_trail t"
      by (auto simp: get_sequence_def get_sequence_2_def increase_safely_Inr Let_def it)
    have bounds: "192 \<le> l" "l < 224" "128 \<le> t" "t < 192"
      using 2 sequence_length_iff(2) [OF it(2)] is_trail_iff [of t] q assms(1) it by auto
    then have "cp = (l - 192) * 64 + (t - 128)" "it' = t # q"
      using v(1) 2 sequence_2 [OF bounds, of q] by (auto simp: get_sequence_def it q)
    moreover have "128 \<le> cp" using v(3) 2 by (auto simp: is_overlong_sequence_def split: if_splits)
    ultimately show ?thesis using append_parts(1) [OF v(2), of "l - 192" "t - 128"] bounds v(4) it q by auto
  next
    case 3
    from v(1) 3 obtain t u q where q: "r = t # u # q" "is_trail t" "is_trail u"
      by (auto simp: get_sequence_def get_sequence_3_def increase_safely_Inr Let_def it)
    have bounds: "224 \<le> l" "l < 240" "128 \<le> t" "t < 192" "128 \<le> u" "u < 192"
      using 3 sequence_length_iff(3) [OF it(2)] is_trail_iff [of t] is_trail_iff [of u] q assms(1) it by auto
    then have "cp = ((l - 224) * 64 + (t - 128)) * 64 + (u - 128)" "it' = u # q"
      using v(1) 3 sequence_3 [OF bounds, of q] by (auto simp: get_sequence_def it q)
    moreover have "2048 \<le> cp" using v(3) 3 by (auto simp: is_overlong_sequence_def split: if_splits)
    ultimately show ?thesis using append_parts(2) [OF v(2), of "l - 224" "t - 128" "u - 128"] bounds v(4) it q by auto
  next
    case 4
    from v(1) 4 obtain t u w q where q: "r = t # u # w # q" "is_trail t" "is_trail u" "is_trail w"
      by (auto simp: get_sequence_def get_sequence_4_def increase_safely_Inr Let_def it)
    have bounds: "240 \<le> l" "l < 248" "128 \<le> t" "t < 192" "128 \<le> u" "u < 192" "128 \<le> w" "w < 192"
      using 4 sequence_length_iff(4) [OF it(2)] is_trail_iff [of t] is_trail_iff [of u] is_trail_iff [of w] q assms(1) it by auto
    then have "cp = (((l - 240) * 64 + (t - 128)) * 64 + (u - 128)) * 64 + (w - 128)" "it' = w # q"
      using v(1) 4 sequence_4 [OF bounds, of q] by (auto simp: get_sequence_def it q)
    moreover have "65536 \<le> cp" using v(3) 4 by (auto simp: is_overlong_sequence_def split: if_splits)
    ultimately show ?thesis using append_parts(3) [OF v(2), of "l - 240" "t - 128" "u - 128" "w - 128"] bounds v(4) it q by auto
  qed
  then show thesis using that assms(1) by (metis list_all_append)
qed

lemma find_invalid_encoded: "encodeUtf8 cps = Inr bs \<Longrightarrow> list_all (\<lambda>cp. 0 \<le> cp) cps \<Longrightarrow> find_invalid bs = []"
proof (induction cps arbitrary: bs)
  case Nil
  then show ?case by (simp add: find_invalid.simps)
next
  case (Cons cp cps)
  then obtain u v where uv: "utf8_append cp = Inr u" "encodeUtf8 cps = Inr v" "bs = u @ v" by (auto simp: result_simps)
  have "validate_next bs = Inr (cp, v)" "bs \<noteq> []" using validate_encoded [OF _ uv(1), of v] Cons.prems(2) uv(3) by auto
  then show ?case using Cons.IH [OF uv(2)] Cons.prems(2) by (subst find_invalid.simps) simp
qed

lemma accepted_is_encoded:
  "find_invalid it = [] \<Longrightarrow> list_all is_octet it \<Longrightarrow> \<exists>cps. list_all (\<lambda>cp. 0 \<le> cp) cps \<and> encodeUtf8 cps = Inr it"
proof (induction it rule: find_invalid.induct)
  case (1 it)
  show ?case
  proof (cases "it = []")
    case True
    then show ?thesis by (intro exI [of _ "[]"]) simp
  next
    case False
    obtain cp rest where v: "validate_next it = Inr (cp, rest)"
      using "1.prems"(1) False by (subst (asm) find_invalid.simps) (auto split: sum.splits)
    have "find_invalid rest = []" using "1.prems"(1) False v by (subst (asm) find_invalid.simps) simp
    moreover from "1.prems"(2) False v obtain bs where bs: "0 \<le> cp" "utf8_append cp = Inr bs" "it = bs @ rest" "list_all is_octet rest"
      by (rule validated_is_encoded)
    ultimately obtain cps where "list_all (\<lambda>cp. 0 \<le> cp) cps" "encodeUtf8 cps = Inr rest"
      using "1.IH" [OF False v, of cp rest] by auto
    then show ?thesis using bs by (intro exI [of _ "cp # cps"]) (simp add: ebind_def)
  qed
qed

lemma octets_of_octets: "list_all is_octet (octets_of s)"
proof -
  have "0 \<le> (of_char c :: int)" "(of_char c :: int) < 256" for c
    using of_nat_of_char [of c, where ?'a = int] nat_of_char_less_256 [of c] by linarith+
  then show ?thesis by (simp add: octets_of_def is_octet_def list_all_iff)
qed

text \<open>C39. The check decides UTF-8: a text is accepted exactly when it is the encoding of some sequence of code points, none a surrogate and none
  above \<open>0x10ffff\<close>; truncated, overlong and stray octets are all refused.\<close>

theorem is_utf8_iff_encoding:
  "is_utf8 s \<longleftrightarrow> (\<exists>cps. list_all (\<lambda>cp. 0 \<le> cp) cps \<and> encodeUtf8 cps = Inr (octets_of s))"
  using find_invalid_encoded accepted_is_encoded [OF _ octets_of_octets] unfolding is_utf8_def by blast

text \<open>Decoding inverts encoding.\<close>

theorem decode_encode:
  assumes "encodeUtf8 cps = Inr bs" "list_all (\<lambda>cp. 0 \<le> cp) cps"
  shows "decodeUtf8 bs = Inr cps"
  using assms
proof (induction cps arbitrary: bs)
  case Nil
  then show ?case by (simp add: decodeUtf8.simps)
next
  case (Cons cp cps)
  then obtain u v where uv: "utf8_append cp = Inr u" "encodeUtf8 cps = Inr v" "bs = u @ v" by (auto simp: result_simps)
  have "validate_next bs = Inr (cp, v)" "bs \<noteq> []" using validate_encoded [OF _ uv(1), of v] Cons.prems(2) uv(3) by auto
  then show ?case using Cons.IH [OF uv(2)] Cons.prems(2) by (subst decodeUtf8.simps) (simp add: ebind_def)
qed

text \<open>Pruning always ends in an acceptable text, and leaves an acceptable one alone.\<close>

lemma find_invalid_span:
  "find_invalid (span s (find_invalid s)) = []" "find_invalid (span s (find_invalid s) @ x) = find_invalid x"
proof -
  obtain u where u: "s = u @ find_invalid s" "\<And>x. find_invalid (u @ x) = find_invalid x" using find_invalid_split [of s] by blast
  have "span s (find_invalid s) = u" using u(1) by (metis append_eq_conv_conj diff_diff_cancel length_append diff_add_inverse2 span_def)
  then show "find_invalid (span s (find_invalid s)) = []" "find_invalid (span s (find_invalid s) @ x) = find_invalid x"
    using u(2) [of "[]"] u(2) [of x] by (simp_all add: find_invalid.simps [of "[]"])
qed

lemma prune_loop_valid: "find_invalid (prune_loop itr) = []"
proof (induction itr rule: prune_loop.induct)
  case (1 itr)
  then show ?case by (subst prune_loop.simps) (auto simp: Let_def find_invalid_span find_invalid.simps [of "[]"])
qed

theorem pruned_text_is_valid:
  "find_invalid (prune_invalid_utf8 s) = [] \<and> (find_invalid s = [] \<longrightarrow> prune_invalid_utf8 s = s)"
  by (simp add: prune_invalid_utf8_def Let_def find_invalid_span prune_loop_valid)

end
