(* ===== verification/Operation_Types.thy ===== *)
theory Operation_Types
  imports Wire_Types Utf8
begin

text \<open>
  The operations a transaction carries (\<^verbatim>\<open>libraries/protocol/sophiatx_operations.hpp\<close>,
  \<^verbatim>\<open>operations.hpp\<close>): one record per operation, extending the record of \<^verbatim>\<open>base_operation\<close> with its
  fee, and the variant type \<open>operation\<close>. The fields named \<^verbatim>\<open>extensions\<close> travel with an
  operation, but no code reads them; that of \<^verbatim>\<open>sponsor_fees_operation\<close> does not even travel and is
  left out. What comes from other libraries is an argument of the model, gathered in the
  record \<open>externals\<close>: the JSON parser, a hash, and the sizes of types in memory. \<open>is_producing\<close> is the flag of the node of the same name.
\<close>

section \<open>Services of the libraries below\<close>

record externals =
  json_is_valid :: "string \<Rightarrow> bool"
  ripemd160 :: "string \<Rightarrow> nat list"
  memory_sizes :: abi
  is_producing :: bool

section \<open>The structures\<close>

text \<open>\<^verbatim>\<open>future_extensions\<close> is a variant type with a single, empty alternative.\<close>

datatype future_extensions = Future_void

type_synonym extensions_type = "future_extensions list"

record base_operation =
  op_fee :: asset

record account_create_operation = base_operation +
  ac_creator :: account_name_type
  ac_name_seed :: string
  ac_owner :: authority
  ac_active :: authority
  ac_memo_key :: public_key_type
  ac_json_metadata :: string

record account_update_operation = base_operation +
  up_account :: account_name_type
  up_owner :: "authority option"
  up_active :: "authority option"
  up_memo_key :: public_key_type
  up_json_metadata :: string

record account_delete_operation = base_operation +
  ad_account :: account_name_type

record transfer_operation = base_operation +
  tr_from :: account_name_type
  tr_to :: account_name_type
  tr_amount :: asset
  tr_memo :: string

record escrow_transfer_operation = base_operation +
  et_from :: account_name_type
  et_to :: account_name_type
  et_agent :: account_name_type
  et_escrow_id :: int
  et_sophiatx_amount :: asset
  et_escrow_fee :: asset
  et_ratification_deadline :: time_point_sec
  et_escrow_expiration :: time_point_sec
  et_json_meta :: string

record escrow_approve_operation = base_operation +
  ea_from :: account_name_type
  ea_to :: account_name_type
  ea_agent :: account_name_type
  ea_who :: account_name_type
  ea_escrow_id :: int
  ea_approve :: bool

record escrow_dispute_operation = base_operation +
  ed_from :: account_name_type
  ed_to :: account_name_type
  ed_agent :: account_name_type
  ed_who :: account_name_type
  ed_escrow_id :: int

record escrow_release_operation = base_operation +
  er_from :: account_name_type
  er_to :: account_name_type
  er_agent :: account_name_type
  er_who :: account_name_type
  er_receiver :: account_name_type
  er_escrow_id :: int
  er_sophiatx_amount :: asset

record transfer_to_vesting_operation = base_operation +
  tv_from :: account_name_type
  tv_to :: account_name_type
  tv_amount :: asset

record withdraw_vesting_operation = base_operation +
  wd_account :: account_name_type
  wd_vesting_shares :: asset

record witness_update_operation = base_operation +
  wu_owner :: account_name_type
  wu_url :: string
  wu_block_signing_key :: public_key_type
  wu_props :: chain_properties

record admin_witness_update_operation = base_operation +
  aw_owner :: account_name_type
  aw_url :: string
  aw_block_signing_key :: public_key_type
  aw_props :: chain_properties

record witness_set_properties_operation = base_operation +
  sp_owner :: account_name_type
  sp_props :: "(string \<times> nat list) list"
  sp_extensions :: extensions_type

record witness_stop_operation = base_operation +
  ws_owner :: account_name_type

record account_witness_vote_operation = base_operation +
  vo_account :: account_name_type
  vo_witness :: account_name_type
  vo_approve :: bool

record account_witness_proxy_operation = base_operation +
  px_account :: account_name_type
  px_proxy :: account_name_type

text \<open>\<^verbatim>\<open>custom_operation\<close> and \<^verbatim>\<open>custom_binary_operation\<close> have the same members.\<close>

record custom_operation = base_operation +
  cu_sender :: account_name_type
  cu_recipients :: "account_name_type list"
  cu_app_id :: int
  cu_data :: "nat list"

record custom_json_operation = base_operation +
  cj_sender :: account_name_type
  cj_recipients :: "account_name_type list"
  cj_app_id :: int
  cj_json :: string

record feed_publish_operation = base_operation +
  fp_publisher :: account_name_type
  fp_exchange_rate :: price

record request_account_recovery_operation = base_operation +
  rq_recovery_account :: account_name_type
  rq_account_to_recover :: account_name_type
  rq_new_owner_authority :: authority
  rq_extensions :: extensions_type

record recover_account_operation = base_operation +
  rc_account_to_recover :: account_name_type
  rc_new_owner_authority :: authority
  rc_recent_owner_authority :: authority
  rc_extensions :: extensions_type

record reset_account_operation = base_operation +
  ra_reset_account :: account_name_type
  ra_account_to_reset :: account_name_type
  ra_new_owner_authority :: authority

record set_reset_account_operation = base_operation +
  sr_account :: account_name_type
  sr_current_reset_account :: account_name_type
  sr_reset_account :: account_name_type

record application_create_operation = base_operation +
  apc_author :: account_name_type
  apc_name :: string
  apc_url :: string
  apc_metadata :: string
  apc_price_param :: int

record application_update_operation = base_operation +
  apu_author :: account_name_type
  apu_new_author :: "account_name_type option"
  apu_name :: string
  apu_url :: string
  apu_metadata :: string
  apu_price_param :: "int option"

record application_delete_operation = base_operation +
  apd_author :: account_name_type
  apd_name :: string

record buy_application_operation = base_operation +
  ba_buyer :: account_name_type
  ba_app_id :: int

record cancel_application_buying_operation = base_operation +
  ca_app_owner :: account_name_type
  ca_buyer :: account_name_type
  ca_app_id :: int

text \<open>\<^verbatim>\<open>change_recovery_account_operation\<close> declares a member \<^verbatim>\<open>fee\<close> of its own that hides the fee of
  the base structure.\<close>

record change_recovery_account_operation = base_operation +
  ch_fee :: asset
  ch_account_to_recover :: account_name_type
  ch_new_recovery_account :: account_name_type
  ch_extensions :: extensions_type

record transfer_from_promotion_pool_operation = base_operation +
  pp_transfer_to :: account_name_type
  pp_amount :: asset
  pp_extensions :: extensions_type

record sponsor_fees_operation = base_operation +
  sf_sponsor :: account_name_type
  sf_sponsored :: account_name_type
  sf_is_sponsoring :: bool

datatype virtual_operation =
    Interest_operation account_name_type asset
  | Fill_vesting_withdraw_operation account_name_type account_name_type asset asset
  | Shutdown_witness_operation account_name_type
  | Hardfork_operation nat
  | Producer_reward_operation account_name_type asset
  | Promotion_pool_withdraw_operation account_name_type asset

datatype operation =
    Transfer_op transfer_operation
  | Transfer_to_vesting_op transfer_to_vesting_operation
  | Withdraw_vesting_op withdraw_vesting_operation
  | Feed_publish_op feed_publish_operation
  | Account_create_op account_create_operation
  | Account_update_op account_update_operation
  | Account_delete_op account_delete_operation
  | Witness_update_op witness_update_operation
  | Witness_stop_op witness_stop_operation
  | Account_witness_vote_op account_witness_vote_operation
  | Account_witness_proxy_op account_witness_proxy_operation
  | Witness_set_properties_op witness_set_properties_operation
  | Custom_op custom_operation
  | Custom_json_op custom_json_operation
  | Custom_binary_op custom_operation
  | Request_account_recovery_op request_account_recovery_operation
  | Recover_account_op recover_account_operation
  | Change_recovery_account_op change_recovery_account_operation
  | Escrow_transfer_op escrow_transfer_operation
  | Escrow_dispute_op escrow_dispute_operation
  | Escrow_release_op escrow_release_operation
  | Escrow_approve_op escrow_approve_operation
  | Reset_account_op reset_account_operation
  | Set_reset_account_op set_reset_account_operation
  | Application_create_op application_create_operation
  | Application_update_op application_update_operation
  | Application_delete_op application_delete_operation
  | Buy_application_op buy_application_operation
  | Cancel_application_buying_op cancel_application_buying_operation
  | Transfer_from_promotion_pool_op transfer_from_promotion_pool_operation
  | Sponsor_fees_op sponsor_fees_operation
  | Admin_witness_update_op admin_witness_update_operation
  | Virtual_op virtual_operation

end
