(* ===== verification/Operations.thy ===== *)
theory Operations
  imports Operation_Types
begin

text \<open>
  The stateless part of the operations (\<^verbatim>\<open>libraries/protocol/sophiatx_operations.cpp\<close>, \<^verbatim>\<open>base.hpp\<close>,
  \<^verbatim>\<open>validation.hpp\<close>, \<^verbatim>\<open>operations.cpp\<close>): \<^verbatim>\<open>validate\<close> of every operation, the required fee, the fee
  payer and the required authorities. \<^verbatim>\<open>SOPHIATX_SYMBOL\<close> in these functions is the compile-time
  symbol of the live network, \<open>cfg_symbol\<close> the symbol of the configured network.
\<close>

section \<open>Names and authorities\<close>

definition validate_account_name :: "account_name_type \<Rightarrow> unit result" where
  "validate_account_name n =
     ebind (name_to_string n) (\<lambda>s.
       FC_ASSERT (length (base64m_decode (normalize_to_base64m s)) \<le> name_bytes) '''' (Inr ()))"

definition name_nonempty :: "account_name_type \<Rightarrow> bool" where
  "name_nonempty n \<longleftrightarrow> n \<noteq> 0"

definition authority_validate :: "authority \<Rightarrow> unit result" where
  "authority_validate au =
     efold (\<lambda>i _. ebind (name_to_string (fst i)) (\<lambda>s. FC_ASSERT (is_valid_account_name s) '''' (Inr ())))
       (account_auths au) ()"

definition is_asset_type :: "asset \<Rightarrow> asset_symbol_type \<Rightarrow> bool" where
  "is_asset_type a s \<longleftrightarrow> symbol a = s"

definition SOPHIATX_MAX_PERMLINK_LENGTH :: nat where "SOPHIATX_MAX_PERMLINK_LENGTH = 256"

definition is_sbd :: "asset_symbol_type \<Rightarrow> bool" where
  "is_sbd s \<longleftrightarrow> s = SBD1_SYMBOL \<or> s = SBD2_SYMBOL \<or> s = SBD3_SYMBOL \<or> s = SBD4_SYMBOL \<or> s = SBD5_SYMBOL"

section \<open>Validation\<close>

definition validate_json :: "externals \<Rightarrow> string \<Rightarrow> unit result \<Rightarrow> unit result" where
  "validate_json x js k =
     (if length js > 0 then
        FC_ASSERT (is_utf8 js) ''JSON Metadata not formatted in UTF8''
        (FC_ASSERT (json_is_valid x js) ''JSON Metadata not valid JSON'' k)
      else k)"

definition account_create_validate :: "externals \<Rightarrow> account_create_operation \<Rightarrow> unit result" where
  "account_create_validate x o' =
     ebind (authority_validate (ac_owner o')) (\<lambda>_.
     ebind (authority_validate (ac_active o')) (\<lambda>_. validate_json x (ac_json_metadata o') (Inr ())))"

definition account_update_validate :: "externals \<Rightarrow> account_update_operation \<Rightarrow> unit result" where
  "account_update_validate x o' =
     ebind (validate_account_name (up_account o')) (\<lambda>_. validate_json x (up_json_metadata o') (Inr ()))"

definition account_delete_validate :: "account_delete_operation \<Rightarrow> unit result" where
  "account_delete_validate o' = validate_account_name (ad_account o')"

definition transfer_validate :: "transfer_operation \<Rightarrow> unit result" where
  "transfer_validate o' =
     ebind (validate_account_name (tr_from o')) (\<lambda>_.
     ebind (validate_account_name (tr_to o')) (\<lambda>_.
     FC_ASSERT (symbol (tr_amount o') \<noteq> VESTS_SYMBOL) ''transferring of SophiaTX Power (STMP) is not allowed.''
     (FC_ASSERT (amount (tr_amount o') > 0) ''Cannot transfer a negative amount (aka: stealing)''
     (FC_ASSERT (length (tr_memo o') < SOPHIATX_MAX_MEMO_SIZE) ''Memo is too large''
     (FC_ASSERT (is_utf8 (tr_memo o')) ''Memo is not UTF8'' (Inr ()))))))"

definition transfer_to_vesting_validate :: "transfer_to_vesting_operation \<Rightarrow> unit result" where
  "transfer_to_vesting_validate o' =
     ebind (validate_account_name (tv_from o')) (\<lambda>_.
     FC_ASSERT (is_asset_type (tv_amount o') SOPHIATX_SYMBOL) ''Amount must be SOPHIATX''
     (ebind (if tv_to o' \<noteq> 0 then validate_account_name (tv_to o') else Inr ()) (\<lambda>_.
      ebind (asset_gt (tv_amount o') (Asset 0 SOPHIATX_SYMBOL)) (\<lambda>pos.
      FC_ASSERT pos ''Must transfer a nonzero amount'' (Inr ())))))"

definition withdraw_vesting_validate :: "withdraw_vesting_operation \<Rightarrow> unit result" where
  "withdraw_vesting_validate o' =
     ebind (validate_account_name (wd_account o')) (\<lambda>_.
     FC_ASSERT (is_asset_type (wd_vesting_shares o') VESTS_SYMBOL) ''Amount must be VESTS'' (Inr ()))"

definition chain_properties_validate :: "sophiatx_config \<Rightarrow> chain_properties \<Rightarrow> unit result" where
  "chain_properties_validate c p =
     FC_ASSERT (amount (account_creation_fee p) \<ge> cfg_min_account_creation_fee c) ''''
     (FC_ASSERT (maximum_block_size p \<ge> cfg_min_block_size_limit c) ''''
     (efold (\<lambda>(s, pr) _.
        FC_ASSERT (is_sbd s) ''''
        (ebind (if symbol (base pr) = cfg_symbol c then FC_ASSERT (symbol (quote pr) = s) '''' (Inr ())
                else FC_ASSERT (symbol (base pr) = s \<and> symbol (quote pr) = cfg_symbol c) '''' (Inr ())) (\<lambda>_.
         FC_ASSERT (amount (quote pr) > 0 \<and> amount (base pr) > 0) '''' (Inr ()))))
       (price_feeds p) ()))"

definition validate_url :: "string \<Rightarrow> unit result \<Rightarrow> unit result" where
  "validate_url u k =
     FC_ASSERT (length u \<le> SOPHIATX_MAX_WITNESS_URL_LENGTH) ''URL is too long''
     (FC_ASSERT (length u > 0) ''URL size must be greater than 0''
     (FC_ASSERT (is_utf8 u) ''URL is not valid UTF8'' k))"

definition witness_update_validate :: "sophiatx_config \<Rightarrow> witness_update_operation \<Rightarrow> unit result" where
  "witness_update_validate c o' =
     ebind (validate_account_name (wu_owner o')) (\<lambda>_.
     validate_url (wu_url o') (chain_properties_validate c (wu_props o')))"

definition validate_rate :: "price \<Rightarrow> unit result" where
  "validate_rate r =
     ebind (if symbol (base r) = SOPHIATX_SYMBOL then FC_ASSERT (is_sbd (symbol (quote r))) '''' (Inr ())
            else FC_ASSERT (symbol (quote r) = SOPHIATX_SYMBOL) ''''
                 (FC_ASSERT (is_sbd (symbol (base r))) '''' (Inr ()))) (\<lambda>_.
     FC_ASSERT (amount (quote r) > 0 \<and> amount (base r) > 0) '''' (Inr ()))"

text \<open>The members of \<^verbatim>\<open>props\<close> are optional; a member is unpacked and checked when it is present.\<close>

definition when_prop ::
  "string \<Rightarrow> (string \<times> nat list) list \<Rightarrow> (nat list \<Rightarrow> 'a result) \<Rightarrow> ('a \<Rightarrow> unit result) \<Rightarrow> unit result" where
  "when_prop key ps unpack chk =
     (case map_of ps key of None \<Rightarrow> Inr () | Some v \<Rightarrow> ebind (unpack v) chk)"

definition witness_set_properties_validate ::
  "externals \<Rightarrow> sophiatx_config \<Rightarrow> witness_set_properties_operation \<Rightarrow> unit result" where
  "witness_set_properties_validate x c o' =
     (let ps = sp_props o' in
      ebind (validate_account_name (sp_owner o')) (\<lambda>_.
      FC_ASSERT (map_of ps ''key'' \<noteq> None) ''No signing key provided''
      (ebind (when_prop ''account_creation_fee'' ps (prop_asset (Asset 0 SOPHIATX_SYMBOL)) (\<lambda>f.
         FC_ASSERT (symbol f = SOPHIATX_SYMBOL) ''account_creation_fee must be in SOPHIATX''
         (FC_ASSERT (amount f \<ge> cfg_min_account_creation_fee c)
            ''account_creation_fee smaller than minimum account creation fee'' (Inr ())))) (\<lambda>_.
       ebind (when_prop ''maximum_block_size'' ps prop_new_uint32 (\<lambda>b.
         FC_ASSERT (b \<ge> cfg_min_block_size_limit c)
           ''maximum_block_size smaller than minimum max block size'' (Inr ()))) (\<lambda>_.
       ebind (when_prop ''new_signing_key'' ps (prop_public_key 0) (\<lambda>_. Inr ())) (\<lambda>_.
       ebind (when_prop ''exchange_rates'' ps (prop_prices (memory_sizes x)) (\<lambda>rs.
         efold (\<lambda>r _. validate_rate r) rs ())) (\<lambda>_.
       when_prop ''url'' ps prop_string (\<lambda>u. validate_url u (Inr ())))))))))"

definition account_witness_vote_validate :: "account_witness_vote_operation \<Rightarrow> unit result" where
  "account_witness_vote_validate o' =
     ebind (validate_account_name (vo_account o')) (\<lambda>_. validate_account_name (vo_witness o'))"

definition account_witness_proxy_validate :: "account_witness_proxy_operation \<Rightarrow> unit result" where
  "account_witness_proxy_validate o' =
     ebind (validate_account_name (px_account o')) (\<lambda>_.
     ebind (if name_nonempty (px_proxy o') then validate_account_name (px_proxy o') else Inr ()) (\<lambda>_.
     FC_ASSERT (px_proxy o' \<noteq> px_account o') ''Cannot proxy to self'' (Inr ())))"

definition custom_validate :: "custom_operation \<Rightarrow> unit result" where
  "custom_validate o' =
     ebind (validate_account_name (cu_sender o')) (\<lambda>_.
     efold (\<lambda>r _. validate_account_name r) (cu_recipients o') ())"

definition custom_json_validate :: "externals \<Rightarrow> custom_json_operation \<Rightarrow> unit result" where
  "custom_json_validate x o' =
     FC_ASSERT (is_utf8 (cj_json o')) ''JSON Metadata not formatted in UTF8''
     (FC_ASSERT (json_is_valid x (cj_json o')) ''JSON Metadata not valid JSON''
     (ebind (validate_account_name (cj_sender o')) (\<lambda>_.
      efold (\<lambda>r _. validate_account_name r) (cj_recipients o') ())))"

definition feed_publish_validate :: "feed_publish_operation \<Rightarrow> unit result" where
  "feed_publish_validate o' =
     ebind (validate_account_name (fp_publisher o')) (\<lambda>_.
     ebind (validate_rate (fp_exchange_rate o')) (\<lambda>_. price_validate (fp_exchange_rate o')))"

definition escrow_transfer_validate :: "externals \<Rightarrow> escrow_transfer_operation \<Rightarrow> unit result" where
  "escrow_transfer_validate x o' =
     ebind (validate_account_name (et_from o')) (\<lambda>_.
     ebind (validate_account_name (et_to o')) (\<lambda>_.
     ebind (validate_account_name (et_agent o')) (\<lambda>_.
     FC_ASSERT (amount (et_escrow_fee o') \<ge> 0) ''fee cannot be negative''
     (FC_ASSERT (amount (et_sophiatx_amount o') > 0) ''sophiatx amount cannot be negative''
     (FC_ASSERT (et_from o' \<noteq> et_agent o' \<and> et_to o' \<noteq> et_agent o') ''agent must be a third party''
     (FC_ASSERT (symbol (et_escrow_fee o') = SOPHIATX_SYMBOL) ''fee must be SOPHIATX''
     (FC_ASSERT (symbol (et_sophiatx_amount o') = SOPHIATX_SYMBOL) ''sophiatx amount must contain SOPHIATX''
     (FC_ASSERT (et_ratification_deadline o' < et_escrow_expiration o')
        ''ratification deadline must be before escrow expiration''
     (validate_json x (et_json_meta o') (Inr ()))))))))))"

definition escrow_approve_validate :: "escrow_approve_operation \<Rightarrow> unit result" where
  "escrow_approve_validate o' =
     ebind (validate_account_name (ea_from o')) (\<lambda>_.
     ebind (validate_account_name (ea_to o')) (\<lambda>_.
     ebind (validate_account_name (ea_agent o')) (\<lambda>_.
     ebind (validate_account_name (ea_who o')) (\<lambda>_.
     FC_ASSERT (ea_who o' = ea_to o' \<or> ea_who o' = ea_agent o') ''to or agent must approve escrow'' (Inr ())))))"

definition escrow_dispute_validate :: "escrow_dispute_operation \<Rightarrow> unit result" where
  "escrow_dispute_validate o' =
     ebind (validate_account_name (ed_from o')) (\<lambda>_.
     ebind (validate_account_name (ed_to o')) (\<lambda>_.
     ebind (validate_account_name (ed_agent o')) (\<lambda>_.
     ebind (validate_account_name (ed_who o')) (\<lambda>_.
     FC_ASSERT (ed_who o' = ed_from o' \<or> ed_who o' = ed_to o') ''who must be from or to'' (Inr ())))))"

definition escrow_release_validate :: "escrow_release_operation \<Rightarrow> unit result" where
  "escrow_release_validate o' =
     ebind (validate_account_name (er_from o')) (\<lambda>_.
     ebind (validate_account_name (er_to o')) (\<lambda>_.
     ebind (validate_account_name (er_agent o')) (\<lambda>_.
     ebind (validate_account_name (er_who o')) (\<lambda>_.
     ebind (validate_account_name (er_receiver o')) (\<lambda>_.
     FC_ASSERT (er_who o' = er_from o' \<or> er_who o' = er_to o' \<or> er_who o' = er_agent o')
       ''who must be from or to or agent''
     (FC_ASSERT (er_receiver o' = er_from o' \<or> er_receiver o' = er_to o') ''receiver must be from or to''
     (FC_ASSERT (amount (er_sophiatx_amount o') > 0) ''sophiatx amount must be positive''
     (FC_ASSERT (symbol (er_sophiatx_amount o') = SOPHIATX_SYMBOL) ''sophiatx amount must contain SOPHIATX''
       (Inr ())))))))))"

definition request_account_recovery_validate :: "request_account_recovery_operation \<Rightarrow> unit result" where
  "request_account_recovery_validate o' =
     ebind (validate_account_name (rq_recovery_account o')) (\<lambda>_.
     ebind (validate_account_name (rq_account_to_recover o')) (\<lambda>_.
     authority_validate (rq_new_owner_authority o')))"

definition recover_account_validate :: "recover_account_operation \<Rightarrow> unit result" where
  "recover_account_validate o' =
     ebind (validate_account_name (rc_account_to_recover o')) (\<lambda>_.
     FC_ASSERT (rc_new_owner_authority o' \<noteq> rc_recent_owner_authority o')
       ''Cannot set new owner authority to the recent owner authority''
     (FC_ASSERT (\<not> is_impossible (rc_new_owner_authority o')) ''new owner authority cannot be impossible''
     (FC_ASSERT (\<not> is_impossible (rc_recent_owner_authority o')) ''recent owner authority cannot be impossible''
     (FC_ASSERT (weight_threshold (rc_new_owner_authority o') \<noteq> 0) ''new owner authority cannot be trivial''
     (ebind (authority_validate (rc_new_owner_authority o')) (\<lambda>_.
      authority_validate (rc_recent_owner_authority o')))))))"

definition change_recovery_account_validate :: "change_recovery_account_operation \<Rightarrow> unit result" where
  "change_recovery_account_validate o' =
     ebind (validate_account_name (ch_account_to_recover o')) (\<lambda>_.
     validate_account_name (ch_new_recovery_account o'))"

definition reset_account_validate :: "reset_account_operation \<Rightarrow> unit result" where
  "reset_account_validate o' =
     ebind (validate_account_name (ra_reset_account o')) (\<lambda>_.
     ebind (validate_account_name (ra_account_to_reset o')) (\<lambda>_.
     FC_ASSERT (\<not> is_impossible (ra_new_owner_authority o')) ''new owner authority cannot be impossible''
     (FC_ASSERT (weight_threshold (ra_new_owner_authority o') \<noteq> 0) ''new owner authority cannot be trivial''
     (authority_validate (ra_new_owner_authority o')))))"

definition set_reset_account_validate :: "set_reset_account_operation \<Rightarrow> unit result" where
  "set_reset_account_validate o' =
     ebind (validate_account_name (sr_account o')) (\<lambda>_.
     ebind (if name_nonempty (sr_current_reset_account o') then validate_account_name (sr_current_reset_account o')
            else Inr ()) (\<lambda>_.
     ebind (validate_account_name (sr_reset_account o')) (\<lambda>_.
     FC_ASSERT (sr_current_reset_account o' \<noteq> sr_reset_account o')
       ''new reset account cannot be current reset account'' (Inr ()))))"

definition validate_app_name :: "string \<Rightarrow> unit result \<Rightarrow> unit result" where
  "validate_app_name n k =
     FC_ASSERT (length n \<le> SOPHIATX_MAX_PERMLINK_LENGTH) ''Name is too long''
     (FC_ASSERT (length n > 0) ''Name size must be greater than 0''
     (FC_ASSERT (is_utf8 n) ''Name is not valid UTF8'' k))"

definition validate_metadata :: "string \<Rightarrow> unit result \<Rightarrow> unit result" where
  "validate_metadata m k =
     (if length m > 0 then FC_ASSERT (is_utf8 m) ''JSON Metadata not formatted in UTF8'' k else k)"

text \<open>The price parameter is below \<^verbatim>\<open>application_price_param::none\<close>, the third value.\<close>

definition application_create_validate :: "application_create_operation \<Rightarrow> unit result" where
  "application_create_validate o' =
     ebind (validate_account_name (apc_author o')) (\<lambda>_.
     validate_app_name (apc_name o')
     (validate_url (apc_url o')
     (validate_metadata (apc_metadata o')
     (FC_ASSERT (apc_price_param o' < 2) ''Undefined price param'' (Inr ())))))"

text \<open>\<^verbatim>\<open>*price_param\<close> asserts that the optional holds a value.\<close>

definition application_update_validate :: "application_update_operation \<Rightarrow> unit result" where
  "application_update_validate o' =
     ebind (validate_account_name (apu_author o')) (\<lambda>_.
     ebind (case apu_new_author o' of None \<Rightarrow> Inr () | Some n \<Rightarrow> validate_account_name n) (\<lambda>_.
     validate_app_name (apu_name o')
     (validate_url (apu_url o')
     (validate_metadata (apu_metadata o')
     (case apu_price_param o' of
        None \<Rightarrow> Inl Null_dereference
      | Some p \<Rightarrow> FC_ASSERT (p < 2) ''Undefined price param'' (Inr ()))))))"

definition application_delete_validate :: "application_delete_operation \<Rightarrow> unit result" where
  "application_delete_validate o' =
     ebind (validate_account_name (apd_author o')) (\<lambda>_. validate_app_name (apd_name o') (Inr ()))"

definition transfer_from_promotion_pool_validate :: "transfer_from_promotion_pool_operation \<Rightarrow> unit result" where
  "transfer_from_promotion_pool_validate o' =
     ebind (validate_account_name (pp_transfer_to o')) (\<lambda>_. FC_ASSERT (amount (pp_amount o') > 0) '''' (Inr ()))"

definition sponsor_fees_validate :: "sponsor_fees_operation \<Rightarrow> unit result" where
  "sponsor_fees_validate o' =
     ebind (if name_nonempty (sf_sponsor o') then validate_account_name (sf_sponsor o') else Inr ()) (\<lambda>_.
     validate_account_name (sf_sponsored o'))"

definition buy_application_validate :: "buy_application_operation \<Rightarrow> unit result" where
  "buy_application_validate o' = validate_account_name (ba_buyer o')"

definition cancel_application_buying_validate :: "cancel_application_buying_operation \<Rightarrow> unit result" where
  "cancel_application_buying_validate o' =
     ebind (validate_account_name (ca_app_owner o')) (\<lambda>_. validate_account_name (ca_buyer o'))"

text \<open>\<^verbatim>\<open>operation_validate\<close>: the visitor.\<close>

definition operation_validate :: "externals \<Rightarrow> sophiatx_config \<Rightarrow> operation \<Rightarrow> unit result" where
  "operation_validate x c op =
     (case op of
        Transfer_op o' \<Rightarrow> transfer_validate o'
      | Transfer_to_vesting_op o' \<Rightarrow> transfer_to_vesting_validate o'
      | Withdraw_vesting_op o' \<Rightarrow> withdraw_vesting_validate o'
      | Feed_publish_op o' \<Rightarrow> feed_publish_validate o'
      | Account_create_op o' \<Rightarrow> account_create_validate x o'
      | Account_update_op o' \<Rightarrow> account_update_validate x o'
      | Account_delete_op o' \<Rightarrow> account_delete_validate o'
      | Witness_update_op o' \<Rightarrow> witness_update_validate c o'
      | Witness_stop_op o' \<Rightarrow> Inr ()
      | Account_witness_vote_op o' \<Rightarrow> account_witness_vote_validate o'
      | Account_witness_proxy_op o' \<Rightarrow> account_witness_proxy_validate o'
      | Witness_set_properties_op o' \<Rightarrow> witness_set_properties_validate x c o'
      | Custom_op o' \<Rightarrow> custom_validate o'
      | Custom_json_op o' \<Rightarrow> custom_json_validate x o'
      | Custom_binary_op o' \<Rightarrow> custom_validate o'
      | Request_account_recovery_op o' \<Rightarrow> request_account_recovery_validate o'
      | Recover_account_op o' \<Rightarrow> recover_account_validate o'
      | Change_recovery_account_op o' \<Rightarrow> change_recovery_account_validate o'
      | Escrow_transfer_op o' \<Rightarrow> escrow_transfer_validate x o'
      | Escrow_dispute_op o' \<Rightarrow> escrow_dispute_validate o'
      | Escrow_release_op o' \<Rightarrow> escrow_release_validate o'
      | Escrow_approve_op o' \<Rightarrow> escrow_approve_validate o'
      | Reset_account_op o' \<Rightarrow> reset_account_validate o'
      | Set_reset_account_op o' \<Rightarrow> set_reset_account_validate o'
      | Application_create_op o' \<Rightarrow> application_create_validate o'
      | Application_update_op o' \<Rightarrow> application_update_validate o'
      | Application_delete_op o' \<Rightarrow> application_delete_validate o'
      | Buy_application_op o' \<Rightarrow> buy_application_validate o'
      | Cancel_application_buying_op o' \<Rightarrow> cancel_application_buying_validate o'
      | Transfer_from_promotion_pool_op o' \<Rightarrow> transfer_from_promotion_pool_validate o'
      | Sponsor_fees_op o' \<Rightarrow> sponsor_fees_validate o'
      | Admin_witness_update_op o' \<Rightarrow> Inr ()
      | Virtual_op v \<Rightarrow> Inl (Assert_exception ''This is a virtual operation''))"

section \<open>Fees\<close>

definition base_required_fee :: "sophiatx_config \<Rightarrow> asset_symbol_type \<Rightarrow> asset" where
  "base_required_fee c s =
     (if s = SBD1_SYMBOL then cfg_base_fee_sbd1 c
      else if s = SBD2_SYMBOL then cfg_base_fee_sbd2 c
      else if s = SBD3_SYMBOL then cfg_base_fee_sbd3 c
      else if s = SBD4_SYMBOL then cfg_base_fee_sbd4 c
      else if s = SBD5_SYMBOL then cfg_base_fee_sbd5 c
      else cfg_base_fee c)"

text \<open>\<^verbatim>\<open>get_custom_fee\<close>: the size and the constants meet in unsigned 32-bit arithmetic, the constant
  in brackets is -1.\<close>

definition get_custom_fee :: "sophiatx_config \<Rightarrow> int \<Rightarrow> asset_symbol_type \<Rightarrow> asset result" where
  "get_custom_fee c payload_size s =
     (let size_multi = u32 (payload_size + (SIZE_INCREASE_PER_FEE - SIZE_COVERED_IN_BASE_FEE - 1)) div SIZE_INCREASE_PER_FEE in
      asset_scale (base_required_fee c s) (u32 (1 + size_multi)))"

definition get_required_fee :: "sophiatx_config \<Rightarrow> operation \<Rightarrow> asset_symbol_type \<Rightarrow> asset result" where
  "get_required_fee c op s =
     (case op of
        Transfer_op _ \<Rightarrow> Inr (base_required_fee c s)
      | Escrow_transfer_op _ \<Rightarrow> Inr (base_required_fee c s)
      | Escrow_approve_op _ \<Rightarrow> Inr (base_required_fee c s)
      | Escrow_dispute_op _ \<Rightarrow> Inr (base_required_fee c s)
      | Escrow_release_op _ \<Rightarrow> Inr (base_required_fee c s)
      | Witness_stop_op _ \<Rightarrow> Inr (base_required_fee c s)
      | Application_create_op _ \<Rightarrow> Inr (base_required_fee c s)
      | Application_update_op _ \<Rightarrow> Inr (base_required_fee c s)
      | Application_delete_op _ \<Rightarrow> Inr (base_required_fee c s)
      | Buy_application_op _ \<Rightarrow> Inr (base_required_fee c s)
      | Cancel_application_buying_op _ \<Rightarrow> Inr (base_required_fee c s)
      | Virtual_op _ \<Rightarrow> Inr (base_required_fee c s)
      | Custom_op o' \<Rightarrow> get_custom_fee c (u32 (int (length (cu_data o')))) s
      | Custom_json_op o' \<Rightarrow> get_custom_fee c (u32 (int (length (cj_json o')))) s
      | Custom_binary_op o' \<Rightarrow> get_custom_fee c (u32 (int (length (cu_data o')))) s
      | _ \<Rightarrow> Inr (Asset 0 s))"

definition has_special_fee :: "operation \<Rightarrow> bool" where
  "has_special_fee op = (case op of Account_create_op _ \<Rightarrow> True | _ \<Rightarrow> False)"

text \<open>The fee of a virtual operation is the default of the structure.\<close>

definition fee_of :: "operation \<Rightarrow> asset" where
  "fee_of op =
     (case op of
        Transfer_op o' \<Rightarrow> op_fee o' | Transfer_to_vesting_op o' \<Rightarrow> op_fee o' | Withdraw_vesting_op o' \<Rightarrow> op_fee o'
      | Feed_publish_op o' \<Rightarrow> op_fee o' | Account_create_op o' \<Rightarrow> op_fee o' | Account_update_op o' \<Rightarrow> op_fee o'
      | Account_delete_op o' \<Rightarrow> op_fee o' | Witness_update_op o' \<Rightarrow> op_fee o' | Witness_stop_op o' \<Rightarrow> op_fee o'
      | Account_witness_vote_op o' \<Rightarrow> op_fee o' | Account_witness_proxy_op o' \<Rightarrow> op_fee o'
      | Witness_set_properties_op o' \<Rightarrow> op_fee o' | Custom_op o' \<Rightarrow> op_fee o' | Custom_json_op o' \<Rightarrow> op_fee o'
      | Custom_binary_op o' \<Rightarrow> op_fee o' | Request_account_recovery_op o' \<Rightarrow> op_fee o'
      | Recover_account_op o' \<Rightarrow> op_fee o' | Change_recovery_account_op o' \<Rightarrow> op_fee o'
      | Escrow_transfer_op o' \<Rightarrow> op_fee o' | Escrow_dispute_op o' \<Rightarrow> op_fee o' | Escrow_release_op o' \<Rightarrow> op_fee o'
      | Escrow_approve_op o' \<Rightarrow> op_fee o' | Reset_account_op o' \<Rightarrow> op_fee o' | Set_reset_account_op o' \<Rightarrow> op_fee o'
      | Application_create_op o' \<Rightarrow> op_fee o' | Application_update_op o' \<Rightarrow> op_fee o'
      | Application_delete_op o' \<Rightarrow> op_fee o' | Buy_application_op o' \<Rightarrow> op_fee o'
      | Cancel_application_buying_op o' \<Rightarrow> op_fee o' | Transfer_from_promotion_pool_op o' \<Rightarrow> op_fee o'
      | Sponsor_fees_op o' \<Rightarrow> op_fee o' | Admin_witness_update_op o' \<Rightarrow> op_fee o'
      | Virtual_op _ \<Rightarrow> Asset 0 SOPHIATX_SYMBOL)"

definition is_fee_free_operation :: "operation \<Rightarrow> bool" where
  "is_fee_free_operation op \<longleftrightarrow> amount (fee_of op) = 0"

definition is_virtual_operation :: "operation \<Rightarrow> bool" where
  "is_virtual_operation op = (case op of Virtual_op _ \<Rightarrow> True | _ \<Rightarrow> False)"

definition sponsor_fee_payer :: "sponsor_fees_operation \<Rightarrow> account_name_type" where
  "sponsor_fee_payer o' = (if sf_sponsor o' = 0 then sf_sponsored o' else sf_sponsor o')"

definition fee_payer :: "operation \<Rightarrow> account_name_type" where
  "fee_payer op =
     (case op of
        Transfer_op o' \<Rightarrow> tr_from o' | Transfer_to_vesting_op o' \<Rightarrow> tv_from o' | Withdraw_vesting_op o' \<Rightarrow> wd_account o'
      | Feed_publish_op o' \<Rightarrow> fp_publisher o' | Account_create_op o' \<Rightarrow> ac_creator o'
      | Account_update_op o' \<Rightarrow> up_account o' | Account_delete_op o' \<Rightarrow> ad_account o'
      | Witness_update_op o' \<Rightarrow> wu_owner o' | Witness_stop_op o' \<Rightarrow> ws_owner o'
      | Account_witness_vote_op o' \<Rightarrow> vo_account o' | Account_witness_proxy_op o' \<Rightarrow> px_account o'
      | Witness_set_properties_op o' \<Rightarrow> sp_owner o' | Custom_op o' \<Rightarrow> cu_sender o' | Custom_json_op o' \<Rightarrow> cj_sender o'
      | Custom_binary_op o' \<Rightarrow> cu_sender o' | Request_account_recovery_op o' \<Rightarrow> rq_recovery_account o'
      | Recover_account_op o' \<Rightarrow> rc_account_to_recover o' | Change_recovery_account_op o' \<Rightarrow> ch_account_to_recover o'
      | Escrow_transfer_op o' \<Rightarrow> et_from o' | Escrow_dispute_op o' \<Rightarrow> ed_who o' | Escrow_release_op o' \<Rightarrow> er_who o'
      | Escrow_approve_op o' \<Rightarrow> ea_who o' | Reset_account_op o' \<Rightarrow> ra_reset_account o'
      | Set_reset_account_op o' \<Rightarrow> sr_account o' | Application_create_op o' \<Rightarrow> apc_author o'
      | Application_update_op o' \<Rightarrow> apu_author o' | Application_delete_op o' \<Rightarrow> apd_author o'
      | Buy_application_op o' \<Rightarrow> ba_buyer o' | Cancel_application_buying_op o' \<Rightarrow> ca_app_owner o'
      | Transfer_from_promotion_pool_op o' \<Rightarrow> pp_transfer_to o' | Sponsor_fees_op o' \<Rightarrow> sponsor_fee_payer o'
      | Admin_witness_update_op o' \<Rightarrow> aw_owner o' | Virtual_op _ \<Rightarrow> SOPHIATX_INIT_MINER_NAME)"

section \<open>Required authorities\<close>

definition required_active :: "operation \<Rightarrow> account_name_type list" where
  "required_active op =
     (case op of
        Transfer_op o' \<Rightarrow> if symbol (tr_amount o') \<noteq> VESTS_SYMBOL then [tr_from o'] else []
      | Transfer_to_vesting_op o' \<Rightarrow> [tv_from o'] | Withdraw_vesting_op o' \<Rightarrow> [wd_account o']
      | Feed_publish_op o' \<Rightarrow> [fp_publisher o'] | Account_create_op o' \<Rightarrow> [ac_creator o']
      | Account_update_op o' \<Rightarrow> if up_owner o' = None \<and> up_active o' = None then [up_account o'] else []
      | Witness_update_op o' \<Rightarrow> [wu_owner o'] | Witness_stop_op o' \<Rightarrow> [ws_owner o']
      | Account_witness_vote_op o' \<Rightarrow> [vo_account o'] | Account_witness_proxy_op o' \<Rightarrow> [px_account o']
      | Custom_op o' \<Rightarrow> [cu_sender o'] | Custom_json_op o' \<Rightarrow> [cj_sender o'] | Custom_binary_op o' \<Rightarrow> [cu_sender o']
      | Request_account_recovery_op o' \<Rightarrow> [rq_recovery_account o']
      | Escrow_transfer_op o' \<Rightarrow> [et_from o'] | Escrow_dispute_op o' \<Rightarrow> [ed_who o']
      | Escrow_release_op o' \<Rightarrow> [er_who o'] | Escrow_approve_op o' \<Rightarrow> [ea_who o']
      | Reset_account_op o' \<Rightarrow> [ra_reset_account o']
      | Application_create_op o' \<Rightarrow> [apc_author o'] | Application_update_op o' \<Rightarrow> [apu_author o']
      | Application_delete_op o' \<Rightarrow> [apd_author o'] | Buy_application_op o' \<Rightarrow> [ba_buyer o']
      | Cancel_application_buying_op o' \<Rightarrow> [ca_app_owner o']
      | Transfer_from_promotion_pool_op _ \<Rightarrow> [SOPHIATX_INIT_MINER_NAME]
      | Sponsor_fees_op o' \<Rightarrow> [sponsor_fee_payer o'] | Admin_witness_update_op _ \<Rightarrow> [SOPHIATX_INIT_MINER_NAME]
      | _ \<Rightarrow> [])"

definition required_owner :: "operation \<Rightarrow> account_name_type list" where
  "required_owner op =
     (case op of
        Transfer_op o' \<Rightarrow> if symbol (tr_amount o') = VESTS_SYMBOL then [tr_from o'] else []
      | Account_update_op o' \<Rightarrow> if up_owner o' \<noteq> None \<or> up_active o' \<noteq> None then [up_account o'] else []
      | Account_delete_op o' \<Rightarrow> [ad_account o']
      | Set_reset_account_op o' \<Rightarrow> if name_nonempty (sr_current_reset_account o') then [sr_account o'] else []
      | Change_recovery_account_op o' \<Rightarrow> [ch_account_to_recover o']
      | _ \<Rightarrow> [])"

definition single_key_authority :: "public_key_type \<Rightarrow> authority" where
  "single_key_authority k = add_key_authority k 1 (empty_authority\<lparr>weight_threshold := 1\<rparr>)"

definition required_other :: "externals \<Rightarrow> operation \<Rightarrow> authority list result" where
  "required_other x op =
     (case op of
        Witness_set_properties_op o' \<Rightarrow>
          (case map_of (sp_props o') ''key'' of
             None \<Rightarrow> Inr [add_account_authority SOPHIATX_NULL_ACCOUNT 1 (empty_authority\<lparr>weight_threshold := 1\<rparr>)]
           | Some v \<Rightarrow> ebind (prop_public_key 0 v) (\<lambda>k. Inr [single_key_authority k]))
      | Recover_account_op o' \<Rightarrow> Inr [rc_new_owner_authority o', rc_recent_owner_authority o']
      | _ \<Rightarrow> Inr [])"

section \<open>The fee of custom operations\<close>

lemma u32_wrap: "0 \<le> n \<Longrightarrow> n < 4294967296 \<Longrightarrow> u32 n = n"
  by (simp add: u32_def)

text \<open>The fee of a custom operation is the base fee for every started block of 4096 bytes, but an
  empty payload wraps around in 32-bit arithmetic and costs 1048576 base fees.\<close>

theorem custom_fee_by_size:
  "get_custom_fee c 0 s = asset_scale (base_required_fee c s) 1048576 \<and>
   (\<forall>n. 0 < n \<longrightarrow> n < 2 ^ 32 \<longrightarrow>
     get_custom_fee c n s = asset_scale (base_required_fee c s) ((n + 4095) div 4096))"
proof (intro conjI allI impI)
  show "get_custom_fee c 0 s = asset_scale (base_required_fee c s) 1048576"
    by (simp add: get_custom_fee_def SIZE_INCREASE_PER_FEE_def SIZE_COVERED_IN_BASE_FEE_def u32_def)
  fix n :: int
  assume n0: "0 < n" "n < 2 ^ 32"
  then have n: "0 < n" "n < 4294967296" by simp_all
  have "1 + (n - 1) div 4096 = (n + 4095) div 4096" by linarith
  moreover have "u32 (n - 1) = n - 1" using n by (intro u32_wrap) linarith+
  moreover have "u32 (1 + (n - 1) div 4096) = 1 + (n - 1) div 4096"
    using n by (intro u32_wrap) linarith+
  ultimately show "get_custom_fee c n s = asset_scale (base_required_fee c s) ((n + 4095) div 4096)"
    by (simp add: get_custom_fee_def SIZE_INCREASE_PER_FEE_def SIZE_COVERED_IN_BASE_FEE_def Let_def)
qed

theorem custom_fee_by_size_witness:
  "get_custom_fee (init_config (default_genesis 1)) 4097 SBD1_SYMBOL = Inr (Asset 20000 SBD1_SYMBOL)"
proof -
  have "get_custom_fee (init_config (default_genesis 1)) 4097 SBD1_SYMBOL =
      asset_scale (base_required_fee (init_config (default_genesis 1)) SBD1_SYMBOL) 2"
    using custom_fee_by_size [of "init_config (default_genesis 1)" SBD1_SYMBOL]
    by (auto dest: spec [of _ 4097])
  also have "\<dots> = Inr (Asset 20000 SBD1_SYMBOL)" by code_simp
  finally show ?thesis .
qed

section \<open>The check of names\<close>

text \<open>The check of account names in \<^verbatim>\<open>validation.hpp\<close> is vacuous: every name an operation can hold
  passes it, because the text of a 24-byte name always decodes to at most 24 bytes.\<close>

theorem validate_account_name_accepts_all:
  assumes "0 \<le> n" "n < 256 ^ 24"
  shows "validate_account_name n = Inr ()"
proof (cases "n = 0")
  case True
  then show ?thesis by (simp add: validate_account_name_def name_to_string_def normalize_to_base64m_def base64m_decode_def)
next
  case False
  let ?e = "base64m_encode (to_be 24 n)"
  have len: "length ?e = 32" by (simp add: encode_length to_be_length)
  have "\<not> (\<forall>c \<in> set ?e. c = CHR ''A'')"
  proof
    assume "\<forall>c \<in> set ?e. c = CHR ''A''"
    then have "?e = replicate 32 (CHR ''A'')" using len by (metis replicate_length_same)
    then have "to_be 24 n = replicate 24 0" using encode_zeros to_be_bytes to_be_length by metis
    with to_be_zeros assms False show False by blast
  qed
  then obtain t u where t: "strip_filler ?e = Inr t" "?e = t @ u" using strip_filler_prefix [of ?e] by auto
  have chars: "\<forall>c \<in> set t. is_base64m c"
    using encode_chars [of "to_be 24 n"] t(2) to_be_bytes to_be_length by fastforce
  have "3 * length t div 4 \<le> 24" using len t(2) by simp
  then have "length (base64m_decode (normalize_to_base64m t)) \<le> name_bytes"
    using decode_chunks_length [of t] by (simp add: normalize_id [OF chars] decode_base64m_chars [OF chars] name_bytes_def)
  moreover have "name_to_string n = Inr t"
    using False t(1) len by (auto simp: name_to_string_def fixed_string_to_string_def name_bytes_def Let_def to_be_length)
  ultimately show ?thesis by (simp add: validate_account_name_def)
qed

theorem validate_account_name_accepts_all_witness: "validate_account_name SOPHIATX_NULL_ACCOUNT = Inr ()"
  using validate_account_name_accepts_all [of SOPHIATX_NULL_ACCOUNT] by (simp add: special_names)

section \<open>Who pays\<close>

text \<open>The account charged with the fee has to authorise the operation, with its active or owner
  authority, except for the operations that carry the authority to check themselves
  (\<^verbatim>\<open>witness_set_properties\<close>, \<^verbatim>\<open>recover_account\<close>), the two reserved to the initial miner, and
  \<^verbatim>\<open>set_reset_account\<close> with an empty current reset account, which asks for no authority at all.\<close>

theorem fee_payer_authorises:
  "fee_payer op \<in> set (required_active op) \<union> set (required_owner op) \<or>
   (\<exists>o'. op = Witness_set_properties_op o') \<or> (\<exists>o'. op = Recover_account_op o') \<or>
   (\<exists>o'. op = Transfer_from_promotion_pool_op o') \<or> (\<exists>o'. op = Admin_witness_update_op o') \<or>
   (\<exists>o'. op = Set_reset_account_op o' \<and> sr_current_reset_account o' = 0) \<or> is_virtual_operation op"
  by (cases op) (auto simp: fee_payer_def required_active_def required_owner_def name_nonempty_def is_virtual_operation_def)

end
