(* ===== verification/Money_Evaluators.thy ===== *)
theory Money_Evaluators
  imports Sheet_Steps Operations
begin

text \<open>
  The evaluators of \<^verbatim>\<open>libraries/chain/sophiatx_evaluator.cpp\<close> that move coins: transfers, vesting,
  escrows, account creation and the promotion pool. Each \<^verbatim>\<open>do_apply\<close> is one definition, with its
  assertions and early returns in the order of the source, and each is shown to keep the
  supply equations; the locale \<open>money_keeper\<close> carries the property to loops over operations.
\<close>

section \<open>Transfers and vesting\<close>

definition private_net_forbidden :: "database \<Rightarrow> 'a result \<Rightarrow> 'a result" where
  "private_net_forbidden db k =
     FC_ASSERT (\<not> is_private_net db) ''This operation is not available in private nets'' k"

definition transfer_apply :: "transfer_operation \<Rightarrow> database \<Rightarrow> database result" where
  "transfer_apply o' db =
     private_net_forbidden db
     (ebind (get_account (tr_from o') db) (\<lambda>a.
      ebind (get_balance a (symbol (tr_amount o')) db) (\<lambda>b.
      ebind (asset_ge b (tr_amount o')) (\<lambda>ok.
      FC_ASSERT ok ''Account does not have sufficient funds for transfer.''
      (ebind (asset_neg (tr_amount o')) (\<lambda>d.
       ebind (adjust_balance (tr_from o') d db) (\<lambda>db1.
         adjust_balance (tr_to o') (tr_amount o') db1)))))))"

definition transfer_to_vesting_apply :: "transfer_to_vesting_operation \<Rightarrow> database \<Rightarrow> database result" where
  "transfer_to_vesting_apply o' db =
     private_net_forbidden db
     (ebind (get_account (tv_from o') db) (\<lambda>from_account.
      ebind (if name_nonempty (tv_to o') then get_account (tv_to o') db else Inr from_account) (\<lambda>to_account.
      ebind (get_balance from_account (cfg_symbol (db_cfg db)) db) (\<lambda>b.
      ebind (asset_ge b (tv_amount o')) (\<lambda>ok.
      FC_ASSERT ok ''Account does not have sufficient SOPHIATX for transfer.''
      (if acc_id from_account = acc_id to_account then vest (acc_name from_account) (amount (tv_amount o')) db
       else
         ebind (asset_neg (tv_amount o')) (\<lambda>d.
         ebind (adjust_balance (tv_from o') d db) (\<lambda>db1.
         ebind (adjust_balance (tv_to o') (tv_amount o') db1) (\<lambda>db2.
           vest (acc_name to_account) (amount (tv_amount o')) db2)))))))))"

definition stop_withdrawal :: "account_object \<Rightarrow> account_object" where
  "stop_withdrawal a = a\<lparr>vesting_withdraw_rate := Asset 0 VESTS_SYMBOL, next_vesting_withdrawal := time_point_max,
     to_withdraw := 0, withdrawn := 0\<rparr>"

definition start_withdrawal :: "asset \<Rightarrow> time_point_sec \<Rightarrow> share_type \<Rightarrow> account_object \<Rightarrow> account_object" where
  "start_withdrawal r now amt a =
     a\<lparr>vesting_withdraw_rate := r,
       next_vesting_withdrawal := u32 (now + SOPHIATX_VESTING_WITHDRAW_INTERVAL_SECONDS),
       to_withdraw := amt, withdrawn := 0\<rparr>"

definition withdraw_vesting_apply :: "withdraw_vesting_operation \<Rightarrow> database \<Rightarrow> database result" where
  "withdraw_vesting_apply o' db =
     private_net_forbidden db
     (ebind (get_account (wd_account o') db) (\<lambda>a.
      ebind (asset_ge (vesting_shares a) (Asset 0 VESTS_SYMBOL)) (\<lambda>ok1.
      FC_ASSERT ok1 ''Account does not have sufficient SophiaTX VESTS for withdraw.''
      (ebind (asset_ge (vesting_shares a) (wd_vesting_shares o')) (\<lambda>ok2.
      FC_ASSERT ok2 ''Account does not have sufficient SophiaTX VESTS for withdraw.''
      (if amount (wd_vesting_shares o') = 0 then
         FC_ASSERT (amount (vesting_withdraw_rate a) \<noteq> 0)
           ''This operation would not change the vesting withdraw rate.''
         (Inr (modify_account (wd_account o') stop_withdrawal db))
       else
         ebind (safe_div (amount (wd_vesting_shares o')) SOPHIATX_VESTING_WITHDRAW_INTERVALS) (\<lambda>q.
         let new_rate = Asset (if q = 0 then 1 else q) VESTS_SYMBOL in
         ebind (asset_ne (vesting_withdraw_rate a) new_rate) (\<lambda>changed.
         FC_ASSERT changed ''This operation would not change the vesting withdraw rate.''
         (ebind (case find_witness (wd_account o') db of
                   None \<Rightarrow> Inr True
                 | Some w \<Rightarrow>
                     if signing_key w = 0 then Inr True
                     else ebind (safe_sub (amount (vesting_shares a)) (amount (wd_vesting_shares o'))) (\<lambda>rest.
                       Inr (rest \<ge> amount (witness_required_vesting (db_dgp db))))) (\<lambda>keeps.
          FC_ASSERT keeps ''''
          (Inr (modify_account (wd_account o')
             (start_withdrawal new_rate (head_block_time db) (amount (wd_vesting_shares o'))) db))))))))))))"

section \<open>Escrows\<close>

definition new_escrow :: "escrow_transfer_operation \<Rightarrow> nat \<Rightarrow> escrow_object" where
  "new_escrow o' i =
     \<lparr>esc_id = i, escrow_id = et_escrow_id o', esc_from = et_from o', esc_to = et_to o', esc_agent = et_agent o',
      ratification_deadline = et_ratification_deadline o', escrow_expiration = et_escrow_expiration o',
      sophiatx_balance = et_sophiatx_amount o', pending_fee = et_escrow_fee o',
      to_approved = False, agent_approved = False, disputed = False\<rparr>"

definition escrow_transfer_apply :: "escrow_transfer_operation \<Rightarrow> database \<Rightarrow> database result" where
  "escrow_transfer_apply o' db =
     private_net_forbidden db
     (ebind (get_account (et_from o') db) (\<lambda>from_account.
      ebind (get_account (et_to o') db) (\<lambda>_.
      ebind (get_account (et_agent o') db) (\<lambda>_.
      FC_ASSERT (et_ratification_deadline o' > head_block_time db)
        ''The escorw ratification deadline must be after head block time.''
      (FC_ASSERT (et_escrow_expiration o' > head_block_time db)
        ''The escrow expiration must be after head block time.''
      (ebind (if symbol (et_escrow_fee o') = cfg_symbol (db_cfg db)
              then asset_add (et_sophiatx_amount o') (et_escrow_fee o') else Inr (et_sophiatx_amount o')) (\<lambda>spent.
       ebind (asset_ge (balance from_account) spent) (\<lambda>ok.
       FC_ASSERT ok ''Account cannot cover SOPHIATX costs of escrow.''
       (ebind (asset_neg spent) (\<lambda>d.
        ebind (adjust_balance (et_from o') d db) (\<lambda>db1.
          create_escrow (new_escrow o') db1)))))))))))"

definition escrow_refund :: "account_name_type \<Rightarrow> escrow_object \<Rightarrow> database \<Rightarrow> database result" where
  "escrow_refund from e db =
     ebind (adjust_balance from (sophiatx_balance e) db) (\<lambda>db1.
     ebind (adjust_balance from (pending_fee e) db1) (\<lambda>db2.
       Inr (remove_escrow (esc_key e) db2)))"

definition escrow_mark :: "escrow_approve_operation \<Rightarrow> escrow_object \<Rightarrow> escrow_object result" where
  "escrow_mark o' e =
     ebind (if ea_who o' = ea_to o' then
              FC_ASSERT (\<not> to_approved e) ''Account to has already approved the escrow.''
                (Inr (if ea_approve o' then e\<lparr>to_approved := True\<rparr> else e))
            else Inr e) (\<lambda>e1.
     if ea_who o' = ea_agent o' then
       FC_ASSERT (\<not> agent_approved e1) ''Account agent has already approved the escrow.''
         (Inr (if ea_approve o' then e1\<lparr>agent_approved := True\<rparr> else e1))
     else Inr e1)"

definition escrow_approve_apply :: "escrow_approve_operation \<Rightarrow> database \<Rightarrow> database result" where
  "escrow_approve_apply o' db =
     private_net_forbidden db
     (ebind (get_escrow (ea_from o') (ea_escrow_id o') db) (\<lambda>e.
      FC_ASSERT (esc_to e = ea_to o') ''Operation to does not match escrow to.''
      (FC_ASSERT (esc_agent e = ea_agent o') ''Operation agent does not match escrow agent.''
      (FC_ASSERT (ratification_deadline e \<ge> head_block_time db)
        ''The escrow ratification deadline has passed-> Escrow can no longer be ratified->''
      (ebind (escrow_mark o' e) (\<lambda>e1.
       let db1 = modify_escrow (esc_key e) (\<lambda>_. e1) db in
       if \<not> ea_approve o' then escrow_refund (ea_from o') e1 db1
       else if to_approved e1 \<and> agent_approved e1 then
         ebind (adjust_balance (ea_agent o') (pending_fee e1) db1) (\<lambda>db2.
           Inr (modify_escrow (esc_key e) (\<lambda>x. x\<lparr>pending_fee := (pending_fee x)\<lparr>amount := 0\<rparr>\<rparr>) db2))
       else Inr db1))))))"

definition escrow_dispute_apply :: "escrow_dispute_operation \<Rightarrow> database \<Rightarrow> database result" where
  "escrow_dispute_apply o' db =
     private_net_forbidden db
     (ebind (get_account (ed_from o') db) (\<lambda>_.
      ebind (get_escrow (ed_from o') (ed_escrow_id o') db) (\<lambda>e.
      FC_ASSERT (head_block_time db < escrow_expiration e) ''Disputing the escrow must happen before expiration.''
      (FC_ASSERT (to_approved e \<and> agent_approved e)
        ''The escrow must be approved by all parties before a dispute can be raised.''
      (FC_ASSERT (\<not> disputed e) ''The escrow is already under dispute.''
      (FC_ASSERT (esc_to e = ed_to o') ''Operation to does not match escrow to.''
      (FC_ASSERT (esc_agent e = ed_agent o') ''Operation agent does not match escrow agent.''
      (Inr (modify_escrow (esc_key e) (\<lambda>x. x\<lparr>disputed := True\<rparr>) db)))))))))"

text \<open>Who may release to whom: the agent alone in a dispute; otherwise one of the parties, before
  the expiration only to the other party.\<close>

definition release_permitted :: "account_name_type \<Rightarrow> account_name_type \<Rightarrow> time_point_sec \<Rightarrow> escrow_object
    \<Rightarrow> 'a result \<Rightarrow> 'a result" where
  "release_permitted who receiver now e k =
     (if disputed e then
        FC_ASSERT (who = esc_agent e) ''Only agent can release funds in a disputed escrow.'' k
      else
        FC_ASSERT (who = esc_from e \<or> who = esc_to e)
          ''Only from and to can release funds from a non-disputed escrow''
        (if escrow_expiration e > now then
           if who = esc_from e then
             FC_ASSERT (receiver = esc_to e) ''Only from can release funds to to.'' k
           else if who = esc_to e then
             FC_ASSERT (receiver = esc_from e) ''Only to can release funds to from.'' k
           else k
         else k))"

definition escrow_release_apply :: "escrow_release_operation \<Rightarrow> database \<Rightarrow> database result" where
  "escrow_release_apply o' db =
     private_net_forbidden db
     (ebind (get_account (er_from o') db) (\<lambda>_.
      ebind (get_escrow (er_from o') (er_escrow_id o') db) (\<lambda>e.
      ebind (asset_ge (sophiatx_balance e) (er_sophiatx_amount o')) (\<lambda>ok.
      FC_ASSERT ok ''Release amount exceeds escrow balance.''
      (FC_ASSERT (esc_to e = er_to o') ''Operation to does not match escrow to.''
      (FC_ASSERT (esc_agent e = er_agent o') ''Operation agent does not match escrow agent.''
      (FC_ASSERT (er_receiver o' = esc_from e \<or> er_receiver o' = esc_to e) ''Funds must be released to from or to''
      (FC_ASSERT (to_approved e \<and> agent_approved e) ''Funds cannot be released prior to escrow approval.''
      (release_permitted (er_who o') (er_receiver o') (head_block_time db) e
      (ebind (adjust_balance (er_receiver o') (er_sophiatx_amount o') db) (\<lambda>db1.
       ebind (asset_sub (sophiatx_balance e) (er_sophiatx_amount o')) (\<lambda>b.
       let db2 = modify_escrow (esc_key e) (\<lambda>x. x\<lparr>sophiatx_balance := b\<rparr>) db1 in
       Inr (if amount b = 0 then remove_escrow (esc_key e) db2 else db2)))))))))))))"

section \<open>Account creation\<close>

definition make_random_fixed_string :: "externals \<Rightarrow> string \<Rightarrow> string" where
  "make_random_fixed_string x seed = base64m_encode (take 20 (ripemd160 x seed) @ [0])"

definition verify_authority_accounts_exist :: "authority \<Rightarrow> database \<Rightarrow> unit result" where
  "verify_authority_accounts_exist au db =
     efold (\<lambda>aw _. FC_ASSERT (find_account (fst aw) db \<noteq> None)
       ''New authority on account references non-existing account'' (Inr ())) (account_auths au) ()"

definition required_creation_fee :: "database \<Rightarrow> asset" where
  "required_creation_fee db =
     (if is_private_net db then Asset 0 (cfg_symbol (db_cfg db))
      else Asset (amount (account_creation_fee (median_props (db_schedule db)))) (cfg_symbol (db_cfg db)))"

definition account_create_apply :: "externals \<Rightarrow> account_create_operation \<Rightarrow> database \<Rightarrow> database result" where
  "account_create_apply x o' db =
     (let c = db_cfg db; name = account_name (make_random_fixed_string x (ac_name_seed o')) in
      ebind (get_account (ac_creator o') db) (\<lambda>creator.
      ebind (if symbol (op_fee o') = cfg_symbol c then Inr (op_fee o') else to_sophiatx (op_fee o') db) (\<lambda>to_pay.
      FC_ASSERT (has_hardfork 1 db \<longrightarrow> length (ac_name_seed o') \<le> SOPHIATX_MAX_NAME_SEED_SIZE)
        ''Name seed is too large''
      (ebind (asset_ge (balance creator) to_pay) (\<lambda>ok1.
       FC_ASSERT ok1 ''Insufficient balance to create account.''
       (let required_fee = required_creation_fee db in
        ebind (asset_ge to_pay required_fee) (\<lambda>ok2.
        FC_ASSERT ok2 ''Insufficient Fee''
        (ebind (asset_sub to_pay required_fee) (\<lambda>excess_fee.
         ebind (verify_authority_accounts_exist (ac_owner o') db) (\<lambda>_.
         ebind (verify_authority_accounts_exist (ac_active o') db) (\<lambda>_.
         ebind (create_account (\<lambda>i. (new_account c i)\<lparr>acc_name := name, memo_key := ac_memo_key o',
                  acc_created := dgp_time (db_dgp db), mined := False, recovery_account := ac_creator o',
                  json_metadata := ac_json_metadata o'\<rparr>) db) (\<lambda>db1.
         ebind (create_account_authority \<lparr>au_account = name, au_owner = ac_owner o', au_active = ac_active o',
                  last_owner_update = 0\<rparr> db1) (\<lambda>db2.
         ebind (if amount required_fee > 0 then pay_fee (ac_creator o') required_fee db2 else Inr db2) (\<lambda>db3.
         if amount excess_fee > 0 then
           ebind (adjust_balance name excess_fee db3) (\<lambda>db4.
           ebind (asset_neg excess_fee) (\<lambda>d. adjust_balance (ac_creator o') d db4))
         else Inr db3))))))))))))))"

section \<open>The promotion pool\<close>

definition transfer_from_promotion_pool_apply ::
  "transfer_from_promotion_pool_operation \<Rightarrow> database \<Rightarrow> database result" where
  "transfer_from_promotion_pool_apply o' db =
     (let c = db_cfg db in
      private_net_forbidden db
      (ebind (get_account (pp_transfer_to o') db) (\<lambda>_.
       FC_ASSERT (amount (pp_amount o') > 0 \<and> symbol (pp_amount o') = cfg_symbol c) ''''
       (ebind (withdraw_from_promotion_pool c (amount (pp_amount o'), head_block_num db) (db_econ db)) (\<lambda>(taken, e).
        ebind (adjust_balance (pp_transfer_to o') (Asset taken (cfg_symbol c)) (db\<lparr>db_econ := e\<rparr>)) (\<lambda>db1.
          adjust_supply (Asset taken (cfg_symbol c)) db1))))))"

section \<open>The supply adds up after each of them\<close>

lemma private_net_forbidden_Inr [result_simps]:
  "private_net_forbidden db k = Inr y \<longleftrightarrow> \<not> is_private_net db \<and> k = Inr y"
  by (simp add: private_net_forbidden_def result_simps)

lemma asset_neg_Inr: "asset_neg a = Inr d \<Longrightarrow> amount d = - amount a \<and> symbol d = symbol a"
  by (auto simp: asset_neg_def result_simps)

lemma asset_ge_Inr: "asset_ge a b = Inr r \<longleftrightarrow> symbol a = symbol b \<and> r = (amount b \<le> amount a)"
  by (auto simp: asset_ge_def result_simps)

lemma asset_sub_InrD: "asset_sub a b = Inr c \<Longrightarrow> symbol a = symbol b \<and> symbol c = symbol a \<and> amount c = amount a - amount b"
  by (auto simp: asset_sub_Inr result_simps)

lemma transfer_apply_money_ok:
  assumes "transfer_apply o' db = Inr db'" "money_ok db"
  shows "money_ok db'"
proof -
  from assms(1) obtain d db1 where d: "asset_neg (tr_amount o') = Inr d"
    and 1: "adjust_balance (tr_from o') d db = Inr db1" and 2: "adjust_balance (tr_to o') (tr_amount o') db1 = Inr db'"
    by (auto simp: transfer_apply_def result_simps)
  from moves_trans [OF adjust_balance_moves [OF 1] adjust_balance_moves [OF 2]] assms(2) show ?thesis
    by (rule moves_money_ok) (simp add: asset_neg_Inr [OF d] balanced_def effect_defs)
qed

lemma vest_money_ok: "vest n d db = Inr db' \<Longrightarrow> money_ok db \<Longrightarrow> money_ok db'"
  using vesting.keeps [of "(n, d)"] by simp

lemma transfer_to_vesting_apply_money_ok:
  assumes "transfer_to_vesting_apply o' db = Inr db'" "money_ok db"
  shows "money_ok db'"
proof -
  from assms(1) consider n where "vest n (amount (tv_amount o')) db = Inr db'"
    | n d db1 db2 where "asset_neg (tv_amount o') = Inr d" "adjust_balance (tv_from o') d db = Inr db1"
      "adjust_balance (tv_to o') (tv_amount o') db1 = Inr db2" "vest n (amount (tv_amount o')) db2 = Inr db'"
    by (auto simp: transfer_to_vesting_apply_def result_simps split: if_splits)
  then show ?thesis
  proof cases
    case 1
    then show ?thesis using assms(2) by (rule vest_money_ok)
  next
    case 2
    from moves_trans [OF adjust_balance_moves [OF 2(2)] adjust_balance_moves [OF 2(3)]] assms(2)
    have "money_ok db2" by (rule moves_money_ok) (simp add: asset_neg_Inr [OF 2(1)] balanced_def effect_defs)
    with 2(4) show ?thesis by (rule vest_money_ok)
  qed
qed

lemma ledger_stop_withdrawal [frame, simp]: "ledger (modify_account n stop_withdrawal db) = ledger db"
  by (rule ledger_modify_account) (simp add: stop_withdrawal_def acct_money_def)

lemma ledger_start_withdrawal [frame, simp]: "ledger (modify_account n (start_withdrawal r t w) db) = ledger db"
  by (rule ledger_modify_account) (simp add: start_withdrawal_def acct_money_def)

lemma withdraw_vesting_apply_ledger [frame]: "withdraw_vesting_apply o' db = Inr db' \<Longrightarrow> ledger db' = ledger db"
  by (auto simp: withdraw_vesting_apply_def result_simps Let_def split: if_splits)

lemma escrow_transfer_apply_money_ok:
  assumes run: "escrow_transfer_apply o' db = Inr db'" and ok: "money_ok db"
    and syms: "symbol (et_escrow_fee o') = symbol (et_sophiatx_amount o')"
  shows "money_ok db'"
proof -
  from run obtain a spent d db1 where a: "find_account (et_from o') db = Some a"
    and spent: "(if symbol (et_escrow_fee o') = cfg_symbol (db_cfg db)
        then asset_add (et_sophiatx_amount o') (et_escrow_fee o') else Inr (et_sophiatx_amount o')) = Inr spent"
    and sb: "symbol (balance a) = symbol spent"
    and d: "asset_neg spent = Inr d" and 1: "adjust_balance (et_from o') d db = Inr db1"
    and 2: "create_escrow (new_escrow o') db1 = Inr db'"
    by (auto simp: escrow_transfer_apply_def result_simps asset_ge_Inr)
  have wf: "ledger_wf db" using ok by (simp add: money_ok_def)
  have "symbol (balance a) = cfg_symbol (db_cfg db)" using account_symbols [OF wf a] by (simp add: account_symbols_ok_def)
  with spent sb syms have sym: "symbol (et_escrow_fee o') = cfg_symbol (db_cfg db)"
    by (auto split: if_splits dest: asset_add_InrD)
  with spent have am: "amount spent = amount (et_sophiatx_amount o') + amount (et_escrow_fee o')"
    by (auto dest: asset_add_InrD)
  have cfg: "db_cfg db1 = db_cfg db" using moves_wf [OF adjust_balance_moves [OF 1] wf] by simp
  have "moves (in_escrow (amount (et_sophiatx_amount o') + amount (et_escrow_fee o'))) db1 db'"
    using create_escrow_moves [OF 2] sym syms
    by (simp add: escrow_symbols_ok_def new_escrow_def esc_money_def cfg)
  from moves_trans [OF adjust_balance_moves [OF 1] this] ok show ?thesis
    by (rule moves_money_ok) (simp add: asset_neg_Inr [OF d] am balanced_def effect_defs)
qed

lemma escrow_refund_money_ok:
  assumes run: "escrow_refund n e db = Inr db'" and e: "find_escrow f i db = Some e" and ok: "money_ok db"
  shows "money_ok db'"
proof -
  from run obtain db1 db2 where 1: "adjust_balance n (sophiatx_balance e) db = Inr db1"
    and 2: "adjust_balance n (pending_fee e) db1 = Inr db2" and db': "db' = remove_escrow (esc_key e) db2"
    by (auto simp: escrow_refund_def result_simps)
  have key: "esc_key e = (f, i)" using find_escrow_Some [OF e] by simp
  have "find_escrow f i db2 = Some e"
    using e adjust_balance_find_escrow [OF 1] adjust_balance_find_escrow [OF 2] by simp
  from moves_trans [OF moves_trans [OF adjust_balance_moves [OF 1] adjust_balance_moves [OF 2]]
      remove_escrow_moves [OF this]] ok
  show ?thesis unfolding db' key by (rule moves_money_ok) (simp add: balanced_def effect_defs esc_money_def)
qed

lemma escrow_mark_keeps:
  assumes "escrow_mark o' e = Inr e1"
  shows "esc_key e1 = esc_key e \<and> sophiatx_balance e1 = sophiatx_balance e \<and> pending_fee e1 = pending_fee e \<and>
    (\<not> ea_approve o' \<longrightarrow> e1 = e)"
  using assms by (auto simp: escrow_mark_def result_simps esc_key_def split: if_splits)

lemma escrow_approve_apply_money_ok:
  assumes run: "escrow_approve_apply o' db = Inr db'" and ok: "money_ok db"
  shows "money_ok db'"
proof -
  let ?n = "ea_from o'" and ?i = "ea_escrow_id o'"
  from run obtain e e1 where e: "find_escrow ?n ?i db = Some e" and mark: "escrow_mark o' e = Inr e1"
    and rest: "(let db1 = modify_escrow (esc_key e) (\<lambda>_. e1) db in
       if \<not> ea_approve o' then escrow_refund ?n e1 db1
       else if to_approved e1 \<and> agent_approved e1 then
         ebind (adjust_balance (ea_agent o') (pending_fee e1) db1) (\<lambda>db2.
           Inr (modify_escrow (esc_key e) (\<lambda>x. x\<lparr>pending_fee := (pending_fee x)\<lparr>amount := 0\<rparr>\<rparr>) db2))
       else Inr db1) = Inr db'"
    by (auto simp: escrow_approve_apply_def result_simps)
  let ?db1 = "modify_escrow (?n, ?i) (\<lambda>_. e1) db"
  have key: "esc_key e = (?n, ?i)" using find_escrow_Some [OF e] by simp
  note same = escrow_mark_keeps [OF mark]
  have "moves (in_escrow (esc_money e1 - esc_money e)) db ?db1"
    by (rule modify_escrow_moves [OF e]) (use same key in \<open>simp_all add: escrow_symbols_ok_def\<close>)
  then have ok1: "money_ok ?db1"
    using ok by (rule moves_money_ok) (simp add: same esc_money_def in_escrow_def balanced_def)
  have e1: "find_escrow ?n ?i ?db1 = Some e1"
    by (rule find_escrow_modify [OF e, of "\<lambda>_. e1"]) (use same key in simp)
  note rest' = rest [unfolded key Let_def]
  consider "escrow_refund ?n e1 ?db1 = Inr db'"
    | db2 where "adjust_balance (ea_agent o') (pending_fee e1) ?db1 = Inr db2"
      "db' = modify_escrow (?n, ?i) (\<lambda>x. x\<lparr>pending_fee := (pending_fee x)\<lparr>amount := 0\<rparr>\<rparr>) db2"
    | "db' = ?db1"
    by (cases "ea_approve o'"; cases "to_approved e1 \<and> agent_approved e1")
      (use rest' in \<open>auto simp: ebind_eq_Inr\<close>)
  then show ?thesis
  proof cases
    case 1
    then show ?thesis using e1 ok1 by (rule escrow_refund_money_ok)
  next
    case 2
    have e2: "find_escrow ?n ?i db2 = Some e1" using e1 adjust_balance_find_escrow [OF 2(1)] by simp
    have "moves (in_escrow (- amount (pending_fee e1))) db2 db'"
      unfolding 2(2) using modify_escrow_moves [OF e2, of "\<lambda>x. x\<lparr>pending_fee := (pending_fee x)\<lparr>amount := 0\<rparr>\<rparr>"]
      by (simp add: esc_key_def escrow_symbols_ok_def esc_money_def)
    from moves_trans [OF adjust_balance_moves [OF 2(1)] this] ok1 show ?thesis
      by (rule moves_money_ok) (simp add: balanced_def effect_defs)
  next
    case 3
    then show ?thesis using ok1 by simp
  qed
qed

lemma escrow_dispute_apply_money_ok:
  assumes run: "escrow_dispute_apply o' db = Inr db'" and ok: "money_ok db"
  shows "money_ok db'"
proof -
  from run obtain e where e: "find_escrow (ed_from o') (ed_escrow_id o') db = Some e"
    and db': "db' = modify_escrow (esc_key e) (\<lambda>x. x\<lparr>disputed := True\<rparr>) db"
    by (auto simp: escrow_dispute_apply_def result_simps)
  have key: "esc_key e = (ed_from o', ed_escrow_id o')" using find_escrow_Some [OF e] by simp
  have "moves (in_escrow 0) db db'"
    unfolding db' key using modify_escrow_moves [OF e, of "\<lambda>x. x\<lparr>disputed := True\<rparr>"]
    by (simp add: esc_key_def escrow_symbols_ok_def esc_money_def)
  then show ?thesis using ok by (rule moves_money_ok) (simp add: in_escrow_def)
qed

lemma release_permitted_Inr: "release_permitted w r now e k = Inr y \<Longrightarrow> k = Inr y"
  by (auto simp: release_permitted_def result_simps split: if_splits)

lemma escrow_release_cases:
  assumes "escrow_release_apply o' db = Inr db'"
  obtains e db1 b where "find_escrow (er_from o') (er_escrow_id o') db = Some e"
    "to_approved e \<and> agent_approved e"
    "adjust_balance (er_receiver o') (er_sophiatx_amount o') db = Inr db1"
    "asset_sub (sophiatx_balance e) (er_sophiatx_amount o') = Inr b"
    "db' = (let db2 = modify_escrow (esc_key e) (\<lambda>x. x\<lparr>sophiatx_balance := b\<rparr>) db1 in
       if amount b = 0 then remove_escrow (esc_key e) db2 else db2)"
  using assms
  by (auto simp: escrow_release_apply_def result_simps Let_def dest!: release_permitted_Inr)

lemma escrow_release_apply_money_ok:
  assumes run: "escrow_release_apply o' db = Inr db'" and ok: "money_ok db" and settled: "escrows_settled db"
  shows "money_ok db'"
proof -
  let ?n = "er_from o'" and ?i = "er_escrow_id o'"
  from run obtain e db1 b where e: "find_escrow ?n ?i db = Some e" and app: "to_approved e \<and> agent_approved e"
    and 1: "adjust_balance (er_receiver o') (er_sophiatx_amount o') db = Inr db1"
    and b: "asset_sub (sophiatx_balance e) (er_sophiatx_amount o') = Inr b"
    and db': "db' = (let db2 = modify_escrow (esc_key e) (\<lambda>x. x\<lparr>sophiatx_balance := b\<rparr>) db1 in
       if amount b = 0 then remove_escrow (esc_key e) db2 else db2)"
    by (rule escrow_release_cases)
  let ?f = "\<lambda>x. x\<lparr>sophiatx_balance := b\<rparr>"
  let ?db2 = "modify_escrow (?n, ?i) ?f db1"
  have key: "esc_key e = (?n, ?i)" using find_escrow_Some [OF e] by simp
  have e1: "find_escrow ?n ?i db1 = Some e" using e adjust_balance_find_escrow [OF 1] by simp
  have "moves (in_escrow (esc_money (?f e) - esc_money e)) db1 ?db2"
    using asset_sub_InrD [OF b] by (intro modify_escrow_moves [OF e1]) (auto simp: esc_key_def escrow_symbols_ok_def)
  then have m2: "moves (in_escrow (- amount (er_sophiatx_amount o'))) db1 ?db2"
    using asset_sub_InrD [OF b] by (simp add: esc_money_def)
  have e2: "find_escrow ?n ?i ?db2 = Some (?f e)" by (rule find_escrow_modify [OF e1]) (simp add: esc_key_def)
  have ok2: "money_ok ?db2"
    using moves_trans [OF adjust_balance_moves [OF 1] m2] ok by (rule moves_money_ok) (simp add: balanced_def effect_defs)
  show ?thesis
  proof (cases "amount b = 0")
    case True
    have "moves (in_escrow (- esc_money (?f e))) ?db2 db'"
      using remove_escrow_moves [OF e2] True by (simp add: db' key)
    moreover have "esc_money (?f e) = 0"
      using settled_lookup [OF settled e] app True by (simp add: escrow_settled_def is_approved_def esc_money_def)
    ultimately show ?thesis using ok2 by (auto intro: moves_money_ok simp: in_escrow_def)
  next
    case False
    then show ?thesis using ok2 by (simp add: db' key)
  qed
qed

text \<open>The fees of the escrows stay settled.\<close>

lemma escrow_transfer_apply_settled:
  "escrow_transfer_apply o' db = Inr db' \<Longrightarrow> escrows_settled db \<Longrightarrow> escrows_settled db'"
  by (auto simp: escrow_transfer_apply_def result_simps settled_same [OF adjust_balance_escrows]
      escrow_settled_def is_approved_def new_escrow_def elim!: settled_create)

lemma escrow_refund_settled: "escrow_refund n e db = Inr db' \<Longrightarrow> escrows_settled db \<Longrightarrow> escrows_settled db'"
  by (auto simp: escrow_refund_def result_simps settled_same [OF adjust_balance_escrows] intro: settled_remove)

lemma escrow_dispute_apply_settled:
  "escrow_dispute_apply o' db = Inr db' \<Longrightarrow> escrows_settled db \<Longrightarrow> escrows_settled db'"
  by (auto simp: escrow_dispute_apply_def result_simps escrow_settled_def is_approved_def intro!: settled_modify)

lemma escrow_release_apply_settled:
  assumes "escrow_release_apply o' db = Inr db'" "escrows_settled db"
  shows "escrows_settled db'"
proof -
  from assms(1) obtain e db1 b where 1: "adjust_balance (er_receiver o') (er_sophiatx_amount o') db = Inr db1"
    and db': "db' = (let db2 = modify_escrow (esc_key e) (\<lambda>x. x\<lparr>sophiatx_balance := b\<rparr>) db1 in
       if amount b = 0 then remove_escrow (esc_key e) db2 else db2)"
    by (rule escrow_release_cases)
  have "escrows_settled db1" using assms(2) settled_same [OF adjust_balance_escrows [OF 1]] by simp
  then have "escrows_settled (modify_escrow (esc_key e) (\<lambda>x. x\<lparr>sophiatx_balance := b\<rparr>) db1)"
    by (rule settled_modify) (simp add: escrow_settled_def is_approved_def)
  then show ?thesis by (simp add: db' Let_def settled_remove)
qed

lemma escrow_approve_apply_settled:
  assumes run: "escrow_approve_apply o' db = Inr db'" and settled: "escrows_settled db"
    and wf: "distinct (map esc_key (rows (db_escrows db)))"
  shows "escrows_settled db'"
proof -
  let ?n = "ea_from o'" and ?i = "ea_escrow_id o'"
  let ?clear = "\<lambda>x. x\<lparr>pending_fee := (pending_fee x)\<lparr>amount := 0\<rparr>\<rparr>"
  from run obtain e e1 where e: "find_escrow ?n ?i db = Some e" and mark: "escrow_mark o' e = Inr e1"
    and rest: "(let db1 = modify_escrow (esc_key e) (\<lambda>_. e1) db in
       if \<not> ea_approve o' then escrow_refund ?n e1 db1
       else if to_approved e1 \<and> agent_approved e1 then
         ebind (adjust_balance (ea_agent o') (pending_fee e1) db1) (\<lambda>db2. Inr (modify_escrow (esc_key e) ?clear db2))
       else Inr db1) = Inr db'"
    by (auto simp: escrow_approve_apply_def result_simps)
  let ?db1 = "modify_escrow (esc_key e) (\<lambda>_. e1) db"
  note rest' = rest [unfolded Let_def]
  have old: "escrow_settled e" using settled_lookup [OF settled e] .
  have others: "list_all escrow_settled (filter (\<lambda>x. esc_key x \<noteq> esc_key e) (rows (db_escrows ?db1)))"
    using settled escrow_mark_keeps [OF mark]
    by (auto simp: escrows_settled_def modify_escrow_def modify_by_def list_all_iff)
  consider "\<not> ea_approve o'" | "ea_approve o'" "\<not> (to_approved e1 \<and> agent_approved e1)"
    | "ea_approve o'" "to_approved e1 \<and> agent_approved e1" by blast
  then show ?thesis
  proof cases
    case 1
    then have "e1 = e" using escrow_mark_keeps [OF mark] by simp
    then have "escrows_settled ?db1" using settled old by (auto intro: settled_modify)
    with rest' 1 show ?thesis by (auto intro: escrow_refund_settled)
  next
    case 2
    then have "db' = ?db1" using rest' by (auto split: if_splits)
    moreover have "escrow_settled e1" using 2 by (auto simp: escrow_settled_def is_approved_def)
    ultimately show ?thesis using settled by (auto intro: settled_modify)
  next
    case 3
    with rest' obtain db2 where 2: "adjust_balance (ea_agent o') (pending_fee e1) ?db1 = Inr db2"
      and db': "db' = modify_escrow (esc_key e) ?clear db2" by (auto simp: ebind_eq_Inr)
    have "list_all escrow_settled (filter (\<lambda>x. esc_key x \<noteq> esc_key e) (rows (db_escrows db2)))"
      using others adjust_balance_escrows [OF 2] by simp
    then show ?thesis
      unfolding db' by (auto simp: escrows_settled_def modify_escrow_def modify_by_def list_all_iff escrow_settled_def)
  qed
qed

section \<open>Account creation and the promotion pool\<close>

lemma create_account_authority_frames:
  "create_account_authority a db = Inr db' \<Longrightarrow> ledger db' = ledger db \<and> db_escrows db' = db_escrows db"
  by (auto simp: ledger_def create_account_authority_def ebind_eq_Inr)

lemma account_create_apply_inv:
  assumes run: "account_create_apply x o' db = Inr db'" and ok: "money_ok db"
  shows "money_ok db' \<and> rows (db_escrows db') = rows (db_escrows db)"
proof -
  from run obtain name mk db1 au db2 fe ex db3 where
    c: "create_account (\<lambda>i. (new_account (db_cfg db) i)\<lparr>acc_name := name, memo_key := ac_memo_key o',
                  acc_created := dgp_time (db_dgp db), mined := False, recovery_account := ac_creator o',
                  json_metadata := ac_json_metadata o'\<rparr>) db = Inr db1"
    and au: "create_account_authority au db1 = Inr db2"
    and f: "(if amount fe > 0 then pay_fee (ac_creator o') fe db2 else Inr db2) = Inr db3"
    and e: "(if amount ex > 0 then ebind (adjust_balance name ex db3) (\<lambda>db4.
           ebind (asset_neg ex) (\<lambda>d. adjust_balance (ac_creator o') d db4)) else Inr db3) = Inr db'"
    unfolding account_create_apply_def Let_def ebind_eq_Inr FC_ASSERT_eq_Inr by blast
  have m1: "moves id db db1"
    using c by (rule create_account_moves) (simp_all add: account_symbols_ok_def new_account_def)
  note kept = create_account_authority_frames [OF au]
  have ok2: "money_ok db2" using moves_money_ok [OF m1 ok] ledger_eq_money_ok(3) [of db2 db1] kept by simp
  have esc2: "rows (db_escrows db2) = rows (db_escrows db)" using create_account_escrows [OF c] kept by simp
  have "money_ok db3 \<and> rows (db_escrows db3) = rows (db_escrows db)"
    using f ok2 esc2 fee.keeps [of "(ac_creator o', fe)" db2 db3]
    by (auto split: if_splits dest: pay_fee_escrows)
  moreover have "money_ok db' \<and> rows (db_escrows db') = rows (db_escrows db3)" if "money_ok db3"
  proof (cases "amount ex > 0")
    case True
    with e obtain db4 d where 4: "adjust_balance name ex db3 = Inr db4" and d: "asset_neg ex = Inr d"
      and 5: "adjust_balance (ac_creator o') d db4 = Inr db'" by (auto simp: ebind_eq_Inr)
    from moves_trans [OF adjust_balance_moves [OF 4] adjust_balance_moves [OF 5]] that
    have "money_ok db'" by (rule moves_money_ok) (simp add: asset_neg_Inr [OF d] balanced_def effect_defs)
    then show ?thesis using adjust_balance_escrows [OF 4] adjust_balance_escrows [OF 5] by simp
  next
    case False
    then show ?thesis using e that by simp
  qed
  ultimately show ?thesis by simp
qed

lemma transfer_from_promotion_pool_apply_inv:
  assumes run: "transfer_from_promotion_pool_apply o' db = Inr db'" and ok: "money_ok db"
  shows "money_ok db' \<and> rows (db_escrows db') = rows (db_escrows db)"
proof -
  let ?s = "cfg_symbol (db_cfg db)"
  from run obtain a taken e db1 where
    w: "withdraw_from_promotion_pool (db_cfg db) a (db_econ db) = Inr (taken, e)"
    and 1: "adjust_balance (pp_transfer_to o') (Asset taken ?s) (db\<lparr>db_econ := e\<rparr>) = Inr db1"
    and 2: "adjust_supply (Asset taken ?s) db1 = Inr db'"
    by (auto simp: transfer_from_promotion_pool_apply_def Let_def result_simps)
  have pools: "pool_total e = pool_total (db_econ db) - taken"
    using promotion.draw_conserves [OF w] by simp
  from moves_trans [OF moves_trans [OF with_econ_moves [of e db] adjust_balance_moves [OF 1]] adjust_supply_moves [OF 2]] ok
  have "money_ok db'"
    by (auto simp: moves_def money_ok_def balanced_def effect_defs pools)
  then show ?thesis using adjust_balance_escrows [OF 1] adjust_supply_escrows [OF 2] by simp
qed

end
