(* ===== verification/Account_Evaluators.thy ===== *)
theory Account_Evaluators
  imports Money_Evaluators
begin

text \<open>
  The evaluators of \<^verbatim>\<open>libraries/chain/sophiatx_evaluator.cpp\<close> for witnesses, authorities, account
  recovery and account reset. None of them moves coins: each is an instance of \<open>ledger_frame\<close>.
\<close>

section \<open>Witnesses\<close>

definition witness_stop_apply :: "witness_stop_operation \<Rightarrow> database \<Rightarrow> database result" where
  "witness_stop_apply o' db =
     ebind (get_account (ws_owner o') db) (\<lambda>_.
     case find_witness (ws_owner o') db of
       None \<Rightarrow> Inr db
     | Some _ \<Rightarrow> Inr (modify_witness (ws_owner o') (\<lambda>w. w\<lparr>signing_key := 0\<rparr>) db))"

text \<open>The assignment of the properties of an operation; the price feeds are cleared afterwards.\<close>

definition set_witness :: "string \<Rightarrow> public_key_type \<Rightarrow> chain_properties \<Rightarrow> witness_object \<Rightarrow> witness_object" where
  "set_witness url key props w =
     w\<lparr>wit_url := url, signing_key := key, stopped := (if key = 0 then True else stopped w),
       wit_props := props\<lparr>price_feeds := []\<rparr>\<rparr>"

definition free_creation :: "sophiatx_config \<Rightarrow> chain_properties \<Rightarrow> chain_properties" where
  "free_creation c props = props\<lparr>account_creation_fee := Asset 0 (cfg_symbol c)\<rparr>"

text \<open>The rate is stored with SOPHIATX as its base.\<close>

definition base_in_sphtx :: "sophiatx_config \<Rightarrow> price \<Rightarrow> price" where
  "base_in_sphtx c r = (if symbol (base r) = cfg_symbol c then r else \<lparr>base = quote r, quote = base r\<rparr>)"

definition set_rate :: "asset_symbol_type \<Rightarrow> price \<Rightarrow> time_point_sec \<Rightarrow> witness_object \<Rightarrow> witness_object" where
  "set_rate s r now w =
     w\<lparr>submitted_exchange_rates := flat_insert s \<lparr>rate = r, last_change = now\<rparr> (submitted_exchange_rates w)\<rparr>"

definition create_new_witness ::
  "account_name_type \<Rightarrow> string \<Rightarrow> public_key_type \<Rightarrow> chain_properties \<Rightarrow> database \<Rightarrow> database result" where
  "create_new_witness owner url key props db =
     create_witness (\<lambda>i. (new_witness (db_cfg db) i)\<lparr>wit_owner := owner, wit_url := url, signing_key := key,
       wit_created := head_block_time db, wit_props := props\<lparr>price_feeds := []\<rparr>\<rparr>) db"

definition witness_update_apply :: "externals \<Rightarrow> witness_update_operation \<Rightarrow> database \<Rightarrow> database result" where
  "witness_update_apply x o' db =
     (let c = db_cfg db; owner = wu_owner o'; props = wu_props o' in
      if is_private_net db then
        FC_ASSERT (find_witness owner db \<noteq> None) ''only initminer can select witnesses''
          (Inr (modify_witness owner (set_witness (wu_url o') (wu_block_signing_key o') (free_creation c props)) db))
      else
        ebind (get_account owner db) (\<lambda>acn.
        ebind (asset_ge (vesting_shares acn) (witness_required_vesting (db_dgp db))) (\<lambda>ok.
        FC_ASSERT ok ''witness requires at least ${a} of vested balance''
        (FC_ASSERT (is_producing x \<longrightarrow> maximum_block_size props \<le> cfg_max_block_size c) ''''
        (case find_witness owner db of
           Some _ \<Rightarrow>
             Inr (modify_witness owner (\<lambda>w.
               fold (\<lambda>(s, r). set_rate s (base_in_sphtx c r) (head_block_time db)) (price_feeds props)
                 (set_witness (wu_url o') (wu_block_signing_key o') props w)) db)
         | None \<Rightarrow> create_new_witness owner (wu_url o') (wu_block_signing_key o') props db)))))"

definition admin_witness_update_apply :: "admin_witness_update_operation \<Rightarrow> database \<Rightarrow> database result" where
  "admin_witness_update_apply o' db =
     FC_ASSERT (is_private_net db) ''this operation can be used only in private nets''
     (case find_witness (aw_owner o') db of
        None \<Rightarrow> create_new_witness (aw_owner o') (aw_url o') (aw_block_signing_key o') (aw_props o') db
      | Some _ \<Rightarrow> Inr (modify_witness (aw_owner o')
          (set_witness (aw_url o') (aw_block_signing_key o') (free_creation (db_cfg db) (aw_props o'))) db))"

text \<open>\<^verbatim>\<open>witness_set_properties\<close>: an optional member of the operation, unpacked when present and
  when it is not ignored on this network.\<close>

definition opt_prop :: "string \<Rightarrow> (string \<times> nat list) list \<Rightarrow> bool \<Rightarrow> (nat list \<Rightarrow> 'a result) \<Rightarrow> 'a option result" where
  "opt_prop key ps used unpack =
     (case map_of ps key of
        None \<Rightarrow> Inr None
      | Some v \<Rightarrow> if used then ebind (unpack v) (\<lambda>r. Inr (Some r)) else Inr None)"

definition upd_opt :: "('a \<Rightarrow> 'w \<Rightarrow> 'w) \<Rightarrow> 'a option \<Rightarrow> 'w \<Rightarrow> 'w" where
  "upd_opt f v w = (case v of None \<Rightarrow> w | Some r \<Rightarrow> f r w)"

definition witness_set_properties_apply ::
  "externals \<Rightarrow> witness_set_properties_operation \<Rightarrow> database \<Rightarrow> database result" where
  "witness_set_properties_apply x o' db =
     (let c = db_cfg db; ps = sp_props o'; public = \<not> is_private_net db in
      ebind (get_witness (sp_owner o') db) (\<lambda>w.
      ebind (case map_of ps ''key'' of None \<Rightarrow> Inl Null_dereference | Some v \<Rightarrow> prop_public_key 0 v) (\<lambda>k.
      FC_ASSERT (k = signing_key w) ''key does not match witness signing key.''
      (ebind (opt_prop ''account_creation_fee'' ps public (prop_asset (account_creation_fee (default_chain_properties c)))) (\<lambda>fe.
       ebind (opt_prop ''maximum_block_size'' ps True (prop_uint32 (maximum_block_size (default_chain_properties c)))) (\<lambda>mb.
       FC_ASSERT (case mb of None \<Rightarrow> True | Some b \<Rightarrow> b \<le> cfg_max_block_size c) ''''
       (ebind (opt_prop ''new_signing_key'' ps True (prop_public_key k)) (\<lambda>nk.
        ebind (opt_prop ''exchange_rates'' ps public (prop_prices (memory_sizes x))) (\<lambda>rs.
        ebind (opt_prop ''url'' ps True prop_string) (\<lambda>u.
          Inr (modify_witness (sp_owner o') (\<lambda>w.
            upd_opt (\<lambda>v w. w\<lparr>wit_url := v\<rparr>) u
            (upd_opt (\<lambda>v w. fold (\<lambda>r. set_rate (symbol (quote (base_in_sphtx c r))) (base_in_sphtx c r) (head_block_time db)) v w) rs
            (upd_opt (\<lambda>v w. w\<lparr>signing_key := v\<rparr>) nk
            (upd_opt (\<lambda>v w. w\<lparr>wit_props := (wit_props w)\<lparr>maximum_block_size := v\<rparr>\<rparr>) mb
            (upd_opt (\<lambda>v w. w\<lparr>wit_props := (wit_props w)\<lparr>account_creation_fee := v\<rparr>\<rparr>) fe w))))) db)))))))))))"

definition feed_publish_apply :: "feed_publish_operation \<Rightarrow> database \<Rightarrow> database result" where
  "feed_publish_apply o' db =
     private_net_forbidden db
     (let new_rate = base_in_sphtx (db_cfg db) (fp_exchange_rate o') in
      ebind (get_witness (fp_publisher o') db) (\<lambda>_.
        Inr (modify_witness (fp_publisher o') (set_rate (symbol (quote new_rate)) new_rate (head_block_time db)) db)))"

section \<open>Authorities\<close>

definition update_owner_authority :: "account_name_type \<Rightarrow> authority \<Rightarrow> database \<Rightarrow> database result" where
  "update_owner_authority n au db =
     ebind (get_account_authority n db) (\<lambda>old.
       Inr (modify_account_authority n (\<lambda>a. a\<lparr>au_owner := au, last_owner_update := head_block_time db\<rparr>)
         (db\<lparr>db_owner_history := append_row \<lparr>oh_id = next_id (db_owner_history db), oh_account = n,
            previous_owner_authority = au_owner old, last_valid_time = head_block_time db\<rparr> (db_owner_history db)\<rparr>)))"

definition account_update_apply :: "account_update_operation \<Rightarrow> database \<Rightarrow> database result" where
  "account_update_apply o' db =
     (let n = up_account o' in
      FC_ASSERT (n \<noteq> SOPHIATX_TEMP_ACCOUNT) ''Cannot update temp account.''
      (ebind (get_account n db) (\<lambda>_.
       ebind (get_account_authority n db) (\<lambda>auth.
       ebind (case up_owner o' of
                None \<Rightarrow> Inr db
              | Some ow \<Rightarrow>
                  FC_ASSERT (head_block_time db - last_owner_update auth > SOPHIATX_OWNER_UPDATE_LIMIT)
                    ''Owner authority can only be updated once an hour.''
                  (ebind (verify_authority_accounts_exist ow db) (\<lambda>_. update_owner_authority n ow db))) (\<lambda>db1.
       ebind (case up_active o' of None \<Rightarrow> Inr () | Some ac \<Rightarrow> verify_authority_accounts_exist ac db1) (\<lambda>_.
       let db2 = modify_account n (\<lambda>a. a\<lparr>memo_key := (if up_memo_key o' \<noteq> 0 then up_memo_key o' else memo_key a),
                   last_account_update := head_block_time db1,
                   json_metadata := (if length (up_json_metadata o') > 0 then up_json_metadata o' else json_metadata a)\<rparr>) db1 in
       Inr (case up_active o' of None \<Rightarrow> db2
            | Some ac \<Rightarrow> modify_account_authority n (\<lambda>a. a\<lparr>au_active := ac\<rparr>) db2)))))))"

definition deleted_account_json :: string where
  "deleted_account_json = ''{'' @ [CHR 0x22] @ ''deleted_account'' @ [CHR 0x22] @ ''}''"

definition account_delete_apply :: "account_delete_operation \<Rightarrow> database \<Rightarrow> database result" where
  "account_delete_apply o' db =
     (let n = ad_account o'; au = single_key_authority 0 in
      FC_ASSERT (n \<noteq> SOPHIATX_TEMP_ACCOUNT) ''Cannot update temp account.''
      (ebind (get_account n db) (\<lambda>_.
       ebind (get_account_authority n db) (\<lambda>auth.
       FC_ASSERT (head_block_time db - last_owner_update auth > SOPHIATX_OWNER_UPDATE_LIMIT)
         ''Owner authority can only be updated once an hour.''
       (ebind (update_owner_authority n au db) (\<lambda>db1.
        Inr (modify_account_authority n (\<lambda>a. a\<lparr>au_active := au\<rparr>)
          (modify_account n (\<lambda>a. a\<lparr>memo_key := 0, last_account_update := head_block_time db1,
             json_metadata := deleted_account_json\<rparr>) db1))))))))"

section \<open>Recovery and reset\<close>

text \<open>The first witness of the index by votes: most votes first, then the smaller name.\<close>

definition better_vote :: "witness_object \<Rightarrow> witness_object \<Rightarrow> bool" where
  "better_vote a b \<longleftrightarrow> votes a > votes b \<or> votes a = votes b \<and> wit_owner a \<le> wit_owner b"

fun top_witness :: "witness_object list \<Rightarrow> witness_object option" where
  "top_witness [] = None"
| "top_witness (w # ws) =
     (case top_witness ws of None \<Rightarrow> Some w | Some v \<Rightarrow> if better_vote w v then Some w else Some v)"

definition accounts_of_authority_exist :: "authority \<Rightarrow> database \<Rightarrow> unit result" where
  "accounts_of_authority_exist au db =
     efold (\<lambda>a _. ebind (get_account (fst a) db) (\<lambda>_. Inr ())) (account_auths au) ()"

definition modify_recovery_request ::
  "account_name_type \<Rightarrow> (account_recovery_request_object \<Rightarrow> account_recovery_request_object) \<Rightarrow> database \<Rightarrow> database" where
  "modify_recovery_request n f db = db\<lparr>db_recovery_requests := (db_recovery_requests db)\<lparr>rows :=
     modify_by rr_account_to_recover n f (rows (db_recovery_requests db))\<rparr>\<rparr>"

definition remove_recovery_request :: "account_name_type \<Rightarrow> database \<Rightarrow> database" where
  "remove_recovery_request n db = db\<lparr>db_recovery_requests := (db_recovery_requests db)\<lparr>rows :=
     remove_by rr_account_to_recover n (rows (db_recovery_requests db))\<rparr>\<rparr>"

definition find_recovery_request :: "account_name_type \<Rightarrow> database \<Rightarrow> account_recovery_request_object option" where
  "find_recovery_request n db = find_by rr_account_to_recover n (rows (db_recovery_requests db))"

definition request_account_recovery_apply ::
  "request_account_recovery_operation \<Rightarrow> database \<Rightarrow> database result" where
  "request_account_recovery_apply o' db =
     (let n = rq_account_to_recover o'; au = rq_new_owner_authority o';
          expiry = u32 (head_block_time db + SOPHIATX_ACCOUNT_RECOVERY_REQUEST_EXPIRATION_PERIOD) in
      ebind (get_account n db) (\<lambda>a.
      ebind (if name_nonempty (recovery_account a) then
               FC_ASSERT (recovery_account a = rq_recovery_account o')
                 ''Cannot recover an account that does not have you as there recovery partner.'' (Inr ())
             else
               (case top_witness (rows (db_witnesses db)) of
                  None \<Rightarrow> Inl Null_dereference
                | Some w \<Rightarrow> FC_ASSERT (wit_owner w = rq_recovery_account o')
                    ''Top witness must recover an account with no recovery partner.'' (Inr ()))) (\<lambda>_.
      case find_recovery_request n db of
        None \<Rightarrow>
          FC_ASSERT (\<not> is_impossible au) ''Cannot recover using an impossible authority.''
          (FC_ASSERT (weight_threshold au \<noteq> 0) ''Cannot recover using an open authority.''
          (ebind (accounts_of_authority_exist au db) (\<lambda>_.
            Inr (db\<lparr>db_recovery_requests := append_row \<lparr>rr_account_to_recover = n, rr_new_owner_authority = au,
              rr_expires = expiry\<rparr> (db_recovery_requests db)\<rparr>))))
      | Some _ \<Rightarrow>
          if weight_threshold au = 0 then Inr (remove_recovery_request n db)
          else
            FC_ASSERT (\<not> is_impossible au) ''Cannot recover using an impossible authority.''
            (ebind (accounts_of_authority_exist au db) (\<lambda>_.
              Inr (modify_recovery_request n (\<lambda>r. r\<lparr>rr_new_owner_authority := au, rr_expires := expiry\<rparr>) db))))))"

definition in_owner_history :: "account_name_type \<Rightarrow> authority \<Rightarrow> database \<Rightarrow> bool" where
  "in_owner_history n au db =
     list_ex (\<lambda>h. oh_account h = n \<and> previous_owner_authority h = au) (rows (db_owner_history db))"

definition recover_account_apply :: "recover_account_operation \<Rightarrow> database \<Rightarrow> database result" where
  "recover_account_apply o' db =
     (let n = rc_account_to_recover o' in
      ebind (get_account n db) (\<lambda>a.
      FC_ASSERT (head_block_time db - last_account_recovery a > SOPHIATX_OWNER_UPDATE_LIMIT)
        ''Owner authority can only be updated once an hour.''
      (FC_ASSERT (find_recovery_request n db \<noteq> None) ''There are no active recovery requests for this account.''
      (FC_ASSERT (map_option rr_new_owner_authority (find_recovery_request n db) = Some (rc_new_owner_authority o'))
        ''New owner authority does not match recovery request.''
      (FC_ASSERT (in_owner_history n (rc_recent_owner_authority o') db)
        ''Recent authority not found in authority history.''
      (ebind (update_owner_authority n (rc_new_owner_authority o') (remove_recovery_request n db)) (\<lambda>db1.
        Inr (modify_account n (\<lambda>a. a\<lparr>last_account_recovery := head_block_time db\<rparr>) db1))))))))"

definition find_change_request :: "account_name_type \<Rightarrow> database \<Rightarrow> change_recovery_account_request_object option" where
  "find_change_request n db = find_by cr_account_to_recover n (rows (db_change_recovery db))"

definition with_change_requests ::
  "(change_recovery_account_request_object list \<Rightarrow> change_recovery_account_request_object list) \<Rightarrow> database \<Rightarrow> database" where
  "with_change_requests f db = db\<lparr>db_change_recovery := (db_change_recovery db)\<lparr>rows := f (rows (db_change_recovery db))\<rparr>\<rparr>"

definition change_recovery_account_apply :: "change_recovery_account_operation \<Rightarrow> database \<Rightarrow> database result" where
  "change_recovery_account_apply o' db =
     (let n = ch_account_to_recover o'; new = ch_new_recovery_account o';
          eff = u32 (head_block_time db + SOPHIATX_OWNER_AUTH_RECOVERY_PERIOD) in
      ebind (get_account new db) (\<lambda>_.
      ebind (get_account n db) (\<lambda>a.
      Inr (case find_change_request n db of
             None \<Rightarrow> db\<lparr>db_change_recovery := append_row \<lparr>cr_account_to_recover = n, cr_recovery_account = new,
               cr_effective_on = eff\<rparr> (db_change_recovery db)\<rparr>
           | Some _ \<Rightarrow>
               if recovery_account a \<noteq> new then
                 with_change_requests (modify_by cr_account_to_recover n
                   (\<lambda>r. r\<lparr>cr_recovery_account := new, cr_effective_on := eff\<rparr>)) db
               else with_change_requests (remove_by cr_account_to_recover n) db))))"

definition reset_account_apply :: "reset_account_operation \<Rightarrow> database \<Rightarrow> database result" where
  "reset_account_apply o' db =
     ebind (get_account (ra_account_to_reset o') db) (\<lambda>a.
     FC_ASSERT (reset_account a = ra_reset_account o') ''Reset account does not match reset account on account.''
     (update_owner_authority (ra_account_to_reset o') (ra_new_owner_authority o') db))"

definition set_reset_account_apply :: "set_reset_account_operation \<Rightarrow> database \<Rightarrow> database result" where
  "set_reset_account_apply o' db =
     ebind (get_account (sr_account o') db) (\<lambda>a.
     ebind (get_account (sr_reset_account o') db) (\<lambda>_.
     FC_ASSERT (reset_account a = sr_current_reset_account o')
       ''Current reset account does not match reset account on account.''
     (FC_ASSERT (reset_account a \<noteq> sr_reset_account o') ''Reset account must change''
     (Inr (modify_account (sr_account o') (\<lambda>x. x\<lparr>reset_account := sr_reset_account o'\<rparr>) db)))))"

section \<open>None of them touches the ledger\<close>

lemma ledger_updates [frame, simp]:
  "ledger (db\<lparr>db_authorities := a\<rparr>) = ledger db" "ledger (db\<lparr>db_owner_history := h\<rparr>) = ledger db"
  "ledger (db\<lparr>db_recovery_requests := r\<rparr>) = ledger db" "ledger (db\<lparr>db_change_recovery := q\<rparr>) = ledger db"
  "ledger (db\<lparr>db_witnesses := w\<rparr>) = ledger db" "ledger (db\<lparr>db_sponsors := s\<rparr>) = ledger db"
  "ledger (db\<lparr>db_witness_votes := v\<rparr>) = ledger db" "ledger (db\<lparr>db_applications := p\<rparr>) = ledger db"
  "ledger (db\<lparr>db_buyings := b\<rparr>) = ledger db" "ledger (db\<lparr>db_custom := c\<rparr>) = ledger db"
  "ledger (db\<lparr>db_bandwidth := bw\<rparr>) = ledger db" "ledger (db\<lparr>db_transactions := t\<rparr>) = ledger db"
  "ledger (db\<lparr>db_feeds := f\<rparr>) = ledger db" "ledger (db\<lparr>db_schedule := sc\<rparr>) = ledger db"
  "ledger (db\<lparr>db_hardfork := hf\<rparr>) = ledger db" "ledger (db\<lparr>db_block_summary := bs\<rparr>) = ledger db"
  by (simp_all add: ledger_def)

lemma ledger_modify_account_authority [frame, simp]: "ledger (modify_account_authority n f db) = ledger db"
  by (simp add: modify_account_authority_def)

lemma ledger_create_witness [frame]: "create_witness mk db = Inr db' \<Longrightarrow> ledger db' = ledger db"
  by (auto simp: create_witness_def result_simps)

lemma ledger_create_new_witness [frame]: "create_new_witness n u k p db = Inr db' \<Longrightarrow> ledger db' = ledger db"
  unfolding create_new_witness_def by (rule ledger_create_witness)

lemma ledger_update_owner_authority [frame]: "update_owner_authority n a db = Inr db' \<Longrightarrow> ledger db' = ledger db"
  by (auto simp: update_owner_authority_def result_simps)

lemma ledger_requests [frame, simp]:
  "ledger (remove_recovery_request n db) = ledger db" "ledger (modify_recovery_request n f db) = ledger db"
  "ledger (with_change_requests g db) = ledger db"
  by (simp_all add: remove_recovery_request_def modify_recovery_request_def with_change_requests_def)

interpretation witness_stop: ledger_frame witness_stop_apply
  by unfold_locales (auto simp: witness_stop_apply_def result_simps split: option.splits)

interpretation witness_update: ledger_frame "witness_update_apply x" for x
  by unfold_locales (auto simp: witness_update_apply_def result_simps Let_def
      split: option.splits if_splits dest: ledger_create_new_witness)

interpretation admin_witness: ledger_frame admin_witness_update_apply
  by unfold_locales (auto simp: admin_witness_update_apply_def result_simps
      split: option.splits dest: ledger_create_new_witness)

interpretation witness_props: ledger_frame "witness_set_properties_apply x" for x
  by unfold_locales (auto simp: witness_set_properties_apply_def ebind_eq_Inr FC_ASSERT_eq_Inr Let_def)

interpretation feed_publish: ledger_frame feed_publish_apply
  by unfold_locales (auto simp: feed_publish_apply_def result_simps Let_def)

interpretation account_update: ledger_frame account_update_apply
  by unfold_locales (auto simp: account_update_apply_def ebind_eq_Inr FC_ASSERT_eq_Inr Let_def ledger_modify_account
      acct_money_def split: option.splits dest!: ledger_update_owner_authority)

interpretation account_delete: ledger_frame account_delete_apply
  by unfold_locales (auto simp: account_delete_apply_def result_simps Let_def ledger_modify_account acct_money_def
      dest!: ledger_update_owner_authority)

interpretation recovery_request: ledger_frame request_account_recovery_apply
  by unfold_locales (auto simp: request_account_recovery_apply_def ebind_eq_Inr FC_ASSERT_eq_Inr Let_def
      split: option.splits if_splits)

interpretation recover_account: ledger_frame recover_account_apply
  by unfold_locales (auto simp: recover_account_apply_def ebind_eq_Inr FC_ASSERT_eq_Inr Let_def ledger_modify_account acct_money_def
      dest!: ledger_update_owner_authority)

interpretation change_recovery: ledger_frame change_recovery_account_apply
  by unfold_locales (auto simp: change_recovery_account_apply_def ebind_eq_Inr Let_def split: option.splits)

interpretation account_reset: ledger_frame reset_account_apply
  by unfold_locales (auto simp: reset_account_apply_def ebind_eq_Inr FC_ASSERT_eq_Inr dest: ledger_update_owner_authority)

interpretation set_reset: ledger_frame set_reset_account_apply
  by unfold_locales (auto simp: set_reset_account_apply_def ebind_eq_Inr FC_ASSERT_eq_Inr ledger_modify_account acct_money_def)

end
