(* ===== verification/Content_Evaluators.thy ===== *)
theory Content_Evaluators
  imports Account_Evaluators
begin

text \<open>
  The evaluators of \<^verbatim>\<open>libraries/chain/sophiatx_evaluator.cpp\<close> for voting, proxies, custom content,
  applications and fee sponsoring. The custom interpreters that external plugins install write
  their own indices, which are no part of this state, so the calls to them are left out.
\<close>

section \<open>Proxies and votes\<close>

text \<open>The walk along the proxies of the new proxy; \<open>chain\<close> is the set of ids seen so far.\<close>

function check_proxy_chain :: "nat list \<Rightarrow> account_object \<Rightarrow> database \<Rightarrow> unit result" where
  "check_proxy_chain chain cprox db =
     (if \<not> name_nonempty (proxy cprox) then Inr ()
      else
        ebind (get_account (proxy cprox) db) (\<lambda>next_proxy.
        FC_ASSERT (acc_id next_proxy \<notin> set chain) ''This proxy would create a proxy loop.''
        (FC_ASSERT (Suc (length chain) \<le> SOPHIATX_MAX_PROXY_RECURSION_DEPTH) ''Proxy chain is too long.''
        (check_proxy_chain (acc_id next_proxy # chain) next_proxy db))))"
  by pat_completeness auto

text \<open>Every turn lengthens the chain, which is bounded.\<close>

termination check_proxy_chain
  by (relation "measure (\<lambda>(chain, _). Suc SOPHIATX_MAX_PROXY_RECURSION_DEPTH - length chain)") auto

declare check_proxy_chain.simps [simp del]

definition proxy_delta :: "account_object \<Rightarrow> share_type list result" where
  "proxy_delta a =
     ebind (total_balance a) (\<lambda>b.
     ebind (safe_neg b) (\<lambda>d0.
     efold (\<lambda>v ds. ebind (safe_neg v) (\<lambda>d. Inr (ds @ [d]))) (proxied_vsf_votes a) [d0]))"

definition negate_all :: "share_type list \<Rightarrow> share_type list result" where
  "negate_all ds = efold (\<lambda>v acc. ebind (safe_neg v) (\<lambda>d. Inr (acc @ [d]))) ds []"

definition account_witness_proxy_apply :: "account_witness_proxy_operation \<Rightarrow> database \<Rightarrow> database result" where
  "account_witness_proxy_apply o' db =
     (let n = px_account o'; p = px_proxy o' in
      private_net_forbidden db
      (ebind (get_account n db) (\<lambda>a.
       FC_ASSERT (proxy a \<noteq> p) ''Proxy must change.''
       (ebind (proxy_delta a) (\<lambda>delta.
        ebind (adjust_proxied_witness_votes_arr n delta db) (\<lambda>db1.
        if name_nonempty p then
          ebind (get_account p db1) (\<lambda>new_proxy.
          ebind (check_proxy_chain (remdups [acc_id a, acc_id new_proxy]) new_proxy db1) (\<lambda>_.
          let db2 = modify_account n (\<lambda>x. x\<lparr>proxy := p\<rparr>) (clear_witness_votes n db1) in
          ebind (negate_all delta) (\<lambda>back. adjust_proxied_witness_votes_arr n back db2)))
        else Inr (modify_account n (\<lambda>x. x\<lparr>proxy := p\<rparr>) db1)))))))"

definition vote_key :: "witness_vote_object \<Rightarrow> account_name_type \<times> account_name_type" where
  "vote_key v = (wv_account v, wv_witness v)"

definition account_witness_vote_apply :: "account_witness_vote_operation \<Rightarrow> database \<Rightarrow> database result" where
  "account_witness_vote_apply o' db =
     (let n = vo_account o'; w = vo_witness o' in
      private_net_forbidden db
      (ebind (get_account n db) (\<lambda>voter.
       FC_ASSERT (\<not> name_nonempty (proxy voter))
         ''A proxy is currently set, please clear the proxy before voting for a witness.''
       (ebind (get_witness w db) (\<lambda>_.
        case find_by vote_key (n, w) (rows (db_witness_votes db)) of
          None \<Rightarrow>
            FC_ASSERT (vo_approve o') ''Vote does not exist, user must indicate a desire to approve witness.''
            (FC_ASSERT (witnesses_voted_for voter < cfg_max_account_witness_votes (db_cfg db))
               ''Account has voted for too many witnesses.''
            (let db1 = db\<lparr>db_witness_votes := append_row \<lparr>wv_witness = w, wv_account = n\<rparr> (db_witness_votes db)\<rparr> in
             ebind (witness_vote_weight voter) (\<lambda>weight.
             ebind (adjust_witness_vote w weight db1) (\<lambda>db2.
               Inr (modify_account n (\<lambda>a. a\<lparr>witnesses_voted_for := (witnesses_voted_for a + 1) mod 65536\<rparr>) db2)))))
        | Some _ \<Rightarrow>
            FC_ASSERT (\<not> vo_approve o') ''Vote currently exists, user must indicate a desire to reject witness.''
            (ebind (witness_vote_weight voter) (\<lambda>weight.
             ebind (safe_neg weight) (\<lambda>d.
             ebind (adjust_witness_vote w d db) (\<lambda>db1.
               let db2 = modify_account n (\<lambda>a. a\<lparr>witnesses_voted_for := (witnesses_voted_for a - 1) mod 65536\<rparr>) db1 in
               Inr (db2\<lparr>db_witness_votes := (db_witness_votes db2)\<lparr>rows :=
                 remove_by vote_key (n, w) (rows (db_witness_votes db2))\<rparr>\<rparr>))))))))))"

section \<open>Custom content\<close>

text \<open>The lower bound of the largest sequence number is the last entry of the sender, the recipient
  or the application; the next number follows it.\<close>

definition next_sequence :: "(custom_content_object \<Rightarrow> bool) \<Rightarrow> (custom_content_object \<Rightarrow> int) \<Rightarrow> database \<Rightarrow> int" where
  "next_sequence P f db =
     (case map f (filter P (rows (db_custom db))) of
        [] \<Rightarrow> 1 | v # vs \<Rightarrow> u64 (foldl max v vs + 1))"

definition deliver ::
  "account_name_type \<Rightarrow> int \<Rightarrow> account_name_type list \<Rightarrow> bool \<Rightarrow> nat list \<Rightarrow> string \<Rightarrow> int \<Rightarrow> int
     \<Rightarrow> account_name_type \<Rightarrow> database \<Rightarrow> database" where
  "deliver sender app recipients bin data js sseq aseq r db =
     (let rseq = next_sequence (\<lambda>c. cc_recipient c = r \<and> cc_app_id c = app) recipient_sequence db in
      db\<lparr>db_custom := append_row
        \<lparr>cc_id = next_id (db_custom db), cc_app_id = app, cc_sender = sender, cc_recipient = r,
         cc_all_recipients = recipients, sender_sequence = sseq, recipient_sequence = rseq,
         app_message_sequence = aseq, received = head_block_time db, binary = bin, cc_data = data, cc_json = js\<rparr>
        (db_custom db)\<rparr>)"

definition deliver_all ::
  "account_name_type \<Rightarrow> int \<Rightarrow> account_name_type list \<Rightarrow> bool \<Rightarrow> nat list \<Rightarrow> string \<Rightarrow> database \<Rightarrow> database" where
  "deliver_all sender app recipients bin data js db =
     (let sseq = next_sequence (\<lambda>c. cc_sender c = sender \<and> cc_app_id c = app) sender_sequence db;
          aseq = next_sequence (\<lambda>c. cc_app_id c = app) app_message_sequence db in
      fold (deliver sender app recipients bin data js sseq aseq) recipients db)"

definition custom_apply :: "custom_operation \<Rightarrow> database \<Rightarrow> database result" where
  "custom_apply o' db = Inr db"

definition custom_json_apply :: "custom_json_operation \<Rightarrow> database \<Rightarrow> database result" where
  "custom_json_apply o' db =
     Inr (deliver_all (cj_sender o') (cj_app_id o') (cj_recipients o') False [] (cj_json o') db)"

definition custom_binary_apply :: "custom_operation \<Rightarrow> database \<Rightarrow> database result" where
  "custom_binary_apply o' db =
     Inr (deliver_all (cu_sender o') (cu_app_id o') (cu_recipients o') True (cu_data o') [] db)"

section \<open>Applications\<close>

definition with_applications :: "(application_object list \<Rightarrow> application_object list) \<Rightarrow> database \<Rightarrow> database" where
  "with_applications f db = db\<lparr>db_applications := (db_applications db)\<lparr>rows := f (rows (db_applications db))\<rparr>\<rparr>"

definition with_buyings :: "(application_buying_object list \<Rightarrow> application_buying_object list) \<Rightarrow> database \<Rightarrow> database" where
  "with_buyings f db = db\<lparr>db_buyings := (db_buyings db)\<lparr>rows := f (rows (db_buyings db))\<rparr>\<rparr>"

definition application_create_apply :: "application_create_operation \<Rightarrow> database \<Rightarrow> database result" where
  "application_create_apply o' db =
     ebind (get_account (apc_author o') db) (\<lambda>_.
     ebind (create_in app_name (\<lambda>i. \<lparr>app_id = i, app_name = account_name (apc_name o'), app_author = apc_author o',
        app_url = apc_url o', app_metadata = apc_metadata o', app_price_param = apc_price_param o'\<rparr>)
        (db_applications db)) (\<lambda>t. Inr (db\<lparr>db_applications := t\<rparr>)))"

definition application_update_apply :: "application_update_operation \<Rightarrow> database \<Rightarrow> database result" where
  "application_update_apply o' db =
     (let n = account_name (apu_name o') in
      ebind (get_application n db) (\<lambda>app.
      ebind (case apu_new_author o' of
               None \<Rightarrow> Inr ()
             | Some a \<Rightarrow> ebind (get_account a db) (\<lambda>_. ebind (get_account_authority a db) (\<lambda>_. Inr ()))) (\<lambda>_.
      FC_ASSERT (app_author app = apu_author o') ''Provided author is not this application author''
      (Inr (with_applications (modify_by app_name n (\<lambda>p.
         p\<lparr>app_author := (case apu_new_author o' of None \<Rightarrow> app_author p | Some a \<Rightarrow> a),
           app_price_param := (case apu_price_param o' of None \<Rightarrow> app_price_param p | Some v \<Rightarrow> v),
           app_metadata := (if length (apu_metadata o') > 0 then apu_metadata o' else app_metadata p),
           app_url := (if length (apu_url o') > 0 then apu_url o' else app_url p)\<rparr>)) db)))))"

definition application_delete_apply :: "application_delete_operation \<Rightarrow> database \<Rightarrow> database result" where
  "application_delete_apply o' db =
     (let n = account_name (apd_name o') in
      ebind (get_application n db) (\<lambda>app.
      FC_ASSERT (app_author app = apd_author o') ''Provided author is not this applcation author''
      (Inr (with_applications (remove_by app_name n)
        (with_buyings (filter (\<lambda>b. ab_app_id b \<noteq> int (app_id app))) db)))))"

definition buy_application_apply :: "buy_application_operation \<Rightarrow> database \<Rightarrow> database result" where
  "buy_application_apply o' db =
     private_net_forbidden db
     (ebind (get_application_by_id (ba_app_id o') db) (\<lambda>_.
      FC_ASSERT (find_by buying_key (ba_buyer o', ba_app_id o') (rows (db_buyings db)) = None)
        ''This buying already exisit''
      (Inr (db\<lparr>db_buyings := append_row \<lparr>ab_buyer = ba_buyer o', ab_app_id = ba_app_id o',
         ab_created = head_block_time db\<rparr> (db_buyings db)\<rparr>))))"

definition cancel_application_buying_apply :: "cancel_application_buying_operation \<Rightarrow> database \<Rightarrow> database result" where
  "cancel_application_buying_apply o' db =
     private_net_forbidden db
     (ebind (get_application_by_id (ca_app_id o') db) (\<lambda>app.
      ebind (get_application_buying (ca_buyer o') (ca_app_id o') db) (\<lambda>_.
      FC_ASSERT (app_author app = ca_app_owner o') ''Provided app author is not this applcation author''
      (Inr (with_buyings (remove_by buying_key (ca_buyer o', ca_app_id o')) db)))))"

section \<open>Sponsors\<close>

definition remove_sponsor :: "account_name_type \<Rightarrow> database \<Rightarrow> database result" where
  "remove_sponsor n db =
     ebind (get_by sp_sponsored n (rows (db_sponsors db))) (\<lambda>_.
       Inr (db\<lparr>db_sponsors := (db_sponsors db)\<lparr>rows := remove_by sp_sponsored n (rows (db_sponsors db))\<rparr>\<rparr>))"

definition sponsor_fees_apply :: "sponsor_fees_operation \<Rightarrow> database \<Rightarrow> database result" where
  "sponsor_fees_apply o' db =
     private_net_forbidden db
     (if sf_sponsor o' = 0 then remove_sponsor (sf_sponsored o') db
      else
        ebind (get_account (sf_sponsor o') db) (\<lambda>_.
        ebind (get_account (sf_sponsored o') db) (\<lambda>_.
        if sf_is_sponsoring o' then
          FC_ASSERT (get_sponsor (sf_sponsored o') db = None) ''This account is already sponsored''
          (Inr (db\<lparr>db_sponsors := append_row \<lparr>sp_sponsor = sf_sponsor o', sp_sponsored = sf_sponsored o'\<rparr> (db_sponsors db)\<rparr>))
        else
          FC_ASSERT (get_sponsor (sf_sponsored o') db = Some (sf_sponsor o')) ''You are not sponsoring this account''
          (remove_sponsor (sf_sponsored o') db))))"

section \<open>None of them touches the ledger\<close>

lemma ledger_proxy [frame, simp]: "ledger (modify_account n (\<lambda>x. x\<lparr>proxy := p\<rparr>) db) = ledger db"
  by (rule ledger_modify_account) (simp add: acct_money_def)

interpretation proxy_change: ledger_frame account_witness_proxy_apply
  by unfold_locales (auto simp: account_witness_proxy_apply_def ebind_eq_Inr FC_ASSERT_eq_Inr private_net_forbidden_Inr Let_def
      split: if_splits dest!: ledger_adjust_proxied_witness_votes_arr)

interpretation witness_vote: ledger_frame account_witness_vote_apply
  by unfold_locales (auto simp: account_witness_vote_apply_def ebind_eq_Inr FC_ASSERT_eq_Inr private_net_forbidden_Inr Let_def
      ledger_modify_account acct_money_def split: option.splits dest!: ledger_adjust_witness_vote)

lemma ledger_deliver [frame, simp]: "ledger (deliver s a rs b d j ss as r db) = ledger db"
  by (simp add: deliver_def Let_def)

lemma ledger_deliver_fold: "ledger (fold (deliver s a rs b d j ss as) xs db) = ledger db"
  by (induction xs arbitrary: db) simp_all

lemma ledger_deliver_all [frame, simp]: "ledger (deliver_all s a rs b d j db) = ledger db"
  by (simp add: deliver_all_def Let_def ledger_deliver_fold)

interpretation custom: ledger_frame custom_apply
  by unfold_locales (simp add: custom_apply_def)

interpretation custom_json: ledger_frame custom_json_apply
  by unfold_locales (auto simp: custom_json_apply_def)

interpretation custom_binary: ledger_frame custom_binary_apply
  by unfold_locales (auto simp: custom_binary_apply_def)

lemma ledger_with_tables [frame, simp]:
  "ledger (with_applications f db) = ledger db" "ledger (with_buyings g db) = ledger db"
  by (simp_all add: with_applications_def with_buyings_def)

interpretation app_create: ledger_frame application_create_apply
  by unfold_locales (auto simp: application_create_apply_def ebind_eq_Inr)

interpretation app_update: ledger_frame application_update_apply
  by unfold_locales (auto simp: application_update_apply_def ebind_eq_Inr FC_ASSERT_eq_Inr Let_def)

interpretation app_delete: ledger_frame application_delete_apply
  by unfold_locales (auto simp: application_delete_apply_def ebind_eq_Inr FC_ASSERT_eq_Inr Let_def)

interpretation app_buy: ledger_frame buy_application_apply
  by unfold_locales (auto simp: buy_application_apply_def ebind_eq_Inr FC_ASSERT_eq_Inr private_net_forbidden_Inr)

interpretation app_cancel: ledger_frame cancel_application_buying_apply
  by unfold_locales (auto simp: cancel_application_buying_apply_def ebind_eq_Inr FC_ASSERT_eq_Inr private_net_forbidden_Inr)

interpretation sponsoring: ledger_frame sponsor_fees_apply
  by unfold_locales (auto simp: sponsor_fees_apply_def remove_sponsor_def ebind_eq_Inr FC_ASSERT_eq_Inr private_net_forbidden_Inr
      split: if_splits)

end
