(* ===== verification/Apply_Operation.thy ===== *)
theory Apply_Operation
  imports Content_Evaluators
begin

text \<open>
  From operations to transactions (\<^verbatim>\<open>libraries/chain/database.cpp\<close>: \<^verbatim>\<open>process_operation_fee\<close>,
  \<^verbatim>\<open>get_fee_payer\<close>, \<^verbatim>\<open>apply_operation\<close>, \<^verbatim>\<open>process_operations\<close>, \<^verbatim>\<open>update_accounts_bandwidth\<close>,
  \<^verbatim>\<open>_apply_transaction\<close>, \<^verbatim>\<open>clear_expired_transactions\<close>; \<^verbatim>\<open>libraries/protocol/transaction.cpp\<close>). Hashing,
  packing and key recovery are arguments of the model, gathered in the record \<open>node\<close> together
  with the validation steps the node skips.
\<close>

section \<open>Transactions\<close>

record signed_transaction =
  ref_block_num :: int
  ref_block_prefix :: int
  trx_expiration :: time_point_sec
  trx_operations :: "operation list"
  trx_extensions :: extensions_type
  signatures :: "int list"

datatype validation_step =
    skip_witness_signature
  | skip_transaction_signatures
  | skip_transaction_dupe_check
  | skip_fork_db
  | skip_block_size_check
  | skip_tapos_check
  | skip_authority_check
  | skip_merkle_check
  | skip_undo_history_check
  | skip_witness_schedule_check
  | skip_validate
  | skip_validate_invariants
  | skip_undo_block
  | skip_block_log

text \<open>\<open>recover_key\<close> takes the signature, the digest and whether the \<^verbatim>\<open>bip_0062\<close> form is required;
  \<open>sig_digest\<close> hashes the chain id with the transaction.\<close>

record node =
  nd_ext :: externals
  pack_size :: "operation \<Rightarrow> int"
  trx_id :: "signed_transaction \<Rightarrow> transaction_id_type"
  sig_digest :: "signed_transaction \<Rightarrow> int"
  recover_key :: "int \<Rightarrow> int \<Rightarrow> bool \<Rightarrow> public_key_type result"
  skip :: "validation_step list"

definition skips :: "node \<Rightarrow> validation_step \<Rightarrow> bool" where
  "skips nd s \<longleftrightarrow> s \<in> set (skip nd)"

definition transaction_validate :: "externals \<Rightarrow> sophiatx_config \<Rightarrow> signed_transaction \<Rightarrow> unit result" where
  "transaction_validate x c t =
     FC_ASSERT (trx_operations t \<noteq> []) ''A transaction must have at least one operation''
     (efold (\<lambda>op _. operation_validate x c op) (trx_operations t) ())"

text \<open>A \<^verbatim>\<open>flat_set\<close> filled from a list, and the authorities the operations ask for.\<close>

definition flat_set_of :: "account_name_type list \<Rightarrow> account_name_type list" where
  "flat_set_of ns = sort (remdups ns)"

definition trx_required_active :: "signed_transaction \<Rightarrow> account_name_type list" where
  "trx_required_active t = concat (map required_active (trx_operations t))"

definition trx_required_owner :: "signed_transaction \<Rightarrow> account_name_type list" where
  "trx_required_owner t = concat (map required_owner (trx_operations t))"

definition trx_required_other :: "externals \<Rightarrow> signed_transaction \<Rightarrow> authority list result" where
  "trx_required_other x t =
     efold (\<lambda>op acc. ebind (required_other x op) (\<lambda>os. Inr (acc @ os))) (trx_operations t) []"

definition get_signature_keys :: "node \<Rightarrow> bool \<Rightarrow> signed_transaction \<Rightarrow> public_key_type list result" where
  "get_signature_keys nd bip t =
     efold (\<lambda>sig keys.
       ebind (recover_key nd sig (sig_digest nd t) bip) (\<lambda>k.
         ethrow_unless (k \<notin> set keys) Tx_duplicate_sig (Inr (keys @ [k])))) (signatures t) []"

definition trx_verify_authority :: "node \<Rightarrow> authority_getter \<Rightarrow> authority_getter \<Rightarrow> nat \<Rightarrow> bool \<Rightarrow> signed_transaction
    \<Rightarrow> unit result" where
  "trx_verify_authority nd ga go depth bip t =
     ebind (get_signature_keys nd bip t) (\<lambda>keys.
     ebind (trx_required_other (nd_ext nd) t) (\<lambda>other.
       verify_authority (flat_set_of (trx_required_active t)) (flat_set_of (trx_required_owner t)) other keys
         ga go depth [] []))"

section \<open>Fees and dispatch\<close>

definition get_fee_payer :: "operation \<Rightarrow> database \<Rightarrow> account_name_type" where
  "get_fee_payer op db = (case get_sponsor (fee_payer op) db of Some s \<Rightarrow> s | None \<Rightarrow> fee_payer op)"

definition process_operation_fee :: "operation \<Rightarrow> database \<Rightarrow> database result" where
  "process_operation_fee op db =
     (if has_special_fee op \<or> is_private_net db then Inr db
      else
        let c = db_cfg db; fee = fee_of op in
        ebind (get_required_fee c op (symbol fee)) (\<lambda>req_fee.
        FC_ASSERT (symbol fee = symbol req_fee) ''fee cannot be paid in with symbol''
        (ebind (asset_ge fee req_fee) (\<lambda>ok.
         FC_ASSERT ok ''''
         (let payer = get_fee_payer op db in
          ebind (get_account payer db) (\<lambda>_.
          ebind (if symbol fee = cfg_symbol c then Inr fee else to_sophiatx fee db) (\<lambda>to_pay.
          FC_ASSERT (symbol to_pay = cfg_symbol c \<and> amount to_pay \<ge> 0) ''''
          (pay_fee payer to_pay db))))))))"

text \<open>The registered evaluators. A virtual operation has none: the registry dereferences a null
  pointer.\<close>

definition evaluate :: "externals \<Rightarrow> operation \<Rightarrow> database \<Rightarrow> database result" where
  "evaluate x op db =
     (case op of
        Transfer_op o' \<Rightarrow> transfer_apply o' db
      | Transfer_to_vesting_op o' \<Rightarrow> transfer_to_vesting_apply o' db
      | Withdraw_vesting_op o' \<Rightarrow> withdraw_vesting_apply o' db
      | Feed_publish_op o' \<Rightarrow> feed_publish_apply o' db
      | Account_create_op o' \<Rightarrow> account_create_apply x o' db
      | Account_update_op o' \<Rightarrow> account_update_apply o' db
      | Account_delete_op o' \<Rightarrow> account_delete_apply o' db
      | Witness_update_op o' \<Rightarrow> witness_update_apply x o' db
      | Witness_stop_op o' \<Rightarrow> witness_stop_apply o' db
      | Account_witness_vote_op o' \<Rightarrow> account_witness_vote_apply o' db
      | Account_witness_proxy_op o' \<Rightarrow> account_witness_proxy_apply o' db
      | Witness_set_properties_op o' \<Rightarrow> witness_set_properties_apply x o' db
      | Custom_op o' \<Rightarrow> custom_apply o' db
      | Custom_json_op o' \<Rightarrow> custom_json_apply o' db
      | Custom_binary_op o' \<Rightarrow> custom_binary_apply o' db
      | Request_account_recovery_op o' \<Rightarrow> request_account_recovery_apply o' db
      | Recover_account_op o' \<Rightarrow> recover_account_apply o' db
      | Change_recovery_account_op o' \<Rightarrow> change_recovery_account_apply o' db
      | Escrow_transfer_op o' \<Rightarrow> escrow_transfer_apply o' db
      | Escrow_dispute_op o' \<Rightarrow> escrow_dispute_apply o' db
      | Escrow_release_op o' \<Rightarrow> escrow_release_apply o' db
      | Escrow_approve_op o' \<Rightarrow> escrow_approve_apply o' db
      | Reset_account_op o' \<Rightarrow> reset_account_apply o' db
      | Set_reset_account_op o' \<Rightarrow> set_reset_account_apply o' db
      | Application_create_op o' \<Rightarrow> application_create_apply o' db
      | Application_update_op o' \<Rightarrow> application_update_apply o' db
      | Application_delete_op o' \<Rightarrow> application_delete_apply o' db
      | Buy_application_op o' \<Rightarrow> buy_application_apply o' db
      | Cancel_application_buying_op o' \<Rightarrow> cancel_application_buying_apply o' db
      | Transfer_from_promotion_pool_op o' \<Rightarrow> transfer_from_promotion_pool_apply o' db
      | Sponsor_fees_op o' \<Rightarrow> sponsor_fees_apply o' db
      | Admin_witness_update_op o' \<Rightarrow> admin_witness_update_apply o' db
      | Virtual_op _ \<Rightarrow> Inl Null_dereference)"

definition apply_operation :: "externals \<Rightarrow> operation \<Rightarrow> database \<Rightarrow> database result" where
  "apply_operation x op db = ebind (process_operation_fee op db) (evaluate x op)"

section \<open>Fee-free operations\<close>

definition new_bandwidth :: "int \<Rightarrow> int \<Rightarrow> int \<Rightarrow> account_bandwidth_object \<Rightarrow> account_bandwidth_object" where
  "new_bandwidth head bw cnt b =
     b\<lparr>act_fee_free_bandwidth := bw, act_fee_free_ops_count := cnt, last_block_num_reset := head\<rparr>"

definition more_bandwidth :: "int \<Rightarrow> int \<Rightarrow> account_bandwidth_object \<Rightarrow> account_bandwidth_object" where
  "more_bandwidth bw cnt b =
     b\<lparr>act_fee_free_bandwidth := u64 (act_fee_free_bandwidth b + bw),
       act_fee_free_ops_count := u64 (act_fee_free_ops_count b + cnt)\<rparr>"

definition count_bandwidth :: "sophiatx_config \<Rightarrow> int \<Rightarrow> int \<Rightarrow> int \<Rightarrow> account_bandwidth_object
    \<Rightarrow> account_bandwidth_object" where
  "count_bandwidth c head bw cnt b =
     (if u32 (head - last_block_num_reset b) > cfg_limit_bandwidth_blocks c
      then new_bandwidth head bw cnt b else more_bandwidth bw cnt b)"

definition update_account_bandwidth :: "int \<Rightarrow> int \<Rightarrow> account_name_type \<Rightarrow> database \<Rightarrow> database result" where
  "update_account_bandwidth bw cnt n db =
     (let c = db_cfg db; head = head_block_num db; t = db_bandwidth db;
          empty = \<lparr>bw_account = n, act_fee_free_bandwidth = 0, act_fee_free_ops_count = 0, last_block_num_reset = 0\<rparr>;
          (b, t') =
            (case find_by bw_account n (rows t) of
               None \<Rightarrow> let b = new_bandwidth head bw cnt empty in (b, append_row b t)
             | Some b \<Rightarrow> let b' = count_bandwidth c head bw cnt b
                         in (b', t\<lparr>rows := modify_by bw_account n (\<lambda>_. b') (rows t)\<rparr>)) in
      ethrow_unless (act_fee_free_bandwidth b \<le> cfg_max_allowed_bandwidth c) Tx_exceeded_bandwidth
      (ethrow_unless (act_fee_free_ops_count b \<le> cfg_max_allowed_ops_count c) Tx_exceeded_bandwidth
       (Inr (db\<lparr>db_bandwidth := t'\<rparr>))))"

definition update_accounts_bandwidth :: "account_name_type list \<Rightarrow> int \<Rightarrow> int \<Rightarrow> database \<Rightarrow> database result" where
  "update_accounts_bandwidth accounts bw cnt db = efold (update_account_bandwidth bw cnt) accounts db"

text \<open>The body of the loop of \<^verbatim>\<open>process_operations\<close> on the two counters and the state.\<close>

definition process_one :: "node \<Rightarrow> operation \<Rightarrow> int \<times> int \<times> database \<Rightarrow> (int \<times> int \<times> database) result" where
  "process_one nd op st =
     (case st of (bw, cnt, db) \<Rightarrow>
        ebind (apply_operation (nd_ext nd) op db) (\<lambda>db1.
          if has_hardfork 2 db1 \<and> is_fee_free_operation op
          then Inr (u64 (bw + pack_size nd op), u64 (cnt + 1), db1)
          else Inr (bw, cnt, db1)))"

definition process_operations :: "node \<Rightarrow> signed_transaction \<Rightarrow> database \<Rightarrow> database result" where
  "process_operations nd t db =
     ebind (efold (process_one nd) (trx_operations t) (0, 0, db)) (\<lambda>(bw, cnt, db1).
       if cnt \<noteq> 0 then
         ebind (trx_required_other (nd_ext nd) t) (\<lambda>_.
           update_accounts_bandwidth (flat_set_of (trx_required_active t @ trx_required_owner t)) bw cnt db1)
       else Inr db1)"

section \<open>Applying a transaction\<close>

text \<open>The heights of \<^verbatim>\<open>get_shared_db_merkle\<close>, at which a missing active authority is tolerated.\<close>

definition shared_db_merkle :: "int list" where
  "shared_db_merkle = [3705111, 3705120, 3713940, 3714132, 3714567, 3714588, 4138790, 5435426]"

text \<open>Word \<open>k\<close> of the five 32-bit words of a block id.\<close>

definition hash_word :: "nat \<Rightarrow> block_id_type \<Rightarrow> int" where
  "hash_word k h = (h div (4294967296 ^ k)) mod 4294967296"

definition check_trx_authority :: "node \<Rightarrow> signed_transaction \<Rightarrow> database \<Rightarrow> unit result" where
  "check_trx_authority nd t db =
     (if skips nd skip_transaction_signatures \<or> skips nd skip_authority_check then Inr ()
      else
        let ga = (\<lambda>n. ebind (get_account_authority n db) (\<lambda>a. Inr (au_active a)));
            go = (\<lambda>n. ebind (get_account_authority n db) (\<lambda>a. Inr (au_owner a))) in
        (case trx_verify_authority nd ga go SOPHIATX_MAX_SIG_CHECK_DEPTH (has_hardfork 1 db) t of
           Inr u \<Rightarrow> Inr u
         | Inl e \<Rightarrow>
             if e = Tx_missing_active_auth \<and> u32 (head_block_num db + 1) \<in> set shared_db_merkle
             then Inr () else Inl e))"

definition check_trx_window :: "node \<Rightarrow> signed_transaction \<Rightarrow> database \<Rightarrow> unit result" where
  "check_trx_window nd t db =
     (if head_block_num db > 0 then
        ethrow_unless (skips nd skip_tapos_check \<or>
            ref_block_prefix t = hash_word 1 (db_block_summary db (ref_block_num t))) Transaction_tapos_exception
        (let now = head_block_time db in
         ethrow_unless (trx_expiration t \<le> now + SOPHIATX_MAX_TIME_UNTIL_EXPIRATION) Transaction_expiration_exception
         (ethrow_unless (now < trx_expiration t) Transaction_expiration_exception (Inr ())))
      else Inr ())"

definition is_known_transaction :: "transaction_id_type \<Rightarrow> database \<Rightarrow> bool" where
  "is_known_transaction i db \<longleftrightarrow> find_by tx_trx_id i (rows (db_transactions db)) \<noteq> None"

definition remember_transaction :: "node \<Rightarrow> signed_transaction \<Rightarrow> database \<Rightarrow> database result" where
  "remember_transaction nd t db =
     ebind (create_in tx_trx_id (\<lambda>_. \<lparr>tx_trx_id = trx_id nd t, tx_expiration = trx_expiration t\<rparr>) (db_transactions db))
       (\<lambda>tb. Inr (db\<lparr>db_transactions := tb\<rparr>))"

definition apply_transaction :: "node \<Rightarrow> signed_transaction \<Rightarrow> database \<Rightarrow> database result" where
  "apply_transaction nd t db =
     ebind (if skips nd skip_validate then Inr () else transaction_validate (nd_ext nd) (db_cfg db) t) (\<lambda>_.
     FC_ASSERT (skips nd skip_transaction_dupe_check \<or> \<not> is_known_transaction (trx_id nd t) db)
       ''Duplicate transaction check failed''
     (ebind (check_trx_authority nd t db) (\<lambda>_.
      ebind (check_trx_window nd t db) (\<lambda>_.
      ebind (if skips nd skip_transaction_dupe_check then Inr db else remember_transaction nd t db)
        (process_operations nd t)))))"

text \<open>The index \<^verbatim>\<open>by_expiration\<close> is ordered by the time, so the loop from its front removes exactly the
  expired entries.\<close>

definition clear_expired_transactions :: "database \<Rightarrow> database" where
  "clear_expired_transactions db =
     db\<lparr>db_transactions := (db_transactions db)\<lparr>rows :=
          filter (\<lambda>t. \<not> head_block_time db > tx_expiration t) (rows (db_transactions db))\<rparr>\<rparr>"

section \<open>The ledger invariant through a transaction\<close>

lemma plain_inv: "money_ok db' \<Longrightarrow> rows (db_escrows db') = rows (db_escrows db) \<Longrightarrow> ledger_inv db \<Longrightarrow> ledger_inv db'"
  by (simp add: ledger_inv_def escrows_settled_def)

lemma process_operation_fee_cases:
  assumes "process_operation_fee op db = Inr db'"
  shows "db' = db \<or> (\<exists>f. pay_fee (get_fee_payer op db) f db = Inr db')"
proof (cases "has_special_fee op \<or> is_private_net db")
  case False
  with assms have "\<exists>f. pay_fee (get_fee_payer op db) f db = Inr db'"
    unfolding process_operation_fee_def Let_def
    by (simp only: if_False ebind_eq_Inr FC_ASSERT_eq_Inr) blast
  then show ?thesis ..
qed (use assms in \<open>simp add: process_operation_fee_def\<close>)

lemma process_operation_fee_inv:
  assumes "process_operation_fee op db = Inr db'" "ledger_inv db"
  shows "ledger_inv db'"
  using process_operation_fee_cases [OF assms(1)]
proof
  assume "\<exists>f. pay_fee (get_fee_payer op db) f db = Inr db'"
  then obtain n f where paid: "pay_fee n f db = Inr db'" by blast
  have "money_ok db'" using fee.keeps [of "(n, f)" db db'] paid assms(2) by (simp add: ledger_inv_def)
  then show ?thesis using pay_fee_escrows [OF paid] assms(2) by (rule plain_inv)
qed (use assms(2) in simp)

interpretation transfer: plain_keeper transfer_apply
proof unfold_locales
  show "transfer_apply q db = Inr db' \<Longrightarrow> rows (db_escrows db') = rows (db_escrows db)" for q db db'
    by (auto simp: transfer_apply_def result_simps adjust_balance_escrows)
qed (rule transfer_apply_money_ok)

interpretation power_up: plain_keeper transfer_to_vesting_apply
proof unfold_locales
  show "transfer_to_vesting_apply q db = Inr db' \<Longrightarrow> rows (db_escrows db') = rows (db_escrows db)" for q db db'
    by (auto simp: transfer_to_vesting_apply_def result_simps escrows_same_rules split: if_splits)
qed (rule transfer_to_vesting_apply_money_ok)

interpretation withdraw: ledger_frame withdraw_vesting_apply
  by unfold_locales (rule withdraw_vesting_apply_ledger)

interpretation new_account: ledger_keeper "account_create_apply x" for x
  by unfold_locales (metis account_create_apply_inv plain_inv ledger_inv_def)

interpretation promotion: ledger_keeper transfer_from_promotion_pool_apply
  by unfold_locales (metis transfer_from_promotion_pool_apply_inv plain_inv ledger_inv_def)

lemma ledger_inv_keys: "ledger_inv db \<Longrightarrow> distinct (map esc_key (rows (db_escrows db)))"
  by (simp add: ledger_inv_def money_ok_def ledger_wf_def)

interpretation approve: ledger_keeper escrow_approve_apply
  by unfold_locales (simp add: ledger_inv_def escrow_approve_apply_money_ok
      escrow_approve_apply_settled ledger_inv_keys [unfolded ledger_inv_def])

interpretation dispute: ledger_keeper escrow_dispute_apply
  by unfold_locales (simp add: ledger_inv_def escrow_dispute_apply_money_ok escrow_dispute_apply_settled)

interpretation release: ledger_keeper escrow_release_apply
  by unfold_locales (simp add: ledger_inv_def escrow_release_apply_money_ok escrow_release_apply_settled)

lemma escrow_transfer_apply_inv:
  assumes "escrow_transfer_validate x o' = Inr ()" "escrow_transfer_apply o' db = Inr db'" "ledger_inv db"
  shows "ledger_inv db'"
  using assms escrow_transfer_apply_money_ok [of o' db db'] escrow_transfer_apply_settled [of o' db db']
  by (auto simp: escrow_transfer_validate_def result_simps ledger_inv_def)

lemmas evaluator_keeps = transfer.keeps_inv power_up.keeps_inv withdraw.keeps_inv feed_publish.keeps_inv
  new_account.keeps_inv account_update.keeps_inv account_delete.keeps_inv witness_update.keeps_inv
  witness_stop.keeps_inv witness_vote.keeps_inv proxy_change.keeps_inv witness_props.keeps_inv custom.keeps_inv
  custom_json.keeps_inv custom_binary.keeps_inv recovery_request.keeps_inv recover_account.keeps_inv
  change_recovery.keeps_inv dispute.keeps_inv release.keeps_inv approve.keeps_inv account_reset.keeps_inv
  set_reset.keeps_inv app_create.keeps_inv app_update.keeps_inv app_delete.keeps_inv app_buy.keeps_inv
  app_cancel.keeps_inv promotion.keeps_inv sponsoring.keeps_inv admin_witness.keeps_inv

lemma evaluate_inv:
  assumes "operation_validate x c op = Inr ()" "evaluate x op db = Inr db'" "ledger_inv db"
  shows "ledger_inv db'"
  using assms escrow_transfer_apply_inv [of x]
  by (cases op) (auto simp: evaluate_def operation_validate_def intro: evaluator_keeps)

lemma apply_operation_inv:
  assumes "operation_validate x c op = Inr ()" "apply_operation x op db = Inr db'" "ledger_inv db"
  shows "ledger_inv db'"
  using assms by (auto simp: apply_operation_def ebind_eq_Inr intro: evaluate_inv process_operation_fee_inv)

interpretation checked_op: ledger_keeper
  "\<lambda>op db. ebind (operation_validate x (db_cfg db) op) (\<lambda>_. apply_operation x op db)" for x
  by unfold_locales (auto simp: ebind_eq_Inr intro: apply_operation_inv)

lemma transaction_validate_ops:
  assumes "transaction_validate x c t = Inr u" "op \<in> set (trx_operations t)"
  shows "operation_validate x c op = Inr ()"
proof -
  have "efold (\<lambda>op _. operation_validate x c op) ops () = Inr () \<Longrightarrow> op \<in> set ops \<Longrightarrow> operation_validate x c op = Inr ()" for ops
    by (induction ops) (auto simp: ebind_eq_Inr)
  with assms show ?thesis by (auto simp: transaction_validate_def FC_ASSERT_eq_Inr)
qed

interpretation bandwidth: ledger_frame "\<lambda>(accounts, bw, cnt). update_accounts_bandwidth accounts bw cnt"
proof unfold_locales
  have one: "ledger db' = ledger db" if "update_account_bandwidth bw cnt n db = Inr db'" for bw cnt n db db'
    using that by (auto simp: update_account_bandwidth_def Let_def result_simps split: prod.splits)
  have "ledger db' = ledger db" if "efold (update_account_bandwidth bw cnt) xs db = Inr db'" for bw cnt xs db db'
    using that by (rule efold_invariant) (auto dest: one)
  then show "(case q of (accounts, bw, cnt) \<Rightarrow> update_accounts_bandwidth accounts bw cnt) db = Inr db' \<Longrightarrow>
      ledger db' = ledger db" for q db db'
    by (cases q) (simp add: update_accounts_bandwidth_def)
qed

lemma process_operations_inv:
  assumes run: "process_operations nd t db = Inr db'" and inv: "ledger_inv db"
    and valid: "\<And>op. op \<in> set (trx_operations t) \<Longrightarrow> operation_validate (nd_ext nd) c op = Inr ()"
  shows "ledger_inv db'"
proof -
  from run obtain bw cnt db1 where loop: "efold (process_one nd) (trx_operations t) (0, 0, db) = Inr (bw, cnt, db1)"
    and rest: "db' = db1 \<or> (\<exists>ns. update_accounts_bandwidth ns bw cnt db1 = Inr db')"
    by (auto simp: process_operations_def ebind_eq_Inr split: if_splits)
  have step: "ledger_inv (snd (snd s'))"
    if "op \<in> set (trx_operations t)" "ledger_inv (snd (snd s))" "process_one nd op s = Inr s'" for op s s'
    using that apply_operation_inv [OF valid [OF that(1)]]
    by (cases s) (auto simp: process_one_def ebind_eq_Inr split: if_splits)
  from loop have "ledger_inv (snd (snd (bw, cnt, db1)))"
    by (rule efold_invariant) (use inv step in simp_all)
  with rest show ?thesis using bandwidth.keeps_inv [of "(ns, bw, cnt)" for ns] by auto
qed

end
