(* ===== verification/Blocks.thy ===== *)
theory Blocks
  imports Apply_Operation
begin

text \<open>
  Block headers, block ids and the Merkle root (\<^verbatim>\<open>libraries/protocol/block.cpp\<close>,
  \<^verbatim>\<open>block_header.hpp\<close>, \<^verbatim>\<open>libraries/fc/bitutil.hpp\<close>). The hash functions are arguments: \<open>sha224\<close> of a
  header, the digest of a transaction, the hash of a pair of digests and the final checksum. An id is
  the number of its five 32-bit words, word 0 lowest.
\<close>

section \<open>Blocks\<close>

datatype block_header_extension =
    Ext_void
  | Ext_version version
  | Ext_hardfork_vote hardfork_version time_point_sec

record signed_block =
  previous :: block_id_type
  timestamp :: time_point_sec
  header_witness :: string
  transaction_merkle_root :: int
  blk_extensions :: "block_header_extension list"
  witness_signature :: int
  transactions :: "signed_transaction list"

record block_hashes =
  sha224 :: "signed_block \<Rightarrow> int"
  merkle_digest :: "signed_transaction \<Rightarrow> int"
  hash_pair :: "int \<Rightarrow> int \<Rightarrow> int"
  checksum :: "int \<Rightarrow> int"
  block_signee :: "signed_block \<Rightarrow> bool \<Rightarrow> public_key_type result"
  block_pack_size :: "signed_block \<Rightarrow> int"

text \<open>The header carries the witness as text; every use of it converts the text to a name.\<close>

definition blk_witness :: "signed_block \<Rightarrow> account_name_type" where
  "blk_witness b = account_name (header_witness b)"

definition endian_reverse_u32 :: "int \<Rightarrow> int" where
  "endian_reverse_u32 x =
     (x div 16777216) mod 256 + ((x div 65536) mod 256) * 256 + ((x div 256) mod 256) * 65536
       + (x mod 256) * 16777216"

definition num_from_id :: "block_id_type \<Rightarrow> int" where
  "num_from_id i = endian_reverse_u32 (hash_word 0 i)"

definition block_num :: "signed_block \<Rightarrow> int" where
  "block_num b = u32 (num_from_id (previous b) + 1)"

text \<open>Word 0 of the hash is overwritten with the number of the block, words 1 to 4 are kept.\<close>

definition block_id :: "block_hashes \<Rightarrow> signed_block \<Rightarrow> block_id_type" where
  "block_id hs b =
     endian_reverse_u32 (block_num b)
       + 4294967296 * ((sha224 hs b div 4294967296) mod 340282366920938463463374607431768211456)"

definition validate_signee :: "block_hashes \<Rightarrow> signed_block \<Rightarrow> public_key_type \<Rightarrow> bool \<Rightarrow> bool result" where
  "validate_signee hs b expected bip = ebind (block_signee hs b bip) (\<lambda>k. Inr (k = expected))"

section \<open>Merkle root\<close>

text \<open>One turn of the outer loop on the first \<open>n\<close> entries of the array; \<open>i = 2 * k\<close> throughout.\<close>

definition merkle_level :: "(int \<Rightarrow> int \<Rightarrow> int) \<Rightarrow> nat \<Rightarrow> int list \<Rightarrow> int list" where
  "merkle_level h n ids =
     (let ids' = foldl (\<lambda>a k. a[k := h (a ! (2 * k)) (a ! (2 * k + 1))]) ids [0..<n div 2]
      in if odd n then ids'[n div 2 := ids' ! (n - 1)] else ids')"

function merkle_loop :: "(int \<Rightarrow> int \<Rightarrow> int) \<Rightarrow> nat \<Rightarrow> int list \<Rightarrow> int list" where
  "merkle_loop h n ids = (if n > 1 then merkle_loop h (n div 2 + n mod 2) (merkle_level h n ids) else ids)"
  by pat_completeness auto
termination by (relation "measure (\<lambda>(h, n, ids). n)") (auto, presburger)

declare merkle_loop.simps [simp del]

definition calculate_merkle_root :: "block_hashes \<Rightarrow> signed_block \<Rightarrow> int" where
  "calculate_merkle_root hs b =
     (if transactions b = [] then 0
      else let ids = map (merkle_digest hs) (transactions b)
           in checksum hs (merkle_loop (hash_pair hs) (length ids) ids ! 0))"

section \<open>Numbers in ids\<close>

text \<open>A 32-bit number and its four bytes.\<close>

definition of_bytes :: "int \<Rightarrow> int \<Rightarrow> int \<Rightarrow> int \<Rightarrow> int" where
  "of_bytes a b c d = a + 256 * (b + 256 * (c + 256 * d))"

definition is_byte :: "int \<Rightarrow> bool" where "is_byte a \<longleftrightarrow> 0 \<le> a \<and> a < 256"

lemma byte_div_mod: "is_byte a \<Longrightarrow> (a + 256 * z) mod 256 = a" "is_byte a \<Longrightarrow> (a + 256 * z) div 256 = z"
  by (simp_all add: is_byte_def)

lemma div_bytes: "x div 65536 = x div 256 div (256::int)" "x div 16777216 = x div 256 div 256 div (256::int)"
  by (simp_all add: zdiv_zmult2_eq [symmetric])

lemma of_bytes_bytes:
  assumes "is_byte a" "is_byte b" "is_byte c" "is_byte d"
  shows "of_bytes a b c d mod 256 = a" "(of_bytes a b c d div 256) mod 256 = b"
    "(of_bytes a b c d div 65536) mod 256 = c" "(of_bytes a b c d div 16777216) mod 256 = d"
  unfolding of_bytes_def div_bytes byte_div_mod(1) [OF assms(1)] byte_div_mod(2) [OF assms(1)]
    byte_div_mod(1) [OF assms(2)] byte_div_mod(2) [OF assms(2)] byte_div_mod(1) [OF assms(3)] byte_div_mod(2) [OF assms(3)]
  using assms by (simp_all add: is_byte_def)

lemma endian_reverse_bytes:
  assumes "is_byte a" "is_byte b" "is_byte c" "is_byte d"
  shows "endian_reverse_u32 (of_bytes a b c d) = of_bytes d c b a"
  unfolding endian_reverse_u32_def of_bytes_bytes [OF assms] by (simp add: of_bytes_def)

lemma bytes_of:
  assumes "0 \<le> x" "x < 4294967296"
  obtains a b c d where "x = of_bytes a b c d" "is_byte a" "is_byte b" "is_byte c" "is_byte d"
proof
  show "x = of_bytes (x mod 256) (x div 256 mod 256) (x div 256 div 256 mod 256) (x div 256 div 256 div 256)"
    by (simp add: of_bytes_def)
  have "x div 16777216 < 256" using assms(2) by (simp add: div_less_iff_less_mult)
  moreover have "0 \<le> x div 16777216" using assms(1) by (rule pos_imp_zdiv_nonneg_iff [THEN iffD2, rotated]) simp
  ultimately show "is_byte (x div 256 div 256 div 256)" by (simp add: is_byte_def div_bytes(2))
qed (simp_all add: is_byte_def)

lemma endian_reverse_involutive: "0 \<le> x \<Longrightarrow> x < 4294967296 \<Longrightarrow> endian_reverse_u32 (endian_reverse_u32 x) = x"
  by (erule bytes_of) (simp_all add: endian_reverse_bytes)

lemma of_bytes_range:
  assumes "is_byte a" "is_byte b" "is_byte c" "is_byte d"
  shows "0 \<le> of_bytes a b c d \<and> of_bytes a b c d < 4294967296"
  using assms unfolding of_bytes_def is_byte_def by simp

lemma endian_reverse_range: "0 \<le> x \<Longrightarrow> x < 4294967296 \<Longrightarrow> 0 \<le> endian_reverse_u32 x \<and> endian_reverse_u32 x < 4294967296"
  by (erule bytes_of) (simp_all add: endian_reverse_bytes of_bytes_range)

lemma num_of_block_id: "num_from_id (block_id hs b) = block_num b"
proof -
  have r: "0 \<le> block_num b" "block_num b < 4294967296" by (simp_all add: block_num_def u32_def)
  have "hash_word 0 (block_id hs b) = endian_reverse_u32 (block_num b)"
    using endian_reverse_range [OF r] by (simp add: hash_word_def block_id_def)
  then show ?thesis using endian_reverse_involutive [OF r] by (simp add: num_from_id_def)
qed

text \<open>The number of a block can be read off its id, whatever the hash: the id stores it in its first word,
  byte-reversed. So the number of a block is one more than the number of the block it builds on
  (modulo the width of the counter).\<close>

theorem block_number_in_id:
  "num_from_id (block_id hs b) = block_num b \<and>
   (previous c = block_id hs b \<longrightarrow> block_num c = (block_num b + 1) mod 2 ^ 32)"
  using num_of_block_id [of hs b] by (simp add: block_num_def [of c] u32_def)

section \<open>The Merkle root against its specification\<close>

fun pair_up :: "(int \<Rightarrow> int \<Rightarrow> int) \<Rightarrow> int list \<Rightarrow> int list" where
  "pair_up h [] = []"
| "pair_up h [x] = [x]"
| "pair_up h (x # y # r) = h x y # pair_up h r"

lemma length_pair_up: "length (pair_up h xs) = length xs div 2 + length xs mod 2"
  by (induction h xs rule: pair_up.induct) auto

function merkle_spec :: "(int \<Rightarrow> int \<Rightarrow> int) \<Rightarrow> int list \<Rightarrow> int" where
  "merkle_spec h xs = (if length xs > 1 then merkle_spec h (pair_up h xs) else xs ! 0)"
  by pat_completeness auto
termination by (relation "measure (\<lambda>(h, xs). length xs)") (auto simp: length_pair_up, presburger)

declare merkle_spec.simps [simp del]

lemma pair_up_nth:
  "t < length xs div 2 \<Longrightarrow> pair_up h xs ! t = h (xs ! (2 * t)) (xs ! (2 * t + 1))"
proof (induction h xs arbitrary: t rule: pair_up.induct)
  case (3 h x y r)
  then show ?case by (cases t) auto
qed auto

lemma pair_up_last: "odd (length xs) \<Longrightarrow> pair_up h xs ! (length xs div 2) = xs ! (length xs - 1)"
proof (induction h xs rule: pair_up.induct)
  case (3 h x y r)
  then show ?case by (cases r) auto
qed auto

lemma merkle_pairs:
  fixes h :: "int \<Rightarrow> int \<Rightarrow> int"
  assumes "2 * j \<le> length ids"
  defines "a \<equiv> foldl (\<lambda>a k. a[k := h (a ! (2 * k)) (a ! (2 * k + 1))]) ids [0..<j]"
  shows "length a = length ids \<and> (\<forall>t < j. a ! t = h (ids ! (2 * t)) (ids ! (2 * t + 1))) \<and>
    (\<forall>t. j \<le> t \<longrightarrow> t < length ids \<longrightarrow> a ! t = ids ! t)"
  using assms(1) unfolding a_def
proof (induction j)
  case (Suc j)
  let ?a = "foldl (\<lambda>a k. a[k := h (a ! (2 * k)) (a ! (2 * k + 1))]) ids [0..<j]"
  have ih: "length ?a = length ids" "\<And>t. t < j \<Longrightarrow> ?a ! t = h (ids ! (2 * t)) (ids ! (2 * t + 1))"
    "\<And>t. j \<le> t \<Longrightarrow> t < length ids \<Longrightarrow> ?a ! t = ids ! t" using Suc by auto
  have "?a ! (2 * j) = ids ! (2 * j)" "?a ! (2 * j + 1) = ids ! (2 * j + 1)" using Suc.prems ih(3) by auto
  then show ?case using ih Suc.prems by (auto simp: nth_list_update less_Suc_eq)
qed simp

lemma merkle_level_pairs:
  assumes "n \<le> length ids"
  shows "length (merkle_level h n ids) = length ids \<and>
    take (n div 2 + n mod 2) (merkle_level h n ids) = pair_up h (take n ids)"
proof -
  define a where "a = foldl (\<lambda>a k. a[k := h (a ! (2 * k)) (a ! (2 * k + 1))]) ids [0..<n div 2]"
  have a: "length a = length ids" "\<And>t. t < n div 2 \<Longrightarrow> a ! t = h (ids ! (2 * t)) (ids ! (2 * t + 1))"
    "\<And>t. n div 2 \<le> t \<Longrightarrow> t < length ids \<Longrightarrow> a ! t = ids ! t"
    using merkle_pairs [of "n div 2" ids h] assms by (auto simp: a_def)
  have lv: "merkle_level h n ids = (if odd n then a[n div 2 := a ! (n - 1)] else a)"
    by (simp only: merkle_level_def Let_def a_def)
  have len: "length (merkle_level h n ids) = length ids" by (simp add: lv a(1))
  have "take (n div 2 + n mod 2) (merkle_level h n ids) = pair_up h (take n ids)"
  proof (rule nth_equalityI)
    show "length (take (n div 2 + n mod 2) (merkle_level h n ids)) = length (pair_up h (take n ids))"
      using assms len by (simp add: length_pair_up)
    fix t assume "t < length (take (n div 2 + n mod 2) (merkle_level h n ids))"
    then have t: "t < n div 2 + n mod 2" "t < length ids" using len by auto
    show "take (n div 2 + n mod 2) (merkle_level h n ids) ! t = pair_up h (take n ids) ! t"
    proof (cases "t < n div 2")
      case True
      then show ?thesis using t assms a pair_up_nth [of t "take n ids" h]
        by (auto simp: lv nth_list_update)
    next
      case False
      then have "t = n div 2" "odd n" using t by presburger+
      then show ?thesis using t assms a pair_up_last [of "take n ids" h]
        by (auto simp: lv)
    qed
  qed
  with len show ?thesis by simp
qed

lemma merkle_loop_spec: "0 < n \<Longrightarrow> n \<le> length ids \<Longrightarrow> merkle_loop h n ids ! 0 = merkle_spec h (take n ids)"
proof (induction h n ids rule: merkle_loop.induct)
  case (1 h n ids)
  show ?case
  proof (cases "n > 1")
    case True
    note lv = merkle_level_pairs [OF "1.prems"(2), of h]
    have "n div 2 + n mod 2 \<le> n" "0 < n div 2 + n mod 2" using "1.prems"(1) by presburger+
    with "1.IH" [OF True] lv "1.prems" True show ?thesis
      by (simp add: merkle_loop.simps [of h n] merkle_spec.simps [of h "take n ids"])
  next
    case False
    with "1.prems" show ?thesis by (simp add: merkle_loop.simps [of h n] merkle_spec.simps [of h "take n ids"])
  qed
qed

text \<open>C35. The in-place loop of \<^verbatim>\<open>calculate_merkle_root\<close> computes the Merkle root of its specification: the digests
  are paired level by level, an odd one out is carried up unchanged, until one is left.\<close>

theorem merkle_root_correct:
  assumes "transactions b \<noteq> []"
  shows "calculate_merkle_root hs b =
    checksum hs (merkle_spec (hash_pair hs) (map (merkle_digest hs) (transactions b)))"
  using merkle_loop_spec [of "length (transactions b)" "map (merkle_digest hs) (transactions b)" "hash_pair hs"] assms
  by (simp add: calculate_merkle_root_def)

definition sample_hashes :: block_hashes where
  "sample_hashes = \<lparr>sha224 = \<lambda>b. timestamp b * 4294967296 + 7, merkle_digest = \<lambda>t. trx_expiration t, hash_pair = \<lambda>x y. 3 * x + y,
     checksum = \<lambda>x. x, block_signee = \<lambda>b _. Inr (witness_signature b), block_pack_size = \<lambda>_. 500\<rparr>"

theorem merkle_root_correct_witness:
  "calculate_merkle_root sample_hashes
     \<lparr>previous = 0, timestamp = 0, header_witness = [], transaction_merkle_root = 0, blk_extensions = [], witness_signature = 0,
      transactions = map (\<lambda>e. \<lparr>ref_block_num = 0, ref_block_prefix = 0, trx_expiration = e, trx_operations = [], trx_extensions = [], signatures = []\<rparr>)
        [1, 2, 3]\<rparr> = merkle_spec (\<lambda>x y. 3 * x + y) [1, 2, 3]"
  by (subst merkle_root_correct) (simp_all add: sample_hashes_def)

theorem block_number_in_id_witness:
  "let b = \<lparr>previous = 0, timestamp = 3, header_witness = [], transaction_merkle_root = 0, blk_extensions = [],
      witness_signature = 0, transactions = []\<rparr>;
    c = \<lparr>previous = block_id sample_hashes b, timestamp = 6, header_witness = [], transaction_merkle_root = 0,
      blk_extensions = [], witness_signature = 0, transactions = []\<rparr>
   in block_num b = 1 \<and> block_num c = 2"
proof -
  let ?b = "\<lparr>previous = 0, timestamp = 3, header_witness = [], transaction_merkle_root = 0, blk_extensions = [],
      witness_signature = 0, transactions = []\<rparr>"
  have "block_num ?b = 1" by code_simp
  then show ?thesis
    using conjunct2 [OF block_number_in_id [of sample_hashes ?b "\<lparr>previous = block_id sample_hashes ?b, timestamp = 6,
        header_witness = [], transaction_merkle_root = 0, blk_extensions = [], witness_signature = 0, transactions = []\<rparr>"]]
    by simp
qed

end
