(* ===== verification/Genesis.thy ===== *)
theory Genesis
  imports Balance_Sheet
begin

text \<open>
  \<^verbatim>\<open>database::init_genesis\<close>: the first state of a chain from its genesis record. The reserved
  accounts come first, then the initial miner with its witness, then the accounts of the
  genesis file, then the singletons. The state it builds is shown to satisfy the supply
  equations whenever the shares of the coinbase divide without remainder, and for the live
  network's genesis \<^verbatim>\<open>validate_invariants\<close> is evaluated on it.
\<close>

definition empty_schedule :: "sophiatx_config \<Rightarrow> witness_schedule_object" where
  "empty_schedule c =
     \<lparr>current_virtual_time = 0, next_shuffle_block_num = 1, current_shuffled_witnesses = [],
      num_scheduled_witnesses = 1, top19_weight = 21, timeshare_weight = 63,
      witness_pay_normalization_factor = 25, median_props = default_chain_properties c,
      majority_version = 0, max_voted_witnesses = cfg_max_voted_witnesses_hf0 c mod 256,
      max_runner_witnesses = cfg_max_runner_witnesses_hf0 c mod 256,
      hardfork_required_witnesses = cfg_hardfork_required_witnesses c mod 256\<rparr>"

definition empty_hardforks :: hardfork_property_object where
  "empty_hardforks =
     \<lparr>processed_hardforks = [], last_hardfork = 0, current_hardfork_version = hardfork_version 1 0,
      next_hardfork = 0, next_hardfork_time = 0\<rparr>"

text \<open>The state before genesis: all indices empty.\<close>

definition empty_database :: "sophiatx_config \<Rightarrow> database" where
  "empty_database c =
     \<lparr>db_cfg = c, db_dgp = new_dgp c, db_econ = new_economic_model, db_accounts = empty_table,
      db_authorities = empty_table, db_owner_history = empty_table, db_recovery_requests = empty_table,
      db_change_recovery = empty_table, db_sponsors = empty_table, db_witnesses = empty_table,
      db_witness_votes = empty_table, db_schedule = empty_schedule c, db_escrows = empty_table,
      db_feeds = empty_table, db_hardfork = empty_hardforks, db_applications = empty_table,
      db_buyings = empty_table, db_custom = empty_table, db_bandwidth = empty_table,
      db_block_summary = (\<lambda>_. 0), db_transactions = empty_table\<rparr>"

definition threshold_authority :: "int \<Rightarrow> authority" where
  "threshold_authority w = empty_authority\<lparr>weight_threshold := w\<rparr>"

definition genesis_reserved_account :: "account_name_type \<Rightarrow> int \<Rightarrow> database \<Rightarrow> database result" where
  "genesis_reserved_account n w db =
     ebind (create_account (\<lambda>i. (new_account (db_cfg db) i)\<lparr>acc_name := n\<rparr>) db) (\<lambda>db1.
       create_account_authority
         \<lparr>au_account = n, au_owner = threshold_authority w, au_active = threshold_authority w,
          last_owner_update = 0\<rparr> db1)"

definition genesis_initial_account :: "initial_account_type \<Rightarrow> share_type \<times> database \<Rightarrow> (share_type \<times> database) result" where
  "genesis_initial_account acc = (\<lambda>(total_initial_balance, db).
     ebind (safe_add total_initial_balance (ia_balance acc)) (\<lambda>total'.
     let active = add_key_authority (ia_key acc) 1 (threshold_authority 1);
         owner = (if ia_key acc = 0
                  then add_account_authority SOPHIATX_INIT_MINER_NAME 1 (threshold_authority 1)
                  else active) in
     ebind (safe_mul (ia_balance acc) 2) (\<lambda>h.
     ebind (create_account (\<lambda>i. (new_account (db_cfg db) i)\<lparr>acc_name := ia_name acc, memo_key := ia_key acc,
              balance := Asset (ia_balance acc) (cfg_symbol (db_cfg db)),
              holdings_considered_for_interests := h,
              recovery_account := SOPHIATX_INIT_MINER_NAME,
              reset_account := SOPHIATX_INIT_MINER_NAME\<rparr>) db) (\<lambda>db1.
     ebind (create_account_authority
         \<lparr>au_account = ia_name acc, au_owner = owner, au_active = active, last_owner_update = 0\<rparr> db1) (\<lambda>db2.
       Inr (total', db2))))))"

definition feed_row :: "asset_symbol_type \<Rightarrow> feed_history_object" where
  "feed_row s = \<lparr>fh_symbol = s, current_median_history = null_price, price_history = []\<rparr>"

text \<open>The accounts, with the total of their balances.\<close>

definition genesis_accounts :: "genesis_state_type \<Rightarrow> (share_type \<times> database) result" where
  "genesis_accounts genesis =
     (let c = init_config genesis; db = empty_database c; key = g_initial_public_key genesis in
      ebind (genesis_reserved_account SOPHIATX_MINER_ACCOUNT 1 db) (\<lambda>db.
      ebind (genesis_reserved_account SOPHIATX_NULL_ACCOUNT 1 db) (\<lambda>db.
      ebind (genesis_reserved_account SOPHIATX_TEMP_ACCOUNT 0 db) (\<lambda>db.
      ebind (safe_mul (g_initial_balace genesis) 2) (\<lambda>h.
      ebind (create_account (\<lambda>i. (new_account c i)\<lparr>acc_name := SOPHIATX_INIT_MINER_NAME, memo_key := key,
               balance := Asset (g_initial_balace genesis) (cfg_symbol c),
               holdings_considered_for_interests := h\<rparr>) db) (\<lambda>db.
      let au = add_key_authority key 1 (threshold_authority 1) in
      ebind (create_account_authority
        \<lparr>au_account = SOPHIATX_INIT_MINER_NAME, au_owner = au, au_active = au, last_owner_update = 0\<rparr> db) (\<lambda>db.
      ebind (create_witness (\<lambda>i. let w = new_witness c i in
               w\<lparr>wit_owner := SOPHIATX_INIT_MINER_NAME, signing_key := cfg_init_public_mining_key c,
                 schedule := Top19,
                 wit_props := (if g_is_private_net genesis
                               then (wit_props w)\<lparr>account_creation_fee := Asset 0 (cfg_symbol c)\<rparr>
                               else wit_props w)\<rparr>) db) (\<lambda>db.
      efold genesis_initial_account (g_initial_accounts genesis) (g_initial_balace genesis, db)))))))))"

text \<open>The singletons.\<close>

definition genesis_dgp :: "genesis_state_type \<Rightarrow> share_type \<Rightarrow> dynamic_global_property_object" where
  "genesis_dgp genesis total_initial_balance =
     (let c = init_config genesis in
      (new_dgp c)\<lparr>current_witness := SOPHIATX_INIT_MINER_NAME,
        dgp_time := g_genesis_time genesis,
        recent_slots_filled := SOPHIATX_VIRTUAL_SCHEDULE_LAP_LENGTH2,
        participation_count := 128,
        current_supply := Asset total_initial_balance (cfg_symbol c),
        dgp_maximum_block_size := cfg_max_block_size c,
        witness_required_vesting := Asset (if g_is_private_net genesis then 0
           else cfg_initial_witness_required_vesting_balance c) VESTS_SYMBOL,
        dgp_genesis_time := g_genesis_time genesis,
        private_net := g_is_private_net genesis\<rparr>)"

definition init_genesis :: "genesis_state_type \<Rightarrow> database result" where
  "init_genesis genesis =
     (let c = init_config genesis in
      ebind (genesis_accounts genesis) (\<lambda>(total_initial_balance, db).
      ebind (init_economics c total_initial_balance (cfg_total_supply c) new_economic_model) (\<lambda>econ.
        Inr (db\<lparr>db_dgp := genesis_dgp genesis total_initial_balance,
                db_econ := econ,
                db_feeds := foldl (\<lambda>t s. append_row (feed_row s) t) empty_table
                  [SBD1_SYMBOL, SBD2_SYMBOL, SBD3_SYMBOL, SBD4_SYMBOL, SBD5_SYMBOL],
                db_hardfork := empty_hardforks\<lparr>processed_hardforks := [g_genesis_time genesis]\<rparr>,
                db_schedule := (empty_schedule c)\<lparr>current_shuffled_witnesses := [SOPHIATX_INIT_MINER_NAME]\<rparr>\<rparr>))))"

section \<open>The supply of the first state\<close>

text \<open>The pools are exactly the coins that are not issued yet when the percentages divide the
  coinbase evenly.\<close>

definition coinbase_splits :: "sophiatx_config \<Rightarrow> share_type \<Rightarrow> bool" where
  "coinbase_splits c coinbase \<longleftrightarrow>
     (coinbase * cfg_mining_pool_percentage c) sdiv SOPHIATX_100_PERCENT
     + (coinbase * cfg_interest_pool_percentage c) sdiv SOPHIATX_100_PERCENT
     + (coinbase * cfg_promotion_pool_percentage c) sdiv SOPHIATX_100_PERCENT = coinbase"

lemma percent_of_value: "percent_of x p = Inr y \<Longrightarrow> y = (x * p) sdiv SOPHIATX_100_PERCENT"
  by (auto simp: percent_of_def ebind_eq_Inr safe_div_Inr dest!: safe_mul_InrD)

lemma init_economics_total:
  assumes "init_economics c isup tsup new_economic_model = Inr em" "coinbase_splits c (tsup - isup)"
  shows "pool_total em = tsup - isup"
  using assms
  by (auto simp: init_economics_def ebind_eq_Inr pool_total_def new_economic_model_def coinbase_splits_def
      dest!: percent_of_value safe_sub_InrD)

text \<open>The part of the state that the creation of accounts builds up.\<close>

definition genesis_inv :: "sophiatx_config \<Rightarrow> share_type \<Rightarrow> database \<Rightarrow> bool" where
  "genesis_inv c t db \<longleftrightarrow> db_cfg db = c \<and> rows (db_escrows db) = [] \<and>
     distinct (map acc_name (rows (db_accounts db))) \<and>
     list_all (account_symbols_ok (cfg_symbol c)) (rows (db_accounts db)) \<and>
     liquid_of db = t \<and> vested_of db = 0"

lemma genesis_create_account:
  assumes "create_account mk db = Inr db'" "genesis_inv c t db"
    "\<And>i. account_symbols_ok (cfg_symbol c) (mk i)" "\<And>i. amount (vesting_shares (mk i)) = 0"
    "\<And>i. amount (balance (mk i)) = b"
  shows "genesis_inv c (t + b) db'"
  using assms
  by (auto simp: create_account_def ebind_eq_Inr create_in_Inr genesis_inv_def liquid_of_def vested_of_def)

lemma genesis_inv_authority: "create_account_authority a db = Inr db' \<Longrightarrow> genesis_inv c t db' = genesis_inv c t db"
  by (auto simp: genesis_inv_def create_account_authority_def ebind_eq_Inr liquid_of_def vested_of_def)

lemma genesis_create_witness:
  "create_witness mk db = Inr db' \<Longrightarrow> genesis_inv c t db \<Longrightarrow> genesis_inv c t db'"
  by (auto simp: create_witness_def ebind_eq_Inr genesis_inv_def liquid_of_def vested_of_def)

lemma genesis_reserved:
  assumes "genesis_reserved_account n w db = Inr db'" "genesis_inv c t db"
  shows "genesis_inv c t db'"
proof -
  from assms(1) obtain db1 where
    c: "create_account (\<lambda>i. (new_account (db_cfg db) i)\<lparr>acc_name := n\<rparr>) db = Inr db1"
    and db': "create_account_authority \<lparr>au_account = n, au_owner = threshold_authority w,
      au_active = threshold_authority w, last_owner_update = 0\<rparr> db1 = Inr db'"
    by (auto simp: genesis_reserved_account_def ebind_eq_Inr)
  have cfg: "db_cfg db = c" using assms(2) by (simp add: genesis_inv_def)
  have "genesis_inv c (t + 0) db1"
    using c assms(2) by (rule genesis_create_account) (simp_all add: account_symbols_ok_def new_account_def cfg)
  then show ?thesis by (simp add: genesis_inv_authority [OF db'])
qed

lemma genesis_one_account:
  assumes "genesis_initial_account acc (t, db) = Inr (t', db')" "genesis_inv c t db"
  shows "genesis_inv c t' db'"
proof -
  from assms(1) obtain h db1 au where
    c: "create_account (\<lambda>i. (new_account (db_cfg db) i)\<lparr>acc_name := ia_name acc, memo_key := ia_key acc,
              balance := Asset (ia_balance acc) (cfg_symbol (db_cfg db)),
              holdings_considered_for_interests := h,
              recovery_account := SOPHIATX_INIT_MINER_NAME,
              reset_account := SOPHIATX_INIT_MINER_NAME\<rparr>) db = Inr db1"
    and db': "create_account_authority au db1 = Inr db'" and t': "t' = t + ia_balance acc"
    unfolding genesis_initial_account_def Let_def ebind_eq_Inr prod.case by (auto dest!: safe_add_InrD)
  have cfg: "db_cfg db = c" using assms(2) by (simp add: genesis_inv_def)
  have "genesis_inv c (t + ia_balance acc) db1"
    using c assms(2) by (rule genesis_create_account) (simp_all add: account_symbols_ok_def new_account_def cfg)
  then show ?thesis by (simp add: genesis_inv_authority [OF db'] t')
qed

lemma genesis_accounts_loop:
  "efold genesis_initial_account accs (t, db) = Inr (t', db') \<Longrightarrow> genesis_inv c t db \<Longrightarrow> genesis_inv c t' db'"
proof (induction accs arbitrary: t db)
  case (Cons acc accs)
  then obtain t1 db1 where one: "genesis_initial_account acc (t, db) = Inr (t1, db1)"
    and rest: "efold genesis_initial_account accs (t1, db1) = Inr (t', db')"
    by (auto simp: ebind_eq_Inr)
  from Cons.IH [OF rest genesis_one_account [OF one Cons.prems(2)]] show ?case .
qed simp

lemma genesis_inv_empty: "genesis_inv c 0 (empty_database c)"
  by (simp add: genesis_inv_def empty_database_def empty_table_def liquid_of_def vested_of_def)

lemma genesis_inv_money_ok:
  assumes "genesis_inv c t db" "pool_total em = cfg_total_supply c - t"
    "current_supply g = Asset t (cfg_symbol c)" "total_vesting_shares g = Asset 0 VESTS_SYMBOL"
  shows "money_ok (db\<lparr>db_dgp := g, db_econ := em, db_feeds := f, db_hardfork := hf, db_schedule := sc\<rparr>)"
  using assms
  by (simp add: genesis_inv_def money_ok_def ledger_wf_def balanced_def sheet_of_def liquid_of_def vested_of_def
      escrowed_of_def)

lemma genesis_accounts_inv:
  assumes "genesis_accounts g = Inr (t, db)"
  shows "genesis_inv (init_config g) t db"
proof -
  let ?c = "init_config g"
  from assms obtain db1 db2 db3 h db4 au db4' mkw db5 where
    1: "genesis_reserved_account SOPHIATX_MINER_ACCOUNT 1 (empty_database ?c) = Inr db1"
    and 2: "genesis_reserved_account SOPHIATX_NULL_ACCOUNT 1 db1 = Inr db2"
    and 3: "genesis_reserved_account SOPHIATX_TEMP_ACCOUNT 0 db2 = Inr db3"
    and 4: "create_account (\<lambda>i. (new_account ?c i)\<lparr>acc_name := SOPHIATX_INIT_MINER_NAME,
        memo_key := g_initial_public_key g, balance := Asset (g_initial_balace g) (cfg_symbol ?c),
        holdings_considered_for_interests := h\<rparr>) db3 = Inr db4"
    and au: "create_account_authority au db4 = Inr db4'" and 5: "create_witness mkw db4' = Inr db5"
    and 6: "efold genesis_initial_account (g_initial_accounts g) (g_initial_balace g, db5) = Inr (t, db)"
    unfolding genesis_accounts_def Let_def ebind_eq_Inr by blast
  have "genesis_inv ?c 0 db3"
    using genesis_reserved [OF 3 genesis_reserved [OF 2 genesis_reserved [OF 1 genesis_inv_empty]]] .
  from genesis_create_account [OF 4 this, of "g_initial_balace g"]
  have "genesis_inv ?c (g_initial_balace g) db4" by (simp add: account_symbols_ok_def new_account_def)
  then have "genesis_inv ?c (g_initial_balace g) db5"
    using genesis_create_witness [OF 5] genesis_inv_authority [OF au] by simp
  from genesis_accounts_loop [OF 6 this] show ?thesis .
qed

text \<open>The state built by \<^verbatim>\<open>init_genesis\<close> satisfies the supply equations: all coins of the initial
  accounts are in the recorded supply and the rest of the total supply is in the pools,
  provided the pool percentages divide the coinbase without remainder.\<close>

theorem init_genesis_money_ok:
  assumes run: "init_genesis g = Inr db"
    and split: "coinbase_splits (init_config g) (cfg_total_supply (init_config g) - amount (current_supply (db_dgp db)))"
  shows "money_ok db"
proof -
  let ?c = "init_config g"
  from run obtain t db1 em where 1: "genesis_accounts g = Inr (t, db1)"
    and 2: "init_economics ?c t (cfg_total_supply ?c) new_economic_model = Inr em"
    and db: "db = db1\<lparr>db_dgp := genesis_dgp g t, db_econ := em,
        db_feeds := foldl (\<lambda>t s. append_row (feed_row s) t) empty_table
          [SBD1_SYMBOL, SBD2_SYMBOL, SBD3_SYMBOL, SBD4_SYMBOL, SBD5_SYMBOL],
        db_hardfork := empty_hardforks\<lparr>processed_hardforks := [g_genesis_time g]\<rparr>,
        db_schedule := (empty_schedule ?c)\<lparr>current_shuffled_witnesses := [SOPHIATX_INIT_MINER_NAME]\<rparr>\<rparr>"
    by (auto simp: init_genesis_def Let_def ebind_eq_Inr)
  have dgp: "current_supply (genesis_dgp g t) = Asset t (cfg_symbol ?c)"
    "total_vesting_shares (genesis_dgp g t) = Asset 0 VESTS_SYMBOL"
    by (simp_all add: genesis_dgp_def new_dgp_def Let_def)
  have "coinbase_splits ?c (cfg_total_supply ?c - t)" using split db dgp by simp
  from init_economics_total [OF 2 this] have "pool_total em = cfg_total_supply ?c - t" .
  from genesis_inv_money_ok [OF genesis_accounts_inv [OF 1] this dgp] show ?thesis by (simp add: db)
qed

text \<open>The genesis of the live network.\<close>

definition live_genesis :: "database result" where
  "live_genesis = init_genesis (default_genesis 1)"

lemma live_genesis_checked:
  "succeeds live_genesis (\<lambda>db. validate_invariants db = Inr () \<and>
     coinbase_splits (db_cfg db) (cfg_total_supply (db_cfg db) - amount (current_supply (db_dgp db))))"
  by code_simp

theorem init_genesis_money_ok_witness: "succeeds (init_genesis (default_genesis 1)) money_ok"
proof -
  have "succeeds (init_genesis (default_genesis 1)) (\<lambda>db.
      coinbase_splits (init_config (default_genesis 1))
        (cfg_total_supply (init_config (default_genesis 1)) - amount (current_supply (db_dgp db))))"
    by code_simp
  then show ?thesis using init_genesis_money_ok by (auto simp: succeeds_iff)
qed

theorem validate_invariants_decides_supply_witness:
  "succeeds live_genesis (\<lambda>db. balanced (cfg_total_supply (db_cfg db)) (sheet_of db))"
proof -
  have "succeeds live_genesis (\<lambda>db. validate_invariants db = Inr () \<and> ledger_wf db \<and> amounts_nonneg db \<and>
      \<not> is_private_net db \<and> cfg_total_supply (db_cfg db) \<le> int64_max)"
    by code_simp
  then show ?thesis using validate_invariants_decides_supply by (auto simp: succeeds_iff)
qed

end
