(* ===== verification/Witness_Schedule.thy ===== *)
theory Witness_Schedule
  imports Blocks Genesis "HOL-Library.Multiset"
begin

unbundle bit_operations_syntax

text \<open>
  \<^verbatim>\<open>libraries/chain/witness_schedule.cpp\<close> and the slot arithmetic of \<^verbatim>\<open>database.cpp\<close>: which witness may
  produce in which slot. The order of an index is a stable sort of the table, whose rows are in the
  order of their ids. Where \<^verbatim>\<open>std::sort\<close> may order equal elements differently only the symbol of
  the median fee could change.
\<close>

section \<open>Slots\<close>

definition get_slot_time :: "int \<Rightarrow> database \<Rightarrow> time_point_sec" where
  "get_slot_time slot_num db =
     (if slot_num = 0 then 0
      else let interval = cfg_block_interval (db_cfg db) in
        if head_block_num db = 0 then u32 (head_block_time db + u32 (slot_num * interval))
        else let head_slot_time = u32 (head_block_time db div interval * interval)
             in u32 (head_slot_time + u32 (slot_num * interval)))"

definition get_slot_at_time :: "time_point_sec \<Rightarrow> database \<Rightarrow> int" where
  "get_slot_at_time when db =
     (let first_slot_time = get_slot_time 1 db in
      if when < first_slot_time then 0
      else u32 ((when - first_slot_time) div cfg_block_interval (db_cfg db) + 1))"

definition get_scheduled_witness :: "int \<Rightarrow> database \<Rightarrow> account_name_type" where
  "get_scheduled_witness slot_num db =
     (let wso = db_schedule db; aslot = u64 (current_aslot (db_dgp db) + slot_num) in
      current_shuffled_witnesses wso ! nat (aslot mod num_scheduled_witnesses wso))"

section \<open>Virtual time\<close>

definition lap :: "witness_object \<Rightarrow> int result" where
  "lap w =
     (let d = u128 (i64 (votes w + 1)) in
      if d = 0 then Inl Divide_by_zero_exception else Inr (SOPHIATX_VIRTUAL_SCHEDULE_LAP_LENGTH2 div d))"

definition reset_witness_time :: "witness_object \<Rightarrow> database \<Rightarrow> database result" where
  "reset_witness_time w db =
     ebind (lap w) (\<lambda>l. Inr (modify_witness (wit_owner w)
       (\<lambda>x. x\<lparr>virtual_position := 0, virtual_last_update := current_virtual_time (db_schedule db),
          virtual_scheduled_time := l\<rparr>) db))"

definition reset_virtual_schedule_time :: "database \<Rightarrow> database result" where
  "reset_virtual_schedule_time db =
     (let db1 = db\<lparr>db_schedule := (db_schedule db)\<lparr>current_virtual_time := 0\<rparr>\<rparr>
      in efold reset_witness_time (rows (db_witnesses db)) db1)"

definition advance_witness_time :: "int \<Rightarrow> witness_object \<Rightarrow> bool \<times> database \<Rightarrow> (bool \<times> database) result" where
  "advance_witness_time vt w st =
     (if fst st then Inr st
      else ebind (lap w) (\<lambda>l.
        let t = u128 (vt + l) in
        if t < vt then Inr (True, snd st)
        else Inr (False, modify_witness (wit_owner w)
          (\<lambda>x. x\<lparr>virtual_position := 0, virtual_last_update := vt, virtual_scheduled_time := t\<rparr>) (snd st))))"

section \<open>Selection\<close>

definition by_vote_name :: "database \<Rightarrow> witness_object list" where
  "by_vote_name db = sort_key (\<lambda>w. - votes w) (sort_key wit_owner (rows (db_witnesses db)))"

definition by_schedule_time :: "database \<Rightarrow> witness_object list" where
  "by_schedule_time db = sort_key virtual_scheduled_time (rows (db_witnesses db))"

definition voted_witnesses :: "database \<Rightarrow> witness_object list" where
  "voted_witnesses db =
     take (nat (max_voted_witnesses (db_schedule db))) (filter (\<lambda>w. signing_key w \<noteq> 0) (by_vote_name db))"

text \<open>The loop over the index by virtual time: the time reached, the witnesses passed, the number of
  witnesses without a key among them, and those chosen.\<close>

record runner_scan =
  sc_time :: int
  sc_processed :: "witness_object list"
  sc_skipped :: nat
  sc_chosen :: "witness_object list"

fun scan_runners :: "nat \<Rightarrow> nat list \<Rightarrow> nat \<Rightarrow> witness_object list \<Rightarrow> runner_scan \<Rightarrow> runner_scan" where
  "scan_runners limit selected taken [] sc = sc"
| "scan_runners limit selected taken (w # ws) sc =
     (if taken < limit then
        let sc1 = sc\<lparr>sc_time := virtual_scheduled_time w, sc_processed := sc_processed sc @ [w]\<rparr> in
        if signing_key w = 0 then scan_runners limit selected taken ws (sc1\<lparr>sc_skipped := Suc (sc_skipped sc1)\<rparr>)
        else if wit_id w \<notin> set selected
        then scan_runners limit selected (Suc taken) ws (sc1\<lparr>sc_chosen := sc_chosen sc1 @ [w]\<rparr>)
        else scan_runners limit selected taken ws sc1
      else sc)"

definition mark_schedule :: "witness_schedule_type \<Rightarrow> witness_object list \<Rightarrow> database \<Rightarrow> database" where
  "mark_schedule s ws db = fold (\<lambda>w. modify_witness (wit_owner w) (\<lambda>x. x\<lparr>schedule := s\<rparr>)) ws db"

section \<open>Versions\<close>

definition count_of :: "'a \<Rightarrow> 'a list \<Rightarrow> int" where
  "count_of x xs = int (length (filter (\<lambda>y. y = x) xs))"

text \<open>The highest version that enough witnesses run or exceed.\<close>

fun majority_scan :: "int \<Rightarrow> version list \<Rightarrow> version list \<Rightarrow> int \<Rightarrow> version option" where
  "majority_scan req all [] n = None"
| "majority_scan req all (v # vs) n =
     (let n' = n + count_of v all in if n' \<ge> req then Some v else majority_scan req all vs n')"

definition majority_of :: "int \<Rightarrow> version list \<Rightarrow> version option" where
  "majority_of req vs = majority_scan req vs (rev (sort (remdups vs))) 0"

definition hardfork_winner :: "int \<Rightarrow> (hardfork_version \<times> time_point_sec) list \<Rightarrow> (hardfork_version \<times> time_point_sec) option" where
  "hardfork_winner req ps =
     find (\<lambda>p. count_of p ps \<ge> req) (sort_key fst (sort_key snd (remdups ps)))"

definition scheduled_names :: "database \<Rightarrow> account_name_type list" where
  "scheduled_names db =
     (let wso = db_schedule db in
      map (\<lambda>i. current_shuffled_witnesses wso ! i) [0..<nat (num_scheduled_witnesses wso)])"

definition scheduled_witnesses :: "database \<Rightarrow> witness_object list result" where
  "scheduled_witnesses db =
     efold (\<lambda>n ws. ebind (get_witness n db) (\<lambda>w. Inr (ws @ [w]))) (scheduled_names db) []"

definition update_versions :: "database \<Rightarrow> (version \<times> database) result" where
  "update_versions db =
     (let wso = db_schedule db; hfp = db_hardfork db;
          req = (if is_private_net db then (num_scheduled_witnesses wso div 2 + 1) mod 256
                 else hardfork_required_witnesses wso) in
      ebind (scheduled_witnesses db) (\<lambda>ws.
        let majority = (case majority_of req (map running_version ws) of
                          None \<Rightarrow> majority_version wso | Some v \<Rightarrow> v);
            hfp' = (case hardfork_winner req (map (\<lambda>w. (hardfork_version_vote w, hardfork_time_vote w)) ws) of
                      None \<Rightarrow> hfp\<lparr>next_hardfork := current_hardfork_version hfp\<rparr>
                    | Some (v, t) \<Rightarrow> hfp\<lparr>next_hardfork := v, next_hardfork_time := t\<rparr>)
        in Inr (majority, db\<lparr>db_hardfork := hfp'\<rparr>)))"

section \<open>The shuffle\<close>

definition shuffle_rand :: "time_point_sec \<Rightarrow> nat \<Rightarrow> 64 word" where
  "shuffle_rand now i =
     (let k0 = push_bit 32 (of_int now) + of_nat i * 2685821657736338717;
          k1 = k0 XOR drop_bit 12 k0;
          k2 = k1 XOR push_bit 25 k1;
          k3 = k2 XOR drop_bit 27 k2
      in k3 * 2685821657736338717)"

definition swap :: "nat \<Rightarrow> nat \<Rightarrow> 'a list \<Rightarrow> 'a list" where
  "swap i j xs = xs[i := xs ! j, j := xs ! i]"

definition shuffle_step :: "time_point_sec \<Rightarrow> nat \<Rightarrow> nat \<Rightarrow> 'a list \<Rightarrow> 'a list" where
  "shuffle_step now n i xs = swap i (i + nat (uint (shuffle_rand now i) mod int (n - i))) xs"

definition shuffle :: "time_point_sec \<Rightarrow> nat \<Rightarrow> 'a list \<Rightarrow> 'a list" where
  "shuffle now n xs = fold (shuffle_step now n) [0..<n] xs"

section \<open>The new schedule\<close>

text \<open>The array is padded to the maximal number of witnesses with empty names.\<close>

definition new_schedule :: "time_point_sec \<Rightarrow> int \<Rightarrow> nat \<Rightarrow> nat \<Rightarrow> int \<Rightarrow> version \<Rightarrow> account_name_type list
    \<Rightarrow> sophiatx_config \<Rightarrow> witness_schedule_object \<Rightarrow> witness_schedule_object" where
  "new_schedule now block_no num_elected num_timeshare vt majority active c wso =
     (let padded = active @ replicate (nat (cfg_max_witnesses c) - length active) 0;
          n = max (length active mod 256) 1 in
      wso\<lparr>num_scheduled_witnesses := int n,
          top19_weight := u8 (int (num_elected + num_timeshare)),
          timeshare_weight := u8 (3 * u8 (int (num_elected + num_timeshare))),
          witness_pay_normalization_factor := int (num_elected + 3 * num_timeshare),
          current_shuffled_witnesses := shuffle now n padded,
          current_virtual_time := vt,
          next_shuffle_block_num := u32 (block_no + int n),
          majority_version := majority\<rparr>)"

definition median_by :: "(witness_object \<Rightarrow> int) \<Rightarrow> witness_object list \<Rightarrow> witness_object" where
  "median_by key ws = sort_key key ws ! (length ws div 2)"

definition update_median_witness_props :: "database \<Rightarrow> database result" where
  "update_median_witness_props db =
     ebind (scheduled_witnesses db) (\<lambda>active.
       let fee = account_creation_fee (wit_props (median_by (\<lambda>w. amount (account_creation_fee (wit_props w))) active));
           size = maximum_block_size (wit_props (median_by (\<lambda>w. maximum_block_size (wit_props w)) active)) in
       Inr (modify_dgp (\<lambda>d. d\<lparr>dgp_maximum_block_size := size\<rparr>)
         (db\<lparr>db_schedule := (db_schedule db)\<lparr>median_props :=
            (median_props (db_schedule db))\<lparr>account_creation_fee := fee, maximum_block_size := size\<rparr>\<rparr>\<rparr>)))"

definition update_witness_schedule4 :: "database \<Rightarrow> database result" where
  "update_witness_schedule4 db =
     (let c = db_cfg db; limit = nat (cfg_max_witnesses c);
          voted = voted_witnesses db;
          sc = scan_runners limit (map wit_id voted) (length voted) (by_schedule_time db)
                 \<lparr>sc_time = current_virtual_time (db_schedule db), sc_processed = [], sc_skipped = 0, sc_chosen = []\<rparr>;
          active = map wit_owner (voted @ sc_chosen sc);
          db1 = mark_schedule Timeshare (sc_chosen sc) (mark_schedule Top19 voted db) in
      ebind (efold (advance_witness_time (sc_time sc)) (sc_processed sc) (False, db1)) (\<lambda>(overflow, db2).
      ebind (if overflow then reset_virtual_schedule_time db2 else Inr db2) (\<lambda>db3.
      let vt = (if overflow then 0 else sc_time sc) in
      FC_ASSERT (length active = min limit (length (rows (db_witnesses db)) - sc_skipped sc))
        ''number of active witnesses does not equal expected_active_witnesses''
      (ebind (update_versions db3) (\<lambda>(majority, db4).
        update_median_witness_props (db4\<lparr>db_schedule :=
          new_schedule (head_block_time db) (head_block_num db) (length voted) (length (sc_chosen sc)) vt majority
            active c (db_schedule db4)\<rparr>))))))"

definition update_witness_schedule :: "database \<Rightarrow> database result" where
  "update_witness_schedule db =
     (if head_block_num db mod cfg_max_witnesses (db_cfg db) = 0 then update_witness_schedule4 db else Inr db)"

section \<open>Slots and times\<close>

definition slot_base :: "database \<Rightarrow> int" where
  "slot_base db =
     (if head_block_num db = 0 then head_block_time db
      else head_block_time db div cfg_block_interval (db_cfg db) * cfg_block_interval (db_cfg db))"

lemma get_slot_time_value:
  assumes "0 < k" "0 \<le> head_block_time db" "0 < cfg_block_interval (db_cfg db)"
    "head_block_time db + k * cfg_block_interval (db_cfg db) < 4294967296"
  shows "get_slot_time k db = slot_base db + k * cfg_block_interval (db_cfg db)"
proof -
  let ?i = "cfg_block_interval (db_cfg db)" and ?t = "head_block_time db"
  have "?t div ?i * ?i \<le> ?t" using div_mult_mod_eq [of ?t ?i] pos_mod_sign [of ?i ?t] assms(3) by linarith
  then have b: "0 \<le> slot_base db" "slot_base db \<le> ?t"
    using assms(2,3) by (simp_all add: slot_base_def pos_imp_zdiv_nonneg_iff)
  have k: "0 \<le> k * ?i" using assms(1,3) by simp
  have u: "u32 x = x" if "0 \<le> x" "x < 4294967296" for x using that by (simp add: u32_def)
  have "u32 (k * ?i) = k * ?i" "u32 (slot_base db) = slot_base db" "u32 (slot_base db + k * ?i) = slot_base db + k * ?i"
    by (rule u; use b k assms in linarith)+
  then show ?thesis using assms(1) by (auto simp: get_slot_time_def slot_base_def Let_def)
qed

text \<open>The two conversions between slots and times are inverse: the time of the \<open>k\<close>-th slot after the head
  is in slot \<open>k\<close> again, as long as times fit into 32 bits.\<close>

theorem slot_time_roundtrip:
  assumes "0 < k" "0 \<le> head_block_time db" "0 < cfg_block_interval (db_cfg db)"
    "head_block_time db + k * cfg_block_interval (db_cfg db) < 4294967296"
  shows "get_slot_at_time (get_slot_time k db) db = k"
proof -
  let ?i = "cfg_block_interval (db_cfg db)"
  have i: "?i \<le> k * ?i" using assms(1,3) by (simp add: mult_le_cancel_right1)
  then have "head_block_time db + 1 * ?i < 4294967296" using assms(4) by simp
  then have 1: "get_slot_time 1 db = slot_base db + ?i" using get_slot_time_value [of 1 db] assms(2,3) by simp
  have k: "get_slot_time k db = slot_base db + k * ?i" using get_slot_time_value [OF assms(1-3)] assms(4) by simp
  have "k * ?i - ?i = (k - 1) * ?i" by (simp add: algebra_simps)
  then have "(get_slot_time k db - get_slot_time 1 db) div ?i = k - 1" using assms(3) by (simp add: 1 k)
  moreover have "k \<le> k * ?i" using assms(1,3) by (simp add: mult_le_cancel_left1)
  then have "k < 4294967296" using assms(2,4) by linarith
  then have "u32 k = k" using assms(1) by (simp add: u32_def)
  ultimately show ?thesis using i by (simp add: get_slot_at_time_def 1 k)
qed

section \<open>Every scheduled witness gets its slot\<close>

lemma swap_take:
  assumes "i < n" "j < n" "n \<le> length xs"
  shows "mset (take n (swap i j xs)) = mset (take n xs) \<and> drop n (swap i j xs) = drop n xs \<and> length (swap i j xs) = length xs"
proof -
  have "take n (swap i j xs) = (take n xs)[i := take n xs ! j, j := take n xs ! i]"
    using assms by (simp add: swap_def take_update_swap)
  then show ?thesis using assms mset_swap [of j "take n xs" i] by (simp add: swap_def)
qed

lemma shuffle_steps:
  assumes "n \<le> length xs" "m \<le> n"
  shows "mset (take n (fold (shuffle_step now n) [0..<m] xs)) = mset (take n xs) \<and>
    drop n (fold (shuffle_step now n) [0..<m] xs) = drop n xs \<and> length (fold (shuffle_step now n) [0..<m] xs) = length xs"
  using assms(2)
proof (induction m)
  case (Suc m)
  let ?r = "uint (shuffle_rand now m) mod int (n - m)"
  let ?j = "m + nat ?r"
  have "?r < int (n - m)" "0 \<le> ?r" using Suc.prems by simp_all
  then have "?j < n" using Suc.prems by linarith
  moreover have "fold (shuffle_step now n) [0..<Suc m] xs = swap m ?j (fold (shuffle_step now n) [0..<m] xs)"
    unfolding upt_Suc_append [OF le0] fold_append by (simp add: shuffle_step_def)
  ultimately show ?case
    using Suc swap_take [of m n ?j "fold (shuffle_step now n) [0..<m] xs"] assms(1) by (simp only: Suc_le_lessD)
qed simp

lemma shuffle_mset:
  "n \<le> length xs \<Longrightarrow> mset (take n (shuffle now n xs)) = mset (take n xs) \<and> length (shuffle now n xs) = length xs"
  using shuffle_steps [of n xs n now] by (simp add: shuffle_def)

lemma round_is_rotation:
  assumes "0 < n" "n \<le> length xs"
  shows "mset (map (\<lambda>k. xs ! ((a + k) mod n)) [0..<n]) = mset (take n xs)"
proof -
  have "map (\<lambda>k. xs ! ((a + k) mod n)) [0..<n] = rotate a (take n xs)"
    using assms by (intro nth_equalityI) (auto simp: nth_rotate)
  moreover have "mset (rotate a ys) = mset ys" for ys :: "'a list"
    by (metis append_take_drop_id mset_append rotate_drop_take union_commute)
  ultimately show ?thesis by simp
qed

definition schedule_ok :: "witness_schedule_object \<Rightarrow> bool" where
  "schedule_ok wso \<longleftrightarrow> 0 < num_scheduled_witnesses wso \<and> num_scheduled_witnesses wso \<le> int (length (current_shuffled_witnesses wso))"

text \<open>C20. Fair scheduling: in any round of as many consecutive slots as there are scheduled witnesses, every
  scheduled witness gets exactly one slot, wherever the round starts, as long as slot numbers fit 64 bits. So a scheduled witness never
  waits longer than one round. Slot 0 is a slot like the others: \<^verbatim>\<open>get_scheduled_witness\<close> does not treat it
  specially, although its documentation says that it returns \<^verbatim>\<open>SOPHIATX_NULL_WITNESS\<close> for it.\<close>

theorem every_witness_gets_a_slot:
  assumes "schedule_ok (db_schedule db)" "0 \<le> current_aslot (db_dgp db)" "0 \<le> s"
    "current_aslot (db_dgp db) + s + num_scheduled_witnesses (db_schedule db) \<le> 2 ^ 64"
  shows "mset (map (\<lambda>k. get_scheduled_witness (s + int k) db) [0..<nat (num_scheduled_witnesses (db_schedule db))])
    = mset (scheduled_names db)"
proof -
  let ?xs = "current_shuffled_witnesses (db_schedule db)"
  define n where "n = nat (num_scheduled_witnesses (db_schedule db))"
  have n: "num_scheduled_witnesses (db_schedule db) = int n" "0 < n" "n \<le> length ?xs"
    using assms(1) by (auto simp: schedule_ok_def n_def)
  define a where "a = nat (current_aslot (db_dgp db) + s)"
  have a: "current_aslot (db_dgp db) + s = int a" using assms(2,3) by (simp add: a_def)
  have "get_scheduled_witness (s + int k) db = ?xs ! ((a + k) mod n)" if "k < n" for k
  proof -
    have "u64 (current_aslot (db_dgp db) + (s + int k)) = int (a + k)"
      using a assms(4) n that by (simp add: u64_def)
    then show ?thesis by (simp only: get_scheduled_witness_def Let_def n(1) zmod_int [symmetric] nat_int)
  qed
  then have "map (\<lambda>k. get_scheduled_witness (s + int k) db) [0..<n] = map (\<lambda>k. ?xs ! ((a + k) mod n)) [0..<n]" by simp
  moreover have "scheduled_names db = take n ?xs"
    using n by (intro nth_equalityI) (auto simp: scheduled_names_def Let_def)
  ultimately show ?thesis using round_is_rotation [OF n(2,3), of a] by (simp only: n(1) nat_int)
qed

section \<open>Who is scheduled\<close>

lemma scan_chosen:
  "sc_chosen (scan_runners limit selected taken ws sc) =
     sc_chosen sc @ take (limit - taken) (filter (\<lambda>w. signing_key w \<noteq> 0 \<and> wit_id w \<notin> set selected) ws)"
  by (induction limit selected taken ws sc rule: scan_runners.induct) (auto simp: Let_def Suc_diff_Suc take_Cons')

definition keyed :: "database \<Rightarrow> witness_object list" where
  "keyed db = filter (\<lambda>w. signing_key w \<noteq> 0) (rows (db_witnesses db))"

definition runners :: "database \<Rightarrow> witness_object list" where
  "runners db =
     take (nat (cfg_max_witnesses (db_cfg db)) - length (voted_witnesses db))
       (filter (\<lambda>w. signing_key w \<noteq> 0 \<and> wit_id w \<notin> set (map wit_id (voted_witnesses db))) (by_schedule_time db))"

definition witnesses_ok :: "database \<Rightarrow> bool" where
  "witnesses_ok db \<longleftrightarrow> distinct (map wit_id (rows (db_witnesses db))) \<and> distinct (map wit_owner (rows (db_witnesses db))) \<and>
     0 \<le> max_voted_witnesses (db_schedule db) \<and> max_voted_witnesses (db_schedule db) \<le> cfg_max_witnesses (db_cfg db) \<and>
     cfg_max_witnesses (db_cfg db) < 256"

lemma index_orders:
  "mset (by_vote_name db) = mset (rows (db_witnesses db))" "set (by_vote_name db) = set (rows (db_witnesses db))"
  "mset (by_schedule_time db) = mset (rows (db_witnesses db))" "set (by_schedule_time db) = set (rows (db_witnesses db))"
  by (simp_all add: by_vote_name_def by_schedule_time_def)

lemma distinct_orders:
  assumes "distinct (rows (db_witnesses db))"
  shows "distinct (by_vote_name db)" "distinct (by_schedule_time db)"
  using assms by (simp_all add: by_vote_name_def by_schedule_time_def)

lemma selection:
  assumes "witnesses_ok db"
  shows "distinct (voted_witnesses db @ runners db)" "set (voted_witnesses db @ runners db) \<subseteq> set (keyed db)"
    "length (voted_witnesses db @ runners db) = min (nat (cfg_max_witnesses (db_cfg db))) (length (keyed db))"
proof -
  let ?v = "voted_witnesses db" and ?R = "rows (db_witnesses db)" and ?m = "nat (cfg_max_witnesses (db_cfg db))"
  let ?P = "\<lambda>w. signing_key w \<noteq> 0 \<and> wit_id w \<notin> set (map wit_id ?v)"
  let ?C = "filter ?P (by_schedule_time db)"
  have ids: "inj_on wit_id (set ?R)" and d: "distinct ?R"
    using assms by (simp_all add: witnesses_ok_def distinct_map)
  have vk: "set ?v \<subseteq> set (keyed db)" "distinct ?v"
    using distinct_orders(1) [OF d] set_take_subset [of _ "filter (\<lambda>w. signing_key w \<noteq> 0) (by_vote_name db)"]
    by (auto simp: voted_witnesses_def keyed_def index_orders)
  have C: "set ?C = set (keyed db) - set ?v"
    using vk(1) ids by (auto simp: keyed_def index_orders inj_on_def)
  have dC: "distinct ?C" using distinct_orders(2) [OF d] by simp
  have r: "set (runners db) \<subseteq> set ?C" "distinct (runners db)" "length (runners db) = min (?m - length ?v) (length ?C)"
    using dC set_take_subset [of _ ?C] by (auto simp: runners_def min.commute)
  show "distinct (?v @ runners db)" "set (?v @ runners db) \<subseteq> set (keyed db)" using vk r C by auto
  have "distinct (keyed db)" using d by (simp add: keyed_def)
  then have lC: "length ?C = length (keyed db) - length ?v" "length ?v \<le> length (keyed db)"
    using C dC vk by (metis card_Diff_subset distinct_card List.finite_set, metis card_mono distinct_card List.finite_set)
  have "mset (filter (\<lambda>w. signing_key w \<noteq> 0) (by_vote_name db)) = mset (keyed db)"
    by (simp add: keyed_def index_orders)
  then have "length ?v \<le> ?m"
    using assms by (simp add: voted_witnesses_def witnesses_ok_def min.coboundedI2 nat_mono)
  then show "length (?v @ runners db) = min ?m (length (keyed db))" 
    using lC r(3) unfolding length_append by linarith
qed

lemma median_props_schedule:
  "update_median_witness_props db = Inr db' \<Longrightarrow>
     num_scheduled_witnesses (db_schedule db') = num_scheduled_witnesses (db_schedule db) \<and>
     current_shuffled_witnesses (db_schedule db') = current_shuffled_witnesses (db_schedule db)"
  by (auto simp: update_median_witness_props_def result_simps Let_def modify_dgp_def)

lemma schedule4_names:
  assumes "update_witness_schedule4 db = Inr db'"
  defines "active \<equiv> map wit_owner (voted_witnesses db @ runners db)"
  defines "n \<equiv> max (length active mod 256) 1"
  shows "num_scheduled_witnesses (db_schedule db') = int n \<and> current_shuffled_witnesses (db_schedule db') =
    shuffle (head_block_time db) n (active @ replicate (nat (cfg_max_witnesses (db_cfg db)) - length active) 0)"
proof -
  from assms(1) obtain wso d1 vt mj ne nt where
    "update_median_witness_props (d1\<lparr>db_schedule := new_schedule (head_block_time db) (head_block_num db) ne nt vt mj
       active (db_cfg db) wso\<rparr>) = Inr db'"
    by (auto simp: update_witness_schedule4_def result_simps Let_def scan_chosen runners_def active_def)
  from median_props_schedule [OF this] show ?thesis by (simp add: new_schedule_def Let_def n_def)
qed

lemma byte_count: "0 < k \<Longrightarrow> k < 256 \<Longrightarrow> max (k mod 256) 1 = (k :: nat)"
  by simp

lemma scheduled_names_take:
  "schedule_ok (db_schedule db) \<Longrightarrow>
     scheduled_names db = take (nat (num_scheduled_witnesses (db_schedule db))) (current_shuffled_witnesses (db_schedule db))"
  by (intro nth_equalityI) (auto simp: scheduled_names_def schedule_ok_def Let_def)

lemma shuffled_schedule:
  assumes "num_scheduled_witnesses (db_schedule db) = int (length a)"
    "current_shuffled_witnesses (db_schedule db) = shuffle now (length a) (a @ r)" "0 < length a"
  shows "schedule_ok (db_schedule db) \<and> mset (scheduled_names db) = mset a"
proof -
  have ok: "schedule_ok (db_schedule db)"
    using assms shuffle_mset [of "length a" "a @ r" now] by (simp add: schedule_ok_def)
  then show ?thesis
    using assms(1,2) shuffle_mset [of "length a" "a @ r" now] scheduled_names_take [OF ok] by simp
qed

text \<open>C21. The new schedule: every name in it belongs to a different witness with a signing key, there are as many
  as the configuration allows and the keys give, the most voted witnesses are among them, and the
  schedule is a permutation of the chosen ones, whatever the shuffle draws.\<close>

theorem schedule_selects_witnesses:
  assumes "update_witness_schedule4 db = Inr db'" "witnesses_ok db" "keyed db \<noteq> []" "0 < cfg_max_witnesses (db_cfg db)"
  shows "schedule_ok (db_schedule db') \<and> distinct (scheduled_names db') \<and>
    length (scheduled_names db') = min (nat (cfg_max_witnesses (db_cfg db))) (length (keyed db)) \<and>
    set (scheduled_names db') \<subseteq> wit_owner ` set (keyed db) \<and>
    wit_owner ` set (voted_witnesses db) \<subseteq> set (scheduled_names db')"
proof -
  let ?a = "map wit_owner (voted_witnesses db @ runners db)" and ?m = "nat (cfg_max_witnesses (db_cfg db))"
  let ?p = "?a @ replicate (?m - length ?a) 0"
  note sel = selection [OF assms(2)]
  have len: "length ?a = min ?m (length (keyed db))" using sel(3) by simp
  moreover have "?m < 256" "0 < ?m" "0 < length (keyed db)" using assms(2-4) by (auto simp: witnesses_ok_def)
  ultimately have n: "0 < length ?a" "length ?a < 256" by linarith+
  then have n1: "max (length ?a mod 256) 1 = length ?a" by (rule byte_count)
  have s: "num_scheduled_witnesses (db_schedule db') = int (length ?a)"
    "current_shuffled_witnesses (db_schedule db') = shuffle (head_block_time db) (length ?a) ?p"
    using schedule4_names [OF assms(1)] unfolding n1 by simp_all
  have ok: "schedule_ok (db_schedule db')" and "mset (scheduled_names db') = mset ?a"
    using shuffled_schedule [OF s n(1)] by simp_all
  then have names: "set (scheduled_names db') = set ?a" "length (scheduled_names db') = length ?a"
    "distinct (scheduled_names db') = distinct ?a"
    by (metis set_mset_mset, metis size_mset, metis mset_eq_imp_distinct_iff)
  have "inj_on wit_owner (set (rows (db_witnesses db)))" using assms(2) by (simp add: witnesses_ok_def distinct_map)
  then have "distinct ?a" using sel(1,2) by (subst distinct_map) (auto simp: keyed_def intro: inj_on_subset)
  then show ?thesis using ok names len sel(2) by (auto simp del: map_append)
qed

section \<open>Witnesses\<close>

text \<open>A chain with four keyed witnesses, of which the schedule takes two by votes.\<close>

definition extra_witness :: "account_name_type \<Rightarrow> int \<Rightarrow> database \<Rightarrow> database result" where
  "extra_witness n v db =
     create_witness (\<lambda>i. (new_witness (db_cfg db) i)\<lparr>wit_owner := n, signing_key := 7, votes := v\<rparr>) db"

definition four_witnesses :: "database result" where
  "four_witnesses =
     ebind live_genesis (\<lambda>db.
     ebind (extra_witness 11 5 db) (\<lambda>db1.
     ebind (extra_witness 12 9 db1) (\<lambda>db2.
     ebind (extra_witness 13 7 db2) (\<lambda>db3.
       Inr (db3\<lparr>db_schedule := (db_schedule db3)\<lparr>max_voted_witnesses := 2\<rparr>\<rparr>)))))"

lemma slot_time_roundtrip_witness:
  "succeeds live_genesis (\<lambda>db. get_slot_at_time (get_slot_time 3 db) db = 3)"
proof -
  have "succeeds live_genesis (\<lambda>db. 0 \<le> head_block_time db \<and> 0 < cfg_block_interval (db_cfg db) \<and>
      head_block_time db + 3 * cfg_block_interval (db_cfg db) < 4294967296)"
    by code_simp
  then show ?thesis by (rule succeeds_mono) (use slot_time_roundtrip [of 3] in simp)
qed

lemma schedule_selects_witnesses_witness:
  "succeeds four_witnesses (\<lambda>db. succeeds (update_witness_schedule4 db) (\<lambda>db'.
     distinct (scheduled_names db') \<and> length (scheduled_names db') = 4))"
proof -
  have "succeeds four_witnesses (\<lambda>db. witnesses_ok db \<and> keyed db \<noteq> [] \<and> length (keyed db) = 4 \<and>
      4 \<le> cfg_max_witnesses (db_cfg db) \<and> succeeds (update_witness_schedule4 db) (\<lambda>_. True))"
    by code_simp
  then show ?thesis
    by (rule succeeds_mono) (auto simp: succeeds_iff, (drule schedule_selects_witnesses, assumption+, simp, simp)+)
qed

lemma every_witness_gets_a_slot_witness:
  "succeeds (ebind four_witnesses update_witness_schedule4) (\<lambda>db.
     mset (map (\<lambda>k. get_scheduled_witness (5 + int k) db) [0..<4]) = mset (scheduled_names db))"
proof -
  have "succeeds (ebind four_witnesses update_witness_schedule4) (\<lambda>db. schedule_ok (db_schedule db) \<and>
      0 \<le> current_aslot (db_dgp db) \<and> num_scheduled_witnesses (db_schedule db) = 4 \<and>
      current_aslot (db_dgp db) + 5 + num_scheduled_witnesses (db_schedule db) \<le> 2 ^ 64)"
    by code_simp
  then show ?thesis
  proof (rule succeeds_mono)
    fix db :: database
    assume db: "schedule_ok (db_schedule db) \<and> 0 \<le> current_aslot (db_dgp db) \<and>
      num_scheduled_witnesses (db_schedule db) = 4 \<and>
      current_aslot (db_dgp db) + 5 + num_scheduled_witnesses (db_schedule db) \<le> 2 ^ 64"
    then have n: "nat (num_scheduled_witnesses (db_schedule db)) = 4" by simp
    show "mset (map (\<lambda>k. get_scheduled_witness (5 + int k) db) [0..<4]) = mset (scheduled_names db)"
      by (rule every_witness_gets_a_slot [of db 5, unfolded n]) (use db in simp_all)
  qed
qed

end
