(* ===== verification/Block_Maintenance.thy ===== *)
theory Block_Maintenance
  imports Witness_Schedule
begin

text \<open>
  What \<^verbatim>\<open>database::_apply_block\<close> does once the transactions of a block are applied: interests, price
  feeds, witness rewards, withdrawals of vesting shares, account recovery, escrow deadlines and
  hardforks (\<^verbatim>\<open>libraries/chain/database.cpp\<close>). Virtual operations only notify observers and are left
  out. A loop over an index that removes what it has handled is a fold over the sorted rows.
\<close>

section \<open>Withdrawals of vesting shares\<close>

definition by_next_vesting_withdrawal :: "database \<Rightarrow> account_object list" where
  "by_next_vesting_withdrawal db = sort_key next_vesting_withdrawal (sort_key acc_name (rows (db_accounts db)))"

definition due_withdrawal :: "account_object \<Rightarrow> share_type result" where
  "due_withdrawal a =
     ebind (safe_sub (to_withdraw a) (withdrawn a)) (\<lambda>left.
       if left < amount (vesting_withdraw_rate a)
       then ebind (safe_mod (to_withdraw a) (amount (vesting_withdraw_rate a)))
              (\<lambda>r. Inr (min (amount (vesting_shares a)) r))
       else Inr (min (amount (vesting_shares a)) (amount (vesting_withdraw_rate a))))"

definition schedule_next :: "account_object \<Rightarrow> account_object" where
  "schedule_next a =
     (if withdrawn a \<ge> to_withdraw a \<or> amount (vesting_shares a) = 0
      then a\<lparr>vesting_withdraw_rate := (vesting_withdraw_rate a)\<lparr>amount := 0\<rparr>, next_vesting_withdrawal := time_point_max\<rparr>
      else a\<lparr>next_vesting_withdrawal := u32 (next_vesting_withdrawal a + SOPHIATX_VESTING_WITHDRAW_INTERVAL_SECONDS)\<rparr>)"

definition withdraw_once :: "share_type \<Rightarrow> account_object \<Rightarrow> account_object result" where
  "withdraw_once d a =
     ebind (safe_sub (amount (vesting_shares a)) d) (\<lambda>v.
     ebind (safe_add (amount (balance a)) d) (\<lambda>b.
     ebind (safe_add (withdrawn a) d) (\<lambda>w.
       Inr (schedule_next (a\<lparr>vesting_shares := (vesting_shares a)\<lparr>amount := v\<rparr>,
         balance := (balance a)\<lparr>amount := b\<rparr>, withdrawn := w\<rparr>)))))"

definition fill_withdrawal :: "account_object \<Rightarrow> database \<Rightarrow> database result" where
  "fill_withdrawal a db =
     ebind (due_withdrawal a) (\<lambda>d.
     ebind (withdraw_once d a) (\<lambda>a1.
     ebind (safe_sub (amount (total_vesting_shares (db_dgp db))) d) (\<lambda>t.
       Inr (modify_dgp (\<lambda>p. p\<lparr>total_vesting_shares := (total_vesting_shares p)\<lparr>amount := t\<rparr>\<rparr>)
         (modify_account (acc_name a) (\<lambda>_. a1) db)))))"

text \<open>The iterator is advanced before the account it pointed to moves to its new place in the index: an
  account that is still due afterwards is met again if it moved behind the iterator's new position.\<close>

fun after :: "account_name_type \<Rightarrow> account_name_type list \<Rightarrow> account_name_type option" where
  "after n [] = None"
| "after n (m # ms) = (if m = n then (case ms of [] \<Rightarrow> None | k # _ \<Rightarrow> Some k) else after n ms)"

fun withdrawal_loop :: "nat \<Rightarrow> account_name_type option \<Rightarrow> database \<Rightarrow> database result" where
  "withdrawal_loop 0 current db = Inl Out_of_fuel"
| "withdrawal_loop (Suc fuel) None db = Inr db"
| "withdrawal_loop (Suc fuel) (Some n) db =
     ebind (get_account n db) (\<lambda>a.
       if next_vesting_withdrawal a \<le> head_block_time db then
         let current = after n (map acc_name (by_next_vesting_withdrawal db))
         in ebind (fill_withdrawal a db) (withdrawal_loop fuel current)
       else Inr db)"

declare withdrawal_loop.simps [simp del]

text \<open>The number of withdrawals that can be due: each one moves its account by a whole interval.\<close>

definition pending_withdrawals :: "time_point_sec \<Rightarrow> account_object \<Rightarrow> nat" where
  "pending_withdrawals now a =
     (if next_vesting_withdrawal a \<le> now
      then Suc (nat ((now - next_vesting_withdrawal a) div SOPHIATX_VESTING_WITHDRAW_INTERVAL_SECONDS)) else 0)"

definition withdrawals_left :: "database \<Rightarrow> nat" where
  "withdrawals_left db = sum_list (map (pending_withdrawals (head_block_time db)) (rows (db_accounts db)))"

definition process_vesting_withdrawals :: "database \<Rightarrow> database result" where
  "process_vesting_withdrawals db =
     withdrawal_loop (Suc (withdrawals_left db))
       (case by_next_vesting_withdrawal db of [] \<Rightarrow> None | a # _ \<Rightarrow> Some (acc_name a)) db"

section \<open>Rewards and interests\<close>

definition reward_weight :: "witness_object \<Rightarrow> witness_schedule_object \<Rightarrow> int" where
  "reward_weight w wso =
     (case schedule w of Timeshare \<Rightarrow> timeshare_weight wso | Top19 \<Rightarrow> top19_weight wso | Schedule_none \<Rightarrow> 0)"

definition process_funds :: "int \<Rightarrow> database \<Rightarrow> database result" where
  "process_funds block_no db =
     (let wso = db_schedule db in
      ebind (get_witness (current_witness (db_dgp db)) db) (\<lambda>cwit.
      ebind (withdraw_mining_reward (db_cfg db)
               (block_no, reward_weight cwit wso, witness_pay_normalization_factor wso) (db_econ db)) (\<lambda>(witness_reward, e).
      ebind (create_vesting (wit_owner cwit) (Asset witness_reward VESTS_SYMBOL) (db\<lparr>db_econ := e\<rparr>)) (\<lambda>db1.
      ebind (asset_add (current_supply (db_dgp db1)) (Asset witness_reward (cfg_symbol (db_cfg db1)))) (\<lambda>cs.
      ebind (asset_add (total_vesting_shares (db_dgp db1)) (Asset witness_reward VESTS_SYMBOL)) (\<lambda>tv.
        Inr (modify_dgp (\<lambda>p. p\<lparr>current_supply := cs, total_vesting_shares := tv\<rparr>) db1)))))))"

text \<open>\<^verbatim>\<open>process_interests\<close> serves the accounts \<open>batch\<close>, \<open>batch + 2400\<close>, ... up to the first id without an
  account; the list below is long enough, because the ids are distinct.\<close>

definition find_account_id :: "int \<Rightarrow> database \<Rightarrow> account_object option" where
  "find_account_id i db = find_by (\<lambda>a. int (acc_id a)) i (rows (db_accounts db))"

definition interest_ids :: "database \<Rightarrow> int list" where
  "interest_ids db =
     takeWhile (\<lambda>i. find_account_id i db \<noteq> None)
       (map (\<lambda>k. head_block_num db mod SOPHIATX_INTEREST_BLOCKS + SOPHIATX_INTEREST_BLOCKS * int k)
          [0..<Suc (length (rows (db_accounts db)))])"

definition add_interest :: "share_type \<Rightarrow> account_object \<Rightarrow> account_object result" where
  "add_interest interest a =
     ebind (safe_add (amount (balance a)) interest) (\<lambda>b.
     let a1 = a\<lparr>balance := (balance a)\<lparr>amount := b\<rparr>\<rparr> in
     ebind (total_balance a1) (\<lambda>t.
     ebind (safe_mul t SOPHIATX_INTEREST_BLOCKS) (\<lambda>h.
       Inr (a1\<lparr>holdings_considered_for_interests := h\<rparr>))))"

definition interest_step :: "int \<Rightarrow> share_type \<times> database \<Rightarrow> (share_type \<times> database) result" where
  "interest_step i = (\<lambda>(supply_increase, db).
     ebind (get_by (\<lambda>a. int (acc_id a)) i (rows (db_accounts db))) (\<lambda>a.
     ebind (if head_block_num db > cfg_interest_delay (db_cfg db)
            then withdraw_interests (db_cfg db)
              (holdings_considered_for_interests a, min SOPHIATX_INTEREST_BLOCKS (head_block_num db)) (db_econ db)
            else Inr (0, db_econ db)) (\<lambda>(interest, e).
     ebind (if interest > 0 then safe_add supply_increase interest else Inr supply_increase) (\<lambda>increase.
     ebind (if interest > 0 \<and> has_hardfork 1 db
            then adjust_proxied_witness_votes (acc_name a) interest (db\<lparr>db_econ := e\<rparr>)
            else Inr (db\<lparr>db_econ := e\<rparr>)) (\<lambda>db1.
     ebind (get_account (acc_name a) db1) (\<lambda>a1.
     ebind (add_interest interest a1) (\<lambda>a2.
       Inr (increase, modify_account (acc_name a) (\<lambda>_. a2) db1))))))))"

definition process_interests :: "database \<Rightarrow> database result" where
  "process_interests db =
     ebind (efold interest_step (interest_ids db) (0, db)) (\<lambda>(supply_increase, db1).
       adjust_supply (Asset supply_increase (cfg_symbol (db_cfg db1))) db1)"

section \<open>Price feeds\<close>

text \<open>\<^verbatim>\<open>std::sort\<close> with the comparison of prices, which may throw; the order of prices that compare
  equal is the one in which they came.\<close>

fun insert_price :: "price \<Rightarrow> price list \<Rightarrow> price list result" where
  "insert_price p [] = Inr [p]"
| "insert_price p (q # qs) =
     ebind (price_lt p q) (\<lambda>lt. if lt then Inr (p # q # qs) else ebind (insert_price p qs) (\<lambda>r. Inr (q # r)))"

definition sort_prices :: "price list \<Rightarrow> price list result" where
  "sort_prices ps = efold insert_price ps []"

definition add_feed :: "time_point_sec \<Rightarrow> asset_symbol_type \<times> submitted_exchange_rate
    \<Rightarrow> (asset_symbol_type \<times> price list) list \<Rightarrow> (asset_symbol_type \<times> price list) list result" where
  "add_feed now r feeds =
     (if u32 (last_change (snd r) + SOPHIATX_MAX_FEED_AGE_SECONDS) > now then
        ebind (price_is_null (rate (snd r))) (\<lambda>null.
          if null then Inr feeds
          else Inr (flat_insert (fst r) ((case map_of feeds (fst r) of None \<Rightarrow> [] | Some ps \<Rightarrow> ps) @ [rate (snd r)]) feeds))
      else Inr feeds)"

definition push_median :: "price \<Rightarrow> feed_history_object \<Rightarrow> feed_history_object" where
  "push_median p fho =
     (let h = price_history fho @ [p] in
      fho\<lparr>price_history := (if length h > SOPHIATX_FEED_HISTORY_WINDOW then tl h else h), current_median_history := p\<rparr>)"

definition update_feed :: "asset_symbol_type \<times> price list \<Rightarrow> database \<Rightarrow> database result" where
  "update_feed feed db =
     (if int (length (snd feed)) \<ge> cfg_min_feeds (db_cfg db) then
        ebind (sort_prices (snd feed)) (\<lambda>f.
        ebind (get_feed_history (fst feed) db) (\<lambda>_.
          Inr (db\<lparr>db_feeds := (db_feeds db)\<lparr>rows :=
            modify_by fh_symbol (fst feed) (push_median (f ! (length f div 2))) (rows (db_feeds db))\<rparr>\<rparr>)))
      else Inr db)"

definition update_median_feeds :: "database \<Rightarrow> database result" where
  "update_median_feeds db =
     (if head_block_num db mod cfg_blocks_per_hour (db_cfg db) \<noteq> 0 then Inr db
      else
        ebind (scheduled_witnesses db) (\<lambda>ws.
        ebind (efold (add_feed (head_block_time db)) (concat (map submitted_exchange_rates ws)) []) (\<lambda>all_feeds.
          efold update_feed all_feeds db)))"

section \<open>Account recovery and escrow deadlines\<close>

definition clear_recovery_requests :: "database \<Rightarrow> database" where
  "clear_recovery_requests db =
     db\<lparr>db_recovery_requests := (db_recovery_requests db)\<lparr>rows :=
          filter (\<lambda>r. \<not> rr_expires r \<le> head_block_time db) (rows (db_recovery_requests db))\<rparr>\<rparr>"

text \<open>The history is walked by id, so an old entry behind a young one stays.\<close>

definition clear_owner_history :: "database \<Rightarrow> database" where
  "clear_owner_history db =
     db\<lparr>db_owner_history := (db_owner_history db)\<lparr>rows :=
          dropWhile (\<lambda>h. u32 (last_valid_time h + SOPHIATX_OWNER_AUTH_RECOVERY_PERIOD) < head_block_time db)
            (rows (db_owner_history db))\<rparr>\<rparr>"

definition effective_changes :: "database \<Rightarrow> change_recovery_account_request_object list" where
  "effective_changes db =
     sort_key cr_effective_on (sort_key cr_account_to_recover
       (filter (\<lambda>r. cr_effective_on r \<le> head_block_time db) (rows (db_change_recovery db))))"

definition apply_recovery_change :: "change_recovery_account_request_object \<Rightarrow> database \<Rightarrow> database result" where
  "apply_recovery_change r db =
     ebind (get_account (cr_account_to_recover r) db) (\<lambda>_.
       Inr ((modify_account (cr_account_to_recover r) (\<lambda>a. a\<lparr>recovery_account := cr_recovery_account r\<rparr>) db)
         \<lparr>db_change_recovery := (db_change_recovery db)\<lparr>rows :=
            remove_by cr_account_to_recover (cr_account_to_recover r) (rows (db_change_recovery db))\<rparr>\<rparr>))"

definition account_recovery_processing :: "database \<Rightarrow> database result" where
  "account_recovery_processing db =
     (let db1 = clear_owner_history (clear_recovery_requests db)
      in efold apply_recovery_change (effective_changes db1) db1)"

definition expired_escrows :: "database \<Rightarrow> escrow_object list" where
  "expired_escrows db =
     sort_key ratification_deadline
       (filter (\<lambda>e. \<not> is_approved e \<and> ratification_deadline e \<le> head_block_time db) (rows (db_escrows db)))"

definition expire_escrow_ratification :: "database \<Rightarrow> database result" where
  "expire_escrow_ratification db = efold (\<lambda>e. escrow_refund (esc_from e) e) (expired_escrows db) db"

section \<open>Hardforks\<close>

definition SOPHIATX_NUM_HARDFORKS :: nat where "SOPHIATX_NUM_HARDFORKS = 2"

definition hardfork_versions :: "hardfork_version list" where
  "hardfork_versions = [hardfork_version 1 0, hardfork_version 1 1, hardfork_version 1 2]"

definition hardfork_times :: "sophiatx_config \<Rightarrow> time_point_sec list" where
  "hardfork_times c = [cfg_genesis_time c, 1543838400, 1551182400]"

definition recalculate_all_votes :: "database \<Rightarrow> database result" where
  "recalculate_all_votes db =
     (let db1 = db\<lparr>db_witnesses := (db_witnesses db)\<lparr>rows := map (\<lambda>w. w\<lparr>votes := 0\<rparr>) (rows (db_witnesses db))\<rparr>\<rparr> in
      efold (\<lambda>n d. ebind (get_account n d) (\<lambda>a. ebind (total_balance a) (\<lambda>t. adjust_proxied_witness_votes n t d)))
        (sort (map acc_name (rows (db_accounts db)))) db1)"

definition advance_hardfork :: "sophiatx_config \<Rightarrow> nat \<Rightarrow> hardfork_property_object \<Rightarrow> hardfork_property_object result" where
  "advance_hardfork c hf hfp =
     FC_ASSERT (hf = last_hardfork hfp + 1) ''Hardfork being applied out of order''
     (FC_ASSERT (length (processed_hardforks hfp) = hf) ''Hardfork being applied out of order''
     (Inr (hfp\<lparr>processed_hardforks := processed_hardforks hfp @ [hardfork_times c ! hf], last_hardfork := hf,
        current_hardfork_version := hardfork_versions ! hf\<rparr>)))"

definition apply_hardfork :: "nat \<Rightarrow> database \<Rightarrow> database result" where
  "apply_hardfork hf db =
     ebind (if hf = 1 then recalculate_all_votes db else Inr db) (\<lambda>db1.
     ebind (advance_hardfork (db_cfg db1) hf (db_hardfork db1)) (\<lambda>hfp. Inr (db1\<lparr>db_hardfork := hfp\<rparr>)))"

definition set_hardfork :: "nat \<Rightarrow> database \<Rightarrow> database result" where
  "set_hardfork hardfork db =
     efold (\<lambda>i d. apply_hardfork i (d\<lparr>db_hardfork := (db_hardfork d)
         \<lparr>next_hardfork := hardfork_versions ! i, next_hardfork_time := head_block_time d\<rparr>\<rparr>))
       [Suc (last_hardfork (db_hardfork db))..<Suc (min hardfork SOPHIATX_NUM_HARDFORKS)] db"

text \<open>Applying a hardfork moves to the next one, so the loop of \<^verbatim>\<open>process_hardforks\<close> ends.\<close>

lemma vote_walk_hardfork:
  "adjust_witness_votes n d db = Inr db' \<Longrightarrow> db_hardfork db' = db_hardfork db"
  unfolding adjust_witness_votes_def
  by (erule efold_invariant [where P = "\<lambda>t. db_hardfork t = db_hardfork db"])
    (auto simp: adjust_witness_vote_def result_simps Let_def modify_witness_def)

lemma proxied_votes_hardfork: "adjust_proxied_votes r n d db = Inr db' \<Longrightarrow> db_hardfork db' = db_hardfork db"
proof (induction r arbitrary: n db)
  case 0
  then show ?case
    by (subst (asm) adjust_proxied_votes.simps) (auto simp: result_simps vote_walk_hardfork split: if_splits)
next
  case (Suc r)
  show ?case
    using Suc.prems
    by (subst (asm) adjust_proxied_votes.simps)
      (auto simp: result_simps Let_def vote_walk_hardfork split: if_splits dest!: Suc.IH)
qed

lemma recalculate_hardfork: "recalculate_all_votes db = Inr db' \<Longrightarrow> db_hardfork db' = db_hardfork db"
  unfolding recalculate_all_votes_def Let_def
  by (erule efold_invariant [where P = "\<lambda>t. db_hardfork t = db_hardfork db"])
    (auto simp: result_simps adjust_proxied_witness_votes_def dest: proxied_votes_hardfork)

lemma apply_hardfork_last:
  "apply_hardfork hf db = Inr db' \<Longrightarrow> last_hardfork (db_hardfork db') = hf \<and> hf = Suc (last_hardfork (db_hardfork db))"
  by (auto simp: apply_hardfork_def advance_hardfork_def result_simps split: if_splits dest: recalculate_hardfork)

function process_hardforks :: "database \<Rightarrow> database result" where
  "process_hardforks db =
     (let hf = db_hardfork db in
      if hardfork_versions ! last_hardfork hf < next_hardfork hf \<and> next_hardfork_time hf \<le> head_block_time db then
        if last_hardfork hf < SOPHIATX_NUM_HARDFORKS
        then ebind (apply_hardfork (Suc (last_hardfork hf)) db) process_hardforks
        else Inl Unknown_hardfork_exception
      else Inr db)"
  by pat_completeness auto
termination
  by (relation "measure (\<lambda>db. SOPHIATX_NUM_HARDFORKS - last_hardfork (db_hardfork db))")
    (auto dest!: apply_hardfork_last)

declare process_hardforks.simps [simp del]

section \<open>The end of a block\<close>

text \<open>The part of \<^verbatim>\<open>_apply_block\<close> from \<^verbatim>\<open>process_interests\<close> to \<^verbatim>\<open>process_hardforks\<close>.\<close>

definition finish_block :: "int \<Rightarrow> database \<Rightarrow> database result" where
  "finish_block block_no db =
     ebind (if is_private_net db then Inr db
            else ebind (process_interests db) (\<lambda>db1.
                 ebind (update_median_feeds db1) (\<lambda>db2.
                 ebind (clear_null_account_balance db2) (\<lambda>db3.
                 ebind (process_funds block_no db3) process_vesting_withdrawals)))) (\<lambda>db4.
     ebind (account_recovery_processing db4) (\<lambda>db5.
     ebind (expire_escrow_ratification db5) process_hardforks))"

section \<open>Withdrawals end\<close>

lemma safe_no_fuel:
  "safe_add a b \<noteq> Inl Out_of_fuel" "safe_sub a b \<noteq> Inl Out_of_fuel" "safe_mod a b \<noteq> Inl Out_of_fuel"
  by (simp_all add: safe_add_def safe_sub_def safe_mod_def)

lemma fill_withdrawal_no_fuel: "fill_withdrawal a db \<noteq> Inl Out_of_fuel"
  by (auto simp: fill_withdrawal_def due_withdrawal_def withdraw_once_def ebind_eq_Inl Let_def safe_no_fuel)

lemma schedule_next_fields [simp]:
  "acc_name (schedule_next a) = acc_name a" "vesting_shares (schedule_next a) = vesting_shares a"
  "balance (schedule_next a) = balance a" "withdrawn (schedule_next a) = withdrawn a"
  "acc_id (schedule_next a) = acc_id a"
  by (simp_all add: schedule_next_def)

lemma schedule_next_time:
  assumes "0 \<le> next_vesting_withdrawal a" "next_vesting_withdrawal a \<le> now"
    "now + SOPHIATX_VESTING_WITHDRAW_INTERVAL_SECONDS < 4294967295"
  shows "0 \<le> next_vesting_withdrawal (schedule_next a)"
    "now < next_vesting_withdrawal (schedule_next a) \<or>
     next_vesting_withdrawal (schedule_next a) = next_vesting_withdrawal a + SOPHIATX_VESTING_WITHDRAW_INTERVAL_SECONDS"
  using assms by (auto simp: schedule_next_def time_point_max_def u32_def SOPHIATX_VESTING_WITHDRAW_INTERVAL_SECONDS_def)

lemma withdraw_once_next:
  assumes "withdraw_once d a = Inr a1" "0 \<le> next_vesting_withdrawal a" "next_vesting_withdrawal a \<le> now"
    "now + SOPHIATX_VESTING_WITHDRAW_INTERVAL_SECONDS < 4294967295"
  shows "acc_name a1 = acc_name a \<and> 0 \<le> next_vesting_withdrawal a1 \<and>
    (now < next_vesting_withdrawal a1 \<or>
     next_vesting_withdrawal a1 = next_vesting_withdrawal a + SOPHIATX_VESTING_WITHDRAW_INTERVAL_SECONDS)"
proof -
  from assms(1) obtain v b w where a1: "a1 = schedule_next (a\<lparr>vesting_shares := (vesting_shares a)\<lparr>amount := v\<rparr>,
      balance := (balance a)\<lparr>amount := b\<rparr>, withdrawn := w\<rparr>)"
    by (auto simp: withdraw_once_def ebind_eq_Inr)
  show ?thesis
    unfolding a1 using schedule_next_time [of "a\<lparr>vesting_shares := (vesting_shares a)\<lparr>amount := v\<rparr>,
      balance := (balance a)\<lparr>amount := b\<rparr>, withdrawn := w\<rparr>" now] assms(2-4) by simp
qed

lemma pending_decreases:
  assumes "next_vesting_withdrawal a \<le> now"
    "now < next_vesting_withdrawal a1 \<or>
     next_vesting_withdrawal a1 = next_vesting_withdrawal a + SOPHIATX_VESTING_WITHDRAW_INTERVAL_SECONDS"
  shows "pending_withdrawals now a1 < pending_withdrawals now a"
proof -
  let ?i = SOPHIATX_VESTING_WITHDRAW_INTERVAL_SECONDS
  have i: "?i > 0" by (simp add: SOPHIATX_VESTING_WITHDRAW_INTERVAL_SECONDS_def)
  have "(now - (next_vesting_withdrawal a + ?i)) div ?i = (now - next_vesting_withdrawal a) div ?i - 1"
    using i div_add_self2 [of ?i "now - next_vesting_withdrawal a - ?i"] by (simp add: diff_diff_eq)
  moreover have "0 \<le> (now - (next_vesting_withdrawal a + ?i)) div ?i" if "next_vesting_withdrawal a + ?i \<le> now"
    using that i by (simp add: pos_imp_zdiv_nonneg_iff)
  ultimately show ?thesis using assms by (auto simp: pending_withdrawals_def)
qed

definition withdrawal_times_ok :: "database \<Rightarrow> bool" where
  "withdrawal_times_ok db \<longleftrightarrow>
     distinct (map acc_name (rows (db_accounts db))) \<and>
     list_all (\<lambda>a. 0 \<le> next_vesting_withdrawal a) (rows (db_accounts db)) \<and>
     head_block_time db + SOPHIATX_VESTING_WITHDRAW_INTERVAL_SECONDS < 4294967295"

lemma sum_replace_less:
  assumes "distinct (map key xs)" "find_by key k xs = Some x" "key y = k" "f y < (f x :: nat)"
  shows "sum_list (map f (modify_by key k (\<lambda>_. y) xs)) < sum_list (map f xs)"
  using assms(1,2)
proof (induction xs)
  case (Cons z zs)
  show ?case
  proof (cases "key z = k")
    case True
    have "modify_by key k (\<lambda>_. y) (z # zs) = y # modify_by key k (\<lambda>_. y) zs" "z = x"
      using True Cons.prems by (simp_all add: modify_by_def find_by_def)
    moreover have "modify_by key k (\<lambda>_. y) zs = zs" using True Cons.prems by (intro modify_by_absent) simp
    ultimately show ?thesis using assms(4) by simp
  next
    case False
    with Cons show ?thesis by (simp add: find_by_def modify_by_def)
  qed
qed (simp add: find_by_def)

lemma fill_withdrawal_progress:
  assumes run: "fill_withdrawal a db = Inr db'" and a: "find_account n db = Some a"
    and due: "next_vesting_withdrawal a \<le> head_block_time db" and ok: "withdrawal_times_ok db"
  shows "withdrawal_times_ok db' \<and> withdrawals_left db' < withdrawals_left db"
proof -
  from run obtain d a1 t where w: "withdraw_once d a = Inr a1" and db': "db' =
      modify_dgp (\<lambda>p. p\<lparr>total_vesting_shares := (total_vesting_shares p)\<lparr>amount := t\<rparr>\<rparr>) (modify_account (acc_name a) (\<lambda>_. a1) db)"
    by (auto simp: fill_withdrawal_def result_simps)
  have an: "a \<in> set (rows (db_accounts db))" "acc_name a = n" using find_account_Some [OF a] by simp_all
  then have "0 \<le> next_vesting_withdrawal a" using ok by (auto simp: withdrawal_times_ok_def list_all_iff)
  note nx = withdraw_once_next [OF w this due] ok [unfolded withdrawal_times_ok_def]
  have t: "head_block_time db' = head_block_time db" by (simp add: db' head_block_time_def)
  have r: "rows (db_accounts db') = modify_by acc_name n (\<lambda>_. a1) (rows (db_accounts db))"
    by (simp add: db' modify_account_def an)
  have "map acc_name (modify_by acc_name n (\<lambda>_. a1) (rows (db_accounts db))) = map acc_name (rows (db_accounts db))"
    using nx an by (auto simp: modify_by_def)
  then have "withdrawal_times_ok db'"
    using nx by (auto simp: withdrawal_times_ok_def r t list_all_iff dest: set_modify_by)
  moreover have "pending_withdrawals (head_block_time db) a1 < pending_withdrawals (head_block_time db) a"
    using nx by (intro pending_decreases [OF due]) simp
  then have "withdrawals_left db' < withdrawals_left db"
    unfolding withdrawals_left_def r t
    using sum_replace_less [of acc_name "rows (db_accounts db)" n a a1] nx an a by (simp add: find_account_def)
  ultimately show ?thesis by simp
qed

lemma withdrawal_loop_fuel:
  "withdrawals_left db < fuel \<Longrightarrow> withdrawal_times_ok db \<Longrightarrow> withdrawal_loop fuel current db \<noteq> Inl Out_of_fuel"
proof (induction fuel arbitrary: current db)
  case (Suc fuel)
  show ?case
  proof (cases current)
    case (Some n)
    have "withdrawal_loop fuel c db' \<noteq> Inl Out_of_fuel"
      if "find_account n db = Some a" "next_vesting_withdrawal a \<le> head_block_time db" "fill_withdrawal a db = Inr db'" for a db' c
      using fill_withdrawal_progress [OF that(3,1,2) Suc.prems(2)] Suc.prems(1) by (intro Suc.IH) auto
    moreover have "get_account n db \<noteq> Inl Out_of_fuel" by (simp add: get_account_def get_by_def split: option.splits)
    ultimately show ?thesis
      using Some fill_withdrawal_no_fuel
      by (auto simp: withdrawal_loop.simps ebind_eq_Inl Let_def get_account_Inr split: if_splits)
  qed (simp add: withdrawal_loop.simps)
qed simp

text \<open>C32. The loop over the due withdrawals ends although it moves the accounts within the index it walks: the
  bound on the number of iterations is never reached, so the routine returns or throws a real
  exception.\<close>

theorem vesting_withdrawals_terminate:
  assumes "withdrawal_times_ok db"
  shows "process_vesting_withdrawals db \<noteq> Inl Out_of_fuel"
  unfolding process_vesting_withdrawals_def using assms by (intro withdrawal_loop_fuel) auto

end
