(* ===== verification/Transactions.thy ===== *)
theory Transactions
  imports Apply_Operation Genesis
begin

text \<open>
  What an accepted transaction guarantees: the coins it moves, the fee it pays and who pays it, the
  signatures behind it, the limits on fee-free operations, and that the supply equations survive it.
\<close>

section \<open>Balances by name\<close>

definition balance_of :: "account_name_type \<Rightarrow> database \<Rightarrow> share_type option" where
  "balance_of n db = map_option (\<lambda>a. amount (balance a)) (find_account n db)"

lemma balance_of_money:
  "balance_of n db = map_option (amount \<circ> fst \<circ> snd) (find (\<lambda>m. fst m = n) (map acct_money (rows (db_accounts db))))"
proof -
  have "map_option (\<lambda>a. amount (balance a)) (find (\<lambda>a. acc_name a = n) xs) =
      map_option (amount \<circ> fst \<circ> snd) (find (\<lambda>m. fst m = n) (map acct_money xs))" for xs
    by (induction xs) (simp_all add: acct_money_def)
  then show ?thesis by (simp add: balance_of_def find_account_def find_by_def)
qed

lemma balance_of_frame: "ledger db' = ledger db \<Longrightarrow> balance_of n db' = balance_of n db"
  by (simp add: balance_of_money ledger_def)

lemma balance_of_modify:
  assumes "find_account n db = Some a" "\<And>x. acc_name (f x) = acc_name x"
  shows "balance_of m (modify_account n f db) =
    (if m = n then Some (amount (balance (f a))) else balance_of m db)"
proof -
  have "find (\<lambda>x. acc_name x = m) (modify_by acc_name n f xs) =
      (if m = n then map_option f (find (\<lambda>x. acc_name x = m) xs) else find (\<lambda>x. acc_name x = m) xs)" for xs
    by (induction xs) (auto simp: modify_by_def assms(2))
  then show ?thesis using assms(1)
    by (simp add: balance_of_def find_account_def find_by_def modify_account_def)
qed

lemma adjust_balance_of:
  assumes "adjust_balance n d db = Inr db'"
  obtains b where "balance_of n db = Some b" "0 \<le> b + amount d" "symbol d = cfg_symbol (db_cfg db)"
    "\<And>m. balance_of m db' = (if m = n then Some (b + amount d) else balance_of m db)"
proof -
  from assms obtain a b and a1 :: account_object where a: "find_account n db = Some a" and sym: "symbol d = cfg_symbol (db_cfg db)"
    and b: "safe_add (amount (balance a)) (amount d) = Inr b" and nn: "0 \<le> b"
    and adj: "adjust_proxied_witness_votes n (amount d) (modify_account n (\<lambda>x. x\<lparr>balance := (balance x)\<lparr>amount := b\<rparr>,
            holdings_considered_for_interests := holdings_considered_for_interests a1\<rparr>) db) = Inr db'"
    by (auto simp: adjust_balance_def modify_balance_def ebind_eq_Inr FC_ASSERT_eq_Inr get_account_Inr)
  have sum: "b = amount (balance a) + amount d" using b by (auto simp: result_simps)
  show thesis
  proof (rule that [of "amount (balance a)"])
    show "balance_of n db = Some (amount (balance a))" using a by (simp add: balance_of_def)
    show "balance_of m db' = (if m = n then Some (amount (balance a) + amount d) else balance_of m db)" for m
      using balance_of_frame [OF ledger_adjust_proxied_witness_votes [OF adj], of m]
      by (simp add: balance_of_modify [OF a] sum)
  qed (use nn sum sym in simp_all)
qed

text \<open>C14. An accepted transfer takes exactly the amount from the sender, who had it, gives exactly that
  to the recipient, and leaves every other balance as it was; it is paid in the coin of the chain.\<close>

theorem transfer_moves_exactly:
  assumes "transfer_apply o' db = Inr db'"
  shows "\<exists>b. balance_of (tr_from o') db = Some b \<and> amount (tr_amount o') \<le> b \<and>
    symbol (tr_amount o') = cfg_symbol (db_cfg db) \<and>
    (\<forall>n. balance_of n db' = (if tr_from o' = tr_to o' then balance_of n db
       else if n = tr_from o' then Some (b - amount (tr_amount o'))
       else if n = tr_to o' then map_option (\<lambda>x. x + amount (tr_amount o')) (balance_of n db)
       else balance_of n db))"
proof -
  from assms obtain d db1 where d: "asset_neg (tr_amount o') = Inr d"
    and 1: "adjust_balance (tr_from o') d db = Inr db1" and 2: "adjust_balance (tr_to o') (tr_amount o') db1 = Inr db'"
    by (auto simp: transfer_apply_def result_simps)
  from adjust_balance_of [OF 1] obtain b where b: "balance_of (tr_from o') db = Some b" "0 \<le> b + amount d"
    "symbol d = cfg_symbol (db_cfg db)"
    "\<And>m. balance_of m db1 = (if m = tr_from o' then Some (b + amount d) else balance_of m db)" by blast
  from adjust_balance_of [OF 2] obtain b2 where b2: "balance_of (tr_to o') db1 = Some b2"
    "\<And>m. balance_of m db' = (if m = tr_to o' then Some (b2 + amount (tr_amount o')) else balance_of m db1)" by blast
  show ?thesis
    by (rule exI [of _ b]) (use b b2 asset_neg_Inr [OF d] in auto)
qed

section \<open>Fees\<close>

lemma adjust_supply_balances: "adjust_supply d db = Inr db' \<Longrightarrow> balance_of n db' = balance_of n db"
  by (auto simp: adjust_supply_def result_simps balance_of_def find_account_def split: if_splits)

lemma balance_of_econ [simp]: "balance_of n (db\<lparr>db_econ := e\<rparr>) = balance_of n db"
  by (simp add: balance_of_def find_account_def)

lemma pay_fee_balances:
  assumes "pay_fee n f db = Inr db'" "0 < amount f"
  shows "\<exists>b. balance_of n db = Some b \<and> amount f \<le> b \<and>
    (\<forall>m. balance_of m db' = (if m = n then Some (b - amount f) else balance_of m db))"
proof -
  from assms obtain d db1 db2 e where d: "asset_neg f = Inr d" and 1: "adjust_balance n d db = Inr db1"
    and 2: "adjust_supply d db1 = Inr db2" and db': "db' = db2\<lparr>db_econ := e\<rparr>"
    by (auto simp: pay_fee_def ebind_eq_Inr FC_ASSERT_eq_Inr split: if_splits)
  from adjust_balance_of [OF 1] obtain b where "balance_of n db = Some b" "0 \<le> b + amount d"
    "\<And>m. balance_of m db1 = (if m = n then Some (b + amount d) else balance_of m db)" by blast
  then show ?thesis using asset_neg_Inr [OF d] adjust_supply_balances [OF 2] by (auto simp: db')
qed

lemma pay_fee_exact:
  assumes "pay_fee n f db = Inr db'" "find_account n db = Some a"
  shows "\<exists>b. balance_of n db = Some b \<and> (amount f = 0 \<or> amount f \<le> b) \<and>
    (\<forall>m. balance_of m db' = (if m = n then Some (b - amount f) else balance_of m db))"
proof (cases "amount f = 0")
  case True
  then show ?thesis using assms by (auto simp: pay_fee_def balance_of_def)
next
  case False
  then have "0 < amount f" using assms(1) by (auto simp: pay_fee_def FC_ASSERT_eq_Inr)
  from pay_fee_balances [OF assms(1) this] show ?thesis by auto
qed

text \<open>C15. Who pays the fee of an operation: nobody on a private network; for \<^verbatim>\<open>account_create\<close>, the one operation with a
  special fee, nothing here, since its evaluator charges the creator. For any other operation the offered fee covers the required
  fee in the same coin; it is paid in the coin of the chain, converted by the median price when it was offered in another one; it is
  taken from the sponsor of the payer when there is one and from the payer otherwise, who had it; no other balance changes.\<close>

theorem operation_fee_charged:
  assumes "process_operation_fee op db = Inr db'"
  shows "if has_special_fee op \<or> is_private_net db then db' = db
    else \<exists>b req paid payer. payer = (case get_sponsor (fee_payer op) db of Some s \<Rightarrow> s | None \<Rightarrow> fee_payer op) \<and>
      get_required_fee (db_cfg db) op (symbol (fee_of op)) = Inr req \<and> symbol req = symbol (fee_of op) \<and> amount req \<le> amount (fee_of op) \<and>
      (if symbol (fee_of op) = cfg_symbol (db_cfg db) then paid = fee_of op else to_sophiatx (fee_of op) db = Inr paid) \<and>
      symbol paid = cfg_symbol (db_cfg db) \<and> 0 \<le> amount paid \<and>
      balance_of payer db = Some b \<and> (amount paid = 0 \<or> amount paid \<le> b) \<and>
      (\<forall>n. balance_of n db' = (if n = payer then Some (b - amount paid) else balance_of n db))"
proof (cases "has_special_fee op \<or> is_private_net db")
  case False
  let ?payer = "get_fee_payer op db"
  from assms False obtain req paid a where req: "get_required_fee (db_cfg db) op (symbol (fee_of op)) = Inr req" "symbol (fee_of op) = symbol req"
      "asset_ge (fee_of op) req = Inr True" and a: "get_account ?payer db = Inr a"
    and conv: "(if symbol (fee_of op) = cfg_symbol (db_cfg db) then Inr (fee_of op) else to_sophiatx (fee_of op) db) = Inr paid"
    and sym: "symbol paid = cfg_symbol (db_cfg db)" "amount paid \<ge> 0" and paid: "pay_fee ?payer paid db = Inr db'"
    unfolding process_operation_fee_def Let_def
    by (simp only: if_False ebind_eq_Inr FC_ASSERT_eq_Inr) metis
  have "find_account ?payer db = Some a" using a by (simp add: get_account_Inr)
  from pay_fee_exact [OF paid this] req conv sym False show ?thesis
    by (auto simp: get_fee_payer_def asset_ge_Inr split: if_splits)
qed (use assms in \<open>auto simp: process_operation_fee_def\<close>)

section \<open>Signatures\<close>

lemma check_authority_walk:
  assumes "check_authority ga d au st = Inr (b, st')" "walk_ok K A ga st" "getter_ok ga" "weights_ok au"
  shows "walk_ok K A ga st'"
proof -
  obtain found t0 st0 where ck: "check_keys (weight_threshold au) (key_auths au) 0 st = (found, t0, st0)"
    by (metis prod_cases3)
  note cs = check_keys_sound [OF ck assms(2)]
  show ?thesis
  proof (cases found)
    case True
    then show ?thesis using cs assms ck by (auto simp: check_authority_def weights_ok_def)
  next
    case False
    then have "check_accounts ga d (weight_threshold au) (account_auths au) t0 st0 = Inr (b, st')"
      using assms(1) ck by (simp add: check_authority_def)
    from check_accounts_sound [OF this, of K A] cs assms(3,4) show ?thesis by (simp add: weights_ok_def)
  qed
qed

lemmas check_authority_rules = check_authority_walk check_authority_sound

lemma verify_other_sound:
  assumes "verify_other ga d au st = Inr st'" "walk_ok K A ga st" "getter_ok ga" "weights_ok au"
  shows "walk_ok K A ga st' \<and> authorised K A ga au"
  using assms by (auto simp: verify_other_def result_simps intro: check_authority_rules)

definition active_or_owner ::
  "(public_key_type \<Rightarrow> bool) \<Rightarrow> (account_name_type \<Rightarrow> bool) \<Rightarrow> authority_getter \<Rightarrow> authority_getter \<Rightarrow> account_name_type
    \<Rightarrow> bool" where
  "active_or_owner K A ga go n \<longleftrightarrow> agrees K A ga n \<or> (\<exists>ow. go n = Inr ow \<and> authorised K A ga ow)"

lemma check_authority_id_sound:
  assumes "check_authority_id ga d n st = Inr (b, st')" "walk_ok K A ga st" "getter_ok ga"
  shows "walk_ok K A ga st' \<and> (b \<longrightarrow> agrees K A ga n)"
proof (cases "n \<in> set (approved_by st)")
  case True
  then show ?thesis using assms by (auto simp: check_authority_id_def walk_ok_def)
next
  case False
  then obtain au where au: "ga n = Inr au" and ck: "check_authority ga d au st = Inr (b, st')"
    using assms(1) by (auto simp: check_authority_id_def ebind_eq_Inr)
  have w: "weights_ok au" using assms(3) au by (auto simp: getter_ok_def)
  from check_authority_walk [OF ck assms(2,3) w] check_authority_sound [of ga d au st st' K A] assms(2,3) w ck au show ?thesis
    by (auto simp: agrees_def)
qed

lemma verify_active_sound:
  assumes "verify_active ga go d n st = Inr st'" "walk_ok K A ga st" "getter_ok ga" "getter_ok go"
  shows "walk_ok K A ga st' \<and> active_or_owner K A ga go n"
proof -
  from assms(1) obtain b st1 where id: "check_authority_id ga d n st = Inr (b, st1)"
    and rest: "(if b then Inr st1 else ebind (go n) (\<lambda>ow. ebind (check_authority ga d ow st1) (\<lambda>r2.
         ethrow_unless (fst r2) Tx_missing_active_auth (Inr (snd r2))))) = Inr st'"
    by (cases "check_authority_id ga d n st") (auto simp: verify_active_def cong: if_cong)
  note w = check_authority_id_sound [OF id assms(2,3)]
  show ?thesis
  proof (cases b)
    case True
    then show ?thesis using w rest by (simp add: active_or_owner_def)
  next
    case False
    with rest obtain ow where ow: "go n = Inr ow" and ck: "check_authority ga d ow st1 = Inr (True, st')"
      by (auto simp: result_simps)
    have wo: "weights_ok ow" using assms(4) ow by (auto simp: getter_ok_def)
    show ?thesis using check_authority_walk [OF ck _ assms(3) wo] check_authority_sound [OF ck _ assms(3) wo] w ow
      by (auto simp: active_or_owner_def)
  qed
qed

lemma verify_owner_sound:
  assumes "verify_owner ga go d [] n st = Inr st'" "walk_ok K A ga st" "getter_ok ga" "getter_ok go"
  shows "walk_ok K A ga st' \<and> (\<exists>ow. go n = Inr ow \<and> authorised K A ga ow)"
proof -
  from assms(1) obtain ow where ow: "go n = Inr ow" and ck: "check_authority ga d ow st = Inr (True, st')"
    by (auto simp: verify_owner_def result_simps)
  have wo: "weights_ok ow" using assms(4) ow by (auto simp: getter_ok_def)
  from check_authority_walk [OF ck assms(2,3) wo] check_authority_sound [OF ck assms(2,3) wo] ow show ?thesis by blast
qed

text \<open>A loop whose body establishes a fact about its element and keeps an invariant establishes the fact
  for every element.\<close>

lemma efold_each:
  assumes "efold f xs s = Inr s'" "P s"
    and "\<And>x t t'. x \<in> set xs \<Longrightarrow> P t \<Longrightarrow> f x t = Inr t' \<Longrightarrow> P t' \<and> Q x"
  shows "P s' \<and> (\<forall>x \<in> set xs. Q x)"
  using assms
proof (induction xs arbitrary: s)
  case (Cons x xs)
  from Cons.prems(1) obtain t where t: "f x s = Inr t" "efold f xs t = Inr s'" by (auto simp: ebind_eq_Inr)
  have "P t \<and> Q x" using Cons.prems(2,3) t(1) by auto
  with Cons.IH [OF t(2)] Cons.prems(3) show ?case by auto
qed simp

lemma mk_sign_state_walk: "walk_ok (\<lambda>k. k \<in> set sigs) (\<lambda>a. a = SOPHIATX_TEMP_ACCOUNT) ga (mk_sign_state sigs [])"
proof -
  have "(\<forall>x \<in> set (foldl (\<lambda>m k. flat_insert k False m) m ks). fst x \<in> S) \<longleftrightarrow>
      (\<forall>x \<in> set m. fst x \<in> S) \<and> set ks \<subseteq> S" for m ks and S :: "int set"
    by (induction ks arbitrary: m) (simp_all add: conj_ac)
  then show ?thesis by (simp add: walk_ok_def mk_sign_state_def agrees_def)
qed

lemma verify_authority_sound:
  assumes run: "verify_authority act own other sigs ga go d [] [] = Inr ()"
    and g: "getter_ok ga" "getter_ok go" and o: "\<forall>au \<in> set other. weights_ok au"
  defines "K \<equiv> (\<lambda>k. k \<in> set sigs)" and "A \<equiv> (\<lambda>a. a = SOPHIATX_TEMP_ACCOUNT)"
  shows "(\<forall>n \<in> set act. active_or_owner K A ga go n) \<and>
    (\<forall>n \<in> set own. \<exists>ow. go n = Inr ow \<and> authorised K A ga ow) \<and> (\<forall>au \<in> set other. authorised K A ga au)"
proof -
  from run obtain s2 s3 s4 where 1: "efold (verify_other ga d) other (mk_sign_state sigs []) = Inr s2"
    and 2: "efold (verify_active ga go d) act s2 = Inr s3" and 3: "efold (verify_owner ga go d []) own s3 = Inr s4"
    by (auto simp: verify_authority_def Let_def result_simps)
  have "walk_ok K A ga (mk_sign_state sigs [])" unfolding K_def A_def by (rule mk_sign_state_walk)
  with 1 have s2: "walk_ok K A ga s2 \<and> (\<forall>au \<in> set other. authorised K A ga au)"
    by (rule efold_each) (use o g in \<open>simp add: verify_other_sound\<close>)
  from 2 conjunct1 [OF s2] have s3: "walk_ok K A ga s3 \<and> (\<forall>n \<in> set act. active_or_owner K A ga go n)"
    by (rule efold_each) (use g in \<open>simp add: verify_active_sound\<close>)
  from 3 conjunct1 [OF s3] have "walk_ok K A ga s4 \<and> (\<forall>n \<in> set own. \<exists>ow. go n = Inr ow \<and> authorised K A ga ow)"
    by (rule efold_each) (use g in \<open>simp add: verify_owner_sound\<close>)
  with s2 s3 show ?thesis by blast
qed

definition active_of :: "database \<Rightarrow> authority_getter" where
  "active_of db n = ebind (get_account_authority n db) (\<lambda>a. Inr (au_active a))"

definition owner_of :: "database \<Rightarrow> authority_getter" where
  "owner_of db n = ebind (get_account_authority n db) (\<lambda>a. Inr (au_owner a))"

text \<open>The weights of the stored authorities are unsigned.\<close>

definition authorities_ok :: "database \<Rightarrow> bool" where
  "authorities_ok db \<longleftrightarrow> list_all (\<lambda>a. weights_ok (au_active a) \<and> weights_ok (au_owner a)) (rows (db_authorities db))"

lemma authorities_ok_getters: "authorities_ok db \<Longrightarrow> getter_ok (active_of db) \<and> getter_ok (owner_of db)"
  by (auto simp: authorities_ok_def getter_ok_def active_of_def owner_of_def ebind_eq_Inr get_account_authority_def
      get_by_def list_all_iff find_by_def find_Some_iff split: option.splits)

text \<open>C3. A transaction accepted by a node that checks signatures, outside the eight heights with a
  recorded exception, carries signatures of enough keys: every account whose active authority an
  operation requires has that authority (or its owner authority) met by the recovered keys, every account
  whose owner authority is required has that one met, and the authorities given in operations
  themselves are met. Only the account \<open>temp\<close> needs no signature.\<close>

theorem accepted_transaction_is_authorised:
  assumes "apply_transaction nd t db = Inr db'" "\<not> skips nd skip_transaction_signatures" "\<not> skips nd skip_authority_check"
    "u32 (head_block_num db + 1) \<notin> set shared_db_merkle" "authorities_ok db"
    "\<forall>os. trx_required_other (nd_ext nd) t = Inr os \<longrightarrow> (\<forall>au \<in> set os. weights_ok au)"
  shows "\<exists>keys others. get_signature_keys nd (has_hardfork 1 db) t = Inr keys \<and>
    trx_required_other (nd_ext nd) t = Inr others \<and>
    (let K = (\<lambda>k. k \<in> set keys); A = (\<lambda>a. a = SOPHIATX_TEMP_ACCOUNT) in
     (\<forall>op \<in> set (trx_operations t). (\<forall>n \<in> set (required_active op). active_or_owner K A (active_of db) (owner_of db) n) \<and>
        (\<forall>n \<in> set (required_owner op). \<exists>ow. owner_of db n = Inr ow \<and> authorised K A (active_of db) ow)) \<and>
     (\<forall>au \<in> set others. authorised K A (active_of db) au))"
proof -
  from assms(1) have "check_trx_authority nd t db = Inr ()"
    unfolding apply_transaction_def by (auto simp: ebind_eq_Inr FC_ASSERT_eq_Inr)
  then have "trx_verify_authority nd (active_of db) (owner_of db) SOPHIATX_MAX_SIG_CHECK_DEPTH (has_hardfork 1 db) t = Inr ()"
    using assms(2-4) unfolding active_of_def [abs_def] owner_of_def [abs_def]
    by (auto simp: check_trx_authority_def Let_def split: sum.splits if_splits)
  then obtain keys others where ko: "get_signature_keys nd (has_hardfork 1 db) t = Inr keys"
    "trx_required_other (nd_ext nd) t = Inr others"
    and v: "verify_authority (flat_set_of (trx_required_active t)) (flat_set_of (trx_required_owner t)) others keys
         (active_of db) (owner_of db) SOPHIATX_MAX_SIG_CHECK_DEPTH [] [] = Inr ()"
    by (auto simp: trx_verify_authority_def ebind_eq_Inr)
  have "\<forall>au \<in> set others. weights_ok au" using assms(6) ko(2) by blast
  from verify_authority_sound [OF v conjunct1 [OF authorities_ok_getters] conjunct2 [OF authorities_ok_getters] this] assms(5)
  show ?thesis using ko
    by (intro exI conjI) (auto simp: Let_def flat_set_of_def trx_required_active_def trx_required_owner_def)
qed

section \<open>Fee-free operations\<close>

abbreviation counter_of :: "account_name_type \<Rightarrow> database \<Rightarrow> account_bandwidth_object option" where
  "counter_of n db \<equiv> find_by bw_account n (rows (db_bandwidth db))"

text \<open>What the counter of an account should be after a transaction with \<open>cnt\<close> fee-free operations of \<open>bw\<close> bytes, and the limits.\<close>

definition counted :: "int \<Rightarrow> int \<Rightarrow> account_name_type \<Rightarrow> database \<Rightarrow> account_bandwidth_object" where
  "counted bw cnt n db =
     (let fresh = \<lparr>bw_account = n, act_fee_free_bandwidth = bw, act_fee_free_ops_count = cnt, last_block_num_reset = head_block_num db\<rparr> in
      case counter_of n db of
        None \<Rightarrow> fresh
      | Some b \<Rightarrow>
          if u32 (head_block_num db - last_block_num_reset b) > cfg_limit_bandwidth_blocks (db_cfg db) then fresh
          else \<lparr>bw_account = n, act_fee_free_bandwidth = u64 (act_fee_free_bandwidth b + bw),
                act_fee_free_ops_count = u64 (act_fee_free_ops_count b + cnt), last_block_num_reset = last_block_num_reset b\<rparr>)"

definition within_limits :: "database \<Rightarrow> account_bandwidth_object \<Rightarrow> bool" where
  "within_limits db b \<longleftrightarrow> act_fee_free_bandwidth b \<le> cfg_max_allowed_bandwidth (db_cfg db) \<and>
     act_fee_free_ops_count b \<le> cfg_max_allowed_ops_count (db_cfg db)"

lemma counted_other: "counter_of n db' = counter_of n db \<Longrightarrow> db_dgp db' = db_dgp db \<Longrightarrow> db_cfg db' = db_cfg db \<Longrightarrow>
    counted bw cnt n db' = counted bw cnt n db"
  by (simp add: counted_def head_block_num_def cong: option.case_cong)

lemma count_bandwidth_counted:
  assumes "counter_of k db = Some b"
  shows "count_bandwidth (db_cfg db) (head_block_num db) bw cnt b = counted bw cnt k db"
proof -
  have "bw_account b = k" using find_by_Some [OF assms] by simp
  then show ?thesis using assms
    by (cases b) (auto simp: counted_def Let_def count_bandwidth_def new_bandwidth_def more_bandwidth_def)
qed

lemma counted_account: "bw_account (counted bw cnt k db) = k"
  by (simp add: counted_def Let_def split: option.splits)

lemma update_account_bandwidth_counts:
  "\<exists>t. (\<forall>n. find_by bw_account n (rows t) = (if n = k then Some (counted bw cnt k db) else counter_of n db)) \<and>
     update_account_bandwidth bw cnt k db =
       (if within_limits db (counted bw cnt k db) then Inr (db\<lparr>db_bandwidth := t\<rparr>) else Inl Tx_exceeded_bandwidth)"
proof (cases "counter_of k db")
  case None
  then have "counted bw cnt k db = \<lparr>bw_account = k, act_fee_free_bandwidth = bw, act_fee_free_ops_count = cnt,
      last_block_num_reset = head_block_num db\<rparr>" by (simp add: counted_def)
  with None show ?thesis
    by (intro exI [of _ "append_row (counted bw cnt k db) (db_bandwidth db)"])
      (simp add: update_account_bandwidth_def Let_def new_bandwidth_def append_row_def find_by_append_new within_limits_def ethrow_unless_def)
next
  case (Some b)
  then show ?thesis
    by (intro exI [of _ "(db_bandwidth db)\<lparr>rows := modify_by bw_account k (\<lambda>_. counted bw cnt k db) (rows (db_bandwidth db))\<rparr>"])
      (simp add: update_account_bandwidth_def Let_def count_bandwidth_counted find_by_modify_const counted_account within_limits_def ethrow_unless_def)
qed

lemma transaction_inv:
  assumes "apply_transaction nd t db = Inr db'" "\<not> skips nd skip_validate" "ledger_inv db"
  shows "ledger_inv db'"
proof -
  from assms(1,2) obtain db1 where valid: "transaction_validate (nd_ext nd) (db_cfg db) t = Inr ()"
    and db1: "db1 = db \<or> remember_transaction nd t db = Inr db1" and run: "process_operations nd t db1 = Inr db'"
    by (auto simp: apply_transaction_def ebind_eq_Inr FC_ASSERT_eq_Inr split: if_splits)
  have led: "ledger db1 = ledger db" using db1 by (auto simp: remember_transaction_def ebind_eq_Inr)
  have "money_ok db1" using ledger_eq_money_ok(3) [OF led] assms(3) by (simp add: ledger_inv_def)
  then have "ledger_inv db1" using led assms(3) by (intro plain_inv [of db1 db]) (auto simp: ledger_def)
  from process_operations_inv [OF run this transaction_validate_ops [OF valid]] show ?thesis by simp
qed

text \<open>C1. The central invariant of the chain: a transaction that a validating node accepts keeps every
  supply equation (the coins on accounts, in escrow and vested add up to the current supply, with the
  pools to the total supply, and the vested coins to the recorded total), the well-formedness of the
  balances and the rule that an approved escrow has no pending fee. It holds for every operation a
  transaction can carry and for any number of them.\<close>

theorem apply_transaction_keeps_ledger:
  assumes "apply_transaction nd t db = Inr db'" "\<not> skips nd skip_validate" "ledger_inv db"
  shows "ledger_inv db'"
  using assms by (rule transaction_inv)

text \<open>C34. Fee-free operations are counted and limited: if the counters of all accounts of a transaction stay within the limits, then
  each of them has its new counter afterwards, which starts anew for an account without one and after the end of its period and grows
  by the new operations otherwise; the counters of other accounts and the rest of the state stay as they are. If a counter would
  exceed a limit, the transaction is refused.\<close>

theorem fee_free_operations_counted:
  assumes "distinct accounts"
  shows "case update_accounts_bandwidth accounts bw cnt db of
      Inl e \<Rightarrow> e = Tx_exceeded_bandwidth \<and> \<not> list_all (\<lambda>n. within_limits db (counted bw cnt n db)) accounts
    | Inr db' \<Rightarrow> list_all (\<lambda>n. within_limits db (counted bw cnt n db)) accounts \<and> db' = db\<lparr>db_bandwidth := db_bandwidth db'\<rparr> \<and>
        (\<forall>n. counter_of n db' = (if n \<in> set accounts then Some (counted bw cnt n db) else counter_of n db))"
  using assms
proof (induction accounts arbitrary: db)
  case (Cons k ks)
  obtain t where t: "\<And>n. find_by bw_account n (rows t) = (if n = k then Some (counted bw cnt k db) else counter_of n db)"
    and run: "update_account_bandwidth bw cnt k db =
       (if within_limits db (counted bw cnt k db) then Inr (db\<lparr>db_bandwidth := t\<rparr>) else Inl Tx_exceeded_bandwidth)"
    using update_account_bandwidth_counts by blast
  let ?db = "db\<lparr>db_bandwidth := t\<rparr>"
  have same: "counted bw cnt n ?db = counted bw cnt n db" if "n \<in> set ks" for n
    using that Cons.prems t by (intro counted_other) auto
  have lim: "within_limits ?db = within_limits db" by (simp add: within_limits_def fun_eq_iff)
  have all: "list_all (\<lambda>n. within_limits ?db (counted bw cnt n ?db)) ks = list_all (\<lambda>n. within_limits db (counted bw cnt n db)) ks"
    using same by (simp add: list_all_iff lim)
  show ?case
  proof (cases "within_limits db (counted bw cnt k db)")
    case True
    have step: "update_accounts_bandwidth (k # ks) bw cnt db = update_accounts_bandwidth ks bw cnt ?db"
      using True by (simp add: update_accounts_bandwidth_def run ebind_def)
    show ?thesis
      unfolding step using Cons.IH [of ?db] Cons.prems True same t
      by (auto simp: all split: sum.splits)
  qed (simp add: update_accounts_bandwidth_def run ebind_def)
qed (simp add: update_accounts_bandwidth_def)

section \<open>A run on the genesis state\<close>

text \<open>A node whose libraries are instantiated by simple functions: text is always well-formed, a
  signature is the key it was made with.\<close>

definition sample_externals :: externals where
  "sample_externals = \<lparr>json_is_valid = \<lambda>_. True, ripemd160 = \<lambda>s. map of_char s,
     memory_sizes = x86_64, is_producing = False\<rparr>"

definition sample_node :: node where
  "sample_node = \<lparr>nd_ext = sample_externals, pack_size = \<lambda>_. 100, trx_id = \<lambda>t. trx_expiration t,
     sig_digest = \<lambda>_. 0, recover_key = \<lambda>sig _ _. Inr sig, skip = []\<rparr>"

definition sample_transfer :: transfer_operation where
  "sample_transfer = \<lparr>op_fee = Asset 10000 SOPHIATX_SYMBOL, tr_from = SOPHIATX_INIT_MINER_NAME,
     tr_to = SOPHIATX_MINER_ACCOUNT, tr_amount = Asset 5000000 SOPHIATX_SYMBOL, tr_memo = []\<rparr>"

definition sample_escrow :: escrow_transfer_operation where
  "sample_escrow = \<lparr>op_fee = Asset 10000 SOPHIATX_SYMBOL, et_from = SOPHIATX_INIT_MINER_NAME,
     et_to = SOPHIATX_MINER_ACCOUNT, et_agent = SOPHIATX_TEMP_ACCOUNT, et_escrow_id = 7,
     et_sophiatx_amount = Asset 3000000 SOPHIATX_SYMBOL, et_escrow_fee = Asset 2000 SOPHIATX_SYMBOL,
     et_ratification_deadline = 1531512900, et_escrow_expiration = 1531513900, et_json_meta = []\<rparr>"

definition sample_trx :: "operation list \<Rightarrow> signed_transaction" where
  "sample_trx ops = \<lparr>ref_block_num = 0, ref_block_prefix = 0, trx_expiration = 1531512900, trx_operations = ops, trx_extensions = [],
     signatures = [1]\<rparr>"

lemma live_genesis_inv: "succeeds live_genesis ledger_inv"
  by code_simp

theorem apply_transaction_keeps_ledger_witness:
  "succeeds live_genesis (\<lambda>db.
     succeeds (apply_transaction sample_node (sample_trx [Transfer_op sample_transfer, Escrow_transfer_op sample_escrow]) db)
       ledger_inv)"
proof -
  have "succeeds live_genesis (\<lambda>db.
     succeeds (apply_transaction sample_node (sample_trx [Transfer_op sample_transfer, Escrow_transfer_op sample_escrow]) db)
       (\<lambda>_. \<not> skips sample_node skip_validate))" by code_simp
  then obtain db db' where db: "live_genesis = Inr db" and run: "\<not> skips sample_node skip_validate"
    "apply_transaction sample_node (sample_trx [Transfer_op sample_transfer, Escrow_transfer_op sample_escrow]) db = Inr db'"
    by (auto simp: succeeds_iff)
  moreover have "ledger_inv db" using live_genesis_inv unfolding db by (simp add: succeeds_def)
  ultimately show ?thesis unfolding db using apply_transaction_keeps_ledger [OF run(2,1)] by (simp add: succeeds_def)
qed

theorem transfer_moves_exactly_witness:
  "succeeds live_genesis (\<lambda>db. succeeds (transfer_apply sample_transfer db) (\<lambda>db'.
     balance_of SOPHIATX_INIT_MINER_NAME db' = Some 349999995000000))"
proof -
  have "succeeds live_genesis (\<lambda>db. succeeds (transfer_apply sample_transfer db) (\<lambda>db'.
     balance_of SOPHIATX_INIT_MINER_NAME db = Some 350000000000000 \<and> tr_from sample_transfer = SOPHIATX_INIT_MINER_NAME \<and>
     tr_from sample_transfer \<noteq> tr_to sample_transfer \<and> amount (tr_amount sample_transfer) = 5000000))" by code_simp
  then show ?thesis using transfer_moves_exactly by (fastforce simp: succeeds_iff)
qed

theorem operation_fee_charged_witness:
  "succeeds live_genesis (\<lambda>db. succeeds (process_operation_fee (Transfer_op sample_transfer) db) (\<lambda>db'.
     \<exists>b. balance_of SOPHIATX_INIT_MINER_NAME db = Some b \<and> balance_of SOPHIATX_INIT_MINER_NAME db' = Some (b - 10000)))"
proof -
  let ?op = "Transfer_op sample_transfer"
  have "succeeds live_genesis (\<lambda>db. succeeds (process_operation_fee ?op db) (\<lambda>db'.
     \<not> (has_special_fee ?op \<or> is_private_net db) \<and> symbol (fee_of ?op) = cfg_symbol (db_cfg db) \<and>
     amount (fee_of ?op) = 10000 \<and> get_sponsor (fee_payer ?op) db = None \<and> fee_payer ?op = SOPHIATX_INIT_MINER_NAME))"
    by code_simp
  then show ?thesis using operation_fee_charged [of ?op] by (fastforce simp: succeeds_iff)
qed

theorem accepted_transaction_is_authorised_witness:
  "succeeds live_genesis (\<lambda>db. active_or_owner (\<lambda>k. k \<in> set [1]) (\<lambda>a. a = SOPHIATX_TEMP_ACCOUNT) (active_of db) (owner_of db)
     SOPHIATX_INIT_MINER_NAME)"
proof -
  let ?t = "sample_trx [Transfer_op sample_transfer]"
  have "succeeds live_genesis (\<lambda>db. succeeds (apply_transaction sample_node ?t db) (\<lambda>_.
     \<not> skips sample_node skip_transaction_signatures \<and> \<not> skips sample_node skip_authority_check \<and>
     u32 (head_block_num db + 1) \<notin> set shared_db_merkle \<and> authorities_ok db \<and>
     trx_required_other (nd_ext sample_node) ?t = Inr [] \<and> get_signature_keys sample_node (has_hardfork 1 db) ?t = Inr [1] \<and>
     trx_operations ?t = [Transfer_op sample_transfer] \<and>
     required_active (Transfer_op sample_transfer) = [SOPHIATX_INIT_MINER_NAME]))" by code_simp
  then show ?thesis using accepted_transaction_is_authorised [of sample_node ?t]
    by (fastforce simp: succeeds_iff Let_def)
qed

text \<open>The account \<^verbatim>\<open>initminer\<close> has a counter already, the account \<^verbatim>\<open>miners\<close> has none.\<close>

theorem fee_free_operations_counted_witness:
  "succeeds live_genesis (\<lambda>db. succeeds (update_accounts_bandwidth [SOPHIATX_INIT_MINER_NAME] 100 1 db) (\<lambda>db1.
     succeeds (update_accounts_bandwidth [SOPHIATX_INIT_MINER_NAME, SOPHIATX_MINER_ACCOUNT] 50 2 db1) (\<lambda>db2.
       map_option act_fee_free_bandwidth (counter_of SOPHIATX_INIT_MINER_NAME db2) = Some 150 \<and>
       map_option act_fee_free_ops_count (counter_of SOPHIATX_MINER_ACCOUNT db2) = Some 2)))"
proof -
  let ?ns = "[SOPHIATX_INIT_MINER_NAME, SOPHIATX_MINER_ACCOUNT]"
  have "succeeds live_genesis (\<lambda>db. succeeds (update_accounts_bandwidth [SOPHIATX_INIT_MINER_NAME] 100 1 db) (\<lambda>db1.
     act_fee_free_bandwidth (counted 50 2 SOPHIATX_INIT_MINER_NAME db1) = 150 \<and>
     act_fee_free_ops_count (counted 50 2 SOPHIATX_MINER_ACCOUNT db1) = 2 \<and> distinct ?ns \<and>
     succeeds (update_accounts_bandwidth ?ns 50 2 db1) (\<lambda>_. True)))" by code_simp
  then show ?thesis
  proof (elim succeeds_mono, elim conjE)
    fix db db1
    assume c: "act_fee_free_bandwidth (counted 50 2 SOPHIATX_INIT_MINER_NAME db1) = 150"
      "act_fee_free_ops_count (counted 50 2 SOPHIATX_MINER_ACCOUNT db1) = 2" and d: "distinct ?ns"
      and "succeeds (update_accounts_bandwidth ?ns 50 2 db1) (\<lambda>_. True)"
    then obtain db2 where run: "update_accounts_bandwidth ?ns 50 2 db1 = Inr db2" by (auto simp: succeeds_iff)
    from fee_free_operations_counted [OF d, where bw = 50 and cnt = 2 and db = db1] c show "succeeds (update_accounts_bandwidth ?ns 50 2 db1) (\<lambda>db2.
       map_option act_fee_free_bandwidth (counter_of SOPHIATX_INIT_MINER_NAME db2) = Some 150 \<and>
       map_option act_fee_free_ops_count (counter_of SOPHIATX_MINER_ACCOUNT db2) = Some 2)"
      by (simp add: run succeeds_def)
  qed
qed

end
