(* ===== verification/Null_Account.thy ===== *)
theory Null_Account
  imports Genesis
begin

text \<open>
  The per-block burning of the coins of the account \<^verbatim>\<open>none\<close>
  (\<^verbatim>\<open>database::clear_null_account_balance\<close>) against the check \<^verbatim>\<open>database::validate_invariants\<close> that
  runs after the block: the burnt coins leave the recorded supply and are not booked in any
  pool, so the equation for the total supply is lost.
\<close>

section \<open>What the balance routines leave alone\<close>

definition differs_in_votes :: "database \<Rightarrow> database \<Rightarrow> bool" where
  "differs_in_votes db db' \<longleftrightarrow>
     db_dgp db' = db_dgp db \<and> db_econ db' = db_econ db \<and> db_cfg db' = db_cfg db"

lemma differs_refl: "differs_in_votes db db"
  by (simp add: differs_in_votes_def)

lemma differs_trans: "differs_in_votes a b \<Longrightarrow> differs_in_votes b c \<Longrightarrow> differs_in_votes a c"
  by (simp add: differs_in_votes_def)

lemma differs_modify_account: "differs_in_votes db (modify_account n f db)"
  by (simp add: differs_in_votes_def)

lemma differs_modify_witness: "differs_in_votes db (modify_witness n g db)"
  by (simp add: differs_in_votes_def modify_witness_def)

lemma differs_adjust_witness_votes:
  assumes "adjust_witness_votes n d db = Inr db'"
  shows "differs_in_votes db db'"
  using assms unfolding adjust_witness_votes_def
proof (rule efold_invariant)
  fix v t t'
  assume "differs_in_votes db t" "adjust_witness_vote (wv_witness v) d t = Inr t'"
  then show "differs_in_votes db t'"
    by (auto simp: adjust_witness_vote_def result_simps Let_def intro: differs_trans differs_modify_witness)
qed (rule differs_refl)

lemma differs_adjust_proxied_votes: "adjust_proxied_votes r n d db = Inr db' \<Longrightarrow> differs_in_votes db db'"
proof (induction r arbitrary: n db)
  case 0
  then show ?case
    by (subst (asm) adjust_proxied_votes.simps)
      (auto simp: result_simps split: if_splits intro: differs_adjust_witness_votes differs_refl)
next
  case (Suc r)
  show ?case
    using Suc.prems
    by (subst (asm) adjust_proxied_votes.simps)
      (auto simp: result_simps Let_def split: if_splits intro: differs_adjust_witness_votes
        dest!: Suc.IH intro: differs_trans [OF differs_modify_account])
qed

lemma adjust_balance_globals:
  "adjust_balance n d db = Inr db' \<Longrightarrow>
     db_dgp db' = db_dgp db \<and> db_econ db' = db_econ db \<and> db_cfg db' = db_cfg db"
  by (auto simp: adjust_balance_def modify_balance_def result_simps adjust_proxied_witness_votes_def
      differs_in_votes_def dest!: differs_adjust_proxied_votes)

lemma adjust_supply_globals:
  "adjust_supply d db = Inr db' \<Longrightarrow>
     amount (current_supply (db_dgp db')) = amount (current_supply (db_dgp db)) + amount d \<and>
     db_econ db' = db_econ db \<and> db_cfg db' = db_cfg db \<and> private_net (db_dgp db') = private_net (db_dgp db)"
  by (auto simp: adjust_supply_def result_simps split: if_splits)

section \<open>The burning\<close>

lemma clear_null_lowers_supply:
  assumes run: "clear_null_account_balance db = Inr db'"
    and a: "find_account SOPHIATX_NULL_ACCOUNT db = Some a" and pos: "0 < amount (balance a)"
  shows "amount (current_supply (db_dgp db')) < amount (current_supply (db_dgp db))
    \<and> db_econ db' = db_econ db \<and> db_cfg db' = db_cfg db \<and> is_private_net db' = is_private_net db"
proof -
  from run obtain t1 db1 t2 db2 where st1: "clear_null_liquid (Asset 0 (cfg_symbol (db_cfg db))) db = Inr (t1, db1)"
    and st2: "clear_null_vests t1 db1 = Inr (t2, db2)"
    and st3: "(if amount t2 > 0 then ebind (asset_neg t2) (\<lambda>d. adjust_supply d db2) else Inr db2) = Inr db'"
    by (auto simp: clear_null_account_balance_def ebind_eq_Inr)
  from st1 a pos obtain d1 where
    t1: "asset_add (Asset 0 (cfg_symbol (db_cfg db))) (balance a) = Inr t1"
    and db1: "adjust_balance SOPHIATX_NULL_ACCOUNT d1 db = Inr db1"
    by (auto simp: clear_null_liquid_def ebind_eq_Inr get_account_Inr)
  have db2: "current_supply (db_dgp db2) = current_supply (db_dgp db1)" "db_econ db2 = db_econ db1"
      "db_cfg db2 = db_cfg db1" "private_net (db_dgp db2) = private_net (db_dgp db1)"
    and le: "amount t1 \<le> amount t2"
    using st2 by (auto simp: clear_null_vests_def result_simps split: if_splits dest!: safe_add_InrD)
  obtain d2 where d2: "0 < amount t2 \<Longrightarrow> asset_neg t2 = Inr d2 \<and> adjust_supply d2 db2 = Inr db'"
    using st3 by (auto simp: result_simps split: if_splits)
  have "amount t1 = amount (balance a)" using asset_add_InrD [OF t1] by simp
  with pos le d2 have "asset_neg t2 = Inr d2" "adjust_supply d2 db2 = Inr db'" "0 < amount t2" by simp_all
  moreover from this have "amount d2 = - amount t2" by (auto simp: asset_neg_def result_simps)
  ultimately show ?thesis
    using adjust_balance_globals [OF db1] adjust_supply_globals [of d2 db2 db'] db2
    by (simp add: is_private_net_def)
qed

text \<open>C37. Burning the coins of the account \<^verbatim>\<open>none\<close> breaks the check that runs after every block: from
  a state of a public network whose supply adds up, \<^verbatim>\<open>clear_null_account_balance\<close> leads to a state
  on which \<^verbatim>\<open>validate_invariants\<close> throws as soon as \<^verbatim>\<open>none\<close> holds liquid coins, because the burnt
  amount leaves \<^verbatim>\<open>current_supply\<close> without entering \<^verbatim>\<open>burn_pool\<close>.\<close>

theorem clear_null_breaks_invariants:
  assumes "money_ok db" "\<not> is_private_net db"
    and "find_account SOPHIATX_NULL_ACCOUNT db = Some a" "0 < amount (balance a)"
    and "clear_null_account_balance db = Inr db'"
  shows "validate_invariants db' \<noteq> Inr ()"
proof
  assume "validate_invariants db' = Inr ()"
  with clear_null_lowers_supply [OF assms(5,3,4)] assms(2) validate_invariants_sound [of db']
  have "balanced (cfg_total_supply (db_cfg db)) (sheet_of db')" by simp
  with assms(1) clear_null_lowers_supply [OF assms(5,3,4)] show False
    by (simp add: money_ok_def balanced_def)
qed

text \<open>Coins sent to \<^verbatim>\<open>none\<close> on the live network.\<close>

definition coins_at_null :: "database result" where
  "coins_at_null =
     ebind live_genesis (\<lambda>db.
     ebind (adjust_balance SOPHIATX_INIT_MINER_NAME (Asset (-5) (cfg_symbol (db_cfg db))) db) (\<lambda>db1.
       adjust_balance SOPHIATX_NULL_ACCOUNT (Asset 5 (cfg_symbol (db_cfg db))) db1))"

theorem clear_null_breaks_invariants_witness:
  "succeeds coins_at_null (\<lambda>db. succeeds (clear_null_account_balance db) (\<lambda>db'. validate_invariants db' \<noteq> Inr ()))"
proof -
  have "succeeds coins_at_null (\<lambda>db. validate_invariants db = Inr () \<and> ledger_wf db \<and> \<not> is_private_net db \<and>
      0 < (case find_account SOPHIATX_NULL_ACCOUNT db of None \<Rightarrow> 0 | Some a \<Rightarrow> amount (balance a)) \<and>
      succeeds (clear_null_account_balance db) (\<lambda>_. True))"
    by code_simp
  then obtain db a db' where db: "coins_at_null = Inr db" "validate_invariants db = Inr ()" "ledger_wf db"
    "\<not> is_private_net db" and a: "find_account SOPHIATX_NULL_ACCOUNT db = Some a" "0 < amount (balance a)"
    and run: "clear_null_account_balance db = Inr db'"
    by (auto simp: succeeds_iff split: option.splits)
  have "money_ok db" using db validate_invariants_sound [of db] by (simp add: money_ok_def)
  from clear_null_breaks_invariants [OF this db(4) a run] show ?thesis using db(1) run by (auto simp: succeeds_iff)
qed

end
