(* ===== verification/Maintenance_Ledger.thy ===== *)
theory Maintenance_Ledger
  imports Block_Maintenance Transactions Null_Account
begin

text \<open>
  The end-of-block routines and the supply: interests and rewards move coins from the pools to accounts,
  withdrawals from vesting shares to balances, expired escrows back to their senders; feeds,
  recovery, hardforks and the schedule leave the ledger alone. Together they keep the ledger
  invariant as long as the account \<^verbatim>\<open>none\<close> has nothing to burn.
\<close>

section \<open>Replacing one account\<close>

lemma account_unique:
  assumes "distinct (map acc_name (rows (db_accounts db)))" "find_account n db = Some a"
    "x \<in> set (rows (db_accounts db))" "acc_name x = n"
  shows "x = a"
  using assms find_account_Some [OF assms(2)] by (auto simp: distinct_map inj_on_def)

lemma modify_account_const:
  assumes "distinct (map acc_name (rows (db_accounts db)))" "find_account n db = Some a"
  shows "modify_account n (\<lambda>_. a1) db = modify_account n (\<lambda>x. if x = a then a1 else x) db"
  using account_unique [OF assms] by (simp add: modify_account_def modify_by_def)

lemma replace_account_moves:
  assumes a: "find_account n db = Some a" and n: "acc_name a1 = n"
    and syms: "symbol (balance a1) = symbol (balance a)" "symbol (vesting_shares a1) = symbol (vesting_shares a)"
  shows "moves (grant (amount (vesting_shares a1) - amount (vesting_shares a)) \<circ> credit (amount (balance a1) - amount (balance a)))
    db (modify_account n (\<lambda>_. a1) db)"
proof (cases "ledger_wf db")
  case wf: True
  let ?f = "\<lambda>x. if x = a then a1 else x"
  have an: "acc_name a = n" using find_account_Some [OF a] by simp
  have eq: "modify_account n (\<lambda>_. a1) db = modify_account n ?f db"
    using wf by (intro modify_account_const [OF _ a]) (simp add: ledger_wf_def)
  have f: "\<And>x. acc_name (?f x) = acc_name x" "\<And>s x. account_symbols_ok s x \<Longrightarrow> account_symbols_ok s (?f x)"
    using n an syms by (auto simp: account_symbols_ok_def)
  note m = modify_account_refines [OF wf a, of ?f, OF f]
  show ?thesis unfolding moves_def eq using m by simp
qed (simp add: moves_def)

section \<open>Vesting\<close>

lemma withdraw_once_fields:
  "withdraw_once d a = Inr a1 \<Longrightarrow> acc_name a1 = acc_name a \<and>
     balance a1 = (balance a)\<lparr>amount := amount (balance a) + d\<rparr> \<and>
     vesting_shares a1 = (vesting_shares a)\<lparr>amount := amount (vesting_shares a) - d\<rparr>"
  by (auto simp: withdraw_once_def result_simps dest!: safe_InrD)

lemma fill_withdrawal_moves:
  assumes run: "fill_withdrawal a db = Inr db'" and a: "find_account n db = Some a"
  shows "\<exists>d. moves (power_up (- d)) db db' \<and> rows (db_escrows db') = rows (db_escrows db)"
proof -
  from run obtain d a1 t where w: "withdraw_once d a = Inr a1"
    and t: "safe_sub (amount (total_vesting_shares (db_dgp db))) d = Inr t" and db': "db' =
      modify_dgp (\<lambda>p. p\<lparr>total_vesting_shares := (total_vesting_shares p)\<lparr>amount := t\<rparr>\<rparr>) (modify_account (acc_name a) (\<lambda>_. a1) db)"
    by (auto simp: fill_withdrawal_def ebind_eq_Inr)
  have n: "acc_name a = n" using find_account_Some [OF a] by simp
  let ?db1 = "modify_account n (\<lambda>_. a1) db"
  have m: "moves (grant (- d) \<circ> credit d) db ?db1"
    using replace_account_moves [OF a, of a1] withdraw_once_fields [OF w] n by simp
  have "moves (power_up (- d)) db db'"
    using m modify_dgp_vesting_refines [of ?db1 t] safe_sub_InrD [OF t]
    by (auto simp: moves_def db' n effect_defs)
  then show ?thesis by (auto simp: db')
qed

lemma withdrawal_loop_inv: "withdrawal_loop fuel current db = Inr db' \<Longrightarrow> ledger_inv db \<Longrightarrow> ledger_inv db'"
proof (induction fuel arbitrary: current db)
  case (Suc fuel)
  show ?case
  proof (cases current)
    case (Some n)
    have "ledger_inv db1" if fill: "fill_withdrawal a db = Inr db1" and a: "find_account n db = Some a" for a db1
    proof -
      from fill_withdrawal_moves [OF fill a] obtain d where m: "moves (power_up (- d)) db db1"
        and e: "rows (db_escrows db1) = rows (db_escrows db)" by blast
      have "money_ok db1"
        using m Suc.prems(2) by (intro moves_money_ok [OF m]) (auto simp: ledger_inv_def balanced_def effect_defs)
      then show ?thesis using e Suc.prems(2) by (rule plain_inv)
    qed
    with Suc Some show ?thesis
      by (auto simp: withdrawal_loop.simps ebind_eq_Inr Let_def get_account_Inr split: if_splits)
  qed (use Suc.prems in \<open>simp add: withdrawal_loop.simps\<close>)
qed (simp add: withdrawal_loop.simps)

interpretation withdrawals: ledger_keeper "\<lambda>_ :: unit. process_vesting_withdrawals"
  by unfold_locales (auto simp: process_vesting_withdrawals_def intro: withdrawal_loop_inv)

section \<open>Rewards\<close>

lemma modify_dgp_both_refines:
  assumes "ledger_wf db" "symbol cs = cfg_symbol (db_cfg db)" "symbol tv = VESTS_SYMBOL"
  shows "ledger_wf (modify_dgp (\<lambda>p. p\<lparr>current_supply := cs, total_vesting_shares := tv\<rparr>) db)"
    "sheet_of (modify_dgp (\<lambda>p. p\<lparr>current_supply := cs, total_vesting_shares := tv\<rparr>) db) =
      (sheet_of db)\<lparr>sh_supply := amount cs, sh_vesting_total := amount tv\<rparr>"
  using assms by (simp_all add: ledger_wf_def sheet_of_def liquid_of_def vested_of_def escrowed_of_def)

lemma process_funds_inv:
  assumes run: "process_funds bn db = Inr db'" and inv: "ledger_inv db"
  shows "ledger_inv db'"
proof -
  from run obtain w r e db1 cs tv where e: "withdraw_mining_reward (db_cfg db)
      (bn, reward_weight w (db_schedule db), witness_pay_normalization_factor (db_schedule db)) (db_econ db) = Inr (r, e)"
    and v: "create_vesting (wit_owner w) (Asset r VESTS_SYMBOL) (db\<lparr>db_econ := e\<rparr>) = Inr db1"
    and cs: "asset_add (current_supply (db_dgp db1)) (Asset r (cfg_symbol (db_cfg db1))) = Inr cs"
    and tv: "asset_add (total_vesting_shares (db_dgp db1)) (Asset r VESTS_SYMBOL) = Inr tv"
    and db': "db' = modify_dgp (\<lambda>p. p\<lparr>current_supply := cs, total_vesting_shares := tv\<rparr>) db1"
    by (auto simp: process_funds_def Let_def ebind_eq_Inr)
  have m: "moves (grant r \<circ> (\<lambda>s. s\<lparr>sh_pools := pool_total e\<rparr>)) db db1"
    using moves_trans [OF with_econ_moves create_vesting_moves [OF v]] by simp
  have wf: "ledger_wf db" using inv by (simp add: ledger_inv_def money_ok_def)
  have 1: "ledger_wf db1" "db_cfg db1 = db_cfg db" "sheet_of db1 = grant r ((sheet_of db)\<lparr>sh_pools := pool_total e\<rparr>)"
    using m wf by (auto simp: moves_def)
  have syms: "symbol cs = cfg_symbol (db_cfg db1)" "symbol tv = VESTS_SYMBOL"
    and am: "amount cs = sh_supply (sheet_of db1) + r" "amount tv = sh_vesting_total (sheet_of db1) + r"
    using asset_add_InrD [OF cs] asset_add_InrD [OF tv] by simp_all
  have "money_ok db'"
    using modify_dgp_both_refines [OF 1(1) syms] inv mining.draw_conserves [OF e]
    by (auto simp: db' money_ok_def ledger_inv_def balanced_def am 1 grant_def)
  moreover have "rows (db_escrows db') = rows (db_escrows db)"
    using create_vesting_escrows [OF v] by (simp add: db')
  ultimately show ?thesis using inv by (rule plain_inv)
qed

section \<open>Interests\<close>

text \<open>What the walk over the votes leaves of an account.\<close>

definition purse :: "account_object \<Rightarrow> account_name_type \<times> asset \<times> asset \<times> share_type" where
  "purse a = (acc_name a, balance a, vesting_shares a, holdings_considered_for_interests a)"

definition purses :: "database \<Rightarrow> (account_name_type \<times> asset \<times> asset \<times> share_type) list" where
  "purses db = map purse (rows (db_accounts db))"

lemma purses_modify_account: "(\<And>a. purse (f a) = purse a) \<Longrightarrow> purses (modify_account n f db) = purses db"
  by (simp add: purses_def modify_account_def modify_by_def)

lemma purses_adjust_witness_votes: "adjust_witness_votes n d db = Inr db' \<Longrightarrow> purses db' = purses db"
  unfolding adjust_witness_votes_def
  by (erule efold_invariant [where P = "\<lambda>t. purses t = purses db"])
    (auto simp: adjust_witness_vote_def result_simps Let_def modify_witness_def purses_def)

lemma purses_adjust_proxied_votes: "adjust_proxied_votes r n d db = Inr db' \<Longrightarrow> purses db' = purses db"
proof (induction r arbitrary: n db)
  case 0
  then show ?case
    by (subst (asm) adjust_proxied_votes.simps) (auto simp: result_simps purses_adjust_witness_votes split: if_splits)
next
  case (Suc r)
  show ?case
    using Suc.prems
    by (subst (asm) adjust_proxied_votes.simps)
      (auto simp: result_simps Let_def purses_modify_account purse_def purses_adjust_witness_votes
        split: if_splits dest!: Suc.IH)
qed

definition null_idle :: "database \<Rightarrow> bool" where
  "null_idle db \<longleftrightarrow> list_all (\<lambda>a. acc_name a = SOPHIATX_NULL_ACCOUNT \<longrightarrow>
     amount (balance a) = 0 \<and> amount (vesting_shares a) = 0 \<and> holdings_considered_for_interests a = 0) (rows (db_accounts db))"

lemma null_idle_purses:
  "null_idle db \<longleftrightarrow> list_all (\<lambda>(n, b, v, h). n = SOPHIATX_NULL_ACCOUNT \<longrightarrow> amount b = 0 \<and> amount v = 0 \<and> h = 0) (purses db)"
  by (simp add: null_idle_def purses_def purse_def list_all_iff)

lemma null_idleD:
  "null_idle db \<Longrightarrow> find_account n db = Some a \<Longrightarrow> n = SOPHIATX_NULL_ACCOUNT \<Longrightarrow>
     amount (balance a) = 0 \<and> amount (vesting_shares a) = 0 \<and> holdings_considered_for_interests a = 0"
  using find_account_Some [of n db a] by (auto simp: null_idle_def list_all_iff)

definition interest_inv :: "sophiatx_config \<Rightarrow> escrow_object list \<Rightarrow> share_type \<times> database \<Rightarrow> bool" where
  "interest_inv c es = (\<lambda>(inc, db). ledger_wf db \<and> balanced (cfg_total_supply c) (issue inc (sheet_of db)) \<and>
     db_cfg db = c \<and> interest_amounts_ok c (db_econ db) \<and> null_idle db \<and> rows (db_escrows db) = es)"

lemma draw_interest:
  assumes "(if now > delay then withdraw_interests c (h, p) em else Inr (0, em)) = Inr (r, em')" "interest_amounts_ok c em"
  shows "0 \<le> r \<and> pool_total em' + r = pool_total em \<and> interest_amounts_ok c em' \<and> (h = 0 \<longrightarrow> r = 0)"
proof (cases "now > delay")
  case True
  then have run: "withdraw_interests c (h, p) em = Inr (r, em')" using assms(1) by simp
  note b = withdraw_interests_never_overdraws [OF run assms(2)]
  have "accumulated_supply em' = accumulated_supply em" using interest.draw_keeps_supply_window [OF run] by simp
  moreover have "is_int64 (interest_pool_from_coinbase em')" "is_int64 (interest_pool_from_fees em' * SOPHIATX_INTEREST_BLOCKS)"
    using b assms(2) by (simp_all add: interest_amounts_ok_def int64_defs SOPHIATX_INTEREST_BLOCKS_def)
  moreover have "h = 0 \<longrightarrow> r = 0" using run by (auto simp: withdraw_interests_def FC_ASSERT_eq_Inr)
  ultimately show ?thesis using b assms(2) by (simp add: interest_amounts_ok_def)
qed (use assms in simp)

lemma add_interest_fields:
  "add_interest r a = Inr a2 \<Longrightarrow> acc_name a2 = acc_name a \<and> balance a2 = (balance a)\<lparr>amount := amount (balance a) + r\<rparr> \<and>
     vesting_shares a2 = vesting_shares a \<and>
     holdings_considered_for_interests a2 = (amount (balance a) + r + amount (vesting_shares a)) * SOPHIATX_INTEREST_BLOCKS"
  by (auto simp: add_interest_def total_balance_def Let_def ebind_eq_Inr dest!: safe_InrD safe_mul_InrD)

lemma pay_interest:
  assumes inv: "interest_inv c es (inc, db)" and a: "find_account n db = Some a"
    and r: "add_interest r a = Inr a2" "n = SOPHIATX_NULL_ACCOUNT \<Longrightarrow> r = 0"
    and e: "interest_amounts_ok c e" "pool_total e + r = pool_total (db_econ db)"
  shows "interest_inv c es (inc + r, modify_account n (\<lambda>_. a2) (db\<lparr>db_econ := e\<rparr>))"
proof -
  let ?d = "db\<lparr>db_econ := e\<rparr>"
  note f = add_interest_fields [OF r(1)]
  have an: "acc_name a = n" using find_account_Some [OF a] by simp
  have a': "find_account n ?d = Some a" using a by (simp add: find_account_def)
  have m: "moves (credit r \<circ> (\<lambda>s. s\<lparr>sh_pools := pool_total e\<rparr>)) db (modify_account n (\<lambda>_. a2) ?d)"
    using moves_trans [OF with_econ_moves replace_account_moves [OF a', of a2]] f an
    by (simp add: grant_def comp_def)
  have "null_idle (modify_account n (\<lambda>_. a2) ?d)"
    using inv null_idleD [OF _ a] r(2) f an
    by (auto simp: interest_inv_def null_idle_def modify_account_def list_all_iff modify_by_def)
  with m inv e show ?thesis
    by (auto simp: interest_inv_def moves_def balanced_def effect_defs)
qed

lemma votes_keep_econ: "adjust_proxied_witness_votes n d db = Inr db1 \<Longrightarrow> db_econ db1 = db_econ db"
  using differs_adjust_proxied_votes by (fastforce simp: adjust_proxied_witness_votes_def differs_in_votes_def)

lemma interest_step_inv:
  assumes run: "interest_step i st = Inr st'" and inv: "interest_inv c es st"
  shows "interest_inv c es st'"
proof -
  obtain inc db where st: "st = (inc, db)" by fastforce
  from run [unfolded st] obtain a r e inc' db1 a1 a2 where a: "find_by (\<lambda>a. int (acc_id a)) i (rows (db_accounts db)) = Some a"
    and draw: "(if head_block_num db > cfg_interest_delay (db_cfg db) then withdraw_interests (db_cfg db)
        (holdings_considered_for_interests a, min SOPHIATX_INTEREST_BLOCKS (head_block_num db)) (db_econ db)
        else Inr (0, db_econ db)) = Inr (r, e)"
    and inc': "(if r > 0 then safe_add inc r else Inr inc) = Inr inc'"
    and db1: "(if r > 0 \<and> has_hardfork 1 db then adjust_proxied_witness_votes (acc_name a) r (db\<lparr>db_econ := e\<rparr>)
        else Inr (db\<lparr>db_econ := e\<rparr>)) = Inr db1"
    and a1: "find_account (acc_name a) db1 = Some a1" and a2: "add_interest r a1 = Inr a2"
    and st': "st' = (inc', modify_account (acc_name a) (\<lambda>_. a2) db1)"
    by (auto simp: interest_step_def ebind_eq_Inr get_by_Inr get_account_Inr)
  have c: "db_cfg db = c" and ok: "interest_amounts_ok c (db_econ db)" and dist: "distinct (map acc_name (rows (db_accounts db)))"
    using inv by (auto simp: st interest_inv_def ledger_wf_def)
  note d = draw_interest [OF draw ok [folded c]]
  have fa: "find_account (acc_name a) db = Some a"
    using find_by_unique [OF dist] find_by_Some [OF a] by (simp add: find_account_def)
  have r0: "acc_name a = SOPHIATX_NULL_ACCOUNT \<Longrightarrow> r = 0"
    using null_idleD [OF _ fa] inv d by (auto simp: st interest_inv_def)
  have sum: "inc' = inc + r" using inc' d by (auto split: if_splits dest: safe_add_InrD)
  define db0 where "db0 = db1\<lparr>db_econ := db_econ db\<rparr>"
  have "db_econ db1 = e" using db1 votes_keep_econ by (auto split: if_splits)
  then have split1: "db1 = db0\<lparr>db_econ := e\<rparr>" by (simp add: db0_def)
  have "interest_inv c es (inc, db0)"
  proof (cases "r > 0 \<and> has_hardfork 1 db")
    case True
    then have v: "adjust_proxied_witness_votes (acc_name a) r (db\<lparr>db_econ := e\<rparr>) = Inr db1" using db1 by simp
    have l: "ledger db0 = ledger db" "purses db0 = purses db"
      using ledger_adjust_proxied_witness_votes [OF v] purses_adjust_proxied_votes [OF v [unfolded adjust_proxied_witness_votes_def]]
      by (auto simp: db0_def ledger_def purses_def)
    then show ?thesis
      using inv ledger_eqD [OF l(1)] by (simp add: st interest_inv_def null_idle_purses db0_def ledger_def)
  next
    case False
    then have "db0 = db" using db1 by (auto simp: db0_def)
    then show ?thesis using inv st by simp
  qed
  moreover have "find_account (acc_name a) db0 = Some a1" using a1 by (simp add: db0_def find_account_def)
  ultimately show ?thesis
    unfolding st' sum split1 using a2 r0 d c
    by (intro pay_interest) (auto simp: db0_def)
qed

lemma process_interests_inv:
  assumes run: "process_interests db = Inr db'" and inv: "ledger_inv db"
    and ok: "interest_amounts_ok (db_cfg db) (db_econ db)" "null_idle db"
  shows "ledger_inv db' \<and> null_idle db'"
proof -
  from run obtain inc db1 where loop: "efold interest_step (interest_ids db) (0, db) = Inr (inc, db1)"
    and sup: "adjust_supply (Asset inc (cfg_symbol (db_cfg db1))) db1 = Inr db'"
    by (auto simp: process_interests_def ebind_eq_Inr)
  have "interest_inv (db_cfg db) (rows (db_escrows db)) (0, db)"
    using inv ok by (simp add: interest_inv_def ledger_inv_def money_ok_def issue_def balanced_def)
  then have i1: "interest_inv (db_cfg db) (rows (db_escrows db)) (inc, db1)"
    by (rule efold_invariant [OF loop]) (rule interest_step_inv)
  have m: "moves (issue inc) db1 db'" using adjust_supply_moves [OF sup] by simp
  have "ledger_wf db'" "sheet_of db' = issue inc (sheet_of db1)" "db_cfg db' = db_cfg db"
    using m i1 by (simp_all add: moves_def interest_inv_def)
  then have "money_ok db'" using i1 unfolding money_ok_def interest_inv_def by simp
  moreover have "rows (db_escrows db') = rows (db_escrows db)"
    using adjust_supply_escrows [OF sup] i1 by (simp add: interest_inv_def)
  ultimately have "ledger_inv db'" using inv by (rule plain_inv)
  moreover have "rows (db_accounts db') = rows (db_accounts db1)"
    using sup by (auto simp: adjust_supply_def result_simps split: if_splits)
  then have "null_idle db'" using i1 by (simp add: interest_inv_def null_idle_def)
  ultimately show ?thesis by simp
qed

section \<open>Routines without effect on the ledger\<close>

lemma ledger_tables [simp]:
  "ledger (db\<lparr>db_feeds := f\<rparr>) = ledger db" "ledger (db\<lparr>db_hardfork := h\<rparr>) = ledger db"
  "ledger (db\<lparr>db_recovery_requests := rr\<rparr>) = ledger db" "ledger (db\<lparr>db_owner_history := oh\<rparr>) = ledger db"
  "ledger (db\<lparr>db_change_recovery := cr\<rparr>) = ledger db" "ledger (db\<lparr>db_witnesses := w\<rparr>) = ledger db"
  "ledger (db\<lparr>db_schedule := ws\<rparr>) = ledger db" "ledger (db\<lparr>db_transactions := ts\<rparr>) = ledger db"
  "ledger (db\<lparr>db_block_summary := bs\<rparr>) = ledger db"
  by (simp_all add: ledger_def)

lemma update_feed_ledger: "update_feed f db = Inr db' \<Longrightarrow> ledger db' = ledger db \<and> db_accounts db' = db_accounts db"
  by (auto simp: update_feed_def ebind_eq_Inr split: if_splits)

lemma update_median_feeds_ledger:
  assumes "update_median_feeds db = Inr db'"
  shows "ledger db' = ledger db \<and> db_accounts db' = db_accounts db"
proof (cases "head_block_num db mod cfg_blocks_per_hour (db_cfg db) = 0")
  case True
  with assms obtain feeds where "efold update_feed feeds db = Inr db'" by (auto simp: update_median_feeds_def ebind_eq_Inr)
  then show ?thesis by (rule efold_invariant) (auto dest: update_feed_ledger)
qed (use assms in \<open>simp add: update_median_feeds_def\<close>)

interpretation feeds: ledger_frame "\<lambda>_ :: unit. update_median_feeds"
  by unfold_locales (simp add: update_median_feeds_ledger)

interpretation recovery: ledger_frame "\<lambda>_ :: unit. account_recovery_processing"
proof unfold_locales
  fix x :: unit and db db'
  assume "account_recovery_processing db = Inr db'"
  then show "ledger db' = ledger db"
    unfolding account_recovery_processing_def Let_def
    by (rule efold_invariant)
      (auto simp: clear_owner_history_def clear_recovery_requests_def apply_recovery_change_def ebind_eq_Inr
        ledger_modify_account acct_money_def)
qed

lemma recalculate_all_votes_ledger: "recalculate_all_votes db = Inr db' \<Longrightarrow> ledger db' = ledger db"
  unfolding recalculate_all_votes_def Let_def
  by (erule efold_invariant) (auto simp: ebind_eq_Inr dest: ledger_adjust_proxied_witness_votes)

lemma apply_hardfork_ledger: "apply_hardfork hf db = Inr db' \<Longrightarrow> ledger db' = ledger db"
  by (auto simp: apply_hardfork_def ebind_eq_Inr split: if_splits dest: recalculate_all_votes_ledger)

lemma process_hardforks_ledger: "process_hardforks db = Inr db' \<Longrightarrow> ledger db' = ledger db"
proof (induction db rule: process_hardforks.induct)
  case (1 db)
  let ?hf = "db_hardfork db"
  show ?case
  proof (cases "hardfork_versions ! last_hardfork ?hf < next_hardfork ?hf \<and> next_hardfork_time ?hf \<le> head_block_time db")
    case True
    with "1.prems" obtain db1 where "last_hardfork ?hf < SOPHIATX_NUM_HARDFORKS"
      "apply_hardfork (Suc (last_hardfork ?hf)) db = Inr db1" "process_hardforks db1 = Inr db'"
      by (subst (asm) process_hardforks.simps) (auto simp: Let_def ebind_eq_Inr split: if_splits)
    then show ?thesis using "1.IH" [OF refl True] apply_hardfork_ledger by simp
  next
    case False
    with "1.prems" show ?thesis by (subst (asm) process_hardforks.simps) (auto simp: Let_def)
  qed
qed

interpretation hardforks: ledger_frame "\<lambda>_ :: unit. process_hardforks"
  by unfold_locales (rule process_hardforks_ledger)

section \<open>Expired escrows\<close>

lemma refund_keeps_others:
  assumes "escrow_refund n e db = Inr db'"
  shows "rows (db_escrows db') = remove_by esc_key (esc_key e) (rows (db_escrows db))"
  using assms adjust_balance_escrows
  by (auto simp: escrow_refund_def ebind_eq_Inr remove_escrow_def dest!: adjust_balance_escrows)

lemma expire_all_inv:
  assumes "efold (\<lambda>e. escrow_refund (esc_from e) e) es db = Inr db'" "ledger_inv db" "distinct (map esc_key es)"
    "set es \<subseteq> set (rows (db_escrows db))"
  shows "ledger_inv db'"
  using assms
proof (induction es arbitrary: db)
  case (Cons e es)
  from Cons.prems(1) obtain db1 where 1: "escrow_refund (esc_from e) e db = Inr db1"
    and rest: "efold (\<lambda>e. escrow_refund (esc_from e) e) es db1 = Inr db'" by (auto simp: ebind_eq_Inr)
  have e: "find_escrow (esc_from e) (escrow_id e) db = Some e"
    using Cons.prems(2,4) find_by_unique [OF ledger_inv_keys [OF Cons.prems(2)], of e]
    by (simp add: find_escrow_def esc_key_def)
  have "ledger_inv db1"
    using escrow_refund_money_ok [OF 1 e] Cons.prems(2) refund_keeps_others [OF 1]
    by (auto simp: ledger_inv_def escrows_settled_def list_all_iff remove_by_def)
  moreover have "set es \<subseteq> set (rows (db_escrows db1))"
    using Cons.prems(3,4) by (auto simp: refund_keeps_others [OF 1] remove_by_def) (metis image_eqI)
  ultimately show ?case using Cons.prems(3) by (intro Cons.IH [OF rest]) auto
qed simp

interpretation deadlines: ledger_keeper "\<lambda>_ :: unit. expire_escrow_ratification"
proof unfold_locales
  fix x :: unit and db db'
  assume run: "expire_escrow_ratification db = Inr db'" and inv: "ledger_inv db"
  have "distinct (map esc_key (expired_escrows db))"
    using ledger_inv_keys [OF inv] by (auto simp: expired_escrows_def distinct_map inj_on_def)
  moreover have "set (expired_escrows db) \<subseteq> set (rows (db_escrows db))" by (auto simp: expired_escrows_def)
  ultimately show "ledger_inv db'" using expire_all_inv [OF run [unfolded expire_escrow_ratification_def] inv] by simp
qed

section \<open>The end of a block\<close>

lemma clear_null_idle:
  assumes "clear_null_account_balance db = Inr db'" "null_idle db"
  shows "db' = db"
proof -
  from assms(1) obtain a where a: "find_account SOPHIATX_NULL_ACCOUNT db = Some a"
    by (auto simp: clear_null_account_balance_def clear_null_liquid_def ebind_eq_Inr get_account_Inr)
  from null_idleD [OF assms(2) a] assms(1) a show ?thesis
    by (auto simp: clear_null_account_balance_def clear_null_liquid_def clear_null_vests_def ebind_eq_Inr
        get_account_Inr split: if_splits)
qed

lemma finish_block_inv:
  assumes run: "finish_block bn db = Inr db'" and inv: "ledger_inv db"
    and ok: "interest_amounts_ok (db_cfg db) (db_econ db)" "null_idle db"
  shows "ledger_inv db'"
proof -
  have "ledger_inv db4" if pub: "process_interests db = Inr db1" "update_median_feeds db1 = Inr db2"
    "clear_null_account_balance db2 = Inr db3" "process_funds bn db3 = Inr db3'" "process_vesting_withdrawals db3' = Inr db4"
    for db1 db2 db3 db3' db4
  proof -
    have "ledger_inv db1 \<and> null_idle db1" using process_interests_inv [OF pub(1) inv ok] .
    moreover from this have "null_idle db2" using update_median_feeds_ledger [OF pub(2)] by (simp add: null_idle_def)
    ultimately have "ledger_inv db3" using feeds.keeps_inv [OF pub(2)] clear_null_idle [OF pub(3)] by simp
    then show ?thesis using process_funds_inv [OF pub(4)] withdrawals.keeps_inv [OF pub(5)] by simp
  qed
  then show ?thesis
    using run inv recovery.keeps_inv deadlines.keeps_inv hardforks.keeps_inv
    by (auto simp: finish_block_def ebind_eq_Inr split: if_splits)
qed

end
