(* ===== verification/Apply_Block.thy ===== *)
theory Apply_Block
  imports Maintenance_Ledger
begin

text \<open>
  \<^verbatim>\<open>database::_apply_block\<close> (\<^verbatim>\<open>libraries/chain/database.cpp\<close>) on the state of the chain, in three parts: up to
  the witness that signed (\<open>begin_block\<close>), the last irreversible block, and the rest (\<open>end_block\<close>).
  The conversions between account names and text that the source makes for the witness are the
  identity on the names of existing accounts and are left out. The \<^verbatim>\<open>assert\<close> of
  \<^verbatim>\<open>update_global_dynamic_data\<close> is an exception.
\<close>

section \<open>Header\<close>

definition apply_extension :: "account_name_type \<Rightarrow> block_header_extension \<Rightarrow> database \<Rightarrow> database result" where
  "apply_extension w ext db =
     (case ext of
        Ext_void \<Rightarrow> Inr db
      | Ext_version reported \<Rightarrow>
          ebind (get_witness w db) (\<lambda>wo.
            Inr (if reported \<noteq> running_version wo then modify_witness w (\<lambda>x. x\<lparr>running_version := reported\<rparr>) db else db))
      | Ext_hardfork_vote v t \<Rightarrow>
          ebind (get_witness w db) (\<lambda>wo.
            Inr (if v \<noteq> hardfork_version_vote wo \<or> t \<noteq> hardfork_time_vote wo
                 then modify_witness w (\<lambda>x. x\<lparr>hardfork_version_vote := v, hardfork_time_vote := t\<rparr>) db else db)))"

definition process_header_extensions :: "signed_block \<Rightarrow> database \<Rightarrow> database result" where
  "process_header_extensions b db = efold (apply_extension (blk_witness b)) (blk_extensions b) db"

definition validate_block_header :: "node \<Rightarrow> block_hashes \<Rightarrow> signed_block \<Rightarrow> database \<Rightarrow> witness_object result" where
  "validate_block_header nd hs b db =
     FC_ASSERT (head_block_id (db_dgp db) = previous b) ''''
     (FC_ASSERT (head_block_time db < timestamp b) ''''
     (ebind (get_witness (blk_witness b) db) (\<lambda>w.
      ebind (if skips nd skip_witness_signature then Inr True
             else validate_signee hs b (signing_key w) (has_hardfork 1 db)) (\<lambda>signed.
      FC_ASSERT signed ''''
      (if skips nd skip_witness_schedule_check then Inr w
       else
         let slot_num = get_slot_at_time (timestamp b) db in
         FC_ASSERT (slot_num > 0) ''''
         (FC_ASSERT (wit_owner w = get_scheduled_witness slot_num db) ''Witness produced block at wrong time''
         (Inr w)))))))"

text \<open>The exceptional roots of \<^verbatim>\<open>get_shared_db_merkle\<close>, as the numbers of their bytes, lowest first.\<close>

definition shared_db_merkle_roots :: "(int \<times> int) list" where
  "shared_db_merkle_roots =
     [(3705111, 306846512164117368505364937363290585216771395338),
      (3705120, 841009937320142859693903237874569111064468596512),
      (3713940, 543852902561501486574303198837146915453475326655),
      (3714132, 692391335766135866936286995475558021040212260840),
      (3714567, 1267286189022190173153148947154057568609648619333),
      (3714588, 754064641530614987920748537054301854772820787942),
      (4138790, 361097227834834788879506331270006080467910679286),
      (5435426, 947168452012899123412035183129559783664516280843)]"

definition check_merkle_root :: "node \<Rightarrow> block_hashes \<Rightarrow> signed_block \<Rightarrow> unit result" where
  "check_merkle_root nd hs b =
     (let root = calculate_merkle_root hs b in
      if skips nd skip_merkle_check \<or> transaction_merkle_root b = root \<or>
         map_of shared_db_merkle_roots (block_num b) = Some root
      then Inr () else Inl (Assert_exception ''Merkle check failed''))"

text \<open>Hardforks whose time has passed when the first block arrives.\<close>

definition genesis_hardforks :: "signed_block \<Rightarrow> database \<Rightarrow> database result" where
  "genesis_hardforks b db =
     (if block_num b \<noteq> 1 then Inr db
      else
        let n = length (takeWhile (\<lambda>t. \<not> t > timestamp b) (tl (hardfork_times (db_cfg db)))) in
        if n = 0 then Inr db
        else
          ebind (set_hardfork n db) (\<lambda>db1.
          FC_ASSERT (current_hardfork_version (db_hardfork db1) = hardfork_versions ! n) ''Unexpected genesis hardfork state''
          (Inr (db1\<lparr>db_witnesses := (db_witnesses db1)\<lparr>rows :=
             map (\<lambda>w. w\<lparr>running_version := hardfork_versions ! n, hardfork_version_vote := hardfork_versions ! n,
               hardfork_time_vote := hardfork_times (db_cfg db1) ! n\<rparr>) (rows (db_witnesses db1))\<rparr>\<rparr>))))"

section \<open>Global properties\<close>

text \<open>A witness that missed its slot, and the shutdown after a day without a block.\<close>

definition miss_block :: "signed_block \<Rightarrow> int \<Rightarrow> database \<Rightarrow> database result" where
  "miss_block b i db =
     ebind (get_witness (get_scheduled_witness (i + 1) db) db) (\<lambda>w.
       Inr (if wit_owner w \<noteq> blk_witness b
            then modify_witness (wit_owner w) (\<lambda>x.
              let x1 = x\<lparr>total_missed := u32 (total_missed x + 1)\<rparr> in
              if u64 (head_block_num db - last_confirmed_block_num x1) > cfg_blocks_per_day (db_cfg db)
              then x1\<lparr>signing_key := 0\<rparr> else x1) db
            else db))"

definition shift_slot :: "bool \<Rightarrow> int \<times> int \<Rightarrow> int \<times> int" where
  "shift_slot filled = (\<lambda>(participation, slots).
     let p1 = (participation - (if slots div 170141183460469231731687303715884105728 mod 2 = 1 then 1 else 0)) mod 256;
         s1 = u128 (u128 (2 * slots) + (if filled then 1 else 0));
         p2 = (p1 + (if filled then 1 else 0)) mod 256
     in (p2, s1))"

definition shift_slots :: "nat \<Rightarrow> int \<times> int \<Rightarrow> int \<times> int" where
  "shift_slots missed st = fold (\<lambda>i. shift_slot (i = 0)) [0..<Suc missed] st"

definition SOPHIATX_WITNESS_VESTING_INCREASE_DAYS :: int where "SOPHIATX_WITNESS_VESTING_INCREASE_DAYS = 96"

definition required_vesting :: "int \<Rightarrow> database \<Rightarrow> asset" where
  "required_vesting head db =
     (let c = db_cfg db;
          switch_block = (if has_hardfork 1 db then u32 (cfg_witness_vesting_increase_days_hf c * cfg_blocks_per_day c)
                          else u32 (SOPHIATX_WITNESS_VESTING_INCREASE_DAYS * cfg_blocks_per_day c))
      in Asset (if head \<ge> switch_block then cfg_final_witness_required_vesting_balance c
                else cfg_initial_witness_required_vesting_balance c) VESTS_SYMBOL)"

definition missed_slots :: "signed_block \<Rightarrow> database \<Rightarrow> nat result" where
  "missed_slots b db =
     (if head_block_time db = 0 then Inr 0
      else let slot = get_slot_at_time (timestamp b) db
           in FC_ASSERT (slot \<noteq> 0) ''missed_blocks != 0'' (Inr (nat (slot - 1))))"

definition advance_head :: "block_hashes \<Rightarrow> signed_block \<Rightarrow> nat \<Rightarrow> dynamic_global_property_object \<Rightarrow> dynamic_global_property_object" where
  "advance_head hs b missed d =
     (case shift_slots missed (participation_count d, recent_slots_filled d) of (participation, slots) \<Rightarrow>
        d\<lparr>participation_count := participation, recent_slots_filled := slots,
          head_block_number := block_num b, head_block_id := block_id hs b, dgp_time := timestamp b,
          current_aslot := u64 (current_aslot d + int missed + 1)\<rparr>)"

definition update_required_vesting :: "signed_block \<Rightarrow> database \<Rightarrow> database" where
  "update_required_vesting b db =
     (if is_private_net db then db
      else modify_dgp (\<lambda>d. d\<lparr>witness_required_vesting := required_vesting (block_num b) db\<rparr>) db)"

definition update_global_dynamic_data :: "node \<Rightarrow> block_hashes \<Rightarrow> signed_block \<Rightarrow> database \<Rightarrow> database result" where
  "update_global_dynamic_data nd hs b db =
     ebind (missed_slots b db) (\<lambda>missed.
     ebind (efold (miss_block b) (map int [0..<missed]) db) (\<lambda>db1.
     let db2 = update_required_vesting b (modify_dgp (advance_head hs b missed) db1) in
     ethrow_unless (skips nd skip_undo_history_check \<or>
         u32 (head_block_num db2 - last_irreversible_block_num (db_dgp db2)) < SOPHIATX_MAX_UNDO_HISTORY)
       Undo_database_exception (Inr db2)))"

definition update_signing_witness :: "account_name_type \<Rightarrow> signed_block \<Rightarrow> database \<Rightarrow> database" where
  "update_signing_witness w b db =
     (let aslot = u64 (current_aslot (db_dgp db) + get_slot_at_time (timestamp b) db)
      in modify_witness w (\<lambda>x. x\<lparr>last_aslot := aslot, last_confirmed_block_num := block_num b\<rparr>) db)"

definition create_block_summary :: "block_hashes \<Rightarrow> signed_block \<Rightarrow> database \<Rightarrow> database" where
  "create_block_summary hs b db =
     db\<lparr>db_block_summary := (db_block_summary db)(block_num b mod 65536 := block_id hs b)\<rparr>"

section \<open>The last irreversible block\<close>

text \<open>\<^verbatim>\<open>std::nth_element\<close> puts at its position what sorting would put there.\<close>

definition irreversible_offset :: "nat \<Rightarrow> nat" where
  "irreversible_offset n =
     nat ((SOPHIATX_100_PERCENT - SOPHIATX_IRREVERSIBLE_THRESHOLD) * int n div SOPHIATX_100_PERCENT)"

definition new_irreversible_block :: "database \<Rightarrow> database result" where
  "new_irreversible_block db =
     (let head = head_block_num db; c = db_cfg db in
      if head < cfg_start_miner_voting_block c then
        Inr (if head > cfg_max_witnesses c
             then modify_dgp (\<lambda>d. d\<lparr>last_irreversible_block_num := head - cfg_max_witnesses c\<rparr>) db else db)
      else
        ebind (scheduled_witnesses db) (\<lambda>ws.
        let lib = u32 (sort (map last_confirmed_block_num ws) ! irreversible_offset (length ws)) in
        Inr (if lib > last_irreversible_block_num (db_dgp db)
             then modify_dgp (\<lambda>d. d\<lparr>last_irreversible_block_num := lib\<rparr>) db else db)))"

section \<open>The block\<close>

definition apply_transactions :: "node \<Rightarrow> signed_block \<Rightarrow> database \<Rightarrow> database result" where
  "apply_transactions nd b db = efold (apply_transaction nd) (transactions b) db"

definition begin_block :: "node \<Rightarrow> block_hashes \<Rightarrow> signed_block \<Rightarrow> database \<Rightarrow> database result" where
  "begin_block nd hs b db =
     ebind (genesis_hardforks b db) (\<lambda>db0.
     ebind (check_merkle_root nd hs b) (\<lambda>_.
     ebind (validate_block_header nd hs b db0) (\<lambda>signing_witness.
     FC_ASSERT (block_pack_size hs b \<le> dgp_maximum_block_size (db_dgp db0)) ''Block Size is too Big''
     (let db1 = modify_dgp (\<lambda>d. d\<lparr>current_witness := blk_witness b\<rparr>) db0 in
      ebind (process_header_extensions b db1) (\<lambda>db2.
      ebind (get_witness (blk_witness b) db2) (\<lambda>w.
      FC_ASSERT (running_version w \<ge> current_hardfork_version (db_hardfork db2))
        ''Block produced by witness that is not running current hardfork''
      (ebind (apply_transactions nd b db2) (\<lambda>db3.
       ebind (update_global_dynamic_data nd hs b db3) (\<lambda>db4.
         Inr (update_signing_witness (wit_owner signing_witness) b db4))))))))))"

definition end_block :: "block_hashes \<Rightarrow> signed_block \<Rightarrow> database \<Rightarrow> database result" where
  "end_block hs b db =
     ebind (update_witness_schedule (clear_expired_transactions (create_block_summary hs b db))) (\<lambda>db1.
     ebind (finish_block (block_num b) db1) (\<lambda>db2.
       if is_private_net db2 then Inr db2
       else ebind (record_block (block_num b) (amount (current_supply (db_dgp db2))) (db_econ db2))
              (\<lambda>e. Inr (db2\<lparr>db_econ := e\<rparr>))))"

section \<open>Participation\<close>

primrec popcount :: "nat \<Rightarrow> int \<Rightarrow> int" where
  "popcount 0 x = 0"
| "popcount (Suc n) x = x mod 2 + popcount n (x div 2)"

lemma popcount_top: "popcount (Suc n) x = popcount n x + x div 2 ^ n mod 2"
proof (induction n arbitrary: x)
  case (Suc n)
  have "x div 2 div 2 ^ n = x div 2 ^ Suc n" by (simp add: zdiv_zmult2_eq)
  then show ?case using Suc.IH [of "x div 2"] by simp
qed simp

lemma popcount_mod: "popcount n (x mod 2 ^ n) = popcount n x"
proof (induction n arbitrary: x)
  case (Suc n)
  have e: "x mod 2 ^ Suc n = 2 * (x div 2 mod 2 ^ n) + x mod 2" using zmod_zmult2_eq [of "2 ^ n" x 2] by simp
  have "x mod 2 ^ Suc n div 2 = x div 2 mod 2 ^ n" "x mod 2 ^ Suc n mod 2 = x mod 2"
    unfolding e by simp_all
  then show ?case using Suc.IH [of "x div 2"] by simp
qed simp

lemma popcount_range: "0 \<le> popcount n x \<and> popcount n x \<le> int n"
proof (induction n arbitrary: x)
  case (Suc n)
  have "0 \<le> x mod 2" "x mod 2 \<le> 1" by presburger+
  with Suc.IH [of "x div 2"] show ?case by simp
qed simp

definition participation_ok :: "int \<times> int \<Rightarrow> bool" where
  "participation_ok = (\<lambda>(participation, slots). 0 \<le> slots \<and> participation = popcount 128 slots)"

lemma shift_slot_ok:
  assumes "participation_ok (p, x)"
  shows "participation_ok (shift_slot filled (p, x))"
proof -
  define f :: int where "f = (if filled then 1 else 0)"
  define t where "t = x div 2 ^ 127 mod 2"
  have f: "f = 0 \<or> f = 1" by (simp add: f_def)
  have t: "t = 0 \<or> t = 1" by (auto simp: t_def)
  have x: "0 \<le> x" "p = popcount 128 x" using assms by (simp_all add: participation_ok_def)
  have "popcount 128 x = popcount 127 x + t" using popcount_top [of 127 x] by (simp add: t_def)
  then have p: "p - t = popcount 127 x" using x by simp
  have "340282366920938463463374607431768211456 = 2 * (2 :: int) ^ 127" by simp
  then have two: "u128 (2 * x) = 2 * (x mod 2 ^ 127)" unfolding u128_def by (metis mod_mult_mult1)
  have "0 \<le> x mod 2 ^ 127" "x mod 2 ^ 127 < 2 ^ 127" by simp_all
  then have "0 \<le> 2 * (x mod 2 ^ 127) + f" "2 * (x mod 2 ^ 127) + f < 340282366920938463463374607431768211456"
    using f by auto
  then have s: "u128 (u128 (2 * x) + f) = 2 * (x mod 2 ^ 127) + f" 
    unfolding two by (simp only: u128_def mod_pos_pos_trivial)
  have "popcount 128 (2 * (x mod 2 ^ 127) + f) = f + popcount 127 (x mod 2 ^ 127)"
    using f popcount.simps(2) [of 127 "2 * (x mod 2 ^ 127) + f"] by auto
  then have c: "popcount 128 (2 * (x mod 2 ^ 127) + f) = p - t + f" using popcount_mod [of 127 x] p by simp
  have "(p - t) mod 256 = p - t" "((p - t) mod 256 + f) mod 256 = p - t + f"
    using p popcount_range [of 127 x] f by auto
  moreover have "shift_slot filled (p, x) = (((p - t) mod 256 + f) mod 256, u128 (u128 (2 * x) + f))"
    using t by (auto simp: shift_slot_def Let_def f_def t_def)
  ultimately show ?thesis using c s f by (auto simp: participation_ok_def)
qed

lemma shift_slots_ok: "participation_ok st \<Longrightarrow> participation_ok (shift_slots missed st)"
proof -
  have "participation_ok st \<Longrightarrow> participation_ok (fold (\<lambda>i. shift_slot (i = 0)) ks st)" for ks :: "nat list"
  proof (induction ks arbitrary: st)
    case (Cons k ks)
    obtain p x where "st = (p, x)" by fastforce
    with Cons show ?case by (simp add: shift_slot_ok)
  qed simp
  then show "participation_ok st \<Longrightarrow> participation_ok (shift_slots missed st)" unfolding shift_slots_def by blast
qed

lemma popcount_card: "popcount n x = int (card {i. i < n \<and> bit x i})"
proof (induction n arbitrary: x)
  case (Suc n)
  have "{i. i < Suc n \<and> bit x i} = (if odd x then {0} else {}) \<union> Suc ` {i. i < n \<and> bit (x div 2) i}"
    by (auto simp: bit_Suc less_Suc_eq_0_disj bit_0)
  then have "card {i. i < Suc n \<and> bit x i} = (if odd x then 1 else 0) + card {i. i < n \<and> bit (x div 2) i}"
    by (auto simp: card_image)
  then show ?case using Suc.IH [of "x div 2"] by (auto simp: odd_iff_mod_2_eq_one even_iff_mod_2_eq_zero)
qed simp

lemma shift_slot_field: "snd (shift_slot filled (p, x)) = (2 * x + (if filled then 1 else 0)) mod 2 ^ 128"
  by (auto simp: shift_slot_def Let_def u128_def mod_simps)

lemma shift_slots_field: "snd (shift_slots missed st) = ((2 * snd st + 1) * 2 ^ missed) mod 2 ^ 128"
proof -
  let ?z = "\<lambda>i :: nat. shift_slot (i = 0)"
  have zeros: "snd (fold ?z ks st) = (snd st * 2 ^ length ks) mod 2 ^ 128"
    if "0 \<notin> set ks" "snd st mod 2 ^ 128 = snd st" for ks st
    using that
  proof (induction ks arbitrary: st)
    case (Cons k ks)
    obtain p x where st: "st = (p, x)" by fastforce
    have x: "snd (shift_slot False (p, x)) = (2 * x) mod 2 ^ 128" by (simp only: shift_slot_field if_False add_0_right)
    then have "snd (fold ?z ks (shift_slot False (p, x))) = ((2 * x) mod 2 ^ 128 * 2 ^ length ks) mod 2 ^ 128"
      using Cons.IH [of "shift_slot False (p, x)"] Cons.prems(1) by simp
    also have "\<dots> = (x * 2 ^ length (k # ks)) mod 2 ^ 128" by (simp only: mod_mult_left_eq) (simp add: ac_simps)
    finally show ?case using Cons.prems(1) by (simp add: st)
  qed simp
  obtain p x where st: "st = (p, x)" by fastforce
  have u: "[0..<Suc missed] = 0 # [1..<Suc missed]" by (simp add: upt_rec)
  have f: "snd (shift_slot True (p, x)) = (2 * x + 1) mod 2 ^ 128" by (simp only: shift_slot_field if_True)
  have "snd (fold ?z [1..<Suc missed] (shift_slot True (p, x))) = (snd (shift_slot True (p, x)) * 2 ^ missed) mod 2 ^ 128"
    using zeros [of "[1..<Suc missed]" "shift_slot True (p, x)"] by (simp add: f del: upt_Suc)
  then show ?thesis unfolding shift_slots_def u fold_simps st f comp_apply by (simp add: mod_mult_left_eq f)
qed

section \<open>The head moves on\<close>

lemma miss_block_keeps: "miss_block b i db = Inr db' \<Longrightarrow> db_dgp db' = db_dgp db \<and> ledger db' = ledger db \<and> db_cfg db' = db_cfg db"
  by (auto simp: miss_block_def ebind_eq_Inr modify_witness_def)

lemma advance_head_fields:
  "head_block_number (advance_head hs b m d) = block_num b" "head_block_id (advance_head hs b m d) = block_id hs b"
  "dgp_time (advance_head hs b m d) = timestamp b" "current_supply (advance_head hs b m d) = current_supply d"
  "total_vesting_shares (advance_head hs b m d) = total_vesting_shares d" "private_net (advance_head hs b m d) = private_net d"
  "(participation_count (advance_head hs b m d), recent_slots_filled (advance_head hs b m d)) =
     shift_slots m (participation_count d, recent_slots_filled d)"
  "current_aslot (advance_head hs b m d) = u64 (current_aslot d + int m + 1)"
  by (simp_all add: advance_head_def split: prod.splits)

definition head_ok :: "database \<Rightarrow> bool" where
  "head_ok db \<longleftrightarrow> num_from_id (head_block_id (db_dgp db)) = head_block_number (db_dgp db)"

lemma global_data_head:
  assumes "update_global_dynamic_data nd hs b db = Inr db'"
  shows "head_block_number (db_dgp db') = block_num b \<and> head_block_id (db_dgp db') = block_id hs b \<and>
    dgp_time (db_dgp db') = timestamp b \<and> head_ok db' \<and> ledger db' = ledger db \<and>
    (participation_ok (participation_count (db_dgp db), recent_slots_filled (db_dgp db)) \<longrightarrow>
     participation_ok (participation_count (db_dgp db'), recent_slots_filled (db_dgp db')))"
proof -
  from assms obtain missed db1 where loop: "efold (miss_block b) (map int [0..<missed]) db = Inr db1"
    and db': "db' = update_required_vesting b (modify_dgp (advance_head hs b missed) db1)"
    by (auto simp: update_global_dynamic_data_def ebind_eq_Inr ethrow_unless_eq_Inr Let_def)
  from loop have 1: "db_dgp db1 = db_dgp db \<and> ledger db1 = ledger db"
    by (rule efold_invariant) (auto dest: miss_block_keeps)
  let ?d = "advance_head hs b missed (db_dgp db)"
  have d: "db_dgp db' = ?d \<or> (\<exists>v. db_dgp db' = ?d\<lparr>witness_required_vesting := v\<rparr>)"
    using 1 by (auto simp: db' update_required_vesting_def)
  have l: "ledger db' = ledger db"
    using 1 by (auto simp: db' update_required_vesting_def ledger_def advance_head_fields)
  from d show ?thesis
    using shift_slots_ok [of "(participation_count (db_dgp db), recent_slots_filled (db_dgp db))" missed] l
    by (auto simp: head_ok_def num_of_block_id advance_head_fields)
qed

text \<open>C33. What \<^verbatim>\<open>participation_count\<close> counts: a block moves the field \<^verbatim>\<open>recent_slots_filled\<close> of 128 bits by the slots since
  the head, with a one for its own slot followed by a zero for every slot missed before it, and the absolute slot by as many;
  \<^verbatim>\<open>participation_count\<close> stays the number of ones in the field, although the code updates the two separately. Because
  the one is shifted in before the zeros and not after them, the bits are not in the order of the slots: after 128 or more missed
  slots nothing is counted, the slot of the new block included.\<close>

theorem participation_counts_filled_slots:
  assumes "update_global_dynamic_data nd hs b db = Inr db'" "0 \<le> recent_slots_filled (db_dgp db)"
    "participation_count (db_dgp db) = int (card {i. i < 128 \<and> bit (recent_slots_filled (db_dgp db)) i})"
  defines "missed \<equiv> if head_block_time db = 0 then 0 else nat (get_slot_at_time (timestamp b) db - 1)"
  shows "recent_slots_filled (db_dgp db') = ((2 * recent_slots_filled (db_dgp db) + 1) * 2 ^ missed) mod 2 ^ 128 \<and>
    current_aslot (db_dgp db') = u64 (current_aslot (db_dgp db) + int missed + 1) \<and>
    participation_count (db_dgp db') = int (card {i. i < 128 \<and> bit (recent_slots_filled (db_dgp db')) i}) \<and>
    (128 \<le> missed \<longrightarrow> participation_count (db_dgp db') = 0)"
proof -
  from assms(1) obtain db1 m where m: "missed_slots b db = Inr m" and loop: "efold (miss_block b) (map int [0..<m]) db = Inr db1"
    and db': "db' = update_required_vesting b (modify_dgp (advance_head hs b m) db1)"
    by (auto simp: update_global_dynamic_data_def ebind_eq_Inr ethrow_unless_eq_Inr Let_def)
  have m: "m = missed" using m by (auto simp: missed_slots_def missed_def Let_def FC_ASSERT_eq_Inr split: if_splits)
  from loop have 1: "db_dgp db1 = db_dgp db"
    by (rule efold_invariant [where P = "\<lambda>t. db_dgp t = db_dgp db"]) (auto dest: miss_block_keeps)
  let ?d = "advance_head hs b missed (db_dgp db)"
  have d: "recent_slots_filled (db_dgp db') = recent_slots_filled ?d" "current_aslot (db_dgp db') = current_aslot ?d"
      "participation_count (db_dgp db') = participation_count ?d"
    using 1 m by (simp_all add: db' update_required_vesting_def modify_dgp_def)
  have field: "recent_slots_filled ?d = ((2 * recent_slots_filled (db_dgp db) + 1) * 2 ^ missed) mod 2 ^ 128"
    using shift_slots_field [of missed "(participation_count (db_dgp db), recent_slots_filled (db_dgp db))"]
      advance_head_fields(7) [of hs b missed "db_dgp db", THEN arg_cong [where f = snd]] by simp
  have ok: "participation_ok (participation_count ?d, recent_slots_filled ?d)"
    unfolding advance_head_fields(7) using assms(2,3) by (intro shift_slots_ok) (simp add: participation_ok_def popcount_card)
  have "participation_count ?d = 0" if "128 \<le> missed"
  proof -
    have "(2 :: int) ^ 128 dvd 2 ^ missed" using that by (rule le_imp_power_dvd)
    then have "recent_slots_filled ?d = 0" unfolding field by (simp only: dvd_imp_mod_0 dvd_mult)
    then show ?thesis using ok by (simp add: participation_ok_def popcount_card)
  qed
  then show ?thesis unfolding d using field ok by (simp add: participation_ok_def popcount_card advance_head_fields(8))
qed

section \<open>Irreversibility\<close>

lemma sorted_suffix_count:
  assumes "k < length xs"
  shows "length xs - k \<le> length (filter (\<lambda>x. sort xs ! k \<le> x) xs)"
proof -
  let ?s = "sort xs"
  have "filter (\<lambda>x. ?s ! k \<le> x) (drop k ?s) = drop k ?s"
    using assms by (auto simp: filter_id_conv in_set_conv_nth intro!: sorted_nth_mono)
  then have "length xs - k = length (filter (\<lambda>x. ?s ! k \<le> x) (drop k ?s))" by simp
  also have "\<dots> \<le> length (filter (\<lambda>x. ?s ! k \<le> x) (take k ?s @ drop k ?s))" by (simp only: filter_append length_append)
  also have "\<dots> = size (filter_mset (\<lambda>x. ?s ! k \<le> x) (mset ?s))" by (simp only: append_take_drop_id size_mset mset_filter [symmetric])
  also have "\<dots> = length (filter (\<lambda>x. ?s ! k \<le> x) xs)" by (simp only: mset_sort mset_filter [symmetric] size_mset)
  finally show ?thesis .
qed

lemma irreversible_offset_quarter: "irreversible_offset n = n div 4"
  by (simp add: irreversible_offset_def SOPHIATX_100_PERCENT_def SOPHIATX_IRREVERSIBLE_THRESHOLD_def SOPHIATX_1_PERCENT_def)

lemma sorted_prefix_count:
  assumes "k < length xs" "sort xs ! k < n"
  shows "length (filter (\<lambda>x. n \<le> x) xs) \<le> length xs - Suc k"
proof -
  let ?s = "sort xs"
  have "?s ! i < n" if "i \<le> k" for i using sorted_nth_mono [OF sorted_sort that] assms by force
  then have "filter (\<lambda>x. n \<le> x) (take (Suc k) ?s) = []" using assms(1)
    by (auto simp: filter_empty_conv in_set_conv_nth not_le less_Suc_eq_le)
  then have "length (filter (\<lambda>x. n \<le> x) (take (Suc k) ?s @ drop (Suc k) ?s)) = length (filter (\<lambda>x. n \<le> x) (drop (Suc k) ?s))"
    by (simp only: filter_append append_Nil)
  also have "\<dots> \<le> length xs - Suc k" using length_filter_le [of "\<lambda>x. n \<le> x" "drop (Suc k) ?s"] by simp
  finally have "size (filter_mset (\<lambda>x. n \<le> x) (mset ?s)) \<le> length xs - Suc k"
    by (simp only: append_take_drop_id size_mset mset_filter [symmetric])
  then show ?thesis by (simp only: mset_sort mset_filter [symmetric] size_mset)
qed

lemma voted_irreversible_block:
  assumes "new_irreversible_block db = Inr db'" "scheduled_witnesses db = Inr ws" "ws \<noteq> []"
    "cfg_start_miner_voting_block (db_cfg db) \<le> head_block_num db"
    "list_all (\<lambda>w. 0 \<le> last_confirmed_block_num w \<and> last_confirmed_block_num w < 2 ^ 32) ws"
  shows "last_irreversible_block_num (db_dgp db') =
    max (last_irreversible_block_num (db_dgp db)) (sort (map last_confirmed_block_num ws) ! (length ws div 4))"
proof -
  let ?x = "sort (map last_confirmed_block_num ws) ! (length ws div 4)"
  have "length ws div 4 < length ws" using assms(3) by (simp add: div_less_dividend)
  then have "?x \<in> set (map last_confirmed_block_num ws)" by (metis length_map length_sort nth_mem set_sort)
  then have "u32 ?x = ?x" using assms(5) by (auto simp: u32_def list_all_iff)
  then show ?thesis using assms(1,2,4) by (auto simp: new_irreversible_block_def Let_def irreversible_offset_quarter)
qed

text \<open>C13. The last irreversible block. Before voting takes over it follows the head at the distance of the maximal number of
  witnesses. Afterwards it never goes back; when it advances, at least three quarters of the scheduled witnesses have
  confirmed the new one, as the threshold of 75 percent demands; and every block that as many have confirmed is irreversible.
  The numbers the witnesses confirmed fit 32 bits, as block numbers do. The comment in the code still computes with a
  threshold of 70 percent: in its example seven of ten witnesses suffice.\<close>

theorem irreversible_block_confirmed:
  assumes "new_irreversible_block db = Inr db'" "scheduled_witnesses db = Inr ws" "ws \<noteq> []"
    "list_all (\<lambda>w. 0 \<le> last_confirmed_block_num w \<and> last_confirmed_block_num w < 2 ^ 32) ws"
  defines "lib \<equiv> last_irreversible_block_num (db_dgp db)" and "lib' \<equiv> last_irreversible_block_num (db_dgp db')"
    and "confirmed \<equiv> \<lambda>n. length (filter (\<lambda>w. n \<le> last_confirmed_block_num w) ws)"
  shows "if head_block_num db < cfg_start_miner_voting_block (db_cfg db)
    then lib' = (if cfg_max_witnesses (db_cfg db) < head_block_num db then head_block_num db - cfg_max_witnesses (db_cfg db) else lib)
    else lib \<le> lib' \<and> (lib' \<noteq> lib \<longrightarrow> 3 * length ws \<le> 4 * confirmed lib') \<and>
      (\<forall>n. 3 * length ws \<le> 4 * confirmed n \<longrightarrow> n \<le> lib')"
proof (cases "head_block_num db < cfg_start_miner_voting_block (db_cfg db)")
  case True
  then show ?thesis using assms(1) by (auto simp: new_irreversible_block_def Let_def lib_def lib'_def)
next
  case False
  let ?cs = "map last_confirmed_block_num ws" and ?k = "length ws div 4"
  let ?x = "sort ?cs ! ?k"
  have k: "?k < length ?cs" using assms(3) by (simp add: div_less_dividend)
  have count: "confirmed n = length (filter (\<lambda>c. n \<le> c) ?cs)" for n by (simp add: confirmed_def filter_map comp_def)
  have lib': "lib' = max lib ?x"
    unfolding lib_def lib'_def using False assms(4) by (intro voted_irreversible_block [OF assms(1-3)]) simp_all
  have enough: "3 * length ws \<le> 4 * confirmed ?x" using sorted_suffix_count [OF k] by (simp add: count)
  have most: "n \<le> ?x" if "3 * length ws \<le> 4 * confirmed n" for n
  proof (rule ccontr)
    assume "\<not> n \<le> ?x"
    then have "confirmed n \<le> length ?cs - Suc ?k" unfolding count by (intro sorted_prefix_count [OF k]) simp
    moreover have "length ws < 4 * Suc ?k" by simp
    ultimately show False using that k unfolding length_map by linarith
  qed
  from enough most show ?thesis using False by (auto simp: lib' max_def intro: order_trans [OF most])

qed

section \<open>A block keeps the ledger\<close>

lemma apply_extension_ledger: "apply_extension w e db = Inr db' \<Longrightarrow> ledger db' = ledger db"
  by (auto simp: apply_extension_def ebind_eq_Inr split: block_header_extension.splits if_splits)

lemma process_header_extensions_ledger: "process_header_extensions b db = Inr db' \<Longrightarrow> ledger db' = ledger db"
  unfolding process_header_extensions_def by (erule efold_invariant) (auto dest: apply_extension_ledger)

lemma set_hardfork_ledger: "set_hardfork n db = Inr db' \<Longrightarrow> ledger db' = ledger db"
  unfolding set_hardfork_def by (erule efold_invariant) (auto dest!: apply_hardfork_ledger)

lemma genesis_hardforks_ledger: "genesis_hardforks b db = Inr db' \<Longrightarrow> ledger db' = ledger db"
  by (auto simp: genesis_hardforks_def Let_def ebind_eq_Inr FC_ASSERT_eq_Inr split: if_splits dest: set_hardfork_ledger)

lemma ledger_inv_frame:
  assumes "ledger db' = ledger db" "ledger_inv db"
  shows "ledger_inv db'"
proof (rule plain_inv [OF _ _ assms(2)])
  show "money_ok db'" using ledger_eq_money_ok(3) [OF assms(1)] assms(2) by (simp add: ledger_inv_def)
  show "rows (db_escrows db') = rows (db_escrows db)" using assms(1) by (simp add: ledger_def)
qed

lemma ledger_modify_dgp:
  "(\<And>d. current_supply (f d) = current_supply d \<and> total_vesting_shares (f d) = total_vesting_shares d) \<Longrightarrow>
     ledger (modify_dgp f db) = ledger db"
  by (simp add: ledger_def modify_dgp_def)

lemma begin_block_inv:
  assumes "begin_block nd hs b db = Inr db'" "\<not> skips nd skip_validate" "ledger_inv db"
  shows "ledger_inv db'"
proof -
  from assms(1) obtain db0 db2 db3 db4 w where 0: "genesis_hardforks b db = Inr db0"
    and 2: "process_header_extensions b (modify_dgp (\<lambda>d. d\<lparr>current_witness := blk_witness b\<rparr>) db0) = Inr db2"
    and 3: "apply_transactions nd b db2 = Inr db3" and 4: "update_global_dynamic_data nd hs b db3 = Inr db4"
    and db': "db' = update_signing_witness w b db4"
    by (auto simp: begin_block_def ebind_eq_Inr FC_ASSERT_eq_Inr Let_def)
  have "ledger db2 = ledger db"
    using process_header_extensions_ledger [OF 2] genesis_hardforks_ledger [OF 0] by (simp add: ledger_modify_dgp)
  then have "ledger_inv db2" using assms(3) by (rule ledger_inv_frame)
  then have "ledger_inv db3"
    by (rule efold_invariant [OF 3 [unfolded apply_transactions_def]]) (use transaction_inv assms(2) in blast)
  moreover have "ledger db' = ledger db3" using global_data_head [OF 4] by (simp add: db' update_signing_witness_def Let_def)
  ultimately show ?thesis by (rule ledger_inv_frame [rotated])
qed

lemma new_irreversible_ledger: "new_irreversible_block db = Inr db' \<Longrightarrow> ledger db' = ledger db"
  by (auto simp: new_irreversible_block_def Let_def ebind_eq_Inr ledger_modify_dgp split: if_splits)

lemma mark_schedule_ledger: "ledger (mark_schedule s ws db) = ledger db"
  unfolding mark_schedule_def by (induction ws arbitrary: db) simp_all

lemma witness_schedule_ledger:
  assumes "update_witness_schedule db = Inr db'"
  shows "ledger db' = ledger db"
proof (cases "head_block_num db mod cfg_max_witnesses (db_cfg db) = 0")
  case True
  have adv: "ledger (snd st') = ledger (snd st)" if "advance_witness_time vt w st = Inr st'" for vt w st st'
    using that by (auto simp: advance_witness_time_def ebind_eq_Inr Let_def split: if_splits)
  have advs: "ledger (snd st') = ledger (snd st)" if "efold (advance_witness_time vt) ws st = Inr st'" for vt ws st st'
    using that by (rule efold_invariant) (auto dest: adv)
  have reset: "ledger d' = ledger d" if "reset_virtual_schedule_time d = Inr d'" for d d'
    using that unfolding reset_virtual_schedule_time_def Let_def
    by (rule efold_invariant) (auto simp: reset_witness_time_def ebind_eq_Inr)
  have vers: "ledger d' = ledger d" if "update_versions d = Inr (m, d')" for d m d'
    using that by (auto simp: update_versions_def Let_def ebind_eq_Inr)
  have med: "ledger d' = ledger d" if "update_median_witness_props d = Inr d'" for d d'
    using that by (auto simp: update_median_witness_props_def Let_def ebind_eq_Inr ledger_modify_dgp)
  from True assms have "update_witness_schedule4 db = Inr db'" by (simp add: update_witness_schedule_def)
  then obtain vt ws voted chosen overflow db2 db3 mj db4 wso where
    1: "efold (advance_witness_time vt) ws (False, mark_schedule Timeshare chosen (mark_schedule Top19 voted db)) = Inr (overflow, db2)"
    and 2: "(if overflow then reset_virtual_schedule_time db2 else Inr db2) = Inr db3"
    and 3: "update_versions db3 = Inr (mj, db4)" and 4: "update_median_witness_props (db4\<lparr>db_schedule := wso\<rparr>) = Inr db'"
    unfolding update_witness_schedule4_def Let_def by (auto simp: ebind_eq_Inr FC_ASSERT_eq_Inr)
  show ?thesis
    using advs [OF 1] reset [of db2 db3] 2 vers [OF 3] med [OF 4] by (auto simp: mark_schedule_ledger split: if_splits)
qed (use assms in \<open>simp add: update_witness_schedule_def\<close>)

text \<open>The state on which the end-of-block routines run.\<close>

definition prepare_end :: "block_hashes \<Rightarrow> signed_block \<Rightarrow> database \<Rightarrow> database result" where
  "prepare_end hs b db = update_witness_schedule (clear_expired_transactions (create_block_summary hs b db))"

lemma prepare_end_ledger: "prepare_end hs b db = Inr db' \<Longrightarrow> ledger db' = ledger db"
  unfolding prepare_end_def
  by (drule witness_schedule_ledger) (simp add: clear_expired_transactions_def create_block_summary_def)

lemma record_block_ledger: "record_block n s (db_econ db) = Inr e \<Longrightarrow> ledger (db\<lparr>db_econ := e\<rparr>) = ledger db"
  using record_block_total by (simp add: ledger_def)

lemma end_block_inv:
  assumes "end_block hs b db = Inr db'" "ledger_inv db"
    and "\<And>d. prepare_end hs b db = Inr d \<Longrightarrow> interest_amounts_ok (db_cfg d) (db_econ d) \<and> null_idle d"
  shows "ledger_inv db'"
proof -
  from assms(1) obtain db1 db2 where 1: "prepare_end hs b db = Inr db1" and 2: "finish_block (block_num b) db1 = Inr db2"
    and 3: "db' = db2 \<or> (\<exists>e. record_block (block_num b) (amount (current_supply (db_dgp db2))) (db_econ db2) = Inr e \<and> db' = db2\<lparr>db_econ := e\<rparr>)"
    by (auto simp: end_block_def prepare_end_def ebind_eq_Inr split: if_splits)
  have "ledger_inv db2"
    using finish_block_inv [OF 2 ledger_inv_frame [OF prepare_end_ledger [OF 1] assms(2)]] assms(3) [OF 1] by simp
  with 3 record_block_ledger show ?thesis by (auto intro: ledger_inv_frame)
qed

section \<open>Who may produce a block\<close>

lemma begin_block_header:
  assumes "begin_block nd hs b db = Inr db'"
  obtains db0 w where "genesis_hardforks b db = Inr db0" "validate_block_header nd hs b db0 = Inr w"
    "check_merkle_root nd hs b = Inr ()"
  using assms by (auto simp: begin_block_def ebind_eq_Inr)

lemma apply_hardfork_dgp: "apply_hardfork hf db = Inr db' \<Longrightarrow> db_dgp db' = db_dgp db"
proof -
  have "db_dgp d' = db_dgp d" if "recalculate_all_votes d = Inr d'" for d d'
    using that unfolding recalculate_all_votes_def Let_def
    by (rule efold_invariant [where P = "\<lambda>t. db_dgp t = db_dgp d"])
      (auto simp: ebind_eq_Inr adjust_proxied_witness_votes_def differs_in_votes_def dest!: differs_adjust_proxied_votes)
  then show "apply_hardfork hf db = Inr db' \<Longrightarrow> db_dgp db' = db_dgp db"
    by (auto simp: apply_hardfork_def ebind_eq_Inr split: if_splits)
qed

lemma genesis_hardforks_dgp:
  assumes "genesis_hardforks b db = Inr db'"
  shows "db_dgp db' = db_dgp db"
proof -
  have "db_dgp d' = db_dgp d" if "set_hardfork n d = Inr d'" for n d d'
    using that unfolding set_hardfork_def
    by (rule efold_invariant [where P = "\<lambda>t. db_dgp t = db_dgp d"]) (auto dest!: apply_hardfork_dgp)
  then show ?thesis
    using assms by (auto simp: genesis_hardforks_def Let_def ebind_eq_Inr FC_ASSERT_eq_Inr split: if_splits)
qed

text \<open>C4. A block is accepted only from the witness whose turn it is: without skipped checks the block builds on the
  head, is younger than it, carries the Merkle root of its transactions (or its height is one of eight recorded ones and the
  root of its transactions is the recorded one), falls into a slot after the head, is signed with the key of its witness, and
  that witness is the scheduled one of the slot. Witness, slot and schedule are those of the state before the
  block; for block 1 those after the hardforks whose time had passed at the genesis.\<close>

theorem block_producer_checked:
  assumes "begin_block nd hs b db = Inr db'" "skip nd = []"
  shows "previous b = head_block_id (db_dgp db) \<and> head_block_time db < timestamp b \<and>
    (transaction_merkle_root b = calculate_merkle_root hs b \<or>
     map_of shared_db_merkle_roots (block_num b) = Some (calculate_merkle_root hs b)) \<and>
    (\<exists>db0 w. genesis_hardforks b db = Inr db0 \<and> (block_num b \<noteq> 1 \<longrightarrow> db0 = db) \<and>
       find_witness (blk_witness b) db0 = Some w \<and> block_signee hs b (has_hardfork 1 db0) = Inr (signing_key w) \<and>
       0 < get_slot_at_time (timestamp b) db0 \<and> blk_witness b = get_scheduled_witness (get_slot_at_time (timestamp b) db0) db0)"
proof -
  from assms(1) obtain db0 w where 0: "genesis_hardforks b db = Inr db0" and v: "validate_block_header nd hs b db0 = Inr w"
    and m: "check_merkle_root nd hs b = Inr ()"
    by (rule begin_block_header)
  have "db_dgp db0 = db_dgp db" "head_block_time db0 = head_block_time db"
    using genesis_hardforks_dgp [OF 0] by (simp_all add: head_block_time_def)
  moreover have "block_num b \<noteq> 1 \<longrightarrow> db0 = db" using 0 by (auto simp: genesis_hardforks_def)
  moreover have "wit_owner w = blk_witness b" if "find_witness (blk_witness b) db0 = Some w" for w
    using that find_by_Some unfolding find_witness_def by fastforce
  ultimately show ?thesis
    using v m 0 assms(2)
    by (auto simp: validate_block_header_def check_merkle_root_def skips_def Let_def ebind_eq_Inr FC_ASSERT_eq_Inr
        validate_signee_def get_witness_Inr split: if_splits)
qed

text \<open>The chain grows by one: if the number of the head is the one in its id, then after a block the new head
  has the next number, carries the id and the time of the block, and its number is again the one in
  its id.\<close>

theorem block_extends_head:
  assumes "begin_block nd hs b db = Inr db'" "head_ok db" "head_block_number (db_dgp db) < 4294967295"
    "0 \<le> head_block_number (db_dgp db)"
  shows "head_block_number (db_dgp db') = head_block_number (db_dgp db) + 1 \<and>
    head_block_id (db_dgp db') = block_id hs b \<and> head_block_time db' = timestamp b \<and> head_ok db'"
proof -
  from assms(1) obtain db0 w db3 db4 where 0: "genesis_hardforks b db = Inr db0" and v: "validate_block_header nd hs b db0 = Inr w"
    and 4: "update_global_dynamic_data nd hs b db3 = Inr db4" and db': "db' = update_signing_witness (wit_owner w) b db4"
    by (auto simp: begin_block_def ebind_eq_Inr FC_ASSERT_eq_Inr Let_def)
  have "previous b = head_block_id (db_dgp db)"
    using genesis_hardforks_dgp [OF 0] v by (simp add: validate_block_header_def FC_ASSERT_eq_Inr)
  then have "block_num b = head_block_number (db_dgp db) + 1"
    using assms(2-4) by (simp add: block_num_def head_ok_def u32_def)
  moreover have "db_dgp db' = db_dgp db4" by (simp add: db' update_signing_witness_def Let_def modify_witness_def)
  ultimately show ?thesis
    using global_data_head [OF 4] by (simp add: head_block_time_def head_ok_def num_of_block_id)
qed

end
