(* ===== verification/Fork_Database.thy ===== *)
theory Fork_Database
  imports Blocks
begin

text \<open>
  \<^verbatim>\<open>libraries/chain/fork_database.cpp\<close>: the tree of recent blocks. Items are shared objects linked
  by weak pointers, so the model gives every item an address; \<open>lock\<close> yields the object at an
  address as long as the index or the head keeps it alive. The cache of unlinked blocks never gets an
  element (the exception is rethrown before the insertion) and \<^verbatim>\<open>_push_next\<close> is never called; both
  are left out.
\<close>

section \<open>Items and the tree\<close>

record fork_item =
  it_prev :: "nat option"
  it_num :: int
  it_invalid :: bool
  it_id :: block_id_type
  it_data :: signed_block

definition new_item :: "block_hashes \<Rightarrow> signed_block \<Rightarrow> fork_item" where
  "new_item hs b = \<lparr>it_prev = None, it_num = block_num b, it_invalid = False, it_id = block_id hs b, it_data = b\<rparr>"

definition previous_id :: "fork_item \<Rightarrow> block_id_type" where
  "previous_id it = previous (it_data it)"

type_synonym item_ptr = "nat \<times> fork_item"

record fork_database =
  fd_index :: "item_ptr list"
  fd_head :: "item_ptr option"
  fd_max_size :: int
  fd_fresh :: nat

definition empty_fork_database :: fork_database where
  "empty_fork_database = \<lparr>fd_index = [], fd_head = None, fd_max_size = 1024, fd_fresh = 0\<rparr>"

text \<open>The objects that are alive, and \<^verbatim>\<open>weak_ptr::lock\<close>.\<close>

definition alive :: "fork_database \<Rightarrow> item_ptr list" where
  "alive fd = fd_index fd @ (case fd_head fd of None \<Rightarrow> [] | Some p \<Rightarrow> [p])"

definition lock :: "fork_database \<Rightarrow> nat \<Rightarrow> item_ptr option" where
  "lock fd h = find (\<lambda>p. fst p = h) (alive fd)"

definition parent :: "fork_database \<Rightarrow> item_ptr \<Rightarrow> item_ptr option" where
  "parent fd p = (case it_prev (snd p) of None \<Rightarrow> None | Some h \<Rightarrow> lock fd h)"

definition find_id :: "block_id_type \<Rightarrow> fork_database \<Rightarrow> item_ptr option" where
  "find_id i fd = find (\<lambda>p. it_id (snd p) = i) (fd_index fd)"

section \<open>Operations\<close>

definition reset :: "fork_database \<Rightarrow> fork_database" where
  "reset fd = fd\<lparr>fd_head := None, fd_index := []\<rparr>"

definition insert_item :: "item_ptr \<Rightarrow> item_ptr list \<Rightarrow> item_ptr list" where
  "insert_item p idx = (if \<exists>q \<in> set idx. it_id (snd q) = it_id (snd p) then idx else idx @ [p])"

definition start_block :: "block_hashes \<Rightarrow> signed_block \<Rightarrow> fork_database \<Rightarrow> fork_database" where
  "start_block hs b fd =
     (let p = (fd_fresh fd, new_item hs b) in
      fd\<lparr>fd_index := insert_item p (fd_index fd), fd_head := Some p, fd_fresh := Suc (fd_fresh fd)\<rparr>)"

definition pop_block :: "fork_database \<Rightarrow> fork_database result" where
  "pop_block fd =
     (case fd_head fd of
        None \<Rightarrow> Inl (Assert_exception ''cannot pop an empty fork database'')
      | Some p \<Rightarrow>
          (case parent fd p of
             None \<Rightarrow> Inl (Assert_exception ''popping head block would leave fork DB empty'')
           | Some q \<Rightarrow> Inr (fd\<lparr>fd_head := Some q\<rparr>)))"

definition link_item :: "fork_item \<Rightarrow> fork_database \<Rightarrow> fork_item result" where
  "link_item it fd =
     (if fd_head fd \<noteq> None \<and> previous_id it \<noteq> 0 then
        (case find_id (previous_id it) fd of
           None \<Rightarrow> Inl Unlinkable_block_exception
         | Some q \<Rightarrow> FC_ASSERT (\<not> it_invalid (snd q)) '''' (Inr (it\<lparr>it_prev := Some (fst q)\<rparr>)))
      else Inr it)"

definition push_block :: "block_hashes \<Rightarrow> signed_block \<Rightarrow> fork_database \<Rightarrow> (item_ptr \<times> fork_database) result" where
  "push_block hs b fd =
     (let item = new_item hs b in
      FC_ASSERT (case fd_head fd of None \<Rightarrow> True
                 | Some hp \<Rightarrow> it_num item > max 0 (it_num (snd hp) - fd_max_size fd))
        ''attempting to push a block that is too old''
      (ebind (link_item item fd) (\<lambda>it.
       let p = (fd_fresh fd, it);
           head = (case fd_head fd of None \<Rightarrow> p | Some hp \<Rightarrow> if it_num it > it_num (snd hp) then p else hp)
       in Inr (head, fd\<lparr>fd_index := insert_item p (fd_index fd), fd_head := Some head, fd_fresh := Suc (fd_fresh fd)\<rparr>))))"

text \<open>The index by number is sorted, so the loop from its front erases exactly the low numbers.\<close>

definition set_max_size :: "int \<Rightarrow> fork_database \<Rightarrow> fork_database" where
  "set_max_size s fd =
     (case fd_head fd of
        None \<Rightarrow> fd\<lparr>fd_max_size := s\<rparr>
      | Some hp \<Rightarrow> fd\<lparr>fd_max_size := s,
          fd_index := filter (\<lambda>p. \<not> it_num (snd p) < max 0 (it_num (snd hp) - s)) (fd_index fd)\<rparr>)"

definition is_known_block :: "block_id_type \<Rightarrow> fork_database \<Rightarrow> bool" where
  "is_known_block i fd \<longleftrightarrow> find_id i fd \<noteq> None"

definition fetch_block :: "block_id_type \<Rightarrow> fork_database \<Rightarrow> item_ptr option" where
  "fetch_block i fd = find_id i fd"

definition fetch_block_by_number :: "int \<Rightarrow> fork_database \<Rightarrow> item_ptr list" where
  "fetch_block_by_number n fd = filter (\<lambda>p. it_num (snd p) = n) (fd_index fd)"

text \<open>The first two loops of \<^verbatim>\<open>fetch_branch_from\<close>: climb down until the number is at most \<open>n\<close>.\<close>

fun descend :: "nat \<Rightarrow> fork_database \<Rightarrow> int \<Rightarrow> item_ptr \<Rightarrow> item_ptr list \<Rightarrow> (item_ptr \<times> item_ptr list) result" where
  "descend 0 fd n p acc = Inl Out_of_fuel"
| "descend (Suc fuel) fd n p acc =
     (if block_num (it_data (snd p)) > n then
        (case parent fd p of
           None \<Rightarrow> Inl (Assert_exception '''')
         | Some q \<Rightarrow> descend fuel fd n q (acc @ [p]))
      else Inr (p, acc))"

text \<open>The third loop: both branches together, until they build on the same block.\<close>

fun descend_both :: "nat \<Rightarrow> fork_database \<Rightarrow> item_ptr \<Rightarrow> item_ptr \<Rightarrow> item_ptr list \<Rightarrow> item_ptr list
    \<Rightarrow> (item_ptr list \<times> item_ptr list) result" where
  "descend_both 0 fd p q ps qs = Inl Out_of_fuel"
| "descend_both (Suc fuel) fd p q ps qs =
     (if previous_id (snd p) \<noteq> previous_id (snd q) then
        (case parent fd p of
           None \<Rightarrow> Inl (Assert_exception '''')
         | Some p' \<Rightarrow>
             (case parent fd q of
                None \<Rightarrow> Inl (Assert_exception '''')
              | Some q' \<Rightarrow> descend_both fuel fd p' q' (ps @ [p]) (qs @ [q])))
      else Inr (ps @ [p], qs @ [q]))"

text \<open>Addresses grow with time and links point to older items, so the number of addresses given out
  bounds every walk.\<close>

definition fetch_branch_from :: "block_id_type \<Rightarrow> block_id_type \<Rightarrow> fork_database
    \<Rightarrow> (item_ptr list \<times> item_ptr list) result" where
  "fetch_branch_from a b fd =
     (let fuel = Suc (fd_fresh fd) in
      case find_id a fd of
        None \<Rightarrow> Inl (Assert_exception '''')
      | Some p \<Rightarrow>
          (case find_id b fd of
             None \<Rightarrow> Inl (Assert_exception '''')
           | Some q \<Rightarrow>
               ebind (descend fuel fd (block_num (it_data (snd q))) p []) (\<lambda>(p1, ps).
               ebind (descend fuel fd (block_num (it_data (snd p1))) q []) (\<lambda>(q1, qs).
                 descend_both fuel fd p1 q1 ps qs))))"

fun walk_to_num :: "nat \<Rightarrow> fork_database \<Rightarrow> int \<Rightarrow> item_ptr option \<Rightarrow> item_ptr option result" where
  "walk_to_num 0 fd n p = Inl Out_of_fuel"
| "walk_to_num (Suc fuel) fd n p =
     (case p of
        None \<Rightarrow> Inr None
      | Some q \<Rightarrow> if it_num (snd q) > n then walk_to_num fuel fd n (parent fd q) else Inr (Some q))"

definition walk_main_branch_to_num :: "int \<Rightarrow> fork_database \<Rightarrow> item_ptr option result" where
  "walk_main_branch_to_num n fd =
     (case fd_head fd of
        None \<Rightarrow> Inl Null_dereference
      | Some hp \<Rightarrow> if n > it_num (snd hp) then Inr None else walk_to_num (Suc (Suc (fd_fresh fd))) fd n (Some hp))"

definition fetch_block_on_main_branch_by_number :: "int \<Rightarrow> fork_database \<Rightarrow> item_ptr option result" where
  "fetch_block_on_main_branch_by_number n fd =
     (case fetch_block_by_number n fd of
        [] \<Rightarrow> Inr None
      | [p] \<Rightarrow> Inr (Some p)
      | _ \<Rightarrow> walk_main_branch_to_num n fd)"

definition set_head :: "item_ptr \<Rightarrow> fork_database \<Rightarrow> fork_database" where
  "set_head p fd = fd\<lparr>fd_head := Some p\<rparr>"

definition remove_block :: "block_id_type \<Rightarrow> fork_database \<Rightarrow> fork_database" where
  "remove_block i fd = fd\<lparr>fd_index := filter (\<lambda>p. it_id (snd p) \<noteq> i) (fd_index fd)\<rparr>"

section \<open>The shape of the tree\<close>

text \<open>An object has one address, a link points to an older address, and where the object there is alive
  it is the block this one builds on.\<close>

definition link_ok :: "item_ptr list \<Rightarrow> item_ptr \<Rightarrow> bool" where
  "link_ok al p \<longleftrightarrow> (\<forall>h. it_prev (snd p) = Some h \<longrightarrow>
     h < fst p \<and> (\<forall>q \<in> set al. fst q = h \<longrightarrow> it_id (snd q) = previous_id (snd p)))"

definition item_ok :: "block_hashes \<Rightarrow> nat \<Rightarrow> item_ptr \<Rightarrow> bool" where
  "item_ok hs fresh p \<longleftrightarrow> fst p < fresh \<and> it_num (snd p) = block_num (it_data (snd p)) \<and>
     it_id (snd p) = block_id hs (it_data (snd p))"

definition fork_ok :: "block_hashes \<Rightarrow> fork_database \<Rightarrow> bool" where
  "fork_ok hs fd \<longleftrightarrow> (\<forall>p \<in> set (alive fd). item_ok hs (fd_fresh fd) p \<and> link_ok (alive fd) p) \<and>
     (\<forall>p \<in> set (alive fd). \<forall>q \<in> set (alive fd). fst p = fst q \<longrightarrow> p = q)"

lemma set_alive: "set (alive fd) = set (fd_index fd) \<union> set_option (fd_head fd)"
  by (auto simp: alive_def split: option.splits)

text \<open>Everything that only drops objects, or moves the head to a live object, keeps the shape.\<close>

lemma fork_ok_mono:
  assumes "fork_ok hs fd" "set (alive fd') \<subseteq> set (alive fd)" "fd_fresh fd' = fd_fresh fd"
  shows "fork_ok hs fd'"
proof -
  have "link_ok (alive fd') p" if "link_ok (alive fd) p" for p using that assms(2) by (auto simp: link_ok_def)
  then show ?thesis using assms unfolding fork_ok_def by (metis subsetD)
qed

lemma find_id_Some: "find_id i fd = Some p \<Longrightarrow> p \<in> set (fd_index fd) \<and> it_id (snd p) = i"
  by (auto simp: find_id_def find_Some_iff)

lemma lock_Some: "lock fd h = Some p \<Longrightarrow> p \<in> set (alive fd) \<and> fst p = h"
  by (auto simp: lock_def find_Some_iff)

lemma parent_Some:
  assumes "fork_ok hs fd" "p \<in> set (alive fd)" "parent fd p = Some q"
  shows "q \<in> set (alive fd) \<and> fst q < fst p \<and> it_id (snd q) = previous_id (snd p)"
  using assms lock_Some [of fd _ q] by (auto simp: parent_def fork_ok_def link_ok_def split: option.splits)

text \<open>The object pushed: a fresh address, linked to a live object with the right id.\<close>

lemma fork_ok_add:
  assumes ok: "fork_ok hs fd" and it: "item_ok hs (Suc (fd_fresh fd)) (fd_fresh fd, it)"
    and link: "\<And>h. it_prev it = Some h \<Longrightarrow> \<exists>q \<in> set (alive fd). fst q = h \<and> it_id (snd q) = previous_id it"
    and sub: "set (alive fd') \<subseteq> insert (fd_fresh fd, it) (set (alive fd))" and fresh: "fd_fresh fd' = Suc (fd_fresh fd)"
  shows "fork_ok hs fd'"
proof -
  let ?new = "(fd_fresh fd, it)"
  have old: "fst p < fd_fresh fd" if "p \<in> set (alive fd)" for p using ok that by (auto simp: fork_ok_def item_ok_def)
  have uniq: "p = q" if "p \<in> insert ?new (set (alive fd))" "q \<in> insert ?new (set (alive fd))" "fst p = fst q" for p q
    using that ok old [of p] old [of q] by (auto simp: fork_ok_def)
  have lnk: "link_ok (alive fd') p" if "p \<in> insert ?new (set (alive fd))" for p
    unfolding link_ok_def
  proof (intro allI impI)
    fix h assume h: "it_prev (snd p) = Some h"
    have *: "h < fst p \<and> (\<forall>q \<in> set (alive fd). fst q = h \<longrightarrow> it_id (snd q) = previous_id (snd p))"
    proof (cases "p = ?new")
      case True
      with link h obtain q where q: "q \<in> set (alive fd)" "fst q = h" "it_id (snd q) = previous_id (snd p)" by auto
      have "r = q" if "r \<in> set (alive fd)" "fst r = h" for r using uniq [of r q] q that by simp
      with q old [of q] True show ?thesis by fastforce
    next
      case False
      with that ok h show ?thesis by (auto simp: fork_ok_def link_ok_def)
    qed
    moreover have "h \<noteq> fd_fresh fd" using * that old [of p] by (cases "p = ?new") auto
    ultimately show "h < fst p \<and> (\<forall>q \<in> set (alive fd'). fst q = h \<longrightarrow> it_id (snd q) = previous_id (snd p))"
      using sub by auto
  qed
  have "item_ok hs (fd_fresh fd') p" if "p \<in> insert ?new (set (alive fd))" for p
    using that it ok fresh by (auto simp: fork_ok_def item_ok_def)
  then show ?thesis unfolding fork_ok_def using lnk uniq sub by (meson subsetD)
qed

lemma push_block_ok:
  assumes "fork_ok hs fd" "push_block hs b fd = Inr (head, fd')"
  shows "fork_ok hs fd'"
proof -
  from assms(2) obtain it where it: "link_item (new_item hs b) fd = Inr it"
    and fd': "fd' = fd\<lparr>fd_index := insert_item (fd_fresh fd, it) (fd_index fd), fd_head := Some head, fd_fresh := Suc (fd_fresh fd)\<rparr>"
    and head: "head = (fd_fresh fd, it) \<or> fd_head fd = Some head"
    by (auto simp: push_block_def Let_def ebind_eq_Inr FC_ASSERT_eq_Inr split: option.splits if_splits)
  from it have prev: "it_prev it = Some h \<Longrightarrow> \<exists>q \<in> set (alive fd). fst q = h \<and> it_id (snd q) = previous_id it" for h
  proof -
    assume "it_prev it = Some h"
    with it obtain q where "find_id (previous_id it) fd = Some q" "fst q = h"
      by (auto simp: link_item_def FC_ASSERT_eq_Inr new_item_def previous_id_def split: if_splits option.splits)
    with find_id_Some [of "previous_id it" fd q] show ?thesis by (auto simp: set_alive)
  qed
  have "item_ok hs (Suc (fd_fresh fd)) (fd_fresh fd, it)"
    using it by (auto simp: link_item_def FC_ASSERT_eq_Inr new_item_def item_ok_def split: if_splits option.splits)
  then show ?thesis
    by (rule fork_ok_add [OF assms(1) _ prev]) (use head in \<open>auto simp: fd' set_alive insert_item_def\<close>)
qed

text \<open>The tree as a step relation: the operations the chain performs on it.\<close>

inductive fork_step :: "block_hashes \<Rightarrow> fork_database \<Rightarrow> fork_database \<Rightarrow> bool" for hs where
  Push: "push_block hs b fd = Inr (head, fd') \<Longrightarrow> fork_step hs fd fd'"
| Pop: "pop_block fd = Inr fd' \<Longrightarrow> fork_step hs fd fd'"
| Start: "fork_step hs fd (start_block hs b fd)"
| Shrink: "fork_step hs fd (set_max_size s fd)"
| Set_head: "p \<in> set (alive fd) \<Longrightarrow> fork_step hs fd (set_head p fd)"
| Remove_block: "fork_step hs fd (remove_block i fd)"
| Reset: "fork_step hs fd (reset fd)"

inductive fork_reachable :: "block_hashes \<Rightarrow> fork_database \<Rightarrow> bool" for hs where
  Empty: "fork_reachable hs empty_fork_database"
| Step: "fork_reachable hs fd \<Longrightarrow> fork_step hs fd fd' \<Longrightarrow> fork_reachable hs fd'"

inductive_cases fork_stepE: "fork_step hs fd fd'"

lemma fork_step_ok:
  assumes "fork_step hs fd fd'" "fork_ok hs fd"
  shows "fork_ok hs fd'"
  using assms
proof (cases rule: fork_step.cases)
  case (Push b head)
  then show ?thesis using push_block_ok [OF assms(2)] by blast
next
  case Pop
  then obtain p q where "fd_head fd = Some p" "parent fd p = Some q" "fd' = fd\<lparr>fd_head := Some q\<rparr>"
    by (auto simp: pop_block_def split: option.splits)
  with parent_Some [OF assms(2), of p q] show ?thesis
    by (intro fork_ok_mono [OF assms(2)]) (auto simp: set_alive)
next
  case (Start b)
  have "item_ok hs (Suc (fd_fresh fd)) (fd_fresh fd, new_item hs b)" by (simp add: item_ok_def new_item_def)
  then show ?thesis using Start
    by (intro fork_ok_add [OF assms(2), of "new_item hs b" fd'])
      (auto simp: start_block_def Let_def set_alive insert_item_def new_item_def)
next
  case (Shrink s)
  then show ?thesis
    by (intro fork_ok_mono [OF assms(2)]) (auto simp: set_max_size_def set_alive split: option.splits)
next
  case (Set_head p)
  then show ?thesis by (intro fork_ok_mono [OF assms(2)]) (auto simp: set_head_def set_alive)
next
  case (Remove_block i)
  then show ?thesis by (intro fork_ok_mono [OF assms(2)]) (auto simp: remove_block_def set_alive)
next
  case Reset
  then show ?thesis by (intro fork_ok_mono [OF assms(2)]) (auto simp: reset_def set_alive)
qed

lemma reachable_ok: "fork_reachable hs fd \<Longrightarrow> fork_ok hs fd"
proof (induction rule: fork_reachable.induct)
  case Empty
  then show ?case by (simp add: fork_ok_def set_alive empty_fork_database_def)
qed (auto intro: fork_step_ok)

section \<open>Branches\<close>

text \<open>A walk down the tree: every block builds on the next one.\<close>

fun linked :: "item_ptr list \<Rightarrow> bool" where
  "linked (p # q # r) \<longleftrightarrow> previous_id (snd p) = it_id (snd q) \<and> linked (q # r)"
| "linked _ \<longleftrightarrow> True"

lemma linked_snoc: "linked (xs @ [p]) \<Longrightarrow> previous_id (snd p) = it_id (snd q) \<Longrightarrow> linked (xs @ [p, q])"
  by (induction xs rule: linked.induct) auto

lemma descend_walk:
  assumes "fork_ok hs fd" "descend fuel fd n p acc = Inr (p', acc')" "p \<in> set (alive fd)" "linked (acc @ [p])"
  shows "p' \<in> set (alive fd) \<and> linked (acc' @ [p']) \<and> (\<exists>r. acc' @ [p'] = (acc @ [p]) @ r)"
  using assms(2-4)
proof (induction fuel arbitrary: p acc)
  case (Suc fuel)
  show ?case
  proof (cases "block_num (it_data (snd p)) > n")
    case True
    with Suc.prems(1) obtain q where q: "parent fd p = Some q" and rest: "descend fuel fd n q (acc @ [p]) = Inr (p', acc')"
      by (auto split: option.splits)
    note pq = parent_Some [OF assms(1) Suc.prems(2) q]
    have "linked ((acc @ [p]) @ [q])" using linked_snoc [OF Suc.prems(3)] pq by simp
    from Suc.IH [OF rest _ this] pq show ?thesis by auto
  next
    case False
    with Suc.prems show ?thesis by auto
  qed
qed simp

lemma descend_both_walk:
  assumes "fork_ok hs fd" "descend_both fuel fd p q ps qs = Inr (ps', qs')" "p \<in> set (alive fd)" "q \<in> set (alive fd)"
    "linked (ps @ [p])" "linked (qs @ [q])"
  shows "linked ps' \<and> linked qs' \<and> previous_id (snd (last ps')) = previous_id (snd (last qs')) \<and>
    (\<exists>r. ps' = (ps @ [p]) @ r) \<and> (\<exists>r. qs' = (qs @ [q]) @ r)"
  using assms(2-6)
proof (induction fuel arbitrary: p q ps qs)
  case (Suc fuel)
  show ?case
  proof (cases "previous_id (snd p) = previous_id (snd q)")
    case True
    with Suc.prems show ?thesis by auto
  next
    case False
    with Suc.prems(1) obtain p1 q1 where n: "parent fd p = Some p1" "parent fd q = Some q1"
      and rest: "descend_both fuel fd p1 q1 (ps @ [p]) (qs @ [q]) = Inr (ps', qs')"
      by (auto split: option.splits)
    note pp = parent_Some [OF assms(1) Suc.prems(2) n(1)] and qq = parent_Some [OF assms(1) Suc.prems(3) n(2)]
    have "linked ((ps @ [p]) @ [p1])" "linked ((qs @ [q]) @ [q1])"
      using linked_snoc [OF Suc.prems(4)] linked_snoc [OF Suc.prems(5)] pp qq by simp_all
    from Suc.IH [OF rest _ _ this] pp qq show ?thesis by auto
  qed
qed simp

text \<open>Enough fuel: an address bounds the length of the walk from it.\<close>

lemma descend_fuel:
  assumes "fork_ok hs fd"
  shows "fst p < fuel \<Longrightarrow> p \<in> set (alive fd) \<Longrightarrow> descend fuel fd n p acc \<noteq> Inl Out_of_fuel"
proof (induction fuel arbitrary: p acc)
  case (Suc fuel)
  have "descend fuel fd n q (acc @ [p]) \<noteq> Inl Out_of_fuel" if "parent fd p = Some q" for q
    using parent_Some [OF assms Suc.prems(2) that] Suc.prems(1) by (intro Suc.IH) auto
  then show ?case by (auto split: option.splits)
qed simp

lemma descend_both_fuel:
  assumes "fork_ok hs fd"
  shows "fst p < fuel \<Longrightarrow> p \<in> set (alive fd) \<Longrightarrow> q \<in> set (alive fd) \<Longrightarrow> descend_both fuel fd p q ps qs \<noteq> Inl Out_of_fuel"
proof (induction fuel arbitrary: p q ps qs)
  case (Suc fuel)
  have "descend_both fuel fd p1 q1 (ps @ [p]) (qs @ [q]) \<noteq> Inl Out_of_fuel"
    if "parent fd p = Some p1" "parent fd q = Some q1" for p1 q1
    using parent_Some [OF assms Suc.prems(2) that(1)] parent_Some [OF assms Suc.prems(3) that(2)] Suc.prems(1)
    by (intro Suc.IH) auto
  then show ?case by (auto split: option.splits)
qed simp

lemma find_id_alive: "find_id i fd = Some p \<Longrightarrow> p \<in> set (alive fd)"
  by (auto simp: set_alive dest: find_id_Some)

lemma alive_bound: "fork_ok hs fd \<Longrightarrow> p \<in> set (alive fd) \<Longrightarrow> fst p < Suc (fd_fresh fd)"
  by (auto simp: fork_ok_def item_ok_def)

text \<open>C18. The walks of \<^verbatim>\<open>fetch_branch_from\<close> end on every fork database the chain can reach, whatever blocks
  were pushed, popped and pruned: the result is a pair of branches or a failed assertion.\<close>

theorem fetch_branch_terminates:
  assumes "fork_reachable hs fd"
  shows "fetch_branch_from a b fd \<noteq> Inl Out_of_fuel"
proof -
  note ok = reachable_ok [OF assms]
  define fuel where "fuel = Suc (fd_fresh fd)"
  have bound: "fst p < fuel" if "p \<in> set (alive fd)" for p using alive_bound [OF ok that] by (simp add: fuel_def)
  have "fetch_branch_from a b fd \<noteq> Inl Out_of_fuel" if pq: "find_id a fd = Some p" "find_id b fd = Some q" for p q
  proof -
    note al = find_id_alive [OF pq(1)] find_id_alive [OF pq(2)]
    have 1: "descend fuel fd n p [] \<noteq> Inl Out_of_fuel" "descend fuel fd n q [] \<noteq> Inl Out_of_fuel" for n
      using descend_fuel [OF ok bound] al by auto
    have 2: "descend_both fuel fd p1 q1 ps qs \<noteq> Inl Out_of_fuel"
      if "descend fuel fd n p [] = Inr (p1, ps)" "descend fuel fd m q [] = Inr (q1, qs)" for n m p1 q1 ps qs
      using descend_walk [OF ok that(1) al(1)] descend_walk [OF ok that(2) al(2)] descend_both_fuel [OF ok bound]
      by simp
    from 1 2 show ?thesis
      unfolding fetch_branch_from_def fuel_def [symmetric] Let_def pq by (auto simp: ebind_eq_Inl)
  qed
  then show ?thesis
    by (cases "find_id a fd"; cases "find_id b fd") (auto simp: fetch_branch_from_def Let_def)
qed

lemma fetch_branch_shape:
  assumes ok: "fork_ok hs fd" and run: "fetch_branch_from a b fd = Inr (ps, qs)"
  shows "hd ps \<in> set (alive fd) \<and> ps \<noteq> [] \<and> qs \<noteq> [] \<and> it_id (snd (hd ps)) = a \<and> it_id (snd (hd qs)) = b \<and> linked ps \<and> linked qs \<and>
    previous_id (snd (last ps)) = previous_id (snd (last qs))"
proof -
  from run obtain p q p1 q1 ps1 qs1 n m fuel where pq: "find_id a fd = Some p" "find_id b fd = Some q"
    and 1: "descend fuel fd n p [] = Inr (p1, ps1)" and 2: "descend fuel fd m q [] = Inr (q1, qs1)"
    and 3: "descend_both fuel fd p1 q1 ps1 qs1 = Inr (ps, qs)"
    unfolding fetch_branch_from_def Let_def
    by (auto simp: ebind_eq_Inr simp del: descend.simps descend_both.simps split: option.splits)
  note al = find_id_alive [OF pq(1)] find_id_alive [OF pq(2)]
  have w1: "p1 \<in> set (alive fd) \<and> linked (ps1 @ [p1]) \<and> (\<exists>r. ps1 @ [p1] = p # r)"
    using descend_walk [OF ok 1 al(1)] by simp
  have w2: "q1 \<in> set (alive fd) \<and> linked (qs1 @ [q1]) \<and> (\<exists>r. qs1 @ [q1] = q # r)"
    using descend_walk [OF ok 2 al(2)] by simp
  from descend_both_walk [OF ok 3] w1 w2 show ?thesis
    using find_id_Some [OF pq(1)] find_id_Some [OF pq(2)] al(1) by (metis append_Cons append_is_Nil_conv list.distinct(1) list.sel(1))
qed

text \<open>C19. What \<^verbatim>\<open>fetch_branch_from\<close> returns for two heads is what its comment promises: two branches that start at
  the two blocks, in which every block builds on the next one, and that end in blocks with the same
  predecessor. Undoing the second branch and applying the first one in reverse is therefore a
  switch between the two heads.\<close>

theorem fetch_branch_common_ancestor:
  assumes "fork_reachable hs fd" "fetch_branch_from a b fd = Inr (ps, qs)"
  shows "ps \<noteq> [] \<and> qs \<noteq> [] \<and> it_id (snd (hd ps)) = a \<and> it_id (snd (hd qs)) = b \<and> linked ps \<and> linked qs \<and>
    previous_id (snd (last ps)) = previous_id (snd (last qs))"
  using fetch_branch_shape [OF reachable_ok [OF assms(1)] assms(2)] by simp

text \<open>Longest chain first: pushing a block moves the head only to a strictly higher block, and otherwise leaves
  it where it is; the block returned is the new head.\<close>

theorem push_block_longest_chain:
  assumes "push_block hs b fd = Inr (head, fd')"
  shows "fd_head fd' = Some head \<and>
    (case fd_head fd of
       None \<Rightarrow> it_data (snd head) = b
     | Some hp \<Rightarrow> if block_num b > it_num (snd hp) then it_data (snd head) = b \<and> it_num (snd head) = block_num b else head = hp)"
  using assms
  by (auto simp: push_block_def link_item_def new_item_def Let_def ebind_eq_Inr FC_ASSERT_eq_Inr
      split: option.splits if_splits)

section \<open>A run\<close>

definition push_all :: "block_hashes \<Rightarrow> signed_block list \<Rightarrow> fork_database \<Rightarrow> fork_database result" where
  "push_all hs bs fd = efold (\<lambda>b fd. ebind (push_block hs b fd) (\<lambda>r. Inr (snd r))) bs fd"

lemma push_all_reachable:
  assumes "push_all hs bs empty_fork_database = Inr fd"
  shows "fork_reachable hs fd"
  using assms unfolding push_all_def
  by (rule efold_invariant) (auto simp: ebind_eq_Inr intro: fork_reachable.intros fork_step.Push)

definition sample_block :: "block_id_type \<Rightarrow> int \<Rightarrow> signed_block" where
  "sample_block prev t = \<lparr>previous = prev, timestamp = t, header_witness = [], transaction_merkle_root = 0, blk_extensions = [],
     witness_signature = 0, transactions = []\<rparr>"

definition sample_b1 :: signed_block where "sample_b1 = sample_block 0 3"
definition sample_b2 :: signed_block where "sample_b2 = sample_block (block_id sample_hashes sample_b1) 6"
definition sample_b3 :: signed_block where "sample_b3 = sample_block (block_id sample_hashes sample_b1) 9"
definition sample_b4 :: signed_block where "sample_b4 = sample_block (block_id sample_hashes sample_b3) 12"

lemma sample_fork:
  obtains fd ps qs where "fork_reachable sample_hashes fd"
    "fetch_branch_from (block_id sample_hashes sample_b2) (block_id sample_hashes sample_b4) fd = Inr (ps, qs)"
    "length ps = 1 \<and> length qs = 2"
proof -
  have "succeeds (push_all sample_hashes [sample_b1, sample_b2, sample_b3, sample_b4] empty_fork_database) (\<lambda>fd.
      succeeds (fetch_branch_from (block_id sample_hashes sample_b2) (block_id sample_hashes sample_b4) fd)
        (\<lambda>(ps, qs). length ps = 1 \<and> length qs = 2))" by code_simp
  then obtain fd ps qs where "push_all sample_hashes [sample_b1, sample_b2, sample_b3, sample_b4] empty_fork_database = Inr fd"
    "fetch_branch_from (block_id sample_hashes sample_b2) (block_id sample_hashes sample_b4) fd = Inr (ps, qs)"
    "length ps = 1 \<and> length qs = 2" unfolding succeeds_iff by blast
  then show thesis using that push_all_reachable by blast
qed

theorem fetch_branch_terminates_witness:
  "\<exists>fd. fork_reachable sample_hashes fd \<and> fetch_branch_from (block_id sample_hashes sample_b2) 5 fd \<noteq> Inl Out_of_fuel"
  by (rule sample_fork) (use fetch_branch_terminates in blast)

theorem fetch_branch_common_ancestor_witness:
  "\<exists>fd ps qs. fetch_branch_from (block_id sample_hashes sample_b2) (block_id sample_hashes sample_b4) fd = Inr (ps, qs) \<and>
     length ps = 1 \<and> length qs = 2 \<and> previous_id (snd (last ps)) = previous_id (snd (last qs))"
  by (rule sample_fork) (use fetch_branch_common_ancestor in blast)

theorem push_block_longest_chain_witness:
  "succeeds (push_block sample_hashes sample_b1 empty_fork_database) (\<lambda>(p, fd). fd_head fd = Some p)"
proof -
  have "succeeds (push_block sample_hashes sample_b1 empty_fork_database) (\<lambda>_. True)" by code_simp
  then show ?thesis using push_block_longest_chain by (fastforce simp: succeeds_iff)
qed

end
