(* ===== verification/Block_Log.thy ===== *)
theory Block_Log
  imports Blocks Raw_Codec
begin

text \<open>
  The block log (\<^verbatim>\<open>libraries/chain/block_log.cpp\<close>): the file of irreversible blocks and its index, as the
  bytes that are written. A record of the main file is a packed block and its own position, the
  index is the list of the positions. Packing and unpacking of a block are arguments; what the log
  relies on is \<open>codec_ok\<close>. Numbers are stored in the byte order of a little-endian machine. The
  streams throw when less is there than is read.
\<close>

record block_codec =
  pack_block :: "signed_block \<Rightarrow> bytes"
  unpack_block :: "bytes \<Rightarrow> (signed_block \<times> bytes) option"

definition le64 :: "int \<Rightarrow> bytes" where "le64 x = le_bytes 8 x"

section \<open>The log\<close>

record block_log =
  bl_blocks :: bytes
  bl_index :: bytes
  bl_head :: "signed_block option"
  bl_head_id :: block_id_type

definition empty_block_log :: block_log where
  "empty_block_log = \<lparr>bl_blocks = [], bl_index = [], bl_head = None, bl_head_id = 0\<rparr>"

definition stream_failure :: error where "stream_failure = Out_of_range ''stream''"

definition read_u64 :: "nat \<Rightarrow> bytes \<Rightarrow> int result" where
  "read_u64 off bs = (if off + 8 \<le> length bs then Inr (from_le (take 8 (drop off bs))) else Inl stream_failure)"

definition read_last_u64 :: "bytes \<Rightarrow> int result" where
  "read_last_u64 bs = (if 8 \<le> length bs then read_u64 (length bs - 8) bs else Inl stream_failure)"

definition append_block :: "block_codec \<Rightarrow> block_hashes \<Rightarrow> signed_block \<Rightarrow> block_log \<Rightarrow> block_log result" where
  "append_block cd hs b bl =
     (let pos = int (length (bl_blocks bl)) in
      FC_ASSERT (int (length (bl_index bl)) = 8 * u32 (block_num b - 1)) ''Append to index file occuring at wrong position.''
      (Inr (bl\<lparr>bl_blocks := bl_blocks bl @ pack_block cd b @ le64 pos, bl_index := bl_index bl @ le64 pos,
        bl_head := Some b, bl_head_id := block_id hs b\<rparr>)))"

text \<open>The block at a position, and the position behind its record.\<close>

definition read_block :: "block_codec \<Rightarrow> int \<Rightarrow> block_log \<Rightarrow> (signed_block \<times> int) result" where
  "read_block cd pos bl =
     (case unpack_block cd (drop (nat pos) (bl_blocks bl)) of
        None \<Rightarrow> Inl stream_failure
      | Some (b, rest) \<Rightarrow> Inr (b, int (length (bl_blocks bl) - length rest) + 8))"

text \<open>\<open>None\<close> is \<^verbatim>\<open>npos\<close>.\<close>

definition get_block_pos :: "int \<Rightarrow> block_log \<Rightarrow> int option result" where
  "get_block_pos n bl =
     (if \<not> (bl_head bl \<noteq> None \<and> n \<le> num_from_id (bl_head_id bl) \<and> n > 0) then Inr None
      else ebind (read_u64 (nat (8 * (n - 1))) (bl_index bl)) (\<lambda>p. Inr (Some p)))"

definition read_block_by_num :: "block_codec \<Rightarrow> int \<Rightarrow> block_log \<Rightarrow> signed_block option result" where
  "read_block_by_num cd n bl =
     ebind (get_block_pos n bl) (\<lambda>p.
       case p of
         None \<Rightarrow> Inr None
       | Some pos \<Rightarrow>
           ebind (read_block cd pos bl) (\<lambda>(b, _).
             FC_ASSERT (block_num b = n) ''Wrong block was read from block log.'' (Inr (Some b))))"

definition read_head :: "block_codec \<Rightarrow> block_log \<Rightarrow> signed_block result" where
  "read_head cd bl =
     ebind (read_last_u64 (bl_blocks bl)) (\<lambda>pos.
     ebind (read_block cd pos bl) (\<lambda>(b, _). Inr b))"

text \<open>The loop of \<^verbatim>\<open>construct_index\<close> on the rest of the main file; each turn consumes at least the eight bytes
  of a position.\<close>

fun index_loop :: "nat \<Rightarrow> block_codec \<Rightarrow> int \<Rightarrow> int \<Rightarrow> bytes \<Rightarrow> bytes \<Rightarrow> bytes result" where
  "index_loop 0 cd pos end_pos s idx = Inl Out_of_fuel"
| "index_loop (Suc fuel) cd pos end_pos s idx =
     (if pos < end_pos then
        (case unpack_block cd s of
           None \<Rightarrow> Inl stream_failure
         | Some (_, rest) \<Rightarrow>
             ebind (read_u64 0 rest) (\<lambda>p. index_loop fuel cd p end_pos (drop 8 rest) (idx @ le64 p)))
      else Inr idx)"

declare index_loop.simps [simp del]

definition construct_index :: "block_codec \<Rightarrow> block_log \<Rightarrow> block_log result" where
  "construct_index cd bl =
     ebind (read_last_u64 (bl_blocks bl)) (\<lambda>end_pos.
     ebind (index_loop (Suc (length (bl_blocks bl))) cd 0 end_pos (bl_blocks bl) []) (\<lambda>idx.
       Inr (bl\<lparr>bl_index := idx\<rparr>)))"

text \<open>Opening a pair of files.\<close>

definition open_block_log :: "block_codec \<Rightarrow> block_hashes \<Rightarrow> bytes \<Rightarrow> bytes \<Rightarrow> block_log result" where
  "open_block_log cd hs blocks index =
     (let bl = \<lparr>bl_blocks = blocks, bl_index = index, bl_head = None, bl_head_id = 0\<rparr> in
      if blocks \<noteq> [] then
        ebind (read_head cd bl) (\<lambda>h.
        let bl1 = bl\<lparr>bl_head := Some h, bl_head_id := block_id hs h\<rparr> in
        if index \<noteq> [] then
          ebind (read_last_u64 blocks) (\<lambda>block_pos.
          ebind (read_last_u64 index) (\<lambda>index_pos.
            if block_pos \<noteq> index_pos then construct_index cd bl1 else Inr bl1))
        else construct_index cd bl1)
      else Inr (bl\<lparr>bl_index := []\<rparr>))"

section \<open>What the files hold\<close>

definition codec_ok :: "block_codec \<Rightarrow> signed_block list \<Rightarrow> bool" where
  "codec_ok cd bs \<longleftrightarrow> (\<forall>b \<in> set bs. \<forall>rest. unpack_block cd (pack_block cd b @ rest) = Some (b, rest))"

fun positions :: "block_codec \<Rightarrow> nat \<Rightarrow> signed_block list \<Rightarrow> nat list" where
  "positions cd p [] = []"
| "positions cd p (b # bs) = p # positions cd (p + length (pack_block cd b) + 8) bs"

fun log_bytes :: "block_codec \<Rightarrow> nat \<Rightarrow> signed_block list \<Rightarrow> bytes" where
  "log_bytes cd p [] = []"
| "log_bytes cd p (b # bs) = (pack_block cd b @ le64 (int p)) @ log_bytes cd (p + length (pack_block cd b) + 8) bs"

definition index_bytes :: "nat list \<Rightarrow> bytes" where
  "index_bytes ps = concat (map (\<lambda>p. le64 (int p)) ps)"

definition numbered :: "signed_block list \<Rightarrow> bool" where
  "numbered bs \<longleftrightarrow> (\<forall>i < length bs. block_num (bs ! i) = int i + 1)"

definition holds :: "block_codec \<Rightarrow> block_hashes \<Rightarrow> signed_block list \<Rightarrow> block_log \<Rightarrow> bool" where
  "holds cd hs bs bl \<longleftrightarrow>
     bl_blocks bl = log_bytes cd 0 bs \<and> bl_index bl = index_bytes (positions cd 0 bs) \<and> numbered bs \<and>
     (if bs = [] then bl_head bl = None \<and> bl_head_id bl = 0
      else bl_head bl = Some (last bs) \<and> bl_head_id bl = block_id hs (last bs))"

text \<open>Sizes that the 64-bit positions and the 32-bit numbers can express.\<close>

definition fits :: "block_codec \<Rightarrow> signed_block list \<Rightarrow> bool" where
  "fits cd bs \<longleftrightarrow> int (length (log_bytes cd 0 bs)) < 18446744073709551616 \<and> int (length bs) < 4294967295"

lemma length_le64 [simp]: "length (le64 x) = 8"
  by (simp add: le64_def)

lemma from_le64: "0 \<le> x \<Longrightarrow> x < 18446744073709551616 \<Longrightarrow> from_le (le64 x) = x"
  using from_le_bytes [of 8 x] by (simp add: le64_def)

lemma length_positions [simp]: "length (positions cd p bs) = length bs"
  by (induction bs arbitrary: p) simp_all

lemma length_index_bytes [simp]: "length (index_bytes ps) = 8 * length ps"
  by (induction ps) (simp_all add: index_bytes_def)

lemma log_bytes_snoc:
  "log_bytes cd p (bs @ [b]) = log_bytes cd p bs @ pack_block cd b @ le64 (int (p + length (log_bytes cd p bs)))"
  by (induction bs arbitrary: p) (simp_all add: algebra_simps)

lemma positions_snoc: "positions cd p (bs @ [b]) = positions cd p bs @ [p + length (log_bytes cd p bs)]"
  by (induction bs arbitrary: p) (simp_all add: algebra_simps)

lemma read_index:
  assumes "i < length ps" "int (ps ! i) < 18446744073709551616"
  shows "read_u64 (8 * i) (index_bytes ps) = Inr (int (ps ! i))"
proof -
  have "drop (8 * i) (index_bytes ps) = index_bytes (drop i ps)" for i
  proof (induction ps arbitrary: i)
    case (Cons p ps)
    then show ?case by (cases i) (simp_all add: index_bytes_def)
  qed (simp add: index_bytes_def)
  moreover have "drop i ps = ps ! i # drop (Suc i) ps" using assms(1) by (rule Cons_nth_drop_Suc [symmetric])
  ultimately have "take 8 (drop (8 * i) (index_bytes ps)) = le64 (int (ps ! i))" by (simp add: index_bytes_def)
  then show ?thesis using assms by (simp add: read_u64_def from_le64)
qed

lemma drop_past: "drop (length u + k) (u @ v) = drop k v"
  by simp

lemma positions_split:
  "i < length bs \<Longrightarrow> p \<le> positions cd p bs ! i \<and> positions cd p bs ! i + 8 \<le> p + length (log_bytes cd p bs) \<and>
     drop (positions cd p bs ! i - p) (log_bytes cd p bs) = log_bytes cd (positions cd p bs ! i) (drop i bs)"
proof (induction bs arbitrary: p i)
  case (Cons b bs)
  show ?case
  proof (cases i)
    case (Suc j)
    let ?q = "p + length (pack_block cd b) + 8"
    have ih: "?q \<le> positions cd ?q bs ! j" "positions cd ?q bs ! j + 8 \<le> ?q + length (log_bytes cd ?q bs)"
      "drop (positions cd ?q bs ! j - ?q) (log_bytes cd ?q bs) = log_bytes cd (positions cd ?q bs ! j) (drop j bs)"
      using Cons.IH [of j ?q] Cons.prems Suc by auto
    have eq: "positions cd ?q bs ! j - p = length (pack_block cd b @ le64 (int p)) + (positions cd ?q bs ! j - ?q)"
      using ih(1) by simp
    then have "drop (positions cd ?q bs ! j - p) ((pack_block cd b @ le64 (int p)) @ log_bytes cd ?q bs) =
        log_bytes cd (positions cd ?q bs ! j) (drop j bs)" 
      by (simp only: eq drop_past ih(3))
    then show ?thesis using ih(1,2) Suc by simp
  qed simp
qed simp

section \<open>Appending and reading\<close>

lemma append_holds:
  assumes "append_block cd hs b bl = Inr bl'" "holds cd hs bs bl" "int (length bs) < 4294967295"
  shows "holds cd hs (bs @ [b]) bl'"
proof -
  from assms(1,2) have n: "int (length bs) = u32 (block_num b - 1)"
    and bl': "bl' = bl\<lparr>bl_blocks := bl_blocks bl @ pack_block cd b @ le64 (int (length (bl_blocks bl))),
      bl_index := bl_index bl @ le64 (int (length (bl_blocks bl))), bl_head := Some b, bl_head_id := block_id hs b\<rparr>"
    by (auto simp: append_block_def Let_def FC_ASSERT_eq_Inr holds_def)
  have "0 \<le> block_num b" "block_num b < 4294967296" by (simp_all add: block_num_def u32_def)
  then have "block_num b = int (length bs) + 1"
    using n assms(3) by (cases "block_num b = 0") (simp_all add: u32_def)
  then have "numbered (bs @ [b])" using assms(2) by (auto simp: numbered_def holds_def nth_append less_Suc_eq)
  then show ?thesis
    using assms(2) by (simp add: holds_def bl' log_bytes_snoc positions_snoc index_bytes_def)
qed

lemma append_all_holds:
  assumes "efold (append_block cd hs) bs bl = Inr bl'" "holds cd hs cs bl" "int (length cs + length bs) < 4294967295"
  shows "holds cd hs (cs @ bs) bl'"
  using assms
proof (induction bs arbitrary: cs bl)
  case (Cons b bs)
  from Cons.prems(1) obtain bl1 where 1: "append_block cd hs b bl = Inr bl1" and rest: "efold (append_block cd hs) bs bl1 = Inr bl'"
    by (auto simp: ebind_eq_Inr)
  have "holds cd hs (cs @ [b]) bl1" using append_holds [OF 1 Cons.prems(2)] Cons.prems(3) by simp
  from Cons.IH [OF rest this] Cons.prems(3) show ?case by simp
qed simp

lemma empty_holds: "holds cd hs [] empty_block_log"
  by (simp add: holds_def empty_block_log_def index_bytes_def numbered_def)

lemma read_block_at:
  assumes "i < length bs" "bl_blocks bl = log_bytes cd 0 bs" "codec_ok cd bs"
  shows "\<exists>q. read_block cd (int (positions cd 0 bs ! i)) bl = Inr (bs ! i, q)"
proof -
  have "drop (positions cd 0 bs ! i) (log_bytes cd 0 bs) = log_bytes cd (positions cd 0 bs ! i) (drop i bs)"
    using positions_split [OF assms(1), of 0 cd] by simp
  moreover have "drop i bs = bs ! i # drop (Suc i) bs" using assms(1) by (rule Cons_nth_drop_Suc [symmetric])
  ultimately show ?thesis
    using assms by (simp add: read_block_def codec_ok_def)
qed

lemma position_fits:
  "i < length bs \<Longrightarrow> fits cd bs \<Longrightarrow> int (positions cd 0 bs ! i) < 18446744073709551616"
  using positions_split [of i bs 0 cd] by (simp add: fits_def)

lemma numbered_last: "numbered bs \<Longrightarrow> bs \<noteq> [] \<Longrightarrow> block_num (last bs) = int (length bs)"
  by (cases bs rule: rev_cases) (auto simp: numbered_def nth_append)

lemma read_by_num:
  assumes "holds cd hs bs bl" "codec_ok cd bs" "fits cd bs" "i < length bs"
  shows "read_block_by_num cd (int i + 1) bl = Inr (Some (bs ! i))"
proof -
  have ne: "bs \<noteq> []" using assms(4) by auto
  have "block_num (last bs) = int (length bs)"
    using assms(1) ne by (auto simp: holds_def numbered_last)
  then have "num_from_id (bl_head_id bl) = int (length bs)" "bl_head bl \<noteq> None"
    using assms(1) ne by (simp_all add: holds_def num_of_block_id)
  then have "get_block_pos (int i + 1) bl = Inr (Some (int (positions cd 0 bs ! i)))"
    using assms read_index [of i "positions cd 0 bs"] position_fits [OF assms(4,3)]
    by (simp add: get_block_pos_def holds_def nat_mult_distrib)
  moreover have "block_num (bs ! i) = int i + 1" using assms(1,4) by (simp add: holds_def numbered_def)
  ultimately show ?thesis
    using read_block_at [OF assms(4) _ assms(2), of bl] assms(1)
    by (auto simp: read_block_by_num_def holds_def)
qed

text \<open>The log returns what was written: after any sequence of appended blocks, reading by number gives exactly
  the block of that number, and beyond the last one nothing.\<close>

theorem block_log_roundtrip:
  assumes "efold (append_block cd hs) bs empty_block_log = Inr bl" "codec_ok cd bs" "fits cd bs"
  shows "(\<forall>i < length bs. read_block_by_num cd (int i + 1) bl = Inr (Some (bs ! i))) \<and>
    (\<forall>n > int (length bs). read_block_by_num cd n bl = Inr None)"
proof -
  have h: "holds cd hs bs bl" using append_all_holds [OF assms(1) empty_holds] assms(3) by (simp add: fits_def)
  have "num_from_id (bl_head_id bl) = int (length bs)" if "bs \<noteq> []"
    using h that by (simp add: holds_def num_of_block_id numbered_last)
  then have "read_block_by_num cd n bl = Inr None" if "n > int (length bs)" for n
    using h that by (cases "bs = []") (auto simp: read_block_by_num_def get_block_pos_def holds_def)
  then show ?thesis using read_by_num [OF h assms(2,3)] by simp
qed

section \<open>Losing the index\<close>

lemma last_position:
  assumes "bs \<noteq> []" "fits cd bs"
  shows "read_last_u64 (log_bytes cd 0 bs) = Inr (int (last (positions cd 0 bs)))"
proof -
  obtain cs b where bs: "bs = cs @ [b]" using assms(1) by (metis append_butlast_last_id)
  let ?p = "length (log_bytes cd 0 cs)"
  have "int ?p < 18446744073709551616" using assms(2) by (simp add: fits_def bs log_bytes_snoc)
  then show ?thesis
    by (simp add: bs log_bytes_snoc positions_snoc read_last_u64_def read_u64_def from_le64)
qed

lemma last_position_ge: "bs \<noteq> [] \<Longrightarrow> p \<le> last (positions cd p bs)"
proof -
  assume "bs \<noteq> []"
  then have "positions cd p bs \<noteq> []" by (metis length_0_conv length_positions)
  then show ?thesis using positions_split [of "length bs - 1" bs p cd] \<open>bs \<noteq> []\<close> by (simp add: last_conv_nth)
qed

lemma index_loop_rebuilds:
  "bs \<noteq> [] \<Longrightarrow> length bs < fuel \<Longrightarrow> pos < int (last (positions cd p bs)) \<Longrightarrow> codec_ok cd bs \<Longrightarrow>
     int (p + length (log_bytes cd p bs)) < 18446744073709551616 \<Longrightarrow>
     index_loop fuel cd pos (int (last (positions cd p bs))) (log_bytes cd p bs) idx = Inr (idx @ index_bytes (positions cd p bs))"
proof (induction bs arbitrary: fuel pos p idx)
  case (Cons b bs)
  let ?q = "p + length (pack_block cd b) + 8" and ?e = "int (last (positions cd p (b # bs)))"
  obtain f where f: "fuel = Suc f" using Cons.prems(2) by (cases fuel) auto
  have "read_u64 0 (le64 (int p) @ log_bytes cd ?q bs) = Inr (int p)"
    using Cons.prems(5) by (simp add: read_u64_def from_le64)
  then have step: "index_loop fuel cd pos ?e (log_bytes cd p (b # bs)) idx =
      index_loop f cd (int p) ?e (log_bytes cd ?q bs) (idx @ le64 (int p))"
    using Cons.prems(3,4) by (simp add: f index_loop.simps codec_ok_def)
  show ?case
  proof (cases "bs = []")
    case True
    then have "0 < f" "?e = int p" using Cons.prems(2) f by simp_all
    then show ?thesis unfolding step using True by (cases f) (simp_all add: index_loop.simps index_bytes_def)
  next
    case False
    have ne: "positions cd ?q bs \<noteq> []" using False by (metis length_0_conv length_positions)
    have "int p < int (last (positions cd ?q bs))" using last_position_ge [OF False, of ?q cd] by simp
    then have "index_loop f cd (int p) (int (last (positions cd ?q bs))) (log_bytes cd ?q bs) (idx @ le64 (int p)) =
        Inr ((idx @ le64 (int p)) @ index_bytes (positions cd ?q bs))"
      using Cons.prems f False by (intro Cons.IH) (simp_all add: codec_ok_def)
    then show ?thesis unfolding step using ne by (simp add: index_bytes_def)
  qed
qed simp

lemma log_bytes_size: "8 * length bs \<le> length (log_bytes cd p bs)"
proof (induction bs arbitrary: p)
  case (Cons b bs)
  have "8 * length bs \<le> length (log_bytes cd (p + length (pack_block cd b) + 8) bs)" by (rule Cons.IH)
  then show ?case by (simp add: trans_le_add2)
qed simp

lemma construct_index_rebuilds:
  assumes "2 \<le> length bs" "codec_ok cd bs" "fits cd bs" "bl_blocks bl = log_bytes cd 0 bs"
  shows "construct_index cd bl = Inr (bl\<lparr>bl_index := index_bytes (positions cd 0 bs)\<rparr>)"
proof -
  have ne: "bs \<noteq> []" using assms(1) by auto
  obtain b c cs where bs: "bs = b # c # cs" using assms(1) by (metis Suc_le_length_iff numeral_2_eq_2)
  have "0 < last (positions cd 0 bs)"
    using last_position_ge [of "c # cs" "length (pack_block cd b) + 8" cd] by (simp add: bs)
  moreover have "length bs < Suc (length (log_bytes cd 0 bs))" using log_bytes_size [of bs cd 0] by simp
  ultimately have "index_loop (Suc (length (log_bytes cd 0 bs))) cd 0 (int (last (positions cd 0 bs))) (log_bytes cd 0 bs) [] =
      Inr ([] @ index_bytes (positions cd 0 bs))"
    using assms(2,3) by (intro index_loop_rebuilds [OF ne]) (simp_all add: fits_def)
  then show ?thesis by (simp add: construct_index_def assms(4) last_position [OF ne assms(3)])
qed

lemma read_head_last:
  assumes "bs \<noteq> []" "codec_ok cd bs" "fits cd bs" "bl_blocks bl = log_bytes cd 0 bs"
  shows "read_head cd bl = Inr (last bs)"
proof -
  have "positions cd 0 bs \<noteq> []" using assms(1) by (metis length_0_conv length_positions)
  then have "last (positions cd 0 bs) = positions cd 0 bs ! (length bs - 1)" "last bs = bs ! (length bs - 1)"
    using assms(1) by (simp_all add: last_conv_nth)
  then show ?thesis
    using read_block_at [OF _ assms(4,2), of "length bs - 1"] assms(1)
    by (auto simp: read_head_def assms(4) last_position [OF assms(1,3)])
qed

lemma construct_single:
  assumes "codec_ok cd [b]" "fits cd [b]" "bl_blocks bl = log_bytes cd 0 [b]"
  shows "construct_index cd bl = Inr (bl\<lparr>bl_index := []\<rparr>)"
  using last_position [OF _ assms(2)] index_loop.simps(2) [of "length (log_bytes cd 0 [b])" cd 0 0]
  by (simp add: construct_index_def assms(3))

text \<open>C29. Opening repairs the index: from a main file and an index that is intact, lost, stale or ahead (its last entry is not the
  position of the last block), \<^verbatim>\<open>block_log::open\<close> restores exactly the log that wrote the main file, unless that log has a single
  block: then an index that was not intact is empty afterwards, because the loop of \<^verbatim>\<open>construct_index\<close> stops before it reads
  the first block. The loop does not run out of its bound.\<close>

theorem open_restores_index:
  assumes "efold (append_block cd hs) bs empty_block_log = Inr bl" "codec_ok cd bs" "fits cd bs"
    "index = [] \<or> index = bl_index bl \<or> bs = [] \<or> (\<exists>p. read_last_u64 index = Inr p \<and> p \<noteq> int (last (positions cd 0 bs)))"
  shows "open_block_log cd hs (bl_blocks bl) index = Inr (if length bs = 1 \<and> index \<noteq> bl_index bl then bl\<lparr>bl_index := []\<rparr> else bl)"
proof (cases "bs = []")
  case True
  then show ?thesis using assms(1) by (auto simp: open_block_log_def empty_block_log_def Let_def)
next
  case ne: False
  have h: "holds cd hs bs bl" using append_all_holds [OF assms(1) empty_holds] assms(3) by (simp add: fits_def)
  have bl: "bl = \<lparr>bl_blocks = log_bytes cd 0 bs, bl_index = index_bytes (positions cd 0 bs), bl_head = Some (last bs),
      bl_head_id = block_id hs (last bs)\<rparr>"
    using h ne by (cases bl) (simp add: holds_def)
  have bytes: "log_bytes cd 0 bs \<noteq> []" using log_bytes_size [of bs cd 0] ne by auto
  have last_pos: "read_last_u64 (bl_index bl) = Inr (int (last (positions cd 0 bs)))"
    using read_index [of "length bs - 1" "positions cd 0 bs"] position_fits [OF _ assms(3), of "length bs - 1"] ne
    by (cases bs rule: rev_cases) (simp_all add: bl read_last_u64_def positions_snoc nth_append)
  then have "bl_index bl \<noteq> []" by (auto simp: read_last_u64_def)
  let ?bl1 = "\<lparr>bl_blocks = log_bytes cd 0 bs, bl_index = index, bl_head = Some (last bs), bl_head_id = block_id hs (last bs)\<rparr>"
  have rebuilt: "construct_index cd ?bl1 = Inr (bl\<lparr>bl_index := if length bs = 1 then [] else index_bytes (positions cd 0 bs)\<rparr>)"
  proof (cases "length bs = 1")
    case True
    then obtain b where "bs = [b]" by (auto simp: length_Suc_conv)
    with construct_single [of cd b ?bl1] assms(2,3) show ?thesis by (simp add: bl)
  next
    case False
    then have "2 \<le> length bs" using ne by (cases bs) (auto simp: Suc_le_eq)
    from construct_index_rebuilds [OF this assms(2,3), of ?bl1] False show ?thesis by (simp add: bl)
  qed
  have "open_block_log cd hs (log_bytes cd 0 bs) index =
      (if index \<noteq> [] then ebind (read_last_u64 index) (\<lambda>p. if int (last (positions cd 0 bs)) \<noteq> p then construct_index cd ?bl1 else Inr ?bl1)
       else construct_index cd ?bl1)"
    using bytes read_head_last [OF ne assms(2,3)] last_position [OF ne assms(3)] by (simp add: open_block_log_def Let_def cong: if_cong)
  moreover have "read_last_u64 index = Inr p \<Longrightarrow> p \<noteq> int (last (positions cd 0 bs)) \<Longrightarrow> index \<noteq> bl_index bl \<and> index \<noteq> []" for p
    using last_pos by (auto simp: read_last_u64_def)
  moreover have "bl_blocks bl = log_bytes cd 0 bs" "bl\<lparr>bl_index := index_bytes (positions cd 0 bs)\<rparr> = bl"
      "index = bl_index bl \<Longrightarrow> ?bl1 = bl"
    by (simp_all add: bl)
  ultimately show ?thesis
    using assms(4) ne last_pos rebuilt \<open>bl_index bl \<noteq> []\<close> by (auto simp: ebind_def)
qed

text \<open>One block is not enough: a log of a single block whose index is lost is opened without an error and without an
  index. Afterwards the block cannot be read by its number, and the second block cannot be appended.\<close>

theorem single_block_index_lost:
  assumes "append_block cd hs b empty_block_log = Inr bl" "codec_ok cd [b]" "fits cd [b]"
  shows "\<exists>bl1. open_block_log cd hs (bl_blocks bl) [] = Inr bl1 \<and> bl_head bl1 = Some b \<and>
    read_block_by_num cd 1 bl1 = Inl stream_failure \<and>
    (\<forall>b2. block_num b2 = 2 \<longrightarrow> append_block cd hs b2 bl1 = Inl (Assert_exception ''Append to index file occuring at wrong position.''))"
proof -
  have h: "holds cd hs [b] bl" using append_holds [OF assms(1) empty_holds] by simp
  then have b: "bl_blocks bl = log_bytes cd 0 [b]" "block_num b = 1" by (simp_all add: holds_def numbered_def)
  let ?bl0 = "\<lparr>bl_blocks = log_bytes cd 0 [b], bl_index = [], bl_head = Some b, bl_head_id = block_id hs b\<rparr>"
  have "construct_index cd ?bl0 = Inr ?bl0" using construct_single [OF assms(2,3), of ?bl0] by simp
  then have o: "open_block_log cd hs (bl_blocks bl) [] = Inr ?bl0"
    using read_head_last [OF _ assms(2,3), of "\<lparr>bl_blocks = log_bytes cd 0 [b], bl_index = [], bl_head = None, bl_head_id = 0\<rparr>"]
    by (auto simp: open_block_log_def Let_def b) (metis length_le64 list.size(3) zero_neq_numeral)
  moreover have "read_block_by_num cd 1 ?bl0 = Inl stream_failure"
    by (simp add: read_block_by_num_def get_block_pos_def num_of_block_id b read_u64_def)
  moreover have "append_block cd hs b2 ?bl0 = Inl (Assert_exception ''Append to index file occuring at wrong position.'')"
    if "block_num b2 = 2" for b2 using that by (simp add: append_block_def Let_def u32_def)
  ultimately show ?thesis by auto
qed

section \<open>Two blocks\<close>

text \<open>A codec that keeps the previous id, which is where the two sample blocks differ.\<close>

definition log_block :: "int \<Rightarrow> signed_block" where
  "log_block p = \<lparr>previous = p, timestamp = 3, header_witness = ''initminer'', transaction_merkle_root = 0, blk_extensions = [],
     witness_signature = 0, transactions = []\<rparr>"

definition log_codec :: block_codec where
  "log_codec = \<lparr>pack_block = \<lambda>b. [previous b],
     unpack_block = \<lambda>s. case s of [] \<Rightarrow> None | x # rest \<Rightarrow> Some (log_block x, rest)\<rparr>"

lemma log_codec_ok: "codec_ok log_codec [log_block 0, log_block 16777216]" "codec_ok log_codec [log_block 0]"
  by (simp_all add: codec_ok_def log_codec_def) (simp_all add: log_block_def)

lemma log_fits: "fits log_codec [log_block 0, log_block 16777216]" "fits log_codec [log_block 0]"
  by (simp_all add: fits_def log_codec_def)

lemma log_two: "succeeds (efold (append_block log_codec sample_hashes) [log_block 0, log_block 16777216] empty_block_log) (\<lambda>_. True)"
  by code_simp

lemma block_log_roundtrip_witness:
  "succeeds (efold (append_block log_codec sample_hashes) [log_block 0, log_block 16777216] empty_block_log)
     (\<lambda>bl. read_block_by_num log_codec 2 bl = Inr (Some (log_block 16777216)))"
  using log_two
proof (rule succeeds_mono)
  fix bl assume "efold (append_block log_codec sample_hashes) [log_block 0, log_block 16777216] empty_block_log = Inr bl"
  from block_log_roundtrip [OF this log_codec_ok(1) log_fits(1)]
  have "\<forall>i < 2. read_block_by_num log_codec (int i + 1) bl = Inr (Some ([log_block 0, log_block 16777216] ! i))" by simp
  from spec [OF this, of 1] show "read_block_by_num log_codec 2 bl = Inr (Some (log_block 16777216))" by simp
qed

lemma open_restores_index_witness:
  "succeeds (efold (append_block log_codec sample_hashes) [log_block 0, log_block 16777216] empty_block_log)
     (\<lambda>bl. open_block_log log_codec sample_hashes (bl_blocks bl) [] = Inr bl)"
  using log_two by (rule succeeds_mono) (use open_restores_index [OF _ log_codec_ok(1) log_fits(1), of sample_hashes _ "[]"] in simp)

lemma single_block_index_lost_witness:
  "succeeds (append_block log_codec sample_hashes (log_block 0) empty_block_log) (\<lambda>bl.
     succeeds (open_block_log log_codec sample_hashes (bl_blocks bl) []) (\<lambda>bl1.
       throws (read_block_by_num log_codec 1 bl1) stream_failure))"
proof -
  have "succeeds (append_block log_codec sample_hashes (log_block 0) empty_block_log) (\<lambda>_. True)" by code_simp
  then show ?thesis
    by (rule succeeds_mono) (use single_block_index_lost [OF _ log_codec_ok(2) log_fits(2)] in \<open>force simp: succeeds_iff throws_iff\<close>)
qed

end
