(* ===== verification/Chain_Controller.thy ===== *)
theory Chain_Controller
  imports Apply_Block Fork_Database Block_Log
begin

text \<open>
  The database as a whole (\<^verbatim>\<open>libraries/chain/database.cpp\<close>, \<^verbatim>\<open>database/db_with.hpp\<close>): the object store with
  its undo sessions, the fork database, the block log, the pending transactions. Commands return a
  result and the new state, because C++ keeps what was changed before an exception. A session is the
  snapshot it restores, as the refinement of the undo index justifies; that undoing can throw when objects exchanged unique keys
  in a session is shown there and left out here; objects that a routine had
  changed when it threw are not followed, but the store is marked as torn until a session restores it.
  Observers, locks, flushing and logging are left out.
\<close>

section \<open>Sessions\<close>

record store =
  st_db :: database
  st_torn :: bool
  st_revision :: int
  st_stack :: "(int \<times> database \<times> bool) list"

definition session_start :: "store \<Rightarrow> store" where
  "session_start s =
     s\<lparr>st_revision := st_revision s + 1, st_stack := (st_revision s + 1, st_db s, st_torn s) # st_stack s\<rparr>"

definition session_undo :: "store \<Rightarrow> store" where
  "session_undo s =
     (case st_stack s of
        [] \<Rightarrow> s
      | (_, d, t) # r \<Rightarrow> s\<lparr>st_db := d, st_torn := t, st_revision := st_revision s - 1, st_stack := r\<rparr>)"

definition session_squash :: "store \<Rightarrow> store" where
  "session_squash s =
     (case st_stack s of
        [] \<Rightarrow> s
      | [_] \<Rightarrow> s\<lparr>st_stack := []\<rparr>
      | _ # r \<Rightarrow> s\<lparr>st_stack := r, st_revision := st_revision s - 1\<rparr>)"

definition session_commit :: "int \<Rightarrow> store \<Rightarrow> store" where
  "session_commit n s = s\<lparr>st_stack := rev (dropWhile (\<lambda>u. fst u \<le> n) (rev (st_stack s)))\<rparr>"

definition session_undo_all :: "store \<Rightarrow> store" where
  "session_undo_all s = fold (\<lambda>_. session_undo) (st_stack s) s"

section \<open>The state of the chain\<close>

record chain_state =
  cs_store :: store
  cs_fork :: fork_database
  cs_log :: block_log
  cs_pending :: "signed_transaction list"
  cs_pending_session :: bool
  cs_popped :: "signed_transaction list"
  cs_checkpoints :: "(int \<times> block_id_type) list"
  cs_producing :: bool

text \<open>What the chain is given from outside: the node with its hash functions and flags, the block hashes and
  the codec of the log, the size of a transaction, and for the production of blocks the size of an empty
  header, the public key of a private one and the signing of a block.\<close>

record chain_env =
  ce_node :: node
  ce_hashes :: block_hashes
  ce_codec :: block_codec
  ce_trx_size :: "signed_transaction \<Rightarrow> int"
  ce_header_size :: int
  ce_public_key :: "int \<Rightarrow> public_key_type"
  ce_sign :: "int \<Rightarrow> bool \<Rightarrow> signed_block \<Rightarrow> signed_block"

type_synonym 'a cmd = "chain_state \<Rightarrow> 'a result \<times> chain_state"

definition with_skip_flags :: "validation_step list \<Rightarrow> chain_env \<Rightarrow> chain_env" where
  "with_skip_flags fs env = env\<lparr>ce_node := (ce_node env)\<lparr>skip := fs\<rparr>\<rparr>"

abbreviation cs_db :: "chain_state \<Rightarrow> database" where "cs_db s \<equiv> st_db (cs_store s)"

definition upd_store :: "(store \<Rightarrow> store) \<Rightarrow> chain_state \<Rightarrow> chain_state" where
  "upd_store f s = s\<lparr>cs_store := f (cs_store s)\<rparr>"

definition set_db :: "database \<Rightarrow> chain_state \<Rightarrow> chain_state" where
  "set_db d = upd_store (\<lambda>t. t\<lparr>st_db := d\<rparr>)"

definition tear :: "chain_state \<Rightarrow> chain_state" where
  "tear = upd_store (\<lambda>t. t\<lparr>st_torn := True\<rparr>)"

definition creturn :: "'a \<Rightarrow> 'a cmd" where "creturn x s = (Inr x, s)"

definition cthrow :: "error \<Rightarrow> 'a cmd" where "cthrow e s = (Inl e, s)"

definition cbind :: "'a cmd \<Rightarrow> ('a \<Rightarrow> 'b cmd) \<Rightarrow> 'b cmd" where
  "cbind m f s = (case m s of (Inl e, t) \<Rightarrow> (Inl e, t) | (Inr x, t) \<Rightarrow> f x t)"

definition ccatch :: "'a cmd \<Rightarrow> (error \<Rightarrow> 'a cmd) \<Rightarrow> 'a cmd" where
  "ccatch m h s = (case m s of (Inl e, t) \<Rightarrow> h e t | r \<Rightarrow> r)"

definition cdo :: "(chain_state \<Rightarrow> chain_state) \<Rightarrow> unit cmd" where "cdo f s = (Inr (), f s)"

definition cask :: "(chain_state \<Rightarrow> 'a result) \<Rightarrow> 'a cmd" where "cask f s = (f s, s)"

definition on_db :: "(database \<Rightarrow> database result) \<Rightarrow> unit cmd" where
  "on_db f s = (case f (cs_db s) of Inl e \<Rightarrow> (Inl e, tear s) | Inr d \<Rightarrow> (Inr (), set_db d s))"

text \<open>The flag \<^verbatim>\<open>_is_producing\<close> is read by some evaluators.\<close>

definition node_of :: "chain_env \<Rightarrow> chain_state \<Rightarrow> node" where
  "node_of env s = (ce_node env)\<lparr>nd_ext := (nd_ext (ce_node env))\<lparr>is_producing := cs_producing s\<rparr>\<rparr>"

fun cfold :: "('x \<Rightarrow> unit cmd) \<Rightarrow> 'x list \<Rightarrow> unit cmd" where
  "cfold f [] = creturn ()"
| "cfold f (x # xs) = cbind (f x) (\<lambda>_. cfold f xs)"

section \<open>Irreversible blocks\<close>

definition write_block :: "chain_env \<Rightarrow> int \<Rightarrow> unit cmd" where
  "write_block env n =
     cbind (cask (\<lambda>s. fetch_block_on_main_branch_by_number n (cs_fork s))) (\<lambda>p.
       case p of
         None \<Rightarrow> cthrow (Assert_exception ''Current fork in the fork database does not contain the last_irreversible_block'')
       | Some q \<Rightarrow>
           cbind (cask (\<lambda>s. append_block (ce_codec env) (ce_hashes env) (it_data (snd q)) (cs_log s))) (\<lambda>bl.
             cdo (\<lambda>s. s\<lparr>cs_log := bl\<rparr>)))"

definition log_head_num :: "chain_state \<Rightarrow> int" where
  "log_head_num s = (case bl_head (cs_log s) of None \<Rightarrow> 0 | Some b \<Rightarrow> block_num b)"

definition output_blocks :: "chain_env \<Rightarrow> unit cmd" where
  "output_blocks env s = cfold (write_block env) [log_head_num s + 1..last_irreversible_block_num (db_dgp (cs_db s))] s"

definition update_last_irreversible_block :: "chain_env \<Rightarrow> unit cmd" where
  "update_last_irreversible_block env =
     cbind (on_db new_irreversible_block) (\<lambda>_.
     cbind (cdo (\<lambda>s. upd_store (session_commit (last_irreversible_block_num (db_dgp (cs_db s)))) s)) (\<lambda>_.
     cbind (if skips (ce_node env) skip_block_log then creturn () else output_blocks env) (\<lambda>_.
       cdo (\<lambda>s. let d = db_dgp (cs_db s) in
         s\<lparr>cs_fork := set_max_size (u32 (head_block_number d - last_irreversible_block_num d + 1)) (cs_fork s)\<rparr>))))"

section \<open>Applying a block\<close>

definition checkpoint_flags :: "validation_step list" where
  "checkpoint_flags =
     [skip_witness_signature, skip_transaction_signatures, skip_transaction_dupe_check, skip_fork_db,
      skip_block_size_check, skip_tapos_check, skip_authority_check, skip_undo_history_check,
      skip_witness_schedule_check, skip_validate, skip_validate_invariants]"

text \<open>The flags with which a block is applied, given the checkpoints in ascending order.\<close>

definition block_flags :: "block_hashes \<Rightarrow> (int \<times> block_id_type) list \<Rightarrow> signed_block \<Rightarrow> validation_step list
    \<Rightarrow> validation_step list result" where
  "block_flags hs cps b flags =
     (if cps \<noteq> [] \<and> snd (last cps) \<noteq> 0 then
        FC_ASSERT (case map_of cps (block_num b) of None \<Rightarrow> True | Some i \<Rightarrow> block_id hs b = i) ''Block did not match checkpoint''
          (Inr (if fst (last cps) \<ge> block_num b then checkpoint_flags else flags))
      else Inr flags)"

definition apply_block :: "chain_env \<Rightarrow> signed_block \<Rightarrow> validation_step list \<Rightarrow> unit cmd" where
  "apply_block env b flags =
     cbind (cask (\<lambda>s. block_flags (ce_hashes env) (cs_checkpoints s) b flags)) (\<lambda>fs.
     let e = with_skip_flags fs env in
     cbind (\<lambda>s. on_db (begin_block (node_of e s) (ce_hashes e) b) s) (\<lambda>_.
     cbind (update_last_irreversible_block e) (\<lambda>_.
     cbind (on_db (end_block (ce_hashes e) b)) (\<lambda>_.
       cask (\<lambda>s. if cs_producing s \<or> skip_validate_invariants \<notin> set fs then validate_invariants (cs_db s) else Inr ())))))"

definition fetch_block_by_id :: "chain_env \<Rightarrow> block_id_type \<Rightarrow> chain_state \<Rightarrow> signed_block option result" where
  "fetch_block_by_id env i s =
     (case fetch_block i (cs_fork s) of
        None \<Rightarrow>
          ebind (read_block_by_num (ce_codec env) (num_from_id i) (cs_log s)) (\<lambda>tmp.
            case tmp of
              None \<Rightarrow> Inr None
            | Some b \<Rightarrow> Inr (if block_id (ce_hashes env) b = i then Some b else None))
      | Some p \<Rightarrow> Inr (Some (it_data (snd p))))"

section \<open>Pending transactions\<close>

definition reset_pending_session :: "chain_state \<Rightarrow> chain_state" where
  "reset_pending_session s =
     (if cs_pending_session s then (upd_store session_undo s)\<lparr>cs_pending_session := False\<rparr> else s)"

definition open_pending_session :: "chain_state \<Rightarrow> chain_state" where
  "open_pending_session s =
     (if cs_pending_session s then s else (upd_store session_start s)\<lparr>cs_pending_session := True\<rparr>)"

text \<open>A command in a session of its own that is undone when it throws.\<close>

definition in_session :: "(store \<Rightarrow> store) \<Rightarrow> 'a cmd \<Rightarrow> 'a cmd" where
  "in_session finish m =
     cbind (cdo (upd_store session_start)) (\<lambda>_.
     ccatch (cbind m (\<lambda>x. cbind (cdo (upd_store finish)) (\<lambda>_. creturn x)))
       (\<lambda>e. cbind (cdo (upd_store session_undo)) (\<lambda>_. cthrow e)))"

definition push_pending :: "chain_env \<Rightarrow> signed_transaction \<Rightarrow> unit cmd" where
  "push_pending env t =
     cbind (cdo open_pending_session) (\<lambda>_.
       in_session session_squash
         (cbind (\<lambda>s. on_db (apply_transaction (node_of env s) t) s) (\<lambda>_. cdo (\<lambda>s. s\<lparr>cs_pending := cs_pending s @ [t]\<rparr>))))"

definition push_transaction :: "chain_env \<Rightarrow> signed_transaction \<Rightarrow> validation_step list \<Rightarrow> unit cmd" where
  "push_transaction env t flags =
     ccatch
       (cbind (cask (\<lambda>s. FC_ASSERT (ce_trx_size env t \<le> cfg_max_transaction_size (db_cfg (cs_db s)))
                 ''Transaction size is bigger than SOPHIATX_MAX_TRANSACTION_SIZE'' (Inr ()))) (\<lambda>_.
        cbind (cdo (\<lambda>s. s\<lparr>cs_producing := True\<rparr>)) (\<lambda>_.
        cbind (push_pending (with_skip_flags flags env) t) (\<lambda>_.
          cdo (\<lambda>s. s\<lparr>cs_producing := False\<rparr>)))))
       (\<lambda>e. cbind (cdo (\<lambda>s. s\<lparr>cs_producing := False\<rparr>)) (\<lambda>_. cthrow e))"

definition clear_pending :: "chain_state \<Rightarrow> chain_state" where
  "clear_pending s = reset_pending_session (s\<lparr>cs_pending := []\<rparr>)"

section \<open>Popping and pushing blocks\<close>

text \<open>\<^verbatim>\<open>pop_block\<close> of the database; the fork database moves its own head back, whatever block that is.\<close>

definition chain_pop_block :: "chain_env \<Rightarrow> unit cmd" where
  "chain_pop_block env =
     cbind (cdo reset_pending_session) (\<lambda>_.
     cbind (cask (\<lambda>s. fetch_block_by_id env (head_block_id (db_dgp (cs_db s))) s)) (\<lambda>hb.
       case hb of
         None \<Rightarrow> cthrow Pop_empty_chain
       | Some b \<Rightarrow>
           cbind (cask (\<lambda>s. pop_block (cs_fork s))) (\<lambda>fd.
             cdo (\<lambda>s. upd_store session_undo (s\<lparr>cs_fork := fd, cs_popped := transactions b @ cs_popped s\<rparr>)))))"

text \<open>Each turn moves the head of the fork database to an older item, so the number of addresses given out
  bounds the loop.\<close>

fun pop_until :: "nat \<Rightarrow> chain_env \<Rightarrow> block_id_type \<Rightarrow> unit cmd" where
  "pop_until 0 env i = cthrow Out_of_fuel"
| "pop_until (Suc fuel) env i =
     (\<lambda>s. if head_block_id (db_dgp (cs_db s)) \<noteq> i
          then cbind (chain_pop_block env) (\<lambda>_. pop_until fuel env i) s else (Inr (), s))"

declare pop_until.simps [simp del]

definition pop_to :: "chain_env \<Rightarrow> block_id_type \<Rightarrow> unit cmd" where
  "pop_to env i s = pop_until (Suc (fd_fresh (cs_fork s))) env i s"

definition apply_in_session :: "chain_env \<Rightarrow> validation_step list \<Rightarrow> signed_block \<Rightarrow> unit cmd" where
  "apply_in_session env flags b = in_session (\<lambda>t. t) (apply_block env b flags)"

text \<open>The recovery when a block of the new branch is invalid: forget it and its successors, return to the old
  branch, and throw.\<close>

definition abandon_fork :: "chain_env \<Rightarrow> validation_step list \<Rightarrow> item_ptr list \<Rightarrow> item_ptr list \<Rightarrow> error \<Rightarrow> unit cmd" where
  "abandon_fork env flags bad good e =
     cbind (cdo (\<lambda>s. s\<lparr>cs_fork := set_head (hd good) (fold (\<lambda>p. remove_block (block_id (ce_hashes env) (it_data (snd p)))) bad (cs_fork s))\<rparr>)) (\<lambda>_.
     cbind (pop_to env (previous_id (snd (last good)))) (\<lambda>_.
     cbind (cfold (\<lambda>p. apply_in_session env flags (it_data (snd p))) (rev good)) (\<lambda>_.
       cthrow e)))"

fun apply_branch :: "chain_env \<Rightarrow> validation_step list \<Rightarrow> item_ptr list \<Rightarrow> item_ptr list \<Rightarrow> unit cmd" where
  "apply_branch env flags [] good = creturn ()"
| "apply_branch env flags (p # ps) good =
     cbind (ccatch (cbind (apply_in_session env flags (it_data (snd p))) (\<lambda>_. creturn None)) (\<lambda>e. creturn (Some e))) (\<lambda>except.
       case except of
         Some e \<Rightarrow> abandon_fork env flags (p # ps) good e
       | None \<Rightarrow> apply_branch env flags ps good)"

definition switch_forks :: "chain_env \<Rightarrow> validation_step list \<Rightarrow> signed_block \<Rightarrow> unit cmd" where
  "switch_forks env flags new_head =
     cbind (cask (\<lambda>s. fetch_branch_from (block_id (ce_hashes env) new_head) (head_block_id (db_dgp (cs_db s))) (cs_fork s)))
       (\<lambda>(new, old).
     cbind (pop_to env (previous_id (snd (last old)))) (\<lambda>_.
       apply_branch env flags (rev new) old))"

text \<open>The last part of \<^verbatim>\<open>_push_block\<close>: the block builds on the head.\<close>

definition extend_chain :: "chain_env \<Rightarrow> validation_step list \<Rightarrow> signed_block \<Rightarrow> bool cmd" where
  "extend_chain env flags b =
     cbind (ccatch (apply_in_session env flags b)
       (\<lambda>e. cbind (cdo (\<lambda>s. s\<lparr>cs_fork := remove_block (block_id (ce_hashes env) b) (cs_fork s)\<rparr>)) (\<lambda>_. cthrow e)))
     (\<lambda>_. creturn False)"

definition try_block :: "chain_env \<Rightarrow> signed_block \<Rightarrow> bool cmd" where
  "try_block env b =
     (let flags = skip (ce_node env) in
      if skip_fork_db \<in> set flags then extend_chain env flags b
      else
        cbind (cask (\<lambda>s. push_block (ce_hashes env) b (cs_fork s))) (\<lambda>(np, fd).
        cbind (cdo (\<lambda>s. s\<lparr>cs_fork := fd\<rparr>)) (\<lambda>_ s.
          let new_head = it_data (snd np) in
          if previous new_head \<noteq> head_block_id (db_dgp (cs_db s)) then
            if block_num new_head > head_block_num (cs_db s)
            then cbind (switch_forks env flags new_head) (\<lambda>_. creturn True) s
            else (Inr False, s)
          else extend_chain env flags b s)))"

text \<open>\<^verbatim>\<open>without_pending_transactions\<close>: the destructor of the restorer runs after success and after an exception.\<close>

definition restore_transaction :: "chain_env \<Rightarrow> signed_transaction \<Rightarrow> unit cmd" where
  "restore_transaction env t =
     (\<lambda>s. if is_known_transaction (trx_id (ce_node env) t) (cs_db s) then (Inr (), s)
          else ccatch (push_pending env t) (\<lambda>_. creturn ()) s)"

definition restore_pending :: "chain_env \<Rightarrow> signed_transaction list \<Rightarrow> unit cmd" where
  "restore_pending env ts =
     (\<lambda>s. cbind (cfold (restore_transaction env) (cs_popped s)) (\<lambda>_.
          cbind (cdo (\<lambda>t. t\<lparr>cs_popped := []\<rparr>)) (\<lambda>_. cfold (restore_transaction env) ts)) s)"

definition without_pending_transactions :: "chain_env \<Rightarrow> 'a cmd \<Rightarrow> 'a cmd" where
  "without_pending_transactions env m s =
     (case m (clear_pending s) of (r, t) \<Rightarrow> (r, snd (restore_pending env (cs_pending s) t)))"

definition chain_push_block :: "chain_env \<Rightarrow> signed_block \<Rightarrow> validation_step list \<Rightarrow> bool cmd" where
  "chain_push_block env b flags =
     (let e = with_skip_flags flags env in without_pending_transactions e (try_block e b))"

section \<open>Producing a block\<close>

definition SOPHIATX_BLOCKCHAIN_VERSION :: version where
  "SOPHIATX_BLOCKCHAIN_VERSION = mk_version 1 2 0"

text \<open>The transactions of the new block, with the size they take: expired ones are left out, too large ones
  wait, invalid ones are dropped.\<close>

definition include_transaction :: "chain_env \<Rightarrow> signed_transaction \<Rightarrow> unit cmd" where
  "include_transaction env t = in_session session_squash (\<lambda>s. on_db (apply_transaction (node_of env s) t) s)"

fun select_transactions :: "chain_env \<Rightarrow> time_point_sec \<Rightarrow> int \<Rightarrow> signed_transaction list
    \<Rightarrow> int \<Rightarrow> signed_transaction list cmd" where
  "select_transactions env t maximum [] size_so_far = creturn []"
| "select_transactions env t maximum (x # xs) size_so_far =
     (if trx_expiration x < t \<or> size_so_far + ce_trx_size env x \<ge> maximum then select_transactions env t maximum xs size_so_far
      else
        cbind (ccatch (cbind (include_transaction env x) (\<lambda>_. creturn True)) (\<lambda>_. creturn False)) (\<lambda>ok.
          if ok then cbind (select_transactions env t maximum xs (size_so_far + ce_trx_size env x)) (\<lambda>r. creturn (x # r))
          else select_transactions env t maximum xs size_so_far))"

definition version_extensions :: "database \<Rightarrow> witness_object \<Rightarrow> block_header_extension list" where
  "version_extensions db w =
     (let hfp = db_hardfork db; vs = hardfork_versions; ts = hardfork_times (db_cfg db); l = last_hardfork hfp in
      (if running_version w \<noteq> SOPHIATX_BLOCKCHAIN_VERSION then [Ext_version SOPHIATX_BLOCKCHAIN_VERSION] else []) @
      (if hf_less_version (current_hardfork_version hfp) SOPHIATX_BLOCKCHAIN_VERSION \<and>
          (hardfork_version_vote w \<noteq> vs ! (l + 1) \<or> hardfork_time_vote w \<noteq> ts ! (l + 1))
       then [Ext_hardfork_vote (vs ! (l + 1)) (ts ! (l + 1))]
       else if hf_eq_version (current_hardfork_version hfp) SOPHIATX_BLOCKCHAIN_VERSION \<and>
          hardfork_version_vote w > hardfork_version_of SOPHIATX_BLOCKCHAIN_VERSION
       then [Ext_hardfork_vote (vs ! l) (ts ! l)] else []))"

definition pending_block :: "chain_env \<Rightarrow> time_point_sec \<Rightarrow> account_name_type \<Rightarrow> int \<Rightarrow> signed_transaction list
    \<Rightarrow> chain_state \<Rightarrow> signed_block result" where
  "pending_block env t w key txs s =
     ebind (get_witness w (cs_db s)) (\<lambda>wo.
     let b0 = \<lparr>previous = head_block_id (db_dgp (cs_db s)), timestamp = t, header_witness = name_text w, transaction_merkle_root = 0,
           blk_extensions = version_extensions (cs_db s) wo, witness_signature = 0, transactions = txs\<rparr>;
         b1 = b0\<lparr>transaction_merkle_root := calculate_merkle_root (ce_hashes env) b0\<rparr>;
         b2 = (if skips (ce_node env) skip_witness_signature then b1 else ce_sign env key (has_hardfork 1 (cs_db s)) b1)
     in FC_ASSERT (skips (ce_node env) skip_block_size_check \<or>
          block_pack_size (ce_hashes env) b2 \<le> cfg_max_block_size (db_cfg (cs_db s))) '''' (Inr b2))"

definition check_producer :: "chain_env \<Rightarrow> time_point_sec \<Rightarrow> account_name_type \<Rightarrow> int \<Rightarrow> database \<Rightarrow> unit result" where
  "check_producer env t w key db =
     (let slot_num = get_slot_at_time t db in
      FC_ASSERT (slot_num > 0) ''''
      (FC_ASSERT (get_scheduled_witness slot_num db = w) ''''
      (ebind (get_witness w db) (\<lambda>wo.
       FC_ASSERT (skips (ce_node env) skip_witness_signature \<or> signing_key wo = ce_public_key env key)
         ''The witness signing key is different to the block generation key'' (Inr ())))))"

definition generate_block :: "chain_env \<Rightarrow> time_point_sec \<Rightarrow> account_name_type \<Rightarrow> int \<Rightarrow> validation_step list
    \<Rightarrow> signed_block cmd" where
  "generate_block env0 t w key flags =
     (let env = with_skip_flags flags env0 in
      cbind (cask (\<lambda>s. check_producer env t w key (cs_db s))) (\<lambda>_ s0.
      cbind (cdo (\<lambda>s. open_pending_session (reset_pending_session s))) (\<lambda>_.
      cbind (select_transactions env t (dgp_maximum_block_size (db_dgp (cs_db s0))) (cs_pending s0) (ce_header_size env + 4)) (\<lambda>txs.
      cbind (cdo reset_pending_session) (\<lambda>_.
      cbind (cask (pending_block env t w key txs)) (\<lambda>b.
      cbind (chain_push_block env b flags) (\<lambda>_. creturn b))))) s0))"

section \<open>Opening and replaying\<close>

definition init_hardforks :: "database \<Rightarrow> unit result" where
  "init_hardforks db =
     (let l = last_hardfork (db_hardfork db) in
      FC_ASSERT (l \<le> SOPHIATX_NUM_HARDFORKS) ''Chain knows of more hardforks than configuration''
      (FC_ASSERT (hardfork_versions ! l \<le> hardfork_version_of SOPHIATX_BLOCKCHAIN_VERSION)
         ''Blockchain version is older than last applied hardfork''
      (FC_ASSERT (hardfork_version_of SOPHIATX_BLOCKCHAIN_VERSION = hardfork_versions ! SOPHIATX_NUM_HARDFORKS) '''' (Inr ()))))"

text \<open>\<^verbatim>\<open>open\<close> on the store that is left in shared memory, if any, and on the two files of the log. The checkpoints were added
  before.\<close>

definition opened_store :: "genesis_state_type \<Rightarrow> store option \<Rightarrow> store result" where
  "opened_store genesis saved =
     (case saved of
        Some t \<Rightarrow> Inr t
      | None \<Rightarrow> ebind (init_genesis genesis) (\<lambda>d. Inr \<lparr>st_db = d, st_torn = False, st_revision = 0, st_stack = []\<rparr>))"

definition start_fork :: "chain_env \<Rightarrow> dynamic_global_property_object \<Rightarrow> block_log \<Rightarrow> fork_database result" where
  "start_fork env d bl =
     (if head_block_number d = 0 then Inr empty_fork_database
      else
        ebind (read_block_by_num (ce_codec env) (head_block_number d) bl) (\<lambda>hb.
          case hb of
            Some b \<Rightarrow> FC_ASSERT (block_id (ce_hashes env) b = head_block_id d)
                ''Chain state does not match block log. Please reindex blockchain.''
                (Inr (start_block (ce_hashes env) b empty_fork_database))
          | None \<Rightarrow> Inl (Assert_exception ''Chain state does not match block log. Please reindex blockchain.'')))"

definition open_chain :: "chain_env \<Rightarrow> genesis_state_type \<Rightarrow> bool \<Rightarrow> (int \<times> block_id_type) list \<Rightarrow> store option \<Rightarrow> bytes \<Rightarrow> bytes
    \<Rightarrow> chain_state result" where
  "open_chain env genesis do_validate checkpoints saved blocks index =
     ebind (opened_store genesis saved) (\<lambda>st.
     ebind (open_block_log (ce_codec env) (ce_hashes env) blocks index) (\<lambda>bl.
     let st1 = session_undo_all st; db = st_db st1 in
     FC_ASSERT (st_revision st1 = head_block_num db) ''Chainbase revision does not match head block num''
     (ebind (if do_validate then validate_invariants db else Inr ()) (\<lambda>_.
      ebind (start_fork env (db_dgp db) bl) (\<lambda>fd.
      ebind (init_hardforks db) (\<lambda>_.
        Inr \<lparr>cs_store = st1, cs_fork = fd, cs_log = bl, cs_pending = [], cs_pending_session = False, cs_popped = [],
             cs_checkpoints = checkpoints, cs_producing = False\<rparr>))))))"

definition replay_flags :: "validation_step list" where
  "replay_flags =
     [skip_witness_signature, skip_transaction_signatures, skip_transaction_dupe_check, skip_tapos_check, skip_merkle_check,
      skip_witness_schedule_check, skip_authority_check, skip_validate, skip_validate_invariants, skip_block_log]"

text \<open>The position behind a block grows with every turn, so the length of the log bounds the loop.\<close>

fun replay_loop :: "nat \<Rightarrow> chain_env \<Rightarrow> int \<Rightarrow> signed_block \<times> int \<Rightarrow> int cmd" where
  "replay_loop 0 env last_num itr = cthrow Out_of_fuel"
| "replay_loop (Suc fuel) env last_num itr =
     (if block_num (fst itr) \<noteq> last_num then
        cbind (apply_block env (fst itr) replay_flags) (\<lambda>_.
        cbind (cask (\<lambda>s. read_block (ce_codec env) (snd itr) (cs_log s))) (replay_loop fuel env last_num))
      else cbind (apply_block env (fst itr) replay_flags) (\<lambda>_. creturn (block_num (fst itr))))"

declare replay_loop.simps [simp del]

definition reset_revision :: "unit cmd" where
  "reset_revision s =
     (if st_stack (cs_store s) \<noteq> [] then (Inl (Logic_error ''cannot set revision while there is an existing undo stack''), s)
      else (Inr (), upd_store (\<lambda>t. t\<lparr>st_revision := head_block_num (st_db t)\<rparr>) s))"

definition replay :: "chain_env \<Rightarrow> int \<Rightarrow> int cmd" where
  "replay env stop_at s0 =
     (case bl_head (cs_log s0) of
        None \<Rightarrow> (Inl Block_log_exception, s0)
      | Some h \<Rightarrow>
          cbind (cask (\<lambda>s. read_block (ce_codec env) 0 (cs_log s))) (\<lambda>itr.
          cbind (replay_loop (Suc (length (bl_blocks (cs_log s0)))) env
                   (if stop_at > 0 \<and> stop_at < block_num h then stop_at else block_num h) itr) (\<lambda>n.
          cbind reset_revision (\<lambda>_.
          cbind (cdo (\<lambda>s. case bl_head (cs_log s) of
              None \<Rightarrow> s
            | Some l \<Rightarrow> if block_num l \<noteq> 0 then s\<lparr>cs_fork := start_block (ce_hashes env) l (cs_fork s)\<rparr> else s)) (\<lambda>_.
            creturn n)))) s0)"

definition reindex :: "chain_env \<Rightarrow> genesis_state_type \<Rightarrow> bool \<Rightarrow> (int \<times> block_id_type) list \<Rightarrow> int \<Rightarrow> bytes \<Rightarrow> bytes
    \<Rightarrow> (int \<times> chain_state) result" where
  "reindex env genesis do_validate checkpoints stop_at blocks index =
     ebind (open_chain env genesis do_validate checkpoints None blocks index) (\<lambda>s0.
       case replay env stop_at (s0\<lparr>cs_fork := reset (cs_fork s0)\<rparr>) of
         (Inl e, _) \<Rightarrow> Inl e
       | (Inr n, s) \<Rightarrow> Inr (n, s))"

end
