(* ===== verification/Chain_Safety.thy ===== *)
theory Chain_Safety
  imports Chain_Controller
begin

text \<open>
  Safety of the chain controller: what an exception leaves behind. Pending transactions never reach the
  state of the head block, a rejected block is unwound, popping a block undoes it, and the loops of a
  fork switch end. The common part is a locale of relations between the states before and after a
  command.
\<close>

section \<open>Commands\<close>

named_theorems cmd_simps \<open>inversion of commands\<close>

lemma cbind_eq_Inr [cmd_simps]: "cbind m f s = (Inr y, t) \<longleftrightarrow> (\<exists>x u. m s = (Inr x, u) \<and> f x u = (Inr y, t))"
  by (auto simp: cbind_def split: prod.splits sum.splits)

lemma cbind_eq_Inl [cmd_simps]:
  "cbind m f s = (Inl e, t) \<longleftrightarrow> m s = (Inl e, t) \<or> (\<exists>x u. m s = (Inr x, u) \<and> f x u = (Inl e, t))"
  by (auto simp: cbind_def split: prod.splits sum.splits)

lemma ccatch_eq_Inr [cmd_simps]:
  "ccatch m h s = (Inr y, t) \<longleftrightarrow> m s = (Inr y, t) \<or> (\<exists>e u. m s = (Inl e, u) \<and> h e u = (Inr y, t))"
  by (auto simp: ccatch_def split: prod.splits sum.splits)

lemma ccatch_eq_Inl [cmd_simps]: "ccatch m h s = (Inl e, t) \<longleftrightarrow> (\<exists>d u. m s = (Inl d, u) \<and> h d u = (Inl e, t))"
  by (auto simp: ccatch_def split: prod.splits sum.splits)

lemma plain_cmds [cmd_simps]:
  "creturn x s = (r, t) \<longleftrightarrow> r = Inr x \<and> t = s" "cthrow e s = (q, t) \<longleftrightarrow> q = Inl e \<and> t = s"
  "cdo f s = (p, t) \<longleftrightarrow> p = Inr () \<and> t = f s" "cask g s = (o1, t) \<longleftrightarrow> g s = o1 \<and> t = s"
  by (auto simp: creturn_def cthrow_def cdo_def cask_def)

lemma on_db_eq_Inr [cmd_simps]: "on_db f s = (Inr u, t) \<longleftrightarrow> (\<exists>d. f (cs_db s) = Inr d \<and> t = set_db d s)"
  by (auto simp: on_db_def split: sum.splits)

lemma on_db_eq_Inl [cmd_simps]: "on_db f s = (Inl e, t) \<longleftrightarrow> f (cs_db s) = Inl e \<and> t = tear s"
  by (auto simp: on_db_def split: sum.splits)

lemma cbind_assoc: "cbind (cbind m f) g = cbind m (\<lambda>x. cbind (f x) g)"
  by (simp add: cbind_def fun_eq_iff split: prod.splits sum.splits)

lemma cbind_step: "m s = (Inr x, t) \<Longrightarrow> cbind m f s = f x t"
  by (simp add: cbind_def)

lemma cbind_plain:
  "cbind (cask g) f s = (case g s of Inl e \<Rightarrow> (Inl e, s) | Inr x \<Rightarrow> f x s)" "cbind (cdo h) k s = k () (h s)"
  by (simp_all add: cbind_def cask_def cdo_def split: sum.splits)

lemma set_db_fields [simp]:
  "cs_db (set_db d s) = d" "st_revision (cs_store (set_db d s)) = st_revision (cs_store s)"
  "st_stack (cs_store (set_db d s)) = st_stack (cs_store s)" "st_torn (cs_store (set_db d s)) = st_torn (cs_store s)"
  "st_revision (cs_store (tear s)) = st_revision (cs_store s)" "st_stack (cs_store (tear s)) = st_stack (cs_store s)"
  "cs_store (upd_store f s) = f (cs_store s)"
  by (simp_all add: set_db_def tear_def upd_store_def)

lemma upd_store_rest [simp]:
  "cs_fork (upd_store f s) = cs_fork s" "cs_log (upd_store f s) = cs_log s" "cs_pending (upd_store f s) = cs_pending s"
  "cs_pending_session (upd_store f s) = cs_pending_session s" "cs_popped (upd_store f s) = cs_popped s"
  "cs_checkpoints (upd_store f s) = cs_checkpoints s" "cs_producing (upd_store f s) = cs_producing s"
  "cs_fork (set_db d s) = cs_fork s" "cs_log (set_db d s) = cs_log s" "cs_pending (set_db d s) = cs_pending s"
  "cs_pending_session (set_db d s) = cs_pending_session s" "cs_popped (set_db d s) = cs_popped s"
  "cs_checkpoints (set_db d s) = cs_checkpoints s" "cs_producing (set_db d s) = cs_producing s"
  "cs_fork (tear s) = cs_fork s" "cs_log (tear s) = cs_log s" "cs_pending (tear s) = cs_pending s"
  "cs_pending_session (tear s) = cs_pending_session s" "cs_popped (tear s) = cs_popped s"
  "cs_checkpoints (tear s) = cs_checkpoints s" "cs_producing (tear s) = cs_producing s"
  by (simp_all add: upd_store_def set_db_def tear_def)

lemma upd_store_id: "upd_store (\<lambda>x. x) s = s"
  by (simp add: upd_store_def)

section \<open>What a command may change\<close>

locale frame =
  fixes R :: "chain_state \<Rightarrow> chain_state \<Rightarrow> bool"
  assumes R_refl: "R s s" and R_trans: "R s t \<Longrightarrow> R t u \<Longrightarrow> R s u"
begin

lemma bind_frame: "(\<And>s. R s (snd (m s))) \<Longrightarrow> (\<And>x s. R s (snd (f x s))) \<Longrightarrow> R s (snd (cbind m f s))"
  by (auto simp: cbind_def split: prod.splits sum.splits) (metis R_trans snd_conv)+

lemma catch_frame: "(\<And>s. R s (snd (m s))) \<Longrightarrow> (\<And>e s. R s (snd (h e s))) \<Longrightarrow> R s (snd (ccatch m h s))"
  by (auto simp: ccatch_def split: prod.splits sum.splits) (metis R_trans snd_conv)+

lemma fold_frame: "(\<And>x s. R s (snd (f x s))) \<Longrightarrow> R s (snd (cfold f xs s))"
  by (induction xs arbitrary: s) (auto simp: creturn_def R_refl intro: bind_frame)

lemma plain_frame: "R s (snd (creturn x s))" "R s (snd (cthrow e s))" "R s (snd (cask g s))"
  by (simp_all add: creturn_def cthrow_def cask_def R_refl)

end

text \<open>A \<^emph>\<open>quiet\<close> command leaves the sessions and the pending transactions alone, and of the fork database the
  head and the addresses.\<close>

definition quiet :: "chain_state \<Rightarrow> chain_state \<Rightarrow> bool" where
  "quiet s t \<longleftrightarrow> st_revision (cs_store t) = st_revision (cs_store s) \<and> st_stack (cs_store t) = st_stack (cs_store s) \<and>
     cs_pending t = cs_pending s \<and> cs_pending_session t = cs_pending_session s \<and> cs_popped t = cs_popped s \<and>
     cs_checkpoints t = cs_checkpoints s \<and> cs_producing t = cs_producing s \<and>
     fd_head (cs_fork t) = fd_head (cs_fork s) \<and> fd_fresh (cs_fork t) = fd_fresh (cs_fork s) \<and>
     set (fd_index (cs_fork t)) \<subseteq> set (fd_index (cs_fork s))"

interpretation quiet: frame quiet
  by unfold_locales (auto simp: quiet_def)

lemma quiet_on_db: "quiet s (snd (on_db f s))"
  by (auto simp: on_db_def quiet_def split: sum.splits)

lemma quiet_write_block: "quiet s (snd (write_block env n s))"
  unfolding write_block_def
  by (auto intro!: quiet.bind_frame quiet.plain_frame split: option.splits) (simp add: cdo_def quiet_def)

lemma quiet_output_blocks: "quiet s (snd (output_blocks env s))"
  unfolding output_blocks_def by (intro quiet.fold_frame quiet_write_block)

lemma quiet_max_size:
  "quiet s (snd (cdo (\<lambda>s. let d = db_dgp (cs_db s) in s\<lparr>cs_fork := set_max_size (g d) (cs_fork s)\<rparr>) s))"
  by (auto simp: cdo_def Let_def quiet_def set_max_size_def split: option.splits)

text \<open>A block that becomes irreversible while it is being applied.\<close>

definition commits_itself :: "chain_env \<Rightarrow> signed_block \<Rightarrow> validation_step list \<Rightarrow> chain_state \<Rightarrow> bool" where
  "commits_itself env b flags s =
     (case block_flags (ce_hashes env) (cs_checkpoints s) b flags of
        Inl _ \<Rightarrow> False
      | Inr fs \<Rightarrow>
          succeeds (begin_block (node_of (with_skip_flags fs env) s) (ce_hashes env) b (cs_db s)) (\<lambda>d.
          succeeds (new_irreversible_block d) (\<lambda>d1. st_revision (cs_store s) < last_irreversible_block_num (db_dgp d1))))"

lemma with_skip_flags_hashes [simp]:
  "ce_hashes (with_skip_flags fs env) = ce_hashes env" "ce_codec (with_skip_flags fs env) = ce_codec env"
  by (simp_all add: with_skip_flags_def)

lemma apply_block_effect:
  assumes "apply_block env b flags s = (r, t)"
  shows "quiet s t \<or> (\<exists>fs d d1. block_flags (ce_hashes env) (cs_checkpoints s) b flags = Inr fs \<and>
    begin_block (node_of (with_skip_flags fs env) s) (ce_hashes env) b (cs_db s) = Inr d \<and> new_irreversible_block d = Inr d1 \<and>
    quiet (upd_store (session_commit (last_irreversible_block_num (db_dgp d1))) s) t)"
proof (cases "block_flags (ce_hashes env) (cs_checkpoints s) b flags")
  case (Inl e)
  with assms have "t = s" by (auto simp: apply_block_def cbind_def cask_def)
  then show ?thesis by (simp add: quiet.R_refl)
next
  case (Inr fs)
  let ?e = "with_skip_flags fs env"
  let ?rest = "\<lambda>_. cbind (update_last_irreversible_block ?e) (\<lambda>_. cbind (on_db (end_block (ce_hashes ?e) b)) (\<lambda>_.
       cask (\<lambda>s. if cs_producing s \<or> skip_validate_invariants \<notin> set fs then validate_invariants (cs_db s) else Inr ())))"
  have run: "cbind (\<lambda>s. on_db (begin_block (node_of ?e s) (ce_hashes ?e) b) s) ?rest s = (r, t)"
    using assms Inr by (simp add: apply_block_def cbind_def cask_def Let_def)
  show ?thesis
  proof (cases "begin_block (node_of ?e s) (ce_hashes env) b (cs_db s)")
    case (Inl e)
    with run have "t = tear s" by (simp add: cbind_def on_db_def)
    then show ?thesis by (simp add: quiet_def)
  next
    case begun: (Inr d)
    show ?thesis
    proof (cases "new_irreversible_block d")
      case (Inl e)
      with run begun have "t = tear (set_db d s)" by (simp add: cbind_def on_db_def update_last_irreversible_block_def)
      then show ?thesis by (simp add: quiet_def)
    next
      case lib: (Inr d1)
      let ?c = "upd_store (session_commit (last_irreversible_block_num (db_dgp d1))) (set_db d1 (set_db d s))"
      let ?tail = "cbind (if skips (ce_node ?e) skip_block_log then creturn () else output_blocks ?e) (\<lambda>_.
        cbind (cdo (\<lambda>s. let d = db_dgp (cs_db s) in
         s\<lparr>cs_fork := set_max_size (u32 (head_block_number d - last_irreversible_block_num d + 1)) (cs_fork s)\<rparr>)) (\<lambda>_.
        cbind (on_db (end_block (ce_hashes ?e) b)) (\<lambda>_.
       cask (\<lambda>s. if cs_producing s \<or> skip_validate_invariants \<notin> set fs then validate_invariants (cs_db s) else Inr ()))))"
      have "cbind (\<lambda>s. on_db (begin_block (node_of ?e s) (ce_hashes ?e) b) s) ?rest s = ?rest () (set_db d s)"
        using begun by (intro cbind_step) (simp add: on_db_def)
      also have "\<dots> = ?tail ?c"
        unfolding update_last_irreversible_block_def cbind_assoc
        by (subst cbind_step [where x = "()" and t = "set_db d1 (set_db d s)"], simp add: on_db_def lib,
            subst cbind_step [where x = "()" and t = ?c], simp add: cdo_def, rule refl)
      finally have "snd (?tail ?c) = t" using run by simp
      moreover have "quiet ?c (snd (?tail ?c))"
        by (intro quiet.bind_frame quiet_on_db quiet_max_size quiet.plain_frame) (simp add: quiet.plain_frame quiet_output_blocks)
      moreover have "quiet (upd_store (session_commit (last_irreversible_block_num (db_dgp d1))) s) ?c"
        by (simp add: quiet_def session_commit_def)
      ultimately show ?thesis using Inr begun lib quiet.R_trans by blast
    qed
  qed
qed

section \<open>Blocks in a session\<close>

lemma commit_keeps_top:
  assumes "st_stack s = u # r" "n < fst u"
  shows "\<exists>r'. st_stack (session_commit n s) = u # r'"
  using assms dropWhile_append3 [of "\<lambda>u. fst u \<le> n" u "rev r" "[]"] by (simp add: session_commit_def)

lemma session_start_fields [simp]:
  "st_db (session_start t) = st_db t" "st_torn (session_start t) = st_torn t" "st_revision (session_start t) = st_revision t + 1"
  "st_stack (session_start t) = (st_revision t + 1, st_db t, st_torn t) # st_stack t"
  by (simp_all add: session_start_def)

lemma node_of_start [simp]: "node_of env (upd_store f s) = node_of env s"
  by (simp add: node_of_def)

text \<open>The stores that differ only in the sessions that are left.\<close>

definition restored :: "store \<Rightarrow> store \<Rightarrow> bool" where
  "restored t t' \<longleftrightarrow> st_db t' = st_db t \<and> st_torn t' = st_torn t \<and> st_revision t' = st_revision t"

lemma in_session_cases:
  "in_session fin m s = (r, t) \<longleftrightarrow>
     (case m (upd_store session_start s) of
        (Inl e, u) \<Rightarrow> r = Inl e \<and> t = upd_store session_undo u
      | (Inr x, u) \<Rightarrow> r = Inr x \<and> t = upd_store fin u)"
  by (auto simp: in_session_def cbind_def ccatch_def cdo_def creturn_def cthrow_def split: prod.splits sum.splits)

lemma in_session_Inr: "in_session fin m s = (Inr x, t) \<Longrightarrow> \<exists>u. m (upd_store session_start s) = (Inr x, u) \<and> t = upd_store fin u"
  unfolding in_session_cases by (auto split: prod.splits sum.splits)

lemma in_session_Inl:
  "in_session fin m s = (Inl e, t) \<Longrightarrow> \<exists>u. m (upd_store session_start s) = (Inl e, u) \<and> t = upd_store session_undo u"
  unfolding in_session_cases by (auto split: prod.splits sum.splits)

lemma block_session_kept:
  assumes run: "apply_block env b flags (upd_store session_start s) = (r, u)" and nc: "\<not> commits_itself env b flags s"
  shows "restored (cs_store s) (session_undo (cs_store u)) \<and> cs_pending u = cs_pending s \<and>
    cs_pending_session u = cs_pending_session s \<and> cs_popped u = cs_popped s \<and> cs_checkpoints u = cs_checkpoints s \<and>
    cs_producing u = cs_producing s"
proof -
  let ?s = "upd_store session_start s"
  have keep: ?thesis if "quiet v u" "st_stack (cs_store v) = (st_revision (cs_store s) + 1, cs_db s, st_torn (cs_store s)) # q"
    "st_revision (cs_store v) = st_revision (cs_store s) + 1" "cs_pending v = cs_pending s"
    "cs_pending_session v = cs_pending_session s" "cs_popped v = cs_popped s" "cs_checkpoints v = cs_checkpoints s"
    "cs_producing v = cs_producing s" for v q
    using that by (simp add: quiet_def restored_def session_undo_def)
  from apply_block_effect [OF run] show ?thesis
  proof
    assume "quiet ?s u"
    then show ?thesis by (rule keep) simp_all
  next
    assume "\<exists>fs d d1. block_flags (ce_hashes env) (cs_checkpoints ?s) b flags = Inr fs \<and>
      begin_block (node_of (with_skip_flags fs env) ?s) (ce_hashes env) b (cs_db ?s) = Inr d \<and> new_irreversible_block d = Inr d1 \<and>
      quiet (upd_store (session_commit (last_irreversible_block_num (db_dgp d1))) ?s) u"
    then obtain fs d d1 where f: "block_flags (ce_hashes env) (cs_checkpoints s) b flags = Inr fs"
        "begin_block (node_of (with_skip_flags fs env) s) (ce_hashes env) b (cs_db s) = Inr d" "new_irreversible_block d = Inr d1"
      and q: "quiet (upd_store (session_commit (last_irreversible_block_num (db_dgp d1))) ?s) u" by auto
    have n: "last_irreversible_block_num (db_dgp d1) < st_revision (cs_store s) + 1"
      using nc f by (simp add: commits_itself_def succeeds_def)
    obtain q' where "st_stack (session_commit (last_irreversible_block_num (db_dgp d1)) (cs_store ?s)) =
        (st_revision (cs_store s) + 1, cs_db s, st_torn (cs_store s)) # q'"
      using commit_keeps_top [of "cs_store ?s"] n by fastforce
    then show ?thesis by (intro keep [OF q]) (simp_all add: session_commit_def)
  qed
qed

lemma failed_block_restored:
  assumes "apply_in_session env flags b s = (Inl e, t)" "\<not> commits_itself env b flags s"
  shows "restored (cs_store s) (cs_store t) \<and> cs_pending t = cs_pending s \<and> cs_pending_session t = cs_pending_session s \<and>
    cs_popped t = cs_popped s \<and> cs_checkpoints t = cs_checkpoints s \<and> cs_producing t = cs_producing s"
proof -
  from assms(1) obtain u where u: "apply_block env b flags (upd_store session_start s) = (Inl e, u)" "t = upd_store session_undo u"
    unfolding apply_in_session_def by (auto dest!: in_session_Inl)
  from block_session_kept [OF u(1) assms(2)] show ?thesis by (simp add: u(2))
qed

section \<open>Pending transactions\<close>

text \<open>The state below the pending transactions.\<close>

definition pending_over :: "store \<Rightarrow> chain_state \<Rightarrow> bool" where
  "pending_over b s \<longleftrightarrow>
     (if cs_pending_session s
      then st_revision (cs_store s) = st_revision b + 1 \<and> st_stack (cs_store s) = (st_revision b + 1, st_db b, st_torn b) # st_stack b
      else cs_store s = b)"

definition base_store :: "chain_state \<Rightarrow> store" where
  "base_store s = (if cs_pending_session s then session_undo (cs_store s) else cs_store s)"

lemma pending_over_base: "pending_over b s \<Longrightarrow> base_store s = b"
  by (auto simp: pending_over_def base_store_def session_undo_def split: if_splits)

lemma reset_pending_store: "cs_store (reset_pending_session s) = base_store s"
  by (simp add: reset_pending_session_def base_store_def)

lemma open_pending_over: "pending_over b s \<Longrightarrow> pending_over b (open_pending_session s) \<and> cs_pending_session (open_pending_session s)"
  by (auto simp: pending_over_def open_pending_session_def)

text \<open>A transaction in a session of its own, above an open session.\<close>

lemma nested_session_over:
  assumes "pending_over b s" "cs_pending_session s"
    and m: "\<And>u. st_revision (cs_store (snd (m u))) = st_revision (cs_store u) \<and> st_stack (cs_store (snd (m u))) = st_stack (cs_store u) \<and>
      cs_pending_session (snd (m u)) = cs_pending_session u"
  shows "pending_over b (snd (in_session session_squash m s)) \<and> cs_pending_session (snd (in_session session_squash m s))"
proof -
  let ?s = "upd_store session_start s"
  obtain r u where run: "m ?s = (r, u)" by fastforce
  with m [of ?s] have u: "st_revision (cs_store u) = st_revision b + 2" "cs_pending_session u"
    "st_stack (cs_store u) = (st_revision b + 2, cs_db s, st_torn (cs_store s)) # (st_revision b + 1, st_db b, st_torn b) # st_stack b"
    using assms by (simp_all add: pending_over_def)
  have "snd (in_session session_squash m s) = (case r of Inl _ \<Rightarrow> upd_store session_undo u | Inr _ \<Rightarrow> upd_store session_squash u)"
    using run in_session_cases [of session_squash m s "fst (in_session session_squash m s)" "snd (in_session session_squash m s)"]
    by (simp split: sum.splits)
  with u show ?thesis by (auto simp: pending_over_def session_undo_def session_squash_def split: sum.splits)
qed

lemma push_pending_over: "pending_over b s \<Longrightarrow> pending_over b (snd (push_pending env t s))"
proof -
  let ?m = "cbind (\<lambda>s. on_db (apply_transaction (node_of env s) t) s) (\<lambda>_. cdo (\<lambda>s. s\<lparr>cs_pending := cs_pending s @ [t]\<rparr>))"
  assume "pending_over b s"
  note o = open_pending_over [OF this]
  have "snd (push_pending env t s) = snd (in_session session_squash ?m (open_pending_session s))"
    by (simp add: push_pending_def cbind_def cdo_def)
  then show "pending_over b (snd (push_pending env t s))"
    using nested_session_over [of b "open_pending_session s" ?m] o
    by (simp add: cbind_def on_db_def cdo_def split: sum.splits)
qed

lemma pending_over_producing: "pending_over b (s\<lparr>cs_producing := p\<rparr>) = pending_over b s"
  by (simp add: pending_over_def)

lemma push_transaction_over:
  assumes "pending_over b s"
  shows "pending_over b (snd (push_transaction env t flags s))"
proof (cases "ce_trx_size env t \<le> cfg_max_transaction_size (db_cfg (cs_db s))")
  case True
  let ?p = "push_pending (with_skip_flags flags env) t (s\<lparr>cs_producing := True\<rparr>)"
  have "pending_over b (snd ?p)" using assms by (intro push_pending_over) (simp add: pending_over_producing)
  moreover have "snd (push_transaction env t flags s) = (snd ?p)\<lparr>cs_producing := False\<rparr>"
    using True by (simp add: push_transaction_def ccatch_def cbind_def cask_def cdo_def cthrow_def FC_ASSERT_def split: prod.splits sum.splits)
  ultimately show ?thesis by (simp add: pending_over_producing)
next
  case False
  then have "snd (push_transaction env t flags s) = s\<lparr>cs_producing := False\<rparr>"
    by (simp add: push_transaction_def ccatch_def cbind_def cask_def cdo_def cthrow_def FC_ASSERT_def)
  with assms show ?thesis by (simp add: pending_over_producing)
qed

definition push_transactions :: "(chain_env \<times> signed_transaction \<times> validation_step list) list \<Rightarrow> chain_state \<Rightarrow> chain_state" where
  "push_transactions ops s = fold (\<lambda>(env, t, flags) s. snd (push_transaction env t flags s)) ops s"

lemma push_transactions_over: "pending_over b s \<Longrightarrow> pending_over b (push_transactions ops s)"
  unfolding push_transactions_def by (induction ops arbitrary: s) (auto simp: push_transaction_over)

text \<open>C7. Pending transactions never leak: whatever transactions are pushed on top of the head block, valid or
  not, clearing them gives back exactly the store of the head block.\<close>

theorem pending_never_leaks:
  assumes "\<not> cs_pending_session s"
  shows "cs_store (clear_pending (push_transactions ops s)) = cs_store s \<and> cs_pending (clear_pending (push_transactions ops s)) = []"
proof -
  have "pending_over (cs_store s) s" using assms by (simp add: pending_over_def)
  then have "base_store (push_transactions ops s) = cs_store s"
    by (intro pending_over_base push_transactions_over)
  then show ?thesis
    by (auto simp: clear_pending_def reset_pending_session_def base_store_def split: if_splits)
qed

lemma restore_transaction_over: "pending_over b s \<Longrightarrow> pending_over b (snd (restore_transaction env t s))"
  using push_pending_over [of b s env t]
  by (auto simp: restore_transaction_def ccatch_def creturn_def split: prod.splits sum.splits)

lemma restore_transactions_over: "pending_over b s \<Longrightarrow> pending_over b (snd (cfold (restore_transaction env) ts s))"
proof (induction ts arbitrary: s)
  case (Cons t ts)
  from Cons.prems have "pending_over b (snd (restore_transaction env t s))" by (rule restore_transaction_over)
  moreover from this have "pending_over b (snd (cfold (restore_transaction env) ts (snd (restore_transaction env t s))))"
    by (rule Cons.IH)
  ultimately show ?case by (auto simp: cbind_def split: prod.splits sum.splits)
qed (simp add: creturn_def)

lemma restore_pending_over: "pending_over b s \<Longrightarrow> pending_over b (snd (restore_pending env ts s))"
proof -
  let ?p = "cfold (restore_transaction env) (cs_popped s) s"
  assume "pending_over b s"
  then have 1: "pending_over b (snd ?p)" by (rule restore_transactions_over)
  then have "pending_over b ((snd ?p)\<lparr>cs_popped := []\<rparr>)" by (simp add: pending_over_def)
  then have "pending_over b (snd (cfold (restore_transaction env) ts ((snd ?p)\<lparr>cs_popped := []\<rparr>)))"
    by (rule restore_transactions_over)
  with 1 show "pending_over b (snd (restore_pending env ts s))"
    by (auto simp: restore_pending_def cbind_def cdo_def split: prod.splits sum.splits)
qed

section \<open>Rejected blocks\<close>

text \<open>Whether pushing a block leads to a switch of forks, or extends the chain, given the state of the head.\<close>

definition switch_due :: "chain_env \<Rightarrow> signed_block \<Rightarrow> validation_step list \<Rightarrow> chain_state \<Rightarrow> bool" where
  "switch_due env b flags s \<longleftrightarrow> skip_fork_db \<notin> set flags \<and>
     succeeds (push_block (ce_hashes env) b (cs_fork s)) (\<lambda>(np, _).
       previous (it_data (snd np)) \<noteq> head_block_id (db_dgp (st_db (base_store s))) \<and>
       block_num (it_data (snd np)) > head_block_num (st_db (base_store s)))"

definition builds_on_head :: "chain_env \<Rightarrow> signed_block \<Rightarrow> validation_step list \<Rightarrow> chain_state \<Rightarrow> bool" where
  "builds_on_head env b flags s \<longleftrightarrow> skip_fork_db \<in> set flags \<or>
     succeeds (push_block (ce_hashes env) b (cs_fork s)) (\<lambda>(np, _).
       previous (it_data (snd np)) = head_block_id (db_dgp (st_db (base_store s))))"

lemma skip_with_flags [simp]: "skip (ce_node (with_skip_flags fs env)) = fs"
  "with_skip_flags fs (with_skip_flags gs env) = with_skip_flags fs env"
  by (simp_all add: with_skip_flags_def)

lemma commits_itself_fork [simp]:
  "commits_itself env b flags (s\<lparr>cs_fork := fd\<rparr>) = commits_itself env b flags s"
  "commits_itself (with_skip_flags fs env) b flags s = commits_itself env b flags s"
  by (simp_all add: commits_itself_def node_of_def split: sum.splits)

lemma clear_pending_fields [simp]:
  "cs_store (clear_pending s) = base_store s" "cs_fork (clear_pending s) = cs_fork s" "\<not> cs_pending_session (clear_pending s)"
  "cs_checkpoints (clear_pending s) = cs_checkpoints s" "cs_producing (clear_pending s) = cs_producing s"
  by (simp_all add: clear_pending_def reset_pending_session_def base_store_def)

lemma base_store_plain: "\<not> cs_pending_session s \<Longrightarrow> base_store s = cs_store s"
  by (simp add: base_store_def)

lemma extend_chain_fail:
  assumes "extend_chain env flags b s = (Inl e, t)" "\<not> commits_itself env b flags s"
  shows "restored (cs_store s) (cs_store t) \<and> cs_pending_session t = cs_pending_session s"
proof -
  from assms(1) obtain u where "apply_in_session env flags b s = (Inl e, u)"
    "t = u\<lparr>cs_fork := remove_block (block_id (ce_hashes env) b) (cs_fork u)\<rparr>"
    by (auto simp: extend_chain_def cmd_simps)
  with failed_block_restored [OF _ assms(2)] show ?thesis by auto
qed

lemma extend_chain_ok:
  assumes "extend_chain env flags b s = (Inr r, t)"
  shows "\<not> r \<and> apply_in_session env flags b s = (Inr (), t)"
  using assms by (auto simp: extend_chain_def cmd_simps)

lemma try_block_cases:
  assumes "try_block env b s = (r, t)" "\<not> cs_pending_session s"
  obtains "restored (cs_store s) (cs_store t)" "\<not> cs_pending_session t" "\<not> builds_on_head env b (skip (ce_node env)) s"
    | fd where "extend_chain env (skip (ce_node env)) b (s\<lparr>cs_fork := fd\<rparr>) = (r, t)"
    | "switch_due env b (skip (ce_node env)) s"
proof (cases "skip_fork_db \<in> set (skip (ce_node env))")
  case True
  then have "extend_chain env (skip (ce_node env)) b (s\<lparr>cs_fork := cs_fork s\<rparr>) = (r, t)"
    using assms(1) by (simp add: try_block_def)
  then show ?thesis using that(2) by blast
next
  case False
  show ?thesis
  proof (cases "push_block (ce_hashes env) b (cs_fork s)")
    case (Inl e)
    with False assms(1) have "t = s" by (simp add: try_block_def cbind_plain Let_def)
    then show ?thesis using that(1) Inl False assms(2) by (auto simp: restored_def builds_on_head_def succeeds_def)
  next
    case (Inr p)
    obtain np fd where p: "p = (np, fd)" by fastforce
    with Inr False assms(1) have "(let new_head = it_data (snd np) in
          if previous new_head \<noteq> head_block_id (db_dgp (cs_db s)) then
            if block_num new_head > head_block_num (cs_db s)
            then cbind (switch_forks env (skip (ce_node env)) new_head) (\<lambda>_. creturn True) (s\<lparr>cs_fork := fd\<rparr>)
            else (Inr False, s\<lparr>cs_fork := fd\<rparr>)
          else extend_chain env (skip (ce_node env)) b (s\<lparr>cs_fork := fd\<rparr>)) = (r, t)"
      by (simp add: try_block_def cbind_plain Let_def split: if_splits)
    then show ?thesis
      using that Inr p False assms(2)
      by (auto simp: Let_def switch_due_def builds_on_head_def succeeds_def base_store_plain restored_def split: if_splits)
  qed
qed

lemma push_block_run:
  assumes "chain_push_block env b flags s = (r, t)"
  obtains t1 where "try_block (with_skip_flags flags env) b (clear_pending s) = (r, t1)"
    "cs_pending_session t1 \<or> base_store t = cs_store t1"
proof -
  from assms obtain t1 where run: "try_block (with_skip_flags flags env) b (clear_pending s) = (r, t1)"
    and t: "t = snd (restore_pending (with_skip_flags flags env) (cs_pending s) t1)"
    by (auto simp: chain_push_block_def without_pending_transactions_def Let_def split: prod.splits)
  have "pending_over (cs_store t1) t" if "\<not> cs_pending_session t1"
    unfolding t using that by (intro restore_pending_over) (simp add: pending_over_def)
  then have "cs_pending_session t1 \<or> base_store t = cs_store t1" using pending_over_base by blast
  with run show thesis by (rule that)
qed

lemma switch_due_cleared: "switch_due (with_skip_flags fs env) b flags (clear_pending s) = switch_due env b flags s"
  by (simp add: switch_due_def base_store_plain)

lemma builds_on_head_cleared: "builds_on_head (with_skip_flags fs env) b flags (clear_pending s) = builds_on_head env b flags s"
  by (simp add: builds_on_head_def base_store_plain)

text \<open>C5. A rejected block is unwound: if pushing a block throws and no fork switch was due, then below the pending
  transactions the objects, and the revision, are those from before, unless the block made itself
  irreversible on the way (which commits the very session that would restore them).\<close>

theorem failed_push_unwinds:
  assumes "chain_push_block env b flags s = (Inl e, t)" "\<not> switch_due env b flags s"
    "\<not> commits_itself env b flags (clear_pending s)"
  shows "restored (base_store s) (base_store t)"
proof -
  let ?e = "with_skip_flags flags env"
  from assms(1) obtain t1 where run: "try_block ?e b (clear_pending s) = (Inl e, t1)"
    and t: "cs_pending_session t1 \<or> base_store t = cs_store t1" by (rule push_block_run)
  from run have "restored (base_store s) (cs_store t1) \<and> \<not> cs_pending_session t1"
  proof (rule try_block_cases)
    fix fd assume "extend_chain ?e (skip (ce_node ?e)) b ((clear_pending s)\<lparr>cs_fork := fd\<rparr>) = (Inl e, t1)"
    from extend_chain_fail [OF this] assms(3) show ?thesis by simp
  qed (use assms(2) in \<open>auto simp: switch_due_cleared\<close>)
  with t show ?thesis by simp
qed

text \<open>C6. Popping undoes a push: after a block was accepted on top of the head, popping it gives back the objects and
  the revision from before, with all pending transactions withdrawn. Excepted is a block that becomes irreversible by its own
  application (\<open>commits_itself\<close>), as every block does on a chain with a single witness once voting decides: the commit drops
  the session of the block, so there is nothing left that could restore the state before it.\<close>

theorem pop_undoes_push:
  assumes "chain_push_block env b flags s = (Inr r, t)" "builds_on_head env b flags s"
    "\<not> switch_due env b flags s" "\<not> commits_itself env b flags (clear_pending s)" "chain_pop_block env t = (Inr (), u)"
  shows "restored (base_store s) (cs_store u)"
proof -
  let ?e = "with_skip_flags flags env"
  from assms(1) obtain t1 where run: "try_block ?e b (clear_pending s) = (Inr r, t1)"
    and t: "cs_pending_session t1 \<or> base_store t = cs_store t1" by (rule push_block_run)
  from run have "restored (base_store s) (session_undo (cs_store t1)) \<and> \<not> cs_pending_session t1"
  proof (rule try_block_cases)
    fix fd assume "extend_chain ?e (skip (ce_node ?e)) b ((clear_pending s)\<lparr>cs_fork := fd\<rparr>) = (Inr r, t1)"
    then have "in_session (\<lambda>x. x) (apply_block ?e b flags) ((clear_pending s)\<lparr>cs_fork := fd\<rparr>) = (Inr (), t1)"
      using extend_chain_ok by (simp add: apply_in_session_def)
    then have "apply_block ?e b flags (upd_store session_start ((clear_pending s)\<lparr>cs_fork := fd\<rparr>)) = (Inr (), t1)"
      by (auto simp: upd_store_id dest!: in_session_Inr)
    from block_session_kept [OF this] assms(4) show ?thesis by simp
  qed (use assms(2,3) in \<open>auto simp: switch_due_cleared builds_on_head_cleared\<close>)
  moreover have "cs_store u = session_undo (base_store t)"
    using assms(5) by (auto simp: chain_pop_block_def cmd_simps reset_pending_store split: option.splits)
  ultimately show ?thesis using t by simp
qed

section \<open>The loops of a fork switch\<close>

lemma pop_moves_back:
  assumes "chain_pop_block env s = (Inr (), t)" "fork_ok hs (cs_fork s)"
  shows "fork_ok hs (cs_fork t) \<and> fd_fresh (cs_fork t) = fd_fresh (cs_fork s) \<and>
    (\<exists>p q. fd_head (cs_fork s) = Some p \<and> fd_head (cs_fork t) = Some q \<and> fst q < fst p \<and> it_id (snd q) = previous_id (snd p))"
proof -
  have "cs_fork (reset_pending_session s) = cs_fork s" by (simp add: reset_pending_session_def)
  with assms(1) have pop: "pop_block (cs_fork s) = Inr (cs_fork t)"
    by (auto simp: chain_pop_block_def cmd_simps split: option.splits)
  then obtain p q h where p: "fd_head (cs_fork s) = Some p" and h: "it_prev (snd p) = Some h" and q: "lock (cs_fork s) h = Some q"
    and t: "cs_fork t = (cs_fork s)\<lparr>fd_head := Some q\<rparr>"
    by (auto simp: pop_block_def parent_def split: option.splits)
  have q': "q \<in> set (alive (cs_fork s))" "fst q = h"
    using q by (auto simp: lock_def find_Some_iff)
  then have "fork_ok hs (cs_fork t)"
    using assms(2) by (intro fork_ok_mono [OF assms(2)]) (auto simp: t set_alive)
  moreover have "p \<in> set (alive (cs_fork s))" using p by (simp add: set_alive)
  then have "link_ok (alive (cs_fork s)) p" using assms(2) by (simp add: fork_ok_def)
  then have "h < fst p" "it_id (snd q) = previous_id (snd p)" using h q' by (auto simp: link_ok_def)
  ultimately show ?thesis using p q' by (simp add: t)
qed

lemma pop_never_out_of_fuel: "fst (chain_pop_block env s) \<noteq> Inl Out_of_fuel"
proof -
  have "read_block_by_num cd n bl \<noteq> Inl Out_of_fuel" for cd n bl
    by (auto simp: read_block_by_num_def get_block_pos_def read_u64_def read_block_def FC_ASSERT_def stream_failure_def ebind_def
        split: option.splits if_splits sum.splits)
  then have f: "fetch_block_by_id env' i u \<noteq> Inl Out_of_fuel" for env' i u
    by (auto simp: fetch_block_by_id_def ebind_def split: option.splits sum.splits)
  moreover have "pop_block fd \<noteq> Inl Out_of_fuel" for fd by (auto simp: pop_block_def split: option.splits)
  ultimately show ?thesis
    by (auto simp: chain_pop_block_def cbind_def cdo_def cask_def cthrow_def split: prod.splits sum.splits option.splits)
qed

text \<open>The loop that pops blocks to the fork point ends: its fuel is never used up, because each turn moves the head of
  the fork database to an older item.\<close>

theorem pop_loop_terminates:
  assumes "fork_ok hs (cs_fork s)"
  shows "fst (pop_to env i s) \<noteq> Inl Out_of_fuel"
proof -
  have "fst (pop_until fuel env i s) \<noteq> Inl Out_of_fuel"
    if "fork_ok hs (cs_fork s)" "case fd_head (cs_fork s) of None \<Rightarrow> 0 < fuel | Some p \<Rightarrow> fst p < fuel" for fuel s
    using that
  proof (induction fuel arbitrary: s)
    case (Suc fuel)
    show ?case
    proof (cases "chain_pop_block env s")
      case (Pair r t)
      have "r \<noteq> Inl Out_of_fuel" using pop_never_out_of_fuel [of env s] Pair by simp
      moreover have "fst (pop_until fuel env i t) \<noteq> Inl Out_of_fuel" if "r = Inr ()"
        using pop_moves_back [OF Pair [unfolded that] Suc.prems(1)] Suc.prems(2) by (intro Suc.IH) auto
      ultimately show ?thesis using Pair by (auto simp: pop_until.simps cbind_def split: sum.splits)
    qed
  qed (auto split: option.splits)
  moreover have "case fd_head (cs_fork s) of None \<Rightarrow> 0 < Suc (fd_fresh (cs_fork s)) | Some p \<Rightarrow> fst p < Suc (fd_fresh (cs_fork s))"
    using assms by (auto simp: fork_ok_def set_alive item_ok_def less_Suc_eq split: option.splits)
  ultimately show ?thesis unfolding pop_to_def using assms by blast
qed

end
