(* ===== verification/Chain_Position.thy ===== *)
theory Chain_Position
  imports Apply_Block
begin

text \<open>
  The position of the chain: number, id and time of the head and the last irreversible block. Only
  the header of a block and the irreversibility rule move it; everything that runs afterwards, from the
  witness schedule to the hardforks, leaves it where it is.
\<close>

definition chain_position :: "database \<Rightarrow> int \<times> block_id_type \<times> time_point_sec \<times> int" where
  "chain_position db = (let d = db_dgp db in (head_block_number d, head_block_id d, dgp_time d, last_irreversible_block_num d))"

lemma position_fields [simp]:
  "chain_position (modify_account n f db) = chain_position db" "chain_position (modify_witness n g db) = chain_position db"
  "chain_position (db\<lparr>db_econ := e\<rparr>) = chain_position db" "chain_position (db\<lparr>db_feeds := x1\<rparr>) = chain_position db"
  "chain_position (db\<lparr>db_hardfork := x2\<rparr>) = chain_position db" "chain_position (db\<lparr>db_schedule := x3\<rparr>) = chain_position db"
  "chain_position (db\<lparr>db_witnesses := x4\<rparr>) = chain_position db" "chain_position (db\<lparr>db_escrows := x5\<rparr>) = chain_position db"
  "chain_position (db\<lparr>db_change_recovery := x6\<rparr>) = chain_position db" "chain_position (db\<lparr>db_recovery_requests := x7\<rparr>) = chain_position db"
  "chain_position (db\<lparr>db_owner_history := x8\<rparr>) = chain_position db" "chain_position (db\<lparr>db_transactions := x9\<rparr>) = chain_position db"
  "chain_position (db\<lparr>db_block_summary := x10\<rparr>) = chain_position db"
  by (simp_all add: chain_position_def modify_account_def modify_witness_def)

lemma position_modify_dgp:
  "(\<And>d. head_block_number (f d) = head_block_number d \<and> head_block_id (f d) = head_block_id d \<and> dgp_time (f d) = dgp_time d \<and>
     last_irreversible_block_num (f d) = last_irreversible_block_num d) \<Longrightarrow> chain_position (modify_dgp f db) = chain_position db"
  by (simp add: chain_position_def modify_dgp_def Let_def)

text \<open>The contract of a routine that does not move the chain.\<close>

locale stays =
  fixes f :: "'x \<Rightarrow> database \<Rightarrow> database result"
  assumes stays: "f x db = Inr db' \<Longrightarrow> chain_position db' = chain_position db"
begin

lemma fold_stays: "efold f xs db = Inr db' \<Longrightarrow> chain_position db' = chain_position db"
  by (erule efold_invariant) (auto dest: stays)

end

lemma votes_position: "adjust_proxied_witness_votes n d db = Inr db' \<Longrightarrow> chain_position db' = chain_position db"
  by (auto simp: adjust_proxied_witness_votes_def differs_in_votes_def chain_position_def dest!: differs_adjust_proxied_votes)

lemma adjust_balance_position: "adjust_balance n d db = Inr db' \<Longrightarrow> chain_position db' = chain_position db"
  by (auto simp: adjust_balance_def modify_balance_def result_simps dest!: votes_position)

lemma create_vesting_position: "create_vesting n d db = Inr db' \<Longrightarrow> chain_position db' = chain_position db"
  by (auto simp: create_vesting_def result_simps dest!: votes_position)

lemma adjust_supply_position: "adjust_supply d db = Inr db' \<Longrightarrow> chain_position db' = chain_position db"
  by (auto simp: adjust_supply_def result_simps position_modify_dgp split: if_splits)

interpretation interest_step: stays "\<lambda>i db. ebind (interest_step i (inc, db)) (\<lambda>(_, d). Inr d)" for inc
  by unfold_locales (auto simp: interest_step_def ebind_eq_Inr split: if_splits dest!: votes_position)

lemma process_interests_position: "process_interests db = Inr db' \<Longrightarrow> chain_position db' = chain_position db"
proof -
  assume "process_interests db = Inr db'"
  then obtain inc db1 where loop: "efold interest_step (interest_ids db) (0, db) = Inr (inc, db1)"
    and sup: "adjust_supply (Asset inc (cfg_symbol (db_cfg db1))) db1 = Inr db'"
    by (auto simp: process_interests_def ebind_eq_Inr)
  have "chain_position (snd (inc, db1)) = chain_position db"
    using loop
  proof (rule efold_invariant [where P = "\<lambda>st. chain_position (snd st) = chain_position db"])
    fix i st st'
    assume "chain_position (snd st) = chain_position db" "interest_step i st = Inr st'"
    then show "chain_position (snd st') = chain_position db"
      using interest_step.stays [of i "fst st" "snd st" "snd st'"] by (cases st, cases st') simp
  qed simp
  then show ?thesis using adjust_supply_position [OF sup] by simp
qed

interpretation feed: stays update_feed
  by unfold_locales (auto simp: update_feed_def ebind_eq_Inr split: if_splits)

lemma median_feeds_position: "update_median_feeds db = Inr db' \<Longrightarrow> chain_position db' = chain_position db"
  by (auto simp: update_median_feeds_def ebind_eq_Inr split: if_splits dest: feed.fold_stays)

lemma clear_null_position: "clear_null_account_balance db = Inr db' \<Longrightarrow> chain_position db' = chain_position db"
  by (auto simp: clear_null_account_balance_def clear_null_liquid_def clear_null_vests_def ebind_eq_Inr position_modify_dgp
      split: if_splits dest!: adjust_balance_position adjust_supply_position)

lemma process_funds_position: "process_funds n db = Inr db' \<Longrightarrow> chain_position db' = chain_position db"
  by (auto simp: process_funds_def Let_def ebind_eq_Inr position_modify_dgp dest!: create_vesting_position)

lemma withdrawal_position: "fill_withdrawal a db = Inr db' \<Longrightarrow> chain_position db' = chain_position db"
  by (auto simp: fill_withdrawal_def ebind_eq_Inr position_modify_dgp)

lemma withdrawal_loop_position: "withdrawal_loop fuel c db = Inr db' \<Longrightarrow> chain_position db' = chain_position db"
proof (induction fuel arbitrary: c db)
  case (Suc fuel)
  show ?case
  proof (cases c)
    case (Some n)
    with Suc.prems obtain a db1 where "db' = db \<or> fill_withdrawal a db = Inr db1 \<and>
        withdrawal_loop fuel (after n (map acc_name (by_next_vesting_withdrawal db))) db1 = Inr db'"
      by (auto simp: withdrawal_loop.simps ebind_eq_Inr Let_def split: if_splits)
    then show ?thesis using Suc.IH withdrawal_position by metis
  qed (use Suc.prems in \<open>simp add: withdrawal_loop.simps\<close>)
qed (simp add: withdrawal_loop.simps)

interpretation recovery_change: stays apply_recovery_change
  by unfold_locales (auto simp: apply_recovery_change_def ebind_eq_Inr)

lemma recovery_position: "account_recovery_processing db = Inr db' \<Longrightarrow> chain_position db' = chain_position db"
  unfolding account_recovery_processing_def Let_def
  by (drule recovery_change.fold_stays) (simp add: clear_owner_history_def clear_recovery_requests_def)

interpretation expiry: stays "\<lambda>e. escrow_refund (esc_from e) e"
  by unfold_locales (auto simp: escrow_refund_def remove_escrow_def ebind_eq_Inr dest!: adjust_balance_position)

interpretation revote: stays "\<lambda>n d. ebind (get_account n d) (\<lambda>a. ebind (total_balance a) (\<lambda>t. adjust_proxied_witness_votes n t d))"
  by unfold_locales (auto simp: ebind_eq_Inr dest: votes_position)

lemma apply_hardfork_position: "apply_hardfork hf db = Inr db' \<Longrightarrow> chain_position db' = chain_position db"
  by (auto simp: apply_hardfork_def recalculate_all_votes_def Let_def ebind_eq_Inr split: if_splits dest!: revote.fold_stays)

lemma process_hardforks_position: "process_hardforks db = Inr db' \<Longrightarrow> chain_position db' = chain_position db"
proof (induction db rule: process_hardforks.induct)
  case (1 db)
  let ?hf = "db_hardfork db"
  show ?case
  proof (cases "hardfork_versions ! last_hardfork ?hf < next_hardfork ?hf \<and> next_hardfork_time ?hf \<le> head_block_time db")
    case True
    with "1.prems" obtain db1 where "last_hardfork ?hf < SOPHIATX_NUM_HARDFORKS"
      "apply_hardfork (Suc (last_hardfork ?hf)) db = Inr db1" "process_hardforks db1 = Inr db'"
      by (subst (asm) process_hardforks.simps) (auto simp: Let_def ebind_eq_Inr split: if_splits)
    then show ?thesis using "1.IH" [OF refl True] apply_hardfork_position by simp
  next
    case False
    with "1.prems" show ?thesis by (subst (asm) process_hardforks.simps) (auto simp: Let_def)
  qed
qed

lemma finish_block_position:
  assumes "finish_block n db = Inr db'"
  shows "chain_position db' = chain_position db"
  using assms unfolding finish_block_def process_vesting_withdrawals_def expire_escrow_ratification_def
  by (auto simp: ebind_eq_Inr split: if_splits dest!: process_hardforks_position expiry.fold_stays recovery_position
      withdrawal_loop_position process_funds_position clear_null_position median_feeds_position process_interests_position)

section \<open>The witness schedule\<close>

lemma mark_schedule_position [simp]: "chain_position (mark_schedule s ws db) = chain_position db"
  unfolding mark_schedule_def by (induction ws arbitrary: db) simp_all

interpretation reset_time: stays reset_witness_time
  by unfold_locales (auto simp: reset_witness_time_def ebind_eq_Inr)

lemma advance_times_position:
  assumes "efold (advance_witness_time vt) ws st = Inr st'"
  shows "chain_position (snd st') = chain_position (snd st)"
  using assms
  by (rule efold_invariant [where P = "\<lambda>u. chain_position (snd u) = chain_position (snd st)"])
    (auto simp: advance_witness_time_def ebind_eq_Inr Let_def split: if_splits)

lemma schedule_position:
  assumes "update_witness_schedule db = Inr db'"
  shows "chain_position db' = chain_position db"
proof (cases "head_block_num db mod cfg_max_witnesses (db_cfg db) = 0")
  case True
  then obtain vt ws voted chosen overflow db2 db3 mj db4 wso where
    1: "efold (advance_witness_time vt) ws (False, mark_schedule Timeshare chosen (mark_schedule Top19 voted db)) = Inr (overflow, db2)"
    and 2: "(if overflow then reset_virtual_schedule_time db2 else Inr db2) = Inr db3"
    and 3: "update_versions db3 = Inr (mj, db4)" and 4: "update_median_witness_props (db4\<lparr>db_schedule := wso\<rparr>) = Inr db'"
    using assms unfolding update_witness_schedule_def update_witness_schedule4_def Let_def
    by (auto simp: ebind_eq_Inr FC_ASSERT_eq_Inr)
  have "chain_position db3 = chain_position db2"
    using 2 by (auto simp: reset_virtual_schedule_time_def Let_def split: if_splits dest!: reset_time.fold_stays)
  moreover have "chain_position db4 = chain_position db3" using 3 by (auto simp: update_versions_def Let_def ebind_eq_Inr)
  moreover have "chain_position db' = chain_position db4"
    using 4 by (auto simp: update_median_witness_props_def Let_def ebind_eq_Inr position_modify_dgp)
  ultimately show ?thesis using advance_times_position [OF 1] by simp
qed (use assms in \<open>simp add: update_witness_schedule_def\<close>)

lemma end_block_position:
  assumes "end_block hs b db = Inr db'"
  shows "chain_position db' = chain_position db"
  using assms unfolding end_block_def
  by (auto simp: ebind_eq_Inr create_block_summary_def clear_expired_transactions_def split: if_splits
      dest!: finish_block_position schedule_position)

end
