(* ===== verification/Chain_Switch.thy ===== *)
theory Chain_Switch
  imports Chain_Safety Chain_Position "HOL-Library.Sublist"
begin

text \<open>
  Where the chain controller leads: an applied block is the head and keeps the ledger, a fork switch ends
  on the longer fork, a new block takes only transactions that fit, and replaying the log applies the
  blocks it holds.
\<close>

section \<open>Where an applied block leads\<close>

interpretation storeless: frame "\<lambda>s t. cs_store t = cs_store s"
  by unfold_locales simp_all

lemma output_blocks_store: "cs_store (snd (output_blocks env s)) = cs_store s"
  unfolding output_blocks_def write_block_def
  by (rule storeless.fold_frame)
    (auto intro!: storeless.bind_frame storeless.plain_frame split: option.splits, simp add: cdo_def)

lemma irreversible_update_ok:
  assumes "update_last_irreversible_block env s = (Inr u, t)"
  shows "new_irreversible_block (cs_db s) = Inr (cs_db t)"
proof -
  from assms obtain d v where d: "new_irreversible_block (cs_db s) = Inr d"
    and run: "(if skips (ce_node env) skip_block_log then creturn () else output_blocks env)
      (upd_store (session_commit (last_irreversible_block_num (db_dgp d))) (set_db d s)) = (Inr (), v)" and t: "cs_store t = cs_store v"
    by (auto simp: update_last_irreversible_block_def cmd_simps Let_def)
  have "cs_store v = session_commit (last_irreversible_block_num (db_dgp d)) (cs_store (set_db d s))"
    using output_blocks_store [of env "upd_store (session_commit (last_irreversible_block_num (db_dgp d))) (set_db d s)"] run
    by (auto simp: creturn_def split: if_splits)
  then have "cs_db v = d" by (simp add: session_commit_def)
  with d t show ?thesis by simp
qed

lemma apply_block_ok:
  assumes "apply_block env b flags s = (Inr u, t)"
  obtains fs d d1 where "block_flags (ce_hashes env) (cs_checkpoints s) b flags = Inr fs"
    "begin_block (node_of (with_skip_flags fs env) s) (ce_hashes env) b (cs_db s) = Inr d"
    "new_irreversible_block d = Inr d1" "end_block (ce_hashes env) b d1 = Inr (cs_db t)"
proof -
  from assms obtain fs d v d2 where 1: "block_flags (ce_hashes env) (cs_checkpoints s) b flags = Inr fs"
    "begin_block (node_of (with_skip_flags fs env) s) (ce_hashes env) b (cs_db s) = Inr d"
    and lib: "update_last_irreversible_block (with_skip_flags fs env) (set_db d s) = (Inr (), v)"
    and 2: "end_block (ce_hashes env) b (cs_db v) = Inr d2" "t = set_db d2 v"
    by (auto simp: apply_block_def cmd_simps Let_def)
  from irreversible_update_ok [OF lib] have "new_irreversible_block d = Inr (cs_db v)" by simp
  from that [OF 1 this] 2 show thesis by simp
qed

lemma begin_block_head:
  assumes "begin_block nd hs b db = Inr db'"
  shows "head_block_number (db_dgp db') = block_num b \<and> head_block_id (db_dgp db') = block_id hs b \<and> dgp_time (db_dgp db') = timestamp b"
proof -
  from assms obtain w db3 db4 where 4: "update_global_dynamic_data nd hs b db3 = Inr db4" and db': "db' = update_signing_witness w b db4"
    by (auto simp: begin_block_def ebind_eq_Inr FC_ASSERT_eq_Inr Let_def)
  have "db_dgp db' = db_dgp db4" by (simp add: db' update_signing_witness_def Let_def modify_witness_def)
  then show ?thesis using global_data_head [OF 4] by simp
qed

lemma new_irreversible_head:
  "new_irreversible_block db = Inr db' \<Longrightarrow> head_block_number (db_dgp db') = head_block_number (db_dgp db) \<and>
     head_block_id (db_dgp db') = head_block_id (db_dgp db) \<and> dgp_time (db_dgp db') = dgp_time (db_dgp db)"
  by (auto simp: new_irreversible_block_def Let_def ebind_eq_Inr split: if_splits)

lemma applied_block_is_head:
  assumes "apply_block env b flags s = (Inr u, t)"
  shows "head_block_number (db_dgp (cs_db t)) = block_num b \<and> head_block_id (db_dgp (cs_db t)) = block_id (ce_hashes env) b \<and>
    dgp_time (db_dgp (cs_db t)) = timestamp b"
proof -
  from assms obtain fs d d1 where 1: "begin_block (node_of (with_skip_flags fs env) s) (ce_hashes env) b (cs_db s) = Inr d"
    "new_irreversible_block d = Inr d1" "end_block (ce_hashes env) b d1 = Inr (cs_db t)"
    by (rule apply_block_ok)
  from end_block_position [OF 1(3)] show ?thesis
    using begin_block_head [OF 1(1)] new_irreversible_head [OF 1(2)] by (simp add: chain_position_def Let_def)
qed

text \<open>The state on which the end-of-block routines run.\<close>

definition before_maintenance :: "chain_env \<Rightarrow> signed_block \<Rightarrow> validation_step list \<Rightarrow> chain_state \<Rightarrow> database result" where
  "before_maintenance env b flags s =
     ebind (block_flags (ce_hashes env) (cs_checkpoints s) b flags) (\<lambda>fs.
     FC_ASSERT (skip_validate \<notin> set fs) ''''
     (ebind (begin_block (node_of (with_skip_flags fs env) s) (ce_hashes env) b (cs_db s)) (\<lambda>d.
      ebind (new_irreversible_block d) (prepare_end (ce_hashes env) b))))"

text \<open>C2. A whole block keeps the ledger: a block that a validating node applies keeps every supply equation and the
  escrow rules, from its first transaction to the last maintenance routine, provided that at the end of
  its transactions the interest computation fits 64 bits and the account \<^verbatim>\<open>none\<close> holds nothing to burn.\<close>

theorem block_keeps_ledger:
  assumes "apply_block env b flags s = (Inr (), t)" "ledger_inv (cs_db s)"
    "succeeds (before_maintenance env b flags s) (\<lambda>d. interest_amounts_ok (db_cfg d) (db_econ d) \<and> null_idle d)"
  shows "ledger_inv (cs_db t)"
proof -
  from assms(1) obtain fs d d1 where 1: "block_flags (ce_hashes env) (cs_checkpoints s) b flags = Inr fs"
    "begin_block (node_of (with_skip_flags fs env) s) (ce_hashes env) b (cs_db s) = Inr d"
    "new_irreversible_block d = Inr d1" "end_block (ce_hashes env) b d1 = Inr (cs_db t)"
    by (rule apply_block_ok)
  from assms(3) have v: "skip_validate \<notin> set fs"
    and ok: "\<And>d2. prepare_end (ce_hashes env) b d1 = Inr d2 \<Longrightarrow> interest_amounts_ok (db_cfg d2) (db_econ d2) \<and> null_idle d2"
    by (auto simp: before_maintenance_def succeeds_iff ebind_eq_Inr FC_ASSERT_eq_Inr 1)
  have "\<not> skips (node_of (with_skip_flags fs env) s) skip_validate"
    using v by (simp add: skips_def node_of_def with_skip_flags_def)
  from begin_block_inv [OF 1(2) this assms(2)] have "ledger_inv d1"
    using new_irreversible_ledger [OF 1(3)] by (rule ledger_inv_frame [rotated])
  from end_block_inv [OF 1(4) this ok] show ?thesis .
qed

section \<open>Switching forks\<close>

lemma applied_in_session:
  assumes "apply_in_session env flags b s = (Inr u, t)"
  shows "apply_block env b flags (upd_store session_start s) = (Inr u, t)"
  using in_session_Inr [OF assms [unfolded apply_in_session_def]] by (auto simp: upd_store_id)

lemma abandon_throws: "fst (abandon_fork env flags bad good e s) \<noteq> Inr u"
  by (auto simp: abandon_fork_def cbind_def cthrow_def split: prod.splits sum.splits)

lemma apply_branch_ok:
  "apply_branch env flags ps good s = (Inr u, t) \<Longrightarrow> ps \<noteq> [] \<Longrightarrow>
     head_block_id (db_dgp (cs_db t)) = block_id (ce_hashes env) (it_data (snd (last ps)))"
proof (induction ps arbitrary: s)
  case (Cons p ps)
  from Cons.prems(1) obtain v where v: "apply_in_session env flags (it_data (snd p)) s = (Inr (), v)"
    and rest: "apply_branch env flags ps good v = (Inr u, t)"
    using abandon_throws [of env flags "p # ps" good]
    by (auto simp: cmd_simps split: option.splits) (metis fst_conv)+
  show ?case
  proof (cases "ps = []")
    case True
    then have "t = v" using rest by (simp add: creturn_def)
    with True show ?thesis using applied_block_is_head [OF applied_in_session [OF v]] by simp
  qed (use Cons.IH [OF rest] in simp)
qed simp

text \<open>C8. A fork switch ends on the longer fork: when pushing a block returns that the forks were switched, the head of the
  chain is the block the fork database had chosen as its head.\<close>

theorem switch_reaches_new_head:
  assumes "try_block env b s = (Inr True, t)" "fork_ok (ce_hashes env) (cs_fork s)"
  shows "\<exists>np fd. push_block (ce_hashes env) b (cs_fork s) = Inr (np, fd) \<and>
    head_block_id (db_dgp (cs_db t)) = block_id (ce_hashes env) (it_data (snd np)) \<and> it_num (snd np) > head_block_num (cs_db s)"
proof -
  let ?flags = "skip (ce_node env)" and ?hs = "ce_hashes env"
  from assms(1) obtain np fd where np: "push_block ?hs b (cs_fork s) = Inr (np, fd)"
    and higher: "block_num (it_data (snd np)) > head_block_num (cs_db s)"
    and sw: "switch_forks env ?flags (it_data (snd np)) (s\<lparr>cs_fork := fd\<rparr>) = (Inr (), t)"
    by (auto simp: try_block_def cmd_simps Let_def split: if_splits dest: extend_chain_ok)
  have ok: "fork_ok ?hs fd" using fork_step_ok [OF Push [OF np] assms(2)] .
  from sw obtain new old v where br: "fetch_branch_from (block_id ?hs (it_data (snd np))) (head_block_id (db_dgp (cs_db s))) fd = Inr (new, old)"
    and run: "apply_branch env ?flags (rev new) old v = (Inr (), t)"
    by (auto simp: switch_forks_def cmd_simps)
  note sh = fetch_branch_shape [OF ok br]
  have "block_id ?hs (it_data (snd (hd new))) = it_id (snd (hd new))"
    using sh ok by (auto simp: fork_ok_def item_ok_def)
  moreover have "head_block_id (db_dgp (cs_db t)) = block_id ?hs (it_data (snd (hd new)))"
    using apply_branch_ok [OF run] sh by (simp add: last_rev)
  moreover have "np \<in> set (alive fd)" using np by (auto simp: push_block_def Let_def ebind_eq_Inr FC_ASSERT_eq_Inr set_alive)
  then have "it_num (snd np) = block_num (it_data (snd np))" using ok by (auto simp: fork_ok_def item_ok_def)
  ultimately show ?thesis using np sh higher by auto
qed

lemma apply_block_fork_head:
  assumes "apply_block env b flags s = (r, t)"
  shows "fd_head (cs_fork t) = fd_head (cs_fork s)"
  using apply_block_effect [OF assms] by (auto simp: quiet_def)

lemma apply_branch_fork_head:
  "apply_branch env flags ps good s = (Inr u, t) \<Longrightarrow> fd_head (cs_fork t) = fd_head (cs_fork s)"
proof (induction ps arbitrary: s)
  case (Cons p ps)
  from Cons.prems(1) obtain v where v: "apply_in_session env flags (it_data (snd p)) s = (Inr (), v)"
    and rest: "apply_branch env flags ps good v = (Inr u, t)"
    using abandon_throws [of env flags "p # ps" good]
    by (auto simp: cmd_simps split: option.splits) (metis fst_conv)+
  with Cons.IH [OF rest] apply_block_fork_head [OF applied_in_session [OF v]] show ?case by simp
qed (simp add: creturn_def)

lemma pop_until_moves_back:
  "pop_until fuel env i s = (Inr (), t) \<Longrightarrow> fork_ok hs (cs_fork s) \<Longrightarrow> head_block_id (db_dgp (cs_db s)) \<noteq> i \<Longrightarrow>
     \<exists>p q. fd_head (cs_fork s) = Some p \<and> fd_head (cs_fork t) = Some q \<and> fst q < fst p"
proof (induction fuel arbitrary: s)
  case (Suc fuel)
  from Suc.prems(1,3) obtain v where v: "chain_pop_block env s = (Inr (), v)" and rest: "pop_until fuel env i v = (Inr (), t)"
    by (auto simp: pop_until.simps cmd_simps)
  note older = pop_moves_back [OF v Suc.prems(2)]
  show ?case
  proof (cases "head_block_id (db_dgp (cs_db v)) = i")
    case True
    with rest have "t = v" by (cases fuel) (simp_all add: pop_until.simps cthrow_def)
    with older show ?thesis by blast
  next
    case False
    from Suc.IH [OF rest _ False] older show ?thesis by fastforce
  qed
qed (simp add: pop_until.simps cthrow_def)

text \<open>C38. The head of the fork database is left behind: a successful switch that had to pop a block moves the fork
  database back as well, although its head is on the new fork already, and nothing moves it forward
  again, so afterwards the fork database points to an older item than the one it had chosen.\<close>

theorem switch_leaves_fork_head_behind:
  assumes "switch_forks env flags new_head s = (Inr (), t)" "fork_ok hs (cs_fork s)"
    "succeeds (fetch_branch_from (block_id (ce_hashes env) new_head) (head_block_id (db_dgp (cs_db s))) (cs_fork s))
       (\<lambda>(new, old). head_block_id (db_dgp (cs_db s)) \<noteq> previous_id (snd (last old)))"
  shows "\<exists>p q. fd_head (cs_fork s) = Some p \<and> fd_head (cs_fork t) = Some q \<and> fst q < fst p"
proof -
  from assms(1,3) obtain new old v where ne: "head_block_id (db_dgp (cs_db s)) \<noteq> previous_id (snd (last old))"
    and pop: "pop_to env (previous_id (snd (last old))) s = (Inr (), v)" and run: "apply_branch env flags (rev new) old v = (Inr (), t)"
    by (auto simp: switch_forks_def cmd_simps succeeds_iff)
  from pop_until_moves_back [OF pop [unfolded pop_to_def] assms(2) ne] apply_branch_fork_head [OF run] show ?thesis by simp
qed

section \<open>Producing blocks\<close>

lemma select_sublist:
  "select_transactions env t maximum xs n s = (Inr r, s') \<Longrightarrow>
     subseq r xs \<and> list_all (\<lambda>x. t \<le> trx_expiration x) r \<and> (r \<noteq> [] \<longrightarrow> n + sum_list (map (ce_trx_size env) r) < maximum)"
proof (induction env t maximum xs n arbitrary: r s rule: select_transactions.induct)
  case (2 env t maximum x xs n)
  show ?case
  proof (cases "trx_expiration x < t \<or> n + ce_trx_size env x \<ge> maximum")
    case True
    with "2.prems" have "select_transactions env t maximum xs n s = (Inr r, s')" by simp
    from "2.IH"(1) [OF True this] show ?thesis by (auto intro: list_emb_Cons)
  next
    case False
    with "2.prems" consider (out) u where "select_transactions env t maximum xs n u = (Inr r, s')"
      | (more) u q where "select_transactions env t maximum xs (n + ce_trx_size env x) u = (Inr q, s')" "r = x # q"
      by (auto simp: cmd_simps split: if_splits)
    then show ?thesis
    proof cases
      case out
      from "2.IH"(3) [OF False _ out] show ?thesis by (auto intro: list_emb_Cons)
    next
      case more
      from "2.IH"(2) [OF False _ more(1)]
      have q: "subseq q xs" "list_all (\<lambda>x. t \<le> trx_expiration x) q"
        "q \<noteq> [] \<longrightarrow> n + ce_trx_size env x + sum_list (map (ce_trx_size env) q) < maximum" by simp_all
      from False have "t \<le> trx_expiration x" "n + ce_trx_size env x < maximum" by simp_all
      with q show ?thesis unfolding more(2) by (cases "q = []") (simp_all add: add.assoc)
    qed
  qed
qed (simp add: creturn_def)

text \<open>C31. What goes into a new block: the selected transactions are a subsequence of the pending ones, none has expired
  at the time of the block, and with the header they stay below the maximum size of a block.\<close>

theorem selected_transactions_fit:
  assumes "select_transactions env t maximum xs n s = (Inr r, s')" "n < maximum"
  shows "subseq r xs \<and> list_all (\<lambda>x. t \<le> trx_expiration x) r \<and> n + sum_list (map (ce_trx_size env) r) < maximum"
  using select_sublist [OF assms(1)] assms(2) by (cases "r = []") auto

section \<open>Replaying the log\<close>

text \<open>While the fork database is empty no block can be written to the log.\<close>

interpretation logless: frame "\<lambda>s t. fd_index (cs_fork s) = [] \<longrightarrow> cs_log t = cs_log s \<and> fd_index (cs_fork t) = []"
  by unfold_locales simp_all

lemma write_block_logless:
  "fd_index (cs_fork s) = [] \<longrightarrow> cs_log (snd (write_block env n s)) = cs_log s \<and> fd_index (cs_fork (snd (write_block env n s))) = []"
  by (simp add: write_block_def cbind_def cask_def cthrow_def fetch_block_on_main_branch_by_number_def fetch_block_by_number_def)

lemma on_db_logless:
  "fd_index (cs_fork s) = [] \<longrightarrow> cs_log (snd (on_db f s)) = cs_log s \<and> fd_index (cs_fork (snd (on_db f s))) = []"
  by (auto simp: on_db_def split: sum.splits)

lemma irreversible_logless:
  "fd_index (cs_fork s) = [] \<longrightarrow> cs_log (snd (update_last_irreversible_block env s)) = cs_log s \<and>
     fd_index (cs_fork (snd (update_last_irreversible_block env s))) = []"
  unfolding update_last_irreversible_block_def output_blocks_def
  by (intro logless.bind_frame on_db_logless)
    (auto simp: cdo_def creturn_def Let_def set_max_size_def split: option.splits dest: logless.fold_frame [OF write_block_logless, rule_format])

lemma apply_block_logless:
  "fd_index (cs_fork s) = [] \<longrightarrow> cs_log (snd (apply_block env b flags s)) = cs_log s \<and> fd_index (cs_fork (snd (apply_block env b flags s))) = []"
  unfolding apply_block_def Let_def
  by (intro logless.bind_frame logless.plain_frame on_db_logless irreversible_logless)

lemma read_block_next:
  assumes "bl_blocks bl = pre @ log_bytes cd (length pre) (b # rest)" "codec_ok cd (b # rest)"
  shows "read_block cd (int (length pre)) bl = Inr (b, int (length (pre @ pack_block cd b @ le64 (int (length pre)))))"
proof -
  let ?tail = "le64 (int (length pre)) @ log_bytes cd (length pre + length (pack_block cd b) + 8) rest"
  have "unpack_block cd (pack_block cd b @ ?tail) = Some (b, ?tail)" using assms(2) by (simp add: codec_ok_def)
  then show ?thesis using assms(1) by (simp add: read_block_def)
qed

lemma replay_loop_blocks:
  assumes "bl_blocks (cs_log s) = pre @ log_bytes cd (length pre) (b # rest)" "codec_ok cd (b # rest)" "cd = ce_codec env"
    "fd_index (cs_fork s) = []" "length rest < fuel" "block_num (last (b # rest)) = n" "list_all (\<lambda>x. block_num x \<noteq> n) (butlast (b # rest))"
  shows "replay_loop fuel env n (b, int (length (pre @ pack_block cd b @ le64 (int (length pre))))) s =
    cbind (cfold (\<lambda>b. apply_block env b replay_flags) (b # rest)) (\<lambda>_. creturn n) s"
  using assms
proof (induction rest arbitrary: b pre fuel s)
  case Nil
  then obtain f where "fuel = Suc f" by (cases fuel) auto
  with Nil show ?case by (simp add: replay_loop.simps cbind_assoc) (simp add: cbind_def creturn_def split: prod.splits sum.splits)
next
  case (Cons c rest)
  then obtain f where f: "fuel = Suc f" "length rest < f" by (cases fuel) auto
  let ?pre = "pre @ pack_block cd b @ le64 (int (length pre))"
  obtain r t where run: "apply_block env b replay_flags s = (r, t)" by fastforce
  with apply_block_logless [of s env b replay_flags] Cons.prems(4) have t: "cs_log t = cs_log s" "fd_index (cs_fork t) = []" by simp_all
  have bytes: "bl_blocks (cs_log t) = ?pre @ log_bytes cd (length ?pre) (c # rest)"
    using Cons.prems(1) by (simp add: t add.assoc)
  have cd: "codec_ok cd (c # rest)" using Cons.prems(2) by (simp add: codec_ok_def)
  have ih: "replay_loop f env n (c, int (length (?pre @ pack_block cd c @ le64 (int (length ?pre))))) t =
      cbind (cfold (\<lambda>b. apply_block env b replay_flags) (c # rest)) (\<lambda>_. creturn n) t"
    using Cons.prems(6,7) by (intro Cons.IH [OF bytes cd Cons.prems(3) t(2) f(2)]) simp_all
  have next_block: "read_block (ce_codec env) (int (length ?pre)) (cs_log t) =
      Inr (c, int (length (?pre @ pack_block cd c @ le64 (int (length ?pre)))))"
    using read_block_next [OF bytes cd] Cons.prems(3) by simp
  have ne: "block_num b \<noteq> n" using Cons.prems(7) by simp
  show ?case
  proof (cases r)
    case (Inl e)
    with run ne show ?thesis by (simp add: f(1) replay_loop.simps cbind_assoc) (simp add: cbind_def)
  next
    case (Inr u)
    have "replay_loop fuel env n (b, int (length ?pre)) s = replay_loop f env n (c, int (length (?pre @ pack_block cd c @ le64 (int (length ?pre))))) t"
      using run Inr ne next_block by (simp add: f(1) replay_loop.simps cbind_step cbind_plain)
    also note ih
    finally show ?thesis using run Inr by (simp only: cfold.simps cbind_assoc) (simp add: cbind_step)
  qed
qed

lemma blocks_shorter: "length bs \<le> length (log_bytes cd p bs)"
  by (induction bs arbitrary: p) (simp_all add: le_add_same_cancel1 trans_le_add2)

lemma cbind_cong_at: "(\<And>x t. m s = (Inr x, t) \<Longrightarrow> f x t = g x t) \<Longrightarrow> cbind m f s = cbind m g s"
  by (auto simp: cbind_def split: prod.splits sum.splits)

text \<open>C30. Replaying is applying: on a log that holds a sequence of blocks, and with the empty fork database that \<^verbatim>\<open>reindex\<close>
  starts from, the replay reads exactly these blocks in their order, applies one after the other, and ends with the revision
  of the head and the last block in the fork database; its loop always ends. This holds whatever checkpoints are set: \<^verbatim>\<open>apply_block\<close>
  then replaces the flags of the replay, \<^verbatim>\<open>skip_block_log\<close> among them, but with no block in the fork database none is written to
  the log that is being read.\<close>

theorem replay_applies_log:
  assumes "holds (ce_codec env) (ce_hashes env) bs (cs_log s0)" "codec_ok (ce_codec env) bs" "bs \<noteq> []"
    "int (length bs) < 4294967295"
  defines "s \<equiv> s0\<lparr>cs_fork := reset (cs_fork s0)\<rparr>"
  shows "replay env 0 s =
    cbind (cfold (\<lambda>b. apply_block env b replay_flags) bs) (\<lambda>_.
    cbind reset_revision (\<lambda>_.
    cbind (cdo (\<lambda>t. t\<lparr>cs_fork := start_block (ce_hashes env) (last bs) (cs_fork t)\<rparr>)) (\<lambda>_. creturn (int (length bs))))) s"
proof -
  let ?cd = "ce_codec env" and ?n = "int (length bs)"
  let ?start = "cdo (\<lambda>t. case bl_head (cs_log t) of None \<Rightarrow> t | Some l \<Rightarrow>
    if block_num l \<noteq> 0 then t\<lparr>cs_fork := start_block (ce_hashes env) l (cs_fork t)\<rparr> else t)"
  obtain b rest where bs: "bs = b # rest" using assms(3) by (cases bs) auto
  have h: "bl_head (cs_log s) = Some (last bs)" "bl_blocks (cs_log s) = [] @ log_bytes ?cd (length ([] :: bytes)) (b # rest)" "numbered bs"
    using assms(1,3) by (simp_all add: holds_def bs s_def)
  have empty: "fd_index (cs_fork s) = []" by (simp add: s_def reset_def)
  have last_num: "block_num (last bs) = ?n" using numbered_last [OF h(3) assms(3)] .
  have others: "list_all (\<lambda>x. block_num x \<noteq> ?n) (butlast bs)"
    using h(3) by (auto simp: list_all_iff in_set_conv_nth nth_butlast numbered_def)
  have first: "read_block ?cd 0 (cs_log s) = Inr (b, int (length ([] @ pack_block ?cd b @ le64 (int (length ([] :: bytes))))))"
    using read_block_next [OF h(2)] assms(2) by (simp add: bs)
  have loop: "replay_loop (Suc (length (bl_blocks (cs_log s)))) env ?n (b, int (length ([] @ pack_block ?cd b @ le64 (int (length ([] :: bytes)))))) s =
      cbind (cfold (\<lambda>b. apply_block env b replay_flags) bs) (\<lambda>_. creturn ?n) s"
    unfolding bs
    using assms(2) empty last_num others blocks_shorter [of "b # rest" ?cd 0] h(2)
    by (intro replay_loop_blocks [OF h(2)]) (simp_all add: bs less_Suc_eq_le)
  have "replay env 0 s = cbind (cbind (cfold (\<lambda>b. apply_block env b replay_flags) bs) (\<lambda>_. creturn ?n)) (\<lambda>n.
      cbind reset_revision (\<lambda>_. cbind ?start (\<lambda>_. creturn n))) s"
    using loop by (simp add: replay_def h(1) cbind_plain first last_num) (simp add: cbind_def)
  also have "\<dots> = cbind (cfold (\<lambda>b. apply_block env b replay_flags) bs) (\<lambda>_.
      cbind reset_revision (\<lambda>_. cbind ?start (\<lambda>_. creturn ?n))) s"
    by (simp add: cbind_assoc) (simp add: cbind_def creturn_def cong: sum.case_cong)
  also have "\<dots> = cbind (cfold (\<lambda>b. apply_block env b replay_flags) bs) (\<lambda>_.
    cbind reset_revision (\<lambda>_.
    cbind (cdo (\<lambda>t. t\<lparr>cs_fork := start_block (ce_hashes env) (last bs) (cs_fork t)\<rparr>)) (\<lambda>_. creturn ?n))) s"
  proof (intro cbind_cong_at)
    fix x t y u
    assume "cfold (\<lambda>b. apply_block env b replay_flags) bs s = (Inr x, t)" and u: "reset_revision t = (Inr y, u)"
    then have "cs_log t = cs_log s" using logless.fold_frame [of "\<lambda>b. apply_block env b replay_flags", OF apply_block_logless, of s bs] empty by simp
    moreover have "cs_log u = cs_log t" using u by (auto simp: reset_revision_def split: if_splits)
    ultimately have "bl_head (cs_log u) = Some (last bs)" using h(1) by simp
    then show "cbind ?start (\<lambda>_. creturn ?n) u =
        cbind (cdo (\<lambda>t. t\<lparr>cs_fork := start_block (ce_hashes env) (last bs) (cs_fork t)\<rparr>)) (\<lambda>_. creturn ?n) u"
      using assms(3) by (simp add: cbind_def cdo_def last_num)
  qed
  finally show ?thesis .
qed

end
