(* ===== verification/Sample_Chain.thy ===== *)
theory Sample_Chain
  imports Chain_Switch
begin

text \<open>
  A concrete node on the genesis state of the live network, and the witnesses of the theorems on blocks and
  on the chain: each applies a theorem to a run of the model.
\<close>

definition sample_env :: chain_env where
  "sample_env = \<lparr>ce_node = sample_node, ce_hashes = sample_hashes, ce_codec = log_codec, ce_trx_size = \<lambda>_. 200,
     ce_header_size = 100, ce_public_key = \<lambda>k. k, ce_sign = \<lambda>k _ b. b\<lparr>witness_signature := k\<rparr>\<rparr>"

definition block_on :: "block_id_type \<Rightarrow> time_point_sec \<Rightarrow> signed_block" where
  "block_on prev t = \<lparr>previous = prev, timestamp = t, header_witness = ''initminer'', transaction_merkle_root = 0,
     blk_extensions = [Ext_version SOPHIATX_BLOCKCHAIN_VERSION], witness_signature = 1, transactions = []\<rparr>"

definition live_b1 :: signed_block where "live_b1 = block_on 0 1531512803"
definition live_b2 :: signed_block where "live_b2 = block_on (block_id sample_hashes live_b1) 1531512806"
definition live_c2 :: signed_block where "live_c2 = block_on (block_id sample_hashes live_b1) 1531512809"

text \<open>A chain at genesis, and one whose head is the first block.\<close>

definition chain_of :: "database \<Rightarrow> chain_state" where
  "chain_of db = \<lparr>cs_store = \<lparr>st_db = db, st_torn = False, st_revision = 0, st_stack = []\<rparr>, cs_fork = empty_fork_database,
     cs_log = empty_block_log, cs_pending = [], cs_pending_session = False, cs_popped = [], cs_checkpoints = [], cs_producing = False\<rparr>"

definition at_block :: "signed_block \<Rightarrow> database \<Rightarrow> database" where
  "at_block b db = modify_dgp (\<lambda>d. d\<lparr>head_block_number := 1, head_block_id := block_id sample_hashes b\<rparr>) db"

definition chain_at_b1 :: "database \<Rightarrow> chain_state" where
  "chain_at_b1 db = (chain_of db)\<lparr>cs_store := \<lparr>st_db = at_block live_b1 db, st_torn = False, st_revision = 1, st_stack = []\<rparr>,
     cs_fork := start_block sample_hashes live_b1 empty_fork_database\<rparr>"

section \<open>Blocks\<close>

lemma block_on_simps [simp]: "timestamp (block_on prev t) = t" "blk_witness (block_on prev t) = SOPHIATX_INIT_MINER_NAME"
proof -
  have "account_name ''initminer'' = SOPHIATX_INIT_MINER_NAME" by code_simp
  then show "timestamp (block_on prev t) = t" "blk_witness (block_on prev t) = SOPHIATX_INIT_MINER_NAME"
    by (simp_all add: blk_witness_def block_on_def)
qed

lemma vesting_withdrawals_terminate_witness:
  "succeeds live_genesis (\<lambda>db. process_vesting_withdrawals db \<noteq> Inl Out_of_fuel)"
proof -
  have "succeeds live_genesis withdrawal_times_ok" by code_simp
  then show ?thesis by (rule succeeds_mono) (rule vesting_withdrawals_terminate)
qed

lemma second_block_begins:
  "succeeds live_genesis (\<lambda>db. head_ok (at_block live_b1 db) \<and> block_num live_b2 = 2 \<and>
     succeeds (begin_block sample_node sample_hashes live_b2 (at_block live_b1 db)) (\<lambda>_. True))"
  by code_simp

lemma block_producer_checked_witness:
  "succeeds live_genesis (\<lambda>db. SOPHIATX_INIT_MINER_NAME =
     get_scheduled_witness (get_slot_at_time 1531512806 (at_block live_b1 db)) (at_block live_b1 db))"
  using second_block_begins
proof (rule succeeds_mono)
  fix db
  assume "head_ok (at_block live_b1 db) \<and> block_num live_b2 = 2 \<and>
    succeeds (begin_block sample_node sample_hashes live_b2 (at_block live_b1 db)) (\<lambda>_. True)"
  then obtain db' where "begin_block sample_node sample_hashes live_b2 (at_block live_b1 db) = Inr db'" "block_num live_b2 \<noteq> 1"
    by (auto simp: succeeds_iff)
  from block_producer_checked [OF this(1)] this(2) show "SOPHIATX_INIT_MINER_NAME =
      get_scheduled_witness (get_slot_at_time 1531512806 (at_block live_b1 db)) (at_block live_b1 db)"
    by (auto simp: sample_node_def live_b2_def)
qed

lemma block_extends_head_witness:
  "succeeds live_genesis (\<lambda>db. succeeds (begin_block sample_node sample_hashes live_b2 (at_block live_b1 db))
     (\<lambda>d. head_block_number (db_dgp d) = 2 \<and> head_ok d))"
  using second_block_begins
proof (rule succeeds_mono)
  fix db
  assume "head_ok (at_block live_b1 db) \<and> block_num live_b2 = 2 \<and>
    succeeds (begin_block sample_node sample_hashes live_b2 (at_block live_b1 db)) (\<lambda>_. True)"
  then obtain db' where "begin_block sample_node sample_hashes live_b2 (at_block live_b1 db) = Inr db'" "head_ok (at_block live_b1 db)"
    by (auto simp: succeeds_iff)
  from block_extends_head [OF this] this(1) show "succeeds (begin_block sample_node sample_hashes live_b2 (at_block live_b1 db))
      (\<lambda>d. head_block_number (db_dgp d) = 2 \<and> head_ok d)"
    by (auto simp: succeeds_iff at_block_def)
qed

lemma participation_counts_filled_slots_witness:
  "succeeds live_genesis (\<lambda>db. succeeds (update_global_dynamic_data sample_node sample_hashes live_c2 (at_block live_b1 db))
     (\<lambda>d. participation_count (db_dgp d) = int (card {i. i < 128 \<and> bit (recent_slots_filled (db_dgp d)) i})))"
proof -
  have "succeeds live_genesis (\<lambda>db. 0 \<le> recent_slots_filled (db_dgp (at_block live_b1 db)) \<and>
      participation_count (db_dgp (at_block live_b1 db)) = popcount 128 (recent_slots_filled (db_dgp (at_block live_b1 db))) \<and>
      succeeds (update_global_dynamic_data sample_node sample_hashes live_c2 (at_block live_b1 db)) (\<lambda>_. True))"
    by code_simp
  then show ?thesis unfolding popcount_card
    by (rule succeeds_mono) (use participation_counts_filled_slots in \<open>fastforce simp: succeeds_iff\<close>)
qed

text \<open>Voting from the first block on.\<close>

definition voting :: "database \<Rightarrow> database" where
  "voting db = (modify_witness SOPHIATX_INIT_MINER_NAME (\<lambda>w. w\<lparr>last_confirmed_block_num := 7\<rparr>) db)
     \<lparr>db_cfg := (db_cfg db)\<lparr>cfg_start_miner_voting_block := 0\<rparr>\<rparr>"

lemma irreversible_block_confirmed_witness:
  "succeeds live_genesis (\<lambda>db. succeeds (new_irreversible_block (voting db)) (\<lambda>d. last_irreversible_block_num (db_dgp d) = 7 \<and>
     succeeds (scheduled_witnesses (voting db)) (\<lambda>ws.
       3 * length ws \<le> 4 * length (filter (\<lambda>w. last_irreversible_block_num (db_dgp d) \<le> last_confirmed_block_num w) ws))))"
proof -
  have "succeeds live_genesis (\<lambda>db. succeeds (new_irreversible_block (voting db)) (\<lambda>d. last_irreversible_block_num (db_dgp d) = 7) \<and>
     last_irreversible_block_num (db_dgp (voting db)) = 0 \<and>
     succeeds (scheduled_witnesses (voting db)) (\<lambda>ws. ws \<noteq> [] \<and> list_all (\<lambda>w. 0 \<le> last_confirmed_block_num w \<and> last_confirmed_block_num w < 2 ^ 32) ws) \<and>
     cfg_start_miner_voting_block (db_cfg (voting db)) \<le> head_block_num (voting db))"
    by code_simp
  then show ?thesis
  proof (rule succeeds_mono)
    fix db
    assume a: "succeeds (new_irreversible_block (voting db)) (\<lambda>d. last_irreversible_block_num (db_dgp d) = 7) \<and>
     last_irreversible_block_num (db_dgp (voting db)) = 0 \<and>
     succeeds (scheduled_witnesses (voting db)) (\<lambda>ws. ws \<noteq> [] \<and> list_all (\<lambda>w. 0 \<le> last_confirmed_block_num w \<and> last_confirmed_block_num w < 2 ^ 32) ws) \<and>
     cfg_start_miner_voting_block (db_cfg (voting db)) \<le> head_block_num (voting db)"
    then obtain d ws where d: "new_irreversible_block (voting db) = Inr d" "last_irreversible_block_num (db_dgp d) = 7"
      and ws: "scheduled_witnesses (voting db) = Inr ws" "ws \<noteq> []" "list_all (\<lambda>w. 0 \<le> last_confirmed_block_num w \<and> last_confirmed_block_num w < 2 ^ 32) ws"
      by (auto simp: succeeds_iff)
    from irreversible_block_confirmed [OF d(1) ws] a d ws(1) show "succeeds (new_irreversible_block (voting db))
      (\<lambda>d. last_irreversible_block_num (db_dgp d) = 7 \<and> succeeds (scheduled_witnesses (voting db)) (\<lambda>ws.
         3 * length ws \<le> 4 * length (filter (\<lambda>w. last_irreversible_block_num (db_dgp d) \<le> last_confirmed_block_num w) ws)))"
      by (simp add: succeeds_def)
  qed
qed

section \<open>The chain\<close>

lemma pending_never_leaks_witness:
  "succeeds live_genesis (\<lambda>db. cs_store (clear_pending (push_transactions
     [(sample_env, sample_trx [Transfer_op sample_transfer], []), (sample_env, sample_trx [], [])] (chain_of db))) = cs_store (chain_of db))"
proof -
  have "\<not> cs_pending_session (chain_of db)" for db by (simp add: chain_of_def)
  from pending_never_leaks [OF this] show ?thesis using live_genesis_inv by (auto simp: succeeds_iff)
qed

text \<open>A block that is older than the head is rejected.\<close>

lemma failed_push_unwinds_witness:
  "succeeds live_genesis (\<lambda>db. restored (base_store (chain_of db)) (base_store (snd (chain_push_block sample_env (block_on 0 5) [] (chain_of db)))))"
proof -
  have "succeeds live_genesis (\<lambda>db. throws (fst (chain_push_block sample_env (block_on 0 5) [] (chain_of db))) (Assert_exception []) \<and>
      \<not> switch_due sample_env (block_on 0 5) [] (chain_of db) \<and>
      \<not> commits_itself sample_env (block_on 0 5) [] (clear_pending (chain_of db)))"
    by code_simp
  then show ?thesis
  proof (rule succeeds_mono)
    fix db
    assume a: "throws (fst (chain_push_block sample_env (block_on 0 5) [] (chain_of db))) (Assert_exception []) \<and>
      \<not> switch_due sample_env (block_on 0 5) [] (chain_of db) \<and>
      \<not> commits_itself sample_env (block_on 0 5) [] (clear_pending (chain_of db))"
    then have "chain_push_block sample_env (block_on 0 5) [] (chain_of db) =
        (Inl (Assert_exception []), snd (chain_push_block sample_env (block_on 0 5) [] (chain_of db)))"
      by (simp add: throws_iff prod_eq_iff)
    from failed_push_unwinds [OF this] a show "restored (base_store (chain_of db))
        (base_store (snd (chain_push_block sample_env (block_on 0 5) [] (chain_of db))))" by simp
  qed
qed

lemma pop_undoes_push_witness:
  "succeeds live_genesis (\<lambda>db. let t = snd (chain_push_block sample_env live_b2 [] (chain_at_b1 db)) in
     restored (base_store (chain_at_b1 db)) (cs_store (snd (chain_pop_block sample_env t))))"
proof -
  have "succeeds live_genesis (\<lambda>db. let (r, t) = chain_push_block sample_env live_b2 [] (chain_at_b1 db) in
      r = Inr False \<and> fst (chain_pop_block sample_env t) = Inr () \<and> builds_on_head sample_env live_b2 [] (chain_at_b1 db) \<and>
      \<not> switch_due sample_env live_b2 [] (chain_at_b1 db) \<and> \<not> commits_itself sample_env live_b2 [] (clear_pending (chain_at_b1 db)))"
    by code_simp
  then show ?thesis
  proof (rule succeeds_mono)
    fix db
    assume a: "let (r, t) = chain_push_block sample_env live_b2 [] (chain_at_b1 db) in
      r = Inr False \<and> fst (chain_pop_block sample_env t) = Inr () \<and> builds_on_head sample_env live_b2 [] (chain_at_b1 db) \<and>
      \<not> switch_due sample_env live_b2 [] (chain_at_b1 db) \<and> \<not> commits_itself sample_env live_b2 [] (clear_pending (chain_at_b1 db))"
    obtain r t where p: "chain_push_block sample_env live_b2 [] (chain_at_b1 db) = (r, t)" by fastforce
    with a have "chain_push_block sample_env live_b2 [] (chain_at_b1 db) = (Inr False, t)"
      "chain_pop_block sample_env t = (Inr (), snd (chain_pop_block sample_env t))"
      by (auto simp: prod_eq_iff)
    from pop_undoes_push [OF this(1) _ _ _ this(2)] a p show "let t = snd (chain_push_block sample_env live_b2 [] (chain_at_b1 db)) in
      restored (base_store (chain_at_b1 db)) (cs_store (snd (chain_pop_block sample_env t)))" by auto
  qed
qed

lemma block_keeps_ledger_witness:
  "succeeds live_genesis (\<lambda>db. ledger_inv (cs_db (snd (apply_block sample_env live_b1 [] (chain_of db)))))"
proof -
  have "succeeds live_genesis (\<lambda>db. fst (apply_block sample_env live_b1 [] (chain_of db)) = Inr () \<and>
      succeeds (before_maintenance sample_env live_b1 [] (chain_of db)) (\<lambda>d. interest_amounts_ok (db_cfg d) (db_econ d) \<and> null_idle d))"
    by code_simp
  then obtain db where db: "live_genesis = Inr db" "fst (apply_block sample_env live_b1 [] (chain_of db)) = Inr ()"
    "succeeds (before_maintenance sample_env live_b1 [] (chain_of db)) (\<lambda>d. interest_amounts_ok (db_cfg d) (db_econ d) \<and> null_idle d)"
    unfolding succeeds_iff [of live_genesis] by blast
  have inv: "ledger_inv (cs_db (chain_of db))" using live_genesis_inv unfolding db(1) by (simp add: succeeds_def chain_of_def)
  have "apply_block sample_env live_b1 [] (chain_of db) = (Inr (), snd (apply_block sample_env live_b1 [] (chain_of db)))"
    using db(2) by (simp add: prod_eq_iff)
  from block_keeps_ledger [OF this inv db(3)] show ?thesis unfolding succeeds_iff using db(1) by blast
qed

text \<open>Another second block arrives while the fork database has fallen back to the first one: the head changes to it.\<close>

definition forked :: "database \<Rightarrow> chain_state result" where
  "forked db =
     ebind (push_block sample_hashes live_b2 (start_block sample_hashes live_b1 empty_fork_database)) (\<lambda>(_, fd).
     ebind (pop_block fd) (\<lambda>fd1.
       Inr ((chain_of db)\<lparr>cs_fork := fd1, cs_store := \<lparr>st_db = modify_dgp (\<lambda>d. d\<lparr>head_block_id := block_id sample_hashes live_b2\<rparr>) (at_block live_b1 db),
         st_torn = False, st_revision = 2, st_stack = [(2, at_block live_b1 db, False)]\<rparr>\<rparr>)))"

lemma forked_ok: "forked db = Inr s \<Longrightarrow> fork_ok sample_hashes (cs_fork s)"
  by (auto simp: forked_def ebind_eq_Inr
      intro!: reachable_ok fork_reachable.Step [OF fork_reachable.Step [OF fork_reachable.Step [OF fork_reachable.Empty Start] Push] Pop])

lemma pop_loop_terminates_witness:
  "fst (pop_to sample_env 0 ((chain_of (at_block live_b1 undefined))\<lparr>cs_fork := start_block sample_hashes live_b1 empty_fork_database\<rparr>))
     \<noteq> Inl Out_of_fuel"
proof (rule pop_loop_terminates)
  show "fork_ok sample_hashes (cs_fork ((chain_of (at_block live_b1 undefined))\<lparr>cs_fork := start_block sample_hashes live_b1 empty_fork_database\<rparr>))"
    by (auto intro!: reachable_ok fork_reachable.Step [OF fork_reachable.Empty Start])
qed

lemma forked_switches:
  "succeeds live_genesis (\<lambda>db. succeeds (forked db) (\<lambda>s.
     fst (try_block sample_env live_c2 s) = Inr True \<and> succeeds (push_block sample_hashes live_c2 (cs_fork s)) (\<lambda>(np, fd).
       let s1 = s\<lparr>cs_fork := fd\<rparr> in
       succeeds (fetch_branch_from (block_id sample_hashes (it_data (snd np))) (head_block_id (db_dgp (cs_db s1))) (cs_fork s1))
         (\<lambda>(new, old). head_block_id (db_dgp (cs_db s1)) \<noteq> previous_id (snd (last old))) \<and>
       fst (switch_forks sample_env [] (it_data (snd np)) s1) = Inr ())))"
  by code_simp

lemma switch_reaches_new_head_witness:
  "succeeds live_genesis (\<lambda>db. succeeds (forked db) (\<lambda>s.
     \<exists>np fd. push_block sample_hashes live_c2 (cs_fork s) = Inr (np, fd) \<and>
       head_block_id (db_dgp (cs_db (snd (try_block sample_env live_c2 s)))) = block_id sample_hashes (it_data (snd np))))"
  using forked_switches
proof (elim succeeds_mono)
  fix db s
  assume s: "forked db = Inr s" and "fst (try_block sample_env live_c2 s) = Inr True \<and> succeeds (push_block sample_hashes live_c2 (cs_fork s)) (\<lambda>(np, fd).
       let s1 = s\<lparr>cs_fork := fd\<rparr> in
       succeeds (fetch_branch_from (block_id sample_hashes (it_data (snd np))) (head_block_id (db_dgp (cs_db s1))) (cs_fork s1))
         (\<lambda>(new, old). head_block_id (db_dgp (cs_db s1)) \<noteq> previous_id (snd (last old))) \<and>
       fst (switch_forks sample_env [] (it_data (snd np)) s1) = Inr ())"
  then have "try_block sample_env live_c2 s = (Inr True, snd (try_block sample_env live_c2 s))" by (simp add: prod_eq_iff)
  from switch_reaches_new_head [OF this] forked_ok [OF s]
  show "\<exists>np fd. push_block sample_hashes live_c2 (cs_fork s) = Inr (np, fd) \<and>
      head_block_id (db_dgp (cs_db (snd (try_block sample_env live_c2 s)))) = block_id sample_hashes (it_data (snd np))"
    by (auto simp: sample_env_def)
qed

lemma switch_leaves_fork_head_behind_witness:
  "succeeds live_genesis (\<lambda>db. succeeds (forked db) (\<lambda>s. succeeds (push_block sample_hashes live_c2 (cs_fork s)) (\<lambda>(np, fd).
     \<exists>p q. fd_head fd = Some p \<and>
       fd_head (cs_fork (snd (switch_forks sample_env [] (it_data (snd np)) (s\<lparr>cs_fork := fd\<rparr>)))) = Some q \<and> fst q < fst p)))"
  using forked_switches
proof (elim succeeds_mono)
  fix db s
  assume s: "forked db = Inr s" and run: "fst (try_block sample_env live_c2 s) = Inr True \<and> succeeds (push_block sample_hashes live_c2 (cs_fork s)) (\<lambda>(np, fd).
       let s1 = s\<lparr>cs_fork := fd\<rparr> in
       succeeds (fetch_branch_from (block_id sample_hashes (it_data (snd np))) (head_block_id (db_dgp (cs_db s1))) (cs_fork s1))
         (\<lambda>(new, old). head_block_id (db_dgp (cs_db s1)) \<noteq> previous_id (snd (last old))) \<and>
       fst (switch_forks sample_env [] (it_data (snd np)) s1) = Inr ())"
  then obtain np fd where np: "push_block sample_hashes live_c2 (cs_fork s) = Inr (np, fd)"
    and br: "succeeds (fetch_branch_from (block_id (ce_hashes sample_env) (it_data (snd np))) (head_block_id (db_dgp (cs_db (s\<lparr>cs_fork := fd\<rparr>)))) (cs_fork (s\<lparr>cs_fork := fd\<rparr>)))
      (\<lambda>(new, old). head_block_id (db_dgp (cs_db (s\<lparr>cs_fork := fd\<rparr>))) \<noteq> previous_id (snd (last old)))"
    and sw: "switch_forks sample_env [] (it_data (snd np)) (s\<lparr>cs_fork := fd\<rparr>) =
      (Inr (), snd (switch_forks sample_env [] (it_data (snd np)) (s\<lparr>cs_fork := fd\<rparr>)))"
    by (auto simp: succeeds_iff Let_def prod_eq_iff sample_env_def)
  have "fork_ok sample_hashes (cs_fork (s\<lparr>cs_fork := fd\<rparr>))" using fork_step_ok [OF Push [OF np] forked_ok [OF s]] by simp
  from switch_leaves_fork_head_behind [OF sw this br] np
  show "succeeds (push_block sample_hashes live_c2 (cs_fork s)) (\<lambda>(np, fd). \<exists>p q. fd_head fd = Some p \<and>
       fd_head (cs_fork (snd (switch_forks sample_env [] (it_data (snd np)) (s\<lparr>cs_fork := fd\<rparr>)))) = Some q \<and> fst q < fst p)"
    by (simp add: succeeds_def)
qed

lemma selected_transactions_fit_witness:
  "succeeds live_genesis (\<lambda>db. succeeds (fst (select_transactions sample_env 1531512803 1000 [sample_trx [Transfer_op sample_transfer]] 104
     (chain_of db))) (\<lambda>r. length r = 1 \<and> 104 + sum_list (map (ce_trx_size sample_env) r) < 1000))"
proof -
  have "succeeds live_genesis (\<lambda>db. succeeds (fst (select_transactions sample_env 1531512803 1000
      [sample_trx [Transfer_op sample_transfer]] 104 (chain_of db))) (\<lambda>r. length r = 1))"
    by code_simp
  then show ?thesis
  proof (elim succeeds_mono)
    fix db r
    assume "fst (select_transactions sample_env 1531512803 1000 [sample_trx [Transfer_op sample_transfer]] 104 (chain_of db)) = Inr r"
      and l: "length r = 1"
    then obtain s' where "select_transactions sample_env 1531512803 1000 [sample_trx [Transfer_op sample_transfer]] 104 (chain_of db) = (Inr r, s')"
      by (metis prod.collapse)
    from selected_transactions_fit [OF this] l
    show "length r = 1 \<and> 104 + sum_list (map (ce_trx_size sample_env) r) < 1000" by simp
  qed
qed

text \<open>A replay with a checkpoint at the second block.\<close>

definition before_replay :: "block_log \<Rightarrow> database \<Rightarrow> chain_state" where
  "before_replay bl db = (chain_of db)\<lparr>cs_log := bl, cs_checkpoints := [(2, block_id sample_hashes (log_block 16777216))]\<rparr>"

lemma replay_applies_log_witness:
  "succeeds (efold (append_block log_codec sample_hashes) [log_block 0, log_block 16777216] empty_block_log) (\<lambda>bl.
     succeeds live_genesis (\<lambda>db. let s = (before_replay bl db)\<lparr>cs_fork := reset (cs_fork (before_replay bl db))\<rparr> in
       replay sample_env 0 s =
       cbind (cfold (\<lambda>b. apply_block sample_env b replay_flags) [log_block 0, log_block 16777216]) (\<lambda>_.
       cbind reset_revision (\<lambda>_.
       cbind (cdo (\<lambda>t. t\<lparr>cs_fork := start_block sample_hashes (log_block 16777216) (cs_fork t)\<rparr>)) (\<lambda>_. creturn 2))) s))"
  using log_two
proof (rule succeeds_mono)
  fix bl assume "efold (append_block log_codec sample_hashes) [log_block 0, log_block 16777216] empty_block_log = Inr bl"
  then have h: "holds (ce_codec sample_env) (ce_hashes sample_env) [log_block 0, log_block 16777216] bl"
    using append_all_holds [OF _ empty_holds, of log_codec sample_hashes] by (fastforce simp: sample_env_def)
  have "let s = (before_replay bl db)\<lparr>cs_fork := reset (cs_fork (before_replay bl db))\<rparr> in
       replay sample_env 0 s =
       cbind (cfold (\<lambda>b. apply_block sample_env b replay_flags) [log_block 0, log_block 16777216]) (\<lambda>_.
       cbind reset_revision (\<lambda>_.
       cbind (cdo (\<lambda>t. t\<lparr>cs_fork := start_block sample_hashes (log_block 16777216) (cs_fork t)\<rparr>)) (\<lambda>_. creturn 2))) s" for db
    using replay_applies_log [of sample_env "[log_block 0, log_block 16777216]" "before_replay bl db"] h log_codec_ok(1)
    by (simp add: sample_env_def before_replay_def)
  then show "succeeds live_genesis (\<lambda>db. let s = (before_replay bl db)\<lparr>cs_fork := reset (cs_fork (before_replay bl db))\<rparr> in
       replay sample_env 0 s =
       cbind (cfold (\<lambda>b. apply_block sample_env b replay_flags) [log_block 0, log_block 16777216]) (\<lambda>_.
       cbind reset_revision (\<lambda>_.
       cbind (cdo (\<lambda>t. t\<lparr>cs_fork := start_block sample_hashes (log_block 16777216) (cs_fork t)\<rparr>)) (\<lambda>_. creturn 2))) s)"
    using live_genesis_inv by (auto simp: succeeds_iff)
qed

section \<open>Votes after the first hardfork\<close>

text \<open>\<^verbatim>\<open>recalculate_all_votes\<close> clears the votes of the witnesses but not what the proxies have collected. The account
  \<^verbatim>\<open>initminer\<close> votes through the account \<^verbatim>\<open>miners\<close>, which holds its weight once before and twice after.\<close>

definition proxied :: "database \<Rightarrow> database result" where
  "proxied db =
     ebind (get_account SOPHIATX_INIT_MINER_NAME db) (\<lambda>a.
     ebind (total_balance a) (\<lambda>w.
       Inr (modify_account SOPHIATX_MINER_ACCOUNT (\<lambda>x. x\<lparr>proxied_vsf_votes := (proxied_vsf_votes x)[0 := w]\<rparr>)
         (modify_account SOPHIATX_INIT_MINER_NAME (\<lambda>x. x\<lparr>proxy := SOPHIATX_MINER_ACCOUNT\<rparr>) db))))"

theorem recalculation_doubles_proxied_votes:
  "succeeds live_genesis (\<lambda>db. succeeds (proxied db) (\<lambda>db1. succeeds (recalculate_all_votes db1) (\<lambda>db2.
     succeeds (get_account SOPHIATX_MINER_ACCOUNT db1) (\<lambda>m1. succeeds (get_account SOPHIATX_MINER_ACCOUNT db2) (\<lambda>m2.
       proxied_vsf_votes m1 ! 0 > 0 \<and> proxied_vsf_votes m2 ! 0 = 2 * proxied_vsf_votes m1 ! 0)))))"
  by code_simp

end
