(* ===== verification/Node_Sync.thy ===== *)
theory Node_Sync
  imports Chain_Controller
begin

text \<open>
  Block synchronisation: the queries of \<^verbatim>\<open>libraries/chain/database.cpp\<close> that look a block up by number or id,
  the part of \<^verbatim>\<open>libraries/plugins/chain/chain_plugin_full.cpp\<close> that hands blocks and transactions to the database, and the
  delegate of \<^verbatim>\<open>libraries/plugins/p2p/p2p_plugin.cpp\<close> that answers the peers: the synopsis of the own chain and the ids of the
  blocks a peer is missing. The queue between the threads is left out: a request is the command it runs, and
  its exception is handed back to the caller. The asserts that a release build drops are left out; reading
  past the end of the fork history, which one of them guards, is \<open>Null_dereference\<close>.
\<close>

section \<open>Queries of the database\<close>

definition last_non_undoable_block_num :: "database \<Rightarrow> int" where
  "last_non_undoable_block_num db = last_irreversible_block_num (db_dgp db)"

definition known_block :: "chain_env \<Rightarrow> block_id_type \<Rightarrow> chain_state \<Rightarrow> bool result" where
  "known_block env i s = ebind (fetch_block_by_id env i s) (\<lambda>b. Inr (b \<noteq> None))"

definition find_block_id_for_num :: "chain_env \<Rightarrow> int \<Rightarrow> chain_state \<Rightarrow> block_id_type result" where
  "find_block_id_for_num env n s =
     (if n = 0 then Inr 0
      else
        let bs = db_block_summary (cs_db s) (n mod 65536) in
        if num_from_id bs = n then Inr bs
        else
          ebind (read_block_by_num (ce_codec env) n (cs_log s)) (\<lambda>b.
            case b of
              Some b \<Rightarrow> Inr (block_id (ce_hashes env) b)
            | None \<Rightarrow>
                ebind (fetch_block_on_main_branch_by_number n (cs_fork s)) (\<lambda>fitem.
                  Inr (case fitem of Some p \<Rightarrow> it_id (snd p) | None \<Rightarrow> 0))))"

definition get_block_id_for_num :: "chain_env \<Rightarrow> int \<Rightarrow> chain_state \<Rightarrow> block_id_type result" where
  "get_block_id_for_num env n s = ebind (find_block_id_for_num env n s) (\<lambda>bid. FC_ASSERT (bid \<noteq> 0) '''' (Inr bid))"

text \<open>\<^verbatim>\<open>fetch_block_by_number\<close> of the database.\<close>

definition block_by_number :: "chain_env \<Rightarrow> int \<Rightarrow> chain_state \<Rightarrow> signed_block option result" where
  "block_by_number env n s =
     (case fetch_block_by_number n (cs_fork s) of
        [p] \<Rightarrow> Inr (Some (it_data (snd p)))
      | _ \<Rightarrow> read_block_by_num (ce_codec env) n (cs_log s))"

definition get_block_ids_on_fork :: "block_id_type \<Rightarrow> chain_state \<Rightarrow> block_id_type list result" where
  "get_block_ids_on_fork head_of_fork s =
     ebind (fetch_branch_from (head_block_id (db_dgp (cs_db s))) head_of_fork (cs_fork s)) (\<lambda>(fst_branch, snd_branch).
       Inr (map (\<lambda>p. it_id (snd p)) snd_branch @ [previous_id (snd (last fst_branch))]))"

text \<open>The checkpoints are kept in ascending order.\<close>

definition add_checkpoint :: "int \<times> block_id_type \<Rightarrow> (int \<times> block_id_type) list \<Rightarrow> (int \<times> block_id_type) list" where
  "add_checkpoint c cps = filter (\<lambda>x. fst x < fst c) cps @ c # filter (\<lambda>x. fst x > fst c) cps"

definition add_checkpoints :: "(int \<times> block_id_type) list \<Rightarrow> chain_state \<Rightarrow> chain_state" where
  "add_checkpoints checkpts s = s\<lparr>cs_checkpoints := fold add_checkpoint checkpts (cs_checkpoints s)\<rparr>"

definition before_last_checkpoint :: "chain_state \<Rightarrow> bool" where
  "before_last_checkpoint s \<longleftrightarrow> cs_checkpoints s \<noteq> [] \<and> fst (last (cs_checkpoints s)) \<ge> head_block_num (cs_db s)"

text \<open>\<^verbatim>\<open>close\<close>: the pending transactions are dropped, the log is closed, the fork database is emptied.\<close>

definition close_chain :: "chain_state \<Rightarrow> chain_state" where
  "close_chain s = (let s1 = clear_pending s in s1\<lparr>cs_log := empty_block_log, cs_fork := reset (cs_fork s1)\<rparr>)"

section \<open>The chain plugin\<close>

definition allow_future_time :: int where "allow_future_time = 5"

text \<open>The wall clock is an argument, in microseconds.\<close>

definition time_point_sec_of :: "int \<Rightarrow> time_point_sec" where
  "time_point_sec_of us = u32 (us div 1000000)"

definition check_time_in_block :: "int \<Rightarrow> signed_block \<Rightarrow> unit result" where
  "check_time_in_block clock b = FC_ASSERT (timestamp b \<le> time_point_sec_of clock + allow_future_time) '''' (Inr ())"

text \<open>The thread that writes to the database stores an exception in a \<^verbatim>\<open>std::optional< fc::exception >\<close>, and the caller throws
  that copy.\<close>

definition request :: "'a cmd \<Rightarrow> 'a cmd" where
  "request m = ccatch m (\<lambda>e. cthrow (Fc_exception e))"

definition accept_block :: "chain_env \<Rightarrow> int \<Rightarrow> signed_block \<Rightarrow> bool \<Rightarrow> validation_step list \<Rightarrow> bool cmd" where
  "accept_block env clock b currently_syncing flags =
     cbind (cask (\<lambda>_. check_time_in_block clock b)) (\<lambda>_.
       request (chain_push_block env b (if currently_syncing then skip_validate_invariants # flags else flags)))"

definition accept_transaction :: "chain_env \<Rightarrow> signed_transaction \<Rightarrow> unit cmd" where
  "accept_transaction env t = request (push_transaction env t [])"

definition request_block :: "chain_env \<Rightarrow> time_point_sec \<Rightarrow> account_name_type \<Rightarrow> int \<Rightarrow> validation_step list \<Rightarrow> signed_block cmd" where
  "request_block env t w key flags = request (generate_block env t w key flags)"

section \<open>Answers to peers\<close>

text \<open>What the delegate keeps: whether it runs, and whether the transactions of blocks are validated.\<close>

record p2p_plugin_impl =
  running :: bool
  force_validate :: bool
  block_producer :: bool

definition set_block_production :: "bool \<Rightarrow> p2p_plugin_impl \<Rightarrow> p2p_plugin_impl" where
  "set_block_production producing_blocks pl = pl\<lparr>block_producer := producing_blocks\<rparr>"

definition is_included_block :: "chain_env \<Rightarrow> block_id_type \<Rightarrow> chain_state \<Rightarrow> bool result" where
  "is_included_block env i s =
     ebind (get_block_id_for_num env (num_from_id i) s) (\<lambda>preferred. Inr (i = preferred))"

datatype item_type = block_message_type | trx_message_type

definition has_item :: "chain_env \<Rightarrow> item_type \<Rightarrow> int \<Rightarrow> chain_state \<Rightarrow> bool result" where
  "has_item env ty i s =
     (case ty of
        block_message_type \<Rightarrow> known_block env i s
      | trx_message_type \<Rightarrow> Inr (is_known_transaction i (cs_db s)))"

text \<open>The first handler of \<^verbatim>\<open>handle_block\<close> is for the type of the exception, the second for its code, 4080000.\<close>

definition code_unlinkable :: "error \<Rightarrow> bool" where
  "code_unlinkable e \<longleftrightarrow> e = Unlinkable_block_exception \<or> e = Fc_exception Unlinkable_block_exception"

definition handle_block :: "p2p_plugin_impl \<Rightarrow> chain_env \<Rightarrow> int \<Rightarrow> signed_block \<Rightarrow> bool \<Rightarrow> bool cmd" where
  "handle_block pl env clock b sync_mode =
     (if running pl then
        ccatch (accept_block env clock b sync_mode
                  (if block_producer pl \<or> force_validate pl then [] else [skip_transaction_signatures]))
          (\<lambda>e. if e = Unlinkable_block_exception then cthrow Net_unlinkable_block_exception
               else if code_unlinkable e then cthrow Net_unlinkable_block_exception
               else cthrow e)
      else creturn False)"

definition handle_transaction :: "chain_env \<Rightarrow> signed_transaction \<Rightarrow> unit cmd" where
  "handle_transaction env t = accept_transaction env t"

text \<open>The search through the synopsis, from its last entry to its first.\<close>

fun last_known_block :: "chain_env \<Rightarrow> block_id_type list \<Rightarrow> chain_state \<Rightarrow> block_id_type result" where
  "last_known_block env [] s = Inl Peer_is_on_an_unreachable_fork"
| "last_known_block env (i # is) s =
     (if i = 0 then Inr i
      else
        ebind (known_block env i s) (\<lambda>known.
        ebind (if known then is_included_block env i s else Inr False) (\<lambda>included.
          if included then Inr i else last_known_block env is s)))"

text \<open>A turn with a positive number adds an id, and only one turn in two can have the number zero, so twice
  the limit bounds the loop.\<close>

fun block_ids_loop :: "nat \<Rightarrow> chain_env \<Rightarrow> chain_state \<Rightarrow> int \<Rightarrow> int \<Rightarrow> block_id_type list \<Rightarrow> block_id_type list result" where
  "block_ids_loop 0 env s limit num result = Inl Out_of_fuel"
| "block_ids_loop (Suc fuel) env s limit num result =
     (if num \<le> head_block_num (cs_db s) \<and> int (length result) < limit then
        if num > 0 then
          ebind (get_block_id_for_num env num s) (\<lambda>i. block_ids_loop fuel env s limit (u32 (num + 1)) (result @ [i]))
        else block_ids_loop fuel env s limit (u32 (num + 1)) result
      else Inr result)"

definition remaining_items :: "block_id_type list \<Rightarrow> chain_state \<Rightarrow> int" where
  "remaining_items ids s =
     (if ids \<noteq> [] \<and> num_from_id (last ids) < head_block_num (cs_db s)
      then head_block_num (cs_db s) - num_from_id (last ids) else 0)"

definition get_block_ids :: "chain_env \<Rightarrow> block_id_type list \<Rightarrow> int \<Rightarrow> chain_state \<Rightarrow> (block_id_type list \<times> int) result" where
  "get_block_ids env blockchain_synopsis limit s =
     (if head_block_num (cs_db s) = 0 then Inr ([], 0)
      else
        ebind (if blockchain_synopsis = [] \<or> blockchain_synopsis = [0] then Inr 0
               else last_known_block env (rev blockchain_synopsis) s) (\<lambda>last_known_block_id.
        ebind (block_ids_loop (2 * nat limit + 2) env s limit (num_from_id last_known_block_id) []) (\<lambda>ids.
          Inr (ids, remaining_items ids s))))"

definition get_item_block :: "chain_env \<Rightarrow> block_id_type \<Rightarrow> chain_state \<Rightarrow> signed_block result" where
  "get_item_block env i s =
     ebind (fetch_block_by_id env i s) (\<lambda>opt_block.
       case opt_block of
         Some b \<Rightarrow> Inr b
       | None \<Rightarrow> ebind (get_block_id_for_num env (num_from_id i) s) (\<lambda>_. Inl (Assert_exception '''')))"

definition get_block_time :: "chain_env \<Rightarrow> block_id_type \<Rightarrow> chain_state \<Rightarrow> time_point_sec result" where
  "get_block_time env i s =
     ebind (fetch_block_by_id env i s) (\<lambda>opt_block. Inr (case opt_block of Some b \<Rightarrow> timestamp b | None \<Rightarrow> 0))"

section \<open>The synopsis of the chain\<close>

text \<open>The range of the synopsis: the lowest number, the last number on the preferred chain, the highest
  number, and the ids of the fork in ascending order. \<open>None\<close> is the early return of an empty chain.\<close>

record synopsis_range =
  low_block_num :: int
  non_fork_high_block_num :: int
  high_block_num :: int
  fork_history :: "block_id_type list"

definition fork_range :: "block_id_type \<Rightarrow> int \<Rightarrow> chain_state \<Rightarrow> synopsis_range result" where
  "fork_range reference_point low s =
     ebind (get_block_ids_on_fork reference_point s) (\<lambda>ids.
       let last_non_fork_block = last ids;
           history = rev (butlast ids);
           non_fork_high = (if last_non_fork_block = 0 then 0 else num_from_id last_non_fork_block)
       in ethrow_unless (\<not> non_fork_high < low) Block_older_than_undo_history
            (Inr \<lparr>low_block_num = low, non_fork_high_block_num = non_fork_high,
                  high_block_num = u32 (non_fork_high + int (length history)), fork_history = history\<rparr>))"

definition range_of_synopsis :: "chain_env \<Rightarrow> block_id_type \<Rightarrow> chain_state \<Rightarrow> synopsis_range option result" where
  "range_of_synopsis env reference_point s =
     (let low = last_non_undoable_block_num (cs_db s) in
      if reference_point \<noteq> 0 then
        ebind (is_included_block env reference_point s) (\<lambda>included.
          if included then
            let n = num_from_id reference_point
            in Inr (Some \<lparr>low_block_num = (if n < low then n else low), non_fork_high_block_num = n,
                          high_block_num = n, fork_history = []\<rparr>)
          else ebind (fork_range reference_point low s) (\<lambda>r. Inr (Some r)))
      else
        let n = head_block_num (cs_db s)
        in Inr (if n = 0 then None
                else Some \<lparr>low_block_num = low, non_fork_high_block_num = n, high_block_num = n, fork_history = []\<rparr>))"

definition synopsis_entry :: "chain_env \<Rightarrow> chain_state \<Rightarrow> synopsis_range \<Rightarrow> int \<Rightarrow> block_id_type result" where
  "synopsis_entry env s r low =
     (if low \<le> non_fork_high_block_num r then get_block_id_for_num env low s
      else
        let k = u32 (low - non_fork_high_block_num r - 1) in
        if k < int (length (fork_history r)) then Inr (fork_history r ! nat k) else Inl Null_dereference)"

fun synopsis_loop :: "nat \<Rightarrow> chain_env \<Rightarrow> chain_state \<Rightarrow> synopsis_range \<Rightarrow> int \<Rightarrow> int \<Rightarrow> block_id_type list
    \<Rightarrow> block_id_type list result" where
  "synopsis_loop 0 env s r true_high low synopsis = Inl Out_of_fuel"
| "synopsis_loop (Suc fuel) env s r true_high low synopsis =
     ebind (synopsis_entry env s r low) (\<lambda>i.
       let low1 = u32 (low + u32 (true_high - low + 2) div 2) in
       if low1 \<le> high_block_num r then synopsis_loop fuel env s r true_high low1 (synopsis @ [i])
       else Inr (synopsis @ [i]))"

text \<open>Each turn at least halves the distance to the end, so a 32-bit range takes at most 32 turns.\<close>

definition synopsis_fuel :: nat where "synopsis_fuel = 32"

definition get_blockchain_synopsis :: "chain_env \<Rightarrow> block_id_type \<Rightarrow> int \<Rightarrow> chain_state \<Rightarrow> block_id_type list result" where
  "get_blockchain_synopsis env reference_point number_of_blocks_after_reference_point s =
     ebind (range_of_synopsis env reference_point s) (\<lambda>r.
       case r of
         None \<Rightarrow> Inr []
       | Some r \<Rightarrow>
           synopsis_loop synopsis_fuel env s r (u32 (high_block_num r + number_of_blocks_after_reference_point))
             (if low_block_num r = 0 then 1 else low_block_num r) [])"

section \<open>The numbers of the ids\<close>

lemma num_from_id_range: "0 \<le> num_from_id i \<and> num_from_id i < 4294967296"
  unfolding num_from_id_def by (rule endian_reverse_range) (simp_all add: hash_word_def)

text \<open>A live item is one above the item it points to.\<close>

lemma parent_num:
  assumes "fork_ok hs fd" "p \<in> set (alive fd)" "parent fd p = Some q" "0 < it_num (snd p)"
  shows "q \<in> set (alive fd) \<and> it_num (snd p) = it_num (snd q) + 1"
proof -
  have q: "q \<in> set (alive fd)" "it_id (snd q) = previous_id (snd p)" using parent_Some [OF assms(1-3)] by auto
  have "it_num (snd q) = num_from_id (previous (it_data (snd p)))"
    using assms(1) q num_of_block_id [of hs "it_data (snd q)"] by (auto simp: fork_ok_def item_ok_def previous_id_def)
  moreover have "it_num (snd p) = u32 (num_from_id (previous (it_data (snd p))) + 1)"
    using assms(1,2) by (auto simp: fork_ok_def item_ok_def block_num_def)
  ultimately show ?thesis
    using q(1) assms(4) num_from_id_range [of "previous (it_data (snd p))"] by (cases "num_from_id (previous (it_data (snd p))) = 4294967295") (auto simp: u32_def)
qed

lemma walk_to_num_num:
  assumes "fork_ok hs fd" "q \<in> set (alive fd)" "0 \<le> n" "n \<le> it_num (snd q)"
    "walk_to_num fuel fd n (Some q) = Inr (Some p)"
  shows "p \<in> set (alive fd) \<and> it_num (snd p) = n"
  using assms(2-)
proof (induction fuel arbitrary: q)
  case (Suc fuel)
  show ?case
  proof (cases "it_num (snd q) > n")
    case True
    with Suc.prems obtain q' where q': "parent fd q = Some q'" "walk_to_num fuel fd n (Some q') = Inr (Some p)"
      by (cases "parent fd q"; cases fuel) auto
    with parent_num [OF assms(1) Suc.prems(1)] True Suc.prems(2) Suc.IH [of q'] show ?thesis by auto
  next
    case False
    with Suc.prems show ?thesis by auto
  qed
qed simp

lemma walk_to_num_fuel:
  assumes "fork_ok hs fd" "q \<in> set (alive fd)" "Suc (fst q) < fuel"
  shows "walk_to_num fuel fd n (Some q) \<noteq> Inl Out_of_fuel"
  using assms(2-)
proof (induction fuel arbitrary: q)
  case (Suc fuel)
  show ?case
  proof (cases "parent fd q")
    case None
    with Suc.prems show ?thesis by (cases fuel) auto
  next
    case (Some q')
    with parent_Some [OF assms(1) Suc.prems(1)] Suc.prems(2) Suc.IH [of q'] show ?thesis by auto
  qed
qed simp

lemma main_branch_item:
  assumes "fork_ok hs fd" "0 \<le> n" "fetch_block_on_main_branch_by_number n fd = Inr (Some p)"
  shows "p \<in> set (alive fd) \<and> it_num (snd p) = n"
proof (cases "\<exists>q. fetch_block_by_number n fd = [q]")
  case True
  then have "p \<in> set (fetch_block_by_number n fd)"
    using assms(3) by (auto simp: fetch_block_on_main_branch_by_number_def)
  then show ?thesis by (auto simp: fetch_block_by_number_def set_alive)
next
  case False
  then have "walk_main_branch_to_num n fd = Inr (Some p)"
    using assms(3) by (auto simp: fetch_block_on_main_branch_by_number_def split: list.splits)
  then obtain hp where "fd_head fd = Some hp" "n \<le> it_num (snd hp)"
    "walk_to_num (Suc (Suc (fd_fresh fd))) fd n (Some hp) = Inr (Some p)"
    by (auto simp: walk_main_branch_to_num_def simp del: walk_to_num.simps split: option.splits if_splits)
  moreover from this have "hp \<in> set (alive fd)" by (simp add: set_alive)
  ultimately show ?thesis using walk_to_num_num [OF assms(1) _ assms(2)] by blast
qed

lemma main_branch_fuel: "fork_ok hs fd \<Longrightarrow> fetch_block_on_main_branch_by_number n fd \<noteq> Inl Out_of_fuel"
  using walk_to_num_fuel [of hs fd "the (fd_head fd)" "Suc (Suc (fd_fresh fd))" n] alive_bound [of hs fd "the (fd_head fd)"]
  by (auto simp: fetch_block_on_main_branch_by_number_def walk_main_branch_to_num_def set_alive
      simp del: walk_to_num.simps split: list.splits option.splits)

lemma read_block_by_num_num:
  "read_block_by_num cd n bl = Inr (Some b) \<Longrightarrow> block_num b = n"
  by (auto simp: read_block_by_num_def result_simps split: option.splits)

lemma read_block_by_num_fuel: "read_block_by_num cd n bl \<noteq> Inl Out_of_fuel"
  by (auto simp: read_block_by_num_def get_block_pos_def read_block_def read_u64_def stream_failure_def FC_ASSERT_def ebind_eq_Inl
      split: option.splits if_splits)

text \<open>Whichever of the three sources answers, the id carries the number that was asked for.\<close>

lemma get_block_id_num:
  assumes "fork_ok (ce_hashes env) (cs_fork s)" "0 < n" "get_block_id_for_num env n s = Inr i"
  shows "num_from_id i = n \<and> i \<noteq> 0"
proof -
  have "it_id (snd p) = block_id (ce_hashes env) (it_data (snd p)) \<and> it_num (snd p) = block_num (it_data (snd p))"
    if "p \<in> set (alive (cs_fork s))" for p using assms(1) that by (auto simp: fork_ok_def item_ok_def)
  then show ?thesis using assms(2,3) main_branch_item [OF assms(1), of n] read_block_by_num_num [of "ce_codec env" n "cs_log s"]
    by (auto simp: get_block_id_for_num_def find_block_id_for_num_def Let_def result_simps num_of_block_id
        split: if_splits option.splits)
qed

lemma get_block_id_fuel:
  "fork_ok (ce_hashes env) (cs_fork s) \<Longrightarrow> get_block_id_for_num env n s \<noteq> Inl Out_of_fuel"
  by (auto simp: get_block_id_for_num_def find_block_id_for_num_def Let_def ebind_eq_Inl FC_ASSERT_def main_branch_fuel
      read_block_by_num_fuel split: if_splits option.splits)

section \<open>The ids sent to a peer\<close>


lemma block_ids_loop_fuel:
  assumes "fork_ok (ce_hashes env) (cs_fork s)" "0 \<le> num"
    "2 * (nat limit - length acc) + (if 0 < num then 1 else 2) \<le> fuel"
  shows "block_ids_loop fuel env s limit num acc \<noteq> Inl Out_of_fuel"
  using assms(2,3)
proof (induction fuel arbitrary: num acc)
  case (Suc fuel)
  let ?next = "\<lambda>a. block_ids_loop fuel env s limit (u32 (num + 1)) a"
  have "?next (acc @ [i]) \<noteq> Inl Out_of_fuel" if "0 < num" "int (length acc) < limit" for i
    using that Suc.prems by (intro Suc.IH) (auto simp: u32_def)
  moreover have "?next acc \<noteq> Inl Out_of_fuel" if "num = 0"
    using that Suc.prems by (intro Suc.IH) (auto simp: u32_def)
  ultimately show ?case using get_block_id_fuel [OF assms(1)] Suc.prems(1) by (auto simp: ebind_eq_Inl)
qed (simp split: if_splits)


section \<open>The fork a peer is on\<close>

definition numbers_grow :: "fork_database \<Rightarrow> bool" where
  "numbers_grow fd \<longleftrightarrow> list_all (\<lambda>p. 0 < it_num (snd p)) (alive fd)"

lemma descend_members:
  assumes "fork_ok hs fd" "descend fuel fd n p acc = Inr (p', acc')" "set (p # acc) \<subseteq> set (alive fd)"
  shows "set (p' # acc') \<subseteq> set (alive fd)"
  using assms(2,3)
proof (induction fuel arbitrary: p acc)
  case (Suc fuel)
  then show ?case using parent_Some [OF assms(1), of p]
    by (auto split: if_splits option.splits)
qed simp

lemma descend_both_members:
  assumes "fork_ok hs fd" "descend_both fuel fd p q ps qs = Inr (ps', qs')" "set (p # ps) \<subseteq> set (alive fd)" "set (q # qs) \<subseteq> set (alive fd)"
  shows "set qs' \<subseteq> set (alive fd)"
  using assms(2-)
proof (induction fuel arbitrary: p q ps qs)
  case (Suc fuel)
  show ?case
  proof (cases "previous_id (snd p) = previous_id (snd q)")
    case False
    with Suc.prems(1) obtain p1 q1 where "parent fd p = Some p1" "parent fd q = Some q1"
      "descend_both fuel fd p1 q1 (ps @ [p]) (qs @ [q]) = Inr (ps', qs')" by (auto split: option.splits)
    with Suc.IH [of p1 q1] Suc.prems(2,3) parent_Some [OF assms(1), of p p1] parent_Some [OF assms(1), of q q1]
    show ?thesis by simp
  qed (use Suc.prems in auto)
qed simp

lemma branch_members:
  assumes "fork_ok hs fd" "fetch_branch_from a b fd = Inr (ps, qs)"
  shows "set qs \<subseteq> set (alive fd)"
proof -
  from assms(2) obtain p q p1 q1 ps1 qs1 n m fuel where pq: "find_id a fd = Some p" "find_id b fd = Some q"
    and 1: "descend fuel fd n p [] = Inr (p1, ps1)" and 2: "descend fuel fd m q [] = Inr (q1, qs1)"
    and 3: "descend_both fuel fd p1 q1 ps1 qs1 = Inr (ps, qs)"
    unfolding fetch_branch_from_def Let_def
    by (auto simp: ebind_eq_Inr simp del: descend.simps descend_both.simps split: option.splits)
  show ?thesis
    using descend_both_members [OF assms(1) 3] descend_members [OF assms(1) 1] descend_members [OF assms(1) 2]
      find_id_alive [OF pq(1)] find_id_alive [OF pq(2)] by simp
qed

lemma item_num_next:
  assumes "fork_ok hs fd" "numbers_grow fd" "p \<in> set (alive fd)"
  shows "num_from_id (it_id (snd p)) = num_from_id (previous_id (snd p)) + 1"
proof -
  have "it_num (snd p) = block_num (it_data (snd p)) \<and> it_id (snd p) = block_id hs (it_data (snd p)) \<and> 0 < it_num (snd p)"
    using assms by (auto simp: fork_ok_def item_ok_def numbers_grow_def list_all_iff)
  then show ?thesis using num_from_id_range [of "previous (it_data (snd p))"]
    by (cases "num_from_id (previous (it_data (snd p))) = 4294967295") (auto simp: num_of_block_id block_num_def previous_id_def u32_def)
qed

lemma history_nums:
  assumes "fork_ok hs fd" "numbers_grow fd" "set qs \<subseteq> set (alive fd)" "linked qs" "k < length qs"
  shows "num_from_id (it_id (snd (rev qs ! k))) = num_from_id (previous_id (snd (last qs))) + 1 + int k"
  using assms(3-)
proof (induction qs arbitrary: k)
  case (Cons q qs)
  have q: "num_from_id (it_id (snd q)) = num_from_id (previous_id (snd q)) + 1"
    using Cons.prems(1) by (intro item_num_next [OF assms(1,2)]) simp
  show ?case
  proof (cases qs)
    case Nil
    then show ?thesis using q Cons.prems by simp
  next
    case (Cons q' qs')
    then have hd: "previous_id (snd q) = it_id (snd (rev qs ! (length qs - 1)))" and l: "linked qs" "set qs \<subseteq> set (alive fd)"
      using Cons.prems by (simp_all add: nth_append)
    show ?thesis
    proof (cases "k < length qs")
      case True
      then have "rev (q # qs) ! k = rev qs ! k" "last (q # qs) = last qs" using Cons by (simp_all add: nth_append)
      then show ?thesis using Cons.IH [OF l(2,1) True] by simp
    next
      case False
      then have "k = length qs" "rev (q # qs) ! k = q" "last (q # qs) = last qs"
        using Cons.prems(3) Cons by (simp_all add: nth_append)
      then show ?thesis using Cons.IH [OF l(2,1), of "length qs - 1"] q hd Cons by simp
    qed
  qed
qed simp

section \<open>The entries of the synopsis\<close>

definition range_ok :: "synopsis_range \<Rightarrow> bool" where
  "range_ok r \<longleftrightarrow> 0 \<le> low_block_num r \<and> max 1 (low_block_num r) \<le> high_block_num r \<and>
     high_block_num r = non_fork_high_block_num r + int (length (fork_history r)) \<and> 0 \<le> non_fork_high_block_num r \<and>
     (\<forall>k < length (fork_history r). num_from_id (fork_history r ! k) = non_fork_high_block_num r + 1 + int k)"

lemma fork_range_ok:
  assumes "fork_ok hs (cs_fork s)" "numbers_grow (cs_fork s)" "0 \<le> low" "fork_range i low s = Inr r"
  shows "range_ok r \<and> low_block_num r = low"
proof -
  have zero: "num_from_id 0 = 0" by (simp add: num_from_id_def hash_word_def endian_reverse_u32_def)
  from assms(4) obtain ps qs where b: "fetch_branch_from (head_block_id (db_dgp (cs_db s))) i (cs_fork s) = Inr (ps, qs)"
    and r: "r = \<lparr>low_block_num = low, non_fork_high_block_num = num_from_id (previous_id (snd (last ps))),
      high_block_num = u32 (num_from_id (previous_id (snd (last ps))) + int (length qs)),
      fork_history = rev (map (\<lambda>p. it_id (snd p)) qs)\<rparr>" "low \<le> num_from_id (previous_id (snd (last ps)))"
    unfolding fork_range_def get_block_ids_on_fork_def Let_def
    by (auto simp: ebind_eq_Inr ethrow_unless_eq_Inr zero split: if_splits)
  have qs: "qs \<noteq> []" "linked qs" "previous_id (snd (last ps)) = previous_id (snd (last qs))"
    using fetch_branch_shape [OF assms(1) b] by auto
  note nums = history_nums [OF assms(1,2) branch_members [OF assms(1) b] qs(2)]
  have "num_from_id (previous_id (snd (last ps))) + int (length qs) < 4294967296"
    using nums [of "length qs - 1"] qs num_from_id_range [of "it_id (snd (rev qs ! (length qs - 1)))"] by (cases qs) (auto simp: of_nat_diff)
  moreover have "num_from_id (rev (map (\<lambda>p. it_id (snd p)) qs) ! k) = num_from_id (previous_id (snd (last ps))) + 1 + int k"
    if "k < length qs" for k using nums [OF that] that qs(3) by (simp add: rev_map)
  moreover have "1 \<le> int (length qs)" using qs(1) by (cases qs) simp_all
  ultimately show ?thesis
    using r assms(3) num_from_id_range [of "previous_id (snd (last ps))"] by (auto simp: range_ok_def u32_def)
qed

lemma range_of_synopsis_ok:
  assumes "fork_ok (ce_hashes env) (cs_fork s)" "numbers_grow (cs_fork s)" "0 \<le> last_non_undoable_block_num (cs_db s)"
    "last_non_undoable_block_num (cs_db s) \<le> head_block_num (cs_db s)"
    "range_of_synopsis env i s = Inr (Some r)" "i = 0 \<or> 0 < num_from_id i"
  shows "range_ok r"
  using assms fork_range_ok [OF assms(1-3)]
  by (auto simp: range_of_synopsis_def Let_def result_simps range_ok_def split: if_splits)

lemma synopsis_entry_num:
  assumes "fork_ok (ce_hashes env) (cs_fork s)" "range_ok r" "0 < n" "n \<le> high_block_num r" "high_block_num r < 4294967296"
  shows "synopsis_entry env s r n \<noteq> Inl Null_dereference \<or> n \<le> non_fork_high_block_num r"
    "synopsis_entry env s r n = Inr i \<Longrightarrow> num_from_id i = n" "synopsis_entry env s r n \<noteq> Inl Out_of_fuel"
  using get_block_id_num [OF assms(1,3)] get_block_id_fuel [OF assms(1), of n] assms
  by (auto simp: synopsis_entry_def range_ok_def Let_def u32_def split: if_splits)

text \<open>One turn: the distance to the end, counted inclusively, is halved.\<close>

lemma synopsis_step:
  assumes "0 < low" "low \<le> th" "th < 4294967295"
  obtains low1 where "u32 (low + u32 (th - low + 2) div 2) = low1" "low < low1" "th - low1 + 1 = (th - low + 1) div 2" "low1 \<le> th + 1"
proof -
  have "u32 (low + u32 (th - low + 2) div 2) = low + (th - low + 2) div 2" using assms by (simp add: u32_def)
  moreover have "low < low + (th - low + 2) div 2" "th - (low + (th - low + 2) div 2) + 1 = (th - low + 1) div 2"
    "low + (th - low + 2) div 2 \<le> th + 1" using assms by presburger+
  ultimately show thesis by (rule that)
qed

definition good_ids :: "(int \<Rightarrow> block_id_type result) \<Rightarrow> int \<Rightarrow> int \<Rightarrow> int \<Rightarrow> block_id_type list \<Rightarrow> bool" where
  "good_ids entry low high th ids \<longleftrightarrow>
     ids \<noteq> [] \<and> num_from_id (hd ids) = low \<and> sorted_wrt (<) (map num_from_id ids) \<and>
     list_all (\<lambda>i. low \<le> num_from_id i \<and> num_from_id i \<le> high \<and> entry (num_from_id i) = Inr i) ids \<and>
     (th = high \<longrightarrow> num_from_id (last ids) = high) \<and> 2 ^ (length ids - 1) \<le> th - low + 1"

lemma good_ids_single:
  "num_from_id i = low \<Longrightarrow> entry low = Inr i \<Longrightarrow> low \<le> high \<Longrightarrow> high \<le> th \<Longrightarrow> (th = high \<Longrightarrow> low = high) \<Longrightarrow> good_ids entry low high th [i]"
  by (simp add: good_ids_def)

lemma good_ids_Cons:
  assumes "num_from_id i = low" "entry low = Inr i" "low < low1" "th - low1 + 1 = (th - low + 1) div 2" "good_ids entry low1 high th ids"
  shows "good_ids entry low high th (i # ids)"
proof -
  from assms(5) have ids: "ids \<noteq> []" and pow: "2 ^ (length ids - 1) \<le> (th - low + 1) div 2" and h: "low1 \<le> high"
    using assms(4) by (cases ids; auto simp: good_ids_def)+
  then have "(2 :: int) ^ length ids = 2 * 2 ^ (length ids - 1)" by (cases ids) simp_all
  then have "2 ^ length ids \<le> th - low + 1" using pow by presburger
  then show ?thesis using assms ids h by (auto simp: good_ids_def list_all_iff)
qed

lemma synopsis_loop_shape:
  assumes fork: "fork_ok (ce_hashes env) (cs_fork s)" and r: "range_ok r" and th: "high_block_num r \<le> th" "th < 4294967295"
    and low: "0 < low" "low \<le> high_block_num r" and run: "synopsis_loop fuel env s r th low acc = Inr syn"
  shows "\<exists>ids. syn = acc @ ids \<and> good_ids (synopsis_entry env s r) low (high_block_num r) th ids"
  using low run
proof (induction fuel arbitrary: low acc)
  case (Suc fuel)
  obtain low1 where l1: "u32 (low + u32 (th - low + 2) div 2) = low1" "low < low1" "th - low1 + 1 = (th - low + 1) div 2" "low1 \<le> th + 1"
    using synopsis_step [OF Suc.prems(1) order_trans [OF Suc.prems(2) th(1)] th(2)] .
  from Suc.prems(3) obtain i where i: "synopsis_entry env s r low = Inr i" by (cases "synopsis_entry env s r low") auto
  have rest: "(if low1 \<le> high_block_num r then synopsis_loop fuel env s r th low1 (acc @ [i]) else Inr (acc @ [i])) = Inr syn"
    using Suc.prems(3) unfolding synopsis_loop.simps i ebind_Inr Let_def l1(1) .
  have n: "num_from_id i = low" using synopsis_entry_num(2) [OF fork r Suc.prems(1,2) _ i] th by simp
  show ?case
  proof (cases "low1 \<le> high_block_num r")
    case True
    with Suc.IH [of low1 "acc @ [i]"] rest l1(2) Suc.prems(1) obtain ids where
      "syn = acc @ i # ids" "good_ids (synopsis_entry env s r) low1 (high_block_num r) th ids" by auto
    then show ?thesis using good_ids_Cons [of i low "synopsis_entry env s r", OF n i l1(2,3)] by blast
  next
    case False
    moreover have "low = th" if "th < low1" using that l1(3,4) Suc.prems(1,2) th by presburger
    ultimately have "good_ids (synopsis_entry env s r) low (high_block_num r) th [i]"
      using n i Suc.prems(2) th(1) by (intro good_ids_single) auto
    then show ?thesis using rest False by auto
  qed
qed simp

lemma synopsis_loop_fuel:
  assumes fork: "fork_ok (ce_hashes env) (cs_fork s)" and r: "range_ok r" and th: "high_block_num r \<le> th" "th < 4294967295"
    and low: "0 < low" "low \<le> high_block_num r" and fuel: "th - low + 1 < 2 ^ fuel"
  shows "synopsis_loop fuel env s r th low acc \<noteq> Inl Out_of_fuel"
  using low fuel
proof (induction fuel arbitrary: low acc)
  case 0
  then show ?case using th(1) by simp
next
  case (Suc fuel)
  obtain low1 where l1: "u32 (low + u32 (th - low + 2) div 2) = low1" "low < low1" "th - low1 + 1 = (th - low + 1) div 2"
    using synopsis_step [OF Suc.prems(1) order_trans [OF Suc.prems(2) th(1)] th(2)] by blast
  have "th - low1 + 1 < 2 ^ fuel" using Suc.prems(3) l1(3) by simp
  then show ?case using Suc.IH [of low1] synopsis_entry_num(3) [OF fork r Suc.prems(1,2)] th Suc.prems(1) l1
    by (auto simp: Let_def ebind_eq_Inl)
qed

section \<open>Synchronisation\<close>

text \<open>A node whose fork database has the shape all its operations keep, with no block number wrapped around and
  the last irreversible block not above the head.\<close>

definition sync_ok :: "chain_env \<Rightarrow> chain_state \<Rightarrow> bool" where
  "sync_ok env s \<longleftrightarrow> fork_ok (ce_hashes env) (cs_fork s) \<and> numbers_grow (cs_fork s) \<and>
     0 \<le> last_non_undoable_block_num (cs_db s) \<and> last_non_undoable_block_num (cs_db s) \<le> head_block_num (cs_db s) \<and>
     head_block_num (cs_db s) < 4294967295"


text \<open>Asked for the ids after a synopsis, a node always answers: neither loop runs on, whatever the peer sent.\<close>

theorem get_block_ids_terminates:
  assumes "sync_ok env s"
  shows "get_block_ids env synopsis limit s \<noteq> Inl Out_of_fuel"
proof -
  have ok: "fork_ok (ce_hashes env) (cs_fork s)" using assms by (simp add: sync_ok_def)
  have known: "known_block env i s \<noteq> Inl Out_of_fuel" for i
    by (auto simp: known_block_def fetch_block_by_id_def ebind_eq_Inl read_block_by_num_fuel split: option.splits)
  have inc: "is_included_block env i s \<noteq> Inl Out_of_fuel" for i
    using get_block_id_fuel [OF ok] by (auto simp: is_included_block_def ebind_eq_Inl)
  have "last_known_block env is s \<noteq> Inl Out_of_fuel" for "is"
    by (induction "is") (auto simp: ebind_eq_Inl known inc)
  moreover have "block_ids_loop (2 * nat limit + 2) env s limit (num_from_id i) [] \<noteq> Inl Out_of_fuel" for i
    using num_from_id_range [of i] by (intro block_ids_loop_fuel [OF ok]) auto
  ultimately show ?thesis by (auto simp: get_block_ids_def ebind_eq_Inl simp del: block_ids_loop.simps)
qed

lemma synopsis_run:
  assumes "sync_ok env s" "i = 0 \<or> 0 < num_from_id i" "range_of_synopsis env i s = Inr (Some r)" "0 \<le> n" "high_block_num r + n < 4294967295"
  shows "get_blockchain_synopsis env i n s \<noteq> Inl Out_of_fuel \<and> (get_blockchain_synopsis env i n s = Inr synopsis \<longrightarrow>
    good_ids (synopsis_entry env s r) (max 1 (low_block_num r)) (high_block_num r) (high_block_num r + n) synopsis)"
proof -
  let ?low = "max 1 (low_block_num r)"
  have fork: "fork_ok (ce_hashes env) (cs_fork s)" using assms(1) by (simp add: sync_ok_def)
  have r: "range_ok r" using assms(1-3) by (intro range_of_synopsis_ok [of env s i]) (auto simp: sync_ok_def)
  then have low: "0 < ?low" "?low \<le> high_block_num r" "(if low_block_num r = 0 then 1 else low_block_num r) = ?low"
    and high: "0 < high_block_num r" by (auto simp: range_ok_def)
  have th: "u32 (high_block_num r + n) = high_block_num r + n" using assms(4,5) high by (simp add: u32_def)
  have run: "get_blockchain_synopsis env i n s = synopsis_loop synopsis_fuel env s r (high_block_num r + n) ?low []"
    by (simp only: get_blockchain_synopsis_def assms(3) ebind_Inr option.simps th low(3))
  have "synopsis_loop synopsis_fuel env s r (high_block_num r + n) ?low [] \<noteq> Inl Out_of_fuel"
    using assms(4,5) low by (intro synopsis_loop_fuel [OF fork r]) (auto simp: synopsis_fuel_def)
  moreover have "good_ids (synopsis_entry env s r) ?low (high_block_num r) (high_block_num r + n) synopsis"
    if "synopsis_loop synopsis_fuel env s r (high_block_num r + n) ?low [] = Inr synopsis"
    using synopsis_loop_shape [OF fork r _ assms(5) low(1,2) that] assms(4) by auto
  ultimately show ?thesis unfolding run by blast
qed

text \<open>C24. The synopsis of the own chain that a node sends: for a chain with blocks it is computed, or a lookup throws, but the
  loop never runs on; its entries are ids of the preferred chain in strictly ascending order, from the last irreversible
  block (or block 1) to the head, and there are at most 32 of them.\<close>

theorem synopsis_covers_chain:
  assumes "sync_ok env s" "0 < head_block_num (cs_db s)"
  shows "case get_blockchain_synopsis env 0 0 s of
      Inl e \<Rightarrow> e \<noteq> Out_of_fuel
    | Inr synopsis \<Rightarrow>
        synopsis \<noteq> [] \<and> length synopsis \<le> 32 \<and> sorted_wrt (<) (map num_from_id synopsis) \<and>
        num_from_id (hd synopsis) = max 1 (last_non_undoable_block_num (cs_db s)) \<and>
        num_from_id (last synopsis) = head_block_num (cs_db s) \<and>
        list_all (\<lambda>i. get_block_id_for_num env (num_from_id i) s = Inr i) synopsis"
proof -
  let ?h = "head_block_num (cs_db s)"
  obtain r where r: "range_of_synopsis env 0 s = Inr (Some r)" "low_block_num r = last_non_undoable_block_num (cs_db s)"
    "high_block_num r = ?h" "non_fork_high_block_num r = ?h"
    using assms(2) by (auto simp: range_of_synopsis_def Let_def)
  have h: "?h < 4294967295" using assms(1) by (simp add: sync_ok_def)
  note run = synopsis_run [OF assms(1) _ r(1), of 0, simplified r(2,3)]
  show ?thesis
  proof (cases "get_blockchain_synopsis env 0 0 s")
    case (Inl e)
    then show ?thesis using run h by auto
  next
    case (Inr synopsis)
    then have good: "good_ids (synopsis_entry env s r) (max 1 (last_non_undoable_block_num (cs_db s))) ?h ?h synopsis" using run h by auto
    have "(2 :: int) ^ (length synopsis - 1) < 2 ^ 32" using good h by (auto simp: good_ids_def)
    then have "length synopsis - 1 < 32" by (simp only: power_strict_increasing_iff)
    then show ?thesis using Inr good r(4)
      by (auto simp: good_ids_def list_all_iff synopsis_entry_def split: if_splits)
  qed
qed

text \<open>No lookup throws the exception of the unreachable fork.\<close>

lemma lookup_errors:
  "known_block env i t \<noteq> Inl Peer_is_on_an_unreachable_fork" "get_block_id_for_num env n t \<noteq> Inl Peer_is_on_an_unreachable_fork"
proof -
  show "known_block env i t \<noteq> Inl Peer_is_on_an_unreachable_fork"
    by (auto simp: known_block_def fetch_block_by_id_def read_block_by_num_def get_block_pos_def read_block_def read_u64_def
        stream_failure_def FC_ASSERT_def ebind_eq_Inl split: option.splits if_splits)
  have "walk_to_num f fd n p \<noteq> Inl Peer_is_on_an_unreachable_fork" for f fd n p
    by (induction f arbitrary: p) (auto split: option.splits)
  then show "get_block_id_for_num env n t \<noteq> Inl Peer_is_on_an_unreachable_fork"
    by (auto simp: get_block_id_for_num_def find_block_id_for_num_def Let_def read_block_by_num_def get_block_pos_def
        read_block_def read_u64_def stream_failure_def FC_ASSERT_def ebind_eq_Inl fetch_block_on_main_branch_by_number_def
        walk_main_branch_to_num_def simp del: walk_to_num.simps split: option.splits if_splits list.splits)
qed

lemma unreachable_fork:
  assumes "j \<in> set js" "known_block env j t = Inr True" "is_included_block env j t = Inr True"
  shows "last_known_block env js t \<noteq> Inl Peer_is_on_an_unreachable_fork"
  using assms
  by (induction js) (auto simp: ebind_eq_Inl lookup_errors is_included_block_def)

lemma block_ids_loop_errors: "block_ids_loop fuel env t limit num acc \<noteq> Inl Peer_is_on_an_unreachable_fork"
  by (induction fuel arbitrary: num acc) (auto simp: ebind_eq_Inl lookup_errors)

text \<open>C25. Two nodes can synchronise whenever they agree on what is irreversible: if the block at the low end of a
  node's own synopsis is known to the other node as part of its preferred chain, the other node does not answer that
  the peer is on an unreachable fork.\<close>

theorem agreed_irreversible_block_syncs:
  assumes "sync_ok env s" "0 < head_block_num (cs_db s)" "get_blockchain_synopsis env 0 0 s = Inr synopsis"
    "get_block_id_for_num env (max 1 (last_non_undoable_block_num (cs_db s))) s = Inr i"
    "known_block env i t = Inr True" "is_included_block env i t = Inr True"
  shows "get_block_ids env synopsis limit t \<noteq> Inl Peer_is_on_an_unreachable_fork"
proof -
  obtain r where r: "range_of_synopsis env 0 s = Inr (Some r)" "low_block_num r = last_non_undoable_block_num (cs_db s)"
    "high_block_num r = head_block_num (cs_db s)" "non_fork_high_block_num r = head_block_num (cs_db s)"
    using assms(2) by (auto simp: range_of_synopsis_def Let_def)
  have "good_ids (synopsis_entry env s r) (max 1 (last_non_undoable_block_num (cs_db s))) (head_block_num (cs_db s))
      (head_block_num (cs_db s)) synopsis"
    using synopsis_run [OF assms(1) _ r(1), of 0 synopsis] r(2,3) assms(1,3) by (auto simp: sync_ok_def)
  then have hd: "synopsis \<noteq> []" "num_from_id (hd synopsis) = max 1 (last_non_undoable_block_num (cs_db s))"
    "num_from_id (hd synopsis) \<le> head_block_num (cs_db s)" "synopsis_entry env s r (num_from_id (hd synopsis)) = Inr (hd synopsis)"
    by (cases synopsis; auto simp: good_ids_def)+
  then have "i = hd synopsis" using assms(4) r(4) by (simp add: synopsis_entry_def)
  then show ?thesis using unreachable_fork [OF _ assms(5,6), of "rev synopsis"] hd(1)
    by (auto simp: get_block_ids_def ebind_eq_Inl block_ids_loop_errors simp del: block_ids_loop.simps)
qed

section \<open>Two blocks\<close>

definition sync_env :: chain_env where
  "sync_env = \<lparr>ce_node = sample_node, ce_hashes = sample_hashes, ce_codec = log_codec, ce_trx_size = \<lambda>_. 200,
     ce_header_size = 100, ce_public_key = \<lambda>k. k, ce_sign = \<lambda>k _ b. b\<lparr>witness_signature := k\<rparr>\<rparr>"

definition sync_state :: "fork_database \<Rightarrow> chain_state" where
  "sync_state fd =
     \<lparr>cs_store = \<lparr>st_db = modify_dgp (\<lambda>d. d\<lparr>head_block_number := 2, head_block_id := block_id sample_hashes sample_b2,
         last_irreversible_block_num := 1\<rparr>) (empty_database (init_config (default_genesis 1))), st_torn = False, st_revision = 0, st_stack = []\<rparr>,
      cs_fork = fd, cs_log = empty_block_log, cs_pending = [], cs_pending_session = False, cs_popped = [],
      cs_checkpoints = [], cs_producing = False\<rparr>"

definition sync_fork :: "fork_database result" where
  "sync_fork = push_all sample_hashes [sample_b1, sample_b2] empty_fork_database"

lemma sync_fork_ids:
  "succeeds sync_fork (\<lambda>fd. numbers_grow fd \<and>
     succeeds (get_blockchain_synopsis sync_env 0 0 (sync_state fd))
       (\<lambda>syn. syn = [block_id sample_hashes sample_b1, block_id sample_hashes sample_b2]) \<and>
     succeeds (get_block_id_for_num sync_env 1 (sync_state fd)) (\<lambda>i. i = block_id sample_hashes sample_b1) \<and>
     succeeds (known_block sync_env (block_id sample_hashes sample_b1) (sync_state fd)) (\<lambda>b. b) \<and>
     succeeds (is_included_block sync_env (block_id sample_hashes sample_b1) (sync_state fd)) (\<lambda>b. b) \<and>
     succeeds (get_block_ids sync_env [block_id sample_hashes sample_b1] 5 (sync_state fd)) (\<lambda>(ids, n). ids \<noteq> []))"
  by code_simp

lemma sync_state_nums [simp]:
  "head_block_num (cs_db (sync_state fd)) = 2" "last_non_undoable_block_num (cs_db (sync_state fd)) = 1" "cs_fork (sync_state fd) = fd"
  by (simp_all add: sync_state_def head_block_num_def last_non_undoable_block_num_def modify_dgp_def)

lemma sync_state_ok:
  assumes "sync_fork = Inr fd" "numbers_grow fd"
  shows "sync_ok sync_env (sync_state fd)"
proof -
  have "fork_ok (ce_hashes sync_env) fd"
    using push_all_reachable assms(1) reachable_ok by (force simp: sync_fork_def sync_env_def)
  then show ?thesis using assms(2) by (simp add: sync_ok_def)
qed


lemma get_block_ids_terminates_witness:
  "succeeds sync_fork (\<lambda>fd. get_block_ids sync_env [7, 8] 5 (sync_state fd) \<noteq> Inl Out_of_fuel)"
  using sync_fork_ids by (rule succeeds_mono) (intro get_block_ids_terminates sync_state_ok; simp)

lemma synopsis_covers_chain_witness:
  "succeeds sync_fork (\<lambda>fd. succeeds (get_blockchain_synopsis sync_env 0 0 (sync_state fd)) (\<lambda>syn. num_from_id (last syn) = 2))"
  using sync_fork_ids
proof (rule succeeds_mono, goal_cases)
  case (1 fd)
  then show ?case using synopsis_covers_chain [OF sync_state_ok, of fd] by (auto simp: succeeds_iff)
qed

lemma agreed_irreversible_block_syncs_witness:
  "succeeds sync_fork (\<lambda>fd. get_block_ids sync_env [block_id sample_hashes sample_b1, block_id sample_hashes sample_b2] 5 (sync_state fd)
     \<noteq> Inl Peer_is_on_an_unreachable_fork)"
  using sync_fork_ids
proof (rule succeeds_mono, goal_cases)
  case (1 fd)
  then show ?case using agreed_irreversible_block_syncs [OF sync_state_ok, of fd] by (auto simp: succeeds_iff)
qed

end
