(* ===== verification/Block_Production.thy ===== *)
theory Block_Production
  imports Node_Sync
begin

text \<open>
  The witness plugin (\<^verbatim>\<open>libraries/plugins/witness/witness_plugin.cpp\<close>): when a node produces a block, with which witness and
  key, how long it sleeps in between, what it does with exceptions, and its check of memos for private keys. The wall
  clock, in microseconds, is an argument; the key derivations the memo check tries are parameters. Logging, the timer
  and the options parser are left out.
\<close>

section \<open>The plugin\<close>

record witness_plugin_impl =
  production_enabled :: bool
  required_witness_participation :: int
  production_skip_flags :: "validation_step list"
  private_keys :: "(public_key_type \<times> int) list"
  wp_witnesses :: "account_name_type list"

datatype block_production_condition =
    produced
  | not_synced
  | not_my_turn
  | not_time_yet
  | no_private_key
  | low_participation
  | lag
  | consecutive
  | wait_for_genesis
  | exception_producing_block

definition BLOCK_PRODUCING_LAG_TIME :: int where "BLOCK_PRODUCING_LAG_TIME = 750"

definition BLOCK_PRODUCTION_LOOP_SLEEP_TIME :: int where "BLOCK_PRODUCTION_LOOP_SLEEP_TIME = 200000"

text \<open>The keys are parsed by \<^verbatim>\<open>wif_to_key\<close>; \<open>None\<close> is a key that it does not accept.\<close>

definition add_private_key :: "chain_env \<Rightarrow> int option \<Rightarrow> (public_key_type \<times> int) list \<Rightarrow> (public_key_type \<times> int) list result" where
  "add_private_key env key ks =
     (case key of
        None \<Rightarrow> Inl (Assert_exception ''unable to parse private key'')
      | Some k \<Rightarrow> Inr ((ce_public_key env k, k) # filter (\<lambda>x. fst x \<noteq> ce_public_key env k) ks))"

definition witness_plugin_initialize :: "chain_env \<Rightarrow> account_name_type list \<Rightarrow> int option list \<Rightarrow> bool \<Rightarrow> int option
    \<Rightarrow> witness_plugin_impl result" where
  "witness_plugin_initialize env ws keys stale participation =
     ebind (efold (add_private_key env) keys []) (\<lambda>ks.
       Inr \<lparr>production_enabled = stale,
            required_witness_participation =
              (case participation of None \<Rightarrow> 33 * SOPHIATX_1_PERCENT | Some p \<Rightarrow> u32 (SOPHIATX_1_PERCENT * p)),
            production_skip_flags = [], private_keys = ks, wp_witnesses = ws\<rparr>)"

text \<open>Whether the production loop is launched, and the plugin after it.\<close>

definition witness_plugin_startup :: "witness_plugin_impl \<Rightarrow> bool \<times> witness_plugin_impl" where
  "witness_plugin_startup pl =
     (if wp_witnesses pl = [] then (False, pl)
      else (True, if production_enabled pl
                  then pl\<lparr>production_skip_flags := skip_undo_history_check # production_skip_flags pl\<rparr> else pl))"

definition witness_participation_rate :: "database \<Rightarrow> int" where
  "witness_participation_rate db = SOPHIATX_100_PERCENT * popcount 128 (recent_slots_filled (db_dgp db)) div 128"

section \<open>When to produce\<close>

datatype decision = Decline block_production_condition | Produce time_point_sec account_name_type int

text \<open>The part of \<^verbatim>\<open>maybe_produce_block\<close> between the check that the node is synced and the call of \<^verbatim>\<open>generate_block\<close>.\<close>

definition decide :: "witness_plugin_impl \<Rightarrow> time_point_sec \<Rightarrow> database \<Rightarrow> decision result" where
  "decide pl now db =
     (let slot = get_slot_at_time now db in
      if slot = 0 then Inr (Decline not_time_yet)
      else
        let scheduled_witness = get_scheduled_witness slot db in
        if scheduled_witness \<notin> set (wp_witnesses pl) then Inr (Decline not_my_turn)
        else
          let scheduled_time = get_slot_time slot db in
          ebind (get_witness scheduled_witness db) (\<lambda>wo.
            case map_of (private_keys pl) (signing_key wo) of
              None \<Rightarrow> Inr (Decline no_private_key)
            | Some private_key \<Rightarrow>
                Inr (if witness_participation_rate db < required_witness_participation pl then Decline low_participation
                     else if \<bar>scheduled_time * 1000000 - now * 1000000\<bar> > BLOCK_PRODUCING_LAG_TIME * 1000 then Decline lag
                     else Produce scheduled_time scheduled_witness private_key)))"

text \<open>The condition and the block that is broadcast, with the plugin and the chain afterwards.\<close>

definition maybe_produce_block :: "chain_env \<Rightarrow> int \<Rightarrow> witness_plugin_impl \<Rightarrow> chain_state
    \<Rightarrow> (block_production_condition \<times> signed_block option) result \<times> witness_plugin_impl \<times> chain_state" where
  "maybe_produce_block env now_fine pl s =
     (let now = time_point_sec_of (now_fine + 500000) in
      if \<not> production_enabled pl \<and> \<not> get_slot_time 1 (cs_db s) \<ge> now then (Inr (not_synced, None), pl, s)
      else
        let pl1 = pl\<lparr>production_enabled := True\<rparr> in
        case decide pl1 now (cs_db s) of
          Inl e \<Rightarrow> (Inl e, pl1, s)
        | Inr (Decline c) \<Rightarrow> (Inr (c, None), pl1, s)
        | Inr (Produce t w key) \<Rightarrow>
            (case request_block env t w key (production_skip_flags pl1) s of
               (Inl e, s1) \<Rightarrow> (Inl e, pl1, s1)
             | (Inr b, s1) \<Rightarrow> (Inr (produced, Some b), pl1, s1)))"

text \<open>Exceptions of the standard library are not caught by the handler for \<^verbatim>\<open>fc::exception\<close>.\<close>

definition is_fc_exception :: "error \<Rightarrow> bool" where
  "is_fc_exception e = (case e of Out_of_range _ \<Rightarrow> False | Logic_error _ \<Rightarrow> False | _ \<Rightarrow> True)"

definition block_production_loop :: "chain_env \<Rightarrow> time_point_sec \<Rightarrow> int \<Rightarrow> witness_plugin_impl \<Rightarrow> chain_state
    \<Rightarrow> (block_production_condition \<times> signed_block option) result \<times> witness_plugin_impl \<times> chain_state" where
  "block_production_loop env genesis_time now_fine pl s =
     (if now_fine < genesis_time * 1000000 then (Inr (wait_for_genesis, None), pl, s)
      else
        case maybe_produce_block env now_fine pl s of
          (Inl e, pl1, s1) \<Rightarrow>
            if e = Unknown_hardfork_exception then (Inl e, pl1, s1)
            else if is_fc_exception e then (Inr (exception_producing_block, None), pl1, s1)
            else (Inl e, pl1, s1)
        | r \<Rightarrow> r)"

definition time_to_sleep :: "int \<Rightarrow> int" where
  "time_to_sleep now =
     (let t = BLOCK_PRODUCTION_LOOP_SLEEP_TIME - now mod BLOCK_PRODUCTION_LOOP_SLEEP_TIME
      in if t < 50000 then t + BLOCK_PRODUCTION_LOOP_SLEEP_TIME else t)"

section \<open>Private keys in memos\<close>

text \<open>The public key of a memo read as a private key in base58, if it is one, and the public key of the private key
  regenerated from the hash of a seed.\<close>

record memo_keys =
  from_base58 :: "string \<Rightarrow> public_key_type option"
  seed_key :: "string \<Rightarrow> public_key_type"

definition candidate_keys :: "memo_keys \<Rightarrow> string \<Rightarrow> string \<Rightarrow> public_key_type list" where
  "candidate_keys mk name memo =
     (case from_base58 mk memo of None \<Rightarrow> [] | Some k \<Rightarrow> [k]) @
     [seed_key mk (name @ ''owner'' @ memo), seed_key mk (name @ ''active'' @ memo), seed_key mk (name @ ''posting'' @ memo)]"

definition check_memo :: "memo_keys \<Rightarrow> string \<Rightarrow> string \<Rightarrow> account_object \<Rightarrow> account_authority_object \<Rightarrow> unit result" where
  "check_memo mk name memo account auth =
     (let keys = candidate_keys mk name memo;
          leaked = (\<lambda>a. \<exists>kw \<in> set (key_auths a). fst kw \<in> set keys) in
      ethrow_unless (\<not> leaked (au_owner auth))
        (Plugin_exception ''Detected private owner key in memo field. You should change your owner keys.'')
      (ethrow_unless (\<not> leaked (au_active auth))
        (Plugin_exception ''Detected private active key in memo field. You should change your active keys.'')
      (ethrow_unless (memo_key account \<notin> set keys)
        (Plugin_exception ''Detected private memo key in memo field. You should change your memo key.'')
      (Inr ()))))"

text \<open>The observer of operations, as the database calls it before it evaluates one. The length of a stored name is not
  kept, so the text of a name is an argument.\<close>

definition witness_pre_operation :: "memo_keys \<Rightarrow> (account_name_type \<Rightarrow> string) \<Rightarrow> operation \<Rightarrow> chain_state \<Rightarrow> unit result" where
  "witness_pre_operation mk name_of oper s =
     (if cs_producing s then
        (case oper of
           Transfer_op x \<Rightarrow>
             if tr_memo x \<noteq> [] then
               ebind (get_account (tr_from x) (cs_db s)) (\<lambda>account.
               ebind (get_account_authority (tr_from x) (cs_db s)) (\<lambda>auth.
                 check_memo mk (name_of (acc_name account)) (tr_memo x) account auth))
             else Inr ()
         | _ \<Rightarrow> Inr ())
      else Inr ())"

section \<open>Properties\<close>

text \<open>The difference of two times in whole seconds is within 750 milliseconds exactly if they are equal.\<close>

lemma lag_exact: "\<bar>a * 1000000 - b * 1000000\<bar> > BLOCK_PRODUCING_LAG_TIME * 1000 \<longleftrightarrow> a \<noteq> (b :: int)"
  by (auto simp: BLOCK_PRODUCING_LAG_TIME_def)

lemma decision_chain:
  assumes "(if slot = 0 then Inr (Decline a) else if w \<notin> W then Inr (Decline b)
      else ebind g (\<lambda>wo. case K wo of None \<Rightarrow> Inr (Decline c)
        | Some k \<Rightarrow> Inr (if p < r then Decline d else if st \<noteq> now then Decline e else Produce st w k))) = Inr (Produce t w' key)"
  shows "t = now \<and> slot \<noteq> (0 :: int) \<and> w' = w \<and> w \<in> W \<and> r \<le> (p :: int) \<and> (\<exists>wo. g = Inr wo \<and> K wo = Some key)"
proof -
  from assms have 1: "slot \<noteq> 0" "w \<in> W" by (auto split: if_splits)
  with assms obtain wo k where 2: "g = Inr wo" "K wo = Some k" by (cases g; cases "K (projr g)") auto
  then show ?thesis using assms 1 by (simp split: if_splits)
qed

lemma decide_Produce:
  assumes "decide pl now db = Inr (Produce t w key)"
  shows "t = now \<and> get_slot_at_time now db \<noteq> 0 \<and> w = get_scheduled_witness (get_slot_at_time now db) db \<and> w \<in> set (wp_witnesses pl) \<and>
    required_witness_participation pl \<le> witness_participation_rate db \<and>
    (\<exists>wo. get_witness w db = Inr wo \<and> map_of (private_keys pl) (signing_key wo) = Some key)"
  using assms unfolding decide_def Let_def lag_exact by (drule_tac decision_chain) blast

text \<open>Signing changes only the signature.\<close>

definition sign_ok :: "chain_env \<Rightarrow> bool" where
  "sign_ok env \<longleftrightarrow> (\<forall>k f b. timestamp (ce_sign env k f b) = timestamp b \<and> header_witness (ce_sign env k f b) = header_witness b)"

lemma generated_block:
  assumes "sign_ok env" "generate_block env t w key flags s = (Inr b, s')" "valid_name w"
  shows "timestamp b = t \<and> blk_witness b = w"
proof -
  let ?e = "with_skip_flags flags env"
  have p: "timestamp c = t \<and> blk_witness c = w" if "pending_block ?e t w key txs x = Inr c" for txs x c
    using that assms(1) account_name_text [OF assms(3)]
    by (auto simp: pending_block_def Let_def result_simps sign_ok_def with_skip_flags_def blk_witness_def)
  show ?thesis using assms(2)
    unfolding generate_block_def Let_def cbind_def cask_def cdo_def creturn_def
    by (auto split: prod.splits sum.splits dest: p)
qed

lemma maybe_produce_block_produced:
  assumes "maybe_produce_block env clock pl s = (Inr (c, Some b), pl', s')"
  shows "c = produced \<and> (\<exists>t w key. decide (pl\<lparr>production_enabled := True\<rparr>) (time_point_sec_of (clock + 500000)) (cs_db s) = Inr (Produce t w key) \<and>
    generate_block env t w key (production_skip_flags pl) s = (Inr b, s'))"
  using assms
  by (auto simp: maybe_produce_block_def Let_def request_block_def request_def ccatch_def cthrow_def
      split: if_splits sum.splits decision.splits prod.splits)

text \<open>C22. A node produces a block only in the slot of one of its own witnesses, with that witness and that slot in the header, while
  enough of the last slots were filled; and its clock is then within half a second of the time of the block. (The
  tolerance of 750 milliseconds in the source is applied to whole seconds, where it allows no difference at all.)\<close>

theorem produces_only_in_own_slot:
  assumes "sign_ok env" "maybe_produce_block env clock pl s = (Inr (c, Some b), pl', s')"
    "0 \<le> clock" "clock < 4294967295 * 1000000" "\<forall>w \<in> set (wp_witnesses pl). valid_name w"
  shows "blk_witness b \<in> set (wp_witnesses pl) \<and> 0 < get_slot_at_time (timestamp b) (cs_db s) \<and>
    blk_witness b = get_scheduled_witness (get_slot_at_time (timestamp b) (cs_db s)) (cs_db s) \<and>
    required_witness_participation pl \<le> witness_participation_rate (cs_db s) \<and>
    timestamp b * 1000000 - 500000 \<le> clock \<and> clock < timestamp b * 1000000 + 500000"
proof -
  let ?now = "time_point_sec_of (clock + 500000)"
  from maybe_produce_block_produced [OF assms(2)] obtain t w key where
    d: "decide (pl\<lparr>production_enabled := True\<rparr>) ?now (cs_db s) = Inr (Produce t w key)" and
    g: "generate_block env t w key (production_skip_flags pl) s = (Inr b, s')" by blast
  have t: "t = ?now" "get_slot_at_time t (cs_db s) \<noteq> 0" "w = get_scheduled_witness (get_slot_at_time t (cs_db s)) (cs_db s)"
    "w \<in> set (wp_witnesses pl)" "required_witness_participation pl \<le> witness_participation_rate (cs_db s)"
    using decide_Produce [OF d] by auto
  with assms(5) have b: "timestamp b = t" "blk_witness b = w" using generated_block [OF assms(1) g] by simp_all
  have "0 \<le> get_slot_at_time t (cs_db s)" by (simp add: get_slot_at_time_def Let_def u32_def)
  moreover define q where "q = (clock + 500000) div 1000000"
  have q: "clock + 500000 = q * 1000000 + (clock + 500000) mod 1000000" "0 \<le> (clock + 500000) mod 1000000" "(clock + 500000) mod 1000000 < 1000000"
    by (simp_all add: q_def)
  then have "0 \<le> q" "q < 4294967296" using assms(3,4) by linarith+
  then have "t = q" using t(1) by (simp add: time_point_sec_of_def u32_def q_def)
  then have "t * 1000000 - 500000 \<le> clock" "clock < t * 1000000 + 500000" using q by linarith+
  ultimately show ?thesis using t(2-5) by (simp add: b)
qed

text \<open>In its own slot a node that is synced, has the key of the scheduled witness and sees enough participation does not decline: it
  asks for a block, and the request meets every condition that \<^verbatim>\<open>generate_block\<close> puts on the producer.\<close>

theorem own_slot_is_used:
  assumes "production_enabled pl" "get_slot_at_time now (cs_db s) \<noteq> 0" "get_slot_time (get_slot_at_time now (cs_db s)) (cs_db s) = now"
    "w = get_scheduled_witness (get_slot_at_time now (cs_db s)) (cs_db s)" "w \<in> set (wp_witnesses pl)"
    "get_witness w (cs_db s) = Inr wo" "map_of (private_keys pl) (signing_key wo) = Some key" "ce_public_key env key = signing_key wo"
    "required_witness_participation pl \<le> witness_participation_rate (cs_db s)"
  shows "decide pl now (cs_db s) = Inr (Produce now w key) \<and> check_producer env now w key (cs_db s) = Inr ()"
proof -
  have "0 \<le> get_slot_at_time now (cs_db s)" by (simp add: get_slot_at_time_def Let_def u32_def)
  moreover have "\<not> BLOCK_PRODUCING_LAG_TIME * 1000 < \<bar>now * 1000000 - now * 1000000\<bar>" by (simp add: BLOCK_PRODUCING_LAG_TIME_def)
  ultimately show ?thesis
    unfolding decide_def check_producer_def Let_def assms(3) using assms(2,4-) by simp
qed

text \<open>The handler that is meant to stop production at a hardfork the node does not know never runs: the exception reaches the
  production loop as a copy of its base class, so the loop reports an exception and goes on.\<close>

theorem unknown_hardfork_never_stops_production:
  "fst (block_production_loop env genesis_time clock pl s) \<noteq> Inl Unknown_hardfork_exception"
proof -
  have "get_witness w db \<noteq> Inl Unknown_hardfork_exception" for w db
    by (auto simp: get_witness_def get_by_def split: option.splits)
  then have "decide p t db \<noteq> Inl Unknown_hardfork_exception" for p t db
    by (auto simp: decide_def Let_def ebind_eq_Inl split: option.splits)
  moreover have "request_block env t w k fs x \<noteq> (Inl Unknown_hardfork_exception, y)" for t w k fs x y
    by (auto simp: request_block_def request_def ccatch_def cthrow_def split: prod.splits sum.splits)
  ultimately have "fst (maybe_produce_block env clock pl s) \<noteq> Inl Unknown_hardfork_exception"
    by (auto simp: maybe_produce_block_def Let_def split: prod.splits sum.splits decision.splits)
  then show ?thesis by (auto simp: block_production_loop_def split: prod.splits sum.splits)
qed

text \<open>The production loop sleeps between 50 and 250 milliseconds and wakes up at a multiple of 200 milliseconds of the clock, so
  that it does not miss the half second around the start of a slot.\<close>

theorem sleep_hits_the_grid:
  assumes "0 \<le> now"
  shows "50000 \<le> time_to_sleep now \<and> time_to_sleep now < 250000 \<and> (now + time_to_sleep now) mod 200000 = 0"
proof -
  obtain q r where "now = q * 200000 + r" "0 \<le> r" "r < 200000" "now mod 200000 = r"
    by (metis div_mult_mod_eq pos_mod_bound pos_mod_sign zero_less_numeral)
  then show ?thesis unfolding time_to_sleep_def BLOCK_PRODUCTION_LOOP_SLEEP_TIME_def Let_def by auto
qed

end
