(* ===== verification/Sample_Node.thy ===== *)
theory Sample_Node
  imports Sample_Chain Block_Production
begin

text \<open>
  The witness plugin on the genesis state of the live network: the runs that the theorems on block production are applied to.
\<close>

definition sample_producer :: witness_plugin_impl where
  "sample_producer = \<lparr>production_enabled = True, required_witness_participation = 6700, production_skip_flags = [],
     private_keys = [(1, 1)], wp_witnesses = [SOPHIATX_INIT_MINER_NAME]\<rparr>"

lemma production_runs:
  "succeeds live_genesis (\<lambda>db. succeeds (fst (maybe_produce_block sample_env 1531512803200000 sample_producer (chain_of db)))
     (\<lambda>(c, b). case b of None \<Rightarrow> False | Some _ \<Rightarrow> True))"
  by code_simp

lemma sample_sign_ok: "sign_ok sample_env"
  by (simp add: sign_ok_def sample_env_def)

lemma produces_only_in_own_slot_witness:
  "succeeds live_genesis (\<lambda>db. succeeds (fst (maybe_produce_block sample_env 1531512803200000 sample_producer (chain_of db)))
     (\<lambda>(c, b). case b of None \<Rightarrow> False | Some b \<Rightarrow> timestamp b * 1000000 - 500000 \<le> 1531512803200000))"
  using production_runs
proof (rule succeeds_mono, goal_cases)
  case (1 db)
  then obtain c b pl' s' where "maybe_produce_block sample_env 1531512803200000 sample_producer (chain_of db) = (Inr (c, Some b), pl', s')"
    by (cases "maybe_produce_block sample_env 1531512803200000 sample_producer (chain_of db)") (auto simp: succeeds_iff split: option.splits)
  from produces_only_in_own_slot [OF sample_sign_ok this] this show ?case
    by (simp add: succeeds_def sample_producer_def valid_name_def special_names)
qed

lemma own_slot_holds:
  "succeeds live_genesis (\<lambda>db. get_slot_at_time 1531512803 db \<noteq> 0 \<and> get_slot_time (get_slot_at_time 1531512803 db) db = 1531512803 \<and>
     get_scheduled_witness (get_slot_at_time 1531512803 db) db = SOPHIATX_INIT_MINER_NAME \<and>
     succeeds (get_witness SOPHIATX_INIT_MINER_NAME db) (\<lambda>wo. signing_key wo = 1) \<and> 6700 \<le> witness_participation_rate db)"
  by code_simp

lemma own_slot_is_used_witness:
  "succeeds live_genesis (\<lambda>db. decide sample_producer 1531512803 db = Inr (Produce 1531512803 SOPHIATX_INIT_MINER_NAME 1))"
  using own_slot_holds
proof (rule succeeds_mono, goal_cases)
  case (1 db)
  then obtain wo where "get_witness SOPHIATX_INIT_MINER_NAME db = Inr wo" "signing_key wo = 1" by (auto simp: succeeds_iff)
  with 1 own_slot_is_used [of sample_producer 1531512803 "chain_of db" SOPHIATX_INIT_MINER_NAME wo 1 sample_env]
  show ?case by (simp add: sample_producer_def sample_env_def chain_of_def)
qed

lemma sleep_hits_the_grid_witness: "(123456 + time_to_sleep 123456) mod 200000 = 0"
  using sleep_hits_the_grid [of 123456] by simp

end
