(* ===== verification/Key_Lookup.thy ===== *)
theory Key_Lookup
  imports Transactions
begin

text \<open>
  The account-by-key plugin (\<^verbatim>\<open>libraries/plugins/account_by_key/account_by_key_plugin.cpp\<close>): an index from keys to the accounts whose
  authorities name them, kept up to date by two observers that run before and after each operation. The lemmas show
  for which operations the index follows the authorities of the chain, and for which it does not.
\<close>

section \<open>The plugin\<close>

text \<open>The keys remembered from before the operation, and the objects of the index, unique by key and account.\<close>

record key_plugin =
  cached_keys :: "public_key_type list"
  key_lookup :: "(public_key_type \<times> account_name_type) list"

definition find_authority :: "account_name_type \<Rightarrow> database \<Rightarrow> account_authority_object option" where
  "find_authority n db = find_by au_account n (rows (db_authorities db))"

definition auth_keys :: "account_authority_object \<Rightarrow> public_key_type list" where
  "auth_keys a = map fst (key_auths (au_owner a)) @ map fst (key_auths (au_active a))"

definition clear_cache :: "key_plugin \<Rightarrow> key_plugin" where
  "clear_cache p = p\<lparr>cached_keys := []\<rparr>"

definition cache_auths :: "account_authority_object \<Rightarrow> key_plugin \<Rightarrow> key_plugin" where
  "cache_auths a p = p\<lparr>cached_keys := remdups (auth_keys a @ cached_keys p)\<rparr>"

definition delete_cached_key :: "account_name_type \<Rightarrow> key_plugin \<Rightarrow> key_plugin" where
  "delete_cached_key n p =
     p\<lparr>key_lookup := fold (\<lambda>k l. filter (\<lambda>e. e \<noteq> (k, n)) l) (cached_keys p) (key_lookup p), cached_keys := []\<rparr>"

text \<open>One turn of the first loop of \<^verbatim>\<open>update_key_lookup\<close>.\<close>

definition update_key :: "account_name_type \<Rightarrow> public_key_type \<Rightarrow> key_plugin \<Rightarrow> key_plugin" where
  "update_key n k p =
     (if k \<notin> set (cached_keys p)
      then if (k, n) \<in> set (key_lookup p) then p else p\<lparr>key_lookup := key_lookup p @ [(k, n)]\<rparr>
      else p\<lparr>cached_keys := filter (\<lambda>c. c \<noteq> k) (cached_keys p)\<rparr>)"

definition update_key_lookup :: "account_authority_object \<Rightarrow> key_plugin \<Rightarrow> key_plugin" where
  "update_key_lookup a p = delete_cached_key (au_account a) (fold (update_key (au_account a)) (remdups (auth_keys a)) p)"

text \<open>The account an operation names, for the operations that the observers look at.\<close>

definition recache :: "account_name_type \<Rightarrow> database \<Rightarrow> key_plugin \<Rightarrow> key_plugin" where
  "recache n db p = (case find_authority n db of None \<Rightarrow> clear_cache p | Some a \<Rightarrow> cache_auths a (clear_cache p))"

definition key_pre_operation :: "operation \<Rightarrow> database \<Rightarrow> key_plugin \<Rightarrow> key_plugin" where
  "key_pre_operation oper db p =
     (case oper of
        Account_create_op _ \<Rightarrow> clear_cache p
      | Account_update_op q \<Rightarrow> recache (up_account q) db p
      | Recover_account_op q \<Rightarrow> recache (rc_account_to_recover q) db p
      | Account_delete_op q \<Rightarrow> recache (ad_account q) db p
      | _ \<Rightarrow> p)"

definition refresh :: "account_name_type \<Rightarrow> database \<Rightarrow> key_plugin \<Rightarrow> key_plugin" where
  "refresh n db p = (case find_authority n db of None \<Rightarrow> p | Some a \<Rightarrow> update_key_lookup a p)"

definition key_post_operation :: "externals \<Rightarrow> operation \<Rightarrow> database \<Rightarrow> key_plugin \<Rightarrow> key_plugin" where
  "key_post_operation x oper db p =
     (case oper of
        Account_create_op q \<Rightarrow> refresh (account_name (make_random_fixed_string x (ac_name_seed q))) db p
      | Account_update_op q \<Rightarrow> refresh (up_account q) db p
      | Recover_account_op q \<Rightarrow> refresh (rc_account_to_recover q) db p
      | Account_delete_op q \<Rightarrow> (if find_authority (ad_account q) db = None then delete_cached_key (ad_account q) p else p)
      | _ \<Rightarrow> p)"

text \<open>An operation with its observers: the first runs on the state before it, the second on the state after it.\<close>

definition observed_operation :: "externals \<Rightarrow> operation \<Rightarrow> database \<Rightarrow> key_plugin \<Rightarrow> (database \<times> key_plugin) result" where
  "observed_operation x oper db p =
     ebind (apply_operation x oper db) (\<lambda>db'. Inr (db', key_post_operation x oper db' (key_pre_operation oper db p)))"

section \<open>The index against the authorities\<close>

definition keys_of :: "account_name_type \<Rightarrow> database \<Rightarrow> public_key_type set" where
  "keys_of n db = (case find_authority n db of None \<Rightarrow> {} | Some a \<Rightarrow> set (auth_keys a))"

definition indexed :: "account_name_type \<Rightarrow> key_plugin \<Rightarrow> public_key_type set" where
  "indexed n p = {k. (k, n) \<in> set (key_lookup p)}"

lemma cached_clear [simp]: "cached_keys (clear_cache p) = []" "key_lookup (clear_cache p) = key_lookup p"
  by (simp_all add: clear_cache_def)

lemma recache_keys [simp]: "set (cached_keys (recache n db p)) = keys_of n db" "key_lookup (recache n db p) = key_lookup p"
  by (auto simp: recache_def keys_of_def cache_auths_def split: option.splits)

lemma delete_indexed:
  "indexed m (delete_cached_key n p) = (if m = n then indexed m p - set (cached_keys p) else indexed m p)"
proof -
  have "set (fold (\<lambda>k l. filter (\<lambda>e. e \<noteq> (k, n)) l) ks l) = set l - (\<lambda>k. (k, n)) ` set ks" for ks and l :: "(public_key_type \<times> account_name_type) list"
    by (induction ks arbitrary: l) auto
  then show ?thesis by (auto simp: indexed_def delete_cached_key_def)
qed

lemma fold_update_key:
  assumes "distinct ks"
  shows "indexed m (fold (update_key n) ks p) = (if m = n then indexed m p \<union> (set ks - set (cached_keys p)) else indexed m p) \<and>
    set (cached_keys (fold (update_key n) ks p)) = set (cached_keys p) - set ks"
  using assms by (induction ks arbitrary: p) (auto simp: update_key_def indexed_def)

lemma update_key_lookup_indexed:
  "indexed m (update_key_lookup a p) =
     (if m = au_account a then (indexed m p \<union> (set (auth_keys a) - set (cached_keys p))) - (set (cached_keys p) - set (auth_keys a))
      else indexed m p)"
  by (simp add: update_key_lookup_def delete_indexed fold_update_key)

lemma find_authority_name: "find_authority n db = Some a \<Longrightarrow> au_account a = n"
  by (auto simp: find_authority_def find_by_def find_Some_iff)

lemma refresh_indexed:
  "indexed m (refresh n db p) =
     (if m = n \<and> find_authority n db \<noteq> None then (indexed m p \<union> (keys_of n db - set (cached_keys p))) - (set (cached_keys p) - keys_of n db)
      else indexed m p)"
  by (auto simp: refresh_def keys_of_def update_key_lookup_indexed dest: find_authority_name split: option.splits)

section \<open>Which operations change authorities\<close>

text \<open>The contract of a routine that leaves the authorities alone.\<close>

locale authority_frame =
  fixes run :: "'a \<Rightarrow> database \<Rightarrow> database result"
  assumes kept: "run q db = Inr db' \<Longrightarrow> db_authorities db' = db_authorities db"
begin

lemma fold_kept: "efold run qs db = Inr db' \<Longrightarrow> db_authorities db' = db_authorities db"
  by (erule efold_invariant) (auto dest: kept)

end

lemma authorities_fields [simp]:
  "db_authorities (modify_account n f db) = db_authorities db" "db_authorities (modify_witness n g db) = db_authorities db"
  "db_authorities (modify_dgp h db) = db_authorities db" "db_authorities (modify_escrow k e db) = db_authorities db"
  "db_authorities (remove_escrow k db) = db_authorities db" "db_authorities (clear_witness_votes n db) = db_authorities db"
  "db_authorities (with_applications f1 db) = db_authorities db" "db_authorities (with_buyings f2 db) = db_authorities db"
  "db_authorities (with_change_requests f3 db) = db_authorities db"
  by (simp_all add: modify_account_def modify_witness_def modify_dgp_def modify_escrow_def remove_escrow_def clear_witness_votes_def
      with_applications_def with_buyings_def with_change_requests_def)

lemma vote_kept: "adjust_witness_vote w d db = Inr db' \<Longrightarrow> db_authorities db' = db_authorities db"
  by (auto simp: adjust_witness_vote_def result_simps Let_def)

interpretation vote_step: authority_frame "\<lambda>v. adjust_witness_vote (wv_witness v) d" for d
  by unfold_locales (rule vote_kept)

interpretation witness_votes: authority_frame "\<lambda>(n, d). adjust_witness_votes n d"
  by unfold_locales (auto simp: adjust_witness_votes_def dest: vote_step.fold_kept)

lemma proxied_votes_kept: "adjust_proxied_votes r n d db = Inr db' \<Longrightarrow> db_authorities db' = db_authorities db"
proof (induction r arbitrary: n db)
  case (Suc r)
  show ?case using Suc.prems witness_votes.kept [of "(n, d)" db db']
    by (subst (asm) adjust_proxied_votes.simps) (auto simp: result_simps Let_def split: if_splits dest!: Suc.IH)
qed (subst (asm) adjust_proxied_votes.simps, auto simp: result_simps split: if_splits dest: witness_votes.kept [of "(n, d)" for n, simplified])

lemma proxied_votes_arr_kept: "adjust_proxied_votes_arr r n ds db = Inr db' \<Longrightarrow> db_authorities db' = db_authorities db"
proof (induction r arbitrary: n db)
  case (Suc r)
  show ?case using Suc.prems
    by (subst (asm) adjust_proxied_votes_arr.simps)
      (auto simp: ebind_eq_Inr Let_def split: if_splits dest!: Suc.IH witness_votes.kept [of "(n, d)" for n d, simplified])
qed (subst (asm) adjust_proxied_votes_arr.simps,
    auto simp: ebind_eq_Inr split: if_splits dest!: witness_votes.kept [of "(n, d)" for n d, simplified])

lemma balance_kept:
  "adjust_balance n d db = Inr db' \<Longrightarrow> db_authorities db' = db_authorities db"
  "create_vesting n d db = Inr db' \<Longrightarrow> db_authorities db' = db_authorities db"
  "adjust_supply d db = Inr db' \<Longrightarrow> db_authorities db' = db_authorities db"
  by (auto simp: adjust_balance_def modify_balance_def create_vesting_def adjust_supply_def adjust_proxied_witness_votes_def result_simps
      split: if_splits dest!: proxied_votes_kept)

lemma pay_fee_kept: "pay_fee n f db = Inr db' \<Longrightarrow> db_authorities db' = db_authorities db"
  by (auto simp: pay_fee_def result_simps split: if_splits dest!: balance_kept)

lemma fee_kept: "process_operation_fee oper db = Inr db' \<Longrightarrow> db_authorities db' = db_authorities db"
  by (auto simp: process_operation_fee_def Let_def ebind_eq_Inr FC_ASSERT_eq_Inr split: if_splits dest!: pay_fee_kept)

interpretation k_transfer: authority_frame transfer_apply
  by unfold_locales (auto simp: transfer_apply_def result_simps dest!: balance_kept)

lemma vest_kept: "vest n d db = Inr db' \<Longrightarrow> db_authorities db' = db_authorities db"
  by (auto simp: vest_def ebind_eq_Inr FC_ASSERT_eq_Inr Let_def)

interpretation k_power_up: authority_frame transfer_to_vesting_apply
  by unfold_locales (auto simp: transfer_to_vesting_apply_def ebind_eq_Inr FC_ASSERT_eq_Inr private_net_forbidden_Inr
      split: if_splits dest!: balance_kept vest_kept)

interpretation k_withdraw: authority_frame withdraw_vesting_apply
  by unfold_locales (auto simp: withdraw_vesting_apply_def ebind_eq_Inr FC_ASSERT_eq_Inr private_net_forbidden_Inr Let_def split: if_splits)

interpretation k_feed: authority_frame feed_publish_apply
  by unfold_locales (auto simp: feed_publish_apply_def result_simps Let_def)

lemma create_witness_kept: "create_witness mk db = Inr db' \<Longrightarrow> db_authorities db' = db_authorities db"
  by (auto simp: create_witness_def result_simps)

interpretation k_witness_update: authority_frame "witness_update_apply x" for x
  by unfold_locales (auto simp: witness_update_apply_def create_new_witness_def ebind_eq_Inr FC_ASSERT_eq_Inr Let_def
      split: if_splits option.splits dest: create_witness_kept)

interpretation k_admin_witness: authority_frame admin_witness_update_apply
  by unfold_locales (auto simp: admin_witness_update_apply_def create_new_witness_def FC_ASSERT_eq_Inr split: option.splits dest: create_witness_kept)

interpretation k_witness_stop: authority_frame witness_stop_apply
  by unfold_locales (auto simp: witness_stop_apply_def ebind_eq_Inr split: option.splits)

interpretation k_witness_props: authority_frame "witness_set_properties_apply x" for x
  by unfold_locales (auto simp: witness_set_properties_apply_def ebind_eq_Inr FC_ASSERT_eq_Inr Let_def)

interpretation k_vote: authority_frame account_witness_vote_apply
  by unfold_locales (auto simp: account_witness_vote_apply_def ebind_eq_Inr FC_ASSERT_eq_Inr private_net_forbidden_Inr Let_def
      split: option.splits dest!: vote_kept)

interpretation k_proxy: authority_frame account_witness_proxy_apply
  by unfold_locales (auto simp: account_witness_proxy_apply_def adjust_proxied_witness_votes_arr_def ebind_eq_Inr FC_ASSERT_eq_Inr
      private_net_forbidden_Inr Let_def split: if_splits dest!: proxied_votes_arr_kept)

lemma deliver_kept: "db_authorities (deliver_all s a rs b d j db) = db_authorities db"
proof -
  have "db_authorities (fold (deliver s a rs b d j ss as) xs db) = db_authorities db" for ss as xs
    by (induction xs arbitrary: db) (simp_all add: deliver_def Let_def)
  then show ?thesis by (simp add: deliver_all_def Let_def)
qed

interpretation k_custom: authority_frame custom_apply
  by unfold_locales (auto simp: custom_apply_def deliver_kept)

interpretation k_custom_json: authority_frame custom_json_apply
  by unfold_locales (auto simp: custom_json_apply_def deliver_kept)

interpretation k_custom_binary: authority_frame custom_binary_apply
  by unfold_locales (auto simp: custom_binary_apply_def deliver_kept)

interpretation k_request: authority_frame request_account_recovery_apply
  by unfold_locales (auto simp: request_account_recovery_apply_def modify_recovery_request_def remove_recovery_request_def ebind_eq_Inr
      FC_ASSERT_eq_Inr Let_def split: option.splits if_splits)

interpretation k_change: authority_frame change_recovery_account_apply
  by unfold_locales (auto simp: change_recovery_account_apply_def ebind_eq_Inr Let_def split: option.splits)

lemma escrow_kept:
  "create_escrow mk db = Inr db' \<Longrightarrow> db_authorities db' = db_authorities db"
  "escrow_refund n e db = Inr db' \<Longrightarrow> db_authorities db' = db_authorities db"
  by (auto simp: create_escrow_def escrow_refund_def result_simps dest!: balance_kept)

interpretation k_escrow_transfer: authority_frame escrow_transfer_apply
  by unfold_locales (auto simp: escrow_transfer_apply_def ebind_eq_Inr FC_ASSERT_eq_Inr private_net_forbidden_Inr Let_def
      dest!: balance_kept escrow_kept)

interpretation k_dispute: authority_frame escrow_dispute_apply
  by unfold_locales (auto simp: escrow_dispute_apply_def ebind_eq_Inr FC_ASSERT_eq_Inr private_net_forbidden_Inr Let_def)

interpretation k_release: authority_frame escrow_release_apply
  by unfold_locales (auto simp: escrow_release_apply_def ebind_eq_Inr FC_ASSERT_eq_Inr private_net_forbidden_Inr Let_def
      dest!: release_permitted_Inr balance_kept)

interpretation k_approve: authority_frame escrow_approve_apply
  by unfold_locales (auto simp: escrow_approve_apply_def ebind_eq_Inr FC_ASSERT_eq_Inr private_net_forbidden_Inr Let_def
      split: if_splits dest!: balance_kept escrow_kept)

interpretation k_set_reset: authority_frame set_reset_account_apply
  by unfold_locales (auto simp: set_reset_account_apply_def ebind_eq_Inr FC_ASSERT_eq_Inr)

interpretation k_app_create: authority_frame application_create_apply
  by unfold_locales (auto simp: application_create_apply_def ebind_eq_Inr)

interpretation k_app_update: authority_frame application_update_apply
  by unfold_locales (auto simp: application_update_apply_def ebind_eq_Inr FC_ASSERT_eq_Inr Let_def)

interpretation k_app_delete: authority_frame application_delete_apply
  by unfold_locales (auto simp: application_delete_apply_def ebind_eq_Inr FC_ASSERT_eq_Inr Let_def)

interpretation k_buy: authority_frame buy_application_apply
  by unfold_locales (auto simp: buy_application_apply_def ebind_eq_Inr FC_ASSERT_eq_Inr private_net_forbidden_Inr)

interpretation k_cancel: authority_frame cancel_application_buying_apply
  by unfold_locales (auto simp: cancel_application_buying_apply_def ebind_eq_Inr FC_ASSERT_eq_Inr private_net_forbidden_Inr)

interpretation k_promotion: authority_frame transfer_from_promotion_pool_apply
  by unfold_locales (auto simp: transfer_from_promotion_pool_apply_def ebind_eq_Inr FC_ASSERT_eq_Inr private_net_forbidden_Inr Let_def
      dest!: balance_kept)

interpretation k_sponsor: authority_frame sponsor_fees_apply
  by unfold_locales (auto simp: sponsor_fees_apply_def remove_sponsor_def ebind_eq_Inr FC_ASSERT_eq_Inr private_net_forbidden_Inr split: if_splits)

lemmas evaluators_keep_authorities = k_transfer.kept k_power_up.kept k_withdraw.kept k_feed.kept k_witness_update.kept k_admin_witness.kept
  k_witness_stop.kept k_witness_props.kept k_vote.kept k_proxy.kept k_custom.kept k_custom_json.kept k_custom_binary.kept k_request.kept
  k_change.kept k_escrow_transfer.kept k_dispute.kept k_release.kept k_approve.kept k_set_reset.kept k_app_create.kept k_app_update.kept
  k_app_delete.kept k_buy.kept k_cancel.kept k_promotion.kept k_sponsor.kept

text \<open>The account whose authority an operation replaces.\<close>

definition authority_target :: "externals \<Rightarrow> operation \<Rightarrow> account_name_type option" where
  "authority_target x oper =
     (case oper of
        Account_create_op q \<Rightarrow> Some (account_name (make_random_fixed_string x (ac_name_seed q)))
      | Account_update_op q \<Rightarrow> Some (up_account q)
      | Recover_account_op q \<Rightarrow> Some (rc_account_to_recover q)
      | Account_delete_op q \<Rightarrow> Some (ad_account q)
      | Reset_account_op q \<Rightarrow> Some (ra_account_to_reset q)
      | _ \<Rightarrow> None)"

lemma find_authority_cong: "db_authorities db' = db_authorities db \<Longrightarrow> find_authority n db' = find_authority n db"
  by (simp add: find_authority_def)

lemma find_authority_modify:
  assumes "\<And>a. au_account (f a) = au_account a"
  shows "find_authority m (modify_account_authority n f db) =
    (if m = n then map_option f (find_authority n db) else find_authority m db)"
proof -
  have "find_by au_account m (modify_by au_account n f rs) = (if m = n then map_option f (find_by au_account n rs) else find_by au_account m rs)" for rs
    by (induction rs) (auto simp: find_by_def modify_by_def assms)
  then show ?thesis by (simp add: find_authority_def modify_account_authority_def)
qed

lemma find_authority_update_owner:
  assumes "update_owner_authority n au db = Inr db'"
  shows "find_authority m db' =
    (if m = n then map_option (\<lambda>a. a\<lparr>au_owner := au, last_owner_update := head_block_time db\<rparr>) (find_authority n db) else find_authority m db)"
    "find_authority n db \<noteq> None"
  using assms
  by (auto simp: update_owner_authority_def ebind_eq_Inr get_account_authority_def get_by_def find_authority_modify split: option.splits)
    (auto simp: find_authority_def)

lemma find_authority_create:
  assumes "account_create_apply x q db = Inr db'"
  defines "n \<equiv> account_name (make_random_fixed_string x (ac_name_seed q))"
  shows "find_authority n db = None" "find_authority m db' =
    (if m = n then Some \<lparr>au_account = n, au_owner = ac_owner q, au_active = ac_active q, last_owner_update = 0\<rparr> else find_authority m db)"
proof -
  let ?au = "\<lparr>au_account = n, au_owner = ac_owner q, au_active = ac_active q, last_owner_update = 0\<rparr>"
  have "create_account mk db = Inr db1 \<Longrightarrow> db_authorities db1 = db_authorities db" for mk db1
    by (auto simp: create_account_def result_simps)
  then have "create_in au_account (\<lambda>_. ?au) (db_authorities db) = Inr (db_authorities db')"
    using assms by (auto simp: account_create_apply_def Let_def ebind_eq_Inr FC_ASSERT_eq_Inr create_account_authority_def
        simp del: create_in_Inr split: if_splits dest!: pay_fee_kept balance_kept)
  then have new: "find_by au_account n (rows (db_authorities db)) = None" and rows: "rows (db_authorities db') = rows (db_authorities db) @ [?au]"
    by (auto simp: create_in_Inr find_by_None)
  show "find_authority n db = None" using new by (simp add: find_authority_def)
  show "find_authority m db' = (if m = n then Some ?au else find_authority m db)"
    using find_by_append_new [OF new, of ?au m] by (simp add: find_authority_def rows)
qed

lemma find_authority_frames [simp]:
  "find_authority m (modify_account n f db) = find_authority m db"
  "find_authority m (db\<lparr>db_recovery_requests := r\<rparr>) = find_authority m db"
  by (simp_all add: find_authority_def)

lemma get_account_authority_Inr: "get_account_authority n db = Inr a \<Longrightarrow> find_authority n db = Some a"
  by (auto simp: get_account_authority_def get_by_def find_authority_def split: option.splits)

lemma account_update_authority:
  assumes "account_update_apply q db = Inr db'"
  shows "(m \<noteq> up_account q \<longrightarrow> find_authority m db' = find_authority m db) \<and> find_authority (up_account q) db' \<noteq> None"
proof -
  let ?n = "up_account q"
  from assms obtain auth db1 g where auth: "get_account_authority ?n db = Inr auth"
    and own: "(case up_owner q of None \<Rightarrow> Inr db
              | Some ow \<Rightarrow> FC_ASSERT (head_block_time db - last_owner_update auth > SOPHIATX_OWNER_UPDATE_LIMIT)
                    ''Owner authority can only be updated once an hour.''
                  (ebind (verify_authority_accounts_exist ow db) (\<lambda>_. update_owner_authority ?n ow db))) = Inr db1"
    and db': "db' = (case up_active q of None \<Rightarrow> modify_account ?n g db1
      | Some ac \<Rightarrow> modify_account_authority ?n (\<lambda>a. a\<lparr>au_active := ac\<rparr>) (modify_account ?n g db1))"
    unfolding account_update_apply_def Let_def ebind_eq_Inr FC_ASSERT_eq_Inr by blast
  have "(m \<noteq> ?n \<longrightarrow> find_authority m db1 = find_authority m db) \<and> find_authority ?n db1 \<noteq> None"
  proof (cases "up_owner q")
    case None
    then show ?thesis using own get_account_authority_Inr [OF auth] by simp
  next
    case (Some ow)
    then have "update_owner_authority ?n ow db = Inr db1" using own by (simp add: ebind_eq_Inr FC_ASSERT_eq_Inr)
    from find_authority_update_owner [OF this] show ?thesis by simp
  qed
  then show ?thesis by (auto simp: db' find_authority_modify split: option.splits)
qed

lemma account_delete_authority:
  assumes "account_delete_apply q db = Inr db'"
  shows "find_authority m db' =
    (if m = ad_account q then map_option (\<lambda>a. a\<lparr>au_owner := single_key_authority 0, last_owner_update := head_block_time db,
       au_active := single_key_authority 0\<rparr>) (find_authority m db)
     else find_authority m db) \<and> find_authority (ad_account q) db \<noteq> None"
proof -
  from assms obtain db1 g where u: "update_owner_authority (ad_account q) (single_key_authority 0) db = Inr db1"
    and db': "db' = modify_account_authority (ad_account q) (\<lambda>a. a\<lparr>au_active := single_key_authority 0\<rparr>) (modify_account (ad_account q) g db1)"
    by (auto simp: account_delete_apply_def ebind_eq_Inr FC_ASSERT_eq_Inr Let_def)
  show ?thesis using find_authority_update_owner [OF u] by (simp add: db' find_authority_modify option.map_comp o_def)
qed

lemma recover_account_authority:
  assumes "recover_account_apply q db = Inr db'"
  shows "find_authority m db' =
    (if m = rc_account_to_recover q then map_option (\<lambda>a. a\<lparr>au_owner := rc_new_owner_authority q, last_owner_update := head_block_time db\<rparr>) (find_authority m db)
     else find_authority m db)"
  using assms
  by (auto simp: recover_account_apply_def remove_recovery_request_def ebind_eq_Inr FC_ASSERT_eq_Inr Let_def head_block_time_def
      dest!: find_authority_update_owner(1) [where m = m])

lemma reset_account_authority:
  assumes "reset_account_apply q db = Inr db'"
  shows "find_authority m db' =
    (if m = ra_account_to_reset q then map_option (\<lambda>a. a\<lparr>au_owner := ra_new_owner_authority q, last_owner_update := head_block_time db\<rparr>) (find_authority m db)
     else find_authority m db)"
  using assms
  by (auto simp: reset_account_apply_def ebind_eq_Inr FC_ASSERT_eq_Inr dest!: find_authority_update_owner(1) [where m = m])

lemma find_authority_other:
  assumes "apply_operation x oper db = Inr db'" "authority_target x oper \<noteq> Some m"
  shows "find_authority m db' = find_authority m db"
proof -
  from assms(1) obtain db1 where fee: "process_operation_fee oper db = Inr db1" and ev: "evaluate x oper db1 = Inr db'"
    by (auto simp: apply_operation_def ebind_eq_Inr)
  have "find_authority m db' = find_authority m db1"
  proof (cases "authority_target x oper")
    case None
    with ev show ?thesis
      by (cases oper) (auto simp: authority_target_def evaluate_def intro!: find_authority_cong dest: evaluators_keep_authorities)
  next
    case (Some n)
    note steps = account_update_authority account_delete_authority recover_account_authority reset_account_authority
    from Some ev assms(2) show ?thesis
      by (cases oper) (auto simp: authority_target_def evaluate_def find_authority_create dest!: steps [where m = m] split: option.splits)
  qed
  then show ?thesis using find_authority_cong [OF fee_kept [OF fee]] by simp
qed

section \<open>Properties\<close>

text \<open>The index is right up to the accounts of a set \<open>G\<close>, the ones that genesis created before the plugin watched: it lists
  only keys that the authorities have, and all keys of the other accounts.\<close>

definition index_ok :: "account_name_type set \<Rightarrow> database \<Rightarrow> key_plugin \<Rightarrow> bool" where
  "index_ok G db p \<longleftrightarrow> (\<forall>n. indexed n p \<subseteq> keys_of n db \<and> (n \<notin> G \<longrightarrow> keys_of n db \<subseteq> indexed n p))"

definition untracked_operation :: "operation \<Rightarrow> bool" where
  "untracked_operation oper = (case oper of Account_delete_op _ \<Rightarrow> True | Reset_account_op _ \<Rightarrow> True | _ \<Rightarrow> False)"

lemma created_is_new:
  assumes "apply_operation x (Account_create_op q) db = Inr db'"
  shows "find_authority (account_name (make_random_fixed_string x (ac_name_seed q))) db = None"
proof -
  from assms obtain db1 where fee: "process_operation_fee (Account_create_op q) db = Inr db1" and ev: "account_create_apply x q db1 = Inr db'"
    by (auto simp: apply_operation_def evaluate_def ebind_eq_Inr)
  from find_authority_create(1) [OF ev] find_authority_cong [OF fee_kept [OF fee]] show ?thesis by simp
qed

lemma observed_indexed:
  assumes "\<not> untracked_operation oper" "apply_operation x oper db = Inr db'"
  shows "indexed n (key_post_operation x oper db' (key_pre_operation oper db p)) =
    (if authority_target x oper = Some n \<and> find_authority n db' \<noteq> None
     then (indexed n p \<union> (keys_of n db' - keys_of n db)) - (keys_of n db - keys_of n db') else indexed n p)"
proof -
  have pre: "indexed m (recache k d p) = indexed m p" "indexed m (clear_cache p) = indexed m p" for m k d by (simp_all add: indexed_def)
  have create: "keys_of m db = {}" if "oper = Account_create_op q" "m = account_name (make_random_fixed_string x (ac_name_seed q))" for q m
    using created_is_new [of x q db db'] assms(2) that by (simp add: keys_of_def)
  show ?thesis using assms(1)
    by (cases oper) (auto simp: untracked_operation_def key_post_operation_def key_pre_operation_def authority_target_def refresh_indexed pre create)
qed

text \<open>C26. The index of keys follows the chain through every operation but two: after an operation with its observers it lists
  exactly the keys of the authorities, genesis accounts excepted, if it did before. Creation, update and recovery of an
  account are tracked; the remaining operations change no authority.\<close>

theorem key_index_follows_authorities:
  assumes "observed_operation x oper db p = Inr (db', p')" "index_ok G db p" "\<not> untracked_operation oper"
  shows "index_ok G db' p'"
proof -
  from assms(1) have run: "apply_operation x oper db = Inr db'" and p': "p' = key_post_operation x oper db' (key_pre_operation oper db p)"
    by (auto simp: observed_operation_def ebind_eq_Inr)
  have post: "indexed n p' = (if authority_target x oper = Some n \<and> find_authority n db' \<noteq> None
     then (indexed n p \<union> (keys_of n db' - keys_of n db)) - (keys_of n db - keys_of n db') else indexed n p)" for n
    unfolding p' using assms(3) run by (rule observed_indexed)
  have "indexed n p' \<subseteq> keys_of n db' \<and> (n \<notin> G \<longrightarrow> keys_of n db' \<subseteq> indexed n p')" for n
  proof (cases "authority_target x oper = Some n")
    case False
    then have "keys_of n db' = keys_of n db" using find_authority_other [OF run] by (simp add: keys_of_def)
    then show ?thesis using assms(2) False by (simp add: post index_ok_def)
  next
    case True
    have "find_authority n db' \<noteq> None \<or> keys_of n db' = {} \<and> keys_of n db = {}"
    proof (cases "find_authority n db")
      case None
      then show ?thesis by (auto simp: keys_of_def)
    next
      case (Some a)
      from run obtain db1 where fee: "process_operation_fee oper db = Inr db1" and ev: "evaluate x oper db1 = Inr db'"
        by (auto simp: apply_operation_def ebind_eq_Inr)
      have "find_authority n db1 = Some a" using find_authority_cong [OF fee_kept [OF fee]] Some by simp
      then show ?thesis using True assms(3) ev Some created_is_new [of x _ db db'] run
        by (cases oper) (auto simp: authority_target_def untracked_operation_def evaluate_def
            dest!: account_update_authority [where m = n] recover_account_authority [where m = n])
    qed
    moreover have "indexed n p \<subseteq> keys_of n db \<and> (n \<notin> G \<longrightarrow> keys_of n db \<subseteq> indexed n p)" using assms(2) by (simp add: index_ok_def)
    ultimately show ?thesis using True unfolding post by auto
  qed
  then show ?thesis by (simp add: index_ok_def)
qed

text \<open>The index never forgets a deleted account. The observer drops the keys only if the authority object is gone, but
  \<^verbatim>\<open>account_delete_operation\<close> keeps the object and replaces its keys: every key the account had stays in the index, although no
  authority of the account names it any more.\<close>

theorem deleted_account_stays_indexed:
  assumes "observed_operation x (Account_delete_op q) db p = Inr (db', p')" "(k, ad_account q) \<in> set (key_lookup p)" "k \<noteq> 0"
  shows "(k, ad_account q) \<in> set (key_lookup p') \<and> k \<notin> keys_of (ad_account q) db'"
proof -
  from assms(1) obtain db1 where ev: "account_delete_apply q db1 = Inr db'"
    and p': "p' = key_post_operation x (Account_delete_op q) db' (key_pre_operation (Account_delete_op q) db p)"
    by (auto simp: observed_operation_def apply_operation_def evaluate_def ebind_eq_Inr)
  from account_delete_authority [OF ev, of "ad_account q"] obtain a where
    a: "find_authority (ad_account q) db' = Some (a\<lparr>au_owner := single_key_authority 0, last_owner_update := head_block_time db1,
       au_active := single_key_authority 0\<rparr>)" by auto
  have "key_auths (single_key_authority 0) = [(0, 1)]"
    by (simp add: single_key_authority_def add_key_authority_def empty_authority_def)
  then have "keys_of (ad_account q) db' = {0}" by (simp add: keys_of_def a auth_keys_def)
  moreover have "key_lookup p' = key_lookup p" by (simp add: p' key_post_operation_def key_pre_operation_def a)
  ultimately show ?thesis using assms(2,3) by simp
qed

section \<open>Runs on the genesis state\<close>

definition sample_delete :: account_delete_operation where
  "sample_delete = \<lparr>op_fee = Asset 10000 SOPHIATX_SYMBOL, ad_account = SOPHIATX_INIT_MINER_NAME\<rparr>"

text \<open>Creating an account when only the accounts of the genesis exist.\<close>

definition sample_create :: account_create_operation where
  "sample_create = \<lparr>op_fee = Asset 10000000 SOPHIATX_SYMBOL, ac_creator = SOPHIATX_INIT_MINER_NAME, ac_name_seed = ''alice'',
     ac_owner = single_key_authority 5, ac_active = single_key_authority 6, ac_memo_key = 7, ac_json_metadata = []\<rparr>"

lemma genesis_index_ok: "index_ok (au_account ` set (rows (db_authorities db))) db \<lparr>cached_keys = [], key_lookup = []\<rparr>"
  by (auto simp: index_ok_def indexed_def keys_of_def find_authority_def find_by_None [symmetric] split: option.splits)

lemma key_index_follows_authorities_witness:
  "succeeds live_genesis (\<lambda>db. succeeds (observed_operation sample_externals (Account_create_op sample_create) db \<lparr>cached_keys = [], key_lookup = []\<rparr>)
     (\<lambda>(db', p'). index_ok (au_account ` set (rows (db_authorities db))) db' p'))"
proof -
  have "succeeds live_genesis (\<lambda>db. succeeds (observed_operation sample_externals (Account_create_op sample_create) db \<lparr>cached_keys = [], key_lookup = []\<rparr>) (\<lambda>_. True))"
    by code_simp
  then show ?thesis
    using key_index_follows_authorities [OF _ genesis_index_ok, of sample_externals "Account_create_op sample_create"]
    by (auto simp: succeeds_iff untracked_operation_def)
qed

lemma deleted_account_stays_indexed_witness:
  "succeeds live_genesis (\<lambda>db. succeeds (observed_operation sample_externals (Account_delete_op sample_delete) db
     \<lparr>cached_keys = [], key_lookup = [(1, SOPHIATX_INIT_MINER_NAME)]\<rparr>) (\<lambda>(db', p'). (1, SOPHIATX_INIT_MINER_NAME) \<in> set (key_lookup p') \<and>
       1 \<notin> keys_of SOPHIATX_INIT_MINER_NAME db'))"
proof -
  have "succeeds live_genesis (\<lambda>db. succeeds (observed_operation sample_externals (Account_delete_op sample_delete) db
     \<lparr>cached_keys = [], key_lookup = [(1, SOPHIATX_INIT_MINER_NAME)]\<rparr>) (\<lambda>_. True))"
    by code_simp
  then show ?thesis
    using deleted_account_stays_indexed [of sample_externals sample_delete _ "\<lparr>cached_keys = [], key_lookup = [(1, SOPHIATX_INIT_MINER_NAME)]\<rparr>" _ _ 1]
    by (fastforce simp: succeeds_iff sample_delete_def)
qed

end
