(* ===== verification/Account_History.thy ===== *)
theory Account_History
  imports Transactions
begin

text \<open>
  The history of accounts: which accounts an operation concerns (\<^verbatim>\<open>libraries/chain/util/impacted.cpp\<close>) and the plugin that
  records the operations of each account and prunes old ones
  (\<^verbatim>\<open>libraries/plugins/account_history/account_history_plugin.cpp\<close>). The serialised operation is the operation itself; the parser of the
  options is left out, its results are the fields of the plugin.
\<close>

section \<open>Impacted accounts\<close>

definition impacted_by :: "externals \<Rightarrow> operation \<Rightarrow> account_name_type list" where
  "impacted_by x oper =
     (case oper of
        Account_create_op q \<Rightarrow> [account_name (make_random_fixed_string x (ac_name_seed q)), ac_creator q]
      | Transfer_op q \<Rightarrow> [tr_from q, tr_to q]
      | Escrow_transfer_op q \<Rightarrow> [et_from q, et_to q, et_agent q]
      | Escrow_approve_op q \<Rightarrow> [ea_from q, ea_to q, ea_agent q]
      | Escrow_dispute_op q \<Rightarrow> [ed_from q, ed_to q, ed_agent q]
      | Escrow_release_op q \<Rightarrow> [er_from q, er_to q, er_agent q]
      | Transfer_to_vesting_op q \<Rightarrow> tv_from q # (if tv_to q \<noteq> 0 \<and> tv_to q \<noteq> tv_from q then [tv_to q] else [])
      | Account_witness_vote_op q \<Rightarrow> [vo_account q, vo_witness q]
      | Account_witness_proxy_op q \<Rightarrow> [px_account q, px_proxy q]
      | Feed_publish_op q \<Rightarrow> [fp_publisher q]
      | Request_account_recovery_op q \<Rightarrow> [rq_account_to_recover q, rq_recovery_account q]
      | Recover_account_op q \<Rightarrow> [rc_account_to_recover q]
      | Change_recovery_account_op q \<Rightarrow> [ch_account_to_recover q]
      | Virtual_op v \<Rightarrow>
          (case v of
             Interest_operation n _ \<Rightarrow> [n]
           | Fill_vesting_withdraw_operation f t _ _ \<Rightarrow> [f, t]
           | Shutdown_witness_operation n \<Rightarrow> [n]
           | Hardfork_operation _ \<Rightarrow> []
           | Producer_reward_operation n _ \<Rightarrow> [n]
           | Promotion_pool_withdraw_operation n _ \<Rightarrow> [n])
      | Witness_update_op q \<Rightarrow> [wu_owner q]
      | Witness_stop_op q \<Rightarrow> [ws_owner q]
      | Sponsor_fees_op q \<Rightarrow> (if sf_sponsor q \<noteq> 0 then [sf_sponsor q] else []) @ [sf_sponsored q]
      | Transfer_from_promotion_pool_op q \<Rightarrow> [SOPHIATX_INIT_MINER_NAME, pp_transfer_to q]
      | Application_create_op q \<Rightarrow> [apc_author q]
      | Application_update_op q \<Rightarrow> [apu_author q]
      | Application_delete_op q \<Rightarrow> [apd_author q]
      | _ \<Rightarrow> required_active oper @ required_owner oper)"

definition operation_get_impacted_accounts :: "externals \<Rightarrow> operation \<Rightarrow> account_name_type list \<Rightarrow> account_name_type list" where
  "operation_get_impacted_accounts x oper result = flat_set_of (impacted_by x oper @ result)"

definition transaction_get_impacted_accounts :: "externals \<Rightarrow> signed_transaction \<Rightarrow> account_name_type list \<Rightarrow> account_name_type list" where
  "transaction_get_impacted_accounts x t result = fold (operation_get_impacted_accounts x) (trx_operations t) result"

section \<open>The plugin\<close>

record operation_notification =
  nt_trx_id :: transaction_id_type
  nt_block :: int
  nt_trx_in_block :: int
  nt_op_in_trx :: int
  nt_virtual_op :: int
  nt_op :: operation
  nt_fee_payer :: account_name_type

record operation_object =
  oo_note :: operation_notification
  oo_timestamp :: time_point_sec

record account_history_object =
  ah_account :: account_name_type
  ah_sequence :: int
  ah_op :: nat

text \<open>The operation objects in the order of their ids, and the rows of the history.\<close>

record history_store =
  hs_ops :: "operation_object list"
  hs_rows :: "account_history_object list"

text \<open>The ranges in the order of their lower ends; the name of the type of an operation is an argument, as reflection provides it.\<close>

record history_plugin =
  tracked_accounts :: "(account_name_type \<times> account_name_type) list"
  filter_content :: bool
  blacklist :: bool
  op_list :: "string list"
  prune :: bool
  op_name :: "operation \<Rightarrow> string"

text \<open>The rows of an account from the oldest to the newest: the index by account, read backwards.\<close>

definition rows_of :: "account_name_type \<Rightarrow> account_history_object list \<Rightarrow> account_history_object list" where
  "rows_of item rs = sort_key ah_sequence (filter (\<lambda>r. ah_account r = item) rs)"

definition next_history_sequence :: "account_name_type \<Rightarrow> account_history_object list \<Rightarrow> int" where
  "next_history_sequence item rs = (if rows_of item rs = [] then 1 else u32 (ah_sequence (last (rows_of item rs)) + 1))"

definition outdated :: "time_point_sec \<Rightarrow> int \<Rightarrow> operation_object list \<Rightarrow> account_history_object \<Rightarrow> bool" where
  "outdated now sequence ops r \<longleftrightarrow>
     u32 (sequence - ah_sequence r) > 30 \<and> (now - oo_timestamp (ops ! ah_op r)) * 1000000 > 30 * 24 * 60 * 60 * 1000000"

text \<open>The loop starts at the oldest row with a positive number and ends at the latest at the row just added.\<close>

definition prune_rows :: "account_name_type \<Rightarrow> time_point_sec \<Rightarrow> int \<Rightarrow> operation_object list \<Rightarrow> account_history_object list
    \<Rightarrow> account_history_object list" where
  "prune_rows item now sequence ops rs =
     (let to_remove = takeWhile (outdated now sequence ops) (filter (\<lambda>r. ah_sequence r > 0) (rows_of item rs))
      in filter (\<lambda>r. r \<notin> set to_remove) rs)"

text \<open>\<^verbatim>\<open>operation_visitor\<close>: the operation object is created for the first account and shared by the others.\<close>

definition record_operation :: "history_plugin \<Rightarrow> operation_notification \<Rightarrow> time_point_sec \<Rightarrow> account_name_type
    \<Rightarrow> nat option \<times> history_store \<Rightarrow> nat option \<times> history_store" where
  "record_operation pl note now item = (\<lambda>(new_obj, hs).
     let (i, ops) = (case new_obj of
                       Some i \<Rightarrow> (i, hs_ops hs)
                     | None \<Rightarrow> (length (hs_ops hs), hs_ops hs @ [\<lparr>oo_note = note, oo_timestamp = now\<rparr>]));
         sequence = next_history_sequence item (hs_rows hs);
         rs = hs_rows hs @ [\<lparr>ah_account = item, ah_sequence = sequence, ah_op = i\<rparr>]
     in (Some i, \<lparr>hs_ops = ops, hs_rows = (if prune pl then prune_rows item now sequence ops rs else rs)\<rparr>))"

definition record_filtered :: "history_plugin \<Rightarrow> operation_notification \<Rightarrow> time_point_sec \<Rightarrow> account_name_type
    \<Rightarrow> nat option \<times> history_store \<Rightarrow> nat option \<times> history_store" where
  "record_filtered pl note now item st =
     (if op_name pl (nt_op note) \<in> set (op_list pl)
      then if \<not> blacklist pl then record_operation pl note now item st else st
      else if blacklist pl then record_operation pl note now item st else st)"

text \<open>The search among the ranges: \<open>i\<close> is \<^verbatim>\<open>lower_bound\<close>, \<open>j\<close> the position after the decrement.\<close>

definition is_tracked :: "(account_name_type \<times> account_name_type) list \<Rightarrow> account_name_type \<Rightarrow> bool" where
  "is_tracked ranges item =
     (let i = length (takeWhile (\<lambda>r. fst r < item) ranges);
          j = (if i \<noteq> 0 \<and> (i < length ranges \<and> fst (ranges ! i) \<noteq> item \<or> i = length ranges) then i - 1 else i)
      in ranges = [] \<or> j < length ranges \<and> fst (ranges ! j) \<le> item \<and> item \<le> snd (ranges ! j))"

definition visit_account :: "history_plugin \<Rightarrow> operation_notification \<Rightarrow> time_point_sec \<Rightarrow> account_name_type
    \<Rightarrow> nat option \<times> history_store \<Rightarrow> nat option \<times> history_store" where
  "visit_account pl note now item st =
     (if is_tracked (tracked_accounts pl) item
      then if filter_content pl then record_filtered pl note now item st else record_operation pl note now item st
      else st)"

definition on_operation :: "history_plugin \<Rightarrow> externals \<Rightarrow> operation_notification \<Rightarrow> time_point_sec \<Rightarrow> history_store \<Rightarrow> history_store" where
  "on_operation pl x note now hs =
     (let impacted = flat_set_of (nt_fee_payer note # operation_get_impacted_accounts x (nt_op note) [])
      in snd (fold (visit_account pl note now) impacted (None, hs)))"

section \<open>Whom an operation concerns\<close>

text \<open>Whoever has to sign a valid operation finds it in his history: every account whose active or owner authority it requires
  is among the accounts that the operation impacts.\<close>

theorem signers_are_impacted:
  assumes "operation_validate x c oper = Inr ()"
  shows "set (required_active oper) \<union> set (required_owner oper) \<subseteq> set (operation_get_impacted_accounts x oper result)"
  using assms
  by (cases oper)
    (auto simp: operation_get_impacted_accounts_def flat_set_of_def impacted_by_def required_active_def required_owner_def sponsor_fee_payer_def
      operation_validate_def escrow_dispute_validate_def escrow_release_validate_def escrow_approve_validate_def result_simps
      split: if_splits virtual_operation.splits)

section \<open>Tracked accounts\<close>

text \<open>Ranges in ascending order that do not intersect.\<close>

fun ranges_ok :: "(account_name_type \<times> account_name_type) list \<Rightarrow> bool" where
  "ranges_ok (r # s # rs) \<longleftrightarrow> fst r \<le> snd r \<and> snd r < fst s \<and> ranges_ok (s # rs)"
| "ranges_ok [r] \<longleftrightarrow> fst r \<le> snd r"
| "ranges_ok [] \<longleftrightarrow> True"

lemma ranges_ok_Cons: "ranges_ok (r # rs) \<Longrightarrow> fst r \<le> snd r \<and> ranges_ok rs"
  by (cases rs) auto

lemma ranges_ok_below: "ranges_ok (r # rs) \<Longrightarrow> s \<in> set rs \<Longrightarrow> snd r < fst s"
proof (induction rs arbitrary: r)
  case (Cons a rs)
  then have "snd r < fst a" "ranges_ok (a # rs)" "fst a \<le> snd a" using ranges_ok_Cons [of a rs] by auto
  then show ?case using Cons.IH [of a] Cons.prems(2) by auto
qed simp

lemma ranges_ok_order:
  assumes "ranges_ok rs" "i < j" "j < length rs"
  shows "snd (rs ! i) < fst (rs ! j)"
  using assms
proof (induction rs arbitrary: i j)
  case (Cons r rs)
  have "ranges_ok rs" using Cons.prems(1) by (cases rs) auto
  then show ?case
    using Cons ranges_ok_below [OF Cons.prems(1)] by (cases i; cases j) auto
qed simp

lemma ranges_ok_nth: "ranges_ok rs \<Longrightarrow> i < length rs \<Longrightarrow> fst (rs ! i) \<le> snd (rs ! i)"
proof (induction rs arbitrary: i rule: ranges_ok.induct)
  case (1 r s rs)
  then show ?case by (cases i) auto
qed auto

text \<open>The search for the range of an account, with its look at the neighbour of the lower bound, finds it: for ranges that
  do not intersect, an account is tracked exactly if one of the ranges contains it or there are no ranges at all.\<close>

theorem tracked_iff_in_range:
  assumes "ranges_ok ranges"
  shows "is_tracked ranges item \<longleftrightarrow> ranges = [] \<or> (\<exists>r \<in> set ranges. fst r \<le> item \<and> item \<le> snd r)"
proof (cases "ranges = []")
  case False
  define i where "i = length (takeWhile (\<lambda>r. fst r < item) ranges)"
  define j where "j = (if i \<noteq> 0 \<and> (i < length ranges \<and> fst (ranges ! i) \<noteq> item \<or> i = length ranges) then i - 1 else i)"
  have i: "i \<le> length ranges" "\<And>k. k < i \<Longrightarrow> fst (ranges ! k) < item" "i < length ranges \<Longrightarrow> item \<le> fst (ranges ! i)"
  proof -
    show "fst (ranges ! k) < item" if "k < i" for k
      using set_takeWhileD [OF nth_mem [of k "takeWhile (\<lambda>r. fst r < item) ranges"]] that by (simp add: i_def takeWhile_nth)
    show "i < length ranges \<Longrightarrow> item \<le> fst (ranges ! i)"
      using nth_length_takeWhile [of "\<lambda>r. fst r < item" ranges] by (simp add: i_def)
  qed (simp add: i_def length_takeWhile_le)
  have up: "k = j" if k: "k < length ranges" "fst (ranges ! k) \<le> item" "item \<le> snd (ranges ! k)" for k
  proof -
    have "k \<le> i" using ranges_ok_order [OF assms, of i k] i(3) k ranges_ok_nth [OF assms, of i] by (cases "i < k") auto
    moreover have "k < i \<Longrightarrow> Suc k = i" using ranges_ok_order [OF assms, of k "Suc k"] i(2) [of "Suc k"] k(3) i(1)
      by (cases "Suc k < i") auto
    moreover have "k < i \<Longrightarrow> i < length ranges \<Longrightarrow> fst (ranges ! i) \<noteq> item"
      using ranges_ok_order [OF assms, of k i] k(3) by auto
    moreover have "k = i \<Longrightarrow> fst (ranges ! i) = item" using k i(3) by auto
    ultimately show ?thesis using k(1) i(1) by (cases "k < i") (auto simp: j_def)
  qed
  have "is_tracked ranges item \<longleftrightarrow> ranges = [] \<or> j < length ranges \<and> fst (ranges ! j) \<le> item \<and> item \<le> snd (ranges ! j)"
    unfolding is_tracked_def Let_def i_def [symmetric] j_def [symmetric] ..
  then show ?thesis using False up by (metis in_set_conv_nth)
qed (simp add: is_tracked_def)

section \<open>The rows of an account\<close>

lemma insort_snoc: "f y \<le> f x \<Longrightarrow> insort_key f y (ys @ [x]) = insort_key f y ys @ [x]"
  by (induction ys) auto

lemma sort_key_snoc: "(\<And>y. y \<in> set ys \<Longrightarrow> f y \<le> f x) \<Longrightarrow> sort_key f (ys @ [x]) = sort_key f ys @ [x]"
  by (induction ys) (auto simp: insort_snoc)

lemma filter_takeWhile: "distinct ys \<Longrightarrow> filter (\<lambda>r. r \<notin> set (takeWhile C ys)) ys = dropWhile C ys"
proof (induction ys)
  case (Cons y ys)
  have "filter (\<lambda>r. r \<noteq> y \<and> r \<notin> set (takeWhile C ys)) ys = filter (\<lambda>r. r \<notin> set (takeWhile C ys)) ys"
    using Cons.prems by (intro filter_cong) auto
  with Cons show ?case by (cases "C y") (auto simp: filter_True)
qed simp

lemma dropWhile_snoc: "\<not> C x \<Longrightarrow> dropWhile C (ys @ [x]) = drop (length (takeWhile C ys)) ys @ [x]"
  by (induction ys) auto

text \<open>The invariant: the rows of every account are numbered consecutively, and point to operation objects.\<close>

definition numbered_rows :: "account_name_type \<Rightarrow> account_history_object list \<Rightarrow> bool" where
  "numbered_rows a rs \<longleftrightarrow> (\<exists>lo hi. 1 \<le> lo \<and> map ah_sequence (rows_of a rs) = [lo..hi])"

definition history_ok :: "history_store \<Rightarrow> bool" where
  "history_ok hs \<longleftrightarrow> (\<forall>a. numbered_rows a (hs_rows hs)) \<and> (\<forall>r \<in> set (hs_rows hs). ah_op r < length (hs_ops hs))"

definition sequences_fit :: "account_name_type \<Rightarrow> account_history_object list \<Rightarrow> bool" where
  "sequences_fit a rs \<longleftrightarrow> (\<forall>r \<in> set (rows_of a rs). ah_sequence r < 4294967295)"

lemma set_rows_of: "set (rows_of a rs) = {r \<in> set rs. ah_account r = a}"
  by (auto simp: rows_of_def)

lemma numbered_distinct: "numbered_rows a rs \<Longrightarrow> distinct (rows_of a rs)"
  by (metis numbered_rows_def distinct_map distinct_upto)

lemma next_sequence_value:
  assumes "numbered_rows a rs" "sequences_fit a rs"
  shows "map ah_sequence (rows_of a rs) @ [next_history_sequence a rs] = [next_history_sequence a rs - int (length (rows_of a rs))..next_history_sequence a rs]"
    "1 \<le> next_history_sequence a rs - int (length (rows_of a rs))"
    "\<And>r. r \<in> set rs \<Longrightarrow> ah_account r = a \<Longrightarrow> ah_sequence r < next_history_sequence a rs"
proof -
  from assms(1) obtain lo hi where lo: "1 \<le> lo" and m: "map ah_sequence (rows_of a rs) = [lo..hi]" by (auto simp: numbered_rows_def)
  have len: "int (length (rows_of a rs)) = max 0 (hi - lo + 1)" using arg_cong [OF m, of length] by simp
  have n: "next_history_sequence a rs = (if rows_of a rs = [] then 1 else hi + 1)"
  proof (cases "rows_of a rs = []")
    case False
    then have "lo \<le> hi" using len by (cases "rows_of a rs") auto
    then have "last [lo..hi] = hi" by (simp add: upto_rec2)
    then have hi: "ah_sequence (last (rows_of a rs)) = hi" using m False by (metis last_map)
    then have "hi < 4294967295" using False assms(2) by (auto simp: sequences_fit_def)
    then show ?thesis using False \<open>lo \<le> hi\<close> lo hi by (simp add: next_history_sequence_def u32_def)
  qed (simp add: next_history_sequence_def)
  show "map ah_sequence (rows_of a rs) @ [next_history_sequence a rs] = [next_history_sequence a rs - int (length (rows_of a rs))..next_history_sequence a rs]"
    using m n len by (cases "lo \<le> hi") (auto simp: upto_rec2)
  show "1 \<le> next_history_sequence a rs - int (length (rows_of a rs))" using n len lo by (auto simp: max_def)
  show "ah_sequence r < next_history_sequence a rs" if "r \<in> set rs" "ah_account r = a" for r
  proof -
    have "r \<in> set (rows_of a rs)" using that by (simp add: set_rows_of)
    then have "ah_sequence r \<in> set [lo..hi]" using m by (metis image_eqI set_map)
    moreover have "rows_of a rs \<noteq> []" using \<open>r \<in> set (rows_of a rs)\<close> by auto
    ultimately show ?thesis using n by simp
  qed
qed

text \<open>Adding a row and pruning, seen per account.\<close>

lemma rows_of_add:
  assumes "numbered_rows a rs" "sequences_fit a rs"
  shows "rows_of b (rs @ [\<lparr>ah_account = a, ah_sequence = next_history_sequence a rs, ah_op = i\<rparr>]) =
    (if b = a then rows_of a rs @ [\<lparr>ah_account = a, ah_sequence = next_history_sequence a rs, ah_op = i\<rparr>] else rows_of b rs)"
  using next_sequence_value(3) [OF assms] by (auto simp: rows_of_def less_imp_le intro!: sort_key_snoc)

lemma rows_of_prune:
  assumes "numbered_rows a rs"
  shows "rows_of b (prune_rows a now n ops rs) = (if b = a then dropWhile (outdated now n ops) (rows_of a rs) else rows_of b rs)"
proof -
  let ?rm = "takeWhile (outdated now n ops) (filter (\<lambda>r. ah_sequence r > 0) (rows_of a rs))"
  have "filter (\<lambda>r. ah_sequence r > 0) (rows_of a rs) = rows_of a rs"
  proof -
    from assms obtain lo hi where "1 \<le> lo" "map ah_sequence (rows_of a rs) = [lo..hi]" by (auto simp: numbered_rows_def)
    then have "0 < ah_sequence r" if "r \<in> set (rows_of a rs)" for r using that by (force dest: arg_cong [where f = set])
    then show ?thesis by (auto intro!: filter_True)
  qed
  then have rm: "?rm = takeWhile (outdated now n ops) (rows_of a rs)" by simp
  have "rows_of b (prune_rows a now n ops rs) = filter (\<lambda>r. r \<notin> set ?rm) (rows_of b rs)"
    by (simp add: rows_of_def [of b] prune_rows_def filter_sort conj_commute)
  also have "\<dots> = (if b = a then dropWhile (outdated now n ops) (rows_of a rs) else rows_of b rs)"
    unfolding rm using filter_takeWhile [OF numbered_distinct [OF assms]]
    by (auto intro!: filter_True simp: set_rows_of dest!: set_takeWhileD)
  finally show ?thesis .
qed

lemma drop_upto: "\<exists>lo'. lo \<le> lo' \<and> drop k [lo..hi] = [lo'..hi]"
proof (induction k)
  case (Suc k)
  then obtain lo' where "lo \<le> lo'" "drop k [lo..hi] = [lo'..hi]" by auto
  then have "drop (Suc k) [lo..hi] = [lo' + 1..hi]" by (simp add: drop_Suc tl_drop [symmetric] upto.simps [of lo'] del: upto.simps)
  then show ?case using \<open>lo \<le> lo'\<close> by (intro exI [of _ "lo' + 1"]) auto
qed auto

section \<open>Recording an operation\<close>

text \<open>The object of the operation, once it is created.\<close>

definition obj_ok :: "operation_notification \<Rightarrow> nat option \<Rightarrow> history_store \<Rightarrow> bool" where
  "obj_ok note new_obj hs = (case new_obj of None \<Rightarrow> True | Some i \<Rightarrow> i < length (hs_ops hs) \<and> oo_note (hs_ops hs ! i) = note)"

text \<open>What recording does to the rows of an account: the operation is the newest row, under the next number, and what is gone
  are old rows that were outdated.\<close>

definition recorded :: "operation_notification \<Rightarrow> time_point_sec \<Rightarrow> account_name_type \<Rightarrow> history_store \<Rightarrow> history_store \<Rightarrow> bool" where
  "recorded note now a hs hs' \<longleftrightarrow>
     (\<exists>i k. i < length (hs_ops hs') \<and> oo_note (hs_ops hs' ! i) = note \<and>
       rows_of a (hs_rows hs') = drop k (rows_of a (hs_rows hs)) @
         [\<lparr>ah_account = a, ah_sequence = next_history_sequence a (hs_rows hs), ah_op = i\<rparr>] \<and>
       (\<forall>r \<in> set (take k (rows_of a (hs_rows hs))). outdated now (next_history_sequence a (hs_rows hs)) (hs_ops hs) r))"

lemma numbered_drop:
  assumes "1 \<le> lo" "map ah_sequence rs = [lo..hi]"
  shows "\<exists>lo' hi'. 1 \<le> lo' \<and> map ah_sequence (drop k rs) = [lo'..hi']"
proof -
  from drop_upto [of lo k hi] obtain lo' where "lo \<le> lo'" "drop k [lo..hi] = [lo'..hi]" by auto
  then have "1 \<le> lo' \<and> map ah_sequence (drop k rs) = [lo'..hi]" using assms by (simp add: drop_map [symmetric])
  then show ?thesis by blast
qed

lemma record_step:
  assumes ok: "history_ok hs" and fit: "sequences_fit a (hs_rows hs)" and obj: "obj_ok note new_obj hs"
    and run: "record_operation pl note now a (new_obj, hs) = (new_obj', hs')"
  shows "history_ok hs' \<and> obj_ok note new_obj' hs' \<and> recorded note now a hs hs' \<and> (\<exists>added. hs_ops hs' = hs_ops hs @ added) \<and>
    (\<forall>b. b \<noteq> a \<longrightarrow> rows_of b (hs_rows hs') = rows_of b (hs_rows hs))"
proof -
  define i where "i = (case new_obj of Some i \<Rightarrow> i | None \<Rightarrow> length (hs_ops hs))"
  define ops where "ops = (case new_obj of Some i \<Rightarrow> hs_ops hs | None \<Rightarrow> hs_ops hs @ [\<lparr>oo_note = note, oo_timestamp = now\<rparr>])"
  let ?rs = "hs_rows hs" and ?n = "next_history_sequence a (hs_rows hs)"
  let ?new = "\<lparr>ah_account = a, ah_sequence = ?n, ah_op = i\<rparr>"
  have hs': "new_obj' = Some i" "hs' = \<lparr>hs_ops = ops, hs_rows = (if prune pl then prune_rows a now ?n ops (?rs @ [?new]) else ?rs @ [?new])\<rparr>"
    using run by (auto simp: record_operation_def Let_def i_def ops_def split: option.splits)
  have num: "numbered_rows b ?rs" for b using ok by (simp add: history_ok_def)
  note add = rows_of_add [OF num fit, of _ i]
  have seq: "map ah_sequence (rows_of a ?rs @ [?new]) = [?n - int (length (rows_of a ?rs))..?n]"
    and pos: "1 \<le> ?n - int (length (rows_of a ?rs))" using next_sequence_value(1,2) [OF num fit] by simp_all
  have num_add: "numbered_rows b (?rs @ [?new])" for b
    using num seq pos unfolding numbered_rows_def add by (cases "b = a") auto
  have "\<not> outdated now ?n ops ?new" by (simp add: outdated_def u32_def)
  then obtain k where k: "dropWhile (outdated now ?n ops) (rows_of a ?rs @ [?new]) = drop k (rows_of a ?rs) @ [?new]"
    "\<forall>r \<in> set (take k (rows_of a ?rs)). outdated now ?n ops r"
    by (intro that [of "length (takeWhile (outdated now ?n ops) (rows_of a ?rs))"])
      (auto simp: dropWhile_snoc takeWhile_eq_take [symmetric] dest: set_takeWhileD)
  have rows: "\<exists>k. rows_of a (hs_rows hs') = drop k (rows_of a ?rs) @ [?new] \<and> (\<forall>r \<in> set (take k (rows_of a ?rs)). outdated now ?n ops r)"
    using k by (cases "prune pl") (auto simp: hs' rows_of_prune [OF num_add] add intro: exI [of _ 0])
  have other: "rows_of b (hs_rows hs') = rows_of b ?rs" if "b \<noteq> a" for b
    using that by (simp add: hs' rows_of_prune [OF num_add] add)
  have i: "i < length ops" "oo_note (ops ! i) = note" using obj by (auto simp: i_def ops_def obj_ok_def split: option.splits)
  have ops: "\<exists>added. ops = hs_ops hs @ added" by (auto simp: ops_def split: option.splits)
  have old: "outdated now ?n ops r = outdated now ?n (hs_ops hs) r" if "r \<in> set ?rs" for r
    using ok ops that by (auto simp: outdated_def history_ok_def nth_append)
  have sub: "set (hs_rows hs') \<subseteq> insert ?new (set ?rs)" by (auto simp: hs' prune_rows_def Let_def)
  have "numbered_rows b (hs_rows hs')" for b
  proof (cases "b = a")
    case True
    from rows obtain k where "rows_of a (hs_rows hs') = drop k (rows_of a ?rs) @ [?new]" by auto
    moreover have "drop k (rows_of a ?rs) @ [?new] = drop (min k (length (rows_of a ?rs))) (rows_of a ?rs @ [?new])"
      by (cases "k \<le> length (rows_of a ?rs)") auto
    ultimately show ?thesis using numbered_drop [OF pos seq] True unfolding numbered_rows_def by metis
  qed (use num other in \<open>simp add: numbered_rows_def\<close>)
  moreover have "ah_op r < length ops" if "r \<in> set (hs_rows hs')" for r
    using sub that ok i(1) ops by (fastforce simp: history_ok_def)
  ultimately have "history_ok hs'" by (simp add: history_ok_def hs'(2))
  moreover have "recorded note now a hs hs'"
  proof -
    from rows obtain k where k: "rows_of a (hs_rows hs') = drop k (rows_of a ?rs) @ [?new]"
      "\<forall>r \<in> set (take k (rows_of a ?rs)). outdated now ?n ops r" by auto
    have "r \<in> set ?rs" if "r \<in> set (take k (rows_of a ?rs))" for r using in_set_takeD [OF that] by (simp add: set_rows_of)
    then have "\<forall>r \<in> set (take k (rows_of a ?rs)). outdated now ?n (hs_ops hs) r" using k(2) old by simp
    then show ?thesis unfolding recorded_def using k(1) i hs'(2) by (intro exI [of _ i] exI [of _ k]) simp
  qed
  ultimately show ?thesis using i ops other by (auto simp: hs' obj_ok_def)
qed

text \<open>Whether the plugin records an operation for an account.\<close>

definition visits :: "history_plugin \<Rightarrow> operation_notification \<Rightarrow> account_name_type \<Rightarrow> bool" where
  "visits pl note a \<longleftrightarrow> is_tracked (tracked_accounts pl) a \<and>
     (filter_content pl \<longrightarrow> (op_name pl (nt_op note) \<in> set (op_list pl)) \<noteq> blacklist pl)"

lemma visit_account_cases: "visit_account pl note now a st = (if visits pl note a then record_operation pl note now a st else st)"
  by (auto simp: visit_account_def record_filtered_def visits_def)

lemma recorded_later:
  assumes "recorded note now a hs hs1" "hs_ops hs' = hs_ops hs1 @ added" "rows_of a (hs_rows hs') = rows_of a (hs_rows hs1)"
  shows "recorded note now a hs hs'"
  using assms unfolding recorded_def by (fastforce simp: nth_append)

lemma outdated_prefix: "ah_op r < length ops \<Longrightarrow> outdated now n (ops @ added) r = outdated now n ops r"
  by (simp add: outdated_def nth_append)

lemma recorded_earlier:
  assumes "recorded note now a hs1 hs'" "hs_ops hs1 = hs_ops hs @ added" "rows_of a (hs_rows hs1) = rows_of a (hs_rows hs)" "history_ok hs"
  shows "recorded note now a hs hs'"
proof -
  have n: "next_history_sequence a (hs_rows hs1) = next_history_sequence a (hs_rows hs)" using assms(3) by (simp add: next_history_sequence_def)
  have "ah_op r < length (hs_ops hs)" if "r \<in> set (take k (rows_of a (hs_rows hs)))" for r k
    using that assms(4) by (auto simp: history_ok_def set_rows_of dest!: in_set_takeD)
  then show ?thesis using assms(1) unfolding recorded_def n assms(2,3) by (metis outdated_prefix)
qed

lemma visit_all:
  assumes "distinct items" "history_ok hs" "\<forall>a \<in> set items. sequences_fit a (hs_rows hs)" "obj_ok note new_obj hs"
    "fold (visit_account pl note now) items (new_obj, hs) = (new_obj', hs')"
  shows "history_ok hs' \<and> (\<exists>added. hs_ops hs' = hs_ops hs @ added) \<and>
    (\<forall>a. if a \<in> set items \<and> visits pl note a then recorded note now a hs hs' else rows_of a (hs_rows hs') = rows_of a (hs_rows hs))"
  using assms
proof (induction items arbitrary: hs new_obj)
  case (Cons a items)
  obtain o1 hs1 where 1: "visit_account pl note now a (new_obj, hs) = (o1, hs1)" by fastforce
  show ?case
  proof (cases "visits pl note a")
    case False
    then have "fold (visit_account pl note now) items (new_obj, hs) = (new_obj', hs')"
      using Cons.prems(5) by (simp add: visit_account_cases [of pl "note" now a])
    from Cons.IH [OF _ Cons.prems(2) _ Cons.prems(4) this] Cons.prems(1,3) False show ?thesis by auto
  next
    case True
    then have run: "record_operation pl note now a (new_obj, hs) = (o1, hs1)"
      and rest: "fold (visit_account pl note now) items (o1, hs1) = (new_obj', hs')"
      using Cons.prems(5) 1 by (simp_all add: visit_account_cases [of pl "note" now a])
    have "sequences_fit a (hs_rows hs)" using Cons.prems(3) by simp
    from record_step [OF Cons.prems(2) this Cons.prems(4) run] obtain m1 where s1: "history_ok hs1" "obj_ok note o1 hs1"
      "recorded note now a hs hs1" "hs_ops hs1 = hs_ops hs @ m1" "\<And>b. b \<noteq> a \<Longrightarrow> rows_of b (hs_rows hs1) = rows_of b (hs_rows hs)" by blast
    have "\<forall>b \<in> set items. sequences_fit b (hs_rows hs1)" using Cons.prems(1,3) s1(5) by (force simp: sequences_fit_def)
    from Cons.IH [OF _ s1(1) this s1(2) rest] Cons.prems(1) obtain m2 where s2: "history_ok hs'" "hs_ops hs' = hs_ops hs1 @ m2"
      "\<And>b. if b \<in> set items \<and> visits pl note b then recorded note now b hs1 hs' else rows_of b (hs_rows hs') = rows_of b (hs_rows hs1)" by auto
    have "a \<notin> set items" using Cons.prems(1) by simp
    then have "rows_of a (hs_rows hs') = rows_of a (hs_rows hs1)" using s2(3) [of a] by simp
    then have "recorded note now a hs hs'" by (rule recorded_later [OF s1(3) s2(2)])
    moreover have "recorded note now b hs hs'" if "recorded note now b hs1 hs'" "b \<noteq> a" for b
      using that recorded_earlier [OF _ s1(4) s1(5) Cons.prems(2)] by blast
    ultimately show ?thesis using s1 s2 True by (auto split: if_splits) metis+
  qed
qed simp

lemma on_operation_all:
  assumes "history_ok hs" "\<forall>a. sequences_fit a (hs_rows hs)"
  shows "history_ok (on_operation pl x note now hs) \<and>
    (\<forall>a. if (a = nt_fee_payer note \<or> a \<in> set (impacted_by x (nt_op note))) \<and> visits pl note a
       then recorded note now a hs (on_operation pl x note now hs)
       else rows_of a (hs_rows (on_operation pl x note now hs)) = rows_of a (hs_rows hs))"
proof -
  let ?items = "flat_set_of (nt_fee_payer note # operation_get_impacted_accounts x (nt_op note) [])"
  obtain o' hs' where run: "fold (visit_account pl note now) ?items (None, hs) = (o', hs')" by fastforce
  have "set ?items = insert (nt_fee_payer note) (set (impacted_by x (nt_op note)))" "distinct ?items"
    by (auto simp: flat_set_of_def operation_get_impacted_accounts_def)
  then show ?thesis
    using visit_all [of ?items hs "note" None pl now o' hs'] assms run by (simp add: on_operation_def obj_ok_def)
qed

text \<open>C28. The history is numbered without gaps: whatever operations come in and whatever is pruned, the rows of every account carry
  consecutive numbers and point to existing operation objects.\<close>

theorem history_stays_numbered:
  assumes "history_ok hs" "\<forall>a. sequences_fit a (hs_rows hs)"
  shows "history_ok (on_operation pl x note now hs)"
  using on_operation_all [OF assms] by blast

text \<open>C27. An operation enters the history of exactly the tracked accounts it impacts and of its payer, as the newest row and under the
  next number; a row disappears only if it is more than 30 numbers behind and its operation more than 30 days old.\<close>

theorem operation_is_recorded:
  assumes "history_ok hs" "\<forall>a. sequences_fit a (hs_rows hs)"
  shows "if (a = nt_fee_payer note \<or> a \<in> set (impacted_by x (nt_op note))) \<and> visits pl note a
    then recorded note now a hs (on_operation pl x note now hs)
    else rows_of a (hs_rows (on_operation pl x note now hs)) = rows_of a (hs_rows hs)"
  using on_operation_all [OF assms] by blast

section \<open>A run\<close>

definition sample_note :: operation_notification where
  "sample_note = \<lparr>nt_trx_id = 7, nt_block = 1, nt_trx_in_block = 0, nt_op_in_trx = 0, nt_virtual_op = 0, nt_op = Transfer_op sample_transfer,
     nt_fee_payer = SOPHIATX_INIT_MINER_NAME\<rparr>"

definition sample_history_plugin :: history_plugin where
  "sample_history_plugin = \<lparr>tracked_accounts = [], filter_content = False, blacklist = False, op_list = [], prune = True, op_name = \<lambda>_. []\<rparr>"

definition empty_history :: history_store where
  "empty_history = \<lparr>hs_ops = [], hs_rows = []\<rparr>"

lemma empty_history_ok: "history_ok empty_history" "\<forall>a. sequences_fit a (hs_rows empty_history)"
proof -
  have "numbered_rows a []" for a unfolding numbered_rows_def by (rule exI [of _ 1], rule exI [of _ 0]) (simp add: rows_of_def)
  then show "history_ok empty_history" by (simp add: history_ok_def empty_history_def)
qed (simp add: sequences_fit_def empty_history_def rows_of_def)

lemma history_stays_numbered_witness:
  "history_ok (on_operation sample_history_plugin sample_externals sample_note 1531512803 empty_history)"
  by (rule history_stays_numbered [OF empty_history_ok])

lemma operation_is_recorded_witness:
  "recorded sample_note 1531512803 SOPHIATX_MINER_ACCOUNT empty_history
     (on_operation sample_history_plugin sample_externals sample_note 1531512803 empty_history)"
  using operation_is_recorded [OF empty_history_ok, of SOPHIATX_MINER_ACCOUNT sample_note sample_externals sample_history_plugin 1531512803]
  by (simp add: sample_note_def sample_transfer_def impacted_by_def visits_def sample_history_plugin_def is_tracked_def)

lemma tracked_iff_in_range_witness: "is_tracked [(10, 20), (30, 40)] 15 \<and> \<not> is_tracked [(10, 20), (30, 40)] 25"
  using tracked_iff_in_range [of "[(10, 20), (30, 40)]" 15] tracked_iff_in_range [of "[(10, 20), (30, 40)]" 25] by simp

lemma signers_are_impacted_witness:
  "SOPHIATX_INIT_MINER_NAME \<in> set (operation_get_impacted_accounts sample_externals (Transfer_op sample_transfer) [])"
proof -
  have "succeeds live_genesis (\<lambda>db. operation_validate sample_externals (db_cfg db) (Transfer_op sample_transfer) = Inr () \<and>
     required_active (Transfer_op sample_transfer) = [SOPHIATX_INIT_MINER_NAME])" by code_simp
  then show ?thesis using signers_are_impacted by (fastforce simp: succeeds_iff)
qed

end
