(* ===== verification/Undo_Index.thy ===== *)
theory Undo_Index
  imports Prelude
begin

text \<open>
  \<^verbatim>\<open>libraries/chainbase/chainbase.hpp\<close>: \<^verbatim>\<open>undo_state\<close> and \<^verbatim>\<open>generic_index\<close>, the tables under the
  whole chain state with their undo history. The sorted containers of the source are association
  lists sorted by id. The unique keys of a table besides the id are an argument \<open>clash\<close>: it tells
  which two objects may not be in the table together. The abstract specification is a stack of
  snapshots of the table; every operation refines its abstract counterpart.
\<close>

section \<open>The structures\<close>

record 'v undo_state =
  old_values :: "(nat \<times> 'v) list"
  removed_values :: "(nat \<times> 'v) list"
  new_ids :: "nat list"
  old_next_id :: nat
  us_revision :: int

text \<open>The stack is kept with its back first.\<close>

record 'v generic_index =
  indices :: "(nat \<times> 'v) list"
  gi_next_id :: nat
  gi_stack :: "'v undo_state list"
  gi_revision :: int

definition enabled :: "'v generic_index \<Rightarrow> bool" where
  "enabled g \<longleftrightarrow> gi_stack g \<noteq> []"

text \<open>\<^verbatim>\<open>emplace\<close> and \<^verbatim>\<open>modify\<close> of the container below: both refuse an object that clashes with another
  one.\<close>

definition clash_free :: "('v \<Rightarrow> 'v \<Rightarrow> bool) \<Rightarrow> nat \<Rightarrow> 'v \<Rightarrow> (nat \<times> 'v) list \<Rightarrow> bool" where
  "clash_free clash k v xs \<longleftrightarrow> list_all (\<lambda>(k', w). k' = k \<or> \<not> clash v w) xs"

definition insert_obj :: "('v \<Rightarrow> 'v \<Rightarrow> bool) \<Rightarrow> nat \<Rightarrow> 'v \<Rightarrow> (nat \<times> 'v) list \<Rightarrow> (nat \<times> 'v) list result" where
  "insert_obj clash k v xs =
     (if map_of xs k = None \<and> clash_free clash k v xs then Inr (flat_insert k v xs)
      else Inl (Logic_error ''could not insert object, most likely a uniqueness constraint was violated''))"

definition replace_obj :: "('v \<Rightarrow> 'v \<Rightarrow> bool) \<Rightarrow> nat \<Rightarrow> 'v \<Rightarrow> (nat \<times> 'v) list \<Rightarrow> (nat \<times> 'v) list result" where
  "replace_obj clash k v xs =
     (if map_of xs k = None then Inl Null_dereference
      else if clash_free clash k v xs then Inr (flat_insert k v xs)
      else Inl (Logic_error ''Could not modify object, most likely a uniqueness constraint was violated''))"

section \<open>Recording changes\<close>

definition with_head :: "('v undo_state \<Rightarrow> 'v undo_state) \<Rightarrow> 'v generic_index \<Rightarrow> 'v generic_index" where
  "with_head f g = (case gi_stack g of [] \<Rightarrow> g | h # r \<Rightarrow> g\<lparr>gi_stack := f h # r\<rparr>)"

definition record_modify :: "nat \<Rightarrow> 'v \<Rightarrow> 'v undo_state \<Rightarrow> 'v undo_state" where
  "record_modify k v h =
     (if k \<in> set (new_ids h) \<or> map_of (old_values h) k \<noteq> None then h
      else h\<lparr>old_values := flat_insert k v (old_values h)\<rparr>)"

definition record_remove :: "nat \<Rightarrow> 'v \<Rightarrow> 'v undo_state \<Rightarrow> 'v undo_state" where
  "record_remove k v h =
     (if k \<in> set (new_ids h) then h\<lparr>new_ids := filter (\<lambda>i. i \<noteq> k) (new_ids h)\<rparr>
      else case map_of (old_values h) k of
        Some w \<Rightarrow> h\<lparr>removed_values := flat_insert k w (removed_values h), old_values := erase k (old_values h)\<rparr>
      | None \<Rightarrow>
          if map_of (removed_values h) k \<noteq> None then h
          else h\<lparr>removed_values := flat_insert k v (removed_values h)\<rparr>)"

definition record_create :: "nat \<Rightarrow> 'v undo_state \<Rightarrow> 'v undo_state" where
  "record_create k h = h\<lparr>new_ids := insort k (new_ids h)\<rparr>"

definition on_modify :: "nat \<Rightarrow> 'v \<Rightarrow> 'v generic_index \<Rightarrow> 'v generic_index" where
  "on_modify k v = with_head (record_modify k v)"

definition on_remove :: "nat \<Rightarrow> 'v \<Rightarrow> 'v generic_index \<Rightarrow> 'v generic_index" where
  "on_remove k v = with_head (record_remove k v)"

definition on_create :: "nat \<Rightarrow> 'v generic_index \<Rightarrow> 'v generic_index" where
  "on_create k = with_head (record_create k)"

section \<open>Operations on objects\<close>

definition emplace :: "('v \<Rightarrow> 'v \<Rightarrow> bool) \<Rightarrow> (nat \<Rightarrow> 'v) \<Rightarrow> 'v generic_index \<Rightarrow> 'v generic_index result" where
  "emplace clash c g =
     (let new_id = gi_next_id g in
      ebind (insert_obj clash new_id (c new_id) (indices g)) (\<lambda>xs.
        Inr (on_create new_id (g\<lparr>indices := xs, gi_next_id := Suc new_id\<rparr>))))"

definition modify :: "('v \<Rightarrow> 'v \<Rightarrow> bool) \<Rightarrow> nat \<Rightarrow> ('v \<Rightarrow> 'v) \<Rightarrow> 'v generic_index \<Rightarrow> 'v generic_index result" where
  "modify clash k m g =
     (case map_of (indices g) k of
        None \<Rightarrow> Inl Null_dereference
      | Some v \<Rightarrow>
          ebind (replace_obj clash k (m v) (indices g)) (\<lambda>xs. Inr ((on_modify k v g)\<lparr>indices := xs\<rparr>)))"

text \<open>What a \<^verbatim>\<open>modify\<close> leaves behind when it throws because of a clash: the change was recorded before, and the container drops
  the object.\<close>

definition modify_rejected :: "('v \<Rightarrow> 'v \<Rightarrow> bool) \<Rightarrow> nat \<Rightarrow> ('v \<Rightarrow> 'v) \<Rightarrow> 'v generic_index \<Rightarrow> 'v generic_index option" where
  "modify_rejected clash k m g =
     (case map_of (indices g) k of
        None \<Rightarrow> None
      | Some v \<Rightarrow> if clash_free clash k (m v) (indices g) then None else Some ((on_modify k v g)\<lparr>indices := erase k (indices g)\<rparr>))"

definition remove :: "nat \<Rightarrow> 'v generic_index \<Rightarrow> 'v generic_index result" where
  "remove k g =
     (case map_of (indices g) k of
        None \<Rightarrow> Inl Null_dereference
      | Some v \<Rightarrow> Inr ((on_remove k v g)\<lparr>indices := erase k (indices g)\<rparr>))"

definition get_obj :: "nat \<Rightarrow> 'v generic_index \<Rightarrow> 'v result" where
  "get_obj k g = (case map_of (indices g) k of None \<Rightarrow> Inl (Out_of_range ''key not found'') | Some v \<Rightarrow> Inr v)"

section \<open>Sessions\<close>

definition start_undo_session :: "'v generic_index \<Rightarrow> 'v generic_index" where
  "start_undo_session g =
     g\<lparr>gi_revision := gi_revision g + 1,
       gi_stack := \<lparr>old_values = [], removed_values = [], new_ids = [], old_next_id = gi_next_id g,
          us_revision = gi_revision g + 1\<rparr> # gi_stack g\<rparr>"

definition undo :: "('v \<Rightarrow> 'v \<Rightarrow> bool) \<Rightarrow> 'v generic_index \<Rightarrow> 'v generic_index result" where
  "undo clash g =
     (case gi_stack g of
        [] \<Rightarrow> Inr g
      | h # r \<Rightarrow>
          ebind (efold (\<lambda>(k, v). replace_obj clash k v) (old_values h) (indices g)) (\<lambda>xs1.
          let xs2 = fold erase (new_ids h) xs1 in
          ebind (efold (\<lambda>(k, v). insert_obj clash k v) (removed_values h) xs2) (\<lambda>xs3.
            Inr (g\<lparr>indices := xs3, gi_next_id := old_next_id h, gi_stack := r, gi_revision := gi_revision g - 1\<rparr>))))"

text \<open>The three loops of \<^verbatim>\<open>squash\<close> on the older of the two states.\<close>

definition merge_old :: "nat \<times> 'v \<Rightarrow> 'v undo_state \<Rightarrow> 'v undo_state" where
  "merge_old = (\<lambda>(k, v) p.
     if k \<in> set (new_ids p) then p
     else if map_of (old_values p) k \<noteq> None then p
     else p\<lparr>old_values := flat_insert k v (old_values p)\<rparr>)"

definition merge_new :: "nat \<Rightarrow> 'v undo_state \<Rightarrow> 'v undo_state" where
  "merge_new k p = p\<lparr>new_ids := (if k \<in> set (new_ids p) then new_ids p else insort k (new_ids p))\<rparr>"

definition merge_removed :: "nat \<times> 'v \<Rightarrow> 'v undo_state \<Rightarrow> 'v undo_state" where
  "merge_removed = (\<lambda>(k, v) p.
     if k \<in> set (new_ids p) then p\<lparr>new_ids := filter (\<lambda>i. i \<noteq> k) (new_ids p)\<rparr>
     else case map_of (old_values p) k of
       Some w \<Rightarrow> p\<lparr>removed_values := flat_insert k w (removed_values p), old_values := erase k (old_values p)\<rparr>
     | None \<Rightarrow> p\<lparr>removed_values := flat_insert k v (removed_values p)\<rparr>)"

definition merge_states :: "'v undo_state \<Rightarrow> 'v undo_state \<Rightarrow> 'v undo_state" where
  "merge_states st prev = fold merge_removed (removed_values st) (fold merge_new (new_ids st) (fold merge_old (old_values st) prev))"

definition squash :: "'v generic_index \<Rightarrow> 'v generic_index" where
  "squash g =
     (case gi_stack g of
        [] \<Rightarrow> g
      | [_] \<Rightarrow> g\<lparr>gi_stack := []\<rparr>
      | st # prev # r \<Rightarrow> g\<lparr>gi_stack := merge_states st prev # r, gi_revision := gi_revision g - 1\<rparr>)"

definition commit :: "int \<Rightarrow> 'v generic_index \<Rightarrow> 'v generic_index" where
  "commit revision g = g\<lparr>gi_stack := rev (dropWhile (\<lambda>u. us_revision u \<le> revision) (rev (gi_stack g)))\<rparr>"

definition set_revision :: "int \<Rightarrow> 'v generic_index \<Rightarrow> 'v generic_index result" where
  "set_revision revision g =
     (if gi_stack g \<noteq> [] then Inl (Logic_error ''cannot set revision while there is an existing undo stack'')
      else Inr (g\<lparr>gi_revision := revision\<rparr>))"

lemma undo_pops: "undo clash g = Inr g' \<Longrightarrow> gi_stack g' = tl (gi_stack g)"
  by (auto simp: undo_def Let_def ebind_eq_Inr split: list.splits)

function undo_all :: "('v \<Rightarrow> 'v \<Rightarrow> bool) \<Rightarrow> 'v generic_index \<Rightarrow> 'v generic_index result" where
  "undo_all clash g = (if gi_stack g = [] then Inr g else ebind (undo clash g) (undo_all clash))"
  by pat_completeness auto
termination by (relation "measure (\<lambda>(_, g). length (gi_stack g))") (auto dest: undo_pops)

declare undo_all.simps [simp del]

section \<open>The abstract specification: a stack of snapshots\<close>

type_synonym 'v snapshot = "(nat \<rightharpoonup> 'v) \<times> nat"
type_synonym 'v snapshots = "'v snapshot \<times> 'v snapshot list"

definition spec_set :: "'v snapshot \<Rightarrow> 'v snapshots \<Rightarrow> 'v snapshots" where
  "spec_set c s = (c, snd s)"

definition spec_start :: "'v snapshots \<Rightarrow> 'v snapshots" where
  "spec_start s = (fst s, fst s # snd s)"

definition spec_undo :: "'v snapshots \<Rightarrow> 'v snapshots" where
  "spec_undo s = (case snd s of [] \<Rightarrow> s | c # r \<Rightarrow> (c, r))"

definition spec_squash :: "'v snapshots \<Rightarrow> 'v snapshots" where
  "spec_squash s = (fst s, tl (snd s))"

text \<open>The state before a session, from the state after it and what the session has recorded.\<close>

definition recover :: "'v undo_state \<Rightarrow> (nat \<rightharpoonup> 'v) \<Rightarrow> (nat \<rightharpoonup> 'v)" where
  "recover h m i =
     (if i \<in> set (new_ids h) then None
      else case map_of (old_values h) i of
        Some v \<Rightarrow> Some v
      | None \<Rightarrow> (case map_of (removed_values h) i of Some v \<Rightarrow> Some v | None \<Rightarrow> m i))"

fun history :: "'v undo_state list \<Rightarrow> (nat \<rightharpoonup> 'v) \<Rightarrow> 'v snapshot list" where
  "history [] m = []"
| "history (h # r) m = (recover h m, old_next_id h) # history r (recover h m)"

definition abs_index :: "'v generic_index \<Rightarrow> 'v snapshots" where
  "abs_index g = ((map_of (indices g), gi_next_id g), history (gi_stack g) (map_of (indices g)))"

text \<open>Each object is, for a session, in one of the four situations of the comment in \<^verbatim>\<open>squash\<close>: new,
  updated, deleted or untouched.\<close>

definition sorted_keys :: "(nat \<times> 'v) list \<Rightarrow> bool" where
  "sorted_keys xs \<longleftrightarrow> sorted_wrt (<) (map fst xs)"

definition entry_ok :: "'v undo_state \<Rightarrow> nat \<Rightarrow> (nat \<rightharpoonup> 'v) \<Rightarrow> nat \<Rightarrow> bool" where
  "entry_ok h nid m i \<longleftrightarrow>
     (i \<in> set (new_ids h) \<longleftrightarrow> m i \<noteq> None \<and> old_next_id h \<le> i) \<and>
     (map_of (old_values h) i \<noteq> None \<longrightarrow> m i \<noteq> None \<and> i < old_next_id h) \<and>
     (map_of (removed_values h) i \<noteq> None \<longrightarrow> m i = None \<and> i < old_next_id h) \<and>
     (m i \<noteq> None \<longrightarrow> i < nid)"

definition state_ok :: "'v undo_state \<Rightarrow> nat \<Rightarrow> (nat \<rightharpoonup> 'v) \<Rightarrow> bool" where
  "state_ok h nid m \<longleftrightarrow> sorted_keys (old_values h) \<and> sorted_keys (removed_values h) \<and> distinct (new_ids h) \<and>
     old_next_id h \<le> nid \<and> (\<forall>i. entry_ok h nid m i)"

fun history_ok :: "'v undo_state list \<Rightarrow> nat \<Rightarrow> (nat \<rightharpoonup> 'v) \<Rightarrow> bool" where
  "history_ok [] nid m \<longleftrightarrow> (\<forall>i. m i \<noteq> None \<longrightarrow> i < nid)"
| "history_ok (h # r) nid m \<longleftrightarrow> state_ok h nid m \<and> history_ok r (old_next_id h) (recover h m)"

definition index_ok :: "'v generic_index \<Rightarrow> bool" where
  "index_ok g \<longleftrightarrow> sorted_keys (indices g) \<and> history_ok (gi_stack g) (gi_next_id g) (map_of (indices g))"

section \<open>Changes to objects\<close>

lemma with_head_fields [simp]:
  "indices (with_head f g) = indices g" "gi_next_id (with_head f g) = gi_next_id g"
  "gi_revision (with_head f g) = gi_revision g"
  by (simp_all add: with_head_def split: list.splits)

lemma sorted_keys_flat_insert [simp]: "sorted_keys xs \<Longrightarrow> sorted_keys (flat_insert k v xs)"
  by (simp add: sorted_keys_def flat_insert_sorted)

lemma sorted_keys_erase [simp]: "sorted_keys xs \<Longrightarrow> sorted_keys (erase k xs)"
  by (simp add: sorted_keys_def sorted_erase)

lemma sorted_keys_Nil [simp]: "sorted_keys []"
  by (simp add: sorted_keys_def)

lemma record_modify_recovers:
  assumes "state_ok h nid m" "m k = Some v"
  shows "state_ok (record_modify k v h) nid (m(k \<mapsto> w))" "recover (record_modify k v h) (m(k \<mapsto> w)) = recover h m"
  using assms by (auto simp: state_ok_def entry_ok_def record_modify_def recover_def fun_eq_iff split: option.splits)

lemma record_create_recovers:
  assumes "state_ok h nid m" "m nid = None"
  shows "state_ok (record_create nid h) (Suc nid) (m(nid \<mapsto> w))" "recover (record_create nid h) (m(nid \<mapsto> w)) = recover h m"
  using assms
  by (auto simp: state_ok_def entry_ok_def record_create_def recover_def fun_eq_iff distinct_insort set_insort_key
      less_Suc_eq split: option.splits)

lemma record_remove_recovers:
  assumes "state_ok h nid m" "m k = Some v"
  shows "state_ok (record_remove k v h) nid (m(k := None))" "recover (record_remove k v h) (m(k := None)) = recover h m"
  using assms
  by (auto simp: state_ok_def entry_ok_def record_remove_def recover_def fun_eq_iff split: option.splits)

lemma record_old_next [simp]:
  "old_next_id (record_modify k v h) = old_next_id h" "old_next_id (record_create k h) = old_next_id h"
  "old_next_id (record_remove k v h) = old_next_id h"
  by (simp_all add: record_modify_def record_create_def record_remove_def split: option.splits)

text \<open>A change that the head of the stack records is invisible to the snapshots.\<close>

lemma with_head_history:
  assumes "history_ok (gi_stack g) nid m"
    and "\<And>h. state_ok h nid m \<Longrightarrow> state_ok (f h) nid' m' \<and> recover (f h) m' = recover h m \<and> old_next_id (f h) = old_next_id h"
    and "\<And>i. m' i \<noteq> None \<Longrightarrow> gi_stack g = [] \<Longrightarrow> i < nid'"
  shows "history_ok (gi_stack (with_head f g)) nid' m' \<and> history (gi_stack (with_head f g)) m' = history (gi_stack g) m"
  using assms by (cases "gi_stack g") (auto simp: with_head_def)

lemma index_ok_bound: "index_ok g \<Longrightarrow> map_of (indices g) i \<noteq> None \<Longrightarrow> i < gi_next_id g"
  by (cases "gi_stack g") (auto simp: index_ok_def state_ok_def entry_ok_def)

lemma emplace_refines:
  assumes run: "emplace clash c g = Inr g'" and ok: "index_ok g"
  shows "index_ok g' \<and> abs_index g' =
    spec_set ((map_of (indices g))(gi_next_id g \<mapsto> c (gi_next_id g)), Suc (gi_next_id g)) (abs_index g)"
proof -
  let ?n = "gi_next_id g" and ?m = "map_of (indices g)"
  from run have new: "?m ?n = None"
    and g': "g' = on_create ?n (g\<lparr>indices := flat_insert ?n (c ?n) (indices g), gi_next_id := Suc ?n\<rparr>)"
    by (auto simp: emplace_def insert_obj_def Let_def ebind_eq_Inr split: if_splits)
  have "history_ok (gi_stack g') (Suc ?n) (?m(?n \<mapsto> c ?n)) \<and> history (gi_stack g') (?m(?n \<mapsto> c ?n)) = history (gi_stack g) ?m"
    unfolding g' on_create_def
    using with_head_history [of "g\<lparr>indices := flat_insert ?n (c ?n) (indices g), gi_next_id := Suc ?n\<rparr>" ?n ?m
        "record_create ?n" "Suc ?n" "?m(?n \<mapsto> c ?n)"] ok new record_create_recovers [of _ ?n ?m "c ?n"]
      index_ok_bound [OF ok]
    by (auto simp: index_ok_def less_Suc_eq split: if_splits)
  then show ?thesis using ok by (simp add: g' index_ok_def abs_index_def spec_set_def on_create_def)
qed

lemma modify_refines:
  assumes run: "modify clash k f g = Inr g'" and ok: "index_ok g"
  shows "\<exists>v. map_of (indices g) k = Some v \<and> index_ok g' \<and>
    abs_index g' = spec_set ((map_of (indices g))(k \<mapsto> f v), gi_next_id g) (abs_index g)"
proof -
  let ?n = "gi_next_id g" and ?m = "map_of (indices g)"
  from run obtain v where v: "?m k = Some v"
    and g': "g' = (on_modify k v g)\<lparr>indices := flat_insert k (f v) (indices g)\<rparr>"
    by (auto simp: modify_def replace_obj_def ebind_eq_Inr split: option.splits if_splits)
  have "history_ok (gi_stack g') ?n (?m(k \<mapsto> f v)) \<and> history (gi_stack g') (?m(k \<mapsto> f v)) = history (gi_stack g) ?m"
    unfolding g' on_modify_def
    using with_head_history [of g ?n ?m "record_modify k v" ?n "?m(k \<mapsto> f v)"] ok v
      record_modify_recovers [of _ ?n ?m k v "f v"] index_ok_bound [OF ok]
    by (auto simp: index_ok_def split: if_splits)
  then show ?thesis using ok v by (simp add: g' index_ok_def abs_index_def spec_set_def on_modify_def)
qed

lemma remove_refines:
  assumes run: "remove k g = Inr g'" and ok: "index_ok g"
  shows "index_ok g' \<and> abs_index g' = spec_set ((map_of (indices g))(k := None), gi_next_id g) (abs_index g)"
proof -
  let ?n = "gi_next_id g" and ?m = "map_of (indices g)"
  from run obtain v where v: "?m k = Some v"
    and g': "g' = (on_remove k v g)\<lparr>indices := erase k (indices g)\<rparr>"
    by (auto simp: remove_def split: option.splits)
  have "history_ok (gi_stack g') ?n (?m(k := None)) \<and> history (gi_stack g') (?m(k := None)) = history (gi_stack g) ?m"
    unfolding g' on_remove_def
    using with_head_history [of g ?n ?m "record_remove k v" ?n "?m(k := None)"] ok v
      record_remove_recovers [of _ ?n ?m k v] index_ok_bound [OF ok]
    by (auto simp: index_ok_def split: if_splits)
  then show ?thesis using ok v by (simp add: g' index_ok_def abs_index_def spec_set_def on_remove_def)
qed

section \<open>Sessions\<close>

lemma start_refines:
  assumes "index_ok g"
  shows "index_ok (start_undo_session g) \<and> abs_index (start_undo_session g) = spec_start (abs_index g)"
proof -
  have r: "recover \<lparr>old_values = [], removed_values = [], new_ids = [], old_next_id = n, us_revision = r\<rparr> m = m" for n r m
    by (simp add: recover_def fun_eq_iff)
  show ?thesis using assms index_ok_bound [OF assms]
    by (auto simp: start_undo_session_def index_ok_def abs_index_def spec_start_def r state_ok_def entry_ok_def
        linorder_not_le [symmetric])
qed

lemma replace_obj_Inr: "replace_obj clash k v xs = Inr ys \<Longrightarrow> ys = flat_insert k v xs"
  by (auto simp: replace_obj_def split: if_splits)

lemma insert_obj_Inr: "insert_obj clash k v xs = Inr ys \<Longrightarrow> ys = flat_insert k v xs"
  by (auto simp: insert_obj_def split: if_splits)

text \<open>A loop that puts values under distinct keys.\<close>

lemma efold_put:
  assumes put: "\<And>k v xs ys. f (k, v) xs = Inr ys \<Longrightarrow> ys = flat_insert k v xs"
    and "efold f us xs = Inr xs'" "sorted_keys xs" "sorted_keys us"
  shows "sorted_keys xs' \<and> map_of xs' = map_of xs ++ map_of us"
  using assms(2-4)
proof (induction us arbitrary: xs)
  case (Cons u us)
  obtain k v where u: "u = (k, v)" by fastforce
  from Cons.prems(1) u obtain ys where ys: "ys = flat_insert k v xs" "efold f us ys = Inr xs'"
    by (auto simp: ebind_eq_Inr dest: put)
  have k: "k \<notin> dom (map_of us)" using Cons.prems(3) u by (auto simp: sorted_keys_def dom_map_of_conv_image_fst)
  have "sorted_keys xs' \<and> map_of xs' = map_of ys ++ map_of us"
    using Cons.prems u ys by (intro Cons.IH) (auto simp: sorted_keys_def flat_insert_sorted)
  with k show ?case by (auto simp: ys(1) u map_add_def fun_eq_iff split: option.splits)
qed simp

lemma efold_replace:
  "efold (\<lambda>(k, v). replace_obj clash k v) us xs = Inr xs' \<Longrightarrow> sorted_keys xs \<Longrightarrow> sorted_keys us \<Longrightarrow>
     sorted_keys xs' \<and> map_of xs' = map_of xs ++ map_of us"
  by (rule efold_put) (auto dest: replace_obj_Inr)

lemma efold_insert:
  "efold (\<lambda>(k, v). insert_obj clash k v) us xs = Inr xs' \<Longrightarrow> sorted_keys xs \<Longrightarrow> sorted_keys us \<Longrightarrow>
     sorted_keys xs' \<and> map_of xs' = map_of xs ++ map_of us"
  by (rule efold_put) (auto dest: insert_obj_Inr)

lemma fold_erase:
  "sorted_keys xs \<Longrightarrow> sorted_keys (fold erase ks xs) \<and> map_of (fold erase ks xs) = map_of xs |` (- set ks)"
proof (induction ks arbitrary: xs)
  case (Cons k ks)
  then show ?case by (auto simp: restrict_map_def fun_eq_iff)
qed (simp add: restrict_map_def)

lemma undo_recovers:
  assumes "undo clash g = Inr g'" "index_ok g"
  shows "index_ok g' \<and> abs_index g' = spec_undo (abs_index g)"
proof (cases "gi_stack g")
  case Nil
  then show ?thesis using assms by (simp add: undo_def abs_index_def spec_undo_def)
next
  case (Cons h r)
  let ?m = "map_of (indices g)"
  from assms(1) Cons obtain xs1 xs3 where 1: "efold (\<lambda>(k, v). replace_obj clash k v) (old_values h) (indices g) = Inr xs1"
    and 3: "efold (\<lambda>(k, v). insert_obj clash k v) (removed_values h) (fold erase (new_ids h) xs1) = Inr xs3"
    and g': "g' = g\<lparr>indices := xs3, gi_next_id := old_next_id h, gi_stack := r, gi_revision := gi_revision g - 1\<rparr>"
    by (auto simp: undo_def Let_def ebind_eq_Inr)
  have ok: "state_ok h (gi_next_id g) ?m" "history_ok r (old_next_id h) (recover h ?m)" "sorted_keys (indices g)"
    using assms(2) Cons by (auto simp: index_ok_def)
  have "sorted_keys xs1 \<and> map_of xs1 = ?m ++ map_of (old_values h)"
    using efold_replace [OF 1] ok by (simp add: state_ok_def)
  with fold_erase [of xs1 "new_ids h"] efold_insert [OF 3] ok
  have x3: "sorted_keys xs3 \<and> map_of xs3 = ((?m ++ map_of (old_values h)) |` (- set (new_ids h))) ++ map_of (removed_values h)"
    by (simp add: state_ok_def)
  have "map_of xs3 = recover h ?m"
    using ok(1) x3 by (fastforce simp: state_ok_def entry_ok_def recover_def map_add_def restrict_map_def fun_eq_iff split: option.splits)
  with x3 ok Cons show ?thesis by (simp add: g' index_ok_def abs_index_def spec_undo_def)
qed

subsection \<open>Squash\<close>

text \<open>What a state records about one object: whether it is new, its old value, its removed value.\<close>

definition view :: "'v undo_state \<Rightarrow> nat \<Rightarrow> bool \<times> 'v option \<times> 'v option" where
  "view h i = (i \<in> set (new_ids h), map_of (old_values h) i, map_of (removed_values h) i)"

fun view_recover :: "bool \<times> 'v option \<times> 'v option \<Rightarrow> 'v option \<Rightarrow> 'v option" where
  "view_recover (True, _, _) x = None"
| "view_recover (False, Some v, _) x = Some v"
| "view_recover (False, None, Some v) x = Some v"
| "view_recover (False, None, None) x = x"

lemma recover_view: "recover h m i = view_recover (view h i) (m i)"
  by (cases "(view h i, m i)" rule: view_recover.cases) (auto simp: recover_def view_def split: option.splits)

fun view_old :: "'v \<Rightarrow> bool \<times> 'v option \<times> 'v option \<Rightarrow> bool \<times> 'v option \<times> 'v option" where
  "view_old v (n, ov, rv) = (n, if n \<or> ov \<noteq> None then ov else Some v, rv)"

fun view_removed :: "'v \<Rightarrow> bool \<times> 'v option \<times> 'v option \<Rightarrow> bool \<times> 'v option \<times> 'v option" where
  "view_removed v (True, ov, rv) = (False, ov, rv)"
| "view_removed v (False, Some w, rv) = (False, None, Some w)"
| "view_removed v (False, None, rv) = (False, None, Some v)"

lemma view_merge_old: "view (merge_old x p) i = (if i = fst x then view_old (snd x) (view p i) else view p i)"
  by (cases x) (auto simp: merge_old_def view_def)

lemma view_merge_removed: "view (merge_removed x p) i = (if i = fst x then view_removed (snd x) (view p i) else view p i)"
  by (cases x; cases "fst x \<in> set (new_ids p)"; cases "map_of (old_values p) (fst x)")
    (auto simp: merge_removed_def view_def)

text \<open>A loop over distinct keys whose body touches one key acts once on each key.\<close>

lemma fold_view:
  assumes "\<And>x p i. view (f x p) i = (if i = fst x then G (snd x) (view p i) else view p i)" "sorted_keys xs"
  shows "view (fold f xs p) i = (case map_of xs i of None \<Rightarrow> view p i | Some v \<Rightarrow> G v (view p i))"
  using assms(2)
proof (induction xs arbitrary: p)
  case (Cons x xs)
  then have "map_of xs (fst x) = None" by (auto simp: sorted_keys_def map_of_eq_None_iff)
  with Cons show ?case by (cases x) (auto simp: assms(1) sorted_keys_def split: option.splits)
qed simp

lemma fold_merge_new:
  "view (fold merge_new ks p) i = (i \<in> set ks \<or> fst (view p i), snd (view p i))"
  by (induction ks arbitrary: p) (auto simp: merge_new_def view_def set_insort_key)

lemma view_merge_states:
  assumes "state_ok st nid m"
  shows "view (merge_states st prev) i =
    (case view st i of (nb, ob, rb) \<Rightarrow>
      let w = (case ob of None \<Rightarrow> view prev i | Some v \<Rightarrow> view_old v (view prev i)); w2 = (nb \<or> fst w, snd w)
      in case rb of None \<Rightarrow> w2 | Some v \<Rightarrow> view_removed v w2)"
  using assms
  by (simp add: merge_states_def state_ok_def fold_view [OF view_merge_removed] fold_view [OF view_merge_old]
      fold_merge_new view_def [of st i] Let_def split: option.split)

definition tidy :: "'v undo_state \<Rightarrow> bool" where
  "tidy h \<longleftrightarrow> sorted_keys (old_values h) \<and> sorted_keys (removed_values h) \<and> distinct (new_ids h)"

lemma fold_tidy:
  assumes "\<And>x q. tidy q \<Longrightarrow> tidy (f x q) \<and> old_next_id (f x q) = old_next_id q" "tidy q"
  shows "tidy (fold f xs q) \<and> old_next_id (fold f xs q) = old_next_id q"
  using assms(2) by (induction xs arbitrary: q) (auto simp: assms(1))

lemma merge_tidy:
  assumes "tidy p"
  shows "tidy (merge_states st p)" "old_next_id (merge_states st p) = old_next_id p"
proof -
  have old: "tidy (merge_old x q) \<and> old_next_id (merge_old x q) = old_next_id q" if "tidy q" for x and q :: "'a undo_state"
    using that by (cases x) (simp add: merge_old_def tidy_def)
  have new: "tidy (merge_new x q) \<and> old_next_id (merge_new x q) = old_next_id q" if "tidy q" for x and q :: "'a undo_state"
    using that by (simp add: merge_new_def tidy_def distinct_insort)
  have removed: "tidy (merge_removed x q) \<and> old_next_id (merge_removed x q) = old_next_id q" if "tidy q" for x and q :: "'a undo_state"
    using that by (cases x) (auto simp: merge_removed_def tidy_def split: option.splits)
  note 1 = fold_tidy [where f = merge_old and xs = "old_values st", OF old assms]
  note 2 = fold_tidy [where f = merge_new and xs = "new_ids st", OF new conjunct1 [OF 1]]
  note 3 = fold_tidy [where f = merge_removed and xs = "removed_values st", OF removed conjunct1 [OF 2]]
  from 1 2 3 have "tidy (merge_states st p) \<and> old_next_id (merge_states st p) = old_next_id p"
    by (simp add: merge_states_def)
  then show "tidy (merge_states st p)" "old_next_id (merge_states st p) = old_next_id p" by simp_all
qed

lemma entry_ok_view:
  "entry_ok h nid m i \<longleftrightarrow> (case view h i of (n, ov, rv) \<Rightarrow>
     (n \<longleftrightarrow> m i \<noteq> None \<and> old_next_id h \<le> i) \<and> (ov \<noteq> None \<longrightarrow> m i \<noteq> None \<and> i < old_next_id h) \<and>
     (rv \<noteq> None \<longrightarrow> m i = None \<and> i < old_next_id h) \<and> (m i \<noteq> None \<longrightarrow> i < nid))"
  by (simp add: entry_ok_def view_def)

lemma merge_recovers:
  assumes st: "state_ok st nid m" and prev: "state_ok prev (old_next_id st) (recover st m)"
  shows "state_ok (merge_states st prev) nid m \<and> recover (merge_states st prev) m = recover prev (recover st m)"
proof -
  have t: "tidy prev" using prev by (simp add: state_ok_def tidy_def)
  have "entry_ok (merge_states st prev) nid m i \<and> recover (merge_states st prev) m i = recover prev (recover st m) i" for i
  proof -
    obtain nb ob rb na oa ra where v: "view st i = (nb, ob, rb)" "view prev i = (na, oa, ra)" by (metis prod_cases3)
    have s: "entry_ok st nid m i" "entry_ok prev (old_next_id st) (recover st m) i"
      "old_next_id prev \<le> old_next_id st" "old_next_id st \<le> nid" using assms by (auto simp: state_ok_def)
    show ?thesis
      using s unfolding entry_ok_view recover_view view_merge_states [OF st] merge_tidy(2) [OF t] v
      by (cases nb; cases ob; cases rb; cases na; cases oa; cases ra) auto
  qed
  then show ?thesis using merge_tidy [OF t, of st] st prev by (auto simp: state_ok_def tidy_def)
qed

lemma squash_refines:
  assumes "index_ok g"
  shows "index_ok (squash g) \<and> abs_index (squash g) = spec_squash (abs_index g)"
proof -
  consider "gi_stack g = []" | h where "gi_stack g = [h]" | st prev r where "gi_stack g = st # prev # r"
    by (metis list.exhaust)
  then show ?thesis
  proof cases
    case 2
    then show ?thesis using assms index_ok_bound [OF assms]
      by (auto simp: squash_def index_ok_def abs_index_def spec_squash_def)
  next
    case 3
    then have st: "state_ok st (gi_next_id g) (map_of (indices g))"
      and prev: "state_ok prev (old_next_id st) (recover st (map_of (indices g)))"
      and t: "tidy prev" using assms by (auto simp: index_ok_def state_ok_def tidy_def)
    from 3 merge_recovers [OF st prev] merge_tidy(2) [OF t] assms show ?thesis
      by (simp add: squash_def index_ok_def abs_index_def spec_squash_def)
  qed (use assms in \<open>simp add: squash_def abs_index_def spec_squash_def\<close>)
qed

section \<open>The contract of a store with sessions\<close>

locale session_store =
  fixes ok :: "'s \<Rightarrow> bool" and abs :: "'s \<Rightarrow> 'v snapshots"
    and start :: "'s \<Rightarrow> 's" and change :: "'c \<Rightarrow> 's \<Rightarrow> 's result" and rollback :: "'s \<Rightarrow> 's result"
  assumes start_law: "ok s \<Longrightarrow> ok (start s) \<and> abs (start s) = spec_start (abs s)"
    and change_law: "change c s = Inr s' \<Longrightarrow> ok s \<Longrightarrow> ok s' \<and> snd (abs s') = snd (abs s)"
    and rollback_law: "rollback s = Inr s' \<Longrightarrow> ok s \<Longrightarrow> ok s' \<and> abs s' = spec_undo (abs s)"
begin

lemma changes_keep_snapshots: "efold change cs s = Inr s' \<Longrightarrow> ok s \<Longrightarrow> ok s' \<and> snd (abs s') = snd (abs s)"
proof (induction cs arbitrary: s)
  case (Cons c cs)
  from Cons.prems(1) obtain t where t: "change c s = Inr t" "efold change cs t = Inr s'" by (auto simp: ebind_eq_Inr)
  from change_law [OF t(1) Cons.prems(2)] Cons.IH [OF t(2)] show ?case by simp
qed simp

lemma session_rolls_back:
  assumes "efold change cs (start s) = Inr s1" "rollback s1 = Inr s2" "ok s"
  shows "ok s2 \<and> abs s2 = abs s"
proof -
  have s1: "ok s1 \<and> snd (abs s1) = fst (abs s) # snd (abs s)"
    using changes_keep_snapshots [OF assms(1)] start_law [OF assms(3)] by (simp add: spec_start_def)
  with rollback_law [OF assms(2)] show ?thesis by (simp add: spec_undo_def)
qed

end

datatype 'v change = Emplace "nat \<Rightarrow> 'v" | Modify nat "'v \<Rightarrow> 'v" | Remove nat

definition apply_change :: "('v \<Rightarrow> 'v \<Rightarrow> bool) \<Rightarrow> 'v change \<Rightarrow> 'v generic_index \<Rightarrow> 'v generic_index result" where
  "apply_change clash c =
     (case c of Emplace f \<Rightarrow> emplace clash f | Modify k f \<Rightarrow> modify clash k f | Remove k \<Rightarrow> remove k)"

interpretation chainbase: session_store index_ok abs_index start_undo_session "apply_change clash" "undo clash" for clash
proof unfold_locales
  show "index_ok g' \<and> snd (abs_index g') = snd (abs_index g)"
    if "apply_change clash c g = Inr g'" "index_ok g" for c and g g' :: "'a generic_index"
  proof (cases c)
    case (Emplace f)
    then show ?thesis using emplace_refines [of clash f g g'] that by (simp add: apply_change_def spec_set_def)
  next
    case (Modify k f)
    then show ?thesis using modify_refines [of clash k f g g'] that by (auto simp: apply_change_def spec_set_def)
  next
    case (Remove k)
    then show ?thesis using remove_refines [of k g g'] that by (simp add: apply_change_def spec_set_def)
  qed
qed (use start_refines undo_recovers in auto)

lemma change_frame:
  assumes "apply_change clash c g = Inr g'"
  shows "tl (gi_stack g') = tl (gi_stack g) \<and> gi_revision g' = gi_revision g \<and> (gi_stack g = [] \<longleftrightarrow> gi_stack g' = [])"
  using assms
  by (cases c; cases "gi_stack g") (auto simp: apply_change_def emplace_def modify_def remove_def on_create_def
      on_modify_def on_remove_def with_head_def Let_def ebind_eq_Inr split: option.splits)

lemma changes_frame:
  assumes "efold (apply_change clash) cs g = Inr g'"
  shows "tl (gi_stack g') = tl (gi_stack g) \<and> gi_revision g' = gi_revision g \<and> (gi_stack g = [] \<longleftrightarrow> gi_stack g' = [])"
  using assms by (rule efold_invariant) (auto dest: change_frame)

lemma sorted_keys_unique:
  assumes "sorted_keys xs" "sorted_keys ys" "map_of xs = map_of ys"
  shows "xs = ys"
proof -
  have d: "distinct (map fst zs) \<and> sorted (map fst zs)" if "sorted_keys zs" for zs :: "(nat \<times> 'a) list"
    using that by (simp add: sorted_keys_def strict_sorted_iff)
  have set: "set xs = set ys" using d [OF assms(1)] d [OF assms(2)] assms(3) by (simp add: map_of_inject_set)
  have "inj_on fst (set xs \<union> set ys)" using d [OF assms(1)] set by (simp add: distinct_map)
  then show ?thesis using d [OF assms(1)] d [OF assms(2)] set by (intro map_sorted_distinct_set_unique) auto
qed

text \<open>C17. Undoing a session restores the table exactly, whatever was created, modified and removed in it and
  however often: contents, next id, revision and the undo history below it are as before the session.\<close>

theorem undo_restores_session:
  assumes "efold (apply_change clash) cs (start_undo_session g) = Inr g1" "undo clash g1 = Inr g2" "index_ok g"
  shows "g2 = g"
proof -
  have r: "index_ok g2 \<and> abs_index g2 = abs_index g" using chainbase.session_rolls_back [OF assms] .
  have s: "gi_stack g2 = gi_stack g" using undo_pops [OF assms(2)] changes_frame [OF assms(1)]
    by (simp add: start_undo_session_def)
  have "gi_stack g1 \<noteq> []" "gi_revision g1 = gi_revision g + 1" using changes_frame [OF assms(1)]
    by (simp_all add: start_undo_session_def)
  then have rv: "gi_revision g2 = gi_revision g" using assms(2)
    by (auto simp: undo_def Let_def ebind_eq_Inr split: list.splits)
  have "indices g2 = indices g"
    using r assms(3) by (intro sorted_keys_unique) (auto simp: index_ok_def abs_index_def)
  with r s rv show ?thesis by (simp add: abs_index_def)
qed

text \<open>C16. Squashing two sessions into one refines dropping the snapshot between them: the table stays as it is
  and the older snapshot is still what an undo returns to. The merge table in the comment of the
  source is thereby right in each of its sixteen cases.\<close>

theorem squash_refines_snapshots:
  assumes "index_ok g"
  shows "index_ok (squash g) \<and> abs_index (squash g) = spec_squash (abs_index g)"
  using assms by (rule squash_refines)

section \<open>When an undo succeeds\<close>

text \<open>Two objects with the same unique keys.\<close>

definition same_keys :: "('v \<Rightarrow> 'v \<Rightarrow> bool) \<Rightarrow> 'v \<Rightarrow> 'v \<Rightarrow> bool" where
  "same_keys clash v w \<longleftrightarrow> (\<forall>z. clash v z = clash w z \<and> clash z v = clash z w)"

definition no_clash :: "('v \<Rightarrow> 'v \<Rightarrow> bool) \<Rightarrow> (nat \<rightharpoonup> 'v) \<Rightarrow> bool" where
  "no_clash clash m \<longleftrightarrow> (\<forall>i j v w. m i = Some v \<longrightarrow> m j = Some w \<longrightarrow> i \<noteq> j \<longrightarrow> \<not> clash v w)"

lemma clash_free_iff:
  "sorted_keys xs \<Longrightarrow> clash_free clash k v xs \<longleftrightarrow> (\<forall>j w. map_of xs j = Some w \<longrightarrow> j = k \<or> \<not> clash v w)"
  by (auto simp: clash_free_def list_all_iff sorted_keys_def strict_sorted_iff dest: map_of_SomeD)

text \<open>The contents differ from \<open>m\<close> only in objects with the same unique keys.\<close>

definition like :: "('v \<Rightarrow> 'v \<Rightarrow> bool) \<Rightarrow> (nat \<rightharpoonup> 'v) \<Rightarrow> (nat \<times> 'v) list \<Rightarrow> bool" where
  "like clash m xs \<longleftrightarrow> sorted_keys xs \<and> dom (map_of xs) = dom m \<and>
     (\<forall>i v w. map_of xs i = Some v \<longrightarrow> m i = Some w \<longrightarrow> same_keys clash v w)"

lemma restore_old_succeeds:
  assumes "like clash m xs" "no_clash clash m"
    "\<forall>(k, v) \<in> set us. \<exists>w. m k = Some w \<and> same_keys clash v w"
  shows "\<exists>xs'. efold (\<lambda>(k, v). replace_obj clash k v) us xs = Inr xs'"
  using assms
proof (induction us arbitrary: xs)
  case (Cons u us)
  obtain k v where u: "u = (k, v)" by fastforce
  from Cons.prems(3) u obtain w where w: "m k = Some w" "same_keys clash v w" by auto
  have "clash_free clash k v xs"
    using Cons.prems(1,2) w by (fastforce simp: like_def clash_free_iff no_clash_def same_keys_def)
  moreover have "map_of xs k \<noteq> None" using Cons.prems(1) w by (force simp: like_def)
  ultimately have r: "replace_obj clash k v xs = Inr (flat_insert k v xs)" by (simp add: replace_obj_def)
  have "like clash m (flat_insert k v xs)" using Cons.prems(1) w by (auto simp: like_def)
  with Cons.IH [of "flat_insert k v xs"] Cons.prems(2,3) u r show ?case by simp
qed simp

lemma restore_removed_succeeds:
  assumes "sorted_keys xs" "map_of xs \<subseteq>\<^sub>m m" "no_clash clash m" "sorted_keys us"
    "\<forall>(k, v) \<in> set us. m k = Some v \<and> map_of xs k = None"
  shows "\<exists>xs'. efold (\<lambda>(k, v). insert_obj clash k v) us xs = Inr xs'"
  using assms
proof (induction us arbitrary: xs)
  case (Cons u us)
  obtain k v where u: "u = (k, v)" by fastforce
  have k: "m k = Some v" "map_of xs k = None" using Cons.prems(5) u by auto
  have le: "m j = Some w" if "map_of xs j = Some w" for j w
    using Cons.prems(2) that by (metis domI map_le_def)
  have "clash_free clash k v xs"
    unfolding clash_free_iff [OF Cons.prems(1)] using Cons.prems(3) k(1) le by (metis no_clash_def)
  then have r: "insert_obj clash k v xs = Inr (flat_insert k v xs)" using k by (simp add: insert_obj_def)
  have "k \<notin> fst ` set us" using Cons.prems(4) u by (auto simp: sorted_keys_def)
  then have rest: "\<forall>(j, w) \<in> set us. m j = Some w \<and> map_of (flat_insert k v xs) j = None"
    using Cons.prems(5) by force
  have le': "map_of (flat_insert k v xs) \<subseteq>\<^sub>m m" using Cons.prems(2) k by (auto simp: map_le_def)
  have us: "sorted_keys us" using Cons.prems(4) by (simp add: sorted_keys_def)
  from Cons.IH [OF sorted_keys_flat_insert [OF Cons.prems(1)] le' Cons.prems(3) us rest]
  show ?case using u r by simp
qed simp

text \<open>An undo never fails on a table whose objects keep their unique keys within the session: if neither the
  present contents nor the snapshot hold two clashing objects and every modified object still has
  the unique keys it had, every object can be put back.\<close>

theorem undo_succeeds:
  assumes "index_ok g" "gi_stack g = h # r" "no_clash clash (map_of (indices g))"
    "no_clash clash (recover h (map_of (indices g)))"
    "\<forall>(k, v) \<in> set (old_values h). \<forall>w. map_of (indices g) k = Some w \<longrightarrow> same_keys clash v w"
  shows "\<exists>g'. undo clash g = Inr g' \<and> abs_index g' = spec_undo (abs_index g)"
proof -
  let ?m = "map_of (indices g)"
  have ok: "state_ok h (gi_next_id g) ?m" "sorted_keys (indices g)" using assms(1,2) by (auto simp: index_ok_def)
  have old: "\<exists>w. ?m k = Some w \<and> same_keys clash v w" if "(k, v) \<in> set (old_values h)" for k v
  proof -
    have "map_of (old_values h) k \<noteq> None" using that by (auto simp: map_of_eq_None_iff rev_image_eqI)
    then have "?m k \<noteq> None" using ok(1) by (simp add: state_ok_def entry_ok_def)
    then obtain w where "?m k = Some w" by blast
    with that assms(5) show ?thesis by blast
  qed
  have "like clash ?m (indices g)" using ok(2) by (simp add: like_def same_keys_def)
  from restore_old_succeeds [OF this assms(3), of "old_values h"] old
  obtain xs1 where 1: "efold (\<lambda>(k, v). replace_obj clash k v) (old_values h) (indices g) = Inr xs1" by blast
  let ?xs2 = "fold erase (new_ids h) xs1"
  have x1: "sorted_keys xs1 \<and> map_of xs1 = ?m ++ map_of (old_values h)"
    using efold_replace [OF 1 ok(2)] ok(1) by (simp add: state_ok_def)
  then have x2: "sorted_keys ?xs2 \<and> map_of ?xs2 = (?m ++ map_of (old_values h)) |` (- set (new_ids h))"
    using fold_erase [of xs1 "new_ids h"] by simp
  have removed: "recover h ?m k = Some v \<and> map_of ?xs2 k = None" if kv: "(k, v) \<in> set (removed_values h)" for k v
  proof -
    have "map_of (removed_values h) k = Some v"
      using ok(1) kv by (simp add: state_ok_def sorted_keys_def strict_sorted_iff)
    moreover have "entry_ok h (gi_next_id g) ?m k" using ok(1) by (simp add: state_ok_def)
    ultimately show ?thesis using x2
      by (cases "map_of (old_values h) k") (auto simp: entry_ok_def recover_def map_add_def restrict_map_def)
  qed
  have "map_of ?xs2 \<subseteq>\<^sub>m recover h ?m"
  proof (unfold map_le_def, intro ballI)
    fix i assume "i \<in> dom (map_of ?xs2)"
    then have "i \<notin> set (new_ids h)" "map_of ?xs2 i = (?m ++ map_of (old_values h)) i" "(?m ++ map_of (old_values h)) i \<noteq> None"
      using x2 by (auto simp: restrict_map_def split: if_splits)
    moreover have "entry_ok h (gi_next_id g) ?m i" using ok(1) by (simp add: state_ok_def)
    ultimately show "map_of ?xs2 i = recover h ?m i"
      by (cases "map_of (old_values h) i"; cases "map_of (removed_values h) i") (auto simp: entry_ok_def recover_def map_add_def)
  qed
  from restore_removed_succeeds [OF conjunct1 [OF x2] this assms(4), of "removed_values h"] removed ok(1)
  obtain xs3 where 3: "efold (\<lambda>(k, v). insert_obj clash k v) (removed_values h) ?xs2 = Inr xs3"
    by (auto simp: state_ok_def)
  from 1 3 assms(2) have "\<exists>g'. undo clash g = Inr g'" by (simp add: undo_def)
  with undo_recovers assms(1) show ?thesis by blast
qed

section \<open>Commit\<close>

lemma history_prefix:
  "history_ok (a @ b) nid m \<Longrightarrow> history_ok a nid m \<and> history a m = take (length a) (history (a @ b) m)"
proof (induction a arbitrary: nid m)
  case Nil
  then show ?case by (cases b) (auto simp: state_ok_def entry_ok_def)
qed auto

text \<open>Committing a revision leaves the table alone and forgets only the oldest snapshots: what remains of the
  history is a prefix of it, newest first, and no remaining oldest session is at or below the revision.\<close>

theorem commit_forgets_oldest:
  assumes "index_ok g"
  shows "index_ok (commit revision g) \<and> fst (abs_index (commit revision g)) = fst (abs_index g) \<and>
    (\<exists>n. snd (abs_index (commit revision g)) = take n (snd (abs_index g))) \<and>
    (gi_stack (commit revision g) \<noteq> [] \<longrightarrow> revision < us_revision (last (gi_stack (commit revision g))))"
proof -
  let ?P = "\<lambda>u. us_revision u \<le> revision"
  let ?a = "rev (dropWhile ?P (rev (gi_stack g)))" and ?b = "rev (takeWhile ?P (rev (gi_stack g)))"
  have split: "gi_stack g = ?a @ ?b"
    by (metis rev_append rev_rev_ident takeWhile_dropWhile_id)
  then have "history_ok (?a @ ?b) (gi_next_id g) (map_of (indices g))" using assms by (simp add: index_ok_def)
  from history_prefix [OF this] split have
    "history_ok ?a (gi_next_id g) (map_of (indices g)) \<and>
     history ?a (map_of (indices g)) = take (length ?a) (history (gi_stack g) (map_of (indices g)))" by simp
  moreover have "?a \<noteq> [] \<Longrightarrow> revision < us_revision (last ?a)"
    using hd_dropWhile [of ?P "rev (gi_stack g)"] by (simp add: last_rev)
  ultimately show ?thesis using assms by (auto simp: commit_def index_ok_def abs_index_def)
qed

section \<open>Runs\<close>

definition empty_index :: "'v generic_index" where
  "empty_index = \<lparr>indices = [], gi_next_id = 0, gi_stack = [], gi_revision = 0\<rparr>"

lemma empty_index_ok: "index_ok empty_index"
  by (simp add: index_ok_def empty_index_def sorted_keys_def)

text \<open>Not every session can be undone: when two objects exchange a unique key within a session, the undo
  restores the first object while the second still holds its key, and throws. Here object 0 moves from key
  1 to key 3 and object 1 from key 2 to key 1.\<close>

theorem undo_fails_on_passed_key:
  "throws (ebind (emplace (=) (\<lambda>_. 1) (empty_index :: int generic_index)) (\<lambda>g1.
     ebind (emplace (=) (\<lambda>_. 2) g1) (\<lambda>g2.
     ebind (modify (=) 0 (\<lambda>_. 3) (start_undo_session g2)) (\<lambda>g3.
     ebind (modify (=) 1 (\<lambda>_. 1) g3) (undo (=))))))
   (Logic_error ''Could not modify object, most likely a uniqueness constraint was violated'')"
  by code_simp

text \<open>Nor can a session be undone in which a change of an object was refused because of a clash, if the object is older than the
  session: the container has dropped the object, and the undo looks for it.\<close>

lemma restore_dropped:
  "k \<in> fst ` set kvs \<Longrightarrow> map_of xs k = None \<Longrightarrow> \<exists>e. efold (\<lambda>(k, v). replace_obj clash k v) kvs xs = Inl e"
proof (induction kvs arbitrary: xs)
  case (Cons kv kvs)
  obtain k' v where kv: "kv = (k', v)" by fastforce
  show ?case
  proof (cases "replace_obj clash k' v xs")
    case (Inr ys)
    then have "k' \<noteq> k" "ys = flat_insert k' v xs" using Cons.prems(2) by (auto simp: replace_obj_def split: if_splits)
    then show ?thesis using Cons kv Inr by (simp add: map_of_flat_insert)
  qed (simp add: kv ebind_def)
qed simp

theorem rejected_modify_cannot_be_undone:
  assumes "modify_rejected clash k m g = Some g'" "gi_stack g = h # r" "k \<notin> set (new_ids h)"
  shows "(\<exists>e. modify clash k m g = Inl e) \<and> (\<exists>e. undo clash g' = Inl e)"
proof -
  from assms(1) obtain v where v: "map_of (indices g) k = Some v" "\<not> clash_free clash k (m v) (indices g)"
    and g': "g' = (on_modify k v g)\<lparr>indices := erase k (indices g)\<rparr>"
    by (auto simp: modify_rejected_def split: option.splits if_splits)
  let ?h = "record_modify k v h"
  have "map_of (old_values ?h) k \<noteq> None" using assms(3) by (auto simp: record_modify_def map_of_flat_insert)
  then have "k \<in> fst ` set (old_values ?h)" by (simp add: map_of_eq_None_iff)
  moreover have "map_of (erase k (indices g)) k = None" by (simp add: map_of_erase)
  ultimately obtain e where "efold (\<lambda>(k, v). replace_obj clash k v) (old_values ?h) (erase k (indices g)) = Inl e"
    using restore_dropped by blast
  then have "undo clash g' = Inl e" by (simp add: g' undo_def on_modify_def with_head_def assms(2) ebind_def)
  moreover have "\<exists>e. modify clash k m g = Inl e" using v by (simp add: modify_def replace_obj_def ebind_def)
  ultimately show ?thesis by blast
qed

theorem rejected_modify_cannot_be_undone_witness:
  "succeeds (ebind (emplace (=) (\<lambda>_. 1) (empty_index :: int generic_index)) (emplace (=) (\<lambda>_. 2))) (\<lambda>g.
     \<exists>g'. modify_rejected (=) 0 (\<lambda>_. 2) (start_undo_session g) = Some g' \<and> (\<exists>e. undo (=) g' = Inl e))"
proof -
  have "succeeds (ebind (emplace (=) (\<lambda>_. 1) (empty_index :: int generic_index)) (emplace (=) (\<lambda>_. 2))) (\<lambda>g.
     modify_rejected (=) 0 (\<lambda>_. 2) (start_undo_session g) \<noteq> None)" by code_simp
  then show ?thesis
  proof (rule succeeds_mono)
    fix g :: "int generic_index"
    assume "modify_rejected (=) 0 (\<lambda>_. 2) (start_undo_session g) \<noteq> None"
    then obtain g' where g': "modify_rejected (=) 0 (\<lambda>_. 2) (start_undo_session g) = Some g'" by blast
    from rejected_modify_cannot_be_undone [OF this] g' show "\<exists>g'. modify_rejected (=) 0 (\<lambda>_. 2) (start_undo_session g) = Some g' \<and> (\<exists>e. undo (=) g' = Inl e)"
      by (simp add: start_undo_session_def)
  qed
qed

theorem undo_restores_session_witness:
  "\<exists>g1. efold (apply_change (=)) [Emplace (\<lambda>_. 5), Modify 0 (\<lambda>v. v + 2), Remove 0, Emplace (\<lambda>_. 8)]
      (start_undo_session (empty_index :: int generic_index)) = Inr g1 \<and> undo (=) g1 = Inr empty_index"
proof -
  let ?cs = "[Emplace (\<lambda>_. 5), Modify 0 (\<lambda>v. v + 2), Remove 0, Emplace (\<lambda>_. 8)]"
  have "succeeds (efold (apply_change (=)) ?cs (start_undo_session (empty_index :: int generic_index)))
      (\<lambda>g. succeeds (undo (=) g) (\<lambda>_. True))" by code_simp
  then obtain g1 g2 where run: "efold (apply_change (=)) ?cs (start_undo_session (empty_index :: int generic_index)) = Inr g1"
    "undo (=) g1 = Inr g2" by (auto simp: succeeds_iff)
  from undo_restores_session [OF run empty_index_ok] run show ?thesis by auto
qed

theorem squash_refines_snapshots_witness:
  "abs_index (squash (start_undo_session (start_undo_session (empty_index :: int generic_index)))) =
   spec_squash (abs_index (start_undo_session (start_undo_session empty_index)))"
  using squash_refines_snapshots [OF conjunct1 [OF start_refines [OF conjunct1 [OF start_refines [OF empty_index_ok]]]]]
  by blast

theorem commit_forgets_oldest_witness:
  "fst (abs_index (commit 1 (start_undo_session (start_undo_session (empty_index :: int generic_index))))) =
   fst (abs_index (start_undo_session (start_undo_session empty_index)))"
  using commit_forgets_oldest [OF conjunct1 [OF start_refines [OF conjunct1 [OF start_refines [OF empty_index_ok]]]]]
  by blast

theorem undo_succeeds_witness:
  "\<exists>g'. undo (=) (start_undo_session (empty_index :: int generic_index)) = Inr g'"
proof -
  let ?g = "start_undo_session (empty_index :: int generic_index)"
  obtain h r where h: "gi_stack ?g = h # r" "old_values h = []" "new_ids h = []" "removed_values h = []"
    by (auto simp: start_undo_session_def)
  have e: "indices ?g = []" by (simp add: start_undo_session_def empty_index_def)
  show ?thesis
    using undo_succeeds [OF conjunct1 [OF start_refines [OF empty_index_ok]] h(1), of "(=)"] h e
    by (auto simp: no_clash_def recover_def)
qed

end
