(* ===== verification/Wire_Operations.thy ===== *)
theory Wire_Operations
  imports Operation_Types
begin

text \<open>
  The binary form of the operations: the members of each in the order of its \<^verbatim>\<open>FC_REFLECT_DERIVED\<close> line
  (\<^verbatim>\<open>sophiatx_operations.hpp\<close>, \<^verbatim>\<open>sophiatx_virtual_operations.hpp\<close>), after the member \<^verbatim>\<open>fee\<close> of the base structure, and the variant
  type \<^verbatim>\<open>operation\<close> with the tags of \<^verbatim>\<open>operations.hpp\<close>. Each is an interpretation of \<open>codec\<close>: an operation that is packed is
  unpacked again, and every operation that can be unpacked is well-formed.
\<close>

section \<open>Containers\<close>

definition pack_future_extensions :: "future_extensions \<Rightarrow> bytes" where
  "pack_future_extensions x = pack_variant 0 []"

definition unpack_future_extensions :: "future_extensions unpacker" where
  "unpack_future_extensions = unpack_variant [unpack_reflected (\<lambda>d s. Inr (Future_void, s))]"

text \<open>Variants compare by their tag.\<close>

definition future_which :: "future_extensions \<Rightarrow> int" where "future_which x = 0"

interpretation future: codec pack_future_extensions unpack_future_extensions "\<lambda>_. True" 3
proof
  show "unpack_future_extensions d (pack_future_extensions x @ rest) = Inr (x, rest)" if "d + 3 \<le> MAX_RECURSION_DEPTH" for x d rest
    using that by (cases x) (simp add: unpack_future_extensions_def pack_future_extensions_def unpack_variant_pack unpack_reflected_def)
  show "True \<and> is_bytes rest" if "is_bytes s" "unpack_future_extensions d s = Inr (x, rest)" for s d x rest
    using that unfolding unpack_future_extensions_def
    by (elim unpack_variant_valid) (auto simp: unpack_reflected_def result_simps)
qed

definition pack_extensions :: "extensions_type \<Rightarrow> bytes" where "pack_extensions = pack_container pack_future_extensions"

definition unpack_extensions :: "abi \<Rightarrow> extensions_type unpacker" where
  "unpack_extensions a = unpack_flat future_which (sizeof_static_variant a) unpack_future_extensions"

definition valid_extensions :: "abi \<Rightarrow> extensions_type \<Rightarrow> bool" where
  "valid_extensions a = valid_container (flat_sorted future_which) (sizeof_static_variant a) (\<lambda>_. True)"

interpretation extensions: codec pack_extensions "unpack_extensions a" "valid_extensions a" 4 for a
  unfolding pack_extensions_def unpack_extensions_def valid_extensions_def
  by (rule codec_height [OF flat_codec [OF future.codec_axioms]]) simp

declare extensions.field_pack [wire_pack] extensions.field_valid [wire_elim]

definition pack_recipients :: "account_name_type list \<Rightarrow> bytes" where "pack_recipients = pack_container pack_name"

definition unpack_recipients :: "abi \<Rightarrow> account_name_type list unpacker" where
  "unpack_recipients a = unpack_flat id (sizeof_account_name_type a) unpack_name"

definition valid_recipients :: "abi \<Rightarrow> account_name_type list \<Rightarrow> bool" where
  "valid_recipients a = valid_container (flat_sorted id) (sizeof_account_name_type a) valid_name"

interpretation recipients: codec pack_recipients "unpack_recipients a" "valid_recipients a" 4 for a
  unfolding pack_recipients_def unpack_recipients_def valid_recipients_def
  by (rule codec_height [OF flat_codec [OF name.codec_axioms]]) simp

declare recipients.field_pack [wire_pack] recipients.field_valid [wire_elim]

definition pack_props :: "(string \<times> nat list) list \<Rightarrow> bytes" where "pack_props = pack_container (pack_pair pack_string pack_chars)"

definition unpack_props :: "abi \<Rightarrow> (string \<times> nat list) list unpacker" where
  "unpack_props a = unpack_flat fst (sizeof_string a + sizeof_vector a) (unpack_pair unpack_string unpack_chars)"

definition valid_props :: "abi \<Rightarrow> (string \<times> nat list) list \<Rightarrow> bool" where
  "valid_props a = valid_container (flat_sorted fst) (sizeof_string a + sizeof_vector a) (\<lambda>x. valid_string (fst x) \<and> valid_chars (snd x))"

interpretation props: codec pack_props "unpack_props a" "valid_props a" 4 for a
  unfolding pack_props_def unpack_props_def valid_props_def
  by (rule codec_height [OF flat_codec [OF pair_codec [OF string_codec chars_codec]]]) simp

declare props.field_pack [wire_pack] props.field_valid [wire_elim]

definition pack_optional_authority :: "authority option \<Rightarrow> bytes" where "pack_optional_authority = pack_optional pack_authority"

definition unpack_optional_authority :: "abi \<Rightarrow> authority option unpacker" where "unpack_optional_authority a = unpack_optional (unpack_authority a)"

definition valid_optional_authority :: "abi \<Rightarrow> authority option \<Rightarrow> bool" where
  "valid_optional_authority a x = (case x of None \<Rightarrow> True | Some y \<Rightarrow> valid_authority a y)"

interpretation optional_authority: codec pack_optional_authority "unpack_optional_authority a" "valid_optional_authority a" 8 for a
  unfolding pack_optional_authority_def unpack_optional_authority_def valid_optional_authority_def [abs_def]
  by (rule codec_height [OF optional_codec [OF authority.codec_axioms]]) simp

declare optional_authority.field_pack [wire_pack] optional_authority.field_valid [wire_elim]

definition pack_optional_name :: "account_name_type option \<Rightarrow> bytes" where "pack_optional_name = pack_optional pack_name"

definition unpack_optional_name :: "account_name_type option unpacker" where "unpack_optional_name = unpack_optional unpack_name"

definition valid_optional_name :: "account_name_type option \<Rightarrow> bool" where
  "valid_optional_name x = (case x of None \<Rightarrow> True | Some y \<Rightarrow> valid_name y)"

interpretation optional_name: codec pack_optional_name unpack_optional_name valid_optional_name 4
  unfolding pack_optional_name_def unpack_optional_name_def valid_optional_name_def [abs_def]
  by (rule codec_height [OF optional_codec [OF name.codec_axioms]]) simp

declare optional_name.field_pack [wire_pack] optional_name.field_valid [wire_elim]

definition pack_optional_uint8 :: "int option \<Rightarrow> bytes" where "pack_optional_uint8 = pack_optional (pack_uint 1)"

definition unpack_optional_uint8 :: "int option unpacker" where "unpack_optional_uint8 = unpack_optional (unpack_uint 1)"

definition valid_optional_uint8 :: "int option \<Rightarrow> bool" where
  "valid_optional_uint8 x = (case x of None \<Rightarrow> True | Some y \<Rightarrow> valid_uint 1 y)"

interpretation optional_uint8: codec pack_optional_uint8 unpack_optional_uint8 valid_optional_uint8 3
  unfolding pack_optional_uint8_def unpack_optional_uint8_def valid_optional_uint8_def [abs_def]
  by (rule codec_height [OF optional_codec [OF uint_codec [of 1]]]) simp

declare optional_uint8.field_pack [wire_pack] optional_uint8.field_valid [wire_elim]

section \<open>Operations\<close>

definition pack_transfer :: "transfer_operation \<Rightarrow> bytes" where
  "pack_transfer x = pack_asset (op_fee x) @ pack_name (tr_from x) @ pack_name (tr_to x) @ pack_asset (tr_amount x) @ pack_string (tr_memo x)"

definition unpack_transfer :: "transfer_operation unpacker" where
  "unpack_transfer = unpack_reflected (\<lambda>d s.
     field unpack_asset d s (\<lambda>v_op_fee s.
     field unpack_name d s (\<lambda>v_tr_from s.
     field unpack_name d s (\<lambda>v_tr_to s.
     field unpack_asset d s (\<lambda>v_tr_amount s.
     field unpack_string d s (\<lambda>v_tr_memo s.
       Inr (\<lparr>op_fee = v_op_fee, tr_from = v_tr_from, tr_to = v_tr_to, tr_amount = v_tr_amount, tr_memo = v_tr_memo\<rparr>, s)))))))"

definition valid_transfer :: "transfer_operation \<Rightarrow> bool" where
  "valid_transfer x \<longleftrightarrow> valid_asset (op_fee x) \<and> valid_name (tr_from x) \<and> valid_name (tr_to x) \<and> valid_asset (tr_amount x) \<and> valid_string (tr_memo x)"

interpretation transfer: codec pack_transfer unpack_transfer valid_transfer 7
proof
  show "unpack_transfer d (pack_transfer x @ rest) = Inr (x, rest)" if "valid_transfer x" "d + 7 \<le> MAX_RECURSION_DEPTH" for x d rest
    using that by (cases x) (simp add: pack_transfer_def unpack_transfer_def valid_transfer_def unpack_reflected_def wire_pack)
  show "valid_transfer x \<and> is_bytes rest" if "is_bytes s" "unpack_transfer d s = Inr (x, rest)" for s d x rest
    using that unfolding unpack_transfer_def unpack_reflected_def check_depth_Inr
    by (elim conjE wire_elim) (auto simp: valid_transfer_def)
qed

declare transfer.field_pack [wire_pack] transfer.field_valid [wire_elim]

definition pack_transfer_to_vesting :: "transfer_to_vesting_operation \<Rightarrow> bytes" where
  "pack_transfer_to_vesting x = pack_asset (op_fee x) @ pack_name (tv_from x) @ pack_name (tv_to x) @ pack_asset (tv_amount x)"

definition unpack_transfer_to_vesting :: "transfer_to_vesting_operation unpacker" where
  "unpack_transfer_to_vesting = unpack_reflected (\<lambda>d s.
     field unpack_asset d s (\<lambda>v_op_fee s.
     field unpack_name d s (\<lambda>v_tv_from s.
     field unpack_name d s (\<lambda>v_tv_to s.
     field unpack_asset d s (\<lambda>v_tv_amount s.
       Inr (\<lparr>op_fee = v_op_fee, tv_from = v_tv_from, tv_to = v_tv_to, tv_amount = v_tv_amount\<rparr>, s))))))"

definition valid_transfer_to_vesting :: "transfer_to_vesting_operation \<Rightarrow> bool" where
  "valid_transfer_to_vesting x \<longleftrightarrow> valid_asset (op_fee x) \<and> valid_name (tv_from x) \<and> valid_name (tv_to x) \<and> valid_asset (tv_amount x)"

interpretation transfer_to_vesting: codec pack_transfer_to_vesting unpack_transfer_to_vesting valid_transfer_to_vesting 7
proof
  show "unpack_transfer_to_vesting d (pack_transfer_to_vesting x @ rest) = Inr (x, rest)" if "valid_transfer_to_vesting x" "d + 7 \<le> MAX_RECURSION_DEPTH" for x d rest
    using that by (cases x) (simp add: pack_transfer_to_vesting_def unpack_transfer_to_vesting_def valid_transfer_to_vesting_def unpack_reflected_def wire_pack)
  show "valid_transfer_to_vesting x \<and> is_bytes rest" if "is_bytes s" "unpack_transfer_to_vesting d s = Inr (x, rest)" for s d x rest
    using that unfolding unpack_transfer_to_vesting_def unpack_reflected_def check_depth_Inr
    by (elim conjE wire_elim) (auto simp: valid_transfer_to_vesting_def)
qed

declare transfer_to_vesting.field_pack [wire_pack] transfer_to_vesting.field_valid [wire_elim]

definition pack_withdraw_vesting :: "withdraw_vesting_operation \<Rightarrow> bytes" where
  "pack_withdraw_vesting x = pack_asset (op_fee x) @ pack_name (wd_account x) @ pack_asset (wd_vesting_shares x)"

definition unpack_withdraw_vesting :: "withdraw_vesting_operation unpacker" where
  "unpack_withdraw_vesting = unpack_reflected (\<lambda>d s.
     field unpack_asset d s (\<lambda>v_op_fee s.
     field unpack_name d s (\<lambda>v_wd_account s.
     field unpack_asset d s (\<lambda>v_wd_vesting_shares s.
       Inr (\<lparr>op_fee = v_op_fee, wd_account = v_wd_account, wd_vesting_shares = v_wd_vesting_shares\<rparr>, s)))))"

definition valid_withdraw_vesting :: "withdraw_vesting_operation \<Rightarrow> bool" where
  "valid_withdraw_vesting x \<longleftrightarrow> valid_asset (op_fee x) \<and> valid_name (wd_account x) \<and> valid_asset (wd_vesting_shares x)"

interpretation withdraw_vesting: codec pack_withdraw_vesting unpack_withdraw_vesting valid_withdraw_vesting 7
proof
  show "unpack_withdraw_vesting d (pack_withdraw_vesting x @ rest) = Inr (x, rest)" if "valid_withdraw_vesting x" "d + 7 \<le> MAX_RECURSION_DEPTH" for x d rest
    using that by (cases x) (simp add: pack_withdraw_vesting_def unpack_withdraw_vesting_def valid_withdraw_vesting_def unpack_reflected_def wire_pack)
  show "valid_withdraw_vesting x \<and> is_bytes rest" if "is_bytes s" "unpack_withdraw_vesting d s = Inr (x, rest)" for s d x rest
    using that unfolding unpack_withdraw_vesting_def unpack_reflected_def check_depth_Inr
    by (elim conjE wire_elim) (auto simp: valid_withdraw_vesting_def)
qed

declare withdraw_vesting.field_pack [wire_pack] withdraw_vesting.field_valid [wire_elim]

definition pack_feed_publish :: "feed_publish_operation \<Rightarrow> bytes" where
  "pack_feed_publish x = pack_asset (op_fee x) @ pack_name (fp_publisher x) @ pack_price (fp_exchange_rate x)"

definition unpack_feed_publish :: "feed_publish_operation unpacker" where
  "unpack_feed_publish = unpack_reflected (\<lambda>d s.
     field unpack_asset d s (\<lambda>v_op_fee s.
     field unpack_name d s (\<lambda>v_fp_publisher s.
     field unpack_price d s (\<lambda>v_fp_exchange_rate s.
       Inr (\<lparr>op_fee = v_op_fee, fp_publisher = v_fp_publisher, fp_exchange_rate = v_fp_exchange_rate\<rparr>, s)))))"

definition valid_feed_publish :: "feed_publish_operation \<Rightarrow> bool" where
  "valid_feed_publish x \<longleftrightarrow> valid_asset (op_fee x) \<and> valid_name (fp_publisher x) \<and> valid_price (fp_exchange_rate x)"

interpretation feed_publish: codec pack_feed_publish unpack_feed_publish valid_feed_publish 9
proof
  show "unpack_feed_publish d (pack_feed_publish x @ rest) = Inr (x, rest)" if "valid_feed_publish x" "d + 9 \<le> MAX_RECURSION_DEPTH" for x d rest
    using that by (cases x) (simp add: pack_feed_publish_def unpack_feed_publish_def valid_feed_publish_def unpack_reflected_def wire_pack)
  show "valid_feed_publish x \<and> is_bytes rest" if "is_bytes s" "unpack_feed_publish d s = Inr (x, rest)" for s d x rest
    using that unfolding unpack_feed_publish_def unpack_reflected_def check_depth_Inr
    by (elim conjE wire_elim) (auto simp: valid_feed_publish_def)
qed

declare feed_publish.field_pack [wire_pack] feed_publish.field_valid [wire_elim]

definition pack_account_create :: "account_create_operation \<Rightarrow> bytes" where
  "pack_account_create x = pack_asset (op_fee x) @ pack_name (ac_creator x) @ pack_string (ac_name_seed x) @ pack_authority (ac_owner x) @ pack_authority (ac_active x) @ pack_public_key (ac_memo_key x) @ pack_string (ac_json_metadata x)"

definition unpack_account_create :: "abi \<Rightarrow> account_create_operation unpacker" where
  "unpack_account_create a = unpack_reflected (\<lambda>d s.
     field unpack_asset d s (\<lambda>v_op_fee s.
     field unpack_name d s (\<lambda>v_ac_creator s.
     field unpack_string d s (\<lambda>v_ac_name_seed s.
     field (unpack_authority a) d s (\<lambda>v_ac_owner s.
     field (unpack_authority a) d s (\<lambda>v_ac_active s.
     field unpack_public_key d s (\<lambda>v_ac_memo_key s.
     field unpack_string d s (\<lambda>v_ac_json_metadata s.
       Inr (\<lparr>op_fee = v_op_fee, ac_creator = v_ac_creator, ac_name_seed = v_ac_name_seed, ac_owner = v_ac_owner, ac_active = v_ac_active, ac_memo_key = v_ac_memo_key, ac_json_metadata = v_ac_json_metadata\<rparr>, s)))))))))"

definition valid_account_create :: "abi \<Rightarrow> account_create_operation \<Rightarrow> bool" where
  "valid_account_create a x \<longleftrightarrow> valid_asset (op_fee x) \<and> valid_name (ac_creator x) \<and> valid_string (ac_name_seed x) \<and> valid_authority a (ac_owner x) \<and> valid_authority a (ac_active x) \<and> valid_uint 33 (ac_memo_key x) \<and> valid_string (ac_json_metadata x)"

interpretation account_create: codec pack_account_create "unpack_account_create a" "valid_account_create a" 9 for a
proof
  show "unpack_account_create a d (pack_account_create x @ rest) = Inr (x, rest)" if "valid_account_create a x" "d + 9 \<le> MAX_RECURSION_DEPTH" for x d rest
    using that by (cases x) (simp add: pack_account_create_def unpack_account_create_def valid_account_create_def unpack_reflected_def wire_pack)
  show "valid_account_create a x \<and> is_bytes rest" if "is_bytes s" "unpack_account_create a d s = Inr (x, rest)" for s d x rest
    using that unfolding unpack_account_create_def unpack_reflected_def check_depth_Inr
    by (elim conjE wire_elim) (auto simp: valid_account_create_def)
qed

declare account_create.field_pack [wire_pack] account_create.field_valid [wire_elim]

definition pack_account_update :: "account_update_operation \<Rightarrow> bytes" where
  "pack_account_update x = pack_asset (op_fee x) @ pack_name (up_account x) @ pack_optional_authority (up_owner x) @ pack_optional_authority (up_active x) @ pack_public_key (up_memo_key x) @ pack_string (up_json_metadata x)"

definition unpack_account_update :: "abi \<Rightarrow> account_update_operation unpacker" where
  "unpack_account_update a = unpack_reflected (\<lambda>d s.
     field unpack_asset d s (\<lambda>v_op_fee s.
     field unpack_name d s (\<lambda>v_up_account s.
     field (unpack_optional_authority a) d s (\<lambda>v_up_owner s.
     field (unpack_optional_authority a) d s (\<lambda>v_up_active s.
     field unpack_public_key d s (\<lambda>v_up_memo_key s.
     field unpack_string d s (\<lambda>v_up_json_metadata s.
       Inr (\<lparr>op_fee = v_op_fee, up_account = v_up_account, up_owner = v_up_owner, up_active = v_up_active, up_memo_key = v_up_memo_key, up_json_metadata = v_up_json_metadata\<rparr>, s))))))))"

definition valid_account_update :: "abi \<Rightarrow> account_update_operation \<Rightarrow> bool" where
  "valid_account_update a x \<longleftrightarrow> valid_asset (op_fee x) \<and> valid_name (up_account x) \<and> valid_optional_authority a (up_owner x) \<and> valid_optional_authority a (up_active x) \<and> valid_uint 33 (up_memo_key x) \<and> valid_string (up_json_metadata x)"

interpretation account_update: codec pack_account_update "unpack_account_update a" "valid_account_update a" 10 for a
proof
  show "unpack_account_update a d (pack_account_update x @ rest) = Inr (x, rest)" if "valid_account_update a x" "d + 10 \<le> MAX_RECURSION_DEPTH" for x d rest
    using that by (cases x) (simp add: pack_account_update_def unpack_account_update_def valid_account_update_def unpack_reflected_def wire_pack)
  show "valid_account_update a x \<and> is_bytes rest" if "is_bytes s" "unpack_account_update a d s = Inr (x, rest)" for s d x rest
    using that unfolding unpack_account_update_def unpack_reflected_def check_depth_Inr
    by (elim conjE wire_elim) (auto simp: valid_account_update_def)
qed

declare account_update.field_pack [wire_pack] account_update.field_valid [wire_elim]

definition pack_account_delete :: "account_delete_operation \<Rightarrow> bytes" where
  "pack_account_delete x = pack_asset (op_fee x) @ pack_name (ad_account x)"

definition unpack_account_delete :: "account_delete_operation unpacker" where
  "unpack_account_delete = unpack_reflected (\<lambda>d s.
     field unpack_asset d s (\<lambda>v_op_fee s.
     field unpack_name d s (\<lambda>v_ad_account s.
       Inr (\<lparr>op_fee = v_op_fee, ad_account = v_ad_account\<rparr>, s))))"

definition valid_account_delete :: "account_delete_operation \<Rightarrow> bool" where
  "valid_account_delete x \<longleftrightarrow> valid_asset (op_fee x) \<and> valid_name (ad_account x)"

interpretation account_delete: codec pack_account_delete unpack_account_delete valid_account_delete 7
proof
  show "unpack_account_delete d (pack_account_delete x @ rest) = Inr (x, rest)" if "valid_account_delete x" "d + 7 \<le> MAX_RECURSION_DEPTH" for x d rest
    using that by (cases x) (simp add: pack_account_delete_def unpack_account_delete_def valid_account_delete_def unpack_reflected_def wire_pack)
  show "valid_account_delete x \<and> is_bytes rest" if "is_bytes s" "unpack_account_delete d s = Inr (x, rest)" for s d x rest
    using that unfolding unpack_account_delete_def unpack_reflected_def check_depth_Inr
    by (elim conjE wire_elim) (auto simp: valid_account_delete_def)
qed

declare account_delete.field_pack [wire_pack] account_delete.field_valid [wire_elim]

definition pack_witness_update :: "witness_update_operation \<Rightarrow> bytes" where
  "pack_witness_update x = pack_asset (op_fee x) @ pack_name (wu_owner x) @ pack_string (wu_url x) @ pack_public_key (wu_block_signing_key x) @ pack_chain_properties (wu_props x)"

definition unpack_witness_update :: "abi \<Rightarrow> witness_update_operation unpacker" where
  "unpack_witness_update a = unpack_reflected (\<lambda>d s.
     field unpack_asset d s (\<lambda>v_op_fee s.
     field unpack_name d s (\<lambda>v_wu_owner s.
     field unpack_string d s (\<lambda>v_wu_url s.
     field unpack_public_key d s (\<lambda>v_wu_block_signing_key s.
     field (unpack_chain_properties a) d s (\<lambda>v_wu_props s.
       Inr (\<lparr>op_fee = v_op_fee, wu_owner = v_wu_owner, wu_url = v_wu_url, wu_block_signing_key = v_wu_block_signing_key, wu_props = v_wu_props\<rparr>, s)))))))"

definition valid_witness_update :: "abi \<Rightarrow> witness_update_operation \<Rightarrow> bool" where
  "valid_witness_update a x \<longleftrightarrow> valid_asset (op_fee x) \<and> valid_name (wu_owner x) \<and> valid_string (wu_url x) \<and> valid_uint 33 (wu_block_signing_key x) \<and> valid_chain_properties a (wu_props x)"

interpretation witness_update: codec pack_witness_update "unpack_witness_update a" "valid_witness_update a" 13 for a
proof
  show "unpack_witness_update a d (pack_witness_update x @ rest) = Inr (x, rest)" if "valid_witness_update a x" "d + 13 \<le> MAX_RECURSION_DEPTH" for x d rest
    using that by (cases x) (simp add: pack_witness_update_def unpack_witness_update_def valid_witness_update_def unpack_reflected_def wire_pack)
  show "valid_witness_update a x \<and> is_bytes rest" if "is_bytes s" "unpack_witness_update a d s = Inr (x, rest)" for s d x rest
    using that unfolding unpack_witness_update_def unpack_reflected_def check_depth_Inr
    by (elim conjE wire_elim) (auto simp: valid_witness_update_def)
qed

declare witness_update.field_pack [wire_pack] witness_update.field_valid [wire_elim]

definition pack_witness_stop :: "witness_stop_operation \<Rightarrow> bytes" where
  "pack_witness_stop x = pack_asset (op_fee x) @ pack_name (ws_owner x)"

definition unpack_witness_stop :: "witness_stop_operation unpacker" where
  "unpack_witness_stop = unpack_reflected (\<lambda>d s.
     field unpack_asset d s (\<lambda>v_op_fee s.
     field unpack_name d s (\<lambda>v_ws_owner s.
       Inr (\<lparr>op_fee = v_op_fee, ws_owner = v_ws_owner\<rparr>, s))))"

definition valid_witness_stop :: "witness_stop_operation \<Rightarrow> bool" where
  "valid_witness_stop x \<longleftrightarrow> valid_asset (op_fee x) \<and> valid_name (ws_owner x)"

interpretation witness_stop: codec pack_witness_stop unpack_witness_stop valid_witness_stop 7
proof
  show "unpack_witness_stop d (pack_witness_stop x @ rest) = Inr (x, rest)" if "valid_witness_stop x" "d + 7 \<le> MAX_RECURSION_DEPTH" for x d rest
    using that by (cases x) (simp add: pack_witness_stop_def unpack_witness_stop_def valid_witness_stop_def unpack_reflected_def wire_pack)
  show "valid_witness_stop x \<and> is_bytes rest" if "is_bytes s" "unpack_witness_stop d s = Inr (x, rest)" for s d x rest
    using that unfolding unpack_witness_stop_def unpack_reflected_def check_depth_Inr
    by (elim conjE wire_elim) (auto simp: valid_witness_stop_def)
qed

declare witness_stop.field_pack [wire_pack] witness_stop.field_valid [wire_elim]

definition pack_account_witness_vote :: "account_witness_vote_operation \<Rightarrow> bytes" where
  "pack_account_witness_vote x = pack_asset (op_fee x) @ pack_name (vo_account x) @ pack_name (vo_witness x) @ pack_bool (vo_approve x)"

definition unpack_account_witness_vote :: "account_witness_vote_operation unpacker" where
  "unpack_account_witness_vote = unpack_reflected (\<lambda>d s.
     field unpack_asset d s (\<lambda>v_op_fee s.
     field unpack_name d s (\<lambda>v_vo_account s.
     field unpack_name d s (\<lambda>v_vo_witness s.
     field unpack_bool d s (\<lambda>v_vo_approve s.
       Inr (\<lparr>op_fee = v_op_fee, vo_account = v_vo_account, vo_witness = v_vo_witness, vo_approve = v_vo_approve\<rparr>, s))))))"

definition valid_account_witness_vote :: "account_witness_vote_operation \<Rightarrow> bool" where
  "valid_account_witness_vote x \<longleftrightarrow> valid_asset (op_fee x) \<and> valid_name (vo_account x) \<and> valid_name (vo_witness x)"

interpretation account_witness_vote: codec pack_account_witness_vote unpack_account_witness_vote valid_account_witness_vote 7
proof
  show "unpack_account_witness_vote d (pack_account_witness_vote x @ rest) = Inr (x, rest)" if "valid_account_witness_vote x" "d + 7 \<le> MAX_RECURSION_DEPTH" for x d rest
    using that by (cases x) (simp add: pack_account_witness_vote_def unpack_account_witness_vote_def valid_account_witness_vote_def unpack_reflected_def wire_pack)
  show "valid_account_witness_vote x \<and> is_bytes rest" if "is_bytes s" "unpack_account_witness_vote d s = Inr (x, rest)" for s d x rest
    using that unfolding unpack_account_witness_vote_def unpack_reflected_def check_depth_Inr
    by (elim conjE wire_elim) (auto simp: valid_account_witness_vote_def)
qed

declare account_witness_vote.field_pack [wire_pack] account_witness_vote.field_valid [wire_elim]

definition pack_account_witness_proxy :: "account_witness_proxy_operation \<Rightarrow> bytes" where
  "pack_account_witness_proxy x = pack_asset (op_fee x) @ pack_name (px_account x) @ pack_name (px_proxy x)"

definition unpack_account_witness_proxy :: "account_witness_proxy_operation unpacker" where
  "unpack_account_witness_proxy = unpack_reflected (\<lambda>d s.
     field unpack_asset d s (\<lambda>v_op_fee s.
     field unpack_name d s (\<lambda>v_px_account s.
     field unpack_name d s (\<lambda>v_px_proxy s.
       Inr (\<lparr>op_fee = v_op_fee, px_account = v_px_account, px_proxy = v_px_proxy\<rparr>, s)))))"

definition valid_account_witness_proxy :: "account_witness_proxy_operation \<Rightarrow> bool" where
  "valid_account_witness_proxy x \<longleftrightarrow> valid_asset (op_fee x) \<and> valid_name (px_account x) \<and> valid_name (px_proxy x)"

interpretation account_witness_proxy: codec pack_account_witness_proxy unpack_account_witness_proxy valid_account_witness_proxy 7
proof
  show "unpack_account_witness_proxy d (pack_account_witness_proxy x @ rest) = Inr (x, rest)" if "valid_account_witness_proxy x" "d + 7 \<le> MAX_RECURSION_DEPTH" for x d rest
    using that by (cases x) (simp add: pack_account_witness_proxy_def unpack_account_witness_proxy_def valid_account_witness_proxy_def unpack_reflected_def wire_pack)
  show "valid_account_witness_proxy x \<and> is_bytes rest" if "is_bytes s" "unpack_account_witness_proxy d s = Inr (x, rest)" for s d x rest
    using that unfolding unpack_account_witness_proxy_def unpack_reflected_def check_depth_Inr
    by (elim conjE wire_elim) (auto simp: valid_account_witness_proxy_def)
qed

declare account_witness_proxy.field_pack [wire_pack] account_witness_proxy.field_valid [wire_elim]

definition pack_witness_set_properties :: "witness_set_properties_operation \<Rightarrow> bytes" where
  "pack_witness_set_properties x = pack_asset (op_fee x) @ pack_name (sp_owner x) @ pack_props (sp_props x) @ pack_extensions (sp_extensions x)"

definition unpack_witness_set_properties :: "abi \<Rightarrow> witness_set_properties_operation unpacker" where
  "unpack_witness_set_properties a = unpack_reflected (\<lambda>d s.
     field unpack_asset d s (\<lambda>v_op_fee s.
     field unpack_name d s (\<lambda>v_sp_owner s.
     field (unpack_props a) d s (\<lambda>v_sp_props s.
     field (unpack_extensions a) d s (\<lambda>v_sp_extensions s.
       Inr (\<lparr>op_fee = v_op_fee, sp_owner = v_sp_owner, sp_props = v_sp_props, sp_extensions = v_sp_extensions\<rparr>, s))))))"

definition valid_witness_set_properties :: "abi \<Rightarrow> witness_set_properties_operation \<Rightarrow> bool" where
  "valid_witness_set_properties a x \<longleftrightarrow> valid_asset (op_fee x) \<and> valid_name (sp_owner x) \<and> valid_props a (sp_props x) \<and> valid_extensions a (sp_extensions x)"

interpretation witness_set_properties: codec pack_witness_set_properties "unpack_witness_set_properties a" "valid_witness_set_properties a" 7 for a
proof
  show "unpack_witness_set_properties a d (pack_witness_set_properties x @ rest) = Inr (x, rest)" if "valid_witness_set_properties a x" "d + 7 \<le> MAX_RECURSION_DEPTH" for x d rest
    using that by (cases x) (simp add: pack_witness_set_properties_def unpack_witness_set_properties_def valid_witness_set_properties_def unpack_reflected_def wire_pack)
  show "valid_witness_set_properties a x \<and> is_bytes rest" if "is_bytes s" "unpack_witness_set_properties a d s = Inr (x, rest)" for s d x rest
    using that unfolding unpack_witness_set_properties_def unpack_reflected_def check_depth_Inr
    by (elim conjE wire_elim) (auto simp: valid_witness_set_properties_def)
qed

declare witness_set_properties.field_pack [wire_pack] witness_set_properties.field_valid [wire_elim]

definition pack_custom :: "custom_operation \<Rightarrow> bytes" where
  "pack_custom x = pack_asset (op_fee x) @ pack_name (cu_sender x) @ pack_recipients (cu_recipients x) @ pack_uint 8 (cu_app_id x) @ pack_chars (cu_data x)"

definition unpack_custom :: "abi \<Rightarrow> custom_operation unpacker" where
  "unpack_custom a = unpack_reflected (\<lambda>d s.
     field unpack_asset d s (\<lambda>v_op_fee s.
     field unpack_name d s (\<lambda>v_cu_sender s.
     field (unpack_recipients a) d s (\<lambda>v_cu_recipients s.
     field (unpack_uint 8) d s (\<lambda>v_cu_app_id s.
     field unpack_chars d s (\<lambda>v_cu_data s.
       Inr (\<lparr>op_fee = v_op_fee, cu_sender = v_cu_sender, cu_recipients = v_cu_recipients, cu_app_id = v_cu_app_id, cu_data = v_cu_data\<rparr>, s)))))))"

definition valid_custom :: "abi \<Rightarrow> custom_operation \<Rightarrow> bool" where
  "valid_custom a x \<longleftrightarrow> valid_asset (op_fee x) \<and> valid_name (cu_sender x) \<and> valid_recipients a (cu_recipients x) \<and> valid_uint 8 (cu_app_id x) \<and> valid_chars (cu_data x)"

interpretation custom: codec pack_custom "unpack_custom a" "valid_custom a" 7 for a
proof
  show "unpack_custom a d (pack_custom x @ rest) = Inr (x, rest)" if "valid_custom a x" "d + 7 \<le> MAX_RECURSION_DEPTH" for x d rest
    using that by (cases x) (simp add: pack_custom_def unpack_custom_def valid_custom_def unpack_reflected_def wire_pack)
  show "valid_custom a x \<and> is_bytes rest" if "is_bytes s" "unpack_custom a d s = Inr (x, rest)" for s d x rest
    using that unfolding unpack_custom_def unpack_reflected_def check_depth_Inr
    by (elim conjE wire_elim) (auto simp: valid_custom_def)
qed

declare custom.field_pack [wire_pack] custom.field_valid [wire_elim]

definition pack_custom_json :: "custom_json_operation \<Rightarrow> bytes" where
  "pack_custom_json x = pack_asset (op_fee x) @ pack_name (cj_sender x) @ pack_recipients (cj_recipients x) @ pack_uint 8 (cj_app_id x) @ pack_string (cj_json x)"

definition unpack_custom_json :: "abi \<Rightarrow> custom_json_operation unpacker" where
  "unpack_custom_json a = unpack_reflected (\<lambda>d s.
     field unpack_asset d s (\<lambda>v_op_fee s.
     field unpack_name d s (\<lambda>v_cj_sender s.
     field (unpack_recipients a) d s (\<lambda>v_cj_recipients s.
     field (unpack_uint 8) d s (\<lambda>v_cj_app_id s.
     field unpack_string d s (\<lambda>v_cj_json s.
       Inr (\<lparr>op_fee = v_op_fee, cj_sender = v_cj_sender, cj_recipients = v_cj_recipients, cj_app_id = v_cj_app_id, cj_json = v_cj_json\<rparr>, s)))))))"

definition valid_custom_json :: "abi \<Rightarrow> custom_json_operation \<Rightarrow> bool" where
  "valid_custom_json a x \<longleftrightarrow> valid_asset (op_fee x) \<and> valid_name (cj_sender x) \<and> valid_recipients a (cj_recipients x) \<and> valid_uint 8 (cj_app_id x) \<and> valid_string (cj_json x)"

interpretation custom_json: codec pack_custom_json "unpack_custom_json a" "valid_custom_json a" 7 for a
proof
  show "unpack_custom_json a d (pack_custom_json x @ rest) = Inr (x, rest)" if "valid_custom_json a x" "d + 7 \<le> MAX_RECURSION_DEPTH" for x d rest
    using that by (cases x) (simp add: pack_custom_json_def unpack_custom_json_def valid_custom_json_def unpack_reflected_def wire_pack)
  show "valid_custom_json a x \<and> is_bytes rest" if "is_bytes s" "unpack_custom_json a d s = Inr (x, rest)" for s d x rest
    using that unfolding unpack_custom_json_def unpack_reflected_def check_depth_Inr
    by (elim conjE wire_elim) (auto simp: valid_custom_json_def)
qed

declare custom_json.field_pack [wire_pack] custom_json.field_valid [wire_elim]

definition pack_request_account_recovery :: "request_account_recovery_operation \<Rightarrow> bytes" where
  "pack_request_account_recovery x = pack_asset (op_fee x) @ pack_name (rq_recovery_account x) @ pack_name (rq_account_to_recover x) @ pack_authority (rq_new_owner_authority x) @ pack_extensions (rq_extensions x)"

definition unpack_request_account_recovery :: "abi \<Rightarrow> request_account_recovery_operation unpacker" where
  "unpack_request_account_recovery a = unpack_reflected (\<lambda>d s.
     field unpack_asset d s (\<lambda>v_op_fee s.
     field unpack_name d s (\<lambda>v_rq_recovery_account s.
     field unpack_name d s (\<lambda>v_rq_account_to_recover s.
     field (unpack_authority a) d s (\<lambda>v_rq_new_owner_authority s.
     field (unpack_extensions a) d s (\<lambda>v_rq_extensions s.
       Inr (\<lparr>op_fee = v_op_fee, rq_recovery_account = v_rq_recovery_account, rq_account_to_recover = v_rq_account_to_recover, rq_new_owner_authority = v_rq_new_owner_authority, rq_extensions = v_rq_extensions\<rparr>, s)))))))"

definition valid_request_account_recovery :: "abi \<Rightarrow> request_account_recovery_operation \<Rightarrow> bool" where
  "valid_request_account_recovery a x \<longleftrightarrow> valid_asset (op_fee x) \<and> valid_name (rq_recovery_account x) \<and> valid_name (rq_account_to_recover x) \<and> valid_authority a (rq_new_owner_authority x) \<and> valid_extensions a (rq_extensions x)"

interpretation request_account_recovery: codec pack_request_account_recovery "unpack_request_account_recovery a" "valid_request_account_recovery a" 9 for a
proof
  show "unpack_request_account_recovery a d (pack_request_account_recovery x @ rest) = Inr (x, rest)" if "valid_request_account_recovery a x" "d + 9 \<le> MAX_RECURSION_DEPTH" for x d rest
    using that by (cases x) (simp add: pack_request_account_recovery_def unpack_request_account_recovery_def valid_request_account_recovery_def unpack_reflected_def wire_pack)
  show "valid_request_account_recovery a x \<and> is_bytes rest" if "is_bytes s" "unpack_request_account_recovery a d s = Inr (x, rest)" for s d x rest
    using that unfolding unpack_request_account_recovery_def unpack_reflected_def check_depth_Inr
    by (elim conjE wire_elim) (auto simp: valid_request_account_recovery_def)
qed

declare request_account_recovery.field_pack [wire_pack] request_account_recovery.field_valid [wire_elim]

definition pack_recover_account :: "recover_account_operation \<Rightarrow> bytes" where
  "pack_recover_account x = pack_asset (op_fee x) @ pack_name (rc_account_to_recover x) @ pack_authority (rc_new_owner_authority x) @ pack_authority (rc_recent_owner_authority x) @ pack_extensions (rc_extensions x)"

definition unpack_recover_account :: "abi \<Rightarrow> recover_account_operation unpacker" where
  "unpack_recover_account a = unpack_reflected (\<lambda>d s.
     field unpack_asset d s (\<lambda>v_op_fee s.
     field unpack_name d s (\<lambda>v_rc_account_to_recover s.
     field (unpack_authority a) d s (\<lambda>v_rc_new_owner_authority s.
     field (unpack_authority a) d s (\<lambda>v_rc_recent_owner_authority s.
     field (unpack_extensions a) d s (\<lambda>v_rc_extensions s.
       Inr (\<lparr>op_fee = v_op_fee, rc_account_to_recover = v_rc_account_to_recover, rc_new_owner_authority = v_rc_new_owner_authority, rc_recent_owner_authority = v_rc_recent_owner_authority, rc_extensions = v_rc_extensions\<rparr>, s)))))))"

definition valid_recover_account :: "abi \<Rightarrow> recover_account_operation \<Rightarrow> bool" where
  "valid_recover_account a x \<longleftrightarrow> valid_asset (op_fee x) \<and> valid_name (rc_account_to_recover x) \<and> valid_authority a (rc_new_owner_authority x) \<and> valid_authority a (rc_recent_owner_authority x) \<and> valid_extensions a (rc_extensions x)"

interpretation recover_account: codec pack_recover_account "unpack_recover_account a" "valid_recover_account a" 9 for a
proof
  show "unpack_recover_account a d (pack_recover_account x @ rest) = Inr (x, rest)" if "valid_recover_account a x" "d + 9 \<le> MAX_RECURSION_DEPTH" for x d rest
    using that by (cases x) (simp add: pack_recover_account_def unpack_recover_account_def valid_recover_account_def unpack_reflected_def wire_pack)
  show "valid_recover_account a x \<and> is_bytes rest" if "is_bytes s" "unpack_recover_account a d s = Inr (x, rest)" for s d x rest
    using that unfolding unpack_recover_account_def unpack_reflected_def check_depth_Inr
    by (elim conjE wire_elim) (auto simp: valid_recover_account_def)
qed

declare recover_account.field_pack [wire_pack] recover_account.field_valid [wire_elim]

text \<open>The structure declares a member \<^verbatim>\<open>fee\<close> of its own, which its \<^verbatim>\<open>FC_REFLECT_DERIVED\<close> line does not list: it is not written, and it
  has the value of its constructor after reading.\<close>

definition pack_change_recovery_account :: "change_recovery_account_operation \<Rightarrow> bytes" where
  "pack_change_recovery_account x = pack_asset (op_fee x) @ pack_name (ch_account_to_recover x) @ pack_name (ch_new_recovery_account x) @ pack_extensions (ch_extensions x)"

definition unpack_change_recovery_account :: "abi \<Rightarrow> change_recovery_account_operation unpacker" where
  "unpack_change_recovery_account a = unpack_reflected (\<lambda>d s.
     field unpack_asset d s (\<lambda>v_op_fee s.
     field unpack_name d s (\<lambda>v_ch_account_to_recover s.
     field unpack_name d s (\<lambda>v_ch_new_recovery_account s.
     field (unpack_extensions a) d s (\<lambda>v_ch_extensions s.
       Inr (\<lparr>op_fee = v_op_fee, ch_fee = Asset 0 SOPHIATX_SYMBOL, ch_account_to_recover = v_ch_account_to_recover, ch_new_recovery_account = v_ch_new_recovery_account, ch_extensions = v_ch_extensions\<rparr>, s))))))"

definition valid_change_recovery_account :: "abi \<Rightarrow> change_recovery_account_operation \<Rightarrow> bool" where
  "valid_change_recovery_account a x \<longleftrightarrow> valid_asset (op_fee x) \<and> valid_name (ch_account_to_recover x) \<and> valid_name (ch_new_recovery_account x) \<and> valid_extensions a (ch_extensions x) \<and> ch_fee x = Asset 0 SOPHIATX_SYMBOL"

interpretation change_recovery_account: codec pack_change_recovery_account "unpack_change_recovery_account a" "valid_change_recovery_account a" 7 for a
proof
  show "unpack_change_recovery_account a d (pack_change_recovery_account x @ rest) = Inr (x, rest)" if "valid_change_recovery_account a x" "d + 7 \<le> MAX_RECURSION_DEPTH" for x d rest
    using that by (cases x) (simp add: pack_change_recovery_account_def unpack_change_recovery_account_def valid_change_recovery_account_def unpack_reflected_def wire_pack)
  show "valid_change_recovery_account a x \<and> is_bytes rest" if "is_bytes s" "unpack_change_recovery_account a d s = Inr (x, rest)" for s d x rest
    using that unfolding unpack_change_recovery_account_def unpack_reflected_def check_depth_Inr
    by (elim conjE wire_elim) (auto simp: valid_change_recovery_account_def)
qed

declare change_recovery_account.field_pack [wire_pack] change_recovery_account.field_valid [wire_elim]

text \<open>The order on the wire is not the order of declaration.\<close>

definition pack_escrow_transfer :: "escrow_transfer_operation \<Rightarrow> bytes" where
  "pack_escrow_transfer x = pack_asset (op_fee x) @ pack_name (et_from x) @ pack_name (et_to x) @ pack_asset (et_sophiatx_amount x) @ pack_uint 4 (et_escrow_id x) @ pack_name (et_agent x) @ pack_asset (et_escrow_fee x) @ pack_string (et_json_meta x) @ pack_time_point_sec (et_ratification_deadline x) @ pack_time_point_sec (et_escrow_expiration x)"

definition unpack_escrow_transfer :: "escrow_transfer_operation unpacker" where
  "unpack_escrow_transfer = unpack_reflected (\<lambda>d s.
     field unpack_asset d s (\<lambda>v_op_fee s.
     field unpack_name d s (\<lambda>v_et_from s.
     field unpack_name d s (\<lambda>v_et_to s.
     field unpack_asset d s (\<lambda>v_et_sophiatx_amount s.
     field (unpack_uint 4) d s (\<lambda>v_et_escrow_id s.
     field unpack_name d s (\<lambda>v_et_agent s.
     field unpack_asset d s (\<lambda>v_et_escrow_fee s.
     field unpack_string d s (\<lambda>v_et_json_meta s.
     field unpack_time_point_sec d s (\<lambda>v_et_ratification_deadline s.
     field unpack_time_point_sec d s (\<lambda>v_et_escrow_expiration s.
       Inr (\<lparr>op_fee = v_op_fee, et_from = v_et_from, et_to = v_et_to, et_agent = v_et_agent, et_escrow_id = v_et_escrow_id, et_sophiatx_amount = v_et_sophiatx_amount, et_escrow_fee = v_et_escrow_fee, et_ratification_deadline = v_et_ratification_deadline, et_escrow_expiration = v_et_escrow_expiration, et_json_meta = v_et_json_meta\<rparr>, s))))))))))))"

definition valid_escrow_transfer :: "escrow_transfer_operation \<Rightarrow> bool" where
  "valid_escrow_transfer x \<longleftrightarrow> valid_asset (op_fee x) \<and> valid_name (et_from x) \<and> valid_name (et_to x) \<and> valid_asset (et_sophiatx_amount x) \<and> valid_uint 4 (et_escrow_id x) \<and> valid_name (et_agent x) \<and> valid_asset (et_escrow_fee x) \<and> valid_string (et_json_meta x) \<and> valid_uint 4 (et_ratification_deadline x) \<and> valid_uint 4 (et_escrow_expiration x)"

interpretation escrow_transfer: codec pack_escrow_transfer unpack_escrow_transfer valid_escrow_transfer 7
proof
  show "unpack_escrow_transfer d (pack_escrow_transfer x @ rest) = Inr (x, rest)" if "valid_escrow_transfer x" "d + 7 \<le> MAX_RECURSION_DEPTH" for x d rest
    using that by (cases x) (simp add: pack_escrow_transfer_def unpack_escrow_transfer_def valid_escrow_transfer_def unpack_reflected_def wire_pack)
  show "valid_escrow_transfer x \<and> is_bytes rest" if "is_bytes s" "unpack_escrow_transfer d s = Inr (x, rest)" for s d x rest
    using that unfolding unpack_escrow_transfer_def unpack_reflected_def check_depth_Inr
    by (elim conjE wire_elim) (auto simp: valid_escrow_transfer_def)
qed

declare escrow_transfer.field_pack [wire_pack] escrow_transfer.field_valid [wire_elim]

definition pack_escrow_dispute :: "escrow_dispute_operation \<Rightarrow> bytes" where
  "pack_escrow_dispute x = pack_asset (op_fee x) @ pack_name (ed_from x) @ pack_name (ed_to x) @ pack_name (ed_agent x) @ pack_name (ed_who x) @ pack_uint 4 (ed_escrow_id x)"

definition unpack_escrow_dispute :: "escrow_dispute_operation unpacker" where
  "unpack_escrow_dispute = unpack_reflected (\<lambda>d s.
     field unpack_asset d s (\<lambda>v_op_fee s.
     field unpack_name d s (\<lambda>v_ed_from s.
     field unpack_name d s (\<lambda>v_ed_to s.
     field unpack_name d s (\<lambda>v_ed_agent s.
     field unpack_name d s (\<lambda>v_ed_who s.
     field (unpack_uint 4) d s (\<lambda>v_ed_escrow_id s.
       Inr (\<lparr>op_fee = v_op_fee, ed_from = v_ed_from, ed_to = v_ed_to, ed_agent = v_ed_agent, ed_who = v_ed_who, ed_escrow_id = v_ed_escrow_id\<rparr>, s))))))))"

definition valid_escrow_dispute :: "escrow_dispute_operation \<Rightarrow> bool" where
  "valid_escrow_dispute x \<longleftrightarrow> valid_asset (op_fee x) \<and> valid_name (ed_from x) \<and> valid_name (ed_to x) \<and> valid_name (ed_agent x) \<and> valid_name (ed_who x) \<and> valid_uint 4 (ed_escrow_id x)"

interpretation escrow_dispute: codec pack_escrow_dispute unpack_escrow_dispute valid_escrow_dispute 7
proof
  show "unpack_escrow_dispute d (pack_escrow_dispute x @ rest) = Inr (x, rest)" if "valid_escrow_dispute x" "d + 7 \<le> MAX_RECURSION_DEPTH" for x d rest
    using that by (cases x) (simp add: pack_escrow_dispute_def unpack_escrow_dispute_def valid_escrow_dispute_def unpack_reflected_def wire_pack)
  show "valid_escrow_dispute x \<and> is_bytes rest" if "is_bytes s" "unpack_escrow_dispute d s = Inr (x, rest)" for s d x rest
    using that unfolding unpack_escrow_dispute_def unpack_reflected_def check_depth_Inr
    by (elim conjE wire_elim) (auto simp: valid_escrow_dispute_def)
qed

declare escrow_dispute.field_pack [wire_pack] escrow_dispute.field_valid [wire_elim]

definition pack_escrow_release :: "escrow_release_operation \<Rightarrow> bytes" where
  "pack_escrow_release x = pack_asset (op_fee x) @ pack_name (er_from x) @ pack_name (er_to x) @ pack_name (er_agent x) @ pack_name (er_who x) @ pack_name (er_receiver x) @ pack_uint 4 (er_escrow_id x) @ pack_asset (er_sophiatx_amount x)"

definition unpack_escrow_release :: "escrow_release_operation unpacker" where
  "unpack_escrow_release = unpack_reflected (\<lambda>d s.
     field unpack_asset d s (\<lambda>v_op_fee s.
     field unpack_name d s (\<lambda>v_er_from s.
     field unpack_name d s (\<lambda>v_er_to s.
     field unpack_name d s (\<lambda>v_er_agent s.
     field unpack_name d s (\<lambda>v_er_who s.
     field unpack_name d s (\<lambda>v_er_receiver s.
     field (unpack_uint 4) d s (\<lambda>v_er_escrow_id s.
     field unpack_asset d s (\<lambda>v_er_sophiatx_amount s.
       Inr (\<lparr>op_fee = v_op_fee, er_from = v_er_from, er_to = v_er_to, er_agent = v_er_agent, er_who = v_er_who, er_receiver = v_er_receiver, er_escrow_id = v_er_escrow_id, er_sophiatx_amount = v_er_sophiatx_amount\<rparr>, s))))))))))"

definition valid_escrow_release :: "escrow_release_operation \<Rightarrow> bool" where
  "valid_escrow_release x \<longleftrightarrow> valid_asset (op_fee x) \<and> valid_name (er_from x) \<and> valid_name (er_to x) \<and> valid_name (er_agent x) \<and> valid_name (er_who x) \<and> valid_name (er_receiver x) \<and> valid_uint 4 (er_escrow_id x) \<and> valid_asset (er_sophiatx_amount x)"

interpretation escrow_release: codec pack_escrow_release unpack_escrow_release valid_escrow_release 7
proof
  show "unpack_escrow_release d (pack_escrow_release x @ rest) = Inr (x, rest)" if "valid_escrow_release x" "d + 7 \<le> MAX_RECURSION_DEPTH" for x d rest
    using that by (cases x) (simp add: pack_escrow_release_def unpack_escrow_release_def valid_escrow_release_def unpack_reflected_def wire_pack)
  show "valid_escrow_release x \<and> is_bytes rest" if "is_bytes s" "unpack_escrow_release d s = Inr (x, rest)" for s d x rest
    using that unfolding unpack_escrow_release_def unpack_reflected_def check_depth_Inr
    by (elim conjE wire_elim) (auto simp: valid_escrow_release_def)
qed

declare escrow_release.field_pack [wire_pack] escrow_release.field_valid [wire_elim]

definition pack_escrow_approve :: "escrow_approve_operation \<Rightarrow> bytes" where
  "pack_escrow_approve x = pack_asset (op_fee x) @ pack_name (ea_from x) @ pack_name (ea_to x) @ pack_name (ea_agent x) @ pack_name (ea_who x) @ pack_uint 4 (ea_escrow_id x) @ pack_bool (ea_approve x)"

definition unpack_escrow_approve :: "escrow_approve_operation unpacker" where
  "unpack_escrow_approve = unpack_reflected (\<lambda>d s.
     field unpack_asset d s (\<lambda>v_op_fee s.
     field unpack_name d s (\<lambda>v_ea_from s.
     field unpack_name d s (\<lambda>v_ea_to s.
     field unpack_name d s (\<lambda>v_ea_agent s.
     field unpack_name d s (\<lambda>v_ea_who s.
     field (unpack_uint 4) d s (\<lambda>v_ea_escrow_id s.
     field unpack_bool d s (\<lambda>v_ea_approve s.
       Inr (\<lparr>op_fee = v_op_fee, ea_from = v_ea_from, ea_to = v_ea_to, ea_agent = v_ea_agent, ea_who = v_ea_who, ea_escrow_id = v_ea_escrow_id, ea_approve = v_ea_approve\<rparr>, s)))))))))"

definition valid_escrow_approve :: "escrow_approve_operation \<Rightarrow> bool" where
  "valid_escrow_approve x \<longleftrightarrow> valid_asset (op_fee x) \<and> valid_name (ea_from x) \<and> valid_name (ea_to x) \<and> valid_name (ea_agent x) \<and> valid_name (ea_who x) \<and> valid_uint 4 (ea_escrow_id x)"

interpretation escrow_approve: codec pack_escrow_approve unpack_escrow_approve valid_escrow_approve 7
proof
  show "unpack_escrow_approve d (pack_escrow_approve x @ rest) = Inr (x, rest)" if "valid_escrow_approve x" "d + 7 \<le> MAX_RECURSION_DEPTH" for x d rest
    using that by (cases x) (simp add: pack_escrow_approve_def unpack_escrow_approve_def valid_escrow_approve_def unpack_reflected_def wire_pack)
  show "valid_escrow_approve x \<and> is_bytes rest" if "is_bytes s" "unpack_escrow_approve d s = Inr (x, rest)" for s d x rest
    using that unfolding unpack_escrow_approve_def unpack_reflected_def check_depth_Inr
    by (elim conjE wire_elim) (auto simp: valid_escrow_approve_def)
qed

declare escrow_approve.field_pack [wire_pack] escrow_approve.field_valid [wire_elim]

definition pack_reset_account :: "reset_account_operation \<Rightarrow> bytes" where
  "pack_reset_account x = pack_asset (op_fee x) @ pack_name (ra_reset_account x) @ pack_name (ra_account_to_reset x) @ pack_authority (ra_new_owner_authority x)"

definition unpack_reset_account :: "abi \<Rightarrow> reset_account_operation unpacker" where
  "unpack_reset_account a = unpack_reflected (\<lambda>d s.
     field unpack_asset d s (\<lambda>v_op_fee s.
     field unpack_name d s (\<lambda>v_ra_reset_account s.
     field unpack_name d s (\<lambda>v_ra_account_to_reset s.
     field (unpack_authority a) d s (\<lambda>v_ra_new_owner_authority s.
       Inr (\<lparr>op_fee = v_op_fee, ra_reset_account = v_ra_reset_account, ra_account_to_reset = v_ra_account_to_reset, ra_new_owner_authority = v_ra_new_owner_authority\<rparr>, s))))))"

definition valid_reset_account :: "abi \<Rightarrow> reset_account_operation \<Rightarrow> bool" where
  "valid_reset_account a x \<longleftrightarrow> valid_asset (op_fee x) \<and> valid_name (ra_reset_account x) \<and> valid_name (ra_account_to_reset x) \<and> valid_authority a (ra_new_owner_authority x)"

interpretation reset_account: codec pack_reset_account "unpack_reset_account a" "valid_reset_account a" 9 for a
proof
  show "unpack_reset_account a d (pack_reset_account x @ rest) = Inr (x, rest)" if "valid_reset_account a x" "d + 9 \<le> MAX_RECURSION_DEPTH" for x d rest
    using that by (cases x) (simp add: pack_reset_account_def unpack_reset_account_def valid_reset_account_def unpack_reflected_def wire_pack)
  show "valid_reset_account a x \<and> is_bytes rest" if "is_bytes s" "unpack_reset_account a d s = Inr (x, rest)" for s d x rest
    using that unfolding unpack_reset_account_def unpack_reflected_def check_depth_Inr
    by (elim conjE wire_elim) (auto simp: valid_reset_account_def)
qed

declare reset_account.field_pack [wire_pack] reset_account.field_valid [wire_elim]

definition pack_set_reset_account :: "set_reset_account_operation \<Rightarrow> bytes" where
  "pack_set_reset_account x = pack_asset (op_fee x) @ pack_name (sr_account x) @ pack_name (sr_current_reset_account x) @ pack_name (sr_reset_account x)"

definition unpack_set_reset_account :: "set_reset_account_operation unpacker" where
  "unpack_set_reset_account = unpack_reflected (\<lambda>d s.
     field unpack_asset d s (\<lambda>v_op_fee s.
     field unpack_name d s (\<lambda>v_sr_account s.
     field unpack_name d s (\<lambda>v_sr_current_reset_account s.
     field unpack_name d s (\<lambda>v_sr_reset_account s.
       Inr (\<lparr>op_fee = v_op_fee, sr_account = v_sr_account, sr_current_reset_account = v_sr_current_reset_account, sr_reset_account = v_sr_reset_account\<rparr>, s))))))"

definition valid_set_reset_account :: "set_reset_account_operation \<Rightarrow> bool" where
  "valid_set_reset_account x \<longleftrightarrow> valid_asset (op_fee x) \<and> valid_name (sr_account x) \<and> valid_name (sr_current_reset_account x) \<and> valid_name (sr_reset_account x)"

interpretation set_reset_account: codec pack_set_reset_account unpack_set_reset_account valid_set_reset_account 7
proof
  show "unpack_set_reset_account d (pack_set_reset_account x @ rest) = Inr (x, rest)" if "valid_set_reset_account x" "d + 7 \<le> MAX_RECURSION_DEPTH" for x d rest
    using that by (cases x) (simp add: pack_set_reset_account_def unpack_set_reset_account_def valid_set_reset_account_def unpack_reflected_def wire_pack)
  show "valid_set_reset_account x \<and> is_bytes rest" if "is_bytes s" "unpack_set_reset_account d s = Inr (x, rest)" for s d x rest
    using that unfolding unpack_set_reset_account_def unpack_reflected_def check_depth_Inr
    by (elim conjE wire_elim) (auto simp: valid_set_reset_account_def)
qed

declare set_reset_account.field_pack [wire_pack] set_reset_account.field_valid [wire_elim]

definition pack_application_create :: "application_create_operation \<Rightarrow> bytes" where
  "pack_application_create x = pack_asset (op_fee x) @ pack_name (apc_author x) @ pack_string (apc_name x) @ pack_string (apc_url x) @ pack_string (apc_metadata x) @ pack_uint 1 (apc_price_param x)"

definition unpack_application_create :: "application_create_operation unpacker" where
  "unpack_application_create = unpack_reflected (\<lambda>d s.
     field unpack_asset d s (\<lambda>v_op_fee s.
     field unpack_name d s (\<lambda>v_apc_author s.
     field unpack_string d s (\<lambda>v_apc_name s.
     field unpack_string d s (\<lambda>v_apc_url s.
     field unpack_string d s (\<lambda>v_apc_metadata s.
     field (unpack_uint 1) d s (\<lambda>v_apc_price_param s.
       Inr (\<lparr>op_fee = v_op_fee, apc_author = v_apc_author, apc_name = v_apc_name, apc_url = v_apc_url, apc_metadata = v_apc_metadata, apc_price_param = v_apc_price_param\<rparr>, s))))))))"

definition valid_application_create :: "application_create_operation \<Rightarrow> bool" where
  "valid_application_create x \<longleftrightarrow> valid_asset (op_fee x) \<and> valid_name (apc_author x) \<and> valid_string (apc_name x) \<and> valid_string (apc_url x) \<and> valid_string (apc_metadata x) \<and> valid_uint 1 (apc_price_param x)"

interpretation application_create: codec pack_application_create unpack_application_create valid_application_create 7
proof
  show "unpack_application_create d (pack_application_create x @ rest) = Inr (x, rest)" if "valid_application_create x" "d + 7 \<le> MAX_RECURSION_DEPTH" for x d rest
    using that by (cases x) (simp add: pack_application_create_def unpack_application_create_def valid_application_create_def unpack_reflected_def wire_pack)
  show "valid_application_create x \<and> is_bytes rest" if "is_bytes s" "unpack_application_create d s = Inr (x, rest)" for s d x rest
    using that unfolding unpack_application_create_def unpack_reflected_def check_depth_Inr
    by (elim conjE wire_elim) (auto simp: valid_application_create_def)
qed

declare application_create.field_pack [wire_pack] application_create.field_valid [wire_elim]

definition pack_application_update :: "application_update_operation \<Rightarrow> bytes" where
  "pack_application_update x = pack_asset (op_fee x) @ pack_name (apu_author x) @ pack_optional_name (apu_new_author x) @ pack_string (apu_name x) @ pack_string (apu_url x) @ pack_string (apu_metadata x) @ pack_optional_uint8 (apu_price_param x)"

definition unpack_application_update :: "application_update_operation unpacker" where
  "unpack_application_update = unpack_reflected (\<lambda>d s.
     field unpack_asset d s (\<lambda>v_op_fee s.
     field unpack_name d s (\<lambda>v_apu_author s.
     field unpack_optional_name d s (\<lambda>v_apu_new_author s.
     field unpack_string d s (\<lambda>v_apu_name s.
     field unpack_string d s (\<lambda>v_apu_url s.
     field unpack_string d s (\<lambda>v_apu_metadata s.
     field unpack_optional_uint8 d s (\<lambda>v_apu_price_param s.
       Inr (\<lparr>op_fee = v_op_fee, apu_author = v_apu_author, apu_new_author = v_apu_new_author, apu_name = v_apu_name, apu_url = v_apu_url, apu_metadata = v_apu_metadata, apu_price_param = v_apu_price_param\<rparr>, s)))))))))"

definition valid_application_update :: "application_update_operation \<Rightarrow> bool" where
  "valid_application_update x \<longleftrightarrow> valid_asset (op_fee x) \<and> valid_name (apu_author x) \<and> valid_optional_name (apu_new_author x) \<and> valid_string (apu_name x) \<and> valid_string (apu_url x) \<and> valid_string (apu_metadata x) \<and> valid_optional_uint8 (apu_price_param x)"

interpretation application_update: codec pack_application_update unpack_application_update valid_application_update 7
proof
  show "unpack_application_update d (pack_application_update x @ rest) = Inr (x, rest)" if "valid_application_update x" "d + 7 \<le> MAX_RECURSION_DEPTH" for x d rest
    using that by (cases x) (simp add: pack_application_update_def unpack_application_update_def valid_application_update_def unpack_reflected_def wire_pack)
  show "valid_application_update x \<and> is_bytes rest" if "is_bytes s" "unpack_application_update d s = Inr (x, rest)" for s d x rest
    using that unfolding unpack_application_update_def unpack_reflected_def check_depth_Inr
    by (elim conjE wire_elim) (auto simp: valid_application_update_def)
qed

declare application_update.field_pack [wire_pack] application_update.field_valid [wire_elim]

definition pack_application_delete :: "application_delete_operation \<Rightarrow> bytes" where
  "pack_application_delete x = pack_asset (op_fee x) @ pack_name (apd_author x) @ pack_string (apd_name x)"

definition unpack_application_delete :: "application_delete_operation unpacker" where
  "unpack_application_delete = unpack_reflected (\<lambda>d s.
     field unpack_asset d s (\<lambda>v_op_fee s.
     field unpack_name d s (\<lambda>v_apd_author s.
     field unpack_string d s (\<lambda>v_apd_name s.
       Inr (\<lparr>op_fee = v_op_fee, apd_author = v_apd_author, apd_name = v_apd_name\<rparr>, s)))))"

definition valid_application_delete :: "application_delete_operation \<Rightarrow> bool" where
  "valid_application_delete x \<longleftrightarrow> valid_asset (op_fee x) \<and> valid_name (apd_author x) \<and> valid_string (apd_name x)"

interpretation application_delete: codec pack_application_delete unpack_application_delete valid_application_delete 7
proof
  show "unpack_application_delete d (pack_application_delete x @ rest) = Inr (x, rest)" if "valid_application_delete x" "d + 7 \<le> MAX_RECURSION_DEPTH" for x d rest
    using that by (cases x) (simp add: pack_application_delete_def unpack_application_delete_def valid_application_delete_def unpack_reflected_def wire_pack)
  show "valid_application_delete x \<and> is_bytes rest" if "is_bytes s" "unpack_application_delete d s = Inr (x, rest)" for s d x rest
    using that unfolding unpack_application_delete_def unpack_reflected_def check_depth_Inr
    by (elim conjE wire_elim) (auto simp: valid_application_delete_def)
qed

declare application_delete.field_pack [wire_pack] application_delete.field_valid [wire_elim]

definition pack_buy_application :: "buy_application_operation \<Rightarrow> bytes" where
  "pack_buy_application x = pack_asset (op_fee x) @ pack_name (ba_buyer x) @ pack_int64 (ba_app_id x)"

definition unpack_buy_application :: "buy_application_operation unpacker" where
  "unpack_buy_application = unpack_reflected (\<lambda>d s.
     field unpack_asset d s (\<lambda>v_op_fee s.
     field unpack_name d s (\<lambda>v_ba_buyer s.
     field unpack_int64 d s (\<lambda>v_ba_app_id s.
       Inr (\<lparr>op_fee = v_op_fee, ba_buyer = v_ba_buyer, ba_app_id = v_ba_app_id\<rparr>, s)))))"

definition valid_buy_application :: "buy_application_operation \<Rightarrow> bool" where
  "valid_buy_application x \<longleftrightarrow> valid_asset (op_fee x) \<and> valid_name (ba_buyer x) \<and> valid_int64 (ba_app_id x)"

interpretation buy_application: codec pack_buy_application unpack_buy_application valid_buy_application 7
proof
  show "unpack_buy_application d (pack_buy_application x @ rest) = Inr (x, rest)" if "valid_buy_application x" "d + 7 \<le> MAX_RECURSION_DEPTH" for x d rest
    using that by (cases x) (simp add: pack_buy_application_def unpack_buy_application_def valid_buy_application_def unpack_reflected_def wire_pack)
  show "valid_buy_application x \<and> is_bytes rest" if "is_bytes s" "unpack_buy_application d s = Inr (x, rest)" for s d x rest
    using that unfolding unpack_buy_application_def unpack_reflected_def check_depth_Inr
    by (elim conjE wire_elim) (auto simp: valid_buy_application_def)
qed

declare buy_application.field_pack [wire_pack] buy_application.field_valid [wire_elim]

definition pack_cancel_application_buying :: "cancel_application_buying_operation \<Rightarrow> bytes" where
  "pack_cancel_application_buying x = pack_asset (op_fee x) @ pack_name (ca_app_owner x) @ pack_name (ca_buyer x) @ pack_int64 (ca_app_id x)"

definition unpack_cancel_application_buying :: "cancel_application_buying_operation unpacker" where
  "unpack_cancel_application_buying = unpack_reflected (\<lambda>d s.
     field unpack_asset d s (\<lambda>v_op_fee s.
     field unpack_name d s (\<lambda>v_ca_app_owner s.
     field unpack_name d s (\<lambda>v_ca_buyer s.
     field unpack_int64 d s (\<lambda>v_ca_app_id s.
       Inr (\<lparr>op_fee = v_op_fee, ca_app_owner = v_ca_app_owner, ca_buyer = v_ca_buyer, ca_app_id = v_ca_app_id\<rparr>, s))))))"

definition valid_cancel_application_buying :: "cancel_application_buying_operation \<Rightarrow> bool" where
  "valid_cancel_application_buying x \<longleftrightarrow> valid_asset (op_fee x) \<and> valid_name (ca_app_owner x) \<and> valid_name (ca_buyer x) \<and> valid_int64 (ca_app_id x)"

interpretation cancel_application_buying: codec pack_cancel_application_buying unpack_cancel_application_buying valid_cancel_application_buying 7
proof
  show "unpack_cancel_application_buying d (pack_cancel_application_buying x @ rest) = Inr (x, rest)" if "valid_cancel_application_buying x" "d + 7 \<le> MAX_RECURSION_DEPTH" for x d rest
    using that by (cases x) (simp add: pack_cancel_application_buying_def unpack_cancel_application_buying_def valid_cancel_application_buying_def unpack_reflected_def wire_pack)
  show "valid_cancel_application_buying x \<and> is_bytes rest" if "is_bytes s" "unpack_cancel_application_buying d s = Inr (x, rest)" for s d x rest
    using that unfolding unpack_cancel_application_buying_def unpack_reflected_def check_depth_Inr
    by (elim conjE wire_elim) (auto simp: valid_cancel_application_buying_def)
qed

declare cancel_application_buying.field_pack [wire_pack] cancel_application_buying.field_valid [wire_elim]

definition pack_transfer_from_promotion_pool :: "transfer_from_promotion_pool_operation \<Rightarrow> bytes" where
  "pack_transfer_from_promotion_pool x = pack_asset (op_fee x) @ pack_name (pp_transfer_to x) @ pack_asset (pp_amount x) @ pack_extensions (pp_extensions x)"

definition unpack_transfer_from_promotion_pool :: "abi \<Rightarrow> transfer_from_promotion_pool_operation unpacker" where
  "unpack_transfer_from_promotion_pool a = unpack_reflected (\<lambda>d s.
     field unpack_asset d s (\<lambda>v_op_fee s.
     field unpack_name d s (\<lambda>v_pp_transfer_to s.
     field unpack_asset d s (\<lambda>v_pp_amount s.
     field (unpack_extensions a) d s (\<lambda>v_pp_extensions s.
       Inr (\<lparr>op_fee = v_op_fee, pp_transfer_to = v_pp_transfer_to, pp_amount = v_pp_amount, pp_extensions = v_pp_extensions\<rparr>, s))))))"

definition valid_transfer_from_promotion_pool :: "abi \<Rightarrow> transfer_from_promotion_pool_operation \<Rightarrow> bool" where
  "valid_transfer_from_promotion_pool a x \<longleftrightarrow> valid_asset (op_fee x) \<and> valid_name (pp_transfer_to x) \<and> valid_asset (pp_amount x) \<and> valid_extensions a (pp_extensions x)"

interpretation transfer_from_promotion_pool: codec pack_transfer_from_promotion_pool "unpack_transfer_from_promotion_pool a" "valid_transfer_from_promotion_pool a" 7 for a
proof
  show "unpack_transfer_from_promotion_pool a d (pack_transfer_from_promotion_pool x @ rest) = Inr (x, rest)" if "valid_transfer_from_promotion_pool a x" "d + 7 \<le> MAX_RECURSION_DEPTH" for x d rest
    using that by (cases x) (simp add: pack_transfer_from_promotion_pool_def unpack_transfer_from_promotion_pool_def valid_transfer_from_promotion_pool_def unpack_reflected_def wire_pack)
  show "valid_transfer_from_promotion_pool a x \<and> is_bytes rest" if "is_bytes s" "unpack_transfer_from_promotion_pool a d s = Inr (x, rest)" for s d x rest
    using that unfolding unpack_transfer_from_promotion_pool_def unpack_reflected_def check_depth_Inr
    by (elim conjE wire_elim) (auto simp: valid_transfer_from_promotion_pool_def)
qed

declare transfer_from_promotion_pool.field_pack [wire_pack] transfer_from_promotion_pool.field_valid [wire_elim]

definition pack_sponsor_fees :: "sponsor_fees_operation \<Rightarrow> bytes" where
  "pack_sponsor_fees x = pack_asset (op_fee x) @ pack_name (sf_sponsor x) @ pack_name (sf_sponsored x) @ pack_bool (sf_is_sponsoring x)"

definition unpack_sponsor_fees :: "sponsor_fees_operation unpacker" where
  "unpack_sponsor_fees = unpack_reflected (\<lambda>d s.
     field unpack_asset d s (\<lambda>v_op_fee s.
     field unpack_name d s (\<lambda>v_sf_sponsor s.
     field unpack_name d s (\<lambda>v_sf_sponsored s.
     field unpack_bool d s (\<lambda>v_sf_is_sponsoring s.
       Inr (\<lparr>op_fee = v_op_fee, sf_sponsor = v_sf_sponsor, sf_sponsored = v_sf_sponsored, sf_is_sponsoring = v_sf_is_sponsoring\<rparr>, s))))))"

definition valid_sponsor_fees :: "sponsor_fees_operation \<Rightarrow> bool" where
  "valid_sponsor_fees x \<longleftrightarrow> valid_asset (op_fee x) \<and> valid_name (sf_sponsor x) \<and> valid_name (sf_sponsored x)"

interpretation sponsor_fees: codec pack_sponsor_fees unpack_sponsor_fees valid_sponsor_fees 7
proof
  show "unpack_sponsor_fees d (pack_sponsor_fees x @ rest) = Inr (x, rest)" if "valid_sponsor_fees x" "d + 7 \<le> MAX_RECURSION_DEPTH" for x d rest
    using that by (cases x) (simp add: pack_sponsor_fees_def unpack_sponsor_fees_def valid_sponsor_fees_def unpack_reflected_def wire_pack)
  show "valid_sponsor_fees x \<and> is_bytes rest" if "is_bytes s" "unpack_sponsor_fees d s = Inr (x, rest)" for s d x rest
    using that unfolding unpack_sponsor_fees_def unpack_reflected_def check_depth_Inr
    by (elim conjE wire_elim) (auto simp: valid_sponsor_fees_def)
qed

declare sponsor_fees.field_pack [wire_pack] sponsor_fees.field_valid [wire_elim]

definition pack_admin_witness_update :: "admin_witness_update_operation \<Rightarrow> bytes" where
  "pack_admin_witness_update x = pack_asset (op_fee x) @ pack_name (aw_owner x) @ pack_string (aw_url x) @ pack_public_key (aw_block_signing_key x) @ pack_chain_properties (aw_props x)"

definition unpack_admin_witness_update :: "abi \<Rightarrow> admin_witness_update_operation unpacker" where
  "unpack_admin_witness_update a = unpack_reflected (\<lambda>d s.
     field unpack_asset d s (\<lambda>v_op_fee s.
     field unpack_name d s (\<lambda>v_aw_owner s.
     field unpack_string d s (\<lambda>v_aw_url s.
     field unpack_public_key d s (\<lambda>v_aw_block_signing_key s.
     field (unpack_chain_properties a) d s (\<lambda>v_aw_props s.
       Inr (\<lparr>op_fee = v_op_fee, aw_owner = v_aw_owner, aw_url = v_aw_url, aw_block_signing_key = v_aw_block_signing_key, aw_props = v_aw_props\<rparr>, s)))))))"

definition valid_admin_witness_update :: "abi \<Rightarrow> admin_witness_update_operation \<Rightarrow> bool" where
  "valid_admin_witness_update a x \<longleftrightarrow> valid_asset (op_fee x) \<and> valid_name (aw_owner x) \<and> valid_string (aw_url x) \<and> valid_uint 33 (aw_block_signing_key x) \<and> valid_chain_properties a (aw_props x)"

interpretation admin_witness_update: codec pack_admin_witness_update "unpack_admin_witness_update a" "valid_admin_witness_update a" 13 for a
proof
  show "unpack_admin_witness_update a d (pack_admin_witness_update x @ rest) = Inr (x, rest)" if "valid_admin_witness_update a x" "d + 13 \<le> MAX_RECURSION_DEPTH" for x d rest
    using that by (cases x) (simp add: pack_admin_witness_update_def unpack_admin_witness_update_def valid_admin_witness_update_def unpack_reflected_def wire_pack)
  show "valid_admin_witness_update a x \<and> is_bytes rest" if "is_bytes s" "unpack_admin_witness_update a d s = Inr (x, rest)" for s d x rest
    using that unfolding unpack_admin_witness_update_def unpack_reflected_def check_depth_Inr
    by (elim conjE wire_elim) (auto simp: valid_admin_witness_update_def)
qed

declare admin_witness_update.field_pack [wire_pack] admin_witness_update.field_valid [wire_elim]

end
