(* ===== verification/Wire_Operation.thy ===== *)
theory Wire_Operation
  imports Wire_Operations
begin

text \<open>
  The variant type \<^verbatim>\<open>operation\<close> (\<^verbatim>\<open>operations.hpp\<close>): the tag of an operation is its position in the list of alternatives. The
  virtual operations, which have no fee on the wire, come last.
\<close>

section \<open>Virtual operations\<close>

definition virtual_members :: "virtual_operation \<Rightarrow> bytes" where
  "virtual_members x = (case x of
     Interest_operation n a \<Rightarrow> pack_name n @ pack_asset a
   | Fill_vesting_withdraw_operation f t w dp \<Rightarrow> pack_name f @ pack_name t @ pack_asset w @ pack_asset dp
   | Shutdown_witness_operation n \<Rightarrow> pack_name n
   | Hardfork_operation n \<Rightarrow> pack_uint 4 (int n)
   | Producer_reward_operation n a \<Rightarrow> pack_name n @ pack_asset a
   | Promotion_pool_withdraw_operation n a \<Rightarrow> pack_name n @ pack_asset a)"

definition virtual_which :: "virtual_operation \<Rightarrow> int" where
  "virtual_which x = (case x of Interest_operation _ _ \<Rightarrow> 32 | Fill_vesting_withdraw_operation _ _ _ _ \<Rightarrow> 33 | Shutdown_witness_operation _ \<Rightarrow> 34 | Hardfork_operation _ \<Rightarrow> 35 | Producer_reward_operation _ _ \<Rightarrow> 36 | Promotion_pool_withdraw_operation _ _ \<Rightarrow> 37)"

definition valid_virtual :: "virtual_operation \<Rightarrow> bool" where
  "valid_virtual x = (case x of
     Interest_operation n a \<Rightarrow> valid_name n \<and> valid_asset a
   | Fill_vesting_withdraw_operation f t w dp \<Rightarrow> valid_name f \<and> valid_name t \<and> valid_asset w \<and> valid_asset dp
   | Shutdown_witness_operation n \<Rightarrow> valid_name n
   | Hardfork_operation n \<Rightarrow> valid_uint 4 (int n)
   | Producer_reward_operation n a \<Rightarrow> valid_name n \<and> valid_asset a
   | Promotion_pool_withdraw_operation n a \<Rightarrow> valid_name n \<and> valid_asset a)"

definition unpack_interest :: "operation unpacker" where
  "unpack_interest = unpack_reflected (\<lambda>d s.
     field unpack_name d s (\<lambda>n s. field unpack_asset d s (\<lambda>a s. Inr (Virtual_op (Interest_operation n a), s))))"

definition unpack_fill_vesting_withdraw :: "operation unpacker" where
  "unpack_fill_vesting_withdraw = unpack_reflected (\<lambda>d s.
     field unpack_name d s (\<lambda>f s. field unpack_name d s (\<lambda>t s. field unpack_asset d s (\<lambda>w s. field unpack_asset d s (\<lambda>dp s. Inr (Virtual_op (Fill_vesting_withdraw_operation f t w dp), s))))))"

definition unpack_shutdown_witness :: "operation unpacker" where
  "unpack_shutdown_witness = unpack_reflected (\<lambda>d s.
     field unpack_name d s (\<lambda>n s. Inr (Virtual_op (Shutdown_witness_operation n), s)))"

definition unpack_hardfork :: "operation unpacker" where
  "unpack_hardfork = unpack_reflected (\<lambda>d s.
     field (unpack_uint 4) d s (\<lambda>n s. Inr (Virtual_op (Hardfork_operation (nat n)), s)))"

definition unpack_producer_reward :: "operation unpacker" where
  "unpack_producer_reward = unpack_reflected (\<lambda>d s.
     field unpack_name d s (\<lambda>n s. field unpack_asset d s (\<lambda>a s. Inr (Virtual_op (Producer_reward_operation n a), s))))"

definition unpack_promotion_pool_withdraw :: "operation unpacker" where
  "unpack_promotion_pool_withdraw = unpack_reflected (\<lambda>d s.
     field unpack_name d s (\<lambda>n s. field unpack_asset d s (\<lambda>a s. Inr (Virtual_op (Promotion_pool_withdraw_operation n a), s))))"

section \<open>The variant\<close>

definition alternative :: "('a \<Rightarrow> 'b) \<Rightarrow> 'a unpacker \<Rightarrow> 'b unpacker" where
  "alternative c u d s = field u d s (\<lambda>x rest. Inr (c x, rest))"

definition pack_operation :: "operation \<Rightarrow> bytes" where
  "pack_operation op = (case op of
     Transfer_op x \<Rightarrow> pack_variant 0 (pack_transfer x)
   | Transfer_to_vesting_op x \<Rightarrow> pack_variant 1 (pack_transfer_to_vesting x)
   | Withdraw_vesting_op x \<Rightarrow> pack_variant 2 (pack_withdraw_vesting x)
   | Feed_publish_op x \<Rightarrow> pack_variant 3 (pack_feed_publish x)
   | Account_create_op x \<Rightarrow> pack_variant 4 (pack_account_create x)
   | Account_update_op x \<Rightarrow> pack_variant 5 (pack_account_update x)
   | Account_delete_op x \<Rightarrow> pack_variant 6 (pack_account_delete x)
   | Witness_update_op x \<Rightarrow> pack_variant 7 (pack_witness_update x)
   | Witness_stop_op x \<Rightarrow> pack_variant 8 (pack_witness_stop x)
   | Account_witness_vote_op x \<Rightarrow> pack_variant 9 (pack_account_witness_vote x)
   | Account_witness_proxy_op x \<Rightarrow> pack_variant 10 (pack_account_witness_proxy x)
   | Witness_set_properties_op x \<Rightarrow> pack_variant 11 (pack_witness_set_properties x)
   | Custom_op x \<Rightarrow> pack_variant 12 (pack_custom x)
   | Custom_json_op x \<Rightarrow> pack_variant 13 (pack_custom_json x)
   | Custom_binary_op x \<Rightarrow> pack_variant 14 (pack_custom x)
   | Request_account_recovery_op x \<Rightarrow> pack_variant 15 (pack_request_account_recovery x)
   | Recover_account_op x \<Rightarrow> pack_variant 16 (pack_recover_account x)
   | Change_recovery_account_op x \<Rightarrow> pack_variant 17 (pack_change_recovery_account x)
   | Escrow_transfer_op x \<Rightarrow> pack_variant 18 (pack_escrow_transfer x)
   | Escrow_dispute_op x \<Rightarrow> pack_variant 19 (pack_escrow_dispute x)
   | Escrow_release_op x \<Rightarrow> pack_variant 20 (pack_escrow_release x)
   | Escrow_approve_op x \<Rightarrow> pack_variant 21 (pack_escrow_approve x)
   | Reset_account_op x \<Rightarrow> pack_variant 22 (pack_reset_account x)
   | Set_reset_account_op x \<Rightarrow> pack_variant 23 (pack_set_reset_account x)
   | Application_create_op x \<Rightarrow> pack_variant 24 (pack_application_create x)
   | Application_update_op x \<Rightarrow> pack_variant 25 (pack_application_update x)
   | Application_delete_op x \<Rightarrow> pack_variant 26 (pack_application_delete x)
   | Buy_application_op x \<Rightarrow> pack_variant 27 (pack_buy_application x)
   | Cancel_application_buying_op x \<Rightarrow> pack_variant 28 (pack_cancel_application_buying x)
   | Transfer_from_promotion_pool_op x \<Rightarrow> pack_variant 29 (pack_transfer_from_promotion_pool x)
   | Sponsor_fees_op x \<Rightarrow> pack_variant 30 (pack_sponsor_fees x)
   | Admin_witness_update_op x \<Rightarrow> pack_variant 31 (pack_admin_witness_update x)
   | Virtual_op x \<Rightarrow> pack_variant (virtual_which x) (virtual_members x))"

definition operation_alternatives :: "abi \<Rightarrow> operation unpacker list" where
  "operation_alternatives a =
     [alternative Transfer_op unpack_transfer,
      alternative Transfer_to_vesting_op unpack_transfer_to_vesting,
      alternative Withdraw_vesting_op unpack_withdraw_vesting,
      alternative Feed_publish_op unpack_feed_publish,
      alternative Account_create_op (unpack_account_create a),
      alternative Account_update_op (unpack_account_update a),
      alternative Account_delete_op unpack_account_delete,
      alternative Witness_update_op (unpack_witness_update a),
      alternative Witness_stop_op unpack_witness_stop,
      alternative Account_witness_vote_op unpack_account_witness_vote,
      alternative Account_witness_proxy_op unpack_account_witness_proxy,
      alternative Witness_set_properties_op (unpack_witness_set_properties a),
      alternative Custom_op (unpack_custom a),
      alternative Custom_json_op (unpack_custom_json a),
      alternative Custom_binary_op (unpack_custom a),
      alternative Request_account_recovery_op (unpack_request_account_recovery a),
      alternative Recover_account_op (unpack_recover_account a),
      alternative Change_recovery_account_op (unpack_change_recovery_account a),
      alternative Escrow_transfer_op unpack_escrow_transfer,
      alternative Escrow_dispute_op unpack_escrow_dispute,
      alternative Escrow_release_op unpack_escrow_release,
      alternative Escrow_approve_op unpack_escrow_approve,
      alternative Reset_account_op (unpack_reset_account a),
      alternative Set_reset_account_op unpack_set_reset_account,
      alternative Application_create_op unpack_application_create,
      alternative Application_update_op unpack_application_update,
      alternative Application_delete_op unpack_application_delete,
      alternative Buy_application_op unpack_buy_application,
      alternative Cancel_application_buying_op unpack_cancel_application_buying,
      alternative Transfer_from_promotion_pool_op (unpack_transfer_from_promotion_pool a),
      alternative Sponsor_fees_op unpack_sponsor_fees,
      alternative Admin_witness_update_op (unpack_admin_witness_update a),
      unpack_interest, unpack_fill_vesting_withdraw, unpack_shutdown_witness, unpack_hardfork, unpack_producer_reward, unpack_promotion_pool_withdraw]"

definition unpack_operation :: "abi \<Rightarrow> operation unpacker" where
  "unpack_operation a = unpack_variant (operation_alternatives a)"

definition valid_operation :: "abi \<Rightarrow> operation \<Rightarrow> bool" where
  "valid_operation a op = (case op of
     Transfer_op x \<Rightarrow> valid_transfer x
   | Transfer_to_vesting_op x \<Rightarrow> valid_transfer_to_vesting x
   | Withdraw_vesting_op x \<Rightarrow> valid_withdraw_vesting x
   | Feed_publish_op x \<Rightarrow> valid_feed_publish x
   | Account_create_op x \<Rightarrow> valid_account_create a x
   | Account_update_op x \<Rightarrow> valid_account_update a x
   | Account_delete_op x \<Rightarrow> valid_account_delete x
   | Witness_update_op x \<Rightarrow> valid_witness_update a x
   | Witness_stop_op x \<Rightarrow> valid_witness_stop x
   | Account_witness_vote_op x \<Rightarrow> valid_account_witness_vote x
   | Account_witness_proxy_op x \<Rightarrow> valid_account_witness_proxy x
   | Witness_set_properties_op x \<Rightarrow> valid_witness_set_properties a x
   | Custom_op x \<Rightarrow> valid_custom a x
   | Custom_json_op x \<Rightarrow> valid_custom_json a x
   | Custom_binary_op x \<Rightarrow> valid_custom a x
   | Request_account_recovery_op x \<Rightarrow> valid_request_account_recovery a x
   | Recover_account_op x \<Rightarrow> valid_recover_account a x
   | Change_recovery_account_op x \<Rightarrow> valid_change_recovery_account a x
   | Escrow_transfer_op x \<Rightarrow> valid_escrow_transfer x
   | Escrow_dispute_op x \<Rightarrow> valid_escrow_dispute x
   | Escrow_release_op x \<Rightarrow> valid_escrow_release x
   | Escrow_approve_op x \<Rightarrow> valid_escrow_approve x
   | Reset_account_op x \<Rightarrow> valid_reset_account a x
   | Set_reset_account_op x \<Rightarrow> valid_set_reset_account x
   | Application_create_op x \<Rightarrow> valid_application_create x
   | Application_update_op x \<Rightarrow> valid_application_update x
   | Application_delete_op x \<Rightarrow> valid_application_delete x
   | Buy_application_op x \<Rightarrow> valid_buy_application x
   | Cancel_application_buying_op x \<Rightarrow> valid_cancel_application_buying x
   | Transfer_from_promotion_pool_op x \<Rightarrow> valid_transfer_from_promotion_pool a x
   | Sponsor_fees_op x \<Rightarrow> valid_sponsor_fees x
   | Admin_witness_update_op x \<Rightarrow> valid_admin_witness_update a x
   | Virtual_op x \<Rightarrow> valid_virtual x)"

text \<open>The alternatives one by one: what each yields is well-formed.\<close>

definition sound :: "('a \<Rightarrow> bool) \<Rightarrow> 'a unpacker \<Rightarrow> bool" where
  "sound v u \<longleftrightarrow> (\<forall>s d x rest. is_bytes s \<longrightarrow> u d s = Inr (x, rest) \<longrightarrow> v x \<and> is_bytes rest)"

lemma sound_alternative:
  assumes "codec p u v h" "\<And>x. v x \<Longrightarrow> w (c x)"
  shows "sound w (alternative c u)"
  using assms(2) unfolding sound_def alternative_def by (auto elim!: codec.field_valid [OF assms(1)])

lemma unpack_variant_sound: "list_all (sound v) alts \<Longrightarrow> sound v (unpack_variant alts)"
  by (auto simp: sound_def list_all_iff elim!: unpack_variant_valid) (meson nth_mem)+

lemma sound_virtual:
  "sound (valid_operation a) unpack_interest"
  "sound (valid_operation a) unpack_fill_vesting_withdraw"
  "sound (valid_operation a) unpack_shutdown_witness"
  "sound (valid_operation a) unpack_hardfork"
  "sound (valid_operation a) unpack_producer_reward"
  "sound (valid_operation a) unpack_promotion_pool_withdraw"
  unfolding sound_def unpack_interest_def unpack_fill_vesting_withdraw_def unpack_shutdown_witness_def unpack_hardfork_def unpack_producer_reward_def unpack_promotion_pool_withdraw_def unpack_reflected_def check_depth_Inr
  by (intro allI impI; elim conjE wire_elim; auto simp: valid_operation_def valid_virtual_def valid_uint_def)+

lemma operation_alternatives_sound: "list_all (sound (valid_operation a)) (operation_alternatives a)"
  by (simp add: operation_alternatives_def sound_virtual valid_operation_def
    sound_alternative [OF transfer.codec_axioms]
    sound_alternative [OF transfer_to_vesting.codec_axioms]
    sound_alternative [OF withdraw_vesting.codec_axioms]
    sound_alternative [OF feed_publish.codec_axioms]
    sound_alternative [OF account_create.codec_axioms]
    sound_alternative [OF account_update.codec_axioms]
    sound_alternative [OF account_delete.codec_axioms]
    sound_alternative [OF witness_update.codec_axioms]
    sound_alternative [OF witness_stop.codec_axioms]
    sound_alternative [OF account_witness_vote.codec_axioms]
    sound_alternative [OF account_witness_proxy.codec_axioms]
    sound_alternative [OF witness_set_properties.codec_axioms]
    sound_alternative [OF custom.codec_axioms]
    sound_alternative [OF custom_json.codec_axioms]
    sound_alternative [OF request_account_recovery.codec_axioms]
    sound_alternative [OF recover_account.codec_axioms]
    sound_alternative [OF change_recovery_account.codec_axioms]
    sound_alternative [OF escrow_transfer.codec_axioms]
    sound_alternative [OF escrow_dispute.codec_axioms]
    sound_alternative [OF escrow_release.codec_axioms]
    sound_alternative [OF escrow_approve.codec_axioms]
    sound_alternative [OF reset_account.codec_axioms]
    sound_alternative [OF set_reset_account.codec_axioms]
    sound_alternative [OF application_create.codec_axioms]
    sound_alternative [OF application_update.codec_axioms]
    sound_alternative [OF application_delete.codec_axioms]
    sound_alternative [OF buy_application.codec_axioms]
    sound_alternative [OF cancel_application_buying.codec_axioms]
    sound_alternative [OF transfer_from_promotion_pool.codec_axioms]
    sound_alternative [OF sponsor_fees.codec_axioms]
    sound_alternative [OF admin_witness_update.codec_axioms])

lemma unpack_virtual:
  assumes "valid_virtual x" "d + 10 \<le> MAX_RECURSION_DEPTH"
  shows "unpack_variant (operation_alternatives a) d (pack_variant (virtual_which x) (virtual_members x) @ rest) = Inr (Virtual_op x, rest)"
  using assms
  by (cases x; simp add: valid_virtual_def virtual_which_def virtual_members_def unpack_variant_pack operation_alternatives_def
    unpack_reflected_def wire_pack unpack_interest_def unpack_fill_vesting_withdraw_def unpack_shutdown_witness_def unpack_hardfork_def unpack_producer_reward_def unpack_promotion_pool_withdraw_def)

interpretation operation: codec pack_operation "unpack_operation a" "valid_operation a" 15 for a
proof
  fix x d rest
  assume "valid_operation a x" "d + 15 \<le> MAX_RECURSION_DEPTH"
  then show "unpack_operation a d (pack_operation x @ rest) = Inr (x, rest)"
    unfolding unpack_operation_def using unpack_virtual
    by (cases x; simp add: pack_operation_def valid_operation_def unpack_variant_pack operation_alternatives_def alternative_def wire_pack)
next
  fix s d x rest
  assume "is_bytes s" "unpack_operation a d s = Inr (x, rest)"
  then show "valid_operation a x \<and> is_bytes rest"
    using unpack_variant_sound [OF operation_alternatives_sound] unfolding unpack_operation_def sound_def by blast
qed

declare operation.field_pack [wire_pack] operation.field_valid [wire_elim]

end
