(* ===== verification/Wire_Blocks.thy ===== *)
theory Wire_Blocks
  imports Wire_Operation Block_Log
begin

text \<open>
  The binary form of transactions and blocks (\<^verbatim>\<open>transaction.hpp\<close>, \<^verbatim>\<open>block_header.hpp\<close>, \<^verbatim>\<open>block.hpp\<close>, \<^verbatim>\<open>version.hpp\<close>), and what hashes and
  signatures are computed from (\<^verbatim>\<open>transaction.cpp\<close>, \<^verbatim>\<open>block.cpp\<close>). A well-formed block is nested 21 levels deep at most, which the recursion
  limit of 25 admits. With the codec \<open>wire_codec\<close> the assumption of the block log on its codec is discharged, and the functions that are arguments
  in \<open>Blocks\<close> and \<open>Apply_Operation\<close> are given over the bytes.
\<close>

section \<open>Transactions\<close>

definition pack_operations :: "operation list \<Rightarrow> bytes" where "pack_operations = pack_container pack_operation"

definition unpack_operations :: "abi \<Rightarrow> operation list unpacker" where
  "unpack_operations a = unpack_vector (sizeof_static_variant a) (unpack_operation a)"

definition valid_operations :: "abi \<Rightarrow> operation list \<Rightarrow> bool" where
  "valid_operations a = valid_container (\<lambda>_. True) (sizeof_static_variant a) (valid_operation a)"

interpretation operations: codec pack_operations "unpack_operations a" "valid_operations a" 16 for a
  unfolding pack_operations_def unpack_operations_def valid_operations_def
  by (rule codec_height [OF vector_codec [OF operation.codec_axioms]]) simp

declare operations.field_pack [wire_pack] operations.field_valid [wire_elim]

definition pack_signatures :: "int list \<Rightarrow> bytes" where "pack_signatures = pack_container (pack_array 65)"

definition unpack_signatures :: "abi \<Rightarrow> int list unpacker" where
  "unpack_signatures a = unpack_vector (sizeof_signature_type a) (unpack_array 65)"

definition valid_signatures :: "abi \<Rightarrow> int list \<Rightarrow> bool" where
  "valid_signatures a = valid_container (\<lambda>_. True) (sizeof_signature_type a) (valid_uint 65)"

interpretation signatures: codec pack_signatures "unpack_signatures a" "valid_signatures a" 1 for a
  unfolding pack_signatures_def unpack_signatures_def valid_signatures_def
  by (rule codec_height [OF vector_codec [OF array_codec [of 65]]]) simp

declare signatures.field_pack [wire_pack] signatures.field_valid [wire_elim]

definition pack_signed_transaction :: "signed_transaction \<Rightarrow> bytes" where
  "pack_signed_transaction x = pack_uint 2 (ref_block_num x) @ pack_uint 4 (ref_block_prefix x) @ pack_time_point_sec (trx_expiration x) @ pack_operations (trx_operations x) @ pack_extensions (trx_extensions x) @ pack_signatures (signatures x)"

definition unpack_signed_transaction :: "abi \<Rightarrow> signed_transaction unpacker" where
  "unpack_signed_transaction a = unpack_reflected (\<lambda>d s.
     field (unpack_uint 2) d s (\<lambda>v_ref_block_num s.
     field (unpack_uint 4) d s (\<lambda>v_ref_block_prefix s.
     field unpack_time_point_sec d s (\<lambda>v_trx_expiration s.
     field (unpack_operations a) d s (\<lambda>v_trx_operations s.
     field (unpack_extensions a) d s (\<lambda>v_trx_extensions s.
     field (unpack_signatures a) d s (\<lambda>v_signatures s.
       Inr (\<lparr>ref_block_num = v_ref_block_num, ref_block_prefix = v_ref_block_prefix, trx_expiration = v_trx_expiration, trx_operations = v_trx_operations, trx_extensions = v_trx_extensions, signatures = v_signatures\<rparr>, s))))))))"

definition valid_signed_transaction :: "abi \<Rightarrow> signed_transaction \<Rightarrow> bool" where
  "valid_signed_transaction a x \<longleftrightarrow> valid_uint 2 (ref_block_num x) \<and> valid_uint 4 (ref_block_prefix x) \<and> valid_uint 4 (trx_expiration x) \<and> valid_operations a (trx_operations x) \<and> valid_extensions a (trx_extensions x) \<and> valid_signatures a (signatures x)"

interpretation signed_transaction: codec pack_signed_transaction "unpack_signed_transaction a" "valid_signed_transaction a" 18 for a
proof
  show "unpack_signed_transaction a d (pack_signed_transaction x @ rest) = Inr (x, rest)" if "valid_signed_transaction a x" "d + 18 \<le> MAX_RECURSION_DEPTH" for x d rest
    using that by (cases x) (simp add: pack_signed_transaction_def unpack_signed_transaction_def valid_signed_transaction_def unpack_reflected_def wire_pack)
  show "valid_signed_transaction a x \<and> is_bytes rest" if "is_bytes s" "unpack_signed_transaction a d s = Inr (x, rest)" for s d x rest
    using that unfolding unpack_signed_transaction_def unpack_reflected_def check_depth_Inr
    by (elim conjE wire_elim) (auto simp: valid_signed_transaction_def)
qed

declare signed_transaction.field_pack [wire_pack] signed_transaction.field_valid [wire_elim]

text \<open>The transaction without its signatures.\<close>

definition pack_transaction :: "signed_transaction \<Rightarrow> bytes" where
  "pack_transaction t = pack_uint 2 (ref_block_num t) @ pack_uint 4 (ref_block_prefix t) @ pack_time_point_sec (trx_expiration t) @
     pack_operations (trx_operations t) @ pack_extensions (trx_extensions t)"

section \<open>Blocks\<close>

text \<open>A \<^verbatim>\<open>version\<close> is a structure with one member; a \<^verbatim>\<open>hardfork_version\<close> is one derived from it. Reading one does not clear the revision.\<close>

definition pack_version :: "version \<Rightarrow> bytes" where "pack_version v = pack_uint 4 v"

definition unpack_version :: "version unpacker" where "unpack_version = unpack_reflected (unpack_uint 4)"

interpretation version: codec pack_version unpack_version "valid_uint 4" 3
  unfolding pack_version_def [abs_def] unpack_version_def by (rule codec_height [OF reflected_codec [OF uint_codec [of 4]]]) simp

declare version.field_pack [wire_pack] version.field_valid [wire_elim]

definition pack_header_extension :: "block_header_extension \<Rightarrow> bytes" where
  "pack_header_extension x = (case x of
     Ext_void \<Rightarrow> pack_variant 0 []
   | Ext_version v \<Rightarrow> pack_variant 1 (pack_version v)
   | Ext_hardfork_vote v t \<Rightarrow> pack_variant 2 (pack_version v @ pack_time_point_sec t))"

definition unpack_header_extension :: "block_header_extension unpacker" where
  "unpack_header_extension = unpack_variant
     [unpack_reflected (\<lambda>d s. Inr (Ext_void, s)),
      alternative Ext_version unpack_version,
      unpack_reflected (\<lambda>d s. field unpack_version d s (\<lambda>v s. field unpack_time_point_sec d s (\<lambda>t s. Inr (Ext_hardfork_vote v t, s))))]"

definition valid_header_extension :: "block_header_extension \<Rightarrow> bool" where
  "valid_header_extension x = (case x of
     Ext_void \<Rightarrow> True
   | Ext_version v \<Rightarrow> valid_uint 4 v
   | Ext_hardfork_vote v t \<Rightarrow> valid_uint 4 v \<and> valid_uint 4 t)"

definition header_which :: "block_header_extension \<Rightarrow> int" where
  "header_which x = (case x of Ext_void \<Rightarrow> 0 | Ext_version _ \<Rightarrow> 1 | Ext_hardfork_vote _ _ \<Rightarrow> 2)"

lemma header_alternatives_sound:
  "sound valid_header_extension (unpack_reflected (\<lambda>d s. Inr (Ext_void, s)))"
  "sound valid_header_extension (alternative Ext_version unpack_version)"
  "sound valid_header_extension (unpack_reflected (\<lambda>d s. field unpack_version d s (\<lambda>v s.
     field unpack_time_point_sec d s (\<lambda>t s. Inr (Ext_hardfork_vote v t, s)))))"
proof -
  show "sound valid_header_extension (alternative Ext_version unpack_version)"
    by (rule sound_alternative [OF version.codec_axioms]) (simp add: valid_header_extension_def)
qed (auto simp: sound_def unpack_reflected_def valid_header_extension_def result_simps elim!: wire_elim)

interpretation header_extension: codec pack_header_extension unpack_header_extension valid_header_extension 7
proof
  fix x d rest
  assume "valid_header_extension x" "d + 7 \<le> MAX_RECURSION_DEPTH"
  then show "unpack_header_extension d (pack_header_extension x @ rest) = Inr (x, rest)"
    by (cases x) (simp_all add: unpack_header_extension_def pack_header_extension_def valid_header_extension_def unpack_variant_pack
        unpack_reflected_def alternative_def wire_pack)
next
  fix s d x rest
  assume "is_bytes s" "unpack_header_extension d s = Inr (x, rest)"
  moreover have "sound valid_header_extension unpack_header_extension"
    unfolding unpack_header_extension_def by (rule unpack_variant_sound) (simp add: header_alternatives_sound)
  ultimately show "valid_header_extension x \<and> is_bytes rest" unfolding sound_def by blast
qed

definition pack_header_extensions :: "block_header_extension list \<Rightarrow> bytes" where "pack_header_extensions = pack_container pack_header_extension"

definition unpack_header_extensions :: "abi \<Rightarrow> block_header_extension list unpacker" where
  "unpack_header_extensions a = unpack_flat header_which (sizeof_static_variant a) unpack_header_extension"

definition valid_header_extensions :: "abi \<Rightarrow> block_header_extension list \<Rightarrow> bool" where
  "valid_header_extensions a = valid_container (flat_sorted header_which) (sizeof_static_variant a) valid_header_extension"

interpretation header_extensions: codec pack_header_extensions "unpack_header_extensions a" "valid_header_extensions a" 8 for a
  unfolding pack_header_extensions_def unpack_header_extensions_def valid_header_extensions_def
  by (rule codec_height [OF flat_codec [OF header_extension.codec_axioms]]) simp

declare header_extensions.field_pack [wire_pack] header_extensions.field_valid [wire_elim]

definition pack_transactions :: "signed_transaction list \<Rightarrow> bytes" where "pack_transactions = pack_container pack_signed_transaction"

definition unpack_transactions :: "abi \<Rightarrow> signed_transaction list unpacker" where
  "unpack_transactions a = unpack_vector (sizeof_signed_transaction a) (unpack_signed_transaction a)"

definition valid_transactions :: "abi \<Rightarrow> signed_transaction list \<Rightarrow> bool" where
  "valid_transactions a = valid_container (\<lambda>_. True) (sizeof_signed_transaction a) (valid_signed_transaction a)"

interpretation transactions: codec pack_transactions "unpack_transactions a" "valid_transactions a" 19 for a
  unfolding pack_transactions_def unpack_transactions_def valid_transactions_def
  by (rule codec_height [OF vector_codec [OF signed_transaction.codec_axioms]]) simp

declare transactions.field_pack [wire_pack] transactions.field_valid [wire_elim]

definition pack_signed_block :: "signed_block \<Rightarrow> bytes" where
  "pack_signed_block x = pack_uint 20 (previous x) @ pack_time_point_sec (timestamp x) @ pack_string (header_witness x) @ pack_uint 20 (transaction_merkle_root x) @ pack_header_extensions (blk_extensions x) @ pack_array 65 (witness_signature x) @ pack_transactions (transactions x)"

definition unpack_signed_block :: "abi \<Rightarrow> signed_block unpacker" where
  "unpack_signed_block a = unpack_reflected (\<lambda>d s.
     field (unpack_uint 20) d s (\<lambda>v_previous s.
     field unpack_time_point_sec d s (\<lambda>v_timestamp s.
     field unpack_string d s (\<lambda>v_header_witness s.
     field (unpack_uint 20) d s (\<lambda>v_transaction_merkle_root s.
     field (unpack_header_extensions a) d s (\<lambda>v_blk_extensions s.
     field (unpack_array 65) d s (\<lambda>v_witness_signature s.
     field (unpack_transactions a) d s (\<lambda>v_transactions s.
       Inr (\<lparr>previous = v_previous, timestamp = v_timestamp, header_witness = v_header_witness, transaction_merkle_root = v_transaction_merkle_root, blk_extensions = v_blk_extensions, witness_signature = v_witness_signature, transactions = v_transactions\<rparr>, s)))))))))"

definition valid_signed_block :: "abi \<Rightarrow> signed_block \<Rightarrow> bool" where
  "valid_signed_block a x \<longleftrightarrow> valid_uint 20 (previous x) \<and> valid_uint 4 (timestamp x) \<and> valid_string (header_witness x) \<and> valid_uint 20 (transaction_merkle_root x) \<and> valid_header_extensions a (blk_extensions x) \<and> valid_uint 65 (witness_signature x) \<and> valid_transactions a (transactions x)"

interpretation signed_block: codec pack_signed_block "unpack_signed_block a" "valid_signed_block a" 21 for a
proof
  show "unpack_signed_block a d (pack_signed_block x @ rest) = Inr (x, rest)" if "valid_signed_block a x" "d + 21 \<le> MAX_RECURSION_DEPTH" for x d rest
    using that by (cases x) (simp add: pack_signed_block_def unpack_signed_block_def valid_signed_block_def unpack_reflected_def wire_pack)
  show "valid_signed_block a x \<and> is_bytes rest" if "is_bytes s" "unpack_signed_block a d s = Inr (x, rest)" for s d x rest
    using that unfolding unpack_signed_block_def unpack_reflected_def check_depth_Inr
    by (elim conjE wire_elim) (auto simp: valid_signed_block_def)
qed

declare signed_block.field_pack [wire_pack] signed_block.field_valid [wire_elim]

text \<open>The parts of a block that are hashed.\<close>

definition pack_block_header :: "signed_block \<Rightarrow> bytes" where
  "pack_block_header b = pack_uint 20 (previous b) @ pack_time_point_sec (timestamp b) @ pack_string (header_witness b) @
     pack_uint 20 (transaction_merkle_root b) @ pack_header_extensions (blk_extensions b)"

definition pack_signed_block_header :: "signed_block \<Rightarrow> bytes" where
  "pack_signed_block_header b = pack_block_header b @ pack_array 65 (witness_signature b)"

section \<open>Hashes and signatures\<close>

text \<open>The hash functions and the recovery of a key from a signature are those of OpenSSL and secp256k1. A hash is the number of its bytes,
  lowest first.\<close>

record crypto =
  cr_sha256 :: "bytes \<Rightarrow> int"
  cr_sha224 :: "bytes \<Rightarrow> int"
  cr_ripemd160 :: "bytes \<Rightarrow> int"
  cr_recover_key :: "int \<Rightarrow> int \<Rightarrow> bool \<Rightarrow> public_key_type result"
  cr_sign_compact :: "int \<Rightarrow> int \<Rightarrow> bool \<Rightarrow> int"

definition transaction_digest :: "crypto \<Rightarrow> signed_transaction \<Rightarrow> int" where
  "transaction_digest c t = cr_sha256 c (pack_transaction t)"

definition signed_transaction_merkle_digest :: "crypto \<Rightarrow> signed_transaction \<Rightarrow> int" where
  "signed_transaction_merkle_digest c t = cr_sha256 c (pack_signed_transaction t)"

text \<open>The first 20 bytes of the digest.\<close>

definition transaction_id :: "crypto \<Rightarrow> signed_transaction \<Rightarrow> transaction_id_type" where
  "transaction_id c t = from_le (take 20 (le_bytes 32 (transaction_digest c t)))"

definition sig_digest_bytes :: "int \<Rightarrow> signed_transaction \<Rightarrow> bytes" where
  "sig_digest_bytes chain_id t = pack_uint 32 chain_id @ pack_transaction t"

definition transaction_sig_digest :: "crypto \<Rightarrow> int \<Rightarrow> signed_transaction \<Rightarrow> int" where
  "transaction_sig_digest c chain_id t = cr_sha256 c (sig_digest_bytes chain_id t)"

definition transaction_sign :: "crypto \<Rightarrow> int \<Rightarrow> int \<Rightarrow> bool \<Rightarrow> signed_transaction \<Rightarrow> signed_transaction" where
  "transaction_sign c key chain_id canon t =
     t\<lparr>signatures := signatures t @ [cr_sign_compact c key (transaction_sig_digest c chain_id t) canon]\<rparr>"

text \<open>The overload for constant transactions packs \<^verbatim>\<open>*this\<close>, which is the signed transaction.\<close>

definition const_sign_bytes :: "int \<Rightarrow> signed_transaction \<Rightarrow> bytes" where
  "const_sign_bytes chain_id t = pack_uint 32 chain_id @ pack_signed_transaction t"

definition transaction_const_sign :: "crypto \<Rightarrow> int \<Rightarrow> int \<Rightarrow> bool \<Rightarrow> signed_transaction \<Rightarrow> int" where
  "transaction_const_sign c key chain_id canon t = cr_sign_compact c key (cr_sha256 c (const_sign_bytes chain_id t)) canon"

definition block_digest :: "crypto \<Rightarrow> signed_block \<Rightarrow> int" where
  "block_digest c b = cr_sha256 c (pack_block_header b)"

definition block_recover_signee :: "crypto \<Rightarrow> signed_block \<Rightarrow> bool \<Rightarrow> public_key_type result" where
  "block_recover_signee c b canon = cr_recover_key c (witness_signature b) (block_digest c b) canon"

definition block_sign :: "crypto \<Rightarrow> int \<Rightarrow> bool \<Rightarrow> signed_block \<Rightarrow> signed_block" where
  "block_sign c key canon b = b\<lparr>witness_signature := cr_sign_compact c key (block_digest c b) canon\<rparr>"

text \<open>The functions that \<open>Blocks\<close> takes as arguments.\<close>

definition wire_hashes :: "crypto \<Rightarrow> block_hashes" where
  "wire_hashes c = \<lparr>sha224 = \<lambda>b. cr_sha224 c (pack_signed_block_header b), merkle_digest = signed_transaction_merkle_digest c,
     hash_pair = \<lambda>x y. cr_sha256 c (pack_pair (pack_uint 32) (pack_uint 32) (x, y)), checksum = \<lambda>x. cr_ripemd160 c (le_bytes 32 x),
     block_signee = block_recover_signee c, block_pack_size = raw_pack_size pack_signed_block\<rparr>"

definition wire_codec :: "abi \<Rightarrow> block_codec" where
  "wire_codec a = \<lparr>pack_block = pack_signed_block,
     unpack_block = \<lambda>s. case unpack_signed_block a 0 s of Inl _ \<Rightarrow> None | Inr r \<Rightarrow> Some r\<rparr>"

section \<open>What travels arrives\<close>

text \<open>What the block log relies on holds for the codec of the source.\<close>

lemma wire_codec_ok: "\<forall>b \<in> set bs. valid_signed_block a b \<Longrightarrow> codec_ok (wire_codec a) bs"
  by (auto simp: codec_ok_def wire_codec_def signed_block.unpack_pack MAX_RECURSION_DEPTH_def)

text \<open>C9. Blocks survive the wire: a well-formed block, whatever operations it carries, is recovered from its binary form, and the bytes
  after it are left; the nesting of a block never reaches the recursion limit.\<close>

theorem block_roundtrip:
  assumes "valid_signed_block a b"
  shows "unpack_signed_block a 0 (pack_signed_block b @ rest) = Inr (b, rest)"
  using assms by (rule signed_block.unpack_pack) (simp add: MAX_RECURSION_DEPTH_def)

text \<open>C10. Whatever bytes arrive, a block that can be read from them is well-formed: every number fits its type, every name is the name of some text,
  sets and maps are sorted without duplicates and no container exceeds the limit on allocations, down to the last operation.\<close>

theorem unpacked_block_is_wellformed:
  assumes "is_bytes s" "unpack_signed_block a d s = Inr (b, rest)"
  shows "valid_signed_block a b \<and> is_bytes rest"
  using assms by (rule signed_block.unpack_valid)

text \<open>C12. The log returns what was written, with the binary format of the source: after any sequence of appended well-formed blocks,
  reading by number gives exactly the block of that number, and beyond the last one nothing.\<close>

theorem log_keeps_blocks:
  assumes "efold (append_block (wire_codec a) hs) bs empty_block_log = Inr bl" "\<forall>b \<in> set bs. valid_signed_block a b"
    "fits (wire_codec a) bs"
  shows "(\<forall>i < length bs. read_block_by_num (wire_codec a) (int i + 1) bl = Inr (Some (bs ! i))) \<and>
    (\<forall>n > int (length bs). read_block_by_num (wire_codec a) n bl = Inr None)"
  using assms(1) wire_codec_ok [OF assms(2)] assms(3) by (rule block_log_roundtrip)

text \<open>The members that are signed, then the signatures.\<close>

lemma pack_signed_split: "pack_signed_transaction t = pack_transaction t @ pack_signatures (signatures t)"
  by (simp add: pack_signed_transaction_def pack_transaction_def)

lemma pack_transaction_signatures [simp]: "pack_transaction (t\<lparr>signatures := sg\<rparr>) = pack_transaction t"
  by (simp add: pack_transaction_def)

lemma valid_no_signatures: "valid_signed_transaction a t \<Longrightarrow> valid_signed_transaction a (t\<lparr>signatures := []\<rparr>)"
  by (simp add: valid_signed_transaction_def valid_signatures_def valid_container_def MAX_ARRAY_ALLOC_SIZE_def)

text \<open>C11. A signature binds all it should: two well-formed transactions for which the same bytes are signed are for the same chain and
  differ in their signatures only. A signature cannot be moved to another chain or transaction without a collision of the hash.\<close>

theorem signed_bytes_bind:
  assumes "sig_digest_bytes i t = sig_digest_bytes j u" "valid_uint 32 i" "valid_uint 32 j"
    "valid_signed_transaction a t" "valid_signed_transaction a u"
  shows "i = j \<and> t\<lparr>signatures := []\<rparr> = u\<lparr>signatures := []\<rparr>"
proof -
  have "i = j \<and> pack_transaction t = pack_transaction u"
    using codec.prefix_free [OF uint_codec assms(2,3)] assms(1) by (simp add: sig_digest_bytes_def MAX_RECURSION_DEPTH_def)
  moreover from this have "pack_signed_transaction (t\<lparr>signatures := []\<rparr>) @ [] = pack_signed_transaction (u\<lparr>signatures := []\<rparr>) @ []"
    by (simp add: pack_signed_split)
  ultimately show ?thesis
    using signed_transaction.prefix_free [OF valid_no_signatures [OF assms(4)] valid_no_signatures [OF assms(5)]]
    by (simp add: MAX_RECURSION_DEPTH_def)
qed

text \<open>The constant overload of \<^verbatim>\<open>sign\<close> signs other bytes than the ones a signature is checked against, for every transaction.\<close>

theorem const_sign_signs_other_bytes: "const_sign_bytes chain_id t \<noteq> sig_digest_bytes chain_id t"
proof -
  have "pack_signatures xs \<noteq> []" for xs
    unfolding pack_signatures_def pack_container_def pack_unsigned_int_def by (subst pack_varint.simps) (simp add: Let_def)
  then show ?thesis by (simp add: const_sign_bytes_def sig_digest_bytes_def pack_signed_split)
qed

text \<open>The fee that \<^verbatim>\<open>change_recovery_account_operation\<close> declares itself does not travel: whatever the sender sets, the receiver reads a fee of
  zero, and the fee of the base structure in its place is kept.\<close>

theorem change_recovery_fee_lost:
  assumes "valid_change_recovery_account a (x\<lparr>ch_fee := Asset 0 SOPHIATX_SYMBOL\<rparr>)"
  shows "unpack_operation a 0 (pack_operation (Change_recovery_account_op x)) =
    Inr (Change_recovery_account_op (x\<lparr>ch_fee := Asset 0 SOPHIATX_SYMBOL\<rparr>), [])"
proof -
  let ?y = "x\<lparr>ch_fee := Asset 0 SOPHIATX_SYMBOL\<rparr>"
  have "pack_operation (Change_recovery_account_op x) = pack_operation (Change_recovery_account_op ?y)"
    by (simp add: pack_operation_def pack_change_recovery_account_def)
  moreover have "valid_operation a (Change_recovery_account_op ?y)" using assms by (simp add: valid_operation_def)
  ultimately show ?thesis
    using operation.unpack_pack [of a "Change_recovery_account_op ?y" 0 "[]"] by (simp add: MAX_RECURSION_DEPTH_def)
qed

section \<open>A block with two operations\<close>

definition wire_sample_trx :: signed_transaction where
  "wire_sample_trx = \<lparr>ref_block_num = 7, ref_block_prefix = 1234567890, trx_expiration = 1531512900,
     trx_operations =
       [Transfer_op \<lparr>op_fee = Asset 10000 SOPHIATX_SYMBOL, tr_from = SOPHIATX_INIT_MINER_NAME, tr_to = SOPHIATX_MINER_ACCOUNT,
          tr_amount = Asset 5000000 SOPHIATX_SYMBOL, tr_memo = ''memo''\<rparr>,
        Account_update_op \<lparr>op_fee = Asset 0 SOPHIATX_SYMBOL, up_account = SOPHIATX_MINER_ACCOUNT,
          up_owner = Some \<lparr>weight_threshold = 1, account_auths = [(SOPHIATX_INIT_MINER_NAME, 1)], key_auths = [(5, 1), (9, 2)]\<rparr>,
          up_active = None, up_memo_key = 17, up_json_metadata = []\<rparr>],
     trx_extensions = [], signatures = [3]\<rparr>"

definition wire_sample :: "block_id_type \<Rightarrow> signed_block" where
  "wire_sample p = \<lparr>previous = p, timestamp = 1531512803, header_witness = ''initminer'', transaction_merkle_root = 99,
     blk_extensions = [Ext_version 16973824, Ext_hardfork_vote 16842752 1531512800], witness_signature = 1,
     transactions = [wire_sample_trx]\<rparr>"

lemma wire_sample_valid: "valid_signed_block x86_64 (wire_sample 0)"
  by code_simp

theorem block_roundtrip_witness:
  "unpack_signed_block x86_64 0 (pack_signed_block (wire_sample 0) @ [1, 2]) = Inr (wire_sample 0, [1, 2])"
  using wire_sample_valid by (rule block_roundtrip)

lemma wire_sample_bytes: "is_bytes (pack_signed_block (wire_sample 0))"
  by code_simp

theorem unpacked_block_is_wellformed_witness: "valid_signed_block x86_64 (wire_sample 0) \<and> is_bytes []"
  using unpacked_block_is_wellformed [OF wire_sample_bytes, of x86_64 0 "wire_sample 0" "[]"]
    signed_block.unpack_pack [OF wire_sample_valid, of 0 "[]"]
  by (simp add: MAX_RECURSION_DEPTH_def)

definition wire_empty :: "block_id_type \<Rightarrow> signed_block" where
  "wire_empty p = (wire_sample p)\<lparr>transactions := []\<rparr>"

lemma wire_empty_log:
  "valid_signed_block x86_64 (wire_empty 0) \<and> valid_signed_block x86_64 (wire_empty 16777216) \<and>
   fits (wire_codec x86_64) [wire_empty 0, wire_empty 16777216] \<and>
   succeeds (efold (append_block (wire_codec x86_64) sample_hashes) [wire_empty 0, wire_empty 16777216] empty_block_log) (\<lambda>_. True)"
  by code_simp

theorem log_keeps_blocks_witness:
  "succeeds (efold (append_block (wire_codec x86_64) sample_hashes) [wire_empty 0, wire_empty 16777216] empty_block_log)
     (\<lambda>bl. read_block_by_num (wire_codec x86_64) 2 bl = Inr (Some (wire_empty 16777216)))"
proof (rule succeeds_mono [OF wire_empty_log [THEN conjunct2, THEN conjunct2, THEN conjunct2]])
  fix bl assume "efold (append_block (wire_codec x86_64) sample_hashes) [wire_empty 0, wire_empty 16777216] empty_block_log = Inr bl"
  from log_keeps_blocks [OF this] wire_empty_log
  have "\<forall>i < 2. read_block_by_num (wire_codec x86_64) (int i + 1) bl = Inr (Some ([wire_empty 0, wire_empty 16777216] ! i))" by simp
  from spec [OF this, of 1] show "read_block_by_num (wire_codec x86_64) 2 bl = Inr (Some (wire_empty 16777216))" by simp
qed

lemma wire_sample_trx_valid: "valid_signed_transaction x86_64 wire_sample_trx"
  by code_simp

theorem signed_bytes_bind_witness:
  "sig_digest_bytes 5 wire_sample_trx = sig_digest_bytes 5 (wire_sample_trx\<lparr>signatures := []\<rparr>) \<and>
   wire_sample_trx\<lparr>signatures := []\<rparr> = wire_sample_trx\<lparr>signatures := []\<rparr>\<lparr>signatures := []\<rparr>"
  using signed_bytes_bind [OF _ _ _ wire_sample_trx_valid valid_no_signatures [OF wire_sample_trx_valid], of 5 5]
  by (simp add: sig_digest_bytes_def valid_uint_def)

theorem change_recovery_fee_lost_witness:
  "unpack_operation x86_64 0 (pack_operation (Change_recovery_account_op \<lparr>op_fee = Asset 7 SOPHIATX_SYMBOL, ch_fee = Asset 9 SOPHIATX_SYMBOL,
     ch_account_to_recover = SOPHIATX_MINER_ACCOUNT, ch_new_recovery_account = SOPHIATX_INIT_MINER_NAME, ch_extensions = []\<rparr>)) =
   Inr (Change_recovery_account_op \<lparr>op_fee = Asset 7 SOPHIATX_SYMBOL, ch_fee = Asset 0 SOPHIATX_SYMBOL,
     ch_account_to_recover = SOPHIATX_MINER_ACCOUNT, ch_new_recovery_account = SOPHIATX_INIT_MINER_NAME, ch_extensions = []\<rparr>, [])"
proof -
  have "valid_change_recovery_account x86_64 \<lparr>op_fee = Asset 7 SOPHIATX_SYMBOL, ch_fee = Asset 0 SOPHIATX_SYMBOL,
     ch_account_to_recover = SOPHIATX_MINER_ACCOUNT, ch_new_recovery_account = SOPHIATX_INIT_MINER_NAME, ch_extensions = []\<rparr>"
    by code_simp
  then show ?thesis using change_recovery_fee_lost [of x86_64 "\<lparr>op_fee = Asset 7 SOPHIATX_SYMBOL, ch_fee = Asset 9 SOPHIATX_SYMBOL,
     ch_account_to_recover = SOPHIATX_MINER_ACCOUNT, ch_new_recovery_account = SOPHIATX_INIT_MINER_NAME, ch_extensions = []\<rparr>"] by simp
qed

end
