(* ===== verification/Text_Forms.thy ===== *)
theory Text_Forms
  imports Asset Version Config
begin

text \<open>
  The text of versions and amounts (\<^verbatim>\<open>libraries/protocol/version.cpp\<close>, \<^verbatim>\<open>asset.cpp\<close>). Versions are read with a
  \<^verbatim>\<open>std::stringstream\<close>, modelled with its failure and end-of-file bits; amounts are read through \<^verbatim>\<open>double\<close>: the conversion of text and the
  rounding of a product are arguments, of which the usual bound on the relative error is assumed.
\<close>

section \<open>Decimal numbers\<close>

definition digit_char :: "int \<Rightarrow> char" where "digit_char d = char_of (nat (d + 48))"

definition is_digit :: "char \<Rightarrow> bool" where
  "is_digit c \<longleftrightarrow> 48 \<le> (of_char c :: int) \<and> (of_char c :: int) \<le> 57"

function to_dec :: "int \<Rightarrow> string" where
  "to_dec n = (if n < 10 then [digit_char n] else to_dec (n div 10) @ [digit_char (n mod 10)])"
  by pat_completeness auto
termination
  by (relation "measure nat") auto

declare to_dec.simps [simp del]

definition dec_value :: "string \<Rightarrow> int" where
  "dec_value s = foldl (\<lambda>v c. v * 10 + (of_char c - 48)) 0 s"

lemma of_digit_char: "0 \<le> d \<Longrightarrow> d < 10 \<Longrightarrow> (of_char (digit_char d) :: int) = d + 48"
proof -
  assume "0 \<le> d" "d < 10"
  then have "(of_char (digit_char d) :: nat) = nat (d + 48)" by (simp add: digit_char_def)
  then show ?thesis using \<open>0 \<le> d\<close> by (metis add_increasing2 int_nat_eq of_nat_of_char zero_le_numeral add.commute)
qed

lemma is_digit_char: "0 \<le> d \<Longrightarrow> d < 10 \<Longrightarrow> is_digit (digit_char d)"
  by (simp add: is_digit_def of_digit_char)

lemma to_dec_digits: "0 \<le> n \<Longrightarrow> to_dec n \<noteq> [] \<and> list_all is_digit (to_dec n)"
proof (induction n rule: to_dec.induct)
  case (1 n)
  then show ?case by (subst (1 2) to_dec.simps) (auto simp: is_digit_char)
qed

lemma dec_value_to_dec: "0 \<le> n \<Longrightarrow> dec_value (to_dec n) = n"
proof (induction n rule: to_dec.induct)
  case (1 n)
  then show ?case by (subst to_dec.simps) (auto simp: dec_value_def of_digit_char)
qed

section \<open>Input streams\<close>

record stringstream =
  ss_rest :: string
  ss_fail :: bool
  ss_eof :: bool

definition stringstream_of :: "string \<Rightarrow> stringstream" where
  "stringstream_of s = \<lparr>ss_rest = s, ss_fail = False, ss_eof = False\<rparr>"

definition is_space :: "char \<Rightarrow> bool" where
  "is_space c \<longleftrightarrow> of_char c \<in> {9, 10, 11, 12, 13, 32 :: int}"

text \<open>What every extraction begins with: a stream that is not good fails, white space is skipped, and the end fails too. \<open>k\<close> reads from what is
  left, \<open>v\<close> is the variable read into.\<close>

definition ss_sentry :: "stringstream \<Rightarrow> 'a \<Rightarrow> (string \<Rightarrow> 'a \<times> stringstream) \<Rightarrow> 'a \<times> stringstream" where
  "ss_sentry st v k =
     (if ss_fail st \<or> ss_eof st then (v, st\<lparr>ss_fail := True\<rparr>)
      else let r = dropWhile is_space (ss_rest st) in
        if r = [] then (v, \<lparr>ss_rest = [], ss_fail = True, ss_eof = True\<rparr>) else k r)"

definition ss_get_char :: "stringstream \<Rightarrow> char \<Rightarrow> char \<times> stringstream" where
  "ss_get_char st v = ss_sentry st v (\<lambda>r. (hd r, st\<lparr>ss_rest := tl r\<rparr>))"

text \<open>An unsigned 32-bit number: a sign, digits. Nothing to read leaves 0, too large a number the maximum; a minus negates modulo \<open>2 ^ 32\<close>.\<close>

definition ss_get_u32 :: "stringstream \<Rightarrow> int \<Rightarrow> int \<times> stringstream" where
  "ss_get_u32 st v = ss_sentry st v (\<lambda>r.
     let neg = (hd r = CHR ''-''); r1 = (if neg \<or> hd r = CHR ''+'' then tl r else r);
         ds = takeWhile is_digit r1; rest = dropWhile is_digit r1; n = dec_value ds;
         fin = (\<lambda>bad. \<lparr>ss_rest = rest, ss_fail = bad, ss_eof = (rest = [])\<rparr>)
     in if ds = [] then (0, fin True)
        else if n > 4294967295 then (4294967295, fin True)
        else (if neg then u32 (- n) else n, fin False))"

section \<open>Versions\<close>

definition version_to_string :: "version \<Rightarrow> string" where
  "version_to_string v =
     to_dec (drop_bit 24 v AND 0xFF) @ ''.'' @ to_dec (drop_bit 16 v AND 0xFF) @ ''.'' @ to_dec (v AND 0xFFFF)"

definition version_from_string :: "string \<Rightarrow> version result" where
  "version_from_string str =
     (let (major, s1) = ss_get_u32 (stringstream_of str) 0;
          (dot_a, s2) = ss_get_char s1 (CHR 0x00);
          (hardfork, s3) = ss_get_u32 s2 0;
          (dot_b, s4) = ss_get_char s3 (CHR 0x00);
          (revision, s5) = ss_get_u32 s4 0
      in FC_ASSERT ((dot_a = CHR ''.'' \<or> dot_a = CHR ''_'') \<and> dot_a = dot_b) ''Variant does not contain proper dotted decimal format''
        (FC_ASSERT (major \<le> 0xFF) ''Major version is out of range''
        (FC_ASSERT (hardfork \<le> 0xFF) ''Hardfork version is out of range''
        (FC_ASSERT (revision \<le> 0xFFFF) ''Revision version is out of range''
        (FC_ASSERT (ss_eof s5) ''Extra information at end of version string''
          (Inr (push_bit 24 major OR (push_bit 16 hardfork OR revision))))))))"

definition hardfork_version_from_string :: "string \<Rightarrow> hardfork_version result" where
  "hardfork_version_from_string str = ebind (version_from_string str) (\<lambda>v. Inr (v AND 0xffff0000))"

section \<open>Amounts\<close>

text \<open>A \<^verbatim>\<open>double\<close> is the rational number it denotes, or no number. \<open>fl_round\<close> rounds to a double.\<close>

datatype floating = Finite rat | Not_finite

record floats =
  fl_lexical_cast :: "string \<Rightarrow> floating option"
  fl_round :: "rat \<Rightarrow> rat"

definition SOPHIATX_DECIMALS :: int where "SOPHIATX_DECIMALS = 6"

definition text_of_bytes :: "8 word list \<Rightarrow> string" where "text_of_bytes bs = map (\<lambda>b. char_of (unat b)) bs"
definition bytes_of_text :: "string \<Rightarrow> 8 word list" where "bytes_of_text s = map (\<lambda>c. word_of_nat (of_char c)) s"

text \<open>\<^verbatim>\<open>SOPHIATX_SATOSHIS\<close> is unsigned, so the amount is converted to an unsigned number first.\<close>

definition asset_to_string :: "asset \<Rightarrow> string" where
  "asset_to_string a =
     (let v = u64 (amount a) in
      to_dec (v div SOPHIATX_SATOSHIS) @ ''.'' @ tl (to_dec (SOPHIATX_SATOSHIS + v mod SOPHIATX_SATOSHIS)) @ '' '' @
        text_of_bytes (symbol_to_string (symbol a)))"

definition trim_copy :: "string \<Rightarrow> string" where
  "trim_copy s = rev (dropWhile is_space (rev (dropWhile is_space s)))"

text \<open>\<^verbatim>\<open>find\<close>; the length stands for \<^verbatim>\<open>npos\<close>.\<close>

definition find_char :: "char \<Rightarrow> string \<Rightarrow> nat" where
  "find_char c s = length (takeWhile (\<lambda>x. x \<noteq> c) s)"

definition c_str :: "string \<Rightarrow> string" where "c_str s = takeWhile (\<lambda>c. c \<noteq> CHR 0x00) s"

text \<open>\<^verbatim>\<open>round\<close> of the C library: halves away from zero.\<close>

definition c_round :: "rat \<Rightarrow> int" where
  "c_round x = (if x < 0 then - \<lfloor>- x + 1 / 2\<rfloor> else \<lfloor>x + 1 / 2\<rfloor>)"

definition asset_from_string :: "floats \<Rightarrow> string \<Rightarrow> asset result" where
  "asset_from_string fl from =
     (let s = trim_copy from; space_pos = find_char (CHR '' '') s; dot_pos = find_char (CHR ''.'') s in
      FC_ASSERT (space_pos < length s) ''Missing asset symbol''
      (FC_ASSERT (dot_pos < length s \<longrightarrow> SOPHIATX_DECIMALS \<ge> u64 (int space_pos - int dot_pos - 1)) ''''
      (case fl_lexical_cast fl (c_str (take space_pos s)) of
         None \<Rightarrow> Inl Parse_error_exception
       | Some Not_finite \<Rightarrow> Inl (Undefined_behaviour ''conversion'')
       | Some (Finite dvalue) \<Rightarrow>
           let ivalue = c_round (fl_round fl (dvalue * of_int SOPHIATX_SATOSHIS)) in
           ethrow_unless (is_int64 ivalue) (Undefined_behaviour ''conversion'')
           (FC_ASSERT (ivalue \<ge> 0) ''''
           (FC_ASSERT (SOPHIATX_MAX_SHARE_SUPPLY \<ge> ivalue) ''''
           (ebind (symbol_from_string (bytes_of_text (c_str (drop (space_pos + 1) s)))) (\<lambda>sym.
              Inr (Asset ivalue sym))))))))"

section \<open>Versions are read back\<close>

lemma digit_not_space: "is_digit c \<Longrightarrow> \<not> is_space c"
  by (auto simp: is_digit_def is_space_def)

lemma digit_not_char: "is_digit c \<Longrightarrow> \<not> is_digit d \<Longrightarrow> c \<noteq> d"
  by auto

lemma not_digits: "\<not> is_digit (CHR ''-'')" "\<not> is_digit (CHR ''+'')" "\<not> is_digit (CHR ''.'')" "\<not> is_digit (CHR '' '')"
    "\<not> is_digit (CHR 0x00)" "\<not> is_space (CHR ''.'')"
  by code_simp+

lemma ss_get_u32_dec:
  assumes "0 \<le> n" "n \<le> 4294967295" "rest = [] \<or> \<not> is_digit (hd rest)"
  shows "ss_get_u32 \<lparr>ss_rest = to_dec n @ rest, ss_fail = False, ss_eof = False\<rparr> v =
    (n, \<lparr>ss_rest = rest, ss_fail = False, ss_eof = (rest = [])\<rparr>)"
proof -
  obtain c cs where dec: "to_dec n = c # cs" "is_digit c" "list_all is_digit (to_dec n)"
    using to_dec_digits [OF assms(1)] by (cases "to_dec n") auto
  then have "takeWhile is_digit (to_dec n @ rest) = to_dec n" "dropWhile is_digit (to_dec n @ rest) = rest"
    using assms(3) by (cases rest; auto simp: list_all_iff)+
  moreover have "dropWhile is_space (to_dec n @ rest) = to_dec n @ rest" using dec by (simp add: digit_not_space)
  moreover have "hd (to_dec n @ rest) \<noteq> CHR ''-''" "hd (to_dec n @ rest) \<noteq> CHR ''+''" using dec not_digits(1,2) by auto
  ultimately show ?thesis
    using assms dec_value_to_dec [OF assms(1)] dec(1) by (simp add: ss_get_u32_def ss_sentry_def Let_def)
qed

lemma ss_get_dot:
  "ss_get_char \<lparr>ss_rest = CHR ''.'' # rest, ss_fail = False, ss_eof = False\<rparr> v =
    (CHR ''.'', \<lparr>ss_rest = rest, ss_fail = False, ss_eof = False\<rparr>)"
  by (simp add: ss_get_char_def ss_sentry_def Let_def not_digits)

lemma and_masks: "x AND 255 = x mod 256" "x AND 65535 = x mod 65536" for x :: int
  using take_bit_eq_mask [of 8 x] take_bit_eq_mask [of 16 x] by (simp_all add: take_bit_eq_mod mask_eq_exp_minus_1)

lemma and_bounds:
  "0 \<le> x AND 255" "x AND 255 \<le> 255" "0 \<le> x AND 65535" "x AND 65535 \<le> 65535" for x :: int
  by (simp_all only: and_masks pos_mod_sign pos_mod_bound zle_diff1_eq [of _ 256, simplified] zle_diff1_eq [of _ 65536, simplified])

lemma version_parts:
  fixes v :: int
  assumes "0 \<le> v" "v < 4294967296"
  shows "push_bit 24 (drop_bit 24 v AND 255) OR (push_bit 16 (drop_bit 16 v AND 255) OR (v AND 65535)) = v"
proof -
  define h where "h = v div 65536"
  have h: "0 \<le> h" "h < 65536" using assms by (auto simp: h_def)
  have "drop_bit 24 v AND 255 = h div 256"
    using h zdiv_zmult2_eq [of 256 v 65536] by (simp add: and_masks drop_bit_eq_div h_def)
  moreover have "drop_bit 16 v AND 255 = h mod 256" by (simp add: and_masks drop_bit_eq_div h_def)
  moreover have low: "push_bit 16 (h mod 256) OR (v mod 65536) = h mod 256 * 65536 + v mod 65536"
    using or_low_add [of "v mod 65536" 16 "h mod 256"] by simp
  moreover have "h mod 256 * 65536 + v mod 65536 < 16777216"
    using pos_mod_bound [of 256 h] pos_mod_bound [of 65536 v] by linarith
  then have "push_bit 24 (h div 256) OR (h mod 256 * 65536 + v mod 65536) = h div 256 * 16777216 + (h mod 256 * 65536 + v mod 65536)"
    using or_low_add [of "h mod 256 * 65536 + v mod 65536" 24 "h div 256"] by simp
  moreover have "h div 256 * 16777216 + (h mod 256 * 65536 + v mod 65536) = v"
    using div_mult_mod_eq [of h 256] div_mult_mod_eq [of v 65536] unfolding h_def by linarith
  ultimately show ?thesis by (simp add: and_masks)
qed

text \<open>Reading the text of a version gives the version back.\<close>

theorem version_text_roundtrip:
  assumes "0 \<le> v" "v < 4294967296"
  shows "version_from_string (version_to_string v) = Inr v"
proof -
  have le: "x AND 255 \<le> 4294967295" "x AND 65535 \<le> 4294967295" for x :: int using and_bounds(2,4) [of x] by simp_all
  show ?thesis
    using version_parts [OF assms] and_bounds
    by (simp add: version_from_string_def version_to_string_def stringstream_of_def ss_get_u32_dec ss_get_dot not_digits le Let_def
        ss_get_u32_dec [where rest = "[]", simplified])
qed

theorem version_text_roundtrip_witness: "version_from_string (version_to_string 16908291) = Inr 16908291"
  using version_text_roundtrip [of 16908291] by simp

text \<open>More is read than \<^verbatim>\<open>m.h.v\<close> and \<^verbatim>\<open>m_h_v\<close>: the revision may be missing, white space and signs are skipped over, and a negative
  number counts modulo \<open>2 ^ 32\<close>.\<close>

theorem version_text_lenient:
  "version_from_string ''1.2.'' = Inr (mk_version 1 2 0) \<and> version_from_string '' 1_ +2_3'' = Inr (mk_version 1 2 3) \<and>
   version_from_string ''-4294967295.0.0'' = Inr (mk_version 1 0 0)"
  by code_simp

section \<open>Amounts are read back\<close>

text \<open>Rounding moves a number that is neither tiny nor huge by at most \<open>2 ^ - 53\<close> of its size, and reading a
  decimal number rounds it once.\<close>

definition in_range :: "rat \<Rightarrow> bool" where
  "in_range x \<longleftrightarrow> x = 0 \<or> 1 / 2 ^ 30 \<le> \<bar>x\<bar> \<and> \<bar>x\<bar> \<le> 2 ^ 60"

definition floats_ok :: "floats \<Rightarrow> bool" where
  "floats_ok fl \<longleftrightarrow> (\<forall>x. in_range x \<longrightarrow> \<bar>fl_round fl x - x\<bar> \<le> \<bar>x\<bar> / 2 ^ 53) \<and>
     (\<forall>i f. 0 \<le> i \<longrightarrow> i < 2 ^ 60 \<longrightarrow> 0 \<le> f \<longrightarrow> f < 1000000 \<longrightarrow>
        fl_lexical_cast fl (to_dec i @ ''.'' @ tl (to_dec (1000000 + f))) = Some (Finite (fl_round fl (of_int i + of_int f / 1000000))))"

lemma length_to_dec: "10 ^ k \<le> n \<Longrightarrow> n < 10 ^ Suc k \<Longrightarrow> length (to_dec n) = Suc k"
proof (induction k arbitrary: n)
  case 0
  then show ?case by (subst to_dec.simps) simp
next
  case (Suc k)
  then have "10 ^ k \<le> n div 10" "n div 10 < 10 ^ Suc k" by simp_all
  moreover have "\<not> n < 10"
  proof -
    have "10 * 1 \<le> 10 * (10 :: int) ^ k" by (intro mult_left_mono one_le_power) simp_all
    then show ?thesis using Suc.prems(1) unfolding power_Suc by linarith
  qed
  ultimately show ?case using Suc.IH [of "n div 10"] by (subst to_dec.simps) simp
qed

lemma c_round_near: "\<bar>x - of_int n\<bar> < 1 / 2 \<Longrightarrow> 0 \<le> n \<Longrightarrow> c_round x = n"
proof -
  assume "\<bar>x - of_int n\<bar> < 1 / 2" and n: "0 \<le> n"
  then have x: "of_int n - 1 / 2 < x" "x < of_int n + 1 / 2" by linarith+
  have "\<lfloor>x + 1 / 2\<rfloor> = n" by (rule floor_unique; use x in linarith)
  moreover have "- \<lfloor>- x + 1 / 2\<rfloor> = n" if "x < 0"
  proof -
    have "of_int n < (1 :: rat)" using x that by linarith
    then have "n = 0" using n by simp
    moreover have "\<lfloor>- x + 1 / 2\<rfloor> = 0" by (rule floor_unique; use x that \<open>n = 0\<close> in simp)
    ultimately show ?thesis by simp
  qed
  ultimately show ?thesis by (simp add: c_round_def)
qed

text \<open>Two roundings move an amount within the supply by less than a half.\<close>

lemma rounded_amount:
  assumes "floats_ok fl" "0 \<le> n" "n \<le> SOPHIATX_MAX_SHARE_SUPPLY"
  shows "c_round (fl_round fl (fl_round fl (of_int n / 1000000) * 1000000)) = n"
proof (rule c_round_near [OF _ assms(2)])
  let ?x = "of_int n / 1000000 :: rat"
  define d where "d = fl_round fl ?x"
  define p where "p = fl_round fl (d * 1000000)"
  have err: "\<bar>fl_round fl y - y\<bar> \<le> \<bar>y\<bar> / 9007199254740992" if "in_range y" for y
    using assms(1) that by (simp add: floats_ok_def)
  have x: "0 \<le> ?x" "?x \<le> 1000000000" using assms(2,3) by (simp_all add: SOPHIATX_MAX_SHARE_SUPPLY_def)
  have n: "n = 0 \<or> (1 :: rat) \<le> of_int n" using assms(2) by (simp add: linorder_not_less [symmetric]) linarith
  then have "in_range ?x" using x by (auto simp: in_range_def)
  then have dx: "\<bar>d - ?x\<bar> \<le> ?x / 9007199254740992" using err [of ?x] x(1) by (simp add: d_def)
  then have "\<bar>d - ?x\<bar> \<le> 1000000000 / 9007199254740992" using x(2) by simp
  then have d: "d \<le> ?x + 1000000000 / 9007199254740992" "?x - 1000000000 / 9007199254740992 \<le> d" by linarith+
  have d2: "\<bar>d\<bar> \<le> 1000000001" using d x by (simp add: abs_le_iff)
  have "n = 0 \<and> d = 0 \<or> 1 / 2 \<le> d * 1000000"
  proof (cases "n = 0")
    case False
    with n have "1 / 1000000 \<le> ?x" by simp
    moreover have "?x - ?x / 9007199254740992 \<le> d" using dx by linarith
    ultimately have "1 / 2 \<le> d * 1000000" by linarith
    then show ?thesis ..
  qed (use dx in simp)
  then have "in_range (d * 1000000)" using d2 by (auto simp: in_range_def abs_mult)
  then have "\<bar>p - d * 1000000\<bar> \<le> 1000000001000000 / 9007199254740992"
    using err [of "d * 1000000"] d2 by (simp add: p_def abs_mult)
  then have "p \<le> d * 1000000 + 1000000001000000 / 9007199254740992" "d * 1000000 - 1000000001000000 / 9007199254740992 \<le> p" by linarith+
  moreover have "of_int n = ?x * 1000000" by simp
  ultimately show "\<bar>fl_round fl (fl_round fl ?x * 1000000) - of_int n\<bar> < 1 / 2"
    using d unfolding d_def [symmetric] p_def [symmetric] abs_less_iff by linarith
qed

text \<open>The characters of an amount and its symbol.\<close>

definition is_capital :: "8 word \<Rightarrow> bool" where "is_capital b \<longleftrightarrow> 65 \<le> b \<and> b \<le> 90"

lemma bytes_of_text_inverse: "bytes_of_text (text_of_bytes bs) = bs"
proof -
  have "unat b < 256" for b :: "8 word" using unsigned_less [of b] by simp
  then show ?thesis by (induction bs) (simp_all add: bytes_of_text_def text_of_bytes_def)
qed

lemma capital_char:
  assumes "is_capital b"
  shows "\<not> is_space (char_of (unat b))" "char_of (unat b) \<noteq> CHR '' ''" "char_of (unat b) \<noteq> CHR ''.''" "char_of (unat b) \<noteq> CHR 0x00"
proof -
  have u: "65 \<le> unat b" "unat b \<le> 90" using assms by (simp_all add: is_capital_def word_le_nat_alt)
  then have code: "(of_char (char_of (unat b) :: char) :: nat) = unat b" by simp
  have "of_char (char_of (unat b) :: char) = int (unat b)" using code by (metis of_nat_of_char)
  moreover have "65 \<le> int (unat b)" using u by linarith
  ultimately have "65 \<le> (of_char (char_of (unat b) :: char) :: int)" by linarith
  then show "\<not> is_space (char_of (unat b))" by (auto simp only: is_space_def)
  have "char_of (unat b) \<noteq> c" if "of_char c < (65 :: nat)" for c using code u that by auto
  then show "char_of (unat b) \<noteq> CHR '' ''" "char_of (unat b) \<noteq> CHR ''.''" "char_of (unat b) \<noteq> CHR 0x00" by simp_all
qed

text \<open>The text of an amount and a symbol, split at its blank and its point.\<close>

lemma asset_text_parts:
  assumes "0 \<le> i" "list_all is_digit fs" "length fs = 6" "\<forall>b \<in> set bs. is_capital b" "bs \<noteq> []"
  defines "s \<equiv> to_dec i @ ''.'' @ fs @ '' '' @ text_of_bytes bs"
  shows "trim_copy s = s" "find_char (CHR '' '') s = length (to_dec i) + 7" "find_char (CHR ''.'') s = length (to_dec i)"
    "c_str (take (length (to_dec i) + 7) s) = to_dec i @ ''.'' @ fs" "c_str (drop (length (to_dec i) + 8) s) = text_of_bytes bs"
proof -
  have dig: "to_dec i \<noteq> []" "\<forall>c \<in> set (to_dec i). is_digit c" "\<forall>c \<in> set fs. is_digit c"
    using to_dec_digits [OF assms(1)] assms(2) by (auto simp: list_all_iff)
  have letters: "text_of_bytes bs \<noteq> []" "\<forall>c \<in> set (text_of_bytes bs). \<not> is_space c \<and> c \<noteq> CHR '' '' \<and> c \<noteq> CHR ''.'' \<and> c \<noteq> CHR 0x00"
    using assms(4,5) capital_char by (auto simp: text_of_bytes_def)
  have digs: "c \<noteq> CHR '' ''" "c \<noteq> CHR ''.''" "c \<noteq> CHR 0x00" "\<not> is_space c" if "is_digit c" for c
    using that not_digits digit_not_space by auto
  obtain c cs where c: "to_dec i = c # cs" "is_digit c" using dig by (cases "to_dec i") auto
  obtain xs x where x: "text_of_bytes bs = xs @ [x]" "\<not> is_space x" using letters by (cases "text_of_bytes bs" rule: rev_cases) auto
  show "trim_copy s = s" using c x digs(4) by (simp add: trim_copy_def s_def)
  have tw: "takeWhile P (u @ y # v) = u" if "\<forall>z \<in> set u. P z" "\<not> P y" for P u v and y :: char
    using that by simp
  have "takeWhile (\<lambda>x. x \<noteq> CHR '' '') ((to_dec i @ ''.'' @ fs) @ CHR '' '' # text_of_bytes bs) = to_dec i @ ''.'' @ fs"
    by (rule tw) (use dig digs in auto)
  then show "find_char (CHR '' '') s = length (to_dec i) + 7" using assms(3) by (simp add: find_char_def s_def)
  have "takeWhile (\<lambda>x. x \<noteq> CHR ''.'') (to_dec i @ CHR ''.'' # fs @ '' '' @ text_of_bytes bs) = to_dec i"
    by (rule tw) (use dig digs in auto)
  then show "find_char (CHR ''.'') s = length (to_dec i)" by (simp add: find_char_def s_def)
  have "take (length (to_dec i) + 7) s = to_dec i @ ''.'' @ fs" "drop (length (to_dec i) + 8) s = text_of_bytes bs"
    using assms(3) by (simp_all add: s_def)
  moreover have "c_str u = u" if "\<forall>c \<in> set u. c \<noteq> CHR 0x00" for u using that by (simp add: c_str_def)
  moreover have "\<forall>c \<in> set (to_dec i @ ''.'' @ fs). c \<noteq> CHR 0x00" using dig digs(3) by auto
  moreover have "\<forall>c \<in> set (text_of_bytes bs). c \<noteq> CHR 0x00" using letters(2) by blast
  ultimately show "c_str (take (length (to_dec i) + 7) s) = to_dec i @ ''.'' @ fs" "c_str (drop (length (to_dec i) + 8) s) = text_of_bytes bs"
    by simp_all
qed

text \<open>C40. Amounts survive their text form although it is read through \<^verbatim>\<open>double\<close>: every amount up to the maximal supply, of any symbol of three to
  six capital letters, is read back exactly, since two roundings never move it by half of the smallest unit.\<close>

theorem asset_text_roundtrip:
  assumes "floats_ok fl" "0 \<le> n" "n \<le> SOPHIATX_MAX_SHARE_SUPPLY"
    "\<forall>b \<in> set letters. is_capital b" "3 \<le> length letters" "length letters \<le> 6"
  shows "asset_from_string fl (asset_to_string (Asset n (symbol_of_bytes letters))) = Inr (Asset n (symbol_of_bytes letters))"
proof -
  let ?i = "n div 1000000" and ?f = "n mod 1000000"
  let ?fs = "tl (to_dec (1000000 + ?f))" and ?k = "length (to_dec ?i)"
  have n: "n < 18446744073709551616" "is_int64 n" using assms(2,3) by (simp_all add: SOPHIATX_MAX_SHARE_SUPPLY_def is_int64_def int64_min_def int64_max_def)
  have f: "0 \<le> ?f" "?f < 1000000" by simp_all
  have len: "length (to_dec (1000000 + ?f)) = 7" using length_to_dec [of 6 "1000000 + ?f"] f by simp
  have fs: "list_all is_digit ?fs" "length ?fs = 6"
    using to_dec_digits [of "1000000 + ?f"] len f by (auto simp: list_all_iff dest: list.set_sel(2))
  have ascii: "\<forall>c \<in> set letters. ascii_byte c" using assms(4) by (auto simp: is_capital_def ascii_byte_def word_le_nat_alt word_less_nat_alt)
  have i: "0 \<le> ?i" using assms(2) by (simp add: pos_imp_zdiv_nonneg_iff)
  have "n div 1000000 \<le> 10 ^ 15 div 1000000" by (rule zdiv_mono1) (use assms(3) in \<open>simp_all add: SOPHIATX_MAX_SHARE_SUPPLY_def\<close>)
  then have small: "?i < 2 ^ 60" by simp
  have ne: "letters \<noteq> []" using assms(5) by auto
  note parts = asset_text_parts [OF i fs assms(4) ne]
  have shown: "asset_to_string (Asset n (symbol_of_bytes letters)) = to_dec ?i @ ''.'' @ ?fs @ '' '' @ text_of_bytes letters"
    using n(1) assms(2) symbol_to_of_bytes [OF ascii] assms(6) by (simp add: asset_to_string_def Let_def u64_def SOPHIATX_SATOSHIS_def)
  have cast: "fl_lexical_cast fl (to_dec ?i @ ''.'' @ ?fs) = Some (Finite (fl_round fl (of_int n / 1000000)))"
  proof -
    have "of_int ?i + of_int ?f / 1000000 = (of_int n / 1000000 :: rat)"
      using arg_cong [OF div_mult_mod_eq [of n 1000000], of "of_int :: int \<Rightarrow> rat", unfolded of_int_add of_int_mult] by simp
    moreover have "fl_lexical_cast fl (to_dec ?i @ ''.'' @ ?fs) = Some (Finite (fl_round fl (of_int ?i + of_int ?f / 1000000)))"
      using assms(1) i small f unfolding floats_ok_def by blast
    ultimately show ?thesis by (simp only:)
  qed
  have symb: "symbol_from_string (bytes_of_text (text_of_bytes letters)) = Inr (symbol_of_bytes letters)"
    using assms(5,6) by (simp add: bytes_of_text_inverse symbol_from_string_def)
  have "asset_from_string fl (to_dec ?i @ ''.'' @ ?fs @ '' '' @ text_of_bytes letters) = Inr (Asset n (symbol_of_bytes letters))"
    unfolding asset_from_string_def Let_def parts(1) parts(2) parts(3)
    using parts(4,5) cast symb rounded_amount [OF assms(1-3)] n assms(2,3) fs(2) ne
    by (simp add: u64_def SOPHIATX_DECIMALS_def SOPHIATX_SATOSHIS_def text_of_bytes_def)
  with shown show ?thesis by simp
qed

text \<open>Exact arithmetic is an instance.\<close>

definition exact_floats :: floats where
  "exact_floats = \<lparr>fl_lexical_cast = (\<lambda>s. Some (Finite (of_int (dec_value (takeWhile is_digit s)) +
      of_int (dec_value (drop (length (takeWhile is_digit s) + 1) s)) / 1000000))), fl_round = id\<rparr>"

lemma dec_value_snoc: "dec_value (s @ [c]) = dec_value s * 10 + (of_char c - 48)"
  by (simp add: dec_value_def)

lemma dec_value_Cons: "dec_value (c # s) = (of_char c - 48) * 10 ^ length s + dec_value s"
  by (induction s rule: rev_induct) (simp add: dec_value_def, simp only: append_Cons [symmetric] dec_value_snoc, simp add: algebra_simps)

lemma dec_value_bounds: "list_all is_digit s \<Longrightarrow> 0 \<le> dec_value s \<and> dec_value s < 10 ^ length s"
proof (induction s rule: rev_induct)
  case (snoc c s)
  then have "0 \<le> dec_value s" "dec_value s + 1 \<le> 10 ^ length s" "48 \<le> (of_char c :: int)" "(of_char c :: int) \<le> 57"
    by (simp_all add: is_digit_def)
  then show ?case by (simp add: dec_value_snoc)
qed (simp add: dec_value_def)

lemma fraction_value: "0 \<le> f \<Longrightarrow> f < 1000000 \<Longrightarrow> dec_value (tl (to_dec (1000000 + f))) = f"
proof -
  assume f: "0 \<le> f" "f < 1000000"
  have len: "length (to_dec (1000000 + f)) = 7" using length_to_dec [of 6 "1000000 + f"] f by simp
  then obtain c cs where c: "to_dec (1000000 + f) = c # cs" "length cs = 6" by (cases "to_dec (1000000 + f)") auto
  have sum: "(of_char c - 48) * 1000000 + dec_value cs = 1 * 1000000 + f"
    using dec_value_to_dec [of "1000000 + f"] f c by (simp add: dec_value_Cons)
  have "0 \<le> dec_value cs" "dec_value cs < 1000000"
    using dec_value_bounds [of cs] to_dec_digits [of "1000000 + f"] f c by simp_all
  then have "dec_value cs = f"
    using arg_cong [OF sum, of "\<lambda>x. x mod 1000000"] f by (simp only: mod_mult_self3 mod_pos_pos_trivial)
  with c show ?thesis by simp
qed

lemma exact_floats_ok: "floats_ok exact_floats"
  using to_dec_digits not_digits(3)
  by (auto simp: floats_ok_def exact_floats_def fraction_value dec_value_to_dec list_all_iff takeWhile_append2)

theorem asset_text_roundtrip_witness:
  "asset_from_string exact_floats (asset_to_string (Asset 1234567 (symbol_of_bytes [83, 80, 72, 84, 88]))) =
    Inr (Asset 1234567 (symbol_of_bytes [83, 80, 72, 84, 88]))"
  using asset_text_roundtrip [OF exact_floats_ok, of 1234567 "[83, 80, 72, 84, 88]"]
  by (simp add: is_capital_def SOPHIATX_MAX_SHARE_SUPPLY_def)

text \<open>The text of a negative amount is that of an unsigned number.\<close>

theorem negative_amount_text: "asset_to_string (Asset (- 5) SOPHIATX_SYMBOL) = ''18446744073709.551611 SPHTX''"
  by code_simp

end
