(* ===== verification/Wide_Int.thy ===== *)
theory Wide_Int
  imports UInt128 Text_Forms
begin

unbundle bit_operations_syntax

text \<open>
  The rest of \<^verbatim>\<open>fc/src/uint128.cpp\<close>: division by shifting and subtracting, the remainder, the full product, counting the bits that are
  set, and the text form. Each is shown to compute what it should of the value \<open>u128_val\<close>. \<^verbatim>\<open>operator /=\<close>, which goes through
  \<^verbatim>\<open>boost::multiprecision\<close>, and the conversions from and to \<^verbatim>\<open>bigint\<close> are left out; \<^verbatim>\<open>std::domain_error\<close> is a \<open>Logic_error\<close>, its base class.
\<close>

section \<open>The routines\<close>

definition u128_and :: "uint128 \<Rightarrow> uint128 \<Rightarrow> uint128" where
  "u128_and a b = U128 (u_hi a AND u_hi b) (u_lo a AND u_lo b)"

definition u128_or :: "uint128 \<Rightarrow> uint128 \<Rightarrow> uint128" where
  "u128_or a b = U128 (u_hi a OR u_hi b) (u_lo a OR u_lo b)"

definition u128_ge :: "uint128 \<Rightarrow> uint128 \<Rightarrow> bool" where
  "u128_ge l r \<longleftrightarrow> l = r \<or> u128_less r l"

text \<open>The two loops of \<^verbatim>\<open>divide\<close>. The first has fuel: it would not end for a divisor of zero, which is refused before.\<close>

fun scale_up :: "nat \<Rightarrow> uint128 \<Rightarrow> uint128 \<Rightarrow> uint128 \<Rightarrow> (uint128 \<times> uint128) result" where
  "scale_up 0 n d x = Inl Out_of_fuel"
| "scale_up (Suc k) n d x =
     (if u128_ge n d \<and> u128_and (u128_shr d 127) (u128_of_u64 1) = u128_of_u64 0
      then scale_up k n (u128_shl d 1) (u128_shl x 1) else Inr (d, x))"

lemma mask_low_bits: "n < 64 \<Longrightarrow> push_bit (64 - n) (h AND NOT (push_bit n (- 1))) = push_bit (64 - n) (h :: 64 word)"
  by (rule bit_word_eqI) (auto simp: bit_simps)

lemma unat_low: "n < 64 \<Longrightarrow> unat (push_bit (64 - n) (h :: 64 word)) = unat h mod 2 ^ n * 2 ^ (64 - n)"
proof -
  assume n: "n < 64"
  then have B: "(18446744073709551616 :: nat) = 2 ^ n * 2 ^ (64 - n)" by (simp flip: power_add)
  show ?thesis unfolding unat_push_bit64 B by (rule mod_mult_mult2)
qed

lemma u128_shr_small:
  assumes n: "0 < n" "n < 64"
  shows "u128_val (U128 (drop_bit n h) (drop_bit n l OR push_bit (64 - n) (h AND NOT (push_bit n (- 1))))) = u128_val (U128 h l) div 2 ^ n"
proof -
  have 64: "(2 :: nat) ^ 64 = 2 ^ (64 - n) * 2 ^ n" using n by (simp flip: power_add)
  have "drop_bit n l OR push_bit (64 - n) h = drop_bit n l + push_bit (64 - n) h"
    by (rule disjunctive_add [symmetric]) (use n in \<open>auto simp: bit_simps dest: bit_imp_le_length\<close>)
  moreover have "unat l div 2 ^ n + unat h mod 2 ^ n * 2 ^ (64 - n) < 18446744073709551616"
  proof -
    have "unat l div 2 ^ n < 2 ^ (64 - n)" using unat64_less [of l] 64 by (simp add: less_mult_imp_div_less)
    moreover have "(unat h mod 2 ^ n + 1) * 2 ^ (64 - n) \<le> 2 ^ n * 2 ^ (64 - n)" by (intro mult_le_mono1) (simp add: Suc_leI)
    moreover have "2 ^ n * 2 ^ (64 - n) = (18446744073709551616 :: nat)" using n by (simp flip: power_add)
    ultimately show ?thesis by (simp add: add_mult_distrib)
  qed
  ultimately have lo: "unat (drop_bit n l OR push_bit (64 - n) h) = unat l div 2 ^ n + unat h mod 2 ^ n * 2 ^ (64 - n)"
    by (simp add: unat64_add unat_drop_bit64 unat_low [OF n(2)])
  have "(x * 2 ^ n + y) div 2 ^ n = x + y div 2 ^ n" for x y :: nat by simp
  then have "u128_val (U128 h l) div 2 ^ n = unat h * 2 ^ (64 - n) + unat l div 2 ^ n"
    by (simp only: u128_val_def uint128.simps 64 mult.assoc [symmetric])
  also have "unat h * 2 ^ (64 - n) = unat h div 2 ^ n * 2 ^ 64 + unat h mod 2 ^ n * 2 ^ (64 - n)"
  proof -
    have "unat h * 2 ^ (64 - n) = (unat h div 2 ^ n * 2 ^ n + unat h mod 2 ^ n) * 2 ^ (64 - n)" by (simp only: div_mult_mod_eq)
    then show ?thesis unfolding 64 by (simp only: add_mult_distrib mult.assoc mult.commute [of "2 ^ n"])
  qed
  finally show ?thesis unfolding mask_low_bits [OF n(2)] by (simp only: u128_val_def uint128.simps lo unat_drop_bit64)
qed

lemma u128_val_shr:
  assumes "n < 128"
  shows "u128_val (u128_shr a n) = u128_val a div 2 ^ n"
proof -
  have big: "u128_val (U128 0 (u_hi a)) = u128_val a div 2 ^ 64" using unat64_less [of "u_lo a"] by (simp add: u128_val_def)
  consider "n = 0" | "0 < n" "n < 64" | "n = 64" | "64 < n" by linarith
  then show ?thesis
  proof cases
    case 4
    with assms have "0 < n - 64" "n - 64 < 64" by simp_all
    note small = u128_shr_small [OF this, of 0 "u_hi a"]
    have p: "(2 :: nat) ^ n = 2 ^ 64 * 2 ^ (n - 64)" using 4 by (simp only: flip: power_add) simp
    show ?thesis using 4 assms small unfolding big p div_mult2_eq by (simp add: u128_shr_def Let_def)
  qed (use big u128_shr_small [of n "u_hi a" "u_lo a"] in \<open>simp_all add: u128_shr_def Let_def\<close>)
qed

function reduce :: "uint128 \<Rightarrow> uint128 \<Rightarrow> uint128 \<Rightarrow> uint128 \<Rightarrow> uint128 \<times> uint128" where
  "reduce n d x answer =
     (if x \<noteq> u128_of_u64 0 then
        let (n, answer) = (if u128_ge n d then (u128_sub n d, u128_or answer x) else (n, answer))
        in reduce n (u128_shr d 1) (u128_shr x 1) answer
      else (answer, n))"
  by pat_completeness auto
termination
proof (relation "measure (\<lambda>(n, d, x, answer). u128_val x)")
  show "((n', u128_shr d 1, u128_shr x 1, answer'), n, d, x, answer) \<in> measure (\<lambda>(n, d, x, answer). u128_val x)"
    if "x \<noteq> u128_of_u64 0" for n d x answer n' answer'
    using that u128_val_inject [of x "u128_of_u64 0"] by (simp add: u128_val_shr)
qed simp

declare reduce.simps [simp del]

definition divide_fuel :: nat where "divide_fuel = 129"

text \<open>The quotient and the remainder.\<close>

definition u128_divide :: "uint128 \<Rightarrow> uint128 \<Rightarrow> (uint128 \<times> uint128) result" where
  "u128_divide numerator denominator =
     (if denominator = u128_of_u64 0 then Inl (Logic_error ''divide by zero'')
      else ebind (scale_up divide_fuel numerator denominator (u128_of_u64 1)) (\<lambda>(d, x).
        Inr (reduce numerator d x (u128_of_u64 0))))"

text \<open>Counting bits: neighbouring fields of 1, 2, 4, ... bits are added in place.\<close>

definition popcount_masks :: "(64 word \<times> nat) list" where
  "popcount_masks = [(0x5555555555555555, 1), (0x3333333333333333, 2), (0x0F0F0F0F0F0F0F0F, 4), (0x00FF00FF00FF00FF, 8),
     (0x0000FFFF0000FFFF, 16), (0x00000000FFFFFFFF, 32)]"

definition popcount_64 :: "64 word \<Rightarrow> nat" where
  "popcount_64 x = unat (fold (\<lambda>(m, w) x. (x AND m) + (drop_bit w x AND m)) popcount_masks x) mod 256"

definition u128_popcount :: "uint128 \<Rightarrow> nat" where
  "u128_popcount a = (popcount_64 (u_lo a) + popcount_64 (u_hi a)) mod 256"

text \<open>\<^verbatim>\<open>operator %=\<close> keeps the remainder; \<^verbatim>\<open>to_integer\<close> refuses what does not fit 32 bits.\<close>

definition u128_rem :: "uint128 \<Rightarrow> uint128 \<Rightarrow> uint128 result" where
  "u128_rem a b = ebind (u128_divide a b) (\<lambda>(quotient, remainder). Inr remainder)"

definition to_integer :: "uint128 \<Rightarrow> nat result" where
  "to_integer a = FC_ASSERT (u_hi a = 0) '''' (let lo32 = take_bit 32 (u_lo a) in FC_ASSERT (u_lo a = lo32) '''' (Inr (unat lo32)))"

text \<open>\<^verbatim>\<open>operator std::string\<close> writes digits from the end of a buffer of 127 characters to its front: the text so far is what stands
  behind \<open>i\<close>.\<close>

definition digit_chars :: string where "digit_chars = ''0123456789abcdefghijklmnopqrstuvwxyz''"

fun write_digits :: "nat \<Rightarrow> uint128 \<Rightarrow> string \<Rightarrow> string result" where
  "write_digits 0 ii sz = Inr sz"
| "write_digits (Suc i) ii sz =
     (if ii \<noteq> u128_of_u64 0 then
        ebind (u128_divide ii (u128_of_u64 10)) (\<lambda>(ii, remainder). ebind (to_integer remainder) (\<lambda>d. write_digits i ii (digit_chars ! d # sz)))
      else Inr sz)"

definition u128_to_string :: "uint128 \<Rightarrow> string result" where
  "u128_to_string a = (if a = u128_of_u64 0 then Inr ''0'' else write_digits 127 a [])"

text \<open>The constructor from text: a sign, a prefix that chooses the radix, and digits up to the first character that is none.\<close>

definition digit_of :: "nat \<Rightarrow> char \<Rightarrow> nat option" where
  "digit_of radix ch =
     (let c = of_char ch;
          n = (if 65 \<le> c \<and> c \<le> 90 then Some (c - 65 + 10)
               else if 97 \<le> c \<and> c \<le> 122 then Some (c - 97 + 10)
               else if 48 \<le> c \<and> c \<le> 57 then Some (c - 48)
               else None)
      in case n of None \<Rightarrow> None | Some n \<Rightarrow> if n < radix then Some n else None)"

fun read_digits :: "nat \<Rightarrow> uint128 \<Rightarrow> string \<Rightarrow> uint128" where
  "read_digits radix a [] = a"
| "read_digits radix a (ch # i) =
     (case digit_of radix ch of
        None \<Rightarrow> a
      | Some n \<Rightarrow> read_digits radix (u128_add (u128_mul a (u128_of_u64 (word_of_nat radix))) (u128_of_u64 (word_of_nat n))) i)"

definition radix_prefix :: "string \<Rightarrow> nat \<times> string" where
  "radix_prefix i =
     (case i of
        [] \<Rightarrow> (10, i)
      | c # i' \<Rightarrow> if c = CHR ''0'' then (case i' of [] \<Rightarrow> (8, i') | x # i'' \<Rightarrow> if x = CHR ''x'' then (16, i'') else (8, i')) else (10, i))"

definition u128_from_string :: "string \<Rightarrow> uint128" where
  "u128_from_string sz =
     (let (minus, i) = (case sz of [] \<Rightarrow> (False, sz) | c # i \<Rightarrow> if c = CHR ''-'' then (True, i) else (False, sz));
          (radix, i) = radix_prefix i;
          v = read_digits radix (u128_of_u64 0) i
      in if minus then u128_neg v else v)"

section \<open>Division\<close>

lemma u128_val_zero: "a = u128_of_u64 0 \<longleftrightarrow> u128_val a = 0"
  using u128_val_inject [of a "u128_of_u64 0"] by simp

lemma u128_val_one: "u128_val (u128_of_u64 1) = 1"
  by simp

lemma u128_ge_val: "u128_ge a b \<longleftrightarrow> u128_val b \<le> u128_val a"
  using u128_val_inject [of a b] by (auto simp: u128_ge_def u128_less_val)

lemma u128_top_bit: "u128_and (u128_shr d 127) (u128_of_u64 1) = u128_of_u64 0 \<longleftrightarrow> u128_val d < 2 ^ 127"
proof -
  let ?e = "u128_shr d 127"
  have e: "u128_val ?e = u128_val d div 2 ^ 127" by (simp add: u128_val_shr)
  then have "u128_val ?e < 2" using u128_val_less [of d] by (simp add: div_less_iff_less_mult)
  then have "?e = u128_of_u64 0 \<or> ?e = u128_of_u64 1"
    using u128_val_inject [of ?e "u128_of_u64 0"] u128_val_inject [of ?e "u128_of_u64 1"] by auto
  moreover have "?e = u128_of_u64 0 \<longleftrightarrow> u128_val d < 2 ^ 127" unfolding u128_val_zero e by (simp add: div_eq_0_iff)
  ultimately show ?thesis by (auto simp: u128_and_def u128_of_u64_def)
qed

lemma scale_up_ends:
  assumes "u128_val d = D * 2 ^ k" "u128_val x = 2 ^ k" "0 < D" "k < 128" "128 \<le> k + fuel"
  shows "\<exists>d' x' j. scale_up (Suc fuel) n d x = Inr (d', x') \<and> u128_val d' = D * 2 ^ j \<and> u128_val x' = 2 ^ j \<and> j < 128 \<and>
    u128_val n < 2 * (D * 2 ^ j)"
  using assms
proof (induction fuel arbitrary: d x k)
  case 0
  then show ?case by simp
next
  case (Suc fuel)
  show ?case
  proof (cases "u128_val d \<le> u128_val n \<and> u128_val d < 2 ^ 127")
    case True
    have "2 ^ k \<le> D * 2 ^ k" using Suc.prems(3) by simp
    then have "(2 :: nat) ^ k < 2 ^ 127" using True Suc.prems(1) by linarith
    then have k: "k < 127" using power_strict_increasing_iff [of "2 :: nat" k 127] by simp
    have "u128_val (u128_shl d 1) = D * 2 ^ Suc k" using True Suc.prems(1) by (simp add: u128_val_shl)
    moreover have "u128_val (u128_shl x 1) = 2 ^ Suc k"
    proof -
      have "(2 :: nat) ^ Suc k < 2 ^ 128" using k by (intro power_strict_increasing) simp_all
      then show ?thesis using Suc.prems(2) by (simp add: u128_val_shl)
    qed
    ultimately show ?thesis
      using Suc.IH [of "u128_shl d 1" "Suc k" "u128_shl x 1"] Suc.prems(3,5) k True
      by (subst scale_up.simps) (simp add: u128_ge_val u128_top_bit)
  next
    case False
    have "u128_val n < 2 * (D * 2 ^ k)"
    proof (cases "u128_val d \<le> u128_val n")
      case True
      then have "2 ^ 127 \<le> D * 2 ^ k" using False Suc.prems(1) by simp
      then show ?thesis using u128_val_less [of n] by simp
    next
      case False
      then show ?thesis using Suc.prems(1) by simp
    qed
    then show ?thesis using False Suc.prems(1,2,4) by (subst scale_up.simps) (auto simp: u128_ge_val u128_top_bit)
  qed
qed

text \<open>Setting a bit below all bits that are set.\<close>

lemma or_low_nat: "l < 2 ^ n \<Longrightarrow> h * 2 ^ n OR l = h * 2 ^ n + l" for l h :: nat
proof -
  assume "l < 2 ^ n"
  then have "push_bit n (int h) OR int l = int h * 2 ^ n + int l" by (intro or_low_add) (simp_all add: of_nat_less_iff [symmetric] del: of_nat_less_iff)
  then have "int (h * 2 ^ n OR l) = int (h * 2 ^ n + l)" by (simp add: of_nat_or_eq push_bit_eq_mult)
  then show ?thesis by (simp only: of_nat_eq_iff)
qed

lemma u128_val_bits: "u128_val a = push_bit 64 (unat (u_hi a)) OR unat (u_lo a)"
  using or_low_nat [of "unat (u_lo a)" 64 "unat (u_hi a)"] unat64_less [of "u_lo a"] by (simp add: u128_val_def push_bit_eq_mult)

lemma u128_val_or: "u128_val (u128_or a b) = u128_val a OR u128_val b"
  by (simp add: u128_val_bits u128_or_def unsigned_or_eq push_bit_or ac_simps)

lemma reduce_step:
  assumes "u128_val d = D * 2 ^ k" "u128_val x = 2 ^ k" "u128_val n < 2 * (D * 2 ^ k)" "2 ^ Suc k dvd u128_val answer"
  obtains n' a' where "reduce n d x answer = reduce n' (u128_shr d 1) (u128_shr x 1) a'" "u128_val n' < D * 2 ^ k" "2 ^ k dvd u128_val a'"
    "u128_val a' * D + u128_val n' = u128_val answer * D + u128_val n"
proof (cases "u128_val d \<le> u128_val n")
  case True
  obtain h where h: "u128_val answer = h * 2 ^ Suc k" using assms(4) by (metis dvd_def mult.commute)
  have a: "u128_val (u128_or answer x) = u128_val answer + 2 ^ k"
    using or_low_nat [of "2 ^ k" "Suc k" h] unfolding u128_val_or h assms(2) by simp
  have s: "u128_val (u128_sub n d) = u128_val n - u128_val d"
  proof -
    have "2 ^ 128 + u128_val n - u128_val d = (u128_val n - u128_val d) + 2 ^ 128" using True by simp
    moreover have "u128_val n - u128_val d < 2 ^ 128" using u128_val_less [of n] by linarith
    ultimately show ?thesis by (simp only: u128_val_sub mod_add_self2 mod_less)
  qed
  have "2 ^ k dvd u128_val answer" using assms(4) by (metis dvd_mult_right power_Suc)
  then have "2 ^ k dvd u128_val (u128_or answer x)" unfolding a by simp
  moreover have "reduce n d x answer = reduce (u128_sub n d) (u128_shr d 1) (u128_shr x 1) (u128_or answer x)"
    using assms(2) True by (subst reduce.simps) (simp add: u128_val_zero u128_ge_val)
  moreover have "u128_val (u128_or answer x) * D + u128_val (u128_sub n d) = u128_val answer * D + u128_val n"
    using True unfolding a s assms(1) by (simp add: algebra_simps)
  moreover have "u128_val (u128_sub n d) < D * 2 ^ k" using True assms(1,3) unfolding s by linarith
  ultimately show thesis using that by blast
next
  case False
  have "2 ^ k dvd u128_val answer" using assms(4) by (metis dvd_mult_right power_Suc)
  moreover have "reduce n d x answer = reduce n (u128_shr d 1) (u128_shr x 1) answer"
    using assms(2) False by (subst reduce.simps) (simp add: u128_val_zero u128_ge_val)
  ultimately show thesis using that False assms(1) by simp
qed

lemma reduce_divides:
  assumes "u128_val d = D * 2 ^ k" "u128_val x = 2 ^ k" "u128_val n < 2 * (D * 2 ^ k)" "2 ^ Suc k dvd u128_val answer"
  shows "\<exists>q r. reduce n d x answer = (q, r) \<and> u128_val q * D + u128_val r = u128_val answer * D + u128_val n \<and> u128_val r < D"
  using assms
proof (induction k arbitrary: n d x answer)
  case 0
  then obtain n' a' where r: "reduce n d x answer = reduce n' (u128_shr d 1) (u128_shr x 1) a'" "u128_val n' < D * 2 ^ 0"
      "u128_val a' * D + u128_val n' = u128_val answer * D + u128_val n"
    by (rule reduce_step) blast
  have "u128_shr x 1 = u128_of_u64 0" using 0(2) unfolding u128_val_zero by (simp add: u128_val_shr)
  then have "reduce n' (u128_shr d 1) (u128_shr x 1) a' = (a', n')" by (subst reduce.simps) simp
  then show ?case using r by simp
next
  case (Suc k)
  from Suc.prems obtain n' a' where r: "reduce n d x answer = reduce n' (u128_shr d 1) (u128_shr x 1) a'" "u128_val n' < D * 2 ^ Suc k"
      "2 ^ Suc k dvd u128_val a'" "u128_val a' * D + u128_val n' = u128_val answer * D + u128_val n"
    by (rule reduce_step) blast
  have "u128_val (u128_shr d 1) = D * 2 ^ k" "u128_val (u128_shr x 1) = 2 ^ k" using Suc.prems(1,2) by (simp_all add: u128_val_shr)
  then show ?case using Suc.IH [of "u128_shr d 1" "u128_shr x 1" n' a'] r by simp
qed

lemma u128_divide_val:
  assumes "0 < u128_val b"
  obtains q r where "u128_divide a b = Inr (q, r)" "u128_val q = u128_val a div u128_val b" "u128_val r = u128_val a mod u128_val b"
proof -
  have "\<exists>d x j. scale_up (Suc 128) a b (u128_of_u64 1) = Inr (d, x) \<and> u128_val d = u128_val b * 2 ^ j \<and> u128_val x = 2 ^ j \<and> j < 128 \<and>
      u128_val a < 2 * (u128_val b * 2 ^ j)"
    by (rule scale_up_ends [where k = 0]) (use assms in simp_all)
  then obtain d x j where up: "scale_up divide_fuel a b (u128_of_u64 1) = Inr (d, x)" "u128_val d = u128_val b * 2 ^ j" "u128_val x = 2 ^ j"
      "u128_val a < 2 * (u128_val b * 2 ^ j)"
    by (auto simp: divide_fuel_def)
  obtain q r where qr: "reduce a d x (u128_of_u64 0) = (q, r)" "u128_val q * u128_val b + u128_val r = u128_val a" "u128_val r < u128_val b"
    using reduce_divides [OF up(2,3,4), of "u128_of_u64 0"] by auto
  have "u128_divide a b = Inr (q, r)" using up(1) qr(1) assms by (simp add: u128_divide_def u128_val_zero ebind_def)
  moreover have "u128_val q = u128_val a div u128_val b" "u128_val r = u128_val a mod u128_val b"
    using qr(2,3) by (auto simp flip: qr(2))
  ultimately show thesis using that by blast
qed

text \<open>Shifting and subtracting divides: for every divisor but zero both loops end and give the quotient and the remainder, however large the
  operands; a divisor of zero throws.\<close>

theorem u128_divide_correct:
  "u128_val b = 0 \<and> u128_divide a b = Inl (Logic_error ''divide by zero'') \<or>
   (\<exists>q r. u128_divide a b = Inr (q, r) \<and> u128_val a = u128_val q * u128_val b + u128_val r \<and> u128_val r < u128_val b)"
proof (cases "u128_val b = 0")
  case True
  then show ?thesis by (simp add: u128_divide_def u128_val_zero)
next
  case False
  then obtain q r where "u128_divide a b = Inr (q, r)" "u128_val q = u128_val a div u128_val b" "u128_val r = u128_val a mod u128_val b"
    using u128_divide_val [of b a] by auto
  then show ?thesis using False by (intro disjI2 exI [of _ q] exI [of _ r]) (simp add: div_mult_mod_eq)
qed

lemma u128_rem_val: "0 < u128_val b \<Longrightarrow> \<exists>r. u128_rem a b = Inr r \<and> u128_val r = u128_val a mod u128_val b"
  by (erule u128_divide_val [of b a]) (simp add: u128_rem_def ebind_def)

section \<open>Full products\<close>

lemma u128_val_parts: "unat (u_lo a) = u128_val a mod 18446744073709551616" "unat (u_hi a) = u128_val a div 18446744073709551616"
  using unat64_less [of "u_lo a"] by (simp_all add: u128_val_def)

lemma u128_mul_words: "u128_val (u128_mul (u128_of_u64 x) (u128_of_u64 y)) = unat x * unat y"
proof -
  have "unat x * unat y < 18446744073709551616 * 18446744073709551616"
    by (intro mult_strict_mono) (use unat64_less [of x] unat64_less [of y] in auto)
  then show ?thesis by (simp add: u128_val_mul)
qed

text \<open>The four words of the product of two numbers of two words, with the carries.\<close>

lemma columns_sum:
  fixes B :: nat
  assumes "e1 * B + e0 = c1 + q1 + r1 + p0" "c1 * B + c0 = s1 + q0 + r0"
  shows "((e1 + p1) * B + e0) * (B * B) + (c0 * B + s0) = (p1 * B + p0) * (B * B) + (q1 * B + q0) * B + (r1 * B + r0) * B + (s1 * B + s0)"
proof -
  have "((e1 + p1) * B + e0) * (B * B) + (c0 * B + s0) = (e1 * B + e0) * (B * B) + p1 * B * (B * B) + c0 * B + s0"
    by (simp add: algebra_simps)
  also have "\<dots> = (c1 * B + c0) * B + (q1 + r1) * (B * B) + (p1 * B + p0) * (B * B) + s0"
    unfolding assms(1) by (simp add: algebra_simps)
  also have "\<dots> = (p1 * B + p0) * (B * B) + (q1 * B + q0) * B + (r1 * B + r0) * B + (s1 * B + s0)"
    unfolding assms(2) by (simp add: algebra_simps)
  finally show ?thesis .
qed

lemma columns_product:
  fixes B :: nat
  assumes "0 < B" "al < B" "ah < B" "bl < B" "bh < B" "e1 * B + e0 = c1 + q1 + r1 + p0" "c1 * B + c0 = s1 + q0 + r0"
    "s1 * B + s0 = al * bl" "r1 * B + r0 = ah * bl" "q1 * B + q0 = al * bh" "p1 * B + p0 = ah * bh"
  shows "((e1 + p1) * B + e0) * (B * B) + (c0 * B + s0) = (ah * B + al) * (bh * B + bl)" "e1 + p1 < B"
proof -
  show eq: "((e1 + p1) * B + e0) * (B * B) + (c0 * B + s0) = (ah * B + al) * (bh * B + bl)"
    unfolding columns_sum [OF assms(6,7)] assms(8-11) by (simp add: algebra_simps)
  have "ah * B + al < B * B" "bh * B + bl < B * B"
    using assms(2-5) mult_le_mono1 [of "Suc ah" B B] mult_le_mono1 [of "Suc bh" B B] by simp_all
  then have "(ah * B + al) * (bh * B + bl) < (B * B) * (B * B)" using assms(1) by (intro mult_strict_mono) simp_all
  then have "(e1 + p1) * (B * (B * B)) < B * (B * (B * B))"
    unfolding eq [symmetric] by (simp add: algebra_simps)
  then show "e1 + p1 < B" using assms(1) by simp
qed

lemma u128_val_word: "u128_val a = unat (u_hi a) * 18446744073709551616 + unat (u_lo a)"
  by (simp add: u128_val_def)

lemma u128_val_accumulate:
  assumes "u128_val a \<le> 55340232221128654848"
  shows "u128_val (u128_add a (u128_of_u64 w)) = u128_val a + unat w"
  using assms unat64_less [of w] by (simp add: u128_val_add)

text \<open>The full product loses nothing: its two halves are the product of the operands.\<close>

theorem full_product_exact:
  "case full_product a b of (hi, lo) \<Rightarrow> u128_val hi * 2 ^ 128 + u128_val lo = u128_val a * u128_val b"
proof -
  let ?B = "18446744073709551616 :: nat"
  define s r q p where "s = u128_mul (u128_of_u64 (u_lo a)) (u128_of_u64 (u_lo b))" and "r = u128_mul (u128_of_u64 (u_hi a)) (u128_of_u64 (u_lo b))"
    and "q = u128_mul (u128_of_u64 (u_lo a)) (u128_of_u64 (u_hi b))" and "p = u128_mul (u128_of_u64 (u_hi a)) (u128_of_u64 (u_hi b))"
  define c where "c = u128_add (u128_add (u128_of_u64 (u_hi s)) (u128_of_u64 (u_lo q))) (u128_of_u64 (u_lo r))"
  define e where "e = u128_add (u128_add (u128_add (u128_of_u64 (u_hi c)) (u128_of_u64 (u_hi q))) (u128_of_u64 (u_hi r))) (u128_of_u64 (u_lo p))"
  have full: "full_product a b = (U128 (u_hi e + u_hi p) (u_lo e), U128 (u_lo c) (u_lo s))"
    by (simp add: full_product_def Let_def s_def r_def q_def p_def c_def e_def)
  have less: "unat w \<le> ?B" for w :: "64 word" using unat64_less [of w] by simp
  have sums: "u128_val c = unat (u_hi s) + unat (u_lo q) + unat (u_lo r)"
      "u128_val e = unat (u_hi c) + unat (u_hi q) + unat (u_hi r) + unat (u_lo p)"
    using less [of "u_hi s"] less [of "u_lo q"] less [of "u_hi c"] less [of "u_hi q"] less [of "u_hi r"]
    by (simp_all add: c_def e_def u128_val_accumulate)
  have parts: "unat (u_hi s) * ?B + unat (u_lo s) = unat (u_lo a) * unat (u_lo b)" "unat (u_hi r) * ?B + unat (u_lo r) = unat (u_hi a) * unat (u_lo b)"
      "unat (u_hi q) * ?B + unat (u_lo q) = unat (u_lo a) * unat (u_hi b)" "unat (u_hi p) * ?B + unat (u_lo p) = unat (u_hi a) * unat (u_hi b)"
    unfolding u128_val_word [symmetric] s_def r_def q_def p_def by (rule u128_mul_words)+
  have columns: "((unat (u_hi e) + unat (u_hi p)) * ?B + unat (u_lo e)) * (?B * ?B) + (unat (u_lo c) * ?B + unat (u_lo s)) =
      (unat (u_hi a) * ?B + unat (u_lo a)) * (unat (u_hi b) * ?B + unat (u_lo b))" "unat (u_hi e) + unat (u_hi p) < ?B"
    by (rule columns_product [OF _ unat64_less unat64_less unat64_less unat64_less sums(2) [unfolded u128_val_word] sums(1) [unfolded u128_val_word] parts],
      simp)+
  have "unat (u_hi e + u_hi p) = unat (u_hi e) + unat (u_hi p)" using columns(2) by (simp add: unat64_add)
  then show ?thesis using columns(1) unfolding full by (simp only: prod.case u128_val_word uint128.simps) simp
qed

section \<open>Counting bits\<close>

text \<open>The sum of the first \<open>n\<close> fields of \<open>w\<close> bits; the sums of neighbours as fields; the fields of even position.\<close>

fun field_sum :: "nat \<Rightarrow> nat \<Rightarrow> nat \<Rightarrow> nat" where
  "field_sum w 0 x = 0"
| "field_sum w (Suc n) x = x mod 2 ^ w + field_sum w n (x div 2 ^ w)"

fun pair_sums :: "nat \<Rightarrow> nat \<Rightarrow> nat \<Rightarrow> nat" where
  "pair_sums w 0 x = 0"
| "pair_sums w (Suc n) x = (x mod 2 ^ w + x div 2 ^ w mod 2 ^ w) + 2 ^ (2 * w) * pair_sums w n (x div 2 ^ (2 * w))"

fun even_fields :: "nat \<Rightarrow> nat \<Rightarrow> nat \<Rightarrow> nat" where
  "even_fields w 0 x = 0"
| "even_fields w (Suc n) x = x mod 2 ^ w + 2 ^ (2 * w) * even_fields w n (x div 2 ^ (2 * w))"

fun even_mask :: "nat \<Rightarrow> nat \<Rightarrow> nat" where
  "even_mask w 0 = 0"
| "even_mask w (Suc n) = (2 ^ w - 1) + 2 ^ (2 * w) * even_mask w n"

lemma exp_double: "(2 :: nat) ^ (2 * w) = 2 ^ w * 2 ^ w"
  by (simp add: power_add mult_2)

lemma pair_less: "0 < w \<Longrightarrow> a mod 2 ^ w + b mod 2 ^ w < (2 ^ (2 * w) :: nat)"
proof -
  assume "0 < w"
  then have "(2 :: nat) ^ 1 \<le> 2 ^ w" by (intro power_increasing) simp_all
  then have "(2 :: nat) * 2 ^ w \<le> 2 ^ w * 2 ^ w" by (intro mult_le_mono1) simp
  moreover have "a mod 2 ^ w < 2 ^ w" "b mod 2 ^ w < (2 ^ w :: nat)" by simp_all
  ultimately show ?thesis unfolding exp_double by linarith
qed

lemma field_sum_pairs: "0 < w \<Longrightarrow> field_sum (2 * w) n (pair_sums w n x) = field_sum w (2 * n) x"
proof (induction n arbitrary: x)
  case (Suc n)
  have "x div 2 ^ w div 2 ^ w = x div 2 ^ (2 * w)" by (simp add: div_mult2_eq [symmetric] power_add [symmetric] mult_2)
  then show ?case using Suc pair_less [of w x "x div 2 ^ w"] by simp
qed simp

lemma pair_sums_less: "0 < w \<Longrightarrow> pair_sums w n x < 2 ^ (2 * w * n)"
proof (induction n arbitrary: x)
  case (Suc n)
  have "Suc (pair_sums w n (x div 2 ^ (2 * w))) \<le> 2 ^ (2 * w * n)" using Suc by (simp add: Suc_leI)
  then have "2 ^ (2 * w) * Suc (pair_sums w n (x div 2 ^ (2 * w))) \<le> 2 ^ (2 * w) * 2 ^ (2 * w * n)" by (rule mult_le_mono2)
  then show ?case using pair_less [OF Suc.prems, of x "x div 2 ^ w"] by (simp add: power_add)
qed simp

lemma and_even_mask: "x AND even_mask w n = even_fields w n x"
proof (induction n arbitrary: x)
  case (Suc n)
  let ?m = "even_mask w (Suc n)" and ?k = "2 * w"
  have low: "(a + 2 ^ ?k * b) mod 2 ^ ?k = a" "(a + 2 ^ ?k * b) div 2 ^ ?k = b" if "a < 2 ^ ?k" for a b :: nat
    using that by simp_all
  have "(1 :: nat) * 2 ^ w \<le> 2 ^ w * 2 ^ w" by (intro mult_le_mono1) simp
  then have "(2 :: nat) ^ w - 1 < 2 ^ ?k" unfolding exp_double by (simp add: less_le_trans [OF diff_less])
  from low [OF this] have m: "?m mod 2 ^ ?k = 2 ^ w - 1" "?m div 2 ^ ?k = even_mask w n" unfolding even_mask.simps by blast+
  have "take_bit ?k (x AND ?m) = take_bit ?k x AND take_bit ?k ?m" "drop_bit ?k (x AND ?m) = drop_bit ?k x AND drop_bit ?k ?m"
    by (simp_all only: take_bit_and drop_bit_and)
  then have "(x AND ?m) mod 2 ^ ?k = x mod 2 ^ ?k AND (2 ^ w - 1)" "(x AND ?m) div 2 ^ ?k = even_fields w n (x div 2 ^ ?k)"
    using Suc.IH m by (simp_all only: take_bit_eq_mod drop_bit_eq_div)
  moreover have "x mod 2 ^ ?k AND (2 ^ w - 1) = x mod 2 ^ w"
    using take_bit_eq_mask [of w "x mod 2 ^ ?k"] take_bit_take_bit [of w ?k x] by (simp add: take_bit_eq_mod mask_eq_exp_minus_1)
  ultimately have "(x AND ?m) div 2 ^ ?k * 2 ^ ?k + (x AND ?m) mod 2 ^ ?k = even_fields w (Suc n) x" by simp
  then show ?case by (simp only: div_mult_mod_eq)
qed simp

lemma pair_sums_even: "pair_sums w n x = even_fields w n x + even_fields w n (x div 2 ^ w)"
proof (induction n arbitrary: x)
  case (Suc n)
  have "x div 2 ^ (2 * w) div 2 ^ w = x div 2 ^ w div 2 ^ (2 * w)" by (simp add: div_mult2_eq [symmetric] mult.commute)
  then show ?case using Suc.IH by (simp add: algebra_simps)
qed simp

lemma popcount_step:
  fixes x m :: "64 word"
  assumes "unat m = even_mask w n" "2 * w * n = 64" "0 < w"
  shows "unat ((x AND m) + (drop_bit w x AND m)) = pair_sums w n (unat x)"
proof -
  have "unat (x AND m) = even_fields w n (unat x)" for x
    unfolding unsigned_and_eq assms(1) and_even_mask ..
  from this [of x] this [of "drop_bit w x"]
  have "unat (x AND m) = even_fields w n (unat x)" "unat (drop_bit w x AND m) = even_fields w n (unat x div 2 ^ w)"
    unfolding unat_drop_bit64 .
  then have "unat (x AND m) + unat (drop_bit w x AND m) = pair_sums w n (unat x)" by (simp only: pair_sums_even)
  moreover have "pair_sums w n (unat x) < 18446744073709551616" using pair_sums_less [OF assms(3), of n "unat x"] assms(2) by simp
  ultimately show ?thesis by (simp add: unat64_add)
qed

lemma field_sum_halved:
  fixes x m :: "64 word"
  assumes "unat m = even_mask w n" "2 * w * n = 64" "0 < w"
  shows "field_sum (2 * w) n (unat ((x AND m) + (drop_bit w x AND m))) = field_sum w (2 * n) (unat x)"
  unfolding popcount_step [OF assms] by (rule field_sum_pairs [OF assms(3)])

lemma even_mask_numeral: "even_mask w (numeral k) = (2 ^ w - 1) + 2 ^ (2 * w) * even_mask w (pred_numeral k)"
  by (simp add: numeral_eq_Suc)

lemma field_sum_le: "field_sum 1 n y \<le> n"
proof (induction n arbitrary: y)
  case (Suc n)
  have "y mod 2 \<le> 1" by (simp add: less_Suc_eq_le [symmetric])
  with Suc [of "y div 2"] show ?case by simp
qed simp

lemma popcount_masks_even: "\<forall>(m, w) \<in> set popcount_masks. unat m = even_mask w (32 div w) \<and> 2 * w * (32 div w) = 64 \<and> 0 < w"
  by (simp add: popcount_masks_def even_mask_numeral)

lemma field_sum_step:
  fixes x m :: "64 word"
  assumes "(m, w) \<in> set popcount_masks"
  shows "field_sum (2 * w) (32 div w) (unat ((x AND m) + (drop_bit w x AND m))) = field_sum w (2 * (32 div w)) (unat x)"
  using assms popcount_masks_even by (intro field_sum_halved) auto

lemma popcount_64_fields: "popcount_64 x = field_sum 1 64 (unat x)"
proof -
  define h where "h m w x = (x AND m) + (drop_bit w x AND m)" for m x :: "64 word" and w
  define x1 x2 x3 x4 x5 x6 where "x1 = h 0x5555555555555555 1 x" and "x2 = h 0x3333333333333333 2 x1" and "x3 = h 0x0F0F0F0F0F0F0F0F 4 x2"
    and "x4 = h 0x00FF00FF00FF00FF 8 x3" and "x5 = h 0x0000FFFF0000FFFF 16 x4" and "x6 = h 0x00000000FFFFFFFF 32 x5"
  have step: "field_sum (2 * w) (32 div w) (unat (h m w y)) = field_sum w (2 * (32 div w)) (unat y)" if "(m, w) \<in> set popcount_masks" for m w y
    unfolding h_def by (rule field_sum_step [OF that])
  have "field_sum 2 32 (unat x1) = field_sum 1 64 (unat x)" "field_sum 4 16 (unat x2) = field_sum 2 32 (unat x1)"
      "field_sum 8 8 (unat x3) = field_sum 4 16 (unat x2)" "field_sum 16 4 (unat x4) = field_sum 8 8 (unat x3)"
      "field_sum 32 2 (unat x5) = field_sum 16 4 (unat x4)" "field_sum 64 1 (unat x6) = field_sum 32 2 (unat x5)"
    unfolding x1_def x2_def x3_def x4_def x5_def x6_def
    using step [of "0x5555555555555555" 1 x] step [of "0x3333333333333333" 2 x1] step [of "0x0F0F0F0F0F0F0F0F" 4 x2]
      step [of "0x00FF00FF00FF00FF" 8 x3] step [of "0x0000FFFF0000FFFF" 16 x4] step [of "0x00000000FFFFFFFF" 32 x5]
    by (simp_all add: popcount_masks_def x1_def x2_def x3_def x4_def x5_def x6_def del: field_sum.simps)
  moreover have "field_sum 64 1 (unat x6) = unat x6" using unat64_less [of x6] by simp
  ultimately have all: "unat x6 = field_sum 1 64 (unat x)" by simp
  moreover have "popcount_64 x = unat x6 mod 256" by (simp add: popcount_64_def popcount_masks_def x1_def x2_def x3_def x4_def x5_def x6_def h_def)
  ultimately show ?thesis using field_sum_le [of 64 "unat x"] by (simp del: field_sum.simps)
qed

lemma field_sum_bits: "field_sum 1 n y = (\<Sum>i<n. of_bool (bit y i))"
proof (induction n arbitrary: y)
  case (Suc n)
  have "field_sum 1 (Suc n) y = of_bool (bit y 0) + (\<Sum>i<n. of_bool (bit (y div 2) i))"
    using Suc [of "y div 2"] by (simp add: bit_0 mod2_eq_if)
  then show ?case by (simp only: sum.lessThan_Suc_shift bit_Suc)
qed simp

lemma bit_u128_val: "i < 64 \<Longrightarrow> bit (u128_val a) i = bit (unat (u_lo a)) i" "bit (u128_val a) (i + 64) = bit (unat (u_hi a)) i"
  by (auto simp: u128_val_bits bit_simps dest: bit_imp_le_length)

lemma sum_split_64: "(\<Sum>i<128. f i) = (\<Sum>i<64. f i) + (\<Sum>i<64. f (i + 64))" for f :: "nat \<Rightarrow> nat"
proof -
  have "sum f {0..<64} + sum f {64..<128} = sum f {0..<128}" by (rule sum.atLeastLessThan_concat) simp_all
  moreover have "sum f {64..<128} = (\<Sum>i = 0..<64. f (i + 64))" using sum.shift_bounds_nat_ivl [of f 0 64 64] by simp
  ultimately show ?thesis by (simp only: lessThan_atLeast0)
qed

text \<open>Adding neighbouring fields counts bits: the result is how many bits of the value are set.\<close>

theorem u128_popcount_counts: "u128_popcount a = card {i. bit (u128_val a) i}"
proof -
  have "u128_popcount a = (field_sum 1 64 (unat (u_lo a)) + field_sum 1 64 (unat (u_hi a))) mod 256"
    by (simp only: u128_popcount_def popcount_64_fields)
  also have "\<dots> = field_sum 1 64 (unat (u_lo a)) + field_sum 1 64 (unat (u_hi a))"
    using field_sum_le [of 64 "unat (u_lo a)"] field_sum_le [of 64 "unat (u_hi a)"] by (simp del: field_sum.simps)
  also have "\<dots> = (\<Sum>i<64. of_bool (bit (u128_val a) i)) + (\<Sum>i<64. of_bool (bit (u128_val a) (i + 64)))"
    unfolding field_sum_bits by (simp add: bit_u128_val)
  also have "\<dots> = (\<Sum>i<128. of_bool (bit (u128_val a) i))" by (rule sum_split_64 [symmetric])
  also have "\<dots> = card ({..<128} \<inter> {i. bit (u128_val a) i})" by (simp add: sum_of_bool_eq)
  also have "{..<128} \<inter> {i. bit (u128_val a) i} = {i. bit (u128_val a) i}"
  proof -
    have "i < 128" if "bit (u128_val a) i" for i
    proof (rule ccontr)
      assume "\<not> i < 128"
      then have "bit (unat (u_hi a)) (i - 64)" "64 \<le> i - 64" using that bit_u128_val(2) [of a "i - 64"] by simp_all
      then show False by (auto simp: bit_simps dest: bit_imp_le_length)
    qed
    then show ?thesis by auto
  qed
  finally show ?thesis .
qed

section \<open>The text form\<close>

lemma digit_chars_dec: "d < 10 \<Longrightarrow> digit_chars ! d = digit_char (int d)"
proof -
  have "list_all (\<lambda>d. digit_chars ! d = digit_char (int d)) [0..<10]" by code_simp
  then show "d < 10 \<Longrightarrow> digit_chars ! d = digit_char (int d)" by (simp add: list_all_iff)
qed

lemma to_integer_small: "u128_val a < 2 ^ 32 \<Longrightarrow> to_integer a = Inr (u128_val a)"
proof -
  assume a: "u128_val a < 2 ^ 32"
  then have "u_hi a = 0" "unat (u_lo a) = u128_val a" by (auto simp: u128_val_def word_unat_eq_iff)
  moreover from this have "take_bit 32 (u_lo a) = u_lo a" using a
    by (simp only: word_unat_eq_iff unsigned_take_bit_eq) (simp add: take_bit_eq_mod)
  ultimately show ?thesis by (simp add: to_integer_def FC_ASSERT_def)
qed

lemma write_digits_dec:
  assumes "u128_val a < 10 ^ i"
  shows "write_digits i a sz = Inr ((if u128_val a = 0 then [] else to_dec (int (u128_val a))) @ sz)"
  using assms
proof (induction i arbitrary: a sz)
  case (Suc i)
  show ?case
  proof (cases "u128_val a = 0")
    case False
    let ?n = "u128_val a"
    obtain q r where d: "u128_divide a (u128_of_u64 10) = Inr (q, r)" "u128_val q = ?n div 10" "u128_val r = ?n mod 10"
      by (rule u128_divide_val [of "u128_of_u64 10" a]) simp_all
    have "?n div 10 < 10 ^ i" using Suc.prems by (simp add: less_mult_imp_div_less mult.commute)
    then have "write_digits i q (digit_chars ! (?n mod 10) # sz) =
        Inr ((if ?n div 10 = 0 then [] else to_dec (int (?n div 10))) @ digit_chars ! (?n mod 10) # sz)"
      using Suc.IH [of q] d(2) by simp
    moreover have "to_integer r = Inr (?n mod 10)" using d(3) to_integer_small [of r] by (simp add: less_trans [of _ 10])
    moreover have "(if ?n div 10 = 0 then [] else to_dec (int (?n div 10))) @ [digit_chars ! (?n mod 10)] = to_dec (int ?n)"
      by (subst (2) to_dec.simps) (auto simp: digit_chars_dec zdiv_int zmod_int)
    ultimately show ?thesis using False d(1) by (simp add: u128_val_zero ebind_def)
  qed (simp add: u128_val_zero)
qed (simp add: u128_val_zero)

lemma u128_to_string_dec: "u128_to_string a = Inr (to_dec (int (u128_val a)))"
proof (cases "u128_val a = 0")
  case True
  have "to_dec 0 = ''0''" by code_simp
  then show ?thesis using True by (simp add: u128_to_string_def u128_val_zero)
next
  case False
  have "u128_val a < 10 ^ 127" using u128_val_less [of a] by simp
  from write_digits_dec [OF this] show ?thesis using False by (simp add: u128_to_string_def u128_val_zero)
qed

lemma digit_of_dec: "is_digit c \<Longrightarrow> digit_of 10 c = Some (of_char c - 48)"
proof -
  assume "is_digit c"
  then have "48 \<le> (of_char c :: nat)" "(of_char c :: nat) \<le> 57"
    unfolding is_digit_def of_nat_of_char [symmetric, where 'a = int] by linarith+
  then show ?thesis by (simp add: digit_of_def Let_def)
qed

lemma foldl_dec_mod: "foldl (\<lambda>v c. v * 10 + f c) (v mod m) ds mod m = foldl (\<lambda>v c. v * 10 + f c) v ds mod m" for m :: int
proof (induction ds arbitrary: v)
  case (Cons d ds)
  have "(v mod m * 10 + f d) mod m = (v * 10 + f d) mod m"
    using mod_add_left_eq [of "v mod m * 10" m "f d"] mod_add_left_eq [of "v * 10" m "f d"] mod_mult_left_eq [of v m 10] by simp
  then show ?case using Cons [of "v mod m * 10 + f d"] Cons [of "v * 10 + f d"] by simp
qed simp

lemma read_digits_dec:
  assumes "list_all is_digit ds"
  shows "int (u128_val (read_digits 10 a ds)) = foldl (\<lambda>v c. v * 10 + (of_char c - 48)) (int (u128_val a)) ds mod 2 ^ 128"
  using assms
proof (induction ds arbitrary: a)
  case Nil
  then show ?case using u128_val_less [of a] by simp
next
  case (Cons c ds)
  let ?a = "u128_add (u128_mul a (u128_of_u64 (word_of_nat 10))) (u128_of_u64 (word_of_nat (of_char c - 48)))"
  have c: "48 \<le> (of_char c :: nat)" "(of_char c :: nat) \<le> 57"
    using Cons.prems unfolding list.pred_inject(2) is_digit_def of_nat_of_char [symmetric, where 'a = int] by linarith+
  have "unat (word_of_nat n :: 64 word) = n" if "n \<le> 9" for n using that by (simp add: unat_of_nat)
  from this [of "of_char c - 48"] c have "unat (word_of_nat (of_char c - 48) :: 64 word) = of_char c - 48" by linarith
  then have "u128_val ?a = (u128_val a * 10 + (of_char c - 48)) mod 2 ^ 128"
    by (simp add: u128_val_add u128_val_mul mod_simps)
  then have "int (u128_val ?a) = (int (u128_val a) * 10 + (of_char c - 48)) mod 2 ^ 128"
    using c(1) by (simp add: zmod_int of_nat_diff of_nat_of_char add_diff_eq)
  then have "int (u128_val (read_digits 10 ?a ds)) =
      foldl (\<lambda>v c. v * 10 + (of_char c - 48)) (int (u128_val a) * 10 + (of_char c - 48)) ds mod 2 ^ 128"
    using Cons.IH [of ?a] Cons.prems foldl_dec_mod [of "\<lambda>c. of_char c - 48"] by simp
  then show ?case using Cons.prems by (simp add: digit_of_dec)
qed

lemma hd_to_dec: "0 < n \<Longrightarrow> hd (to_dec n) \<noteq> CHR ''0''"
proof (induction n rule: to_dec.induct)
  case (1 n)
  show ?case
  proof (cases "n < 10")
    case True
    have "of_char (digit_char n) \<noteq> (of_char (CHR ''0'') :: int)" using 1 True by (simp add: of_digit_char)
    then show ?thesis using True by (subst to_dec.simps) auto
  next
    case False
    then have "to_dec n = to_dec (n div 10) @ [digit_char (n mod 10)]" by (subst to_dec.simps) simp
    moreover have "0 < n div 10" using False by simp
    ultimately show ?thesis using 1(1) False to_dec_digits [of "n div 10"] by simp
  qed
qed

text \<open>Text and value determine each other: every value has a text, the decimal digits of it, and reading that text gives the value back.\<close>

theorem u128_text_roundtrip:
  "\<exists>s. u128_to_string a = Inr s \<and> s = to_dec (int (u128_val a)) \<and> u128_from_string s = a"
proof -
  let ?s = "to_dec (int (u128_val a))"
  have "u128_from_string ?s = a"
  proof (cases "u128_val a = 0")
    case True
    have "u128_from_string (to_dec 0) = u128_of_u64 0" by code_simp
    moreover have "a = u128_of_u64 0" using True by (simp only: u128_val_zero)
    ultimately show ?thesis using True by simp
  next
    case False
    obtain c cs where s: "?s = c # cs" "is_digit c" "list_all is_digit ?s"
      using to_dec_digits [of "int (u128_val a)"] by (cases ?s) auto
    then have "c \<noteq> CHR ''-''" "c \<noteq> CHR ''0''" using hd_to_dec [of "int (u128_val a)"] False not_digits(1) by auto
    then have "u128_from_string ?s = read_digits 10 (u128_of_u64 0) ?s"
      unfolding s(1) by (simp add: u128_from_string_def radix_prefix_def)
    moreover have "int (u128_val (read_digits 10 (u128_of_u64 0) ?s)) = dec_value ?s mod 2 ^ 128"
      using read_digits_dec [OF s(3), of "u128_of_u64 0"] by (simp add: dec_value_def)
    moreover have "dec_value ?s mod 2 ^ 128 = int (u128_val a)"
      using u128_val_less [of a] by (simp add: dec_value_to_dec)
    ultimately have "u128_val (u128_from_string ?s) = u128_val a" by simp
    then show ?thesis by (simp only: u128_val_inject)
  qed
  then show ?thesis by (simp add: u128_to_string_dec)
qed

end
