(* ===== verification/Spec2Isabelle.thy ===== *)
theory Spec2Isabelle
  imports Sample_Node Key_Lookup Account_History Null_Account Undo_Index Wire_Blocks Text_Forms Wide_Int
begin

text \<open>
  \<^bold>\<open>A model of the SophiaTX chain.\<close> SophiaTX is a delegated proof-of-stake block chain. A node keeps the objects
  of the chain (accounts, witnesses, escrows, applications, ...) in an object store with undo sessions,
  applies signed transactions and blocks to them, keeps recent blocks in a tree of forks and irreversible
  ones in a log file. This development models that core, from checked integers to the fork switch, and proves
  what makes it correct. All paths below are under \<^verbatim>\<open>src/libraries\<close>.

  \<^bold>\<open>Conventions.\<close> A function that may throw returns a value of \<open>'a result\<close>, which is \<open>Inl\<close> of an error or \<open>Inr\<close> of a value
  (\<open>Prelude\<close>); \<open>ebind\<close> is sequencing, \<open>FC_ASSERT\<close> the assertion of the source, \<open>efold\<close> a loop that may throw. An
  operation on the chain takes the \<open>database\<close> record and returns a new one; on an exception the caller undoes
  the session, so the state in between is not returned. Only the chain controller returns a state with an
  exception as well. \<open>int64\<close> amounts are integers with the checks of \<^verbatim>\<open>fc::safe\<close>; unsigned types are integers
  with \<open>u32\<close>, \<open>u64\<close>, \<open>u128\<close> (reduction modulo a power of two) where the source can wrap. An index of the
  object store is a list of rows with unique keys; iteration in the order of an index is a sort. Names, ids, keys
  and digests are numbers. Hash functions, signing and key recovery, the sizes of types in memory, reading and rounding of floating
  point numbers and the JSON parser are arguments of the definitions.

  \<^bold>\<open>Theories and sources.\<close>

  \<^item> \<open>Prelude\<close>: results, tables with unique keys, the collections of lemmas.
  \<^item> \<open>Safe_Int\<close>, \<open>UInt128\<close>, \<open>Wide_Int\<close>: \<^verbatim>\<open>fc/include/fc/safe.hpp\<close>, \<^verbatim>\<open>fc/src/uint128.cpp\<close>. Checked operations return the exact result or
    throw; the limb multiplication is multiplication modulo \<open>2 ^ 128\<close>; division by shifting ends with the exact quotient and remainder, its fuel of 129
    rounds is never used up; the bit count and the text form are right.
  \<^item> \<open>Asset\<close>, \<open>Fixed_String\<close>, \<open>Account_Name\<close>, \<open>Version\<close>, \<open>Text_Forms\<close>, \<open>Config\<close>: \<^verbatim>\<open>protocol/asset.cpp\<close>, \<^verbatim>\<open>asset_symbol.cpp\<close>, \<^verbatim>\<open>fixed_string.hpp\<close>, \<^verbatim>\<open>version.cpp\<close>,
    \<^verbatim>\<open>config.hpp\<close>, \<^verbatim>\<open>chain/get_config.hpp\<close>. Comparison of prices is the order of the quotients; names survive storage;
    amounts and versions are read back from their text.
  \<^item> \<open>Economics\<close>: \<^verbatim>\<open>chain/economics.cpp\<close>. The pools; a fee is split without loss, withdrawals never overdraw.
  \<^item> \<open>Authority\<close>: \<^verbatim>\<open>protocol/authority.cpp\<close>, \<^verbatim>\<open>sign_state.cpp\<close>, \<^verbatim>\<open>transaction_util.hpp\<close>. An accepted check is backed by
    enough weight of signatures, however authorities refer to each other.
  \<^item> \<open>Utf8\<close>: \<^verbatim>\<open>fc/src/utf8.cpp\<close> and the library in \<^verbatim>\<open>fc/src/utf8\<close>. The check accepts exactly what the encoder writes; decoding inverts encoding.
  \<^item> \<open>Raw_Codec\<close>: the binary serialisation of \<^verbatim>\<open>fc/include/fc/io/raw.hpp\<close>. Locale \<open>codec\<close> is the contract of a type that can be packed and
    unpacked within a depth of recursion, \<open>container\<close> that of a way to fill a container; both are interpreted for every constructor of the format.
  \<^item> \<open>Wire_Types\<close>, \<open>Wire_Operations\<close>, \<open>Wire_Operation\<close>, \<open>Wire_Blocks\<close>: the \<^verbatim>\<open>FC_REFLECT\<close> lines of \<^verbatim>\<open>protocol\<close>, \<^verbatim>\<open>transaction.cpp\<close>,
    \<^verbatim>\<open>block.cpp\<close>: the binary form of every operation, of transactions and blocks, the bytes that are hashed and signed. Blocks survive the wire, only well-formed
    blocks are read, and what is signed determines the transaction and the chain.
  \<^item> \<open>Chain_Objects\<close>: the objects of \<^verbatim>\<open>chain/include/sophiatx/chain\<close> and the record \<open>database\<close>.
  \<^item> \<open>Ledger\<close>, \<open>Balance_Sheet\<close>, \<open>Sheet_Steps\<close>: balances, supply, vesting, fees and votes of \<^verbatim>\<open>chain/database.cpp\<close>. The abstract
    specification is a balance sheet (liquid, vested and escrowed coins, supply, pools); \<open>moves\<close> is the
    refinement relation, the locales \<open>ledger_keeper\<close>, \<open>plain_keeper\<close> and \<open>ledger_frame\<close> are the contract
    of an operation, interpreted once for every operation.
  \<^item> \<open>Genesis\<close>: \<^verbatim>\<open>database::init_genesis\<close>. \<open>Null_Account\<close>: what burning does to the supply equations.
  \<^item> \<open>Operation_Types\<close>, \<open>Operations\<close>: \<^verbatim>\<open>protocol/sophiatx_operations.hpp\<close> and \<^verbatim>\<open>.cpp\<close>: every operation, its validation, fee,
    payer and required authorities.
  \<^item> \<open>Money_Evaluators\<close>, \<open>Account_Evaluators\<close>, \<open>Content_Evaluators\<close>: \<^verbatim>\<open>chain/sophiatx_evaluator.cpp\<close>, every \<^verbatim>\<open>do_apply\<close>.
  \<^item> \<open>Apply_Operation\<close>, \<open>Transactions\<close>: \<^verbatim>\<open>apply_operation\<close>, \<^verbatim>\<open>_apply_transaction\<close>, bandwidth, fees, duplicate and TaPoS checks.
    A transaction keeps the ledger, is authorised, pays its fee; its fee-free operations are counted and limited.
  \<^item> \<open>Undo_Index\<close>: \<^verbatim>\<open>chainbase/chainbase.hpp\<close>. The abstract specification is a stack of snapshots; creation, change,
    removal, undo, squash and commit refine it (locale \<open>session_store\<close>). Two theorems show when an undo throws; the theories on top
    take a session for the snapshot it restores.
  \<^item> \<open>Blocks\<close>, \<open>Fork_Database\<close>: \<^verbatim>\<open>protocol/block.cpp\<close>, \<^verbatim>\<open>chain/fork_database.cpp\<close>. Items are addresses; the reachable trees are an
    inductive step relation with the invariant \<open>fork_ok\<close>.
  \<^item> \<open>Witness_Schedule\<close>: \<^verbatim>\<open>chain/witness_schedule.cpp\<close> and the slots. Every scheduled witness has one slot in a round.
  \<^item> \<open>Block_Maintenance\<close>, \<open>Maintenance_Ledger\<close>, \<open>Apply_Block\<close>, \<open>Chain_Position\<close>: \<^verbatim>\<open>_apply_block\<close>: header, transactions, global
    properties, irreversibility, schedule, interests, feeds, rewards, withdrawals, recovery, escrow
    deadlines, hardforks; and that each of them keeps the ledger and the position of the chain.
  \<^item> \<open>Block_Log\<close>: \<^verbatim>\<open>chain/block_log.cpp\<close>, the two files as bytes.
  \<^item> \<open>Chain_Controller\<close>, \<open>Chain_Safety\<close>, \<open>Chain_Switch\<close>: \<^verbatim>\<open>push_block\<close>, \<^verbatim>\<open>pop_block\<close>, \<^verbatim>\<open>push_transaction\<close>, \<^verbatim>\<open>generate_block\<close>, \<^verbatim>\<open>open\<close>,
    \<^verbatim>\<open>reindex\<close>, \<^verbatim>\<open>db_with.hpp\<close>. A session is the snapshot it restores, as \<open>Undo_Index\<close> justifies. Locale \<open>frame\<close>
    is the contract of what a command may change.
  \<^item> \<open>Node_Sync\<close>: the queries of \<^verbatim>\<open>chain/database.cpp\<close> by number and id, \<^verbatim>\<open>plugins/chain/chain_plugin_full.cpp\<close> where it hands blocks to the
    database, the delegate of \<^verbatim>\<open>plugins/p2p/p2p_plugin.cpp\<close>. A synopsis spans the reversible part of the chain in at most 32
    entries, the answer to one is a run of consecutive blocks, and nodes that agree on what is irreversible can synchronise.
  \<^item> \<open>Block_Production\<close>: \<^verbatim>\<open>plugins/witness/witness_plugin.cpp\<close>. A node produces in its own slots, and in these only.
  \<^item> \<open>Key_Lookup\<close>: \<^verbatim>\<open>plugins/account_by_key\<close>. Locale \<open>authority_frame\<close> is the contract of an evaluator that leaves the
    authorities alone, interpreted for 27 of them; the index follows the authorities but for deletion and reset.
  \<^item> \<open>Account_History\<close>: \<^verbatim>\<open>chain/util/impacted.cpp\<close>, \<^verbatim>\<open>plugins/account_history\<close>. Histories are numbered without gaps, every
    operation is recorded for the accounts it impacts, and only old rows are pruned.
  \<^item> \<open>Sample_Chain\<close>, \<open>Sample_Node\<close>: a node on the genesis state of the live network; the runs the theorems are applied to.

  \<^bold>\<open>Loops and fuel.\<close> A loop over an index is a fold over its rows. \<open>fetch_branch_from\<close>, \<open>pop_to\<close> and
  \<open>walk_to_num\<close> have the number of addresses ever given out as fuel: a link points to an older address, so the fuel
  suffices (\<open>fetch_branch_terminates\<close>, \<open>pop_loop_terminates\<close>). \<open>process_vesting_withdrawals\<close> has the number of intervals
  that have passed (\<open>vesting_withdrawals_terminate\<close>). \<open>construct_index\<close> and \<open>replay\<close> have the length of the
  log, each turn consumes at least eight bytes (\<open>open_restores_index\<close>, \<open>replay_applies_log\<close>).
  \<open>process_hardforks\<close> and \<open>merkle_loop\<close> have termination proofs. \<open>get_block_ids\<close> has twice the limit as fuel, since one of two
  turns adds an id (\<open>get_block_ids_terminates\<close>); \<open>get_blockchain_synopsis\<close> has 32, since each turn halves the distance to a
  32-bit number (\<open>synopsis_covers_chain\<close>).

  \<^bold>\<open>Hypotheses.\<close> \<open>ledger_inv\<close>: the supply equations and the escrow rules, which genesis satisfies.
  \<open>interest_amounts_ok\<close>: products of the interest computation fit 64 bits. \<open>null_idle\<close>: the account \<^verbatim>\<open>none\<close> is empty.
  \<open>fork_ok\<close>: the shape of every reachable fork database. \<open>codec_ok\<close>: unpacking inverts packing, which holds for
  the codec of the source (\<open>wire_codec_ok\<close>). \<open>valid_signed_block\<close>: every member fits its type, as it does in any block that was read. \<open>floats_ok\<close>: one
  rounding to a \<^verbatim>\<open>double\<close> errs by at most \<open>2 ^ - 53\<close> of a number of moderate size.
  \<open>sync_ok\<close>: \<open>fork_ok\<close>, no block number has wrapped around, and the last irreversible block is not above the head.
  \<open>sign_ok\<close>: signing a block changes its signature only. \<open>index_ok\<close>, \<open>history_ok\<close>: the invariants of the two plugins, which hold
  for the empty ones. \<open>commits_itself\<close>: a block that becomes irreversible while it is applied, possible with a single witness only.

  \<^bold>\<open>Not modelled.\<close> The transport and the peers of the peer-to-peer network, the API plugins, JSON-RPC, wallet, command line tools and the
  client library (input and output around the chain); fc's reflection, logging, threads and cryptography (general library code);
  shared memory, locks and flushing; virtual operations and the signals inside the chain, which only notify observers (the two plugins are modelled with the
  operation they observe); the queue between the threads of the chain plugin; interpreters that plugins register for custom operations. Items that only the local branches of
  a fork switch keep alive count as gone.
\<close>

end
